(* ===== verification/Prelude.thy ===== *)
theory Prelude
  imports Main "HOL-Library.Word" "HOL-Library.Monad_Syntax"
begin

text \<open>
  Shared vocabulary of the development: names for the machine types of
  \<^verbatim>\<open>student-distrib/types.h\<close>, byte addressed memory, the view of a C string through
  a pointer, and the generic lemmas on words, lists and memory that the components use.

  Memory is a function from 32 bit addresses to bytes, so address arithmetic wraps as it
  does on the machine. A range of \<open>n\<close> bytes from \<open>a\<close> is described by the distance
  \<open>unat (x - a) < n\<close>, which is right even when the range crosses the top of the address
  space.
\<close>

unbundle bit_operations_syntax

type_synonym u8 = "8 word"
type_synonym u16 = "16 word"
type_synonym u32 = "32 word"
type_synonym addr = "32 word"
type_synonym mem = "32 word \<Rightarrow> 8 word"

text \<open>What a C pointer lets its reader see: \<open>s i\<close> is the expression \<^verbatim>\<open>s[i]\<close>.\<close>

type_synonym cptr = "32 word \<Rightarrow> 8 word"

text \<open>
  \<open>c_simps\<close> collects the unfolding rules of the straight line operations, \<open>mem_simps\<close>
  the facts about memory updates and ranges.
\<close>

named_theorems c_simps
named_theorems mem_simps

section \<open>Words\<close>

lemma unat_of_nat32 [simp]: "n < 4294967296 \<Longrightarrow> unat (word_of_nat n :: u32) = n"
  by (simp add: unat_of_nat take_bit_eq_mod)

lemma unat_eq_nat32: "n < 4294967296 \<Longrightarrow> unat (x :: u32) = n \<longleftrightarrow> x = word_of_nat n"
  by auto

lemma unat_lt32: "unat (x :: u32) < 4294967296"
  using unsigned_less [of x, where ?'a = nat] by simp

lemma unat_lt8: "unat (x :: u8) < 256"
  using unsigned_less [of x, where ?'a = nat] by simp

lemma word_of_nat_inj32:
  "word_of_nat i = (word_of_nat j :: u32) \<Longrightarrow> i < 4294967296 \<Longrightarrow> j < 4294967296 \<Longrightarrow> i = j"
  by (metis unat_of_nat32)

lemma word_of_int_inj32:
  "0 \<le> i \<Longrightarrow> i < 4294967296 \<Longrightarrow> 0 \<le> j \<Longrightarrow> j < 4294967296 \<Longrightarrow>
   (word_of_int i :: u32) = word_of_int j \<longleftrightarrow> i = j"
  by (auto simp: word_of_int_eq_iff take_bit_eq_mod)

lemma uint_less_int: "uint w < int n \<longleftrightarrow> unat w < n"
  by (metis nat_less_iff unat_eq_nat_uint uint_ge_0)

lemma unat_add32: "unat (a :: u32) + unat b < 4294967296 \<Longrightarrow> unat (a + b) = unat a + unat b"
  by (simp add: unat_word_ariths)

lemma unat_Suc32: "(i :: u32) < n \<Longrightarrow> unat (i + 1) = Suc (unat i)"
proof -
  assume "i < n"
  then have "unat i + 1 < 4294967296"
    using unat_lt32 [of n] by (simp add: word_less_nat_alt)
  then show ?thesis by (simp add: unat_add32)
qed

text \<open>The measure of a loop \<^verbatim>\<open>for (; i < n; i++)\<close> over unsigned counters.\<close>

lemma unat_loop_measure: "(i :: u32) < n \<Longrightarrow> unat n - unat (i + 1) < unat n - unat i"
  by (simp add: unat_Suc32 word_less_nat_alt diff_less_mono2)

lemma unat_mult32: "unat (a :: u32) * unat b < 4294967296 \<Longrightarrow> unat (a * b) = unat a * unat b"
  by (simp add: unat_word_ariths)

lemma unat_sub32: "b \<le> a \<Longrightarrow> unat ((a :: u32) - b) = unat a - unat b"
  by (simp add: unat_sub)

lemma word_neq_0_unat: "(x :: 'a::len word) \<noteq> 0 \<longleftrightarrow> 0 < unat x"
  by (simp add: unat_gt_0)

lemma word_less_unat: "(a :: 'a::len word) < b \<longleftrightarrow> unat a < unat b"
  by (simp add: word_less_nat_alt)

lemma word_le_unat: "(a :: 'a::len word) \<le> b \<longleftrightarrow> unat a \<le> unat b"
  by (simp add: word_le_nat_alt)

text \<open>A word below the sign bit is its own signed value.\<close>

lemma sint_small: "unat (w :: u32) < 2147483648 \<Longrightarrow> sint w = int (unat w)"
proof -
  assume "unat w < 2147483648"
  then have "uint w < 2147483648" using uint_less_int [of w 2147483648] by simp
  then have "sint (word_of_int (uint w) :: u32) = uint w"
    by (simp only: int_word_sint) (simp add: mod_pos_pos_trivial)
  then show ?thesis by simp
qed

section \<open>Memory\<close>

text \<open>The bytes of a memory range, and the memory after a byte list is stored at an address.\<close>

definition bytes :: "mem \<Rightarrow> addr \<Rightarrow> nat \<Rightarrow> u8 list" where
  "bytes m a n = map (\<lambda>i. m (a + word_of_nat i)) [0..<n]"

primrec write_bytes :: "addr \<Rightarrow> u8 list \<Rightarrow> mem \<Rightarrow> mem" where
  "write_bytes a [] m = m"
| "write_bytes a (x # xs) m = write_bytes (a + 1) xs (m(a := x))"

text \<open>The range of \<open>n\<close> bytes from \<open>a\<close>, and two ranges without a common address.\<close>

definition in_range :: "addr \<Rightarrow> nat \<Rightarrow> addr \<Rightarrow> bool" where
  "in_range a n x \<longleftrightarrow> unat (x - a) < n"

definition disjoint_range :: "addr \<Rightarrow> nat \<Rightarrow> addr \<Rightarrow> nat \<Rightarrow> bool" where
  "disjoint_range a n b k \<longleftrightarrow> n = 0 \<or> k = 0 \<or> n \<le> unat (b - a) \<and> k \<le> unat (a - b)"

text \<open>A 32 bit little endian load, as \<^verbatim>\<open>*(uint32_t *)p\<close> does it on this machine.\<close>

definition load32 :: "mem \<Rightarrow> addr \<Rightarrow> u32" where
  "load32 m a = ucast (m a) OR push_bit 8 (ucast (m (a + 1)))
     OR push_bit 16 (ucast (m (a + 2))) OR push_bit 24 (ucast (m (a + 3)))"

lemma length_bytes [simp]: "length (bytes m a n) = n"
  by (simp add: bytes_def)

lemma nth_bytes [simp]: "i < n \<Longrightarrow> bytes m a n ! i = m (a + word_of_nat i)"
  by (simp add: bytes_def)

lemma bytes_0 [simp]: "bytes m a 0 = []"
  by (simp add: bytes_def)

lemma bytes_Suc: "bytes m a (Suc n) = bytes m a n @ [m (a + word_of_nat n)]"
  by (simp add: bytes_def)

lemma bytes_eqI: "(\<And>i. i < n \<Longrightarrow> m (a + word_of_nat i) = xs ! i) \<Longrightarrow> length xs = n \<Longrightarrow> bytes m a n = xs"
  by (rule nth_equalityI) auto

lemma bytes_add: "bytes m a (n + k) = bytes m a n @ bytes m (a + word_of_nat n) k"
  by (rule nth_equalityI) (auto simp: nth_append ac_simps)

lemma bytes_cong: "(\<And>i. i < n \<Longrightarrow> m (a + word_of_nat i) = m' (a + word_of_nat i)) \<Longrightarrow> bytes m a n = bytes m' a n"
  by (rule bytes_eqI) auto

lemma range_step: "x \<noteq> a \<Longrightarrow> unat (x - (a + 1 :: u32)) + 1 = unat (x - a)"
proof -
  assume "x \<noteq> a"
  then have "1 \<le> x - a" by (simp add: word_le_unat word_neq_0_unat [symmetric] Suc_le_eq)
  then have "unat (x - a - 1) = unat (x - a) - unat (1 :: u32)" by (rule unat_sub32)
  then have "unat (x - (a + 1)) = unat (x - a) - 1" by (simp only: diff_diff_eq unat_1)
  moreover have "1 \<le> unat (x - a)" using \<open>1 \<le> x - a\<close> by (simp add: word_le_unat)
  ultimately show ?thesis by simp
qed

lemma write_bytes_apply:
  "length xs \<le> 4294967296 \<Longrightarrow>
   write_bytes a xs m x = (if unat (x - a) < length xs then xs ! unat (x - a) else m x)"
proof (induction xs arbitrary: a m)
  case Nil
  then show ?case by simp
next
  case (Cons y ys)
  show ?case
  proof (cases "x = a")
    case True
    have "unat (a - (a + 1)) = 4294967295" by (simp add: unsigned_minus_1_eq_mask mask_eq_exp_minus_1)
    with True Cons show ?thesis by simp
  next
    case False
    then have "unat (x - a) = Suc (unat (x - (a + 1)))" using range_step by simp
    with False Cons show ?thesis by simp
  qed
qed

lemma write_bytes_append:
  "write_bytes a (xs @ ys) m = write_bytes (a + word_of_nat (length xs)) ys (write_bytes a xs m)"
  by (induction xs arbitrary: a m) (auto simp: ac_simps)

lemma write_bytes_snoc [mem_simps]:
  "(write_bytes a xs m)(a + word_of_nat (length xs) := x) = write_bytes a (xs @ [x]) m"
  by (simp add: write_bytes_append)

lemma write_bytes_take_Suc:
  "j < length xs \<Longrightarrow>
   (write_bytes a (take j xs) m)(a + word_of_nat j := xs ! j) = write_bytes a (take (Suc j) xs) m"
  by (simp add: take_Suc_conv_app_nth write_bytes_append)

lemma write_bytes_outside [mem_simps]:
  "length xs \<le> 4294967296 \<Longrightarrow> \<not> in_range a (length xs) x \<Longrightarrow> write_bytes a xs m x = m x"
  by (simp add: write_bytes_apply in_range_def)

lemma write_bytes_inside:
  "length xs < 4294967296 \<Longrightarrow> i < length xs \<Longrightarrow> write_bytes a xs m (a + word_of_nat i) = xs ! i"
  by (simp add: write_bytes_apply)

lemma bytes_write_bytes [mem_simps]:
  "length xs < 4294967296 \<Longrightarrow> bytes (write_bytes a xs m) a (length xs) = xs"
  by (rule bytes_eqI) (auto simp: write_bytes_inside)

lemma range_addr: "unat (x - a) < n \<Longrightarrow> \<exists>i<n. x = (a :: u32) + word_of_nat i"
  by (rule exI [of _ "unat (x - a)"]) auto

lemma in_range_offset: "i < n \<Longrightarrow> n \<le> 4294967296 \<Longrightarrow> in_range a n (a + word_of_nat i)"
  by (simp add: in_range_def)

lemma disjoint_range_sym: "disjoint_range a n b k \<Longrightarrow> disjoint_range b k a n"
  by (auto simp: disjoint_range_def)

lemma disjoint_range_excl:
  assumes "disjoint_range a n b k" and "in_range a n x"
  shows "\<not> in_range b k x"
proof (cases "k = 0")
  case True
  then show ?thesis by (simp add: in_range_def)
next
  case False
  let ?p = "unat (x - a)" and ?e = "unat (a - b)"
  have n: "?p < n" using assms(2) by (simp add: in_range_def)
  then have d: "n \<le> unat (b - a)" and k: "k \<le> ?e"
    using assms(1) False by (auto simp: disjoint_range_def)
  have "unat (b - a) + ?e = 4294967296"
  proof -
    have "b - a \<noteq> 0" using n d by (cases "b = a") auto
    then have "0 < unat (b - a)" by (simp add: unat_gt_0)
    moreover have "(unat (b - a) + ?e) mod 4294967296 = unat ((b - a) + (a - b))"
      by (simp only: unat_word_ariths) simp
    moreover have "unat (b - a) + ?e < 2 * 4294967296"
      using unat_lt32 [of "b - a"] unat_lt32 [of "a - b"] by linarith
    ultimately show ?thesis by (simp add: mod_if split: if_splits)
  qed
  then have "?p + ?e < 4294967296" using n d by linarith
  moreover have "x - b = (x - a) + (a - b)" by simp
  ultimately have "unat (x - b) = ?p + ?e" by (simp only: unat_add32)
  then show ?thesis using k by (simp add: in_range_def)
qed

lemma unat_minus_swap:
  "a \<noteq> (b :: addr) \<Longrightarrow> unat (a - b) = 4294967296 - unat (b - a)"
proof -
  assume "a \<noteq> b"
  then have "b - a \<noteq> 0" by auto
  moreover have "unat (0 - x) = 4294967296 - unat x" if "x \<noteq> 0" for x :: u32
    using that by (simp only: unat_sub_if') (simp add: unat_gt_0)
  ultimately have "unat (0 - (b - a)) = 4294967296 - unat (b - a)" by blast
  then show ?thesis by simp
qed

text \<open>Ranges inside two disjoint ranges are disjoint.\<close>

lemma disjoint_range_sub:
  assumes "disjoint_range a n b k" and "i + n' \<le> n" and "j + k' \<le> k" "n \<le> 4294967296" "k \<le> 4294967296"
  shows "disjoint_range (a + word_of_nat i) n' (b + word_of_nat j) k'"
proof (cases "n' = 0 \<or> k' = 0")
  case True
  then show ?thesis by (auto simp: disjoint_range_def)
next
  case False
  define d where "d = unat (b - a)"
  have n: "n \<le> d" "k \<le> unat (a - b)" using assms(1-3) False by (auto simp: disjoint_range_def d_def)
  then have "a \<noteq> b" using False assms(2) by (auto simp: d_def)
  then have k: "k \<le> 4294967296 - d" using n(2) unat_minus_swap [of a b] by (simp add: d_def)
  have ij: "unat (word_of_nat i :: u32) = i" "unat (word_of_nat j :: u32) = j"
    using False assms(2-5) by simp_all
  have "d + j < 4294967296" using k False assms(3) unat_lt32 [of "b - a"] unfolding d_def by linarith
  then have "unat (b - a + word_of_nat j) = d + j"
    using ij by (subst unat_add32) (simp_all add: d_def)
  moreover have "b + word_of_nat j - (a + word_of_nat i) = (b - a + word_of_nat j) - word_of_nat i" by simp
  moreover have "i \<le> d + j" using n False assms(2) by linarith
  ultimately have fwd: "unat (b + word_of_nat j - (a + word_of_nat i)) = d + j - i"
    using ij(1) by (simp only: unat_sub32 word_le_unat)
  moreover have "0 < d + j - i" using n False assms(2) by linarith
  ultimately have "b + word_of_nat j \<noteq> a + word_of_nat i" by auto
  then have "unat (a + word_of_nat i - (b + word_of_nat j)) = 4294967296 - (d + j - i)"
    using fwd unat_minus_swap by metis
  moreover have "n' \<le> d + j - i" using n(1) assms(2) by linarith
  moreover have "k' \<le> 4294967296 - (d + j - i)" using n k False assms(2,3) by linarith
  ultimately show ?thesis using fwd by (simp add: disjoint_range_def)
qed

section \<open>C strings\<close>

text \<open>
  \<open>ptr p\<close> is the view of the memory through the pointer \<open>p\<close>; \<open>arr xs\<close> the view of an array
  that is an object of its own (a local array, a string literal): such an object is not
  reached through any other pointer, so it is kept outside the flat memory.
  \<open>cstr s xs\<close> says that \<open>s\<close> points to the NUL terminated string \<open>xs\<close>.
\<close>

definition ptr :: "addr \<Rightarrow> mem \<Rightarrow> cptr" where
  "ptr p m = (\<lambda>i. m (p + i))"

definition arr :: "u8 list \<Rightarrow> cptr" where
  "arr xs = (\<lambda>i. if unat i < length xs then xs ! unat i else 0)"

definition cstr :: "cptr \<Rightarrow> u8 list \<Rightarrow> bool" where
  "cstr s xs \<longleftrightarrow> length xs < 4294967296 \<and> 0 \<notin> set xs \<and>
     (\<forall>i<length xs. s (word_of_nat i) = xs ! i) \<and> s (word_of_nat (length xs)) = 0"

text \<open>The bytes of an ASCII literal.\<close>

definition ascii :: "string \<Rightarrow> u8 list" where
  "ascii cs = map of_char cs"

lemma cstr_nth_neq_0: "cstr s xs \<Longrightarrow> i < length xs \<Longrightarrow> s (word_of_nat i) \<noteq> 0"
  unfolding cstr_def by (metis nth_mem)

lemma cstr_end: "cstr s xs \<Longrightarrow> s (word_of_nat (length xs)) = 0"
  by (simp add: cstr_def)

lemma cstr_nth: "cstr s xs \<Longrightarrow> i < length xs \<Longrightarrow> s (word_of_nat i) = xs ! i"
  by (simp add: cstr_def)

lemma cstr_length: "cstr s xs \<Longrightarrow> length xs < 4294967296"
  by (simp add: cstr_def)

lemma cstr_length_unique:
  assumes "cstr s xs" and "cstr s ys"
  shows "length xs = length ys"
proof (rule ccontr)
  assume "length xs \<noteq> length ys"
  then consider "length xs < length ys" | "length ys < length xs" by linarith
  then show False
  proof cases
    case 1
    show False
      using cstr_nth_neq_0 [OF assms(2) 1] cstr_end [OF assms(1)] by simp
  next
    case 2
    show False
      using cstr_nth_neq_0 [OF assms(1) 2] cstr_end [OF assms(2)] by simp
  qed
qed

lemma cstr_unique:
  assumes "cstr s xs" and "cstr s ys"
  shows "xs = ys"
proof (rule nth_equalityI)
  show len: "length xs = length ys" using assms by (rule cstr_length_unique)
  fix i
  assume "i < length xs"
  then show "xs ! i = ys ! i" using cstr_nth assms len by metis
qed

lemma cstr_ptr_bytes: "cstr (ptr p m) xs \<Longrightarrow> bytes m p (length xs) = xs"
  by (rule bytes_eqI) (auto simp: cstr_def ptr_def)

lemma cstr_ptr_write:
  "length xs + 1 < 4294967296 \<Longrightarrow> 0 \<notin> set xs \<Longrightarrow> cstr (ptr p (write_bytes p (xs @ [0]) m)) xs"
  by (auto simp: cstr_def ptr_def write_bytes_apply nth_append)

lemma cstr_ptr_cong:
  assumes "cstr (ptr p m) xs" and "\<And>i. i \<le> length xs \<Longrightarrow> m' (p + word_of_nat i) = m (p + word_of_nat i)"
  shows "cstr (ptr p m') xs"
  using assms by (auto simp: cstr_def ptr_def)

lemma cstr_arr: "0 \<notin> set xs \<Longrightarrow> length xs < 4294967296 \<Longrightarrow> cstr (arr (xs @ 0 # ys)) xs"
  by (auto simp: cstr_def arr_def nth_append)

text \<open>
  \<open>unaffected src m dest k n\<close>: the first \<open>k\<close> bytes that \<open>src\<close> sees do not change when only
  the \<open>n\<close> bytes at \<open>dest\<close> are written. An object of its own is never affected; a pointer is
  not when the two ranges are disjoint.
\<close>

definition unaffected :: "(mem \<Rightarrow> cptr) \<Rightarrow> mem \<Rightarrow> addr \<Rightarrow> nat \<Rightarrow> nat \<Rightarrow> bool" where
  "unaffected src m dest k n \<longleftrightarrow>
     (\<forall>m'. (\<forall>x. \<not> in_range dest n x \<longrightarrow> m' x = m x) \<longrightarrow>
       (\<forall>i<k. src m' (word_of_nat i) = src m (word_of_nat i)))"

lemma unaffected_object [simp]: "unaffected (\<lambda>_. r) m dest k n"
  by (simp add: unaffected_def)

lemma unaffected_ptr:
  assumes "disjoint_range dest n p k" and "k \<le> 4294967296"
  shows "unaffected (ptr p) m dest k n"
proof -
  have "\<not> in_range dest n (p + word_of_nat i)" if "i < k" for i
    using disjoint_range_excl [OF disjoint_range_sym [OF assms(1)]
        in_range_offset [OF that assms(2)]] .
  then show ?thesis unfolding unaffected_def ptr_def by blast
qed

lemma unaffected_write:
  assumes "unaffected src m dest k n" and "i < k" and "length xs \<le> n" and "n \<le> 4294967296"
  shows "src (write_bytes dest xs m) (word_of_nat i) = src m (word_of_nat i)"
proof -
  have "\<forall>x. \<not> in_range dest n x \<longrightarrow> write_bytes dest xs m x = m x"
    using assms(3,4) by (auto simp: write_bytes_apply in_range_def)
  then show ?thesis using assms(1,2) unfolding unaffected_def by blast
qed

end
