(* ===== verification/Lib_String.thy ===== *)
theory Lib_String
  imports Prelude
begin

text \<open>
  The string and memory routines of \<^verbatim>\<open>student-distrib/lib.c\<close>: \<^verbatim>\<open>strlen\<close>, \<^verbatim>\<open>strncmp\<close>,
  \<^verbatim>\<open>strcpy\<close>, \<^verbatim>\<open>strncpy\<close>, \<^verbatim>\<open>strrev\<close>, \<^verbatim>\<open>itoa\<close> and the assembly of \<^verbatim>\<open>memset\<close>,
  \<^verbatim>\<open>memset_word\<close>, \<^verbatim>\<open>memset_dword\<close>, \<^verbatim>\<open>memcpy\<close> and \<^verbatim>\<open>memmove\<close>. A loop that stops only when it
  finds a NUL is \<open>None\<close> when there is none.
\<close>

unbundle bit_operations_syntax

section \<open>Definitions\<close>

subsection \<open>Strings\<close>

text \<open>\<^verbatim>\<open>while (s[len] != '\0') len++;\<close>\<close>

partial_function (option) strlen_loop :: "cptr \<Rightarrow> u32 \<Rightarrow> u32 option" where
  "strlen_loop s len = (if s len \<noteq> 0 then strlen_loop s (len + 1) else Some len)"

definition strlen :: "cptr \<Rightarrow> u32 option" where
  "strlen s = strlen_loop s 0"

text \<open>
  The characters are \<^verbatim>\<open>int8_t\<close>, so the difference that \<^verbatim>\<open>strncmp\<close> returns is of the signed
  values. The counter and \<open>n\<close> are compared as unsigned numbers.
\<close>

function strncmp_loop :: "cptr \<Rightarrow> cptr \<Rightarrow> u32 \<Rightarrow> u32 \<Rightarrow> int" where
  "strncmp_loop s1 s2 n i =
     (if i < n then
        (if s1 i \<noteq> s2 i \<or> s1 i = 0 then sint (s1 i) - sint (s2 i)
         else strncmp_loop s1 s2 n (i + 1))
      else 0)"
  by pat_completeness auto
termination
proof (relation "measure (\<lambda>(s1, s2, n, i). unat n - unat i)", goal_cases)
  case 1
  show ?case by simp
next
  case (2 s1 s2 n i)
  then show ?case using unat_loop_measure by simp
qed

declare strncmp_loop.simps [simp del]

definition strncmp :: "cptr \<Rightarrow> cptr \<Rightarrow> u32 \<Rightarrow> int" where
  "strncmp s1 s2 n = strncmp_loop s1 s2 n 0"

text \<open>
  The copying routines. The source is given as a view of the memory that is written
  (\<open>ptr p\<close> for a pointer into the same memory), so an overlap is read as it happens; a
  source in another object is \<open>\<lambda>_. arr xs\<close>.
\<close>

partial_function (option) strcpy_loop :: "mem \<Rightarrow> addr \<Rightarrow> (mem \<Rightarrow> cptr) \<Rightarrow> u32 \<Rightarrow> mem option" where
  "strcpy_loop m dest src i =
     (if src m i \<noteq> 0 then strcpy_loop (m(dest + i := src m i)) dest src (i + 1)
      else Some (m(dest + i := 0)))"

definition strcpy :: "mem \<Rightarrow> addr \<Rightarrow> (mem \<Rightarrow> cptr) \<Rightarrow> mem option" where
  "strcpy m dest src = strcpy_loop m dest src 0"

function strncpy_copy :: "mem \<Rightarrow> addr \<Rightarrow> (mem \<Rightarrow> cptr) \<Rightarrow> u32 \<Rightarrow> u32 \<Rightarrow> mem \<times> u32" where
  "strncpy_copy m dest src n i =
     (if src m i \<noteq> 0 \<and> i < n
      then strncpy_copy (m(dest + i := src m i)) dest src n (i + 1) else (m, i))"
  by pat_completeness auto
termination
proof (relation "measure (\<lambda>(m, dest, src, n, i). unat n - unat i)", goal_cases)
  case 1
  show ?case by simp
next
  case (2 m dest src n i)
  then show ?case using unat_loop_measure by simp
qed

function strncpy_pad :: "mem \<Rightarrow> addr \<Rightarrow> u32 \<Rightarrow> u32 \<Rightarrow> mem" where
  "strncpy_pad m dest n i =
     (if i < n then strncpy_pad (m(dest + i := 0)) dest n (i + 1) else m)"
  by pat_completeness auto
termination
proof (relation "measure (\<lambda>(m, dest, n, i). unat n - unat i)", goal_cases)
  case 1
  show ?case by simp
next
  case (2 m dest n i)
  then show ?case using unat_loop_measure by simp
qed

declare strncpy_copy.simps [simp del] strncpy_pad.simps [simp del]

definition strncpy :: "mem \<Rightarrow> addr \<Rightarrow> (mem \<Rightarrow> cptr) \<Rightarrow> u32 \<Rightarrow> mem" where
  "strncpy m dest src n = (let (m', i) = strncpy_copy m dest src n 0 in strncpy_pad m' dest n i)"

text \<open>
  \<^verbatim>\<open>strrev\<close> swaps from both ends. Its counters are \<^verbatim>\<open>int32_t\<close> values between -1 and the
  length, so they are integers here; \<^verbatim>\<open>strlen(s) - 1\<close> is computed unsigned and converted.
\<close>

function strrev_loop :: "mem \<Rightarrow> addr \<Rightarrow> int \<Rightarrow> int \<Rightarrow> mem" where
  "strrev_loop m s beg fin =
     (if beg < fin then
        (let tmp = m (s + word_of_int fin);
             m1 = m(s + word_of_int fin := m (s + word_of_int beg));
             m2 = m1(s + word_of_int beg := tmp)
         in strrev_loop m2 s (beg + 1) (fin - 1))
      else m)"
  by pat_completeness auto
termination
  by (relation "measure (\<lambda>(m, s, beg, fin). nat (fin - beg))") auto

declare strrev_loop.simps [simp del]

definition strrev :: "mem \<Rightarrow> addr \<Rightarrow> mem option" where
  "strrev m s = do {
     len \<leftarrow> strlen (ptr s m);
     Some (strrev_loop m s 0 (sint (len - 1))) }"

text \<open>
  \<^verbatim>\<open>itoa\<close> divides by the radix converted to unsigned: radix 0 traps, and a digit past the
  table of 37 bytes is an out of bounds read; both are \<open>None\<close>.
\<close>

definition lookup :: "u8 list" where
  "lookup = ascii ''0123456789ABCDEFGHIJKLMNOPQRSTUVWXYZ'' @ [0]"

partial_function (option) itoa_loop :: "mem \<Rightarrow> u32 \<Rightarrow> addr \<Rightarrow> u32 \<Rightarrow> (mem \<times> addr) option" where
  "itoa_loop m newval newbuf radix =
     (if 0 < newval then
        (if radix = 0 \<or> unat (newval mod radix) \<ge> length lookup then None
         else itoa_loop (m(newbuf := lookup ! unat (newval mod radix)))
                (newval div radix) (newbuf + 1) radix)
      else Some (m, newbuf))"

definition itoa :: "u32 \<Rightarrow> mem \<Rightarrow> addr \<Rightarrow> u32 \<Rightarrow> mem option" where
  "itoa val m buf radix =
     (if val = 0 then Some (m(buf := of_char (CHR ''0''), buf + 1 := 0))
      else do {
        (m1, newbuf) \<leftarrow> itoa_loop m val buf radix;
        strrev (m1(newbuf := 0)) buf })"

subsection \<open>Memory\<close>

text \<open>
  The assembly routines. A count is the value of \<^verbatim>\<open>ecx\<close>, which only counts down, so it is a
  natural number. \<open>rep_stosb\<close> is the byte loop at a label (or \<^verbatim>\<open>rep stosb\<close>), \<open>rep_stosl\<close>
  stores the four bytes of \<^verbatim>\<open>eax\<close> lowest first.
\<close>

fun rep_stosb :: "u8 \<Rightarrow> addr \<Rightarrow> nat \<Rightarrow> mem \<Rightarrow> mem" where
  "rep_stosb al edi 0 m = m"
| "rep_stosb al edi (Suc n) m = rep_stosb al (edi + 1) n (m(edi := al))"

definition store16 :: "addr \<Rightarrow> u16 \<Rightarrow> mem \<Rightarrow> mem" where
  "store16 a v m = m(a := ucast v, a + 1 := ucast (drop_bit 8 v))"

definition store32 :: "addr \<Rightarrow> u32 \<Rightarrow> mem \<Rightarrow> mem" where
  "store32 a v m = m(a := ucast v, a + 1 := ucast (drop_bit 8 v),
     a + 2 := ucast (drop_bit 16 v), a + 3 := ucast (drop_bit 24 v))"

fun rep_stosw :: "u16 \<Rightarrow> addr \<Rightarrow> nat \<Rightarrow> mem \<Rightarrow> mem" where
  "rep_stosw ax edi 0 m = m"
| "rep_stosw ax edi (Suc n) m = rep_stosw ax (edi + 2) n (store16 edi ax m)"

fun rep_stosl :: "u32 \<Rightarrow> addr \<Rightarrow> nat \<Rightarrow> mem \<Rightarrow> addr \<times> mem" where
  "rep_stosl eax edi 0 m = (edi, m)"
| "rep_stosl eax edi (Suc n) m = rep_stosl eax (edi + 4) n (store32 edi eax m)"

text \<open>The byte stores up to a 4 byte boundary: label \<^verbatim>\<open>.memset_top\<close>.\<close>

fun memset_top :: "u8 \<Rightarrow> addr \<Rightarrow> nat \<Rightarrow> mem \<Rightarrow> addr \<times> nat \<times> mem" where
  "memset_top al edi 0 m = (edi, 0, m)"
| "memset_top al edi (Suc n) m =
     (if edi AND 3 = 0 then (edi, Suc n, m) else memset_top al (edi + 1) n (m(edi := al)))"

definition memset :: "mem \<Rightarrow> addr \<Rightarrow> u32 \<Rightarrow> u32 \<Rightarrow> mem" where
  "memset m s c0 n =
     (let c = c0 AND 0xFF;
          eax = push_bit 24 c OR push_bit 16 c OR push_bit 8 c OR c;
          (edi, ecx, m1) = memset_top (ucast eax) s (unat n) m
      in if ecx = 0 then m1
         else let edx = ecx mod 4; (edi', m2) = rep_stosl eax edi (ecx div 4) m1
              in rep_stosb (ucast eax) edi' edx m2)"

definition memset_word :: "mem \<Rightarrow> addr \<Rightarrow> u32 \<Rightarrow> u32 \<Rightarrow> mem" where
  "memset_word m s c n = rep_stosw (ucast c) s (unat n) m"

definition memset_dword :: "mem \<Rightarrow> addr \<Rightarrow> u32 \<Rightarrow> u32 \<Rightarrow> mem" where
  "memset_dword m s c n = snd (rep_stosl c s (unat n) m)"

text \<open>\<^verbatim>\<open>memcpy\<close>: bytes to a boundary of the destination, \<^verbatim>\<open>rep movsl\<close>, the rest in bytes.\<close>

fun rep_movsb :: "addr \<Rightarrow> addr \<Rightarrow> nat \<Rightarrow> mem \<Rightarrow> mem" where
  "rep_movsb edi esi 0 m = m"
| "rep_movsb edi esi (Suc n) m = rep_movsb (edi + 1) (esi + 1) n (m(edi := m esi))"

fun rep_movsl :: "addr \<Rightarrow> addr \<Rightarrow> nat \<Rightarrow> mem \<Rightarrow> addr \<times> addr \<times> mem" where
  "rep_movsl edi esi 0 m = (edi, esi, m)"
| "rep_movsl edi esi (Suc n) m = rep_movsl (edi + 4) (esi + 4) n (store32 edi (load32 m esi) m)"

fun memcpy_top :: "addr \<Rightarrow> addr \<Rightarrow> nat \<Rightarrow> mem \<Rightarrow> addr \<times> addr \<times> nat \<times> mem" where
  "memcpy_top edi esi 0 m = (edi, esi, 0, m)"
| "memcpy_top edi esi (Suc n) m =
     (if edi AND 3 = 0 then (edi, esi, Suc n, m)
      else memcpy_top (edi + 1) (esi + 1) n (m(edi := m esi)))"

definition memcpy :: "mem \<Rightarrow> addr \<Rightarrow> addr \<Rightarrow> u32 \<Rightarrow> mem" where
  "memcpy m dest src n =
     (let (edi, esi, ecx, m1) = memcpy_top dest src (unat n) m
      in if ecx = 0 then m1
         else let edx = ecx mod 4; (edi', esi', m2) = rep_movsl edi esi (ecx div 4) m1
              in rep_movsb edi' esi' edx m2)"

text \<open>
  \<^verbatim>\<open>memmove\<close> copies upwards when the source is not below the destination, and downwards
  from the last byte, with the direction flag set, otherwise.
\<close>

fun rep_movsb_down :: "addr \<Rightarrow> addr \<Rightarrow> nat \<Rightarrow> mem \<Rightarrow> mem" where
  "rep_movsb_down edi esi 0 m = m"
| "rep_movsb_down edi esi (Suc n) m = rep_movsb_down (edi - 1) (esi - 1) n (m(edi := m esi))"

definition memmove :: "mem \<Rightarrow> addr \<Rightarrow> addr \<Rightarrow> u32 \<Rightarrow> mem" where
  "memmove m dest src n =
     (if dest \<le> src then rep_movsb dest src (unat n) m
      else rep_movsb_down (dest + n - 1) (src + n - 1) (unat n) m)"

section \<open>Strings: correctness\<close>

subsection \<open>strlen\<close>

lemma strlen_loop_cstr:
  "cstr s xs \<Longrightarrow> j \<le> length xs \<Longrightarrow> strlen_loop s (word_of_nat j) = Some (word_of_nat (length xs))"
proof (induction "length xs - j" arbitrary: j)
  case 0
  then have "j = length xs" by simp
  with 0 show ?case by (subst strlen_loop.simps) (simp add: cstr_end)
next
  case (Suc k)
  then have j: "j < length xs" by simp
  from Suc.hyps(1) [of "Suc j"] Suc.hyps(2) Suc.prems j
  have "strlen_loop s (word_of_nat (Suc j)) = Some (word_of_nat (length xs))" by simp
  moreover have "s (word_of_nat j) \<noteq> 0" using cstr_nth_neq_0 Suc.prems(1) j .
  ultimately show ?case by (subst strlen_loop.simps) (simp add: add.commute)
qed

lemma strlen_cstr: "cstr s xs \<Longrightarrow> strlen s = Some (word_of_nat (length xs))"
  using strlen_loop_cstr [of s xs 0] by (simp add: strlen_def)

subsection \<open>strncmp\<close>

text \<open>
  What a bounded comparison of two strings returns: the signed difference at the first of the
  \<open>n\<close> positions where they differ (the end of a string counts as a NUL), else 0.
\<close>

fun compare :: "u8 list \<Rightarrow> u8 list \<Rightarrow> nat \<Rightarrow> int" where
  "compare xs ys 0 = 0"
| "compare [] [] (Suc n) = 0"
| "compare [] (y # ys) (Suc n) = - sint y"
| "compare (x # xs) [] (Suc n) = sint x"
| "compare (x # xs) (y # ys) (Suc n) = (if x = y then compare xs ys n else sint x - sint y)"

lemma sint_inject: "sint (a :: u8) = sint b \<longleftrightarrow> a = b"
  by (simp add: word_eq_iff_signed [symmetric])

lemma sint_eq_0: "sint (a :: u8) = 0 \<longleftrightarrow> a = 0"
  using sint_inject [of a 0] by simp

lemma compare_eq_0:
  "0 \<notin> set xs \<Longrightarrow> 0 \<notin> set ys \<Longrightarrow> compare xs ys n = 0 \<longleftrightarrow> take n xs = take n ys"
  by (induction xs ys n rule: compare.induct) (auto simp: sint_eq_0 sint_inject)

lemma strncmp_loop_compare:
  assumes "cstr s1 xs" and "cstr s2 ys"
  shows "j \<le> length xs \<Longrightarrow> j \<le> length ys \<Longrightarrow> j \<le> unat n \<Longrightarrow>
    strncmp_loop s1 s2 n (word_of_nat j) = compare (drop j xs) (drop j ys) (unat n - j)"
proof (induction "unat n - j" arbitrary: j)
  case 0
  then have "j = unat n" by simp
  then show ?case by (subst strncmp_loop.simps) simp
next
  case (Suc k)
  then have j: "word_of_nat j < n" "unat n - j = Suc (unat n - Suc j)"
    using unat_lt32 [of n] by (auto simp: word_less_unat)
  have IH: "Suc j \<le> length xs \<Longrightarrow> Suc j \<le> length ys \<Longrightarrow> strncmp_loop s1 s2 n (word_of_nat j + 1)
      = compare (drop (Suc j) xs) (drop (Suc j) ys) (unat n - Suc j)"
    using Suc.hyps(1) [of "Suc j"] Suc.hyps(2) Suc.prems by (simp add: add.commute)
  note strs = cstr_nth [OF assms(1)] cstr_nth [OF assms(2)] cstr_end [OF assms(1)] cstr_end [OF assms(2)]
    cstr_nth_neq_0 [OF assms(1), of j] cstr_nth_neq_0 [OF assms(2), of j]
  consider "j < length xs" "j < length ys" | "j < length xs" "j = length ys"
    | "j = length xs" "j < length ys" | "j = length xs" "j = length ys"
    using Suc.prems by linarith
  then show ?case
    using j strs IH
    by cases (subst strncmp_loop.simps; simp add: Cons_nth_drop_Suc [symmetric])+
qed

lemma strncmp_compare:
  "cstr s1 xs \<Longrightarrow> cstr s2 ys \<Longrightarrow> strncmp s1 s2 n = compare xs ys (unat n)"
  using strncmp_loop_compare [of s1 xs s2 ys 0 n] by (simp add: strncmp_def)

lemma cstr_no_nul: "cstr s xs \<Longrightarrow> 0 \<notin> set xs"
  by (simp add: cstr_def)

lemma strncmp_eq_0:
  "cstr s1 xs \<Longrightarrow> cstr s2 ys \<Longrightarrow> strncmp s1 s2 n = 0 \<longleftrightarrow> take (unat n) xs = take (unat n) ys"
  by (simp add: strncmp_compare compare_eq_0 cstr_no_nul)

subsection \<open>strcpy and strncpy\<close>

lemma strcpy_loop_write:
  assumes "cstr (src m) xs" and "unaffected src m dest (Suc (length xs)) (Suc (length xs))"
    and "length xs + 1 < 4294967296"
  shows "j \<le> length xs \<Longrightarrow>
    strcpy_loop (write_bytes dest (take j xs) m) dest src (word_of_nat j) = Some (write_bytes dest (xs @ [0]) m)"
proof (induction "length xs - j" arbitrary: j)
  case 0
  then show ?case
    using unaffected_write [OF assms(2), of j "take j xs"] cstr_end [OF assms(1)] assms(3)
    by (subst strcpy_loop.simps) (simp add: write_bytes_append)
next
  case (Suc k)
  then have "src (write_bytes dest (take j xs) m) (word_of_nat j) = xs ! j" "xs ! j \<noteq> 0"
    using unaffected_write [OF assms(2), of j "take j xs"] assms(3)
      cstr_nth [OF assms(1), of j] cstr_nth_neq_0 [OF assms(1), of j] by auto
  moreover have "strcpy_loop (write_bytes dest (take (Suc j) xs) m) dest src (word_of_nat j + 1)
      = Some (write_bytes dest (xs @ [0]) m)"
    using Suc.hyps(1) [of "Suc j"] Suc.hyps(2) by (simp add: add.commute)
  moreover have "j < length xs" using Suc.hyps(2) by simp
  ultimately show ?case
    by (subst strcpy_loop.simps) (simp add: write_bytes_take_Suc [symmetric])
qed

lemma strcpy_write:
  assumes "cstr (src m) xs" and "unaffected src m dest (Suc (length xs)) (Suc (length xs))"
    and "length xs + 1 < 4294967296"
  shows "strcpy m dest src = Some (write_bytes dest (xs @ [0]) m)"
  using strcpy_loop_write [OF assms, of 0] by (simp add: strcpy_def)

text \<open>The \<open>n\<close> bytes that \<^verbatim>\<open>strncpy\<close> stores: the string cut at \<open>n\<close>, filled up with NULs.\<close>

definition strncpy_bytes :: "cptr \<Rightarrow> nat \<Rightarrow> u8 list" where
  "strncpy_bytes s n =
     (let xs = takeWhile (\<lambda>c. c \<noteq> 0) (map (\<lambda>i. s (word_of_nat i)) [0..<n])
      in xs @ replicate (n - length xs) 0)"

lemma length_strncpy_bytes [simp]: "length (strncpy_bytes s n) = n"
proof -
  have "length (takeWhile (\<lambda>c. c \<noteq> 0) (map (\<lambda>i. s (word_of_nat i)) [0..<n])) \<le> n"
    using length_takeWhile_le [of _ "map (\<lambda>i. s (word_of_nat i)) [0..<n]"] by simp
  then show ?thesis by (simp add: strncpy_bytes_def Let_def)
qed

text \<open>The length of the source inside the first \<open>n\<close> positions.\<close>

definition strn_len :: "cptr \<Rightarrow> nat \<Rightarrow> nat" where
  "strn_len s n = length (takeWhile (\<lambda>c. c \<noteq> 0) (map (\<lambda>i. s (word_of_nat i)) [0..<n]))"

lemma strn_len_le: "strn_len s n \<le> n"
  unfolding strn_len_def
  using length_takeWhile_le [of "\<lambda>c. c \<noteq> 0" "map (\<lambda>i. s (word_of_nat i)) [0..<n]"] by simp

lemma strn_len_nonzero: "i < strn_len s n \<Longrightarrow> s (word_of_nat i) \<noteq> 0"
proof -
  assume i: "i < strn_len s n"
  let ?l = "map (\<lambda>i. s (word_of_nat i)) [0..<n]"
  have "takeWhile (\<lambda>c. c \<noteq> 0) ?l ! i \<in> set (takeWhile (\<lambda>c. c \<noteq> 0) ?l)"
    using i by (intro nth_mem) (simp add: strn_len_def)
  then have "takeWhile (\<lambda>c. c \<noteq> 0) ?l ! i \<noteq> 0" by (blast dest: set_takeWhileD)
  moreover have "takeWhile (\<lambda>c. c \<noteq> 0) ?l ! i = s (word_of_nat i)"
    using i strn_len_le [of s n] by (subst takeWhile_nth) (auto simp: strn_len_def)
  ultimately show ?thesis by simp
qed

lemma strn_len_stop: "strn_len s n < n \<Longrightarrow> s (word_of_nat (strn_len s n)) = 0"
  using nth_length_takeWhile [of "\<lambda>c. c \<noteq> 0" "map (\<lambda>i. s (word_of_nat i)) [0..<n]"]
  by (simp add: strn_len_def)

lemma strncpy_bytes_eq:
  "strncpy_bytes s n = map (\<lambda>i. s (word_of_nat i)) [0..<strn_len s n] @ replicate (n - strn_len s n) 0"
proof -
  let ?l = "map (\<lambda>i. s (word_of_nat i)) [0..<n]"
  have "takeWhile (\<lambda>c. c \<noteq> 0) ?l = take (strn_len s n) ?l"
    unfolding strn_len_def by (rule takeWhile_eq_take)
  also have "\<dots> = map (\<lambda>i. s (word_of_nat i)) [0..<strn_len s n]"
    using strn_len_le [of s n] by (simp add: take_map)
  finally have eq: "takeWhile (\<lambda>c. c \<noteq> 0) ?l = map (\<lambda>i. s (word_of_nat i)) [0..<strn_len s n]" .
  show ?thesis by (simp only: strncpy_bytes_def Let_def strn_len_def [symmetric] eq length_map length_upt diff_zero)
qed

lemma strncpy_bytes_nth:
  "i < n \<Longrightarrow> strncpy_bytes s n ! i = (if i < strn_len s n then s (word_of_nat i) else 0)"
  by (simp add: strncpy_bytes_eq nth_append)

lemma strn_len_cstr: "cstr s xs \<Longrightarrow> strn_len s n = min n (length xs)"
proof (rule antisym)
  assume s: "cstr s xs"
  have "\<not> length xs < strn_len s n" using strn_len_nonzero cstr_end [OF s] by blast
  then show "strn_len s n \<le> min n (length xs)" using strn_len_le [of s n] by simp
  show "min n (length xs) \<le> strn_len s n"
    using strn_len_stop [of s n] cstr_nth_neq_0 [OF s, of "strn_len s n"]
    by (metis linorder_not_less min_less_iff_conj)
qed

lemma strncpy_bytes_cstr:
  "cstr s xs \<Longrightarrow> strncpy_bytes s n = take n xs @ replicate (n - length xs) 0"
  by (rule nth_equalityI)
    (auto simp: strncpy_bytes_nth strn_len_cstr nth_append cstr_nth min_def)

lemma strncpy_copy_write:
  fixes n :: u32
  assumes "unaffected src m dest (unat n) (unat n)"
  defines "l \<equiv> strn_len (src m) (unat n)" and "xs \<equiv> strncpy_bytes (src m) (unat n)"
  shows "j \<le> l \<Longrightarrow> strncpy_copy (write_bytes dest (take j xs) m) dest src n (word_of_nat j)
    = (write_bytes dest (take l xs) m, word_of_nat l)"
proof (induction "l - j" arbitrary: j)
  case 0
  then have j: "j = l" by simp
  have "word_of_nat l < n \<Longrightarrow> src (write_bytes dest (take l xs) m) (word_of_nat l) = 0"
  proof -
    assume "word_of_nat l < n"
    then have "l < unat n"
      using unat_lt32 [of n] strn_len_le [of "src m" "unat n"] by (simp add: l_def word_less_unat)
    then show "src (write_bytes dest (take l xs) m) (word_of_nat l) = 0"
      using unaffected_write [OF assms(1), of l "take l xs"] strn_len_stop [of "src m" "unat n"] unat_lt32 [of n]
      by (simp add: l_def xs_def)
  qed
  then show ?case unfolding j by (subst strncpy_copy.simps) auto
next
  case (Suc k)
  then have j: "j < l" by simp
  then have jn: "j < unat n" using strn_len_le [of "src m" "unat n"] by (simp add: l_def)
  then have "word_of_nat j < n" using unat_lt32 [of n] by (simp add: word_less_unat)
  moreover have "src (write_bytes dest (take j xs) m) (word_of_nat j) = xs ! j" "xs ! j \<noteq> 0"
    using unaffected_write [OF assms(1) jn, of "take j xs"] unat_lt32 [of n] j jn
      strn_len_nonzero [of j "src m" "unat n"]
    by (simp_all add: xs_def l_def strncpy_bytes_nth)
  moreover have "j < length xs" using jn by (simp add: xs_def)
  ultimately show ?case
    using Suc.hyps(1) [of "Suc j"] Suc.hyps(2)
    by (subst strncpy_copy.simps) (simp add: write_bytes_take_Suc [symmetric] add.commute)
qed

lemma strncpy_pad_write:
  "length ys \<le> unat n \<Longrightarrow> strncpy_pad (write_bytes dest ys m) dest n (word_of_nat (length ys))
   = write_bytes dest (ys @ replicate (unat n - length ys) 0) m"
proof (induction "unat n - length ys" arbitrary: ys)
  case 0
  then have "length ys = unat n" by simp
  then show ?case by (subst strncpy_pad.simps) simp
next
  case (Suc k)
  then have "length ys < unat n" by simp
  then have "word_of_nat (length ys) < n" using unat_lt32 [of n] by (simp add: word_less_unat)
  moreover have "replicate (unat n - length ys) (0 :: u8) = 0 # replicate (unat n - length (ys @ [0 :: u8])) 0"
    using \<open>length ys < unat n\<close> by (simp add: replicate_Suc [symmetric] Suc_diff_Suc del: replicate_Suc)
  ultimately show ?case
    using Suc.hyps(1) [of "ys @ [0]"] Suc.hyps(2)
    by (subst strncpy_pad.simps) (simp add: write_bytes_snoc add.commute)
qed

lemma strncpy_write:
  assumes "unaffected src m dest (unat n) (unat n)"
  shows "strncpy m dest src n = write_bytes dest (strncpy_bytes (src m) (unat n)) m"
proof -
  let ?l = "strn_len (src m) (unat n)" and ?xs = "strncpy_bytes (src m) (unat n)"
  have l: "?l \<le> unat n" by (rule strn_len_le)
  have take: "take ?l ?xs = map (\<lambda>i. src m (word_of_nat i)) [0..<?l]" by (simp add: strncpy_bytes_eq)
  have "strncpy_copy m dest src n 0 = (write_bytes dest (take ?l ?xs) m, word_of_nat ?l)"
    using strncpy_copy_write [OF assms, of 0] by simp
  then have "strncpy m dest src n = strncpy_pad (write_bytes dest (take ?l ?xs) m) dest n (word_of_nat ?l)"
    by (simp add: strncpy_def)
  also have "\<dots> = write_bytes dest (take ?l ?xs @ replicate (unat n - ?l) 0) m"
    using strncpy_pad_write [of "take ?l ?xs" n dest m] l by (simp add: min.absorb2)
  also have "take ?l ?xs @ replicate (unat n - ?l) 0 = ?xs" unfolding take by (simp add: strncpy_bytes_eq)
  finally show ?thesis .
qed

subsection \<open>strrev\<close>

text \<open>After the loop the positions between the two counters hold the mirrored bytes.\<close>

lemma strrev_loop_apply:
  "0 \<le> beg \<Longrightarrow> fin < 2147483648 \<Longrightarrow>
   strrev_loop m s beg fin x =
     (if beg \<le> uint (x - s) \<and> uint (x - s) \<le> fin then m (s + word_of_int (beg + fin - uint (x - s))) else m x)"
proof (induction m s beg fin arbitrary: x rule: strrev_loop.induct)
  case (1 m s beg fin)
  define u where "u = uint (x - s)"
  have x: "s + word_of_int u = x" by (simp add: u_def)
  have bound: "0 \<le> u" "u < 4294967296" using uint_lt2p [of "x - s"] by (auto simp: u_def)
  show ?case
  proof (cases "beg < fin")
    case False
    show ?thesis
    proof (cases "beg \<le> u \<and> u \<le> fin")
      case True
      with False have "fin = beg" "u = beg" by simp_all
      then show ?thesis using x by (subst strrev_loop.simps) (simp add: u_def [symmetric])
    next
      case nin: False
      with False show ?thesis by (subst strrev_loop.simps) (auto simp: u_def [symmetric])
    qed
  next
    case True
    let ?m1 = "m(s + word_of_int fin := m (s + word_of_int beg))"
    define m2 where "m2 = ?m1(s + word_of_int beg := m (s + word_of_int fin))"
    have m2: "m2 (s + word_of_int j) =
        m (s + word_of_int (if j = beg then fin else if j = fin then beg else j))"
      if "0 \<le> j" "j < 4294967296" for j
      using that "1.prems" True by (simp add: word_of_int_inj32 m2_def)
    have "strrev_loop m s beg fin x = strrev_loop m2 s (beg + 1) (fin - 1) x"
      using True by (subst strrev_loop.simps) (simp add: Let_def m2_def)
    also have "\<dots> = (if beg + 1 \<le> u \<and> u \<le> fin - 1
        then m2 (s + word_of_int (beg + 1 + (fin - 1) - u)) else m2 x)"
      unfolding m2_def u_def by (rule "1.IH" [OF True refl refl refl]) (use "1.prems" in linarith)+
    also have "\<dots> = (if beg + 1 \<le> u \<and> u \<le> fin - 1
        then m2 (s + word_of_int (beg + 1 + (fin - 1) - u)) else m2 (s + word_of_int u))"
      using x by simp
    also have "\<dots> = (if beg \<le> u \<and> u \<le> fin then m (s + word_of_int (beg + fin - u)) else m (s + word_of_int u))"
      using "1.prems" True bound by (auto simp: m2 simp del: of_int_diff of_int_add)
    finally show ?thesis using x by (simp add: u_def)
  qed
qed

lemma strrev_write:
  assumes "cstr (ptr s m) xs" and "length xs < 2147483648"
  shows "strrev m s = Some (write_bytes s (rev xs) m)"
proof -
  let ?n = "length xs"
  have len: "strlen (ptr s m) = Some (word_of_nat ?n)" using assms(1) by (rule strlen_cstr)
  have fin: "sint (word_of_nat ?n - 1 :: u32) = int ?n - 1"
  proof (cases "?n = 0")
    case True
    then show ?thesis by simp
  next
    case False
    then have "(word_of_nat ?n - 1 :: u32) = word_of_int (int ?n - 1)" by simp
    then show ?thesis using assms(2) False
      by (simp only: int_word_sint) (simp add: mod_pos_pos_trivial)
  qed
  have "strrev_loop m s 0 (int ?n - 1) x = write_bytes s (rev xs) m x" for x
  proof (cases "uint (x - s) < int ?n")
    case True
    define i where "i = unat (x - s)"
    have i: "uint (x - s) = int i" "i < ?n" using True uint_less_int [of "x - s" ?n] by (auto simp: i_def)
    have k: "0 + (int ?n - 1) - int i = int (?n - Suc i)" using i(2) by simp
    have "m (s + word_of_nat (?n - Suc i)) = xs ! (?n - Suc i)"
      using cstr_nth [OF assms(1), of "?n - Suc i"] i(2) by (simp add: ptr_def del: of_nat_diff)
    moreover have "strrev_loop m s 0 (int ?n - 1) x = m (s + word_of_int (0 + (int ?n - 1) - int i))"
      using i assms(2) by (simp add: strrev_loop_apply)
    ultimately show ?thesis
      unfolding k using i(2) assms(2) by (simp add: write_bytes_apply rev_nth i_def [symmetric] del: of_nat_diff)
  next
    case False
    then have "\<not> unat (x - s) < ?n" by (simp only: uint_less_int not_False_eq_True)
    then show ?thesis using False assms(2) by (simp add: strrev_loop_apply write_bytes_apply)
  qed
  then have "strrev_loop m s 0 (int ?n - 1) = write_bytes s (rev xs) m" by (rule ext)
  then show ?thesis using len fin by (simp add: strrev_def)
qed

subsection \<open>itoa\<close>

text \<open>
  The digits of a number, lowest first, as characters of the table; and the number that a
  digit string denotes, for the round trip.
\<close>

fun digits :: "nat \<Rightarrow> nat \<Rightarrow> u8 list" where
  "digits r v = (if v = 0 \<or> r < 2 then [] else lookup ! (v mod r) # digits r (v div r))"

declare digits.simps [simp del]

definition digit_value :: "u8 \<Rightarrow> nat" where
  "digit_value c = (if unat c < 58 then unat c - 48 else unat c - 55)"

definition number :: "nat \<Rightarrow> u8 list \<Rightarrow> nat" where
  "number r cs = foldl (\<lambda>acc c. acc * r + digit_value c) 0 cs"

lemma lookup_digit:
  assumes "d < 36"
  shows "digit_value (lookup ! d) = d" and "lookup ! d \<noteq> 0"
proof -
  have "\<forall>d\<in>set [0..<36]. digit_value (lookup ! d) = d \<and> lookup ! d \<noteq> 0" by code_simp
  then show "digit_value (lookup ! d) = d" and "lookup ! d \<noteq> 0" using assms by auto
qed

lemma length_lookup [simp]: "length lookup = 37"
  by (simp add: lookup_def ascii_def)

lemma number_rev_Cons: "number r (rev (c # cs)) = number r (rev cs) * r + digit_value c"
  by (simp add: number_def)

lemma number_digits: "2 \<le> r \<Longrightarrow> r \<le> 36 \<Longrightarrow> number r (rev (digits r v)) = v"
proof (induction r v rule: digits.induct)
  case (1 r v)
  show ?case
  proof (cases "v = 0")
    case True
    then show ?thesis by (simp add: digits.simps number_def)
  next
    case False
    have "v mod r < 36" using "1.prems" mod_less_divisor [of r v] by linarith
    then show ?thesis
      using False "1.IH" "1.prems"
      by (subst digits.simps) (simp add: number_rev_Cons lookup_digit del: rev.simps)
  qed
qed

lemma digits_no_nul: "2 \<le> r \<Longrightarrow> r \<le> 36 \<Longrightarrow> 0 \<notin> set (digits r v)"
proof (induction r v rule: digits.induct)
  case (1 r v)
  have "v mod r < 36" using "1.prems" mod_less_divisor [of r v] by linarith
  then have "lookup ! (v mod r) \<noteq> 0" by (rule lookup_digit)
  then show ?case using 1 by (subst digits.simps) auto
qed

lemma length_digits: "v < 2 ^ k \<Longrightarrow> length (digits r v) \<le> k"
proof (induction k arbitrary: v)
  case 0
  then show ?case by (simp add: digits.simps)
next
  case (Suc k)
  show ?case
  proof (cases "v = 0 \<or> r < 2")
    case True
    then show ?thesis by (subst digits.simps) auto
  next
    case False
    then have "v div r \<le> v div 2" by (intro div_le_mono2) auto
    then have "v div r < 2 ^ k" using Suc.prems by simp
    then show ?thesis using Suc.IH False by (subst digits.simps) simp
  qed
qed

lemma itoa_loop_write:
  "2 \<le> unat r \<Longrightarrow> unat r \<le> 36 \<Longrightarrow>
   itoa_loop m v buf r = Some (write_bytes buf (digits (unat r) (unat v)) m,
     buf + word_of_nat (length (digits (unat r) (unat v))))"
proof (induction "unat r" "unat v" arbitrary: m v buf rule: digits.induct)
  case (1 v m buf)
  show ?case
  proof (cases "v = 0")
    case True
    then show ?thesis by (subst itoa_loop.simps) (simp add: digits.simps)
  next
    case False
    then have v: "0 < v" "unat v \<noteq> 0" by (auto simp: word_neq_0_unat word_less_unat)
    have "unat v mod unat r < unat r" using "1.prems" by simp
    with "1.prems" have "unat v mod unat r < 37" by linarith
    then have r: "r \<noteq> 0" "unat (v mod r) < 37" using "1.prems" by (auto simp: unat_mod_distrib)
    have "itoa_loop m v buf r =
        itoa_loop (m(buf := lookup ! unat (v mod r))) (v div r) (buf + 1) r"
      using v r by (subst itoa_loop.simps) simp
    also have "\<dots> = Some (write_bytes (buf + 1) (digits (unat r) (unat (v div r))) (m(buf := lookup ! unat (v mod r))),
        buf + 1 + word_of_nat (length (digits (unat r) (unat (v div r)))))"
      using "1.hyps" v "1.prems" by (simp add: unat_div_distrib)
    finally show ?thesis
      using v "1.prems"
      by (simp add: digits.simps [of "unat r" "unat v"] unat_div_distrib unat_mod_distrib ac_simps)
  qed
qed

text \<open>The text of a number: its digits, highest first, and \<^verbatim>\<open>"0"\<close> for zero.\<close>

definition number_text :: "nat \<Rightarrow> nat \<Rightarrow> u8 list" where
  "number_text r v = (if v = 0 then ascii ''0'' else rev (digits r v))"

lemma itoa_write:
  assumes "2 \<le> unat r" and "unat r \<le> 36"
  shows "itoa v m buf r = Some (write_bytes buf (number_text (unat r) (unat v) @ [0]) m)"
proof (cases "v = 0")
  case True
  then show ?thesis by (simp add: itoa_def number_text_def ascii_def)
next
  case False
  let ?ds = "digits (unat r) (unat v)"
  have len: "length ?ds \<le> 32" using unat_lt32 [of v] by (intro length_digits) simp
  have "itoa v m buf r = strrev (write_bytes buf (?ds @ [0]) m) buf"
    using False itoa_loop_write [OF assms] by (simp add: itoa_def write_bytes_snoc)
  also have "\<dots> = Some (write_bytes buf (rev ?ds) (write_bytes buf (?ds @ [0]) m))"
    using digits_no_nul [OF assms] len by (intro strrev_write cstr_ptr_write) simp_all
  also have "write_bytes buf (rev ?ds) (write_bytes buf (?ds @ [0]) m) = write_bytes buf (rev ?ds @ [0]) m"
    using len by (auto simp: fun_eq_iff write_bytes_apply nth_append)
  finally show ?thesis using False word_neq_0_unat [of v] by (simp add: number_text_def)
qed

lemma number_text_facts:
  assumes "2 \<le> unat r" and "unat r \<le> 36"
  shows "0 \<notin> set (number_text (unat r) (unat (v :: u32)))"
    and "length (number_text (unat r) (unat v)) \<le> 32"
    and "number (unat r) (number_text (unat r) (unat v)) = unat v"
proof -
  have "length (digits (unat r) (unat v)) \<le> 32" using unat_lt32 [of v] by (intro length_digits) simp
  then show "0 \<notin> set (number_text (unat r) (unat v))"
    and "length (number_text (unat r) (unat v)) \<le> 32"
    and "number (unat r) (number_text (unat r) (unat v)) = unat v"
    using digits_no_nul [OF assms] number_digits [OF assms]
    by (simp_all add: number_text_def ascii_def number_def digit_value_def)
qed

section \<open>Memory routines: correctness\<close>

subsection \<open>memset\<close>

lemma rep_stosb_write: "rep_stosb al edi n m = write_bytes edi (replicate n al) m"
  by (induction n arbitrary: edi m) auto

lemma store32_write:
  "store32 a v m = write_bytes a [ucast v, ucast (drop_bit 8 v), ucast (drop_bit 16 v), ucast (drop_bit 24 v)] m"
  by (simp add: store32_def add.assoc)

lemma memset_eax:
  fixes c :: u32
  defines "eax \<equiv> push_bit 24 (c AND 0xFF) OR push_bit 16 (c AND 0xFF) OR push_bit 8 (c AND 0xFF) OR (c AND 0xFF)"
  shows "ucast eax = (ucast c :: u8)" "ucast (drop_bit 8 eax) = (ucast c :: u8)"
    "ucast (drop_bit 16 eax) = (ucast c :: u8)" "ucast (drop_bit 24 eax) = (ucast c :: u8)"
proof -
  have "c AND 0xFF = take_bit 8 c" by (simp add: take_bit_eq_mask mask_eq_exp_minus_1)
  then show "ucast eax = (ucast c :: u8)" "ucast (drop_bit 8 eax) = (ucast c :: u8)"
    "ucast (drop_bit 16 eax) = (ucast c :: u8)" "ucast (drop_bit 24 eax) = (ucast c :: u8)"
    unfolding eax_def by (auto intro!: bit_word_eqI simp: bit_simps)
qed

lemma rep_stosl_write:
  assumes "ucast v = b" "ucast (drop_bit 8 v) = b" "ucast (drop_bit 16 v) = b" "ucast (drop_bit 24 v) = b"
  shows "rep_stosl v edi n m = (edi + word_of_nat (4 * n), write_bytes edi (replicate (4 * n) b) m)"
proof (induction n arbitrary: edi m)
  case 0
  then show ?case by simp
next
  case (Suc n)
  have "replicate (4 * Suc n) b = [b, b, b, b] @ replicate (4 * n) b" by (simp add: numeral_eq_Suc)
  then have "write_bytes edi (replicate (4 * Suc n) b) m
      = write_bytes (edi + 4) (replicate (4 * n) b) (write_bytes edi [b, b, b, b] m)"
    by (simp only: write_bytes_append) simp
  moreover have "store32 edi v m = write_bytes edi [b, b, b, b] m"
    using assms by (simp only: store32_write)
  moreover have "edi + 4 + word_of_nat (4 * n) = edi + word_of_nat (4 * Suc n)" by simp
  ultimately show ?case by (simp only: rep_stosl.simps Suc)
qed

lemma addr_add: "(a :: addr) + word_of_nat k + word_of_nat j = a + word_of_nat (k + j)"
  by simp

lemma write_bytes_replicate:
  "write_bytes (a + word_of_nat k) (replicate n b) (write_bytes a (replicate k b) m)
   = write_bytes a (replicate (k + n) b) m"
  by (simp add: replicate_add write_bytes_append)

lemma memset_top_write:
  "\<exists>k\<le>n. memset_top al edi n m = (edi + word_of_nat k, n - k, write_bytes edi (replicate k al) m)"
proof (induction al edi n m rule: memset_top.induct)
  case (1 al edi m)
  then show ?case by simp
next
  case (2 al edi n m)
  show ?case
  proof (cases "edi AND 3 = 0")
    case True
    then show ?thesis by (intro exI [of _ 0]) simp
  next
    case False
    with 2 obtain k where "k \<le> n" and "memset_top al (edi + 1) n (m(edi := al)) =
        (edi + 1 + word_of_nat k, n - k, write_bytes (edi + 1) (replicate k al) (m(edi := al)))" by blast
    with False show ?thesis by (intro exI [of _ "Suc k"]) (simp add: ac_simps)
  qed
qed

lemma memset_write: "memset m s c n = write_bytes s (replicate (unat n) (ucast c)) m"
proof -
  let ?al = "ucast c :: u8"
  define eax where "eax = push_bit 24 (c AND 0xFF) OR push_bit 16 (c AND 0xFF)
    OR push_bit 8 (c AND 0xFF) OR (c AND 0xFF)"
  note eax = memset_eax [of c, folded eax_def]
  obtain k where k: "k \<le> unat n" "memset_top ?al s (unat n) m
      = (s + word_of_nat k, unat n - k, write_bytes s (replicate k ?al) m)"
    using memset_top_write by blast
  let ?r = "unat n - k"
  let ?q = "4 * (?r div 4)"
  have "memset m s c n = write_bytes (s + word_of_nat k + word_of_nat ?q) (replicate (?r mod 4) ?al)
      (write_bytes (s + word_of_nat k) (replicate ?q ?al) (write_bytes s (replicate k ?al) m))"
    unfolding memset_def Let_def eax_def [symmetric] eax(1) k(2) rep_stosl_write [OF eax]
    by (simp add: rep_stosb_write)
  also have "\<dots> = write_bytes s (replicate (k + (?q + ?r mod 4)) ?al) m"
    by (simp only: write_bytes_replicate addr_add add.assoc [of k, symmetric])
  also have "k + (?q + ?r mod 4) = unat n" using k(1) by simp
  finally show ?thesis .
qed

subsection \<open>memcpy and memmove\<close>

text \<open>
  Copying upwards reads every byte before it is overwritten unless the destination starts
  inside the source; copying downwards, unless the source starts inside the destination.
\<close>

definition copy_up_safe :: "addr \<Rightarrow> addr \<Rightarrow> nat \<Rightarrow> bool" where
  "copy_up_safe dest src n \<longleftrightarrow> dest = src \<or> n \<le> unat (dest - src)"

lemma copy_up_safe_le: "copy_up_safe dest src n \<Longrightarrow> k \<le> n \<Longrightarrow> copy_up_safe dest src k"
  by (auto simp: copy_up_safe_def)

lemma write_bytes_same: "n < 4294967296 \<Longrightarrow> write_bytes a (bytes m a n) m = m"
  by (simp add: fun_eq_iff write_bytes_apply)

lemma copy_up_unread:
  fixes dest src :: addr
  assumes "n \<le> unat (dest - src)" and "k \<le> i" and "i < n"
  shows "\<not> unat (src + word_of_nat i - dest) < k"
proof -
  have i: "unat (word_of_nat i :: u32) = i" using assms unat_lt32 [of "dest - src"] by simp
  have "unat (src + word_of_nat i - dest) = unat (word_of_nat i - (dest - src))" by (simp add: algebra_simps)
  also have "\<dots> = 4294967296 + i - unat (dest - src)"
    using assms by (simp only: unat_sub_if' i) simp
  finally show ?thesis using assms unat_lt32 [of "dest - src"] by linarith
qed

lemma copy_up_bytes:
  assumes "copy_up_safe dest src (k + n)" and "k + n < 4294967296"
  shows "bytes (write_bytes dest (bytes m src k) m) (src + word_of_nat k) n = bytes m (src + word_of_nat k) n"
proof (cases "dest = src")
  case True
  then show ?thesis using assms(2) by (simp add: write_bytes_same)
next
  case False
  then have safe: "k + n \<le> unat (dest - src)" using assms(1) by (simp add: copy_up_safe_def)
  have "write_bytes dest (bytes m src k) m (src + word_of_nat k + word_of_nat i)
      = m (src + word_of_nat k + word_of_nat i)" if "i < n" for i
    using copy_up_unread [OF safe, of k "k + i"] that assms(2)
    by (simp add: write_bytes_apply ac_simps)
  then show ?thesis by (intro bytes_cong)
qed

text \<open>Copying in two steps: the second step continues where the first stopped.\<close>

lemma copy_up_chain:
  assumes "copy_up_safe dest src (k + n)" and "k + n < 4294967296"
    and "m' = write_bytes dest (bytes m src k) m"
  shows "write_bytes (dest + word_of_nat k) (bytes m' (src + word_of_nat k) n) m'
    = write_bytes dest (bytes m src (k + n)) m"
  unfolding assms(3) copy_up_bytes [OF assms(1,2)] by (simp add: bytes_add write_bytes_append)

lemma copy_up_safe_shift:
  "copy_up_safe dest src n \<Longrightarrow> k \<le> n \<Longrightarrow> copy_up_safe (dest + a) (src + a) (n - k)"
  by (auto simp: copy_up_safe_def)

lemma bytes_Suc_0: "bytes m a (Suc 0) = [m a]"
  by (simp add: bytes_def)

lemma rep_movsb_write:
  "copy_up_safe edi esi n \<Longrightarrow> n < 4294967296 \<Longrightarrow> rep_movsb edi esi n m = write_bytes edi (bytes m esi n) m"
proof (induction edi esi n m rule: rep_movsb.induct)
  case (1 edi esi m)
  then show ?case by simp
next
  case (2 edi esi n m)
  have "copy_up_safe (edi + 1) (esi + 1) n" "n < 4294967296"
    using "2.prems" copy_up_safe_shift [of edi esi "Suc n" 1 1] by simp_all
  note step = "2.IH" [OF this]
  have "rep_movsb edi esi (Suc n) m
      = write_bytes (edi + 1) (bytes (m(edi := m esi)) (esi + 1) n) (m(edi := m esi))"
    by (simp only: rep_movsb.simps step)
  then show ?case
    using copy_up_chain [of edi esi 1 n "m(edi := m esi)" m] 2 by (simp add: bytes_Suc_0)
qed

lemma no_bit8: "8 \<le> n \<Longrightarrow> \<not> bit (w :: u8) n"
  by (auto dest!: bit_imp_le_length)

lemma load32_bytes:
  "ucast (load32 m a) = m a" "ucast (drop_bit 8 (load32 m a)) = m (a + 1)"
  "ucast (drop_bit 16 (load32 m a)) = m (a + 2)" "ucast (drop_bit 24 (load32 m a)) = m (a + 3)"
  unfolding load32_def by (auto intro!: bit_word_eqI simp: bit_simps no_bit8)

lemma bytes_4: "bytes m a 4 = [m a, m (a + 1), m (a + 2), m (a + 3)]"
  by (simp add: bytes_def upt_rec)

lemma store32_load32: "store32 a (load32 m b) m' = write_bytes a (bytes m b 4) m'"
  unfolding store32_write load32_bytes bytes_4 ..

lemma rep_movsl_write:
  "copy_up_safe edi esi (4 * n) \<Longrightarrow> 4 * n < 4294967296 \<Longrightarrow>
   rep_movsl edi esi n m = (edi + word_of_nat (4 * n), esi + word_of_nat (4 * n),
     write_bytes edi (bytes m esi (4 * n)) m)"
proof (induction edi esi n m rule: rep_movsl.induct)
  case (1 edi esi m)
  then show ?case by simp
next
  case (2 edi esi n m)
  let ?m = "write_bytes edi (bytes m esi 4) m"
  have "rep_movsl edi esi (Suc n) m = (edi + 4 + word_of_nat (4 * n), esi + 4 + word_of_nat (4 * n),
      write_bytes (edi + 4) (bytes ?m (esi + 4) (4 * n)) ?m)"
    using 2 copy_up_safe_shift [of edi esi "4 * Suc n" 4 4]
    by (simp only: rep_movsl.simps store32_load32) simp
  moreover have "write_bytes (edi + 4) (bytes ?m (esi + 4) (4 * n)) ?m
      = write_bytes edi (bytes m esi (4 * Suc n)) m"
    using copy_up_chain [of edi esi 4 "4 * n" ?m m] 2 by simp
  ultimately show ?case by simp
qed

lemma memcpy_top_write:
  "copy_up_safe edi esi n \<Longrightarrow> n < 4294967296 \<Longrightarrow>
   \<exists>k\<le>n. memcpy_top edi esi n m = (edi + word_of_nat k, esi + word_of_nat k, n - k,
     write_bytes edi (bytes m esi k) m)"
proof (induction edi esi n m rule: memcpy_top.induct)
  case (1 edi esi m)
  then show ?case by simp
next
  case (2 edi esi n m)
  show ?case
  proof (cases "edi AND 3 = 0")
    case True
    then show ?thesis by (intro exI [of _ 0]) simp
  next
    case False
    let ?m = "m(edi := m esi)"
    have "copy_up_safe (edi + 1) (esi + 1) n" "n < 4294967296"
      using "2.prems" copy_up_safe_shift [of edi esi "Suc n" 1 1] by simp_all
    from "2.IH" [OF False this] obtain k where k: "k \<le> n" and "memcpy_top (edi + 1) (esi + 1) n ?m =
        (edi + 1 + word_of_nat k, esi + 1 + word_of_nat k, n - k,
         write_bytes (edi + 1) (bytes ?m (esi + 1) k) ?m)"
      by blast
    moreover have "write_bytes (edi + 1) (bytes ?m (esi + 1) k) ?m = write_bytes edi (bytes m esi (Suc k)) m"
      using copy_up_chain [of edi esi 1 k ?m m] 2 k copy_up_safe_le [of edi esi "Suc n" "Suc k"]
      by (simp add: bytes_Suc_0)
    ultimately show ?thesis using False by (intro exI [of _ "Suc k"]) (simp add: ac_simps)
  qed
qed

lemma memcpy_write:
  assumes "copy_up_safe dest src (unat n)"
  shows "memcpy m dest src n = write_bytes dest (bytes m src (unat n)) m"
proof -
  have n: "unat n < 4294967296" by (rule unat_lt32)
  obtain k where k: "k \<le> unat n" "memcpy_top dest src (unat n) m = (dest + word_of_nat k,
      src + word_of_nat k, unat n - k, write_bytes dest (bytes m src k) m)"
    using memcpy_top_write [OF assms n] by blast
  let ?r = "unat n - k"
  let ?q = "4 * (?r div 4)"
  define m1 where "m1 = write_bytes dest (bytes m src k) m"
  define m2 where "m2 = write_bytes dest (bytes m src (k + ?q)) m"
  have le: "?q \<le> ?r" "k + ?q \<le> unat n" "k + ?q + ?r mod 4 = unat n" using k(1) by auto
  have safe: "copy_up_safe (dest + word_of_nat k) (src + word_of_nat k) ?q"
    using copy_up_safe_le [OF copy_up_safe_shift [OF assms k(1)] le(1)] .
  have "write_bytes (dest + word_of_nat k) (bytes m1 (src + word_of_nat k) ?q) m1 = m2"
    using copy_up_chain [of dest src k ?q m1 m] copy_up_safe_le [OF assms le(2)] le(2) n
    by (simp add: m1_def m2_def)
  then have top: "rep_movsl (dest + word_of_nat k) (src + word_of_nat k) (?r div 4) m1
      = (dest + word_of_nat (k + ?q), src + word_of_nat (k + ?q), m2)"
    using rep_movsl_write [OF safe] le(1) n by (simp add: ac_simps)
  have "copy_up_safe (dest + word_of_nat (k + ?q)) (src + word_of_nat (k + ?q)) (unat n - (k + ?q))"
    using copy_up_safe_shift [OF assms le(2)] .
  moreover have "unat n - (k + ?q) = ?r mod 4" using le(3) by linarith
  ultimately have "copy_up_safe (dest + word_of_nat (k + ?q)) (src + word_of_nat (k + ?q)) (?r mod 4)"
    by simp
  then have "rep_movsb (dest + word_of_nat (k + ?q)) (src + word_of_nat (k + ?q)) (?r mod 4) m2
      = write_bytes dest (bytes m src (k + ?q + ?r mod 4)) m"
    using copy_up_chain [of dest src "k + ?q" "?r mod 4" m2 m] assms le(3) n
    by (simp add: rep_movsb_write m2_def)
  then have tail: "rep_movsb (dest + word_of_nat (k + ?q)) (src + word_of_nat (k + ?q)) (?r mod 4) m2
      = write_bytes dest (bytes m src (unat n)) m" by (simp only: le(3))
  show ?thesis
  proof (cases "?r = 0")
    case True
    then show ?thesis using k by (simp add: memcpy_def)
  next
    case False
    then show ?thesis using k(2) top tail by (simp add: memcpy_def m1_def [symmetric] Let_def)
  qed
qed

text \<open>
  The downward copy of \<open>n\<close> bytes that end before \<open>e\<close> and \<open>f\<close>. It is right when the source
  does not start inside the destination.
\<close>

lemma rep_movsb_down_write:
  "n < 4294967296 \<Longrightarrow> edi = esi \<or> n \<le> unat (esi - edi) \<Longrightarrow>
   rep_movsb_down (edi + word_of_nat n - 1) (esi + word_of_nat n - 1) n m = write_bytes edi (bytes m esi n) m"
proof (induction n arbitrary: m)
  case 0
  then show ?case by simp
next
  case (Suc n)
  let ?m = "m(edi + word_of_nat n := m (esi + word_of_nat n))"
  have "rep_movsb_down (edi + word_of_nat (Suc n) - 1) (esi + word_of_nat (Suc n) - 1) (Suc n) m
      = rep_movsb_down (edi + word_of_nat n - 1) (esi + word_of_nat n - 1) n ?m" by simp
  also have "\<dots> = write_bytes edi (bytes ?m esi n) ?m" using Suc.prems by (intro Suc.IH) auto
  also have "bytes ?m esi n = bytes m esi n"
  proof (intro bytes_cong)
    fix i
    assume i: "i < n"
    show "?m (esi + word_of_nat i) = m (esi + word_of_nat i)"
    proof (cases "edi = esi")
      case False
      then have "Suc n \<le> unat (esi - edi)" using Suc.prems(2) by simp
      moreover have "unat (word_of_nat (n - i) :: u32) = n - i" using Suc.prems(1) by simp
      moreover have "esi + word_of_nat i = edi + word_of_nat n \<Longrightarrow> esi - edi = word_of_nat (n - i)"
        using i by (simp add: algebra_simps) 
      ultimately show ?thesis by auto
    qed auto
  qed
  also have "write_bytes edi (bytes m esi n) ?m = write_bytes edi (bytes m esi (Suc n)) m"
    using Suc.prems(1)
    by (auto simp: fun_eq_iff write_bytes_apply nth_append bytes_Suc less_Suc_eq)
  finally show ?case .
qed

text \<open>Two ranges that end below the top of the address space, as the kernel's all do.\<close>

lemma memmove_write:
  assumes "unat dest + unat n \<le> 4294967296" and "unat src + unat n \<le> 4294967296"
  shows "memmove m dest src n = write_bytes dest (bytes m src (unat n)) m"
proof (cases "dest \<le> src")
  case True
  have n: "unat n < 4294967296" by (rule unat_lt32)
  have "copy_up_safe dest src (unat n)"
  proof (cases "dest = src")
    case False
    then have "unat dest < unat src" using True by (simp add: word_less_unat [symmetric])
    then have "unat (dest - src) = 4294967296 + unat dest - unat src"
      by (simp add: unat_sub_if')
    moreover have "unat n \<le> 4294967296 + unat dest - unat src" using assms(2) by linarith
    ultimately show ?thesis by (simp add: copy_up_safe_def)
  qed (simp add: copy_up_safe_def)
  then show ?thesis using True n by (simp add: memmove_def rep_movsb_write)
next
  case False
  then have "unat src < unat dest" by (simp add: word_le_unat)
  then have "unat n \<le> unat (src - dest)" using assms(1) by (simp add: unat_sub_if')
  then show ?thesis
    using rep_movsb_down_write [of "unat n" dest src m] unat_lt32 [of n] False by (simp add: memmove_def)
qed

lemma rep_stosl_dwords:
  "rep_stosl v edi n m = (edi + word_of_nat (4 * n),
     write_bytes edi (concat (replicate n [ucast v, ucast (drop_bit 8 v), ucast (drop_bit 16 v), ucast (drop_bit 24 v)])) m)"
  by (induction n arbitrary: edi m) (simp_all add: store32_write add.assoc)

lemma memset_dword_write:
  "memset_dword m s c n = write_bytes s
     (concat (replicate (unat n) [ucast c, ucast (drop_bit 8 c), ucast (drop_bit 16 c), ucast (drop_bit 24 c)])) m"
  by (simp add: memset_dword_def rep_stosl_dwords)

section \<open>Properties\<close>

text \<open>
  C35. \<^verbatim>\<open>itoa\<close> and back: for every radix from 2 to 36 it returns, leaves a NUL terminated string
  in the buffer whose digits in that radix denote the value, and writes no byte past the 33rd.
\<close>

theorem itoa_round_trip:
  assumes "2 \<le> unat radix" and "unat radix \<le> 36"
  shows "\<exists>m' cs. itoa v m buf radix = Some m' \<and> cstr (ptr buf m') cs \<and>
    number (unat radix) cs = unat v \<and> length cs \<le> 32 \<and>
    (\<forall>x. \<not> in_range buf 33 x \<longrightarrow> m' x = m x)"
proof -
  let ?cs = "number_text (unat radix) (unat v)"
  let ?m = "write_bytes buf (?cs @ [0]) m"
  have cs: "0 \<notin> set ?cs" "length ?cs \<le> 32" "number (unat radix) ?cs = unat v"
    using number_text_facts [OF assms, of v] by auto
  moreover have "?m x = m x" if "\<not> in_range buf 33 x" for x
    using that cs(2) by (simp add: write_bytes_apply in_range_def)
  moreover have "cstr (ptr buf ?m) ?cs" using cs by (intro cstr_ptr_write) auto
  ultimately show ?thesis using itoa_write [OF assms, of v m buf] by blast
qed

lemma itoa_round_trip_witness:
  "\<exists>m' cs. itoa 391 (\<lambda>_. 7) 0x1000 10 = Some m' \<and> cstr (ptr 0x1000 m') cs \<and>
    number (unat (10 :: u32)) cs = unat (391 :: u32) \<and> length cs \<le> 32 \<and>
    (\<forall>x. \<not> in_range 0x1000 33 x \<longrightarrow> m' x = (7 :: u8))"
  by (rule itoa_round_trip [where radix = 10 and v = 391 and m = "\<lambda>_. 7"]) simp_all

text \<open>
  \<^verbatim>\<open>memset\<close> with its byte loop, aligned \<^verbatim>\<open>rep stosl\<close> and tail does, for every address and
  count, what the byte by byte definition says: every byte of the range is the low byte of \<open>c\<close>,
  every other byte is unchanged.
\<close>

lemma memset_bytewise:
  "memset m s c n x = (if in_range s (unat n) x then ucast c else m x)"
  using unat_lt32 [of n] by (simp add: memset_write write_bytes_apply in_range_def)

text \<open>
  \<^verbatim>\<open>memcpy\<close> with its alignment loop, \<^verbatim>\<open>rep movsl\<close> and tail leaves in the destination the bytes
  the source had before the call, and nothing else changed, whenever the destination does not
  start inside the source.
\<close>

lemma memcpy_bytewise:
  assumes "copy_up_safe dest src (unat n)"
  shows "memcpy m dest src n x = (if in_range dest (unat n) x then m (src + (x - dest)) else m x)"
proof -
  have "bytes m src (unat n) ! unat (x - dest) = m (src + (x - dest))" if "unat (x - dest) < unat n"
    using that by simp
  then show ?thesis
    using unat_lt32 [of n] assms by (simp add: memcpy_write write_bytes_apply in_range_def)
qed

text \<open>
  \<^verbatim>\<open>memmove\<close> leaves in the destination the bytes the source had before the call, however the
  two overlap, as long as neither runs past the top of the address space.
\<close>

lemma memmove_overlap:
  assumes "unat dest + unat n \<le> 4294967296" and "unat src + unat n \<le> 4294967296"
  shows "memmove m dest src n x = (if in_range dest (unat n) x then m (src + (x - dest)) else m x)"
proof -
  have "bytes m src (unat n) ! unat (x - dest) = m (src + (x - dest))" if "unat (x - dest) < unat n"
    using that by simp
  then show ?thesis
    using unat_lt32 [of n] by (simp add: memmove_write [OF assms] write_bytes_apply in_range_def)
qed

end
