(* ===== verification/Kernel_State.thy ===== *)
theory Kernel_State
  imports Lib_String
begin

text \<open>
  The state of the kernel: the C structures of \<^verbatim>\<open>types.h\<close>, \<^verbatim>\<open>terminal.h\<close>, \<^verbatim>\<open>syscalls.h\<close> and
  \<^verbatim>\<open>x86_desc.h\<close> as records, and one record \<open>kernel\<close> with the global variables of every C
  file, the physical memory, the devices and the processor registers that the code sets.

  A C object that the code only reaches through its own name or type (a terminal, a process
  control block, a page table) is a field, not bytes of the memory. An array whose index the
  code keeps in range is a function from the index; that the index is in range is part of the
  invariants proved for the components. An array that the code indexes without a check is a
  list and an access past its end is \<open>None\<close>.

  A value of type \<^verbatim>\<open>int32_t\<close> is a word that comparisons read as signed.
\<close>

unbundle bit_operations_syntax

type_synonym i32 = "32 word"

section \<open>Arrays with bounds\<close>

definition arr_get :: "'a list \<Rightarrow> nat \<Rightarrow> 'a option" where
  "arr_get xs i = (if i < length xs then Some (xs ! i) else None)"

definition arr_set :: "'a list \<Rightarrow> nat \<Rightarrow> 'a \<Rightarrow> 'a list option" where
  "arr_set xs i x = (if i < length xs then Some (xs[i := x]) else None)"

section \<open>Data structures\<close>

record dentry_t =
  fileName :: "u8 list"
  filetype :: u32
  inodeNumber :: u32

text \<open>\<^verbatim>\<open>term_t\<close>; the pointer \<^verbatim>\<open>video_mem\<close> is an address, \<^verbatim>\<open>apn\<close> a signed byte.\<close>

record term_t =
  t_id :: u8
  pos_x :: u32
  pos_y :: u32
  active :: u8
  apn :: u8
  t_key_buffer :: "u8 list"
  t_key_buffer_idx :: u8
  eflag :: u8
  t_video_mem :: addr

text \<open>The functions that the file operation tables point to.\<close>

datatype fop =
    Terminal_read | Terminal_write | Terminal_open | Terminal_close
  | Rtc_read | Rtc_write | Rtc_open | Rtc_close
  | Directory_read | Directory_write | Directory_open | Directory_close
  | File_read | File_write | File_open | File_close
  | Has_error

record fops_t =
  fread :: fop
  fwrite :: fop
  fopen :: fop
  fclose :: fop

record file_desc_t =
  fops_ptr :: fops_t
  inode :: i32
  file_position :: i32
  flags :: i32

text \<open>\<^verbatim>\<open>pcb_t\<close>; the pointer \<^verbatim>\<open>term\<close> always points to an element of \<^verbatim>\<open>terminal\<close>, so it is an index.\<close>

record pcb_t =
  fds :: "file_desc_t list"
  filenames :: "u8 list list"
  parent_ksp :: u32
  parent_kbp :: u32
  process_number :: u8
  parent_process_number :: u8
  argbuf :: "u8 list"
  term_ptr :: u8
  p_esp :: u32
  p_ebp :: u32

text \<open>The fields of the task state segment that the code sets.\<close>

record tss_t =
  esp0 :: u32
  ss0 :: u16
  ldt_segment_selector :: u16

text \<open>
  What the processor does on the I/O ports. The history determines what the devices answer: a
  read may change a device, so reads are recorded too.
\<close>

datatype io = Outb u8 u16 | Outw u16 u16 | Inb u16

section \<open>The kernel\<close>

text \<open>
  The fields, by the file that declares the variable. Physical memory, devices, interrupt flag
  and the stack registers belong to the machine; the addresses of the page tables are chosen
  by the linker. \<open>key_buffer\<close> is a pointer into \<^verbatim>\<open>terminal[i].key_buffer\<close>, hence an index, and
  null before the first terminal is set up.
\<close>

record kernel =
  mem :: mem
  io_log :: "io list"
  device :: "io list \<Rightarrow> u16 \<Rightarrow> u8"
  iflag :: bool
  r_esp :: u32
  r_ebp :: u32
  screen_x :: u32
  screen_y :: u32
  master_mask :: u8
  slave_mask :: u8
  rtc_interrupt_occurred :: "u8 \<Rightarrow> u32"
  page_directory :: "u32 \<Rightarrow> u32"
  page_table :: "u32 \<Rightarrow> u32"
  user_page_table :: "u32 \<Rightarrow> u32"
  video_page_table :: "u32 \<Rightarrow> u32"
  page_directory_addr :: addr
  page_table_addr :: addr
  user_page_table_addr :: addr
  video_page_table_addr :: addr
  cr0 :: u32
  cr3 :: u32
  cr4 :: u32
  FILESYSLOC :: addr
  directoryLoc :: u32
  key_buffer_idx :: u8
  keyboard_enabled :: u8
  key_buffer :: "u8 option"
  ctrl_stat :: u8
  shift_stat :: u8
  alt_stat :: u8
  caps_stat :: u8
  cur_term :: u8
  terminal :: "u8 \<Rightarrow> term_t"
  pid_array :: "u8 list"
  pcbs :: "addr \<Rightarrow> pcb_t"
  tss :: tss_t
  cur_active_terminal :: u8
  next_sched_terminal :: u8

text \<open>
  The machine when \<^verbatim>\<open>boot.S\<close> calls \<^verbatim>\<open>entry\<close>: interrupts off, the stack below 8 MB and the static
  initialisers of the C files; uninitialised static variables are zero. The contents of the
  memory (and of the process control blocks, which live in it), the devices and the addresses
  of the four page tables are parameters.
\<close>

definition zero_terminal :: term_t where
  "zero_terminal = \<lparr>t_id = 0, pos_x = 0, pos_y = 0, active = 0, apn = 0,
     t_key_buffer = replicate 128 0, t_key_buffer_idx = 0, eflag = 0, t_video_mem = 0\<rparr>"

definition boot_kernel ::
  "mem \<Rightarrow> (addr \<Rightarrow> pcb_t) \<Rightarrow> (io list \<Rightarrow> u16 \<Rightarrow> u8) \<Rightarrow> addr \<Rightarrow> addr \<Rightarrow> addr \<Rightarrow> addr \<Rightarrow> kernel" where
  "boot_kernel m ps dev pd pt ut vt =
     \<lparr>mem = m, io_log = [], device = dev, iflag = False, r_esp = 0x800000, r_ebp = 0,
      screen_x = 0, screen_y = 0, master_mask = 0xFF, slave_mask = 0xFF,
      rtc_interrupt_occurred = (\<lambda>_. 0),
      page_directory = (\<lambda>_. 0), page_table = (\<lambda>_. 0), user_page_table = (\<lambda>_. 0),
      video_page_table = (\<lambda>_. 0), page_directory_addr = pd, page_table_addr = pt,
      user_page_table_addr = ut, video_page_table_addr = vt, cr0 = 1, cr3 = 0, cr4 = 0,
      FILESYSLOC = 0, directoryLoc = 0, key_buffer_idx = 0, keyboard_enabled = 1,
      key_buffer = None, ctrl_stat = 0, shift_stat = 0, alt_stat = 0, caps_stat = 0,
      cur_term = 0, terminal = (\<lambda>_. zero_terminal), pid_array = replicate 6 0, pcbs = ps,
      tss = \<lparr>esp0 = 0, ss0 = 0, ldt_segment_selector = 0\<rparr>,
      cur_active_terminal = 0, next_sched_terminal = 0\<rparr>"

section \<open>Port input and output, interrupt flag\<close>

definition outb :: "u32 \<Rightarrow> u16 \<Rightarrow> kernel \<Rightarrow> kernel" where
  "outb v port k = k\<lparr>io_log := Outb (ucast v) port # io_log k\<rparr>"

definition outw :: "u32 \<Rightarrow> u16 \<Rightarrow> kernel \<Rightarrow> kernel" where
  "outw v port k = k\<lparr>io_log := Outw (ucast v) port # io_log k\<rparr>"

definition inb :: "u16 \<Rightarrow> kernel \<Rightarrow> u32 \<times> kernel" where
  "inb port k = (ucast (device k (io_log k) port), k\<lparr>io_log := Inb port # io_log k\<rparr>)"

definition cli :: "kernel \<Rightarrow> kernel" where
  "cli k = k\<lparr>iflag := False\<rparr>"

definition sti :: "kernel \<Rightarrow> kernel" where
  "sti k = k\<lparr>iflag := True\<rparr>"

section \<open>Updates of shared objects\<close>

definition upd_terminal :: "u8 \<Rightarrow> (term_t \<Rightarrow> term_t) \<Rightarrow> kernel \<Rightarrow> kernel" where
  "upd_terminal i f k = k\<lparr>terminal := (terminal k)(i := f (terminal k i))\<rparr>"

definition upd_pcb :: "addr \<Rightarrow> (pcb_t \<Rightarrow> pcb_t) \<Rightarrow> kernel \<Rightarrow> kernel" where
  "upd_pcb p f k = k\<lparr>pcbs := (pcbs k)(p := f (pcbs k p))\<rparr>"

text \<open>\<^verbatim>\<open>pcb->fds[fd]\<close> for a checked \<open>fd\<close>, and its update.\<close>

definition upd_fd :: "nat \<Rightarrow> (file_desc_t \<Rightarrow> file_desc_t) \<Rightarrow> pcb_t \<Rightarrow> pcb_t" where
  "upd_fd i f p = p\<lparr>fds := (fds p)[i := f (fds p ! i)]\<rparr>"

declare outb_def [c_simps] outw_def [c_simps] inb_def [c_simps] cli_def [c_simps] sti_def [c_simps]
  upd_terminal_def [c_simps] upd_pcb_def [c_simps] upd_fd_def [c_simps]

text \<open>A concrete machine, on which the hypotheses of theorems are shown to hold.\<close>

definition some_pcb :: pcb_t where
  "some_pcb = \<lparr>fds = replicate 8 \<lparr>fops_ptr = \<lparr>fread = Has_error, fwrite = Has_error,
        fopen = Has_error, fclose = Has_error\<rparr>, inode = 0, file_position = 0, flags = 0\<rparr>,
     filenames = replicate 8 (replicate 32 0), parent_ksp = 0, parent_kbp = 0, process_number = 0,
     parent_process_number = 0, argbuf = replicate 100 0, term_ptr = 0, p_esp = 0, p_ebp = 0\<rparr>"

definition some_kernel :: kernel where
  "some_kernel = boot_kernel (\<lambda>_. 0) (\<lambda>_. some_pcb) (\<lambda>_ _. 0) 0x401000 0x402000 0x403000 0x404000"

section \<open>Facts\<close>

lemma arr_set_Some: "i < length xs \<Longrightarrow> arr_set xs i x = Some (xs[i := x])"
  by (simp add: arr_set_def)

lemma arr_get_Some: "i < length xs \<Longrightarrow> arr_get xs i = Some (xs ! i)"
  by (simp add: arr_get_def)

lemma arr_set_eq_Some: "arr_set xs i x = Some ys \<longleftrightarrow> i < length xs \<and> ys = xs[i := x]"
  by (auto simp: arr_set_def)

text \<open>There are three terminals.\<close>

lemma term_cases: "t < (3 :: u8) \<Longrightarrow> t = 0 \<or> t = 1 \<or> t = 2"
proof -
  assume "t < 3"
  then have "unat t = unat (0 :: u8) \<or> unat t = unat (1 :: u8) \<or> unat t = unat (2 :: u8)"
    by (auto simp: word_less_unat)
  then show ?thesis by (simp only: word_unat_eq_iff)
qed

end
