(* ===== verification/Paging.thy ===== *)
theory Paging
  imports Kernel_State
begin

text \<open>
  Paging: \<^verbatim>\<open>student-distrib/paging.c\<close>. The operations fill the page directory and the page
  tables; \<open>translate\<close> is the page walk of the processor over them (IA-32, 32 bit, with 4 MB
  pages), which says what the entries mean. \<open>vmem\<close> is the memory that the processor sees
  through it.
\<close>

unbundle bit_operations_syntax

section \<open>Definitions\<close>

definition VM_START :: u32 where "VM_START = 0x0B8"
definition VIDEO :: addr where "VIDEO = 0xB8000"
definition CONVERT_4MB :: u32 where "CONVERT_4MB = 0x400000"
definition PAGE_TABLE_PRESENT_ENTRY :: u32 where "PAGE_TABLE_PRESENT_ENTRY = 7"

text \<open>Loading \<^verbatim>\<open>cr3\<close> with its own value empties the cache of translations, which is not modelled.\<close>

definition flush_tlb :: "kernel \<Rightarrow> kernel" where
  "flush_tlb k = k\<lparr>cr3 := cr3 k\<rparr>"

text \<open>The two loops over the \<^verbatim>\<open>NUM_ENTRIES\<close> entries, then the entries 0 and 1 of the directory.\<close>

definition init_pages :: "kernel \<Rightarrow> kernel" where
  "init_pages k =
     (let k = fold (\<lambda>i k. k\<lparr>page_directory := (page_directory k)(word_of_nat i := 0x00000002)\<rparr>) [0..<1024] k;
          k = fold (\<lambda>i k. k\<lparr>page_table := (page_table k)(word_of_nat i :=
                (if word_of_nat i \<ge> VM_START \<and> word_of_nat i \<le> VM_START + 3
                 then (word_of_nat i * 0x1000) OR 3 else (word_of_nat i * 0x1000) OR 2))\<rparr>) [0..<1024] k;
          k = k\<lparr>page_directory := (page_directory k)(0 := page_table_addr k OR 3)\<rparr>
      in k\<lparr>page_directory := (page_directory k)(1 := 0x00400083)\<rparr>)"

definition paging_init :: "kernel \<Rightarrow> kernel" where
  "paging_init k =
     (let k = init_pages k;
          k = k\<lparr>cr3 := page_directory_addr k\<rparr>;
          k = k\<lparr>cr4 := cr4 k OR 0x00000010\<rparr>
      in k\<lparr>cr0 := cr0 k OR 0x80000000\<rparr>)"

definition page_remap :: "u32 \<Rightarrow> u32 \<Rightarrow> kernel \<Rightarrow> kernel" where
  "page_remap virt_addr phys_addr k =
     (let page_dir_entry = virt_addr div CONVERT_4MB;
          k = k\<lparr>page_directory := (page_directory k)(page_dir_entry := phys_addr OR 0x87)\<rparr>
      in flush_tlb k)"

definition table_remap :: "u32 \<Rightarrow> u32 \<Rightarrow> kernel \<Rightarrow> kernel" where
  "table_remap virt_addr phys_addr k =
     (let page_dir_entry = virt_addr div CONVERT_4MB;
          k = k\<lparr>page_directory := (page_directory k)
                (page_dir_entry := user_page_table_addr k OR PAGE_TABLE_PRESENT_ENTRY)\<rparr>;
          k = k\<lparr>user_page_table := (user_page_table k)(0 := phys_addr OR PAGE_TABLE_PRESENT_ENTRY)\<rparr>
      in flush_tlb k)"

definition vidmem_remap :: "u32 \<Rightarrow> u32 \<Rightarrow> kernel \<Rightarrow> kernel" where
  "vidmem_remap virt_addr phys_addr k =
     (let page_dir_entry = virt_addr div CONVERT_4MB;
          k = k\<lparr>page_directory := (page_directory k)
                (page_dir_entry := video_page_table_addr k OR PAGE_TABLE_PRESENT_ENTRY)\<rparr>;
          k = k\<lparr>video_page_table := (video_page_table k)(0 := phys_addr OR PAGE_TABLE_PRESENT_ENTRY)\<rparr>
      in flush_tlb k)"

definition table_to_page_mapping :: "u32 \<Rightarrow> u32 \<Rightarrow> u32 \<Rightarrow> kernel \<Rightarrow> kernel" where
  "table_to_page_mapping virt_addr phys_addr cur_page k =
     (let page_dir_entry = virt_addr div CONVERT_4MB;
          k = k\<lparr>page_directory := (page_directory k)
                (page_dir_entry := user_page_table_addr k OR PAGE_TABLE_PRESENT_ENTRY)\<rparr>;
          k = k\<lparr>user_page_table := (user_page_table k)(cur_page := phys_addr OR PAGE_TABLE_PRESENT_ENTRY)\<rparr>
      in flush_tlb k)"

section \<open>The page walk\<close>

text \<open>
  An entry is present (bit 0), writable (bit 1), open to user code (bit 2), and in the directory
  a 4 MB page (bit 7); its upper bits are the frame. The table at an address is the one that the
  linker put there. The result is the physical address and whether user code may go there.
\<close>

definition table_at :: "addr \<Rightarrow> kernel \<Rightarrow> (u32 \<Rightarrow> u32) option" where
  "table_at a k =
     (if a = page_table_addr k then Some (page_table k)
      else if a = user_page_table_addr k then Some (user_page_table k)
      else if a = video_page_table_addr k then Some (video_page_table k) else None)"

definition translate :: "kernel \<Rightarrow> addr \<Rightarrow> (addr \<times> bool) option" where
  "translate k v =
     (if \<not> bit (cr0 k) 31 then Some (v, True)
      else if cr3 k \<noteq> page_directory_addr k then None
      else let pde = page_directory k (v div 0x400000) in
        if \<not> bit pde 0 then None
        else if bit pde 7 \<and> bit (cr4 k) 4
          then Some ((pde AND 0xFFC00000) + v mod 0x400000, bit pde 2)
        else (case table_at (pde AND 0xFFFFF000) k of
            None \<Rightarrow> None
          | Some pt \<Rightarrow> let pte = pt (v mod 0x400000 div 0x1000) in
              if \<not> bit pte 0 then None
              else Some ((pte AND 0xFFFFF000) + v mod 0x1000, bit pde 2 \<and> bit pte 2)))"

text \<open>The linker aligns the four tables to 4 KB and gives each its own address.\<close>

definition tables_linked :: "kernel \<Rightarrow> bool" where
  "tables_linked k \<longleftrightarrow>
     page_table_addr k mod 0x1000 = 0 \<and> user_page_table_addr k mod 0x1000 = 0 \<and>
     video_page_table_addr k mod 0x1000 = 0 \<and>
     distinct [page_table_addr k, user_page_table_addr k, video_page_table_addr k]"

text \<open>Paging is on, with the kernel's directory and 4 MB pages.\<close>

definition paging_on :: "kernel \<Rightarrow> bool" where
  "paging_on k \<longleftrightarrow> bit (cr0 k) 31 \<and> cr3 k = page_directory_addr k \<and> bit (cr4 k) 4"

section \<open>Memory through the page tables\<close>

text \<open>
  What the processor reads, and the machine after the memory it sees has become \<open>m\<close>: a
  physical byte takes the value of \<open>m\<close> at the address of the 128 MB page that leads to it, or
  else at its own address when it is mapped there. An access to an unmapped address raises a
  page fault, which stops the kernel; here it reads 0 and changes nothing.
\<close>

definition vmem :: "kernel \<Rightarrow> mem" where
  "vmem k = (\<lambda>v. case translate k v of Some (p, u) \<Rightarrow> mem k p | None \<Rightarrow> 0)"

definition user_frame :: "kernel \<Rightarrow> addr" where
  "user_frame k = page_directory k 32 AND 0xFFC00000"

definition set_vmem :: "mem \<Rightarrow> kernel \<Rightarrow> kernel" where
  "set_vmem m k = k\<lparr>mem := \<lambda>p.
     (if bit (page_directory k 32) 0 \<and> p - user_frame k < 0x400000 then m (0x8000000 + (p - user_frame k))
      else if map_option fst (translate k p) = Some p then m p else mem k p)\<rparr>"

section \<open>Entries\<close>

lemma low_bits_0: "take_bit n (p :: u32) = 0 \<Longrightarrow> i < n \<Longrightarrow> \<not> bit p i"
  using bit_take_bit_iff [of n p i] by auto

lemma entry_frame:
  assumes "take_bit n p = 0" and "take_bit n f = (f :: u32)"
  shows "(p OR f) AND NOT (mask n) = p"
proof (rule bit_word_eqI)
  fix i
  assume "i < LENGTH(32)"
  have "i < n \<Longrightarrow> \<not> bit p i" using low_bits_0 [OF assms(1)] .
  moreover have "bit f i \<Longrightarrow> i < n" using assms(2) by (metis bit_take_bit_iff)
  ultimately show "bit ((p OR f) AND NOT (mask n)) i \<longleftrightarrow> bit p i"
    using \<open>i < LENGTH(32)\<close> by (auto simp: bit_simps)
qed

lemma entry_flag:
  assumes "take_bit n (p :: u32) = 0" and "i < n"
  shows "bit (p OR f) i \<longleftrightarrow> bit f i"
  using low_bits_0 [OF assms] by (simp add: bit_or_iff)

lemma mod_4m: "(x :: u32) mod 0x400000 = take_bit 22 x"
  by (simp add: take_bit_eq_mod)

lemma mod_4k: "(x :: u32) mod 0x1000 = take_bit 12 x"
  by (simp add: take_bit_eq_mod)

lemma frame_masks: "NOT (mask 22 :: u32) = 0xFFC00000" "NOT (mask 12 :: u32) = 0xFFFFF000"
  by code_simp+

lemma frame_4m: "p mod 0x400000 = 0 \<Longrightarrow> (p OR 0x87) AND 0xFFC00000 = (p :: u32)"
  using entry_frame [of 22 p "0x87"] unfolding frame_masks by (simp add: mod_4m)

lemma frame_4k:
  "p mod 0x1000 = 0 \<Longrightarrow> (p OR 7) AND 0xFFFFF000 = (p :: u32)"
  "p mod 0x1000 = 0 \<Longrightarrow> (p OR 3) AND 0xFFFFF000 = (p :: u32)"
  using entry_frame [of 12 p 7] entry_frame [of 12 p 3] unfolding frame_masks by (simp_all add: mod_4k)

lemma flag_bits:
  "bit (0x87 :: u32) 0 \<and> bit (0x87 :: u32) 2 \<and> bit (0x87 :: u32) 7"
  "bit (7 :: u32) 0 \<and> bit (7 :: u32) 2 \<and> \<not> bit (7 :: u32) 7"
  "bit (3 :: u32) 0 \<and> \<not> bit (3 :: u32) 2 \<and> \<not> bit (3 :: u32) 7 \<and> \<not> bit (2 :: u32) 0"
  by code_simp+

lemma flags_4m:
  assumes "(p :: u32) mod 0x400000 = 0"
  shows "bit (p OR 0x87) 0 \<and> bit (p OR 0x87) 2 \<and> bit (p OR 0x87) 7"
  using flag_bits(1) assms by (simp only: entry_flag [of 22] mod_4m) 

lemma flags_4k:
  assumes "(p :: u32) mod 0x1000 = 0"
  shows "bit (p OR 7) 0 \<and> bit (p OR 7) 2 \<and> \<not> bit (p OR 7) 7"
    and "bit (p OR 3) 0 \<and> \<not> bit (p OR 3) 2 \<and> \<not> bit (p OR 3) 7 \<and> \<not> bit (p OR 2) 0"
proof -
  have "take_bit 12 p = 0" using assms by (simp add: mod_4k)
  note flag = entry_flag [OF this]
  show "bit (p OR 7) 0 \<and> bit (p OR 7) 2 \<and> \<not> bit (p OR 7) 7"
    using flag_bits(2) flag [of 0 7] flag [of 2 7] flag [of 7 7] by simp
  show "bit (p OR 3) 0 \<and> \<not> bit (p OR 3) 2 \<and> \<not> bit (p OR 3) 7 \<and> \<not> bit (p OR 2) 0"
    using flag_bits(3) flag [of 0 3] flag [of 2 3] flag [of 7 3] flag [of 0 2] by simp
qed

lemma aligned_4k: "(i * 0x1000 :: u32) mod 0x1000 = 0"
proof -
  have "i * 0x1000 = push_bit 12 i" by (simp add: push_bit_eq_mult)
  then show ?thesis by (simp only: mod_4k take_bit_push_bit) simp
qed

lemma aligned_4m: "(i * 0x400000 :: u32) mod 0x400000 = 0"
proof -
  have "i * 0x400000 = push_bit 22 i" by (simp add: push_bit_eq_mult)
  then show ?thesis by (simp only: mod_4m take_bit_push_bit) simp
qed

section \<open>The initial map\<close>

lemma fold_directory:
  "n \<le> 1024 \<Longrightarrow>
   fold (\<lambda>i k. k\<lparr>page_directory := (page_directory k)(word_of_nat i := c)\<rparr>) [0..<n] k
   = k\<lparr>page_directory := \<lambda>j. if unat j < n then c else page_directory k j\<rparr>"
proof (induction n)
  case 0
  then show ?case by simp
next
  case (Suc n)
  have "unat j = n \<longleftrightarrow> j = word_of_nat n" for j :: u32
    using Suc.prems by (intro unat_eq_nat32) simp
  then show ?case using Suc by (auto simp: fun_eq_iff less_Suc_eq)
qed

lemma fold_table:
  "n \<le> 1024 \<Longrightarrow>
   fold (\<lambda>i k. k\<lparr>page_table := (page_table k)(word_of_nat i := f (word_of_nat i))\<rparr>) [0..<n] k
   = k\<lparr>page_table := \<lambda>j. if unat j < n then f j else page_table k j\<rparr>"
proof (induction n)
  case 0
  then show ?case by simp
next
  case (Suc n)
  have "unat j = n \<longleftrightarrow> j = word_of_nat n" for j :: u32
    using Suc.prems by (intro unat_eq_nat32) simp
  then show ?case using Suc by (auto simp: fun_eq_iff less_Suc_eq)
qed

definition init_directory :: "kernel \<Rightarrow> u32 \<Rightarrow> u32" where
  "init_directory k j = (if j = 1 then 0x00400083 else if j = 0 then page_table_addr k OR 3
     else if unat j < 1024 then 2 else page_directory k j)"

definition init_table :: "kernel \<Rightarrow> u32 \<Rightarrow> u32" where
  "init_table k j = (if unat j < 1024
     then (j * 0x1000) OR (if j \<ge> VM_START \<and> j \<le> VM_START + 3 then 3 else 2) else page_table k j)"

lemma init_pages_eq:
  "init_pages k = k\<lparr>page_directory := init_directory k, page_table := init_table k\<rparr>"
  unfolding init_pages_def Let_def
  by (simp add: fold_directory fold_table [where f = "\<lambda>i. if i \<ge> VM_START \<and> i \<le> VM_START + 3
        then (i * 0x1000) OR 3 else (i * 0x1000) OR 2"] init_directory_def init_table_def fun_eq_iff)

lemma paging_init_on: "paging_on (paging_init k)"
proof -
  have "bit (0x80000000 :: u32) 31" "bit (0x10 :: u32) 4" by code_simp+
  then show ?thesis
    unfolding paging_on_def paging_init_def Let_def init_pages_eq by (simp add: bit_or_iff)
qed

lemma paging_init_fields [simp]:
  "page_directory (paging_init k) = init_directory k" "page_table (paging_init k) = init_table k"
  "page_table_addr (paging_init k) = page_table_addr k"
  "user_page_table_addr (paging_init k) = user_page_table_addr k"
  "video_page_table_addr (paging_init k) = video_page_table_addr k"
  by (simp_all add: paging_init_def Let_def init_pages_eq)

lemma table_at_own: "table_at (page_table_addr k) k = Some (page_table k)"
  by (simp add: table_at_def)

lemma translate_absent: "paging_on k \<Longrightarrow> \<not> bit (page_directory k (v div 0x400000)) 0 \<Longrightarrow> translate k v = None"
  by (simp add: translate_def paging_on_def Let_def)

lemma translate_4m:
  assumes "paging_on k" and "page_directory k (v div 0x400000) = p OR 0x87" and "p mod 0x400000 = 0"
  shows "translate k v = Some (p + v mod 0x400000, True)"
  using assms(1) flags_4m [OF assms(3)] frame_4m [OF assms(3)]
  by (simp add: translate_def paging_on_def Let_def assms(2))

lemma translate_4k:
  assumes "paging_on k" and "page_directory k (v div 0x400000) = t OR 7" and "t mod 0x1000 = 0"
    and "table_at t k = Some pt" and "pt (v mod 0x400000 div 0x1000) = p OR 7" and "p mod 0x1000 = 0"
  shows "translate k v = Some (p + v mod 0x1000, True)"
  using assms(1,4,5) flags_4k [OF assms(3)] flags_4k [OF assms(6)] frame_4k [OF assms(3)] frame_4k [OF assms(6)]
  by (simp add: translate_def paging_on_def Let_def assms(2))

lemma translate_init_low:
  assumes "tables_linked k" and "unat v < 0x400000"
  shows "translate (paging_init k) v = (if 0xB8000 \<le> v \<and> v < 0xBC000 then Some (v, False) else None)"
proof -
  let ?j = "v div 0x1000"
  have t: "page_table_addr k mod 0x1000 = 0" using assms(1) by (simp add: tables_linked_def)
  have pde: "v div 0x400000 = 0" using assms(2) by (simp add: word_unat_eq_iff unat_div_distrib)
  have idx: "v mod 0x400000 div 0x1000 = ?j"
    using assms(2) by (simp add: word_unat_eq_iff unat_div_distrib unat_mod_distrib)
  have j: "unat ?j < 1024" "unat ?j = unat v div 0x1000" using assms(2) by (simp_all add: unat_div_distrib)
  have range: "?j \<ge> VM_START \<and> ?j \<le> VM_START + 3 \<longleftrightarrow> 0xB8000 \<le> v \<and> v < 0xBC000"
    unfolding VM_START_def by (auto simp: word_le_unat word_less_unat j(2))
  have pte: "init_table k ?j = (?j * 0x1000) OR (if 0xB8000 \<le> v \<and> v < 0xBC000 then 3 else 2)"
    using j(1) by (simp add: init_table_def range)
  have "?j * 0x1000 + v mod 0x1000 = v" by (rule div_mult_mod_eq)
  then show ?thesis
    using paging_init_on [of k] flags_4k [OF t] flags_4k [OF aligned_4k, of ?j] frame_4k [OF t]
      frame_4k [OF aligned_4k, of ?j]
    by (auto simp: translate_def paging_on_def Let_def pde idx init_directory_def table_at_def pte)
qed

lemma translate_init_high:
  assumes "0x400000 \<le> unat v"
  shows "translate (paging_init k) v = (if unat v < 0x800000 then Some (v, False) else None)"
proof -
  have n: "unat (v div 0x400000) = unat v div 0x400000" by (simp add: unat_div_distrib)
  show ?thesis
  proof (cases "unat v < 0x800000")
    case True
    then have one: "unat v div 0x400000 = 1" using assms by (simp add: div_nat_eqI)
    then have "v div 0x400000 = 1" by (simp only: word_unat_eq_iff n unat_1)
    moreover have "bit (0x400083 :: u32) 0" "\<not> bit (0x400083 :: u32) 2" "bit (0x400083 :: u32) 7"
      "(0x400083 :: u32) AND 0xFFC00000 = 0x400000" by code_simp+
    moreover have "0x400000 + v mod 0x400000 = v"
      using div_mult_mod_eq [of v "0x400000"] \<open>v div 0x400000 = 1\<close> by simp
    ultimately show ?thesis
      using paging_init_on [of k] True by (simp add: translate_def paging_on_def Let_def init_directory_def)
  next
    case False
    then have "2 \<le> unat (v div 0x400000)" unfolding n by simp
    moreover have "unat (v div 0x400000) < 1024" unfolding n using unat_lt32 [of v] by linarith
    ultimately have "init_directory k (v div 0x400000) = 2" by (auto simp: init_directory_def)
    moreover have "\<not> bit (2 :: u32) 0" by code_simp
    ultimately show ?thesis
      using False by (simp add: translate_absent paging_init_on)
  qed
qed

section \<open>The maps of the other operations\<close>

lemma page_remap_fields [simp]:
  "page_directory (page_remap v p k) = (page_directory k)(v div 0x400000 := p OR 0x87)"
  "paging_on (page_remap v p k) = paging_on k" "cr0 (page_remap v p k) = cr0 k"
  "cr3 (page_remap v p k) = cr3 k" "cr4 (page_remap v p k) = cr4 k"
  "page_directory_addr (page_remap v p k) = page_directory_addr k"
  "table_at a (page_remap v p k) = table_at a k" "mem (page_remap v p k) = mem k"
  by (simp_all add: page_remap_def Let_def flush_tlb_def CONVERT_4MB_def paging_on_def table_at_def)

lemma translate_page_remap_other:
  "w div 0x400000 \<noteq> v div 0x400000 \<Longrightarrow> translate (page_remap v p k) w = translate k w"
  by (simp add: translate_def Let_def)

text \<open>An address of the 128 MB page, split into page and offset.\<close>

lemma user_page_addr:
  assumes "unat off < 0x400000"
  shows "(0x8000000 + off) div 0x400000 = (32 :: u32)" and "(0x8000000 + off) mod 0x400000 = off"
proof -
  have "unat (0x8000000 + off) = 0x8000000 + unat off" using assms by (subst unat_add32) simp_all
  moreover have "(32 * 4194304 + unat off) mod 4194304 = unat off"
    using assms by (simp only: mod_mult_self3) simp
  ultimately show "(0x8000000 + off) div 0x400000 = (32 :: u32)" and "(0x8000000 + off) mod 0x400000 = off"
    using assms by (simp_all add: word_unat_eq_iff unat_div_distrib unat_mod_distrib)
qed

definition process_frame :: "u32 \<Rightarrow> addr" where
  "process_frame n = 0x800000 + n * 0x400000"

lemma process_frame_aligned: "process_frame n mod 0x400000 = 0"
proof -
  have "process_frame n = (n + 2) * 0x400000" by (simp add: process_frame_def algebra_simps)
  then show ?thesis by (simp only: aligned_4m)
qed

lemma unat_process_frame: "unat n < 100 \<Longrightarrow> unat (process_frame n) = 0x800000 + unat n * 0x400000"
  unfolding process_frame_def by (subst unat_add32) (simp_all add: unat_mult32)

section \<open>Reading back what was written\<close>

text \<open>The 128 MB page is mapped to a frame of the process memory, above the kernel.\<close>

definition user_mapped :: "kernel \<Rightarrow> bool" where
  "user_mapped k \<longleftrightarrow> paging_on k \<and>
     (\<exists>f. page_directory k 32 = f OR 0x87 \<and> f mod 0x400000 = 0)"

definition in_user_page :: "addr \<Rightarrow> bool" where
  "in_user_page v \<longleftrightarrow> unat (v - 0x8000000) < 0x400000"

text \<open>The translation only depends on the tables and the control registers.\<close>

lemma translate_update [simp]:
  "translate (k\<lparr>mem := x_mem\<rparr>) v = translate k v"
  "translate (k\<lparr>io_log := x_io_log\<rparr>) v = translate k v"
  "translate (k\<lparr>device := x_device\<rparr>) v = translate k v"
  "translate (k\<lparr>iflag := x_iflag\<rparr>) v = translate k v"
  "translate (k\<lparr>r_esp := x_r_esp\<rparr>) v = translate k v"
  "translate (k\<lparr>r_ebp := x_r_ebp\<rparr>) v = translate k v"
  "translate (k\<lparr>screen_x := x_screen_x\<rparr>) v = translate k v"
  "translate (k\<lparr>screen_y := x_screen_y\<rparr>) v = translate k v"
  "translate (k\<lparr>master_mask := x_master_mask\<rparr>) v = translate k v"
  "translate (k\<lparr>slave_mask := x_slave_mask\<rparr>) v = translate k v"
  "translate (k\<lparr>rtc_interrupt_occurred := x_rtc_interrupt_occurred\<rparr>) v = translate k v"
  "translate (k\<lparr>FILESYSLOC := x_FILESYSLOC\<rparr>) v = translate k v"
  "translate (k\<lparr>directoryLoc := x_directoryLoc\<rparr>) v = translate k v"
  "translate (k\<lparr>key_buffer_idx := x_key_buffer_idx\<rparr>) v = translate k v"
  "translate (k\<lparr>keyboard_enabled := x_keyboard_enabled\<rparr>) v = translate k v"
  "translate (k\<lparr>key_buffer := x_key_buffer\<rparr>) v = translate k v"
  "translate (k\<lparr>ctrl_stat := x_ctrl_stat\<rparr>) v = translate k v"
  "translate (k\<lparr>shift_stat := x_shift_stat\<rparr>) v = translate k v"
  "translate (k\<lparr>alt_stat := x_alt_stat\<rparr>) v = translate k v"
  "translate (k\<lparr>caps_stat := x_caps_stat\<rparr>) v = translate k v"
  "translate (k\<lparr>cur_term := x_cur_term\<rparr>) v = translate k v"
  "translate (k\<lparr>terminal := x_terminal\<rparr>) v = translate k v"
  "translate (k\<lparr>pid_array := x_pid_array\<rparr>) v = translate k v"
  "translate (k\<lparr>pcbs := x_pcbs\<rparr>) v = translate k v"
  "translate (k\<lparr>tss := x_tss\<rparr>) v = translate k v"
  "translate (k\<lparr>cur_active_terminal := x_cur_active_terminal\<rparr>) v = translate k v"
  "translate (k\<lparr>next_sched_terminal := x_next_sched_terminal\<rparr>) v = translate k v"
  by (simp_all add: translate_def table_at_def Let_def)

lemma vmem_update [simp]:
  "vmem (k\<lparr>io_log := x_io_log\<rparr>) = vmem k"
  "vmem (k\<lparr>device := x_device\<rparr>) = vmem k"
  "vmem (k\<lparr>iflag := x_iflag\<rparr>) = vmem k"
  "vmem (k\<lparr>r_esp := x_r_esp\<rparr>) = vmem k"
  "vmem (k\<lparr>r_ebp := x_r_ebp\<rparr>) = vmem k"
  "vmem (k\<lparr>screen_x := x_screen_x\<rparr>) = vmem k"
  "vmem (k\<lparr>screen_y := x_screen_y\<rparr>) = vmem k"
  "vmem (k\<lparr>master_mask := x_master_mask\<rparr>) = vmem k"
  "vmem (k\<lparr>slave_mask := x_slave_mask\<rparr>) = vmem k"
  "vmem (k\<lparr>rtc_interrupt_occurred := x_rtc_interrupt_occurred\<rparr>) = vmem k"
  "vmem (k\<lparr>FILESYSLOC := x_FILESYSLOC\<rparr>) = vmem k"
  "vmem (k\<lparr>directoryLoc := x_directoryLoc\<rparr>) = vmem k"
  "vmem (k\<lparr>key_buffer_idx := x_key_buffer_idx\<rparr>) = vmem k"
  "vmem (k\<lparr>keyboard_enabled := x_keyboard_enabled\<rparr>) = vmem k"
  "vmem (k\<lparr>key_buffer := x_key_buffer\<rparr>) = vmem k"
  "vmem (k\<lparr>ctrl_stat := x_ctrl_stat\<rparr>) = vmem k"
  "vmem (k\<lparr>shift_stat := x_shift_stat\<rparr>) = vmem k"
  "vmem (k\<lparr>alt_stat := x_alt_stat\<rparr>) = vmem k"
  "vmem (k\<lparr>caps_stat := x_caps_stat\<rparr>) = vmem k"
  "vmem (k\<lparr>cur_term := x_cur_term\<rparr>) = vmem k"
  "vmem (k\<lparr>terminal := x_terminal\<rparr>) = vmem k"
  "vmem (k\<lparr>pid_array := x_pid_array\<rparr>) = vmem k"
  "vmem (k\<lparr>pcbs := x_pcbs\<rparr>) = vmem k"
  "vmem (k\<lparr>tss := x_tss\<rparr>) = vmem k"
  "vmem (k\<lparr>cur_active_terminal := x_cur_active_terminal\<rparr>) = vmem k"
  "vmem (k\<lparr>next_sched_terminal := x_next_sched_terminal\<rparr>) = vmem k"
  by (simp_all add: vmem_def fun_eq_iff split: option.splits)

lemma set_vmem_fields [simp]:
  "page_directory (set_vmem m k) = page_directory k" "translate (set_vmem m k) v = translate k v"
  by (simp_all add: set_vmem_def)

lemma mem_set_vmem:
  "mem (set_vmem m k) p =
     (if bit (page_directory k 32) 0 \<and> p - user_frame k < 0x400000 then m (0x8000000 + (p - user_frame k))
      else if map_option fst (translate k p) = Some p then m p else mem k p)"
  by (simp add: set_vmem_def)

text \<open>A byte of the 128 MB page, and a byte of an identity mapped page, is read back.\<close>

lemma vmem_set_user:
  assumes "user_mapped k" and "in_user_page v"
  shows "vmem (set_vmem m k) v = m v"
proof -
  obtain f where f: "page_directory k 32 = f OR 0x87" "f mod 0x400000 = 0" and on: "paging_on k"
    using assms(1) unfolding user_mapped_def by (elim conjE exE) (rule that)
  let ?o = "v - 0x8000000"
  have o: "unat ?o < 0x400000" using assms(2) by (simp add: in_user_page_def)
  have v: "0x8000000 + ?o = v" by simp
  note page = user_page_addr [OF o, unfolded v]
  have "page_directory k (v div 0x400000) = f OR 0x87" by (simp only: page f)
  from translate_4m [OF on this f(2)] have "translate k v = Some (f + ?o, True)" by (simp only: page(2))
  moreover have "user_frame k = f" using frame_4m [OF f(2)] f(1) by (simp add: user_frame_def)
  moreover have "bit (page_directory k 32) 0" using flags_4m [OF f(2)] f(1) by simp
  ultimately show ?thesis using o v by (simp add: vmem_def mem_set_vmem word_less_unat)
qed

lemma vmem_set_identity:
  assumes "map_option fst (translate k v) = Some v" and "\<not> v - user_frame k < 0x400000"
  shows "vmem (set_vmem m k) v = m v"
  using assms by (auto simp: vmem_def mem_set_vmem)

section \<open>Properties\<close>

text \<open>
  C29. After \<^verbatim>\<open>paging_init\<close> the processor maps, to themselves and for the kernel only, exactly
  the four pages from the start of the video memory and the 4 MB of the kernel; every other
  address faults, address 0 included.
\<close>

theorem paging_init_map:
  assumes "tables_linked k"
  shows "translate (paging_init k) v =
    (if 0xB8000 \<le> v \<and> v < 0xBC000 \<or> 0x400000 \<le> v \<and> v < 0x800000 then Some (v, False) else None)"
proof (cases "unat v < 0x400000")
  case True
  then show ?thesis using translate_init_low [OF assms] by (auto simp: word_le_unat word_less_unat)
next
  case False
  then show ?thesis using translate_init_high [of v] by (auto simp: word_le_unat word_less_unat)
qed

lemma some_kernel_linked: "tables_linked some_kernel"
  by (simp add: tables_linked_def some_kernel_def boot_kernel_def)

lemma paging_init_map_witness: "translate (paging_init some_kernel) 0xB8FA0 = Some (0xB8FA0, False)"
  using paging_init_map [OF some_kernel_linked, of "0xB8FA0"] by simp

text \<open>
  C12. Mapping a process: after \<^verbatim>\<open>page_remap(_128MB, _8MB + n * _4MB)\<close> user code reaches, at
  128 MB, exactly the 4 MB frame of process \<open>n\<close>; no other translation changes; and two
  different processes are never given a common physical byte.
\<close>

theorem process_page_isolated:
  assumes "paging_on k" and "unat n < 100" and "unat off < 0x400000"
  shows "translate (page_remap 0x8000000 (0x800000 + n * 0x400000) k) (0x8000000 + off)
      = Some (0x800000 + n * 0x400000 + off, True) \<and>
    (\<forall>w. w div 0x400000 \<noteq> 32 \<longrightarrow>
      translate (page_remap 0x8000000 (0x800000 + n * 0x400000) k) w = translate k w) \<and>
    (\<forall>n' off' k'. paging_on k' \<and> unat n' < 100 \<and> n' \<noteq> n \<and> unat off' < 0x400000 \<longrightarrow>
      translate (page_remap 0x8000000 (0x800000 + n' * 0x400000) k') (0x8000000 + off')
        \<noteq> Some (0x800000 + n * 0x400000 + off, True))"
proof -
  have map: "translate (page_remap 0x8000000 (process_frame i) k) (0x8000000 + o') = Some (process_frame i + o', True)"
    if "paging_on k" "unat o' < 0x400000" for i o' k
  proof -
    note v = user_page_addr [OF that(2)]
    have "page_directory (page_remap 0x8000000 (process_frame i) k) ((0x8000000 + o') div 0x400000)
        = process_frame i OR 0x87" unfolding v by simp
    from translate_4m [OF _ this process_frame_aligned] show ?thesis
      using that(1) v(2) by simp
  qed
  have "process_frame n' + off' \<noteq> process_frame n + off"
    if "unat n' < 100" "n' \<noteq> n" "unat off' < 0x400000" for n' off'
  proof
    assume "process_frame n' + off' = process_frame n + off"
    then have "unat (process_frame n' + off') = unat (process_frame n + off)" by simp
    then have "unat n' * 0x400000 + unat off' = unat n * 0x400000 + unat off"
      using that assms by (simp add: unat_add32 unat_process_frame)
    then have "(unat n' * 0x400000 + unat off') div 0x400000 = (unat n * 0x400000 + unat off) div 0x400000"
      by simp
    then show False using that assms(3) by (simp add: word_unat_eq_iff)
  qed
  then show ?thesis
    using map assms unfolding process_frame_def
    by (auto simp: translate_page_remap_other)
qed

lemma process_page_isolated_witness:
  "translate (page_remap 0x8000000 (0x800000 + 3 * 0x400000) (paging_init some_kernel)) 0x8048000
     = Some (0x1448000, True)"
  using process_page_isolated [OF paging_init_on, of 3 "0x48000" some_kernel] by simp

end
