(* ===== verification/Screen.thy ===== *)
theory Screen
  imports Paging
begin

text \<open>
  The text console: the first part of \<^verbatim>\<open>student-distrib/lib.c\<close>. A character cell is two
  bytes, the character and its colour. The foreground terminal is written to the video memory
  at the cursor \<^verbatim>\<open>screen_x\<close>, \<^verbatim>\<open>screen_y\<close>; a background terminal to the buffer of the terminal
  that is scheduled, at the position saved in it. Both kinds of memory are mapped to their own
  addresses, so the functions work on \<open>mem\<close> directly.

  \<^verbatim>\<open>set_screen_pos\<close>, \<^verbatim>\<open>enter\<close>, \<^verbatim>\<open>scroll_up\<close> and \<^verbatim>\<open>set_screen_x\<close> call each other; the recursion
  does not end when the cursor is off the screen, which is \<open>None\<close>.
\<close>

unbundle bit_operations_syntax

section \<open>Definitions\<close>

definition NUM_COLS :: u32 where "NUM_COLS = 80"
definition NUM_ROWS :: u32 where "NUM_ROWS = 25"
definition ROW_START :: u32 where "ROW_START = 0"
definition BLUE_SCREEN :: u8 where "BLUE_SCREEN = 0x16"

definition attribute :: "u8 \<Rightarrow> u8" where
  "attribute t = (if t = 0 then 0x07 else if t = 1 then 0x0A else if t = 2 then 0x0C else 0)"

text \<open>\<^verbatim>\<open>video_mem + ((NUM_COLS*y + x) << 1)\<close>\<close>

definition cell :: "addr \<Rightarrow> u32 \<Rightarrow> u32 \<Rightarrow> addr" where
  "cell video_mem x y = video_mem + push_bit 1 (NUM_COLS * y + x)"

definition poke :: "addr \<Rightarrow> u8 \<Rightarrow> kernel \<Rightarrow> kernel" where
  "poke a v k = k\<lparr>mem := (mem k)(a := v)\<rparr>"

definition set_cursor_pos :: "kernel \<Rightarrow> kernel" where
  "set_cursor_pos k =
     (let position = (ucast (NUM_COLS * screen_y k + screen_x k) :: u16);
          k = outw (0x000E OR (ucast position AND 0xFF00)) 0x03D4 k
      in outw (0x000F OR (push_bit 8 (ucast position) AND 0xFF00)) 0x03D4 k)"

definition clear :: "kernel \<Rightarrow> kernel" where
  "clear k = k\<lparr>mem := memset_word (mem k) VIDEO
     (push_bit 8 (ucast (attribute (cur_term k))) OR 0x20) (NUM_ROWS * NUM_COLS)\<rparr>"

definition blue_screen :: "kernel \<Rightarrow> kernel" where
  "blue_screen k =
     fold (\<lambda>i. poke (VIDEO + push_bit 1 (word_of_nat i) + 1) BLUE_SCREEN) [0..<2000] k"

definition get_screen_x :: "kernel \<Rightarrow> u32" where "get_screen_x k = screen_x k"
definition get_screen_y :: "kernel \<Rightarrow> u32" where "get_screen_y k = screen_y k"

text \<open>The loops of \<^verbatim>\<open>scroll_up\<close>: every row is moved up by one, and the last is cleared.\<close>

definition scroll_rows :: "addr \<Rightarrow> mem \<Rightarrow> mem" where
  "scroll_rows v m =
     (let m = fold (\<lambda>y. fold (\<lambda>x m. m(v + push_bit 1 (word_of_nat (80 * y + x)) :=
                 m (v + push_bit 1 (word_of_nat (80 * (y + 1) + x))))) [0..<80]) [0..<24] m
      in fold (\<lambda>x m. m(v + push_bit 1 (word_of_nat (80 * 24 + x)) := 0x20)) [0..<80] m)"

text \<open>
  \<open>set_screen_pos\<close> with the bodies of \<open>enter\<close>, \<open>scroll_up\<close> and \<open>set_screen_x\<close> in place of the
  calls; these follow as definitions of their own.
\<close>

partial_function (option) set_screen_pos :: "u32 \<Rightarrow> u32 \<Rightarrow> kernel \<Rightarrow> kernel option" where
  "set_screen_pos x y k =
     (if x < NUM_COLS then
        (let k = k\<lparr>screen_x := x\<rparr> in
         if y < NUM_ROWS then Some (set_cursor_pos (k\<lparr>screen_y := y\<rparr>))
         else Option.bind (set_screen_pos ROW_START (screen_y k) (k\<lparr>mem := scroll_rows VIDEO (mem k)\<rparr>))
                (\<lambda>k. Some (set_cursor_pos (k\<lparr>screen_y := NUM_ROWS - 1\<rparr>))))
      else Option.bind (set_screen_pos ROW_START (screen_y k + 1) k) (\<lambda>k. Some (set_cursor_pos k)))"

definition set_screen_x :: "u32 \<Rightarrow> kernel \<Rightarrow> kernel option" where
  "set_screen_x new_x k = set_screen_pos new_x (screen_y k) k"

definition set_screen_y :: "u32 \<Rightarrow> kernel \<Rightarrow> kernel option" where
  "set_screen_y new_y k = set_screen_pos (screen_x k) new_y k"

definition enter :: "kernel \<Rightarrow> kernel option" where
  "enter k = set_screen_pos ROW_START (screen_y k + 1) k"

definition scroll_up :: "kernel \<Rightarrow> kernel option" where
  "scroll_up k = set_screen_x ROW_START (k\<lparr>mem := scroll_rows VIDEO (mem k)\<rparr>)"

definition backspace :: "kernel \<Rightarrow> kernel option" where
  "backspace k = do {
     k \<leftarrow> (if screen_x k = ROW_START then set_screen_pos (NUM_COLS - 1) (screen_y k - 1) k
          else set_screen_x (screen_x k - 1) k);
     let k = poke (cell VIDEO (screen_x k) (screen_y k)) 0x20 k;
         k = poke (cell VIDEO (screen_x k) (screen_y k) + 1) (attribute (cur_term k)) k
     in Some k }"

definition putc :: "u8 \<Rightarrow> kernel \<Rightarrow> kernel option" where
  "putc c k =
     (if c = 0x0A \<or> c = 0x0D then enter k
      else let k = poke (cell VIDEO (screen_x k) (screen_y k)) c k;
               k = poke (cell VIDEO (screen_x k) (screen_y k) + 1) (attribute (cur_term k)) k
           in set_screen_pos (screen_x k + 1) (screen_y k) k)"

subsection \<open>The scheduled terminal\<close>

definition act :: "kernel \<Rightarrow> term_t" where
  "act k = terminal k (cur_active_terminal k)"

definition upd_act :: "(term_t \<Rightarrow> term_t) \<Rightarrow> kernel \<Rightarrow> kernel" where
  "upd_act f k = upd_terminal (cur_active_terminal k) f k"

partial_function (option) set_screen_pos_term_exec :: "u32 \<Rightarrow> u32 \<Rightarrow> kernel \<Rightarrow> kernel option" where
  "set_screen_pos_term_exec x y k =
     (if x < NUM_COLS then
        (let k = upd_act (pos_x_update (\<lambda>_. x)) k in
         if y < NUM_ROWS then Some (upd_act (pos_y_update (\<lambda>_. y)) k)
         else Option.bind (set_screen_pos_term_exec ROW_START (pos_y (act k))
                  (k\<lparr>mem := scroll_rows (t_video_mem (act k)) (mem k)\<rparr>))
                (\<lambda>k. Some (upd_act (pos_y_update (\<lambda>_. NUM_ROWS - 1)) k)))
      else set_screen_pos_term_exec ROW_START (pos_y (act k) + 1) k)"

definition enter_term_exec :: "kernel \<Rightarrow> kernel option" where
  "enter_term_exec k = set_screen_pos_term_exec ROW_START (pos_y (act k) + 1) k"

definition scroll_up_term_exec :: "kernel \<Rightarrow> kernel option" where
  "scroll_up_term_exec k =
     (let k = k\<lparr>mem := scroll_rows (t_video_mem (act k)) (mem k)\<rparr>
      in set_screen_pos_term_exec ROW_START (pos_y (act k)) k)"

text \<open>The colour goes to the video memory at the cursor of the foreground, as the code has it.\<close>

definition putc_terminal_active :: "u8 \<Rightarrow> kernel \<Rightarrow> kernel option" where
  "putc_terminal_active c k =
     (if c = 0x0A \<or> c = 0x0D then enter_term_exec k
      else let k = poke (cell (t_video_mem (act k)) (pos_x (act k)) (pos_y (act k))) c k;
               k = poke (cell VIDEO (screen_x k) (screen_y k) + 1) (attribute (cur_term k)) k
           in set_screen_pos_term_exec (pos_x (act k) + 1) (pos_y (act k)) k)"

subsection \<open>The equations of the source\<close>

text \<open>The recursion written with the functions that the source calls.\<close>

lemma set_screen_pos_calls:
  "set_screen_pos x y k =
     (if x < NUM_COLS then
        (let k = k\<lparr>screen_x := x\<rparr> in
         if y < NUM_ROWS then Some (set_cursor_pos (k\<lparr>screen_y := y\<rparr>))
         else do { k \<leftarrow> scroll_up k; Some (set_cursor_pos (k\<lparr>screen_y := NUM_ROWS - 1\<rparr>)) })
      else do { k \<leftarrow> enter k; Some (set_cursor_pos k) })"
  by (subst set_screen_pos.simps) (simp add: enter_def scroll_up_def set_screen_x_def Let_def)

lemma set_screen_pos_term_exec_calls:
  "set_screen_pos_term_exec x y k =
     (if x < NUM_COLS then
        (let k = upd_act (pos_x_update (\<lambda>_. x)) k in
         if y < NUM_ROWS then Some (upd_act (pos_y_update (\<lambda>_. y)) k)
         else do { k \<leftarrow> scroll_up_term_exec k; Some (upd_act (pos_y_update (\<lambda>_. NUM_ROWS - 1)) k) })
      else enter_term_exec k)"
proof -
  have "act (k\<lparr>mem := m\<rparr>) = act k" for k m by (simp add: act_def)
  then show ?thesis
    by (subst set_screen_pos_term_exec.simps) (simp add: enter_term_exec_def scroll_up_term_exec_def Let_def)
qed

section \<open>The console as a machine of its own\<close>

text \<open>
  The abstract console: the 2000 characters of the screen and the cursor. A new line at the
  bottom drops the first row; a character goes to the cursor, which moves on and to the next
  line after the last column.
\<close>

type_synonym console = "u8 list \<times> nat \<times> nat"

definition con_ok :: "console \<Rightarrow> bool" where
  "con_ok c = (case c of (t, x, y) \<Rightarrow> length t = 2000 \<and> x < 80 \<and> y < 25)"

definition con_newline :: "console \<Rightarrow> console" where
  "con_newline c = (case c of (t, x, y) \<Rightarrow>
     if y < 24 then (t, 0, y + 1) else (drop 80 t @ replicate 80 0x20, 0, 24))"

definition con_putc :: "u8 \<Rightarrow> console \<Rightarrow> console" where
  "con_putc c con =
     (if c = 0x0A \<or> c = 0x0D then con_newline con
      else (case con of (t, x, y) \<Rightarrow>
        let t' = t[80 * y + x := c] in if x < 79 then (t', x + 1, y) else con_newline (t', x, y)))"

text \<open>The characters that are in a buffer of the machine.\<close>

definition screen_text :: "addr \<Rightarrow> mem \<Rightarrow> u8 list" where
  "screen_text v m = map (\<lambda>i. m (v + word_of_nat (2 * i))) [0..<2000]"

definition fore_console :: "kernel \<Rightarrow> console" where
  "fore_console k = (screen_text VIDEO (mem k), unat (screen_x k), unat (screen_y k))"

definition back_console :: "kernel \<Rightarrow> console" where
  "back_console k = (screen_text (t_video_mem (act k)) (mem k), unat (pos_x (act k)), unat (pos_y (act k)))"

subsection \<open>Cells\<close>

lemma shl1: "v + push_bit 1 (word_of_nat i) = v + (word_of_nat (2 * i) :: u32)"
  by (simp add: push_bit_eq_mult)

lemma offset_eq:
  "i < 4294967296 \<Longrightarrow> j < 4294967296 \<Longrightarrow> (v :: addr) + word_of_nat i = v + word_of_nat j \<longleftrightarrow> i = j"
  using word_of_nat_inj32 by auto

lemma cell_offset:
  assumes "unat x < 80" and "unat y < 25"
  shows "cell v x y = v + word_of_nat (2 * (80 * unat y + unat x))"
proof -
  have "NUM_COLS * y + x = word_of_nat (80 * unat y + unat x)" by (simp add: NUM_COLS_def)
  then show ?thesis by (simp only: cell_def shl1)
qed

lemma screen_text_length [simp]: "length (screen_text v m) = 2000"
  by (simp add: screen_text_def)

lemma screen_text_nth: "i < 2000 \<Longrightarrow> screen_text v m ! i = m (v + word_of_nat (2 * i))"
  by (simp add: screen_text_def)

lemma screen_text_put:
  assumes "i < 2000"
  shows "screen_text v (m(v + word_of_nat (2 * i) := c)) = (screen_text v m)[i := c]"
proof (rule nth_equalityI)
  fix j
  assume "j < length (screen_text v (m(v + word_of_nat (2 * i) := c)))"
  then have j: "j < 2000" by simp
  then have "v + word_of_nat (2 * j) = v + word_of_nat (2 * i) \<longleftrightarrow> j = i"
    using assms offset_eq [of "2 * j" "2 * i" v] by simp
  then show "screen_text v (m(v + word_of_nat (2 * i) := c)) ! j = (screen_text v m)[i := c] ! j"
    using j assms by (simp add: screen_text_nth nth_list_update del: of_nat_mult)
qed simp

lemma screen_text_colour:
  assumes "i < 2000"
  shows "screen_text v (m(v + word_of_nat (2 * i) + 1 := c)) = screen_text v m"
proof (rule nth_equalityI)
  fix j
  assume "j < length (screen_text v (m(v + word_of_nat (2 * i) + 1 := c)))"
  then have j: "j < 2000" by simp
  have "v + word_of_nat (2 * i) + 1 = v + word_of_nat (2 * i + 1)" by simp
  moreover have "v + word_of_nat (2 * j) \<noteq> v + word_of_nat (2 * i + 1)"
  proof -
    have "2 * j \<noteq> 2 * i + 1" by presburger
    then show ?thesis using offset_eq [of "2 * j" "2 * i + 1" v] assms j by (simp del: of_nat_mult of_nat_add)
  qed
  ultimately show "screen_text v (m(v + word_of_nat (2 * i) + 1 := c)) ! j = screen_text v m ! j"
    using j by (simp only: screen_text_nth fun_upd_apply if_False)
qed simp

subsection \<open>Scrolling\<close>

lemma fold_nested:
  "fold (\<lambda>y. fold (\<lambda>x. f (c * y + x)) [0..<c]) [0..<n] s = fold f [0..<n * c] s"
proof (induction n arbitrary: s)
  case 0
  then show ?case by simp
next
  case (Suc n)
  have "[0..<Suc n * c] = [0..<n * c] @ map (\<lambda>x. x + c * n) [0..<c]"
    using upt_add_eq_append [of 0 "n * c" c] by (simp add: map_add_upt mult.commute add.commute)
  then have "fold f [0..<Suc n * c] s = fold (\<lambda>x. f (c * n + x)) [0..<c] (fold f [0..<n * c] s)"
    by (simp add: fold_map comp_def add.commute)
  then show ?case by (simp add: Suc del: mult_Suc)
qed

text \<open>Copying cell by cell from the next row, after \<open>n\<close> cells.\<close>

lemma scroll_copy:
  fixes v :: addr
  assumes "n \<le> 1920"
  defines "step \<equiv> \<lambda>i m. m(v + word_of_nat (2 * i) := m (v + word_of_nat (2 * (i + 80))))"
  shows "j < 2000 \<Longrightarrow> fold step [0..<n] m (v + word_of_nat (2 * j)) =
      (if j < n then m (v + word_of_nat (2 * (j + 80))) else m (v + word_of_nat (2 * j)))"
    and "(\<And>j. j < 2000 \<Longrightarrow> a \<noteq> v + word_of_nat (2 * j)) \<Longrightarrow> fold step [0..<n] m a = m a"
  using assms(1)
proof (induction n arbitrary: j)
  case 0
  { case 1 then show ?case by simp }
  { case 2 then show ?case by simp }
next
  case (Suc n)
  { case 1
    have "v + word_of_nat (2 * j) = v + word_of_nat (2 * n) \<longleftrightarrow> j = n"
      using 1 offset_eq [of "2 * j" "2 * n" v] by simp
    then show ?case
      using 1 Suc(1) [of j] Suc(1) [of "n + 80"]
      by (auto simp: step_def less_Suc_eq simp del: of_nat_mult of_nat_add) }
  { case 2
    then show ?case using Suc(2) by (simp add: step_def del: of_nat_mult) }
qed

lemma scroll_clear:
  fixes v :: addr
  assumes "n \<le> 80"
  defines "step \<equiv> \<lambda>i m. m(v + word_of_nat (2 * (1920 + i)) := (0x20 :: u8))"
  shows "j < 2000 \<Longrightarrow> fold step [0..<n] m (v + word_of_nat (2 * j)) =
      (if 1920 \<le> j \<and> j < 1920 + n then 0x20 else m (v + word_of_nat (2 * j)))"
    and "(\<And>j. j < 2000 \<Longrightarrow> a \<noteq> v + word_of_nat (2 * j)) \<Longrightarrow> fold step [0..<n] m a = m a"
  using assms(1)
proof (induction n arbitrary: j)
  case 0
  { case 1 then show ?case by auto }
  { case 2 then show ?case by simp }
next
  case (Suc n)
  { case 1
    have "v + word_of_nat (2 * j) = v + word_of_nat (2 * (1920 + n)) \<longleftrightarrow> j = 1920 + n"
    proof -
      have "2 * j = 2 * (1920 + n) \<longleftrightarrow> j = 1920 + n" by presburger
      then show ?thesis using 1 offset_eq [of "2 * j" "2 * (1920 + n)" v] by (simp only:) simp
    qed
    then show ?case
      using 1 Suc(1) [of j] by (auto simp: step_def less_Suc_eq simp del: of_nat_mult of_nat_add) }
  { case 2
    have "a \<noteq> v + word_of_nat (2 * (1920 + n))" using 2(2) by (intro 2(1)) simp
    then show ?case using 2 Suc(2) by (simp add: step_def del: of_nat_mult of_nat_add) }
qed

lemma scroll_rows_flat:
  "scroll_rows v m =
     fold (\<lambda>i m. m(v + word_of_nat (2 * (1920 + i)) := 0x20)) [0..<80]
       (fold (\<lambda>i m. m(v + word_of_nat (2 * i) := m (v + word_of_nat (2 * (i + 80))))) [0..<1920] m)"
proof -
  have idx: "80 * (y + 1) + x = 80 * y + x + (80 :: nat)" for x y by simp
  have "fold (\<lambda>y. fold (\<lambda>x m. m(v + word_of_nat (2 * (80 * y + x)) := m (v + word_of_nat (2 * (80 * y + x + 80))))) [0..<80]) [0..<24] m
      = fold (\<lambda>i m. m(v + word_of_nat (2 * i) := m (v + word_of_nat (2 * (i + 80))))) [0..<24 * 80] m"
    by (rule fold_nested)
  then show ?thesis by (simp only: scroll_rows_def Let_def shl1 idx) simp
qed

lemma scroll_rows_text:
  "screen_text v (scroll_rows v m) = drop 80 (screen_text v m) @ replicate 80 0x20"
proof (rule nth_equalityI)
  fix j
  assume "j < length (screen_text v (scroll_rows v m))"
  then have j: "j < 2000" by simp
  show "screen_text v (scroll_rows v m) ! j = (drop 80 (screen_text v m) @ replicate 80 0x20) ! j"
    using j scroll_clear(1) [of 80 j v] scroll_copy(1) [of 1920 j v m]
    by (simp add: screen_text_nth scroll_rows_flat nth_append add.commute del: of_nat_mult of_nat_add)
qed simp

lemma scroll_rows_outside:
  "(\<And>j. j < 2000 \<Longrightarrow> a \<noteq> v + word_of_nat (2 * j)) \<Longrightarrow> scroll_rows v m a = m a"
  using scroll_clear(2) [of 80 a v] scroll_copy(2) [of 1920 a v m] by (simp add: scroll_rows_flat del: of_nat_mult)

subsection \<open>The foreground\<close>

definition screen_ok :: "kernel \<Rightarrow> bool" where
  "screen_ok k \<longleftrightarrow> screen_x k < 80 \<and> screen_y k < 25"

text \<open>What a console operation may change: the cursor, its hardware and the video memory.\<close>

definition screen_step :: "kernel \<Rightarrow> kernel \<Rightarrow> bool" where
  "screen_step k k' \<longleftrightarrow>
     (\<exists>m log x y. k' = k\<lparr>mem := m, io_log := log, screen_x := x, screen_y := y\<rparr> \<and>
       (\<forall>a. \<not> in_range VIDEO 4000 a \<longrightarrow> m a = mem k a))"

lemma screen_stepI:
  "(\<And>a. \<not> in_range VIDEO 4000 a \<Longrightarrow> m a = mem k a) \<Longrightarrow>
   screen_step k (k\<lparr>mem := m, io_log := log, screen_x := x, screen_y := y\<rparr>)"
  unfolding screen_step_def by blast

lemma screen_step_trans: "screen_step k k1 \<Longrightarrow> screen_step k1 k2 \<Longrightarrow> screen_step k k2"
  unfolding screen_step_def by (elim exE conjE, hypsubst, intro exI conjI) auto

lemma screen_step_updates:
  "(\<And>a. \<not> in_range VIDEO 4000 a \<Longrightarrow> m a = mem k a) \<Longrightarrow> screen_step k (k\<lparr>mem := m\<rparr>)"
  "screen_step k (k\<lparr>io_log := log\<rparr>)" "screen_step k (k\<lparr>screen_x := x\<rparr>)" "screen_step k (k\<lparr>screen_y := y\<rparr>)"
  "screen_step k k"
  using screen_stepI [where m = m and k = k and log = "io_log k" and x = "screen_x k" and y = "screen_y k"]
    screen_stepI [where m = "mem k" and k = k and log = log and x = "screen_x k" and y = "screen_y k"]
    screen_stepI [where m = "mem k" and k = k and log = "io_log k" and x = x and y = "screen_y k"]
    screen_stepI [where m = "mem k" and k = k and log = "io_log k" and x = "screen_x k" and y = y]
    screen_stepI [where m = "mem k" and k = k and log = "io_log k" and x = "screen_x k" and y = "screen_y k"]
  by simp_all

lemma set_cursor_pos_log: "\<exists>log. set_cursor_pos k = k\<lparr>io_log := log\<rparr>"
  unfolding set_cursor_pos_def Let_def outw_def by (intro exI) simp

lemma set_cursor_pos_fields [simp]:
  "mem (set_cursor_pos k) = mem k" "screen_x (set_cursor_pos k) = screen_x k"
  "screen_y (set_cursor_pos k) = screen_y k" "fore_console (set_cursor_pos k) = fore_console k"
  by (simp_all add: set_cursor_pos_def Let_def outw_def fore_console_def)

lemma set_cursor_pos_step: "screen_step k (set_cursor_pos k)"
proof -
  obtain log where "set_cursor_pos k = k\<lparr>io_log := log\<rparr>" using set_cursor_pos_log by blast
  then show ?thesis using screen_step_updates(2) by simp
qed

lemma cell_in_video: "j < 2000 \<Longrightarrow> in_range VIDEO 4000 (VIDEO + word_of_nat (2 * j))"
  "j < 2000 \<Longrightarrow> in_range VIDEO 4000 (VIDEO + word_of_nat (2 * j) + 1)"
  using in_range_offset [of "2 * j" 4000 VIDEO] in_range_offset [of "2 * j + 1" 4000 VIDEO]
  by (simp_all add: ac_simps)

lemma scroll_rows_step: "screen_step k (k\<lparr>mem := scroll_rows VIDEO (mem k)\<rparr>)"
  by (rule screen_step_updates(1), rule scroll_rows_outside) (use cell_in_video(1) in blast)

text \<open>Setting a position on the screen, and scrolling.\<close>

lemma set_screen_pos_inside:
  "x < 80 \<Longrightarrow> y < 25 \<Longrightarrow> set_screen_pos x y k = Some (set_cursor_pos (k\<lparr>screen_x := x, screen_y := y\<rparr>))"
  by (subst set_screen_pos.simps) (simp add: NUM_COLS_def NUM_ROWS_def)

lemma set_screen_pos_inside_step:
  "screen_step k (set_cursor_pos (k\<lparr>screen_x := x, screen_y := y\<rparr>))"
proof -
  have "screen_step k (k\<lparr>screen_x := x, screen_y := y\<rparr>)"
    using screen_step_trans screen_step_updates(3,4) by blast
  then show ?thesis using screen_step_trans set_cursor_pos_step by blast
qed

lemma scroll_up_result:
  assumes "screen_y k < 25"
  defines "k' \<equiv> set_cursor_pos (k\<lparr>mem := scroll_rows VIDEO (mem k), screen_x := 0, screen_y := screen_y k\<rparr>)"
  shows "scroll_up k = Some k'" and "screen_step k k'"
proof -
  let ?m = "k\<lparr>mem := scroll_rows VIDEO (mem k)\<rparr>"
  show "scroll_up k = Some k'"
    using set_screen_pos_inside [of 0 "screen_y k" ?m] assms(1)
    by (simp add: scroll_up_def set_screen_x_def ROW_START_def k'_def)
  show "screen_step k k'"
    unfolding k'_def using screen_step_trans [OF scroll_rows_step set_screen_pos_inside_step] .
qed

text \<open>Past the last line: one scroll, and the cursor at the start of the last line.\<close>

lemma set_screen_pos_below:
  assumes "x < 80" and "\<not> y < 25" and "screen_y k < 25"
  obtains k' where "set_screen_pos x y k = Some k'" "screen_step k k'"
    "fore_console k' = (drop 80 (screen_text VIDEO (mem k)) @ replicate 80 0x20, 0, 24)"
proof -
  let ?k1 = "k\<lparr>screen_x := x\<rparr>"
  define k2 where "k2 = set_cursor_pos (?k1\<lparr>mem := scroll_rows VIDEO (mem ?k1), screen_x := 0, screen_y := screen_y ?k1\<rparr>)"
  have "screen_y ?k1 < 25" using assms(3) by simp
  note scroll = scroll_up_result [OF this, folded k2_def]
  let ?k' = "set_cursor_pos (k2\<lparr>screen_y := 24\<rparr>)"
  have "set_screen_pos x y k = Some ?k'"
    using assms scroll(1) by (subst set_screen_pos_calls) (simp add: NUM_COLS_def NUM_ROWS_def Let_def)
  moreover have "screen_step k ?k'"
    by (rule screen_step_trans [OF screen_step_updates(3) [of k x]], rule screen_step_trans [OF scroll(2)],
        rule screen_step_trans [OF screen_step_updates(4) [of k2 24] set_cursor_pos_step])
  moreover have "fore_console ?k' = (drop 80 (screen_text VIDEO (mem k)) @ replicate 80 0x20, 0, 24)"
    by (simp add: fore_console_def k2_def scroll_rows_text)
  ultimately show ?thesis using that by blast
qed

lemma enter_refines:
  assumes "screen_ok k"
  obtains k' where "enter k = Some k'" "fore_console k' = con_newline (fore_console k)" "screen_step k k'"
proof (cases "screen_y k < 24")
  case True
  then have y: "screen_y k + 1 < 25" "unat (screen_y k + 1) = unat (screen_y k) + 1"
    using unat_Suc32 [OF True] by (simp_all add: word_less_unat)
  let ?k' = "set_cursor_pos (k\<lparr>screen_x := 0, screen_y := screen_y k + 1\<rparr>)"
  have "enter k = Some ?k'" using set_screen_pos_inside [of 0 "screen_y k + 1" k] y by (simp add: enter_def ROW_START_def)
  moreover have "fore_console ?k' = con_newline (fore_console k)"
    using True y by (simp add: fore_console_def con_newline_def word_less_unat)
  ultimately show ?thesis using that set_screen_pos_inside_step by blast
next
  case False
  then have "unat (screen_y k) = 24" "\<not> screen_y k + 1 < 25" "screen_y k < 25"
    using assms unat_Suc32 [of "screen_y k" 25] by (auto simp: screen_ok_def word_less_unat)
  then show ?thesis
    using set_screen_pos_below [of 0 "screen_y k + 1" k] that
    by (simp add: enter_def ROW_START_def con_newline_def fore_console_def) metis
qed

text \<open>Storing a character and its colour in the cell of the cursor.\<close>

lemma fore_console_poke:
  fixes a c :: u8
  assumes "screen_ok k"
  defines "k' \<equiv> poke (cell VIDEO (screen_x k) (screen_y k) + 1) a (poke (cell VIDEO (screen_x k) (screen_y k)) c k)"
  shows "fore_console k' = ((screen_text VIDEO (mem k))[80 * unat (screen_y k) + unat (screen_x k) := c],
      unat (screen_x k), unat (screen_y k))"
    and "screen_step k k'" and "screen_x k' = screen_x k" and "screen_y k' = screen_y k" and "cur_term k' = cur_term k"
proof -
  define i where "i = 80 * unat (screen_y k) + unat (screen_x k)"
  have xy: "unat (screen_x k) < 80" "unat (screen_y k) < 25" using assms(1) by (simp_all add: screen_ok_def word_less_unat)
  then have i: "i < 2000" unfolding i_def by linarith
  note cell = cell_offset [OF xy, folded i_def]
  show "fore_console k' = ((screen_text VIDEO (mem k))[80 * unat (screen_y k) + unat (screen_x k) := c], unat (screen_x k), unat (screen_y k))"
    unfolding i_def [symmetric] by (simp add: k'_def poke_def fore_console_def cell screen_text_put [OF i] screen_text_colour [OF i] del: of_nat_mult of_nat_add)
  have "k' = k\<lparr>mem := (mem k)(VIDEO + word_of_nat (2 * i) := c, VIDEO + word_of_nat (2 * i) + 1 := a)\<rparr>"
    by (simp add: k'_def poke_def cell del: of_nat_mult of_nat_add)
  moreover have "((mem k)(VIDEO + word_of_nat (2 * i) := c, VIDEO + word_of_nat (2 * i) + 1 := a)) b = mem k b"
    if "\<not> in_range VIDEO 4000 b" for b
  proof -
    have "b \<noteq> VIDEO + word_of_nat (2 * i)" "b \<noteq> VIDEO + word_of_nat (2 * i) + 1"
      using that cell_in_video [OF i] by metis+
    then show ?thesis by (simp only: fun_upd_apply if_False)
  qed
  ultimately show "screen_step k k'" using screen_step_updates(1) by metis
  show "screen_x k' = screen_x k" and "screen_y k' = screen_y k" and "cur_term k' = cur_term k" by (simp_all add: k'_def poke_def)
qed

lemma fore_console_ok: "con_ok (fore_console k) \<longleftrightarrow> screen_ok k"
  by (simp add: con_ok_def fore_console_def screen_ok_def word_less_unat)

lemma con_ok_newline: "con_ok c \<Longrightarrow> con_ok (con_newline c)"
  by (auto simp: con_ok_def con_newline_def split: prod.splits if_splits)

lemma con_ok_putc: "con_ok con \<Longrightarrow> con_ok (con_putc c con)"
  by (auto simp: con_ok_def con_putc_def con_newline_def Let_def split: prod.splits if_splits)

lemma putc_refines:
  assumes "screen_ok k"
  obtains k' where "putc c k = Some k'" "fore_console k' = con_putc c (fore_console k)" "screen_step k k'"
proof (cases "c = 0x0A \<or> c = 0x0D")
  case True
  then show ?thesis using enter_refines [OF assms] that by (metis con_putc_def putc_def)
next
  case False
  define k1 where "k1 = poke (cell VIDEO (screen_x k) (screen_y k) + 1) (attribute (cur_term k))
    (poke (cell VIDEO (screen_x k) (screen_y k)) c k)"
  note k1 = fore_console_poke [OF assms, of "attribute (cur_term k)" c, folded k1_def]
  have "poke (cell VIDEO (screen_x (poke a c k)) (screen_y (poke a c k)) + 1) (attribute (cur_term (poke a c k))) (poke a c k)
      = poke (cell VIDEO (screen_x k) (screen_y k) + 1) (attribute (cur_term k)) (poke a c k)" for a
    by (simp add: poke_def)
  then have putc: "putc c k = set_screen_pos (screen_x k + 1) (screen_y k) k1"
    using False k1(3,4) by (simp add: putc_def Let_def k1_def [symmetric])
  have xy: "screen_x k < 80" "screen_y k < 25" using assms by (simp_all add: screen_ok_def)
  have x1: "unat (screen_x k + 1) = Suc (unat (screen_x k))" using xy(1) by (rule unat_Suc32)
  show ?thesis
  proof (cases "screen_x k < 79")
    case True
    then have x: "screen_x k + 1 < 80" using x1 by (simp add: word_less_unat)
    let ?k' = "set_cursor_pos (k1\<lparr>screen_x := screen_x k + 1, screen_y := screen_y k\<rparr>)"
    have "putc c k = Some ?k'" using putc set_screen_pos_inside [OF x xy(2)] by simp
    moreover have "fore_console ?k' = con_putc c (fore_console k)"
      using k1(1) False True x1 by (simp add: con_putc_def fore_console_def word_less_unat)
    ultimately show ?thesis using that screen_step_trans [OF k1(2) set_screen_pos_inside_step] by blast
  next
    case 79: False
    then have "\<not> screen_x k + 1 < 80" using x1 by (simp add: word_less_unat)
    moreover have "screen_ok k1" using assms k1(3,4) by (simp add: screen_ok_def)
    then obtain k2 where k2: "enter k1 = Some k2" "fore_console k2 = con_newline (fore_console k1)" "screen_step k1 k2"
      by (rule enter_refines)
    ultimately have "putc c k = Some (set_cursor_pos k2)"
      using putc by (subst (asm) set_screen_pos_calls) (simp add: NUM_COLS_def)
    moreover have "fore_console (set_cursor_pos k2) = con_putc c (fore_console k)"
      using k2(2) k1(1) False 79 by (simp add: con_putc_def) (simp add: fore_console_def word_less_unat)
    ultimately show ?thesis
      using that screen_step_trans [OF k1(2) screen_step_trans [OF k2(3) set_cursor_pos_step]] by blast
  qed
qed

text \<open>Every position ends on the screen.\<close>

lemma set_screen_pos_total:
  assumes "screen_ok k"
  obtains k' where "set_screen_pos x y k = Some k'" "screen_ok k'" "screen_step k k'"
proof (cases "x < 80")
  case True
  show ?thesis
  proof (cases "y < 25")
    case y: True
    then show ?thesis
      using that set_screen_pos_inside [OF True y] set_screen_pos_inside_step True
      by (simp add: screen_ok_def)
  next
    case False
    have "screen_y k < 25" using assms by (simp add: screen_ok_def)
    then obtain k' where k': "set_screen_pos x y k = Some k'" "screen_step k k'"
      "fore_console k' = (drop 80 (screen_text VIDEO (mem k)) @ replicate 80 0x20, 0, 24)"
      using set_screen_pos_below [OF True False] by blast
    moreover have "screen_ok k'" using k'(3) fore_console_ok [of k'] by (simp add: con_ok_def)
    ultimately show ?thesis using that by blast
  qed
next
  case False
  obtain k1 where k1: "enter k = Some k1" "fore_console k1 = con_newline (fore_console k)" "screen_step k k1"
    using enter_refines [OF assms] .
  then have "screen_ok k1" using assms con_ok_newline fore_console_ok by metis
  moreover have "set_screen_pos x y k = Some (set_cursor_pos k1)"
    using False k1(1) by (subst set_screen_pos_calls) (simp add: NUM_COLS_def)
  ultimately show ?thesis
    using that [of "set_cursor_pos k1"] screen_step_trans [OF k1(3) set_cursor_pos_step] by (simp add: screen_ok_def)
qed

text \<open>
  What \<^verbatim>\<open>backspace\<close> does to the console. At the top left corner there is nothing to remove:
  the row number -1 is taken as one below the screen, so the screen scrolls and the cursor
  jumps to the last line.
\<close>

definition con_backspace :: "console \<Rightarrow> console" where
  "con_backspace con = (case con of (t, x, y) \<Rightarrow>
     if 0 < x then (t[80 * y + x - 1 := 0x20], x - 1, y)
     else if 0 < y then (t[80 * (y - 1) + 79 := 0x20], 79, y - 1)
     else ((drop 80 t @ replicate 80 0x20)[80 * 24 := 0x20], 0, 24))"

lemma backspace_after:
  assumes "(if screen_x k = ROW_START then set_screen_pos (NUM_COLS - 1) (screen_y k - 1) k
      else set_screen_x (screen_x k - 1) k) = Some k1"
    and k1: "screen_ok k1" "screen_step k k1"
    and con: "((fst (fore_console k1))[80 * unat (screen_y k1) + unat (screen_x k1) := 0x20],
        unat (screen_x k1), unat (screen_y k1)) = con"
  shows "\<exists>k'. backspace k = Some k' \<and> fore_console k' = con \<and> screen_step k k' \<and> screen_ok k'"
proof (intro exI conjI)
  let ?k' = "poke (cell VIDEO (screen_x k1) (screen_y k1) + 1) (attribute (cur_term k1))
    (poke (cell VIDEO (screen_x k1) (screen_y k1)) 0x20 k1)"
  note step = fore_console_poke [OF k1(1), of "attribute (cur_term k1)" "0x20"]
  show "backspace k = Some ?k'" using assms(1) by (simp add: backspace_def poke_def)
  show "fore_console ?k' = con" using step(1) con by (simp add: fore_console_def)
  show "screen_ok ?k'" using k1(1) step(3,4) by (simp add: screen_ok_def)
  show "screen_step k ?k'" by (rule screen_step_trans [OF k1(2) step(2)])
qed

lemma backspace_refines:
  assumes "screen_ok k"
  shows "\<exists>k'. backspace k = Some k' \<and> fore_console k' = con_backspace (fore_console k) \<and>
    screen_step k k' \<and> screen_ok k'"
proof -
  have xy: "screen_x k < 80" "screen_y k < 25" using assms by (simp_all add: screen_ok_def)
  have pred: "unat (w - 1) = unat w - 1" if "w \<noteq> 0" for w :: u32
    using that by (simp add: unat_sub32 word_le_unat Suc_le_eq word_neq_0_unat [symmetric])
  consider "screen_x k \<noteq> 0" | "screen_x k = 0" "screen_y k \<noteq> 0" | "screen_x k = 0" "screen_y k = 0" by blast
  then show ?thesis
  proof cases
    case 1
    have x: "screen_x k - 1 < 80" using pred [OF 1] xy(1) by (simp add: word_less_unat)
    have "unat (screen_x k) \<noteq> 0" using 1 by (simp add: unat_eq_0)
    then show ?thesis
      using 1 x xy pred [OF 1] set_screen_pos_inside [OF x xy(2), of k]
      by (intro backspace_after [OF _ _ set_screen_pos_inside_step])
        (auto simp: ROW_START_def set_screen_x_def screen_ok_def con_backspace_def fore_console_def)
  next
    case 2
    have y: "screen_y k - 1 < 25" using pred [OF 2(2)] xy(2) by (simp add: word_less_unat)
    have "unat (screen_y k) \<noteq> 0" using 2 by (simp add: unat_eq_0)
    then show ?thesis
      using 2 y xy pred [OF 2(2)] set_screen_pos_inside [OF _ y, of 79 k]
      by (intro backspace_after [OF _ _ set_screen_pos_inside_step])
        (auto simp: ROW_START_def NUM_COLS_def screen_ok_def con_backspace_def fore_console_def)
  next
    case 3
    have "\<not> screen_y k - 1 < (25 :: u32)" using 3 by (simp add: word_less_unat unsigned_minus_1_eq_mask mask_eq_exp_minus_1)
    then obtain k1 where k1: "set_screen_pos 79 (screen_y k - 1) k = Some k1" "screen_step k k1"
      "fore_console k1 = (drop 80 (screen_text VIDEO (mem k)) @ replicate 80 0x20, 0, 24)"
      using set_screen_pos_below [of 79 "screen_y k - 1" k] xy(2) by auto
    have "con_ok (fore_console k1)" using k1(3) by (simp add: con_ok_def)
    then have ok: "screen_ok k1" by (simp add: fore_console_ok)
    show ?thesis
      by (rule backspace_after [OF _ ok k1(2)])
        (use 3 k1 in \<open>simp_all add: ROW_START_def NUM_COLS_def con_backspace_def fore_console_def\<close>)
  qed
qed

subsection \<open>The background\<close>

text \<open>
  The scheduled terminal writes to its own buffer, which lies away from the video memory. The
  cursor of the foreground is on the screen, so that the colour goes to the video memory.
\<close>

definition back_ok :: "kernel \<Rightarrow> bool" where
  "back_ok k \<longleftrightarrow> pos_x (act k) < 80 \<and> pos_y (act k) < 25 \<and> screen_ok k \<and>
     disjoint_range (t_video_mem (act k)) 4000 VIDEO 4000"

text \<open>
  What it may change: its cursor, the characters of its buffer, and colours on the screen, but
  no character on the screen.
\<close>

definition back_step :: "kernel \<Rightarrow> kernel \<Rightarrow> bool" where
  "back_step k k' \<longleftrightarrow>
     (\<exists>m x y. k' = upd_act (\<lambda>t. t\<lparr>pos_x := x, pos_y := y\<rparr>) (k\<lparr>mem := m\<rparr>) \<and>
       (\<forall>a. \<not> in_range VIDEO 4000 a \<longrightarrow> \<not> in_range (t_video_mem (act k)) 4000 a \<longrightarrow> m a = mem k a) \<and>
       screen_text VIDEO m = screen_text VIDEO (mem k))"

lemma act_simps [simp]:
  "act (k\<lparr>mem := m\<rparr>) = act k" "act (upd_act f k) = f (act k)" "mem (upd_act f k) = mem k"
  "screen_x (upd_act f k) = screen_x k" "screen_y (upd_act f k) = screen_y k"
  "cur_active_terminal (upd_act f k) = cur_active_terminal k"
  "upd_act f (upd_act g k) = upd_act (f \<circ> g) k"
  by (simp_all add: act_def upd_act_def upd_terminal_def)

lemma upd_act_mem: "(upd_act f k)\<lparr>mem := m\<rparr> = upd_act f (k\<lparr>mem := m\<rparr>)"
  by (simp add: upd_act_def upd_terminal_def)

lemma upd_act_id: "(\<And>t. t = act k \<Longrightarrow> f t = t) \<Longrightarrow> upd_act f k = k"
  by (simp add: act_def upd_act_def upd_terminal_def)

lemma back_stepI:
  assumes "\<And>a. \<not> in_range VIDEO 4000 a \<Longrightarrow> \<not> in_range (t_video_mem (act k)) 4000 a \<Longrightarrow> m a = mem k a"
    and "screen_text VIDEO m = screen_text VIDEO (mem k)"
  shows "back_step k (upd_act (\<lambda>t. t\<lparr>pos_x := x, pos_y := y\<rparr>) (k\<lparr>mem := m\<rparr>))"
  using assms unfolding back_step_def by blast

lemma back_step_act: "back_step k k' \<Longrightarrow> \<exists>x y. act k' = (act k)\<lparr>pos_x := x, pos_y := y\<rparr>"
  unfolding back_step_def by (elim exE conjE) (auto intro!: exI)

lemma back_step_trans:
  assumes "back_step k k1" and "back_step k1 k2"
  shows "back_step k k2"
proof -
  from assms(1) obtain m x y where 1: "k1 = upd_act (\<lambda>t. t\<lparr>pos_x := x, pos_y := y\<rparr>) (k\<lparr>mem := m\<rparr>)"
    "\<forall>a. \<not> in_range VIDEO 4000 a \<longrightarrow> \<not> in_range (t_video_mem (act k)) 4000 a \<longrightarrow> m a = mem k a"
    "screen_text VIDEO m = screen_text VIDEO (mem k)" unfolding back_step_def by blast
  from assms(2) obtain m' x' y' where 2: "k2 = upd_act (\<lambda>t. t\<lparr>pos_x := x', pos_y := y'\<rparr>) (k1\<lparr>mem := m'\<rparr>)"
    "\<forall>a. \<not> in_range VIDEO 4000 a \<longrightarrow> \<not> in_range (t_video_mem (act k1)) 4000 a \<longrightarrow> m' a = mem k1 a"
    "screen_text VIDEO m' = screen_text VIDEO (mem k1)" unfolding back_step_def by blast
  have "k2 = upd_act (\<lambda>t. t\<lparr>pos_x := x', pos_y := y'\<rparr>) (k\<lparr>mem := m'\<rparr>)"
    using 1(1) 2(1) by (simp add: upd_act_mem comp_def)
  then show ?thesis using 1 2 by (auto intro!: back_stepI)
qed

lemma back_step_cursor: "back_step k (upd_act (\<lambda>t. t\<lparr>pos_x := x, pos_y := y\<rparr>) k)"
  using back_stepI [where k = k and m = "mem k" and x = x and y = y] by simp

lemma back_step_mem:
  assumes "\<And>a. \<not> in_range VIDEO 4000 a \<Longrightarrow> \<not> in_range (t_video_mem (act k)) 4000 a \<Longrightarrow> m a = mem k a"
    and "screen_text VIDEO m = screen_text VIDEO (mem k)"
  shows "back_step k (k\<lparr>mem := m\<rparr>)"
proof -
  have "upd_act (\<lambda>t. t\<lparr>pos_x := pos_x (act k), pos_y := pos_y (act k)\<rparr>) (k\<lparr>mem := m\<rparr>) = k\<lparr>mem := m\<rparr>"
    by (rule upd_act_id) simp
  then show ?thesis using back_stepI [OF assms] by metis
qed

lemma back_step_screen:
  "back_step k k' \<Longrightarrow> fore_console k' = fore_console k \<and> screen_x k' = screen_x k \<and> screen_y k' = screen_y k
    \<and> t_video_mem (act k') = t_video_mem (act k) \<and> cur_active_terminal k' = cur_active_terminal k \<and> cur_term k' = cur_term k"
  unfolding back_step_def by (elim exE conjE) (simp add: fore_console_def upd_act_def upd_terminal_def act_def)

lemma screen_text_other:
  "disjoint_range v 4000 w 4000 \<Longrightarrow> (\<And>a. \<not> in_range w 4000 a \<Longrightarrow> m' a = m a) \<Longrightarrow> screen_text v m' = screen_text v m"
proof (rule nth_equalityI)
  fix i
  assume *: "disjoint_range v 4000 w 4000" "\<And>a. \<not> in_range w 4000 a \<Longrightarrow> m' a = m a"
    and "i < length (screen_text v m')"
  then have i: "i < 2000" by simp
  then have "in_range v 4000 (v + word_of_nat (2 * i))" by (intro in_range_offset) simp_all
  then have "m' (v + word_of_nat (2 * i)) = m (v + word_of_nat (2 * i))"
    by (rule *(2) [OF disjoint_range_excl [OF *(1)]])
  then show "screen_text v m' ! i = screen_text v m ! i"
    using i by (simp only: screen_text_nth)
qed simp

lemma cell_in_range: "j < 2000 \<Longrightarrow> in_range v 4000 (v + word_of_nat (2 * j))"
  by (intro in_range_offset) simp_all

lemma scroll_rows_back_step:
  assumes "back_ok k"
  shows "back_step k (k\<lparr>mem := scroll_rows (t_video_mem (act k)) (mem k)\<rparr>)"
proof (rule back_step_mem)
  have *: "scroll_rows (t_video_mem (act k)) (mem k) a = mem k a"
    if "\<not> in_range (t_video_mem (act k)) 4000 a" for a
    by (rule scroll_rows_outside) (use that cell_in_range in blast)
  then show "scroll_rows (t_video_mem (act k)) (mem k) a = mem k a"
    if "\<not> in_range (t_video_mem (act k)) 4000 a" for a using that .
  show "screen_text VIDEO (scroll_rows (t_video_mem (act k)) (mem k)) = screen_text VIDEO (mem k)"
    using assms * by (intro screen_text_other) (auto simp: back_ok_def dest: disjoint_range_sym)
qed

lemma set_screen_pos_term_exec_inside:
  "x < 80 \<Longrightarrow> y < 25 \<Longrightarrow>
   set_screen_pos_term_exec x y k = Some (upd_act (\<lambda>t. t\<lparr>pos_x := x, pos_y := y\<rparr>) k)"
  by (subst set_screen_pos_term_exec.simps) (simp add: NUM_COLS_def NUM_ROWS_def comp_def)

lemma enter_term_exec_refines:
  assumes "back_ok k"
  shows "\<exists>k'. enter_term_exec k = Some k' \<and> back_console k' = con_newline (back_console k) \<and> back_step k k'"
proof (cases "pos_y (act k) < 24")
  case True
  then have y: "pos_y (act k) + 1 < 25" "unat (pos_y (act k) + 1) = unat (pos_y (act k)) + 1"
    using unat_Suc32 [OF True] by (simp_all add: word_less_unat)
  then show ?thesis
    using True back_step_cursor
    by (auto simp: enter_term_exec_def ROW_START_def set_screen_pos_term_exec_inside back_console_def con_newline_def word_less_unat)
next
  case False
  let ?v = "t_video_mem (act k)"
  have y: "\<not> pos_y (act k) + 1 < 25" "pos_y (act k) < 25" "unat (pos_y (act k)) = 24"
    using False assms unat_Suc32 [of "pos_y (act k)" 25] by (auto simp: back_ok_def word_less_unat)
  let ?k' = "upd_act (\<lambda>t. t\<lparr>pos_x := 0, pos_y := 24\<rparr>) (k\<lparr>mem := scroll_rows ?v (mem k)\<rparr>)"
  have "enter_term_exec k = Some ?k'"
    using y by (simp add: enter_term_exec_def ROW_START_def)
      (subst set_screen_pos_term_exec.simps, simp add: NUM_COLS_def NUM_ROWS_def ROW_START_def Let_def
        set_screen_pos_term_exec_inside upd_act_mem comp_def)
  moreover have "back_console ?k' = con_newline (back_console k)"
    using y by (simp add: back_console_def con_newline_def scroll_rows_text)
  moreover have "back_step k ?k'"
    using back_step_trans [OF scroll_rows_back_step [OF assms] back_step_cursor] .
  ultimately show ?thesis by blast
qed

lemma putc_terminal_active_store:
  fixes a c :: u8
  assumes "back_ok k"
  defines "k' \<equiv> poke (cell VIDEO (screen_x k) (screen_y k) + 1) a
      (poke (cell (t_video_mem (act k)) (pos_x (act k)) (pos_y (act k))) c k)"
  shows "back_console k' = ((screen_text (t_video_mem (act k)) (mem k))[80 * unat (pos_y (act k)) + unat (pos_x (act k)) := c],
      unat (pos_x (act k)), unat (pos_y (act k)))"
    and "back_step k k'" and "act k' = act k"
proof -
  let ?v = "t_video_mem (act k)"
  define i where "i = 80 * unat (pos_y (act k)) + unat (pos_x (act k))"
  define j where "j = 80 * unat (screen_y k) + unat (screen_x k)"
  have xy: "unat (pos_x (act k)) < 80" "unat (pos_y (act k)) < 25" "unat (screen_x k) < 80" "unat (screen_y k) < 25"
    and dis: "disjoint_range ?v 4000 VIDEO 4000"
    using assms(1) by (simp_all add: back_ok_def screen_ok_def word_less_unat)
  then have ij: "i < 2000" "j < 2000" unfolding i_def j_def by linarith+
  note cells = cell_offset [OF xy(1,2), folded i_def] cell_offset [OF xy(3,4), folded j_def]
  let ?m1 = "(mem k)(?v + word_of_nat (2 * i) := c)"
  let ?m2 = "?m1(VIDEO + word_of_nat (2 * j) + 1 := a)"
  have k': "k' = k\<lparr>mem := ?m2\<rparr>"
    unfolding k'_def poke_def cells by simp
  show "act k' = act k" using k' by simp
  have out1: "?m1 b = mem k b" if "\<not> in_range ?v 4000 b" for b
    using that cell_in_range [OF ij(1)] by (metis fun_upd_apply)
  have out2: "?m2 b = ?m1 b" if "\<not> in_range VIDEO 4000 b" for b
    using that cell_in_video(2) [OF ij(2)] by (metis fun_upd_apply)
  have "screen_text ?v ?m2 = screen_text ?v ?m1"
    by (rule screen_text_other [OF dis]) (rule out2)
  also have "\<dots> = (screen_text ?v (mem k))[i := c]" by (rule screen_text_put [OF ij(1)])
  finally show "back_console k' = ((screen_text ?v (mem k))[80 * unat (pos_y (act k)) + unat (pos_x (act k)) := c],
      unat (pos_x (act k)), unat (pos_y (act k)))"
    unfolding i_def [symmetric] k' back_console_def by simp
  show "back_step k k'"
    unfolding k'
  proof (rule back_step_mem)
    show "?m2 b = mem k b" if "\<not> in_range VIDEO 4000 b" and "\<not> in_range ?v 4000 b" for b
      using out2 [OF that(1)] out1 [OF that(2)] by (rule trans)
    have "screen_text VIDEO ?m2 = screen_text VIDEO ?m1" by (rule screen_text_colour [OF ij(2)])
    also have "\<dots> = screen_text VIDEO (mem k)"
      by (rule screen_text_other [OF disjoint_range_sym [OF dis]]) (rule out1)
    finally show "screen_text VIDEO ?m2 = screen_text VIDEO (mem k)" .
  qed
qed

lemma back_ok_step:
  assumes "back_step k k'" and "back_ok k"
  shows "back_ok k' \<longleftrightarrow> pos_x (act k') < 80 \<and> pos_y (act k') < 25"
  using assms(2) back_step_screen [OF assms(1)] by (simp add: back_ok_def screen_ok_def)

lemma back_console_ok:
  "con_ok (back_console k) \<longleftrightarrow> pos_x (act k) < 80 \<and> pos_y (act k) < 25"
  by (simp add: con_ok_def back_console_def word_less_unat)

lemma putc_terminal_active_refines:
  assumes "back_ok k"
  shows "\<exists>k'. putc_terminal_active c k = Some k' \<and> back_console k' = con_putc c (back_console k) \<and> back_step k k'"
proof (cases "c = 0x0A \<or> c = 0x0D")
  case True
  then show ?thesis using enter_term_exec_refines [OF assms] by (simp add: con_putc_def putc_terminal_active_def)
next
  case False
  define k1 where "k1 = poke (cell VIDEO (screen_x k) (screen_y k) + 1) (attribute (cur_term k))
      (poke (cell (t_video_mem (act k)) (pos_x (act k)) (pos_y (act k))) c k)"
  note k1 = putc_terminal_active_store [OF assms, of "attribute (cur_term k)" c, folded k1_def]
  have putc: "putc_terminal_active c k = set_screen_pos_term_exec (pos_x (act k) + 1) (pos_y (act k)) k1"
    using False k1(3) by (simp add: putc_terminal_active_def Let_def k1_def poke_def)
  have xy: "pos_x (act k) < 80" "pos_y (act k) < 25" using assms by (simp_all add: back_ok_def)
  have x1: "unat (pos_x (act k) + 1) = Suc (unat (pos_x (act k)))" using xy(1) by (rule unat_Suc32)
  show ?thesis
  proof (cases "pos_x (act k) < 79")
    case True
    then have x: "pos_x (act k) + 1 < 80" using x1 by (simp add: word_less_unat)
    have "back_console (upd_act (\<lambda>t. t\<lparr>pos_x := pos_x (act k) + 1, pos_y := pos_y (act k)\<rparr>) k1) = con_putc c (back_console k)"
      using k1(1,3) False True x1 by (simp add: con_putc_def back_console_def word_less_unat)
    then show ?thesis
      using putc set_screen_pos_term_exec_inside [OF x xy(2)] back_step_trans [OF k1(2) back_step_cursor] by auto
  next
    case 79: False
    then have "\<not> pos_x (act k) + 1 < 80" using x1 by (simp add: word_less_unat)
    then have "putc_terminal_active c k = enter_term_exec k1"
      using putc by (subst (asm) set_screen_pos_term_exec_calls) (simp add: NUM_COLS_def)
    moreover have "back_ok k1" using back_ok_step [OF k1(2) assms] xy k1(3) by simp
    then obtain k2 where k2: "enter_term_exec k1 = Some k2" "back_console k2 = con_newline (back_console k1)" "back_step k1 k2"
      using enter_term_exec_refines by blast
    moreover have "con_newline (back_console k1) = con_putc c (back_console k)"
      using k1(1) False 79 by (simp add: con_putc_def) (simp add: back_console_def word_less_unat)
    ultimately show ?thesis using back_step_trans [OF k1(2)] by auto
  qed
qed

section \<open>Clearing and colouring the screen\<close>

lemma memset_word_write:
  "memset_word m s c n = write_bytes s (concat (replicate (unat n) [ucast c, ucast (drop_bit 8 c)])) m"
proof -
  have store: "store16 a v m = write_bytes a [ucast v, ucast (drop_bit 8 v)] m" for a v m
    by (simp add: store16_def)
  have "rep_stosw v s n m = write_bytes s (concat (replicate n [ucast v, ucast (drop_bit 8 v)])) m" for v n
    by (induction n arbitrary: s m) (simp_all add: store add.assoc)
  moreover have "ucast (ucast c :: u16) = (ucast c :: u8)"
    by (rule bit_word_eqI) (simp add: bit_ucast_iff)
  moreover have "ucast (drop_bit 8 (ucast c :: u16)) = (ucast (drop_bit 8 c) :: u8)"
    by (rule bit_word_eqI) (simp add: bit_ucast_iff bit_drop_bit_eq)
  ultimately show ?thesis by (simp add: memset_word_def)
qed

lemma nth_concat_pairs:
  "i < 2 * n \<Longrightarrow> concat (replicate n [a, b]) ! i = (if even i then a else b)"
proof (induction n arbitrary: i)
  case (Suc n)
  then show ?case by (cases i; cases "i - 1") auto
qed simp

lemma length_concat_pairs: "length (concat (replicate n [a, b])) = 2 * n"
  by (induction n) simp_all

lemma clear_result:
  fixes k :: kernel
  defines "m' \<equiv> mem (clear k)"
  shows "screen_text VIDEO m' = replicate 2000 0x20"
    and "i < 2000 \<Longrightarrow> m' (VIDEO + word_of_nat (2 * i + 1)) = attribute (cur_term k)"
    and "\<not> in_range VIDEO 4000 a \<Longrightarrow> m' a = mem k a"
    and "screen_step k (clear k)"
proof -
  let ?c = "push_bit 8 (ucast (attribute (cur_term k))) OR 0x20 :: u32"
  have c: "ucast ?c = (0x20 :: u8)" "ucast (drop_bit 8 ?c) = attribute (cur_term k)"
    by (simp_all add: attribute_def)
  let ?bs = "concat (replicate 2000 [0x20, attribute (cur_term k)])"
  have m': "m' = write_bytes VIDEO ?bs (mem k)"
    unfolding m'_def clear_def kernel.select_convs kernel.simps memset_word_write c NUM_ROWS_def NUM_COLS_def by simp
  have len: "length ?bs = 4000" by (simp only: length_concat_pairs)
  have at: "m' (VIDEO + word_of_nat j) = ?bs ! j" if "j < 4000" for j
    unfolding m' by (rule write_bytes_inside) (use that len in simp_all)
  show "screen_text VIDEO m' = replicate 2000 0x20"
    by (rule nth_equalityI)
      (simp_all add: screen_text_nth at nth_concat_pairs del: of_nat_mult)
  show "i < 2000 \<Longrightarrow> m' (VIDEO + word_of_nat (2 * i + 1)) = attribute (cur_term k)"
    using at [of "2 * i + 1"] nth_concat_pairs [of "2 * i + 1" 2000] by (simp del: of_nat_mult of_nat_add)
  show *: "\<not> in_range VIDEO 4000 a \<Longrightarrow> m' a = mem k a" for a
    unfolding m' by (rule write_bytes_outside) (use len in simp_all)
  have "clear k = k\<lparr>mem := m'\<rparr>" by (simp add: m'_def clear_def)
  then show "screen_step k (clear k)" using screen_step_updates(1) * by metis
qed

text \<open>\<^verbatim>\<open>blue_screen\<close> colours every cell and leaves the characters.\<close>

lemma mem_upd: "mem (k\<lparr>mem := m\<rparr>) = m"
  by simp

lemma mem_only: "k1 = k\<lparr>mem := q\<rparr> \<Longrightarrow> k1\<lparr>mem := m\<rparr> = k\<lparr>mem := mem (k1\<lparr>mem := m\<rparr>)\<rparr>"
  by simp

lemma blue_screen_fold:
  fixes n :: nat and k :: kernel
  assumes "n \<le> 2000"
  defines "k' \<equiv> fold (\<lambda>i. poke (VIDEO + push_bit 1 (word_of_nat i) + 1) BLUE_SCREEN) [0..<n] k"
  shows "k' = k\<lparr>mem := mem k'\<rparr>" and "screen_text VIDEO (mem k') = screen_text VIDEO (mem k)"
    and "i < n \<Longrightarrow> mem k' (VIDEO + word_of_nat (2 * i) + 1) = BLUE_SCREEN"
    and "\<not> in_range VIDEO 4000 a \<Longrightarrow> mem k' a = mem k a"
  unfolding k'_def using assms(1)
proof (induction n)
  case 0
  { case 1 then show ?case by simp }
  { case 2 then show ?case by simp }
  { case 3 then show ?case by simp }
  { case 4 then show ?case by simp }
next
  case (Suc n)
  let ?k = "fold (\<lambda>i. poke (VIDEO + push_bit 1 (word_of_nat i) + 1) BLUE_SCREEN) [0..<n] k"
  have step: "fold (\<lambda>i. poke (VIDEO + push_bit 1 (word_of_nat i) + 1) BLUE_SCREEN) [0..<Suc n] k
      = ?k\<lparr>mem := (mem ?k)(VIDEO + word_of_nat (2 * n) + 1 := BLUE_SCREEN)\<rparr>"
    by (simp add: poke_def shl1 mult.commute)
  { case 1
    have "?k = k\<lparr>mem := mem ?k\<rparr>" using 1 by (intro Suc(1)) simp
    then show ?case unfolding step by (rule mem_only) }
  { case 2
    have "screen_text VIDEO (mem ?k) = screen_text VIDEO (mem k)" using 2 by (intro Suc(2)) simp
    moreover have "n < 2000" using 2 by simp
    ultimately show ?case unfolding step by (simp only: mem_upd screen_text_colour) }
  { case 3
    show ?case
    proof (cases "i = n")
      case False
      have "mem ?k (VIDEO + word_of_nat (2 * i) + 1) = BLUE_SCREEN" using 3 False by (intro Suc(3)) simp_all
      then show ?thesis unfolding step by (simp del: of_nat_mult)
    qed (simp only: step mem_upd fun_upd_same) }
  { case 4
    have "mem ?k a = mem k a" using 4 by (intro Suc(4)) simp_all
    moreover have "a \<noteq> VIDEO + word_of_nat (2 * n) + 1" using 4 cell_in_video(2) [of n] by auto
    ultimately show ?case unfolding step by (simp del: of_nat_mult) }
qed

lemma blue_screen_result:
  shows "screen_step k (blue_screen k)" and "fore_console (blue_screen k) = fore_console k"
    and "i < 2000 \<Longrightarrow> mem (blue_screen k) (VIDEO + word_of_nat (2 * i) + 1) = BLUE_SCREEN"
proof -
  note b = blue_screen_fold [where n = 2000 and k = k, folded blue_screen_def, simplified]
  show "screen_step k (blue_screen k)" using b(1,4) screen_step_updates(1) by metis
  have "screen_x (blue_screen k) = screen_x k" "screen_y (blue_screen k) = screen_y k"
    by (subst b(1), simp)+
  then show "fore_console (blue_screen k) = fore_console k" using b(2) by (simp add: fore_console_def)
  show "i < 2000 \<Longrightarrow> mem (blue_screen k) (VIDEO + word_of_nat (2 * i) + 1) = BLUE_SCREEN"
    using b(3) by simp
qed

section \<open>The hardware cursor\<close>

text \<open>
  The display controller behind port 3D4h: a 16 bit write selects the register of its low byte
  and stores its high byte there. Registers 0Eh and 0Fh are the cursor position.
\<close>

primrec crtc :: "u8 \<Rightarrow> io list \<Rightarrow> u8" where
  "crtc r [] = 0"
| "crtc r (x # xs) = (case x of
     Outw v port \<Rightarrow> if port = 0x3D4 \<and> ucast v = r then ucast (drop_bit 8 v) else crtc r xs
   | _ \<Rightarrow> crtc r xs)"

definition hardware_cursor :: "kernel \<Rightarrow> nat" where
  "hardware_cursor k = 256 * unat (crtc 0x0E (io_log k)) + unat (crtc 0x0F (io_log k))"

lemma cursor_words:
  fixes p :: u16
  defines "q1 \<equiv> (ucast (0x000E OR (ucast p AND 0xFF00) :: u32) :: u16)"
    and "q2 \<equiv> (ucast (0x000F OR (push_bit 8 (ucast p) AND 0xFF00) :: u32) :: u16)"
  shows "(ucast q1 :: u8) = 0x0E" and "(ucast q2 :: u8) = 0x0F"
    and "(ucast (drop_bit 8 q1) :: u8) = ucast (drop_bit 8 p)" and "(ucast (drop_bit 8 q2) :: u8) = ucast p"
proof -
  have mask: "bit (0xFF00 :: u32) i \<longleftrightarrow> 8 \<le> i \<and> i < 16" for i
  proof -
    have "(0xFF00 :: u32) = mask 16 AND NOT (mask 8)" by (simp add: mask_eq_exp_minus_1)
    then have "bit (0xFF00 :: u32) i \<longleftrightarrow> bit (mask 16 AND NOT (mask 8) :: u32) i" by (simp only:)
    also have "\<dots> \<longleftrightarrow> 8 \<le> i \<and> i < 16" by (auto simp: bit_and_iff bit_not_iff bit_mask_iff)
    finally show ?thesis .
  qed
  have low: "bit (0x000E :: u32) i \<longleftrightarrow> i < 8 \<and> bit (0x0E :: u8) i"
    "bit (0x000F :: u32) i \<longleftrightarrow> i < 8 \<and> bit (0x0F :: u8) i" for i
  proof -
    have "(0x000E :: u32) = ucast (0x0E :: u8)" "(0x000F :: u32) = ucast (0x0F :: u8)" by simp_all
    then show "bit (0x000E :: u32) i \<longleftrightarrow> i < 8 \<and> bit (0x0E :: u8) i"
      "bit (0x000F :: u32) i \<longleftrightarrow> i < 8 \<and> bit (0x0F :: u8) i"
      by (simp_all only: bit_ucast_iff) (auto dest: bit_imp_le_length)
  qed
  note bits = bit_ucast_iff bit_or_iff bit_and_iff bit_drop_bit_eq bit_push_bit_iff comp_def mask low q1_def q2_def
  show "(ucast q1 :: u8) = 0x0E" by (rule bit_word_eqI; simp only: bits) auto
  show "(ucast q2 :: u8) = 0x0F" by (rule bit_word_eqI; simp only: bits) auto
  show "(ucast (drop_bit 8 q1) :: u8) = ucast (drop_bit 8 p)" by (rule bit_word_eqI; simp only: bits) auto
  show "(ucast (drop_bit 8 q2) :: u8) = ucast p" by (rule bit_word_eqI; simp only: bits) auto
qed

lemma hardware_cursor_set:
  assumes "screen_ok k"
  shows "hardware_cursor (set_cursor_pos k) = 80 * unat (screen_y k) + unat (screen_x k)"
proof -
  define p :: u16 where "p = ucast (80 * screen_y k + screen_x k)"
  have xy: "unat (screen_x k) < 80" "unat (screen_y k) < 25"
    using assms by (simp_all add: screen_ok_def word_less_unat)
  have "80 * screen_y k + screen_x k = word_of_nat (80 * unat (screen_y k) + unat (screen_x k))" by simp
  then have p: "unat p = 80 * unat (screen_y k) + unat (screen_x k)"
    using xy unfolding p_def
    by (simp only: unsigned_ucast_eq take_bit_eq_mod unat_of_nat32) (simp add: unsigned_ucast_eq take_bit_eq_mod)
  define q1 :: u16 where "q1 = ucast (0x000E OR (ucast p AND 0xFF00) :: u32)"
  define q2 :: u16 where "q2 = ucast (0x000F OR (push_bit 8 (ucast p) AND 0xFF00) :: u32)"
  have "io_log (set_cursor_pos k) = Outw q2 0x3D4 # Outw q1 0x3D4 # io_log k"
    by (simp only: set_cursor_pos_def Let_def outw_def NUM_COLS_def q1_def q2_def p_def) simp
  then have "hardware_cursor (set_cursor_pos k) = 256 * unat (ucast (drop_bit 8 p) :: u8) + unat (ucast p :: u8)"
    using cursor_words [of p, folded q1_def q2_def] by (simp add: hardware_cursor_def)
  moreover have "unat (drop_bit 8 p) = unat p div 256" by (simp add: drop_bit_eq_div unat_div_distrib)
  moreover have "unat p div 256 < 256" using p xy by simp
  ultimately show ?thesis using p by (simp add: unsigned_ucast_eq take_bit_eq_mod)
qed

lemma set_screen_pos_cursor:
  assumes "set_screen_pos x y k = Some k'" and "screen_ok k'"
  shows "hardware_cursor k' = 80 * unat (screen_y k') + unat (screen_x k')"
proof -
  obtain k1 where "k' = set_cursor_pos k1"
    using assms(1) by (subst (asm) set_screen_pos_calls) (auto simp: Let_def split: if_splits bind_splits)
  then show ?thesis using hardware_cursor_set [of k1] assms(2) by (simp add: screen_ok_def)
qed

lemma con_backspace_putc:
  assumes "con_ok (t, x, y)" and "c \<noteq> 0x0A" and "c \<noteq> 0x0D" and "x \<noteq> 79 \<or> y \<noteq> 24"
  shows "con_backspace (con_putc c (t, x, y)) = (t[80 * y + x := 0x20], x, y)"
proof (cases "x < 79")
  case True
  then show ?thesis using assms by (simp add: con_putc_def con_backspace_def)
next
  case False
  then have "x = 79" "y < 24" using assms by (auto simp: con_ok_def)
  then show ?thesis using assms(2,3) by (simp add: con_putc_def con_newline_def con_backspace_def)
qed

lemma some_kernel_screen: "screen_ok some_kernel"
  by (simp add: screen_ok_def some_kernel_def boot_kernel_def)

section \<open>Properties\<close>

text \<open>
  C40. Wherever the cursor is asked to go, also off the screen, \<^verbatim>\<open>set_screen_pos\<close> ends (its
  mutual recursion with \<^verbatim>\<open>enter\<close> and \<^verbatim>\<open>scroll_up\<close> too), leaves the cursor inside the 80 by 25
  screen, the position registers of the display at the same cell, and memory outside the 4000
  bytes of the screen unchanged.
\<close>

theorem cursor_stays_on_screen:
  assumes "screen_ok k"
  shows "\<exists>k'. set_screen_pos x y k = Some k' \<and> screen_x k' < 80 \<and> screen_y k' < 25 \<and>
    hardware_cursor k' = 80 * unat (screen_y k') + unat (screen_x k') \<and>
    (\<forall>a. in_range VIDEO 4000 a \<or> mem k' a = mem k a)"
proof -
  obtain k' where k': "set_screen_pos x y k = Some k'" "screen_ok k'" "screen_step k k'"
    using set_screen_pos_total [OF assms] .
  moreover have "\<forall>a. in_range VIDEO 4000 a \<or> mem k' a = mem k a"
    using k'(3) by (auto simp: screen_step_def)
  moreover note set_screen_pos_cursor [OF k'(1,2)]
  ultimately show ?thesis by (auto simp: screen_ok_def)
qed

lemma cursor_stays_on_screen_witness:
  "\<exists>k'. set_screen_pos 100 30 some_kernel = Some k' \<and> screen_x k' < 80 \<and> screen_y k' < 25 \<and>
    hardware_cursor k' = 80 * unat (screen_y k') + unat (screen_x k') \<and>
    (\<forall>a. in_range VIDEO 4000 a \<or> mem k' a = mem some_kernel a)"
  by (rule cursor_stays_on_screen [OF some_kernel_screen])

text \<open>
  \<^verbatim>\<open>backspace\<close> undoes \<^verbatim>\<open>putc\<close>: after a character that is not a line end, it brings the cursor
  back to where it was and leaves a blank in that cell and every other character as it was.
  Only in the last cell of the screen is it different, where \<^verbatim>\<open>putc\<close> scrolls.
\<close>

lemma backspace_undoes_putc:
  assumes "screen_ok k" and "c \<noteq> 0x0A" and "c \<noteq> 0x0D" and "screen_x k \<noteq> 79 \<or> screen_y k \<noteq> 24"
  shows "\<exists>k1 k2. putc c k = Some k1 \<and> backspace k1 = Some k2 \<and>
    screen_x k2 = screen_x k \<and> screen_y k2 = screen_y k \<and>
    screen_text VIDEO (mem k2) =
      (screen_text VIDEO (mem k))[80 * unat (screen_y k) + unat (screen_x k) := 0x20]"
proof -
  obtain k1 where k1: "putc c k = Some k1" "fore_console k1 = con_putc c (fore_console k)"
    using putc_refines [OF assms(1)] by blast
  then have "screen_ok k1" using assms(1) con_ok_putc fore_console_ok by metis
  then obtain k2 where k2: "backspace k1 = Some k2" "fore_console k2 = con_backspace (fore_console k1)"
    using backspace_refines by blast
  have "unat (screen_x k) \<noteq> 79 \<or> unat (screen_y k) \<noteq> 24"
    using assms(4) by (auto simp: unat_eq_nat32)
  then have "fore_console k2 = ((screen_text VIDEO (mem k))[80 * unat (screen_y k) + unat (screen_x k) := 0x20],
      unat (screen_x k), unat (screen_y k))"
    using k1(2) k2(2) con_backspace_putc assms(1-3) fore_console_ok by (metis fore_console_def)
  then show ?thesis using k1(1) k2(1) by (auto simp: fore_console_def word_unat_eq_iff)
qed

text \<open>
  \<^verbatim>\<open>backspace\<close> in the top left corner, where there is nothing to remove, scrolls the screen
  and moves the cursor to the last line: the row above is computed unsigned and taken as one
  below the screen.
\<close>

lemma backspace_top_left_scrolls:
  assumes "screen_x k = 0" and "screen_y k = 0"
  shows "\<exists>k'. backspace k = Some k' \<and> screen_x k' = 0 \<and> screen_y k' = 24 \<and>
    screen_text VIDEO (mem k') = drop 80 (screen_text VIDEO (mem k)) @ replicate 80 0x20"
proof -
  obtain k' where k': "backspace k = Some k'" "fore_console k' = con_backspace (fore_console k)"
    using backspace_refines [of k] assms by (auto simp: screen_ok_def)
  have "(drop 80 (screen_text VIDEO (mem k)) @ replicate 80 (0x20 :: u8))[1920 := 0x20]
      = drop 80 (screen_text VIDEO (mem k)) @ replicate 80 0x20"
    by (rule list_update_same_conv [THEN iffD2]) (simp_all add: nth_append)
  then have "fore_console k' = (drop 80 (screen_text VIDEO (mem k)) @ replicate 80 0x20, 0, 24)"
    using k'(2) assms by (simp add: con_backspace_def fore_console_def)
  then have "screen_text VIDEO (mem k') = drop 80 (screen_text VIDEO (mem k)) @ replicate 80 0x20"
    "unat (screen_x k') = 0" "unat (screen_y k') = 24" by (simp_all add: fore_console_def)
  then show ?thesis using k'(1) by (simp add: unat_eq_nat32)
qed

end
