(* ===== verification/Printf.thy ===== *)
theory Printf
  imports Screen
begin

text \<open>
  \<^verbatim>\<open>puts\<close>, \<^verbatim>\<open>printf\<close>, \<^verbatim>\<open>puts_terminal_active\<close> and \<^verbatim>\<open>printf_terminal_active\<close> of
  \<^verbatim>\<open>student-distrib/lib.c\<close>. The two pairs are one text with another \<^verbatim>\<open>putc\<close>, so they are the
  instances of one definition, and what is proved of them is proved once, in the locale
  \<open>console_output\<close>, of anything that keeps the contract of a console.

  Strings are read as the printing goes on, since printing writes memory too.
\<close>

unbundle bit_operations_syntax

section \<open>Definitions\<close>

text \<open>What a pointer shows to the code that runs: the memory through the page tables.\<close>

definition vptr :: "addr \<Rightarrow> kernel \<Rightarrow> cptr" where
  "vptr p k = (\<lambda>i. vmem k (p + i))"

type_synonym put = "u8 \<Rightarrow> kernel \<Rightarrow> kernel option"

partial_function (option) puts_loop :: "put \<Rightarrow> (kernel \<Rightarrow> cptr) \<Rightarrow> u32 \<Rightarrow> kernel \<Rightarrow> (u32 \<times> kernel) option" where
  "puts_loop put s index k =
     (if s k index \<noteq> 0
      then Option.bind (put (s k index) k) (\<lambda>k. puts_loop put s (index + 1) k)
      else Some (index, k))"

definition puts :: "(kernel \<Rightarrow> cptr) \<Rightarrow> kernel \<Rightarrow> (u32 \<times> kernel) option" where
  "puts s k = puts_loop putc s 0 k"

definition puts_terminal_active :: "(kernel \<Rightarrow> cptr) \<Rightarrow> kernel \<Rightarrow> (u32 \<times> kernel) option" where
  "puts_terminal_active s k = puts_loop putc_terminal_active s 0 k"

text \<open>
  The texts of the numeric conversions. The local \<^verbatim>\<open>conv_buf\<close> is an object of its own, so it
  has a memory of its own, and is at address 0 there; every byte of it that is read has been
  written before.
\<close>

definition conv_hex :: "bool \<Rightarrow> u32 \<Rightarrow> cptr option" where
  "conv_hex alternate v =
     (if \<not> alternate then map_option (ptr 0) (itoa v (\<lambda>_. 0) 0 16)
      else do {
        conv_buf \<leftarrow> itoa v (\<lambda>_. 0) 8 16;
        starting_index \<leftarrow> strlen (ptr 8 conv_buf);
        let conv_buf = fold (\<lambda>i b. b(word_of_nat i := of_char (CHR ''0''))) [unat starting_index..<8] conv_buf
        in Some (ptr starting_index conv_buf) })"

definition conv_unsigned :: "u32 \<Rightarrow> cptr option" where
  "conv_unsigned v = map_option (ptr 0) (itoa v (\<lambda>_. 0) 0 10)"

definition conv_signed :: "u32 \<Rightarrow> cptr option" where
  "conv_signed v =
     (if v <s 0 then map_option (ptr 0) (itoa (- v) ((\<lambda>_. 0)(0 := of_char (CHR ''-''))) 1 10)
      else map_option (ptr 0) (itoa v (\<lambda>_. 0) 0 10))"

text \<open>
  The inner switch, from the label \<^verbatim>\<open>format_char_switch\<close>. \<open>buf\<close> is the offset from \<open>format\<close>,
  \<open>esp\<close> counts the words taken from \<open>args\<close>, the stack above the format.
\<close>

partial_function (option) format_char_switch ::
  "put \<Rightarrow> (kernel \<Rightarrow> cptr) \<Rightarrow> (nat \<Rightarrow> u32) \<Rightarrow> bool \<Rightarrow> u32 \<Rightarrow> nat \<Rightarrow> kernel \<Rightarrow> (u32 \<times> nat \<times> kernel) option" where
  "format_char_switch put format args alternate buf esp k =
     (let c = format k buf; print = (\<lambda>s k. map_option snd (puts_loop put s 0 k)) in
      if c = of_char (CHR ''%'') then map_option (\<lambda>k. (buf, esp, k)) (put (of_char (CHR ''%'')) k)
      else if c = of_char (CHR ''#'') then format_char_switch put format args True (buf + 1) esp k
      else if c = of_char (CHR ''x'') then
        Option.bind (conv_hex alternate (args esp)) (\<lambda>s. map_option (\<lambda>k. (buf, esp + 1, k)) (print (\<lambda>_. s) k))
      else if c = of_char (CHR ''u'') then
        Option.bind (conv_unsigned (args esp)) (\<lambda>s. map_option (\<lambda>k. (buf, esp + 1, k)) (print (\<lambda>_. s) k))
      else if c = of_char (CHR ''d'') then
        Option.bind (conv_signed (args esp)) (\<lambda>s. map_option (\<lambda>k. (buf, esp + 1, k)) (print (\<lambda>_. s) k))
      else if c = of_char (CHR ''c'') then map_option (\<lambda>k. (buf, esp + 1, k)) (put (ucast (args esp)) k)
      else if c = of_char (CHR ''s'') then map_option (\<lambda>k. (buf, esp + 1, k)) (print (vptr (args esp)) k)
      else Some (buf, esp, k))"

text \<open>
  The outer loop. After a conversion \<open>buf\<close> moves on by one, whatever it points to: with a
  \<^verbatim>\<open>%\<close> at the end of the format it moves past the NUL.
\<close>

partial_function (option) printf_loop ::
  "put \<Rightarrow> (kernel \<Rightarrow> cptr) \<Rightarrow> (nat \<Rightarrow> u32) \<Rightarrow> u32 \<Rightarrow> nat \<Rightarrow> kernel \<Rightarrow> (u32 \<times> kernel) option" where
  "printf_loop put format args buf esp k =
     (let c = format k buf in
      if c \<noteq> 0 then
        (if c = of_char (CHR ''%'') then
           Option.bind (format_char_switch put format args False (buf + 1) esp k)
             (\<lambda>(buf, esp, k). printf_loop put format args (buf + 1) esp k)
         else Option.bind (put c k) (\<lambda>k. printf_loop put format args (buf + 1) esp k))
      else Some (buf, k))"

definition printf :: "(kernel \<Rightarrow> cptr) \<Rightarrow> (nat \<Rightarrow> u32) \<Rightarrow> kernel \<Rightarrow> (u32 \<times> kernel) option" where
  "printf format args k = printf_loop putc format args 0 0 k"

definition printf_terminal_active :: "(kernel \<Rightarrow> cptr) \<Rightarrow> (nat \<Rightarrow> u32) \<Rightarrow> kernel \<Rightarrow> (u32 \<times> kernel) option" where
  "printf_terminal_active format args k = printf_loop putc_terminal_active format args 0 0 k"

text \<open>A string literal as a source.\<close>

definition literal :: "string \<Rightarrow> kernel \<Rightarrow> cptr" where
  "literal s = (\<lambda>_. arr (ascii s @ [0]))"

definition print_cr3 :: "kernel \<Rightarrow> (u32 \<times> kernel) option" where
  "print_cr3 k = printf (literal (CHR 0x0A # ''                  Fault Occurs at: %x'' @ [CHR 0x0A])) (\<lambda>_. cr3 k) k"

section \<open>What a format prints\<close>

text \<open>
  A format is a sequence of characters and conversions. \<open>conversion_text\<close> is what a conversion
  of an argument prints; for \<^verbatim>\<open>%s\<close> the string that the argument points to is given.
\<close>

datatype piece = Plain u8 | Percent | Hex bool | Unsigned | Signed | Charc | Str

fun piece_chars :: "piece \<Rightarrow> u8 list" where
  "piece_chars (Plain c) = [c]"
| "piece_chars Percent = ascii ''%%''"
| "piece_chars (Hex alternate) = (if alternate then ascii ''%#x'' else ascii ''%x'')"
| "piece_chars Unsigned = ascii ''%u''"
| "piece_chars Signed = ascii ''%d''"
| "piece_chars Charc = ascii ''%c''"
| "piece_chars Str = ascii ''%s''"

definition format_chars :: "piece list \<Rightarrow> u8 list" where
  "format_chars ps = concat (map piece_chars ps)"

fun takes_arg :: "piece \<Rightarrow> bool" where
  "takes_arg (Plain c) = False"
| "takes_arg Percent = False"
| "takes_arg _ = True"

fun piece_text :: "piece \<Rightarrow> u32 \<Rightarrow> u8 list \<Rightarrow> u8 list" where
  "piece_text (Plain c) v s = [c]"
| "piece_text Percent v s = ascii ''%''"
| "piece_text (Hex alternate) v s =
     (let t = number_text 16 (unat v) in
      if alternate then replicate (8 - length t) (of_char (CHR ''0'')) @ t else t)"
| "piece_text Unsigned v s = number_text 10 (unat v)"
| "piece_text Signed v s =
     (if v <s 0 then of_char (CHR ''-'') # number_text 10 (unat (- v)) else number_text 10 (unat v))"
| "piece_text Charc v s = [ucast v]"
| "piece_text Str v s = s"

primrec format_text :: "piece list \<Rightarrow> (nat \<Rightarrow> u32) \<Rightarrow> (nat \<Rightarrow> u8 list) \<Rightarrow> nat \<Rightarrow> u8 list" where
  "format_text [] args strs esp = []"
| "format_text (p # ps) args strs esp =
     piece_text p (args esp) (strs esp) @ format_text ps args strs (if takes_arg p then esp + 1 else esp)"

fun plain_ok :: "piece \<Rightarrow> bool" where
  "plain_ok (Plain c) = (c \<noteq> 0 \<and> c \<noteq> of_char (CHR ''%''))"
| "plain_ok _ = True"

section \<open>The numeric texts\<close>

lemma digits_length_pow: "2 \<le> r \<Longrightarrow> v < r ^ n \<Longrightarrow> length (digits r v) \<le> n"
proof (induction n arbitrary: v)
  case 0
  then show ?case by (simp add: digits.simps)
next
  case (Suc n)
  have "v div r < r ^ n" using Suc.prems by (simp add: less_mult_imp_div_less mult.commute)
  then show ?case using Suc by (subst digits.simps) simp
qed

lemma hex_length: "length (number_text 16 (unat (v :: u32))) \<le> 8"
proof -
  have "length (digits 16 (unat v)) \<le> 8"
    by (rule digits_length_pow) (use unat_lt32 [of v] in simp_all)
  then show ?thesis by (simp add: number_text_def ascii_def)
qed

lemma number_cstr:
  assumes "2 \<le> unat (r :: u32)" and "unat r \<le> 36"
  shows "\<exists>b. itoa v m buf r = Some b \<and> b = write_bytes buf (number_text (unat r) (unat v) @ [0]) m \<and>
    cstr (ptr buf b) (number_text (unat r) (unat v))"
  using itoa_write [OF assms] number_text_facts [OF assms, of v] by (simp add: cstr_ptr_write)

lemma fold_store:
  fixes c :: u8 and b :: mem
  defines "store \<equiv> \<lambda>i b. b(word_of_nat i := c)"
  assumes "a + n < 4294967296"
  shows "fold store [a..<a + n] b = write_bytes (word_of_nat a) (replicate n c) b"
  using assms(2)
proof (induction n)
  case 0
  then show ?case by simp
next
  case (Suc n)
  have "fold store [a..<a + n] b = write_bytes (word_of_nat a) (replicate n c) b" using Suc by simp
  then have "fold store [a..<a + Suc n] b = store (a + n) (write_bytes (word_of_nat a) (replicate n c) b)" by simp
  also have "\<dots> = (write_bytes (word_of_nat a) (replicate n c) b)(word_of_nat a + word_of_nat (length (replicate n c)) := c)"
    by (simp only: store_def of_nat_add length_replicate)
  also have "\<dots> = write_bytes (word_of_nat a) (replicate n c @ [c]) b" by (rule write_bytes_snoc)
  finally show ?case by (simp only: replicate_append_same replicate_Suc)
qed

lemma conv_hex_text:
  "\<exists>s. conv_hex alternate v = Some s \<and> cstr s (piece_text (Hex alternate) v t)"
proof (cases alternate)
  case False
  then show ?thesis using number_cstr [of 16 v "\<lambda>_. 0" 0] by (auto simp: conv_hex_def)
next
  case True
  let ?t = "number_text 16 (unat v)" and ?z = "of_char (CHR ''0'') :: u8"
  let ?n = "length ?t"
  have n: "?n \<le> 8" by (rule hex_length)
  obtain b where b: "itoa v (\<lambda>_. 0) 8 16 = Some b" "b = write_bytes 8 (?t @ [0]) (\<lambda>_. 0)" "cstr (ptr 8 b) ?t"
    using number_cstr [of 16 v "\<lambda>_. 0" 8] by auto
  define cb where "cb = fold (\<lambda>i b. b(word_of_nat i := ?z)) [?n..<8] b"
  have "[?n..<8] = [?n..<?n + (8 - ?n)]" using n by simp
  then have fold: "cb = write_bytes (word_of_nat ?n) (replicate (8 - ?n) ?z) b"
    unfolding cb_def using fold_store [of ?n "8 - ?n" ?z b] n by (simp only: le_add_diff_inverse)
  have low: "cb (word_of_nat (?n + i)) = (replicate (8 - ?n) ?z @ ?t @ [0]) ! i" if i: "i \<le> 8" for i
  proof (cases "i < 8 - ?n")
    case True
    then show ?thesis using i n by (simp add: fold write_bytes_apply nth_append)
  next
    case False
    have "unat (word_of_nat (?n + i) - word_of_nat ?n :: u32) = i" using n i by simp
    then have "cb (word_of_nat (?n + i)) = b (word_of_nat (?n + i))"
      using False n by (simp only: fold write_bytes_apply length_replicate) simp
    also have "\<dots> = b (8 + word_of_nat (?n + i - 8))"
    proof -
      have "(8 :: u32) + word_of_nat (?n + i - 8) = word_of_nat (8 + (?n + i - 8))" by simp
      then show ?thesis using False by simp
    qed
    also have "\<dots> = (?t @ [0]) ! (?n + i - 8)"
      unfolding b(2) by (rule write_bytes_inside) (use n i in simp_all)
    also have "\<dots> = (replicate (8 - ?n) ?z @ ?t @ [0]) ! i"
      using False n by (simp only: nth_append length_replicate) (simp add: algebra_simps)
    finally show ?thesis .
  qed
  have "conv_hex alternate v = Some (ptr (word_of_nat ?n) cb)"
    using True strlen_cstr [OF b(3)] n by (simp only: conv_hex_def b(1) cb_def Let_def) simp
  moreover have "cstr (ptr (word_of_nat ?n) cb) (replicate (8 - ?n) ?z @ ?t)"
  proof -
    have nul: "0 \<notin> set ?t" using number_text_facts(1) [where r = "16 :: u32" and v = v] by simp
    have "length (replicate (8 - ?n) ?z @ ?t) = 8" using n by simp
    moreover have "ptr (word_of_nat ?n) cb (word_of_nat 8) = (replicate (8 - ?n) ?z @ ?t @ [0]) ! 8"
      using low [of 8] by (simp only: ptr_def of_nat_add order_refl)
    moreover have "ptr (word_of_nat ?n) cb (word_of_nat i) = (replicate (8 - ?n) ?z @ ?t @ [0]) ! i" if "i \<le> 8" for i
      using low [OF that] by (simp add: ptr_def)
    moreover have "(replicate (8 - ?n) ?z @ ?t @ [0]) ! i = (replicate (8 - ?n) ?z @ ?t) ! i" if "i < 8" for i
      by (subst append_assoc [symmetric], subst nth_append) (use that n in simp)
    moreover have "(replicate (8 - ?n) ?z @ ?t @ [0]) ! 8 = 0"
      by (subst append_assoc [symmetric], subst nth_append) (use n in simp)
    ultimately show ?thesis using nul by (simp add: cstr_def)
  qed
  ultimately show ?thesis using True by (simp add: Let_def)
qed

lemma conv_unsigned_text: "\<exists>s. conv_unsigned v = Some s \<and> cstr s (piece_text Unsigned v t)"
  using number_cstr [of 10 v "\<lambda>_. 0" 0] by (auto simp: conv_unsigned_def)

lemma conv_signed_text: "\<exists>s. conv_signed v = Some s \<and> cstr s (piece_text Signed v t)"
proof (cases "v <s 0")
  case False
  then show ?thesis using number_cstr [of 10 v "\<lambda>_. 0" 0] by (auto simp: conv_signed_def)
next
  case True
  let ?t = "number_text 10 (unat (- v))" and ?m = "of_char (CHR ''-'') :: u8"
  have "itoa (- v) ((\<lambda>_. 0)(0 := ?m)) 1 10 = Some (write_bytes 1 (?t @ [0]) ((\<lambda>_. 0)(0 := ?m)))"
    using itoa_write [where r = 10 and v = "- v" and m = "(\<lambda>_. 0)(0 := ?m)" and buf = 1] by (simp del: fun_upd_apply)
  also have "write_bytes 1 (?t @ [0]) ((\<lambda>_. 0)(0 := ?m)) = write_bytes 0 ((?m # ?t) @ [0]) (\<lambda>_. 0)"
    by simp
  finally have "conv_signed v = Some (ptr 0 (write_bytes 0 ((?m # ?t) @ [0]) (\<lambda>_. 0)))"
    using True by (simp only: conv_signed_def if_True) simp
  moreover have "cstr (ptr 0 (write_bytes 0 ((?m # ?t) @ [0]) (\<lambda>_. 0))) (?m # ?t)"
    using number_text_facts [where r = "10 :: u32" and v = "- v"] by (intro cstr_ptr_write) auto
  ultimately show ?thesis using True by simp
qed

section \<open>Printing on a console\<close>

text \<open>
  The source \<open>s\<close> shows the string \<open>xs\<close> whatever a sequence of steps does: it does not lie in
  the memory that printing changes.
\<close>

definition shown :: "(kernel \<Rightarrow> kernel \<Rightarrow> bool) \<Rightarrow> (kernel \<Rightarrow> cptr) \<Rightarrow> kernel \<Rightarrow> u8 list \<Rightarrow> bool" where
  "shown step s k xs \<longleftrightarrow> (\<forall>k'. step k k' \<longrightarrow> cstr (s k') xs)"

primrec strings_shown ::
  "(kernel \<Rightarrow> kernel \<Rightarrow> bool) \<Rightarrow> piece list \<Rightarrow> (nat \<Rightarrow> u32) \<Rightarrow> (nat \<Rightarrow> u8 list) \<Rightarrow> nat \<Rightarrow> kernel \<Rightarrow> bool" where
  "strings_shown step [] args strs esp k = True"
| "strings_shown step (p # ps) args strs esp k =
     ((p = Str \<longrightarrow> shown step (vptr (args esp)) k (strs esp)) \<and>
      strings_shown step ps args strs (if takes_arg p then esp + 1 else esp) k)"

lemma shown_object: "cstr r xs \<Longrightarrow> shown step (\<lambda>_. r) k xs"
  by (simp add: shown_def)

lemma shown_literal: "0 \<notin> set (ascii s) \<Longrightarrow> length s < 4294967296 \<Longrightarrow> shown step (literal s) k (ascii s)"
  unfolding literal_def by (intro shown_object cstr_arr) (simp_all add: ascii_def)

text \<open>The branches of the inner switch.\<close>

lemma switch_cases:
  fixes put :: put
  defines "switch \<equiv> format_char_switch put"
  shows "format k buf = 37 \<Longrightarrow> switch format args alternate buf esp k = map_option (\<lambda>k. (buf, esp, k)) (put 37 k)"
    and "format k buf = 35 \<Longrightarrow> switch format args alternate buf esp k = switch format args True (buf + 1) esp k"
    and "format k buf = 120 \<Longrightarrow> switch format args alternate buf esp k =
      Option.bind (conv_hex alternate (args esp)) (\<lambda>s. map_option (\<lambda>k. (buf, esp + 1, k)) (map_option snd (puts_loop put (\<lambda>_. s) 0 k)))"
    and "format k buf = 117 \<Longrightarrow> switch format args alternate buf esp k =
      Option.bind (conv_unsigned (args esp)) (\<lambda>s. map_option (\<lambda>k. (buf, esp + 1, k)) (map_option snd (puts_loop put (\<lambda>_. s) 0 k)))"
    and "format k buf = 100 \<Longrightarrow> switch format args alternate buf esp k =
      Option.bind (conv_signed (args esp)) (\<lambda>s. map_option (\<lambda>k. (buf, esp + 1, k)) (map_option snd (puts_loop put (\<lambda>_. s) 0 k)))"
    and "format k buf = 99 \<Longrightarrow> switch format args alternate buf esp k = map_option (\<lambda>k. (buf, esp + 1, k)) (put (ucast (args esp)) k)"
    and "format k buf = 115 \<Longrightarrow> switch format args alternate buf esp k =
      map_option (\<lambda>k. (buf, esp + 1, k)) (map_option snd (puts_loop put (vptr (args esp)) 0 k))"
  unfolding switch_def by (subst format_char_switch.simps, simp)+

lemma printf_loop_cases:
  "format k buf = 0 \<Longrightarrow> printf_loop put format args buf esp k = Some (buf, k)"
  "format k buf = 37 \<Longrightarrow> printf_loop put format args buf esp k =
     Option.bind (format_char_switch put format args False (buf + 1) esp k)
       (\<lambda>(buf, esp, k). printf_loop put format args (buf + 1) esp k)"
  "format k buf = c \<Longrightarrow> c \<noteq> 0 \<Longrightarrow> c \<noteq> 37 \<Longrightarrow> printf_loop put format args buf esp k =
     Option.bind (put c k) (\<lambda>k. printf_loop put format args (buf + 1) esp k)"
  by (subst printf_loop.simps, simp)+

text \<open>
  The contract of a console: every character is printed, by a step that keeps the console
  usable, and changes the screen as the abstract console says.
\<close>

locale console_output =
  fixes put :: put
    and ok :: "kernel \<Rightarrow> bool"
    and view :: "kernel \<Rightarrow> console"
    and step :: "kernel \<Rightarrow> kernel \<Rightarrow> bool"
  assumes put_con: "ok k \<Longrightarrow> \<exists>k'. put c k = Some k' \<and> view k' = con_putc c (view k) \<and> ok k' \<and> step k k'"
    and step_refl: "step k k"
    and step_trans: "step k k1 \<Longrightarrow> step k1 k2 \<Longrightarrow> step k k2"
begin

lemma shown_step: "shown step s k xs \<Longrightarrow> step k k' \<Longrightarrow> shown step s k' xs"
  unfolding shown_def using step_trans by blast

lemma strings_shown_step: "strings_shown step ps args strs esp k \<Longrightarrow> step k k' \<Longrightarrow> strings_shown step ps args strs esp k'"
  by (induction ps arbitrary: esp) (auto intro: shown_step)

lemma shown_now: "shown step s k xs \<Longrightarrow> cstr (s k) xs"
  unfolding shown_def using step_refl by blast

lemma puts_loop:
  "ok k \<Longrightarrow> shown step s k xs \<Longrightarrow> j \<le> length xs \<Longrightarrow>
   \<exists>k'. puts_loop put s (word_of_nat j) k = Some (word_of_nat (length xs), k') \<and>
     view k' = fold con_putc (drop j xs) (view k) \<and> ok k' \<and> step k k'"
proof (induction "length xs - j" arbitrary: j k)
  case 0
  then have j: "j = length xs" by simp
  have "s k (word_of_nat j) = 0" unfolding j by (rule cstr_end [OF shown_now [OF 0(3)]])
  then show ?case using j 0 step_refl by (subst puts_loop.simps) simp
next
  case (Suc n)
  then have j: "j < length xs" and n: "n = length xs - Suc j" by simp_all
  note s = cstr_nth [OF shown_now [OF Suc.prems(2)] j] cstr_nth_neq_0 [OF shown_now [OF Suc.prems(2)] j]
  obtain k1 where k1: "put (xs ! j) k = Some k1" "view k1 = con_putc (xs ! j) (view k)" "ok k1" "step k k1"
    using put_con [OF Suc.prems(1)] by blast
  obtain k' where k': "puts_loop put s (word_of_nat (Suc j)) k1 = Some (word_of_nat (length xs), k')"
    "view k' = fold con_putc (drop (Suc j) xs) (view k1)" "ok k'" "step k1 k'"
    using Suc.hyps(1) [OF n k1(3) shown_step [OF Suc.prems(2) k1(4)]] j by auto
  have "puts_loop put s (word_of_nat j) k = Some (word_of_nat (length xs), k')"
    using s k1(1) k'(1) by (subst puts_loop.simps) (simp add: add.commute)
  moreover have "view k' = fold con_putc (drop j xs) (view k)"
    using k'(2) k1(2) j by (simp add: Cons_nth_drop_Suc [symmetric])
  ultimately show ?case using k' step_trans [OF k1(4)] by blast
qed

lemma puts:
  assumes "ok k" and "shown step s k xs"
  shows "\<exists>k'. puts_loop put s 0 k = Some (word_of_nat (length xs), k') \<and>
     view k' = fold con_putc xs (view k) \<and> ok k' \<and> step k k'"
  using puts_loop [OF assms, of 0] by simp

lemma conversion:
  assumes "ok k" and "shown step format k (pre @ piece_chars p @ rest)"
    and "\<And>c. p \<noteq> Plain c" and "p = Str \<Longrightarrow> shown step (vptr (args esp)) k str"
  shows "\<exists>k'. format_char_switch put format args False (word_of_nat (length pre) + 1) esp k =
      Some (word_of_nat (length pre + length (piece_chars p)) - 1, if takes_arg p then esp + 1 else esp, k') \<and>
    view k' = fold con_putc (piece_text p (args esp) str) (view k) \<and> ok k' \<and> step k k'"
proof -
  have at: "format k (word_of_nat (length pre) + word_of_nat i) = piece_chars p ! i" if "i < length (piece_chars p)" for i
    using cstr_nth [OF shown_now [OF assms(2)], of "length pre + i"] that by (simp add: nth_append)
  have at1: "1 < length (piece_chars p) \<Longrightarrow> format k (word_of_nat (length pre) + 1) = piece_chars p ! 1"
    using at [of 1] by simp
  have at2: "2 < length (piece_chars p) \<Longrightarrow> format k (word_of_nat (length pre) + 1 + 1) = piece_chars p ! 2"
    using at [of 2] by (simp add: add.assoc)
  note print = puts [OF assms(1) shown_object]
  show ?thesis
  proof (cases p)
    case (Plain c)
    then show ?thesis using assms(3) by blast
  next
    case Percent
    then show ?thesis using at1 put_con [OF assms(1), of 37] by (auto simp: switch_cases(1) ascii_def)
  next
    case (Hex alternate)
    obtain s where s: "conv_hex alternate (args esp) = Some s" "cstr s (piece_text p (args esp) str)"
      using conv_hex_text Hex by blast
    show ?thesis
    proof (cases alternate)
      case True
      then show ?thesis
        using Hex s(1) at1 at2 print [OF s(2)]
        by (auto simp: switch_cases(2,3) ascii_def simp del: piece_text.simps)
    next
      case False
      then show ?thesis
        using Hex s(1) at1 print [OF s(2)] by (auto simp: switch_cases(3) ascii_def simp del: piece_text.simps)
    qed
  next
    case Unsigned
    obtain s where s: "conv_unsigned (args esp) = Some s" "cstr s (piece_text p (args esp) str)"
      using conv_unsigned_text Unsigned by blast
    then show ?thesis
      using Unsigned at1 print [OF s(2)] by (auto simp: switch_cases(4) ascii_def simp del: piece_text.simps)
  next
    case Signed
    obtain s where s: "conv_signed (args esp) = Some s" "cstr s (piece_text p (args esp) str)"
      using conv_signed_text Signed by blast
    then show ?thesis
      using Signed at1 print [OF s(2)] by (auto simp: switch_cases(5) ascii_def simp del: piece_text.simps)
  next
    case Charc
    then show ?thesis
      using at1 put_con [OF assms(1), of "ucast (args esp)"] by (auto simp: switch_cases(6) ascii_def)
  next
    case Str
    then show ?thesis
      using at1 puts [OF assms(1) assms(4)] by (auto simp: switch_cases(7) ascii_def)
  qed
qed

lemma printf_loop:
  "ok k \<Longrightarrow> shown step format k (pre @ format_chars ps) \<Longrightarrow> list_all plain_ok ps \<Longrightarrow>
   strings_shown step ps args strs esp k \<Longrightarrow>
   \<exists>k'. printf_loop put format args (word_of_nat (length pre)) esp k =
       Some (word_of_nat (length pre + length (format_chars ps)), k') \<and>
     view k' = fold con_putc (format_text ps args strs esp) (view k) \<and> ok k' \<and> step k k'"
proof (induction ps arbitrary: pre esp k)
  case Nil
  then have "format k (word_of_nat (length pre)) = 0"
    using cstr_end [OF shown_now [OF Nil(2)]] by (simp add: format_chars_def)
  then show ?case using Nil step_refl by (simp add: printf_loop_cases(1) format_chars_def)
next
  case (Cons p ps)
  have fmt: "format_chars (p # ps) = piece_chars p @ format_chars ps" by (simp add: format_chars_def)
  have ne: "piece_chars p \<noteq> []" by (cases p) (simp_all add: ascii_def)
  have at0: "format k (word_of_nat (length pre)) = piece_chars p ! 0"
    using cstr_nth [OF shown_now [OF Cons.prems(2)], of "length pre"] ne by (simp add: fmt nth_append)
  let ?esp = "if takes_arg p then esp + 1 else esp"
  obtain k1 where k1: "printf_loop put format args (word_of_nat (length pre)) esp k =
      printf_loop put format args (word_of_nat (length pre + length (piece_chars p))) ?esp k1"
    "view k1 = fold con_putc (piece_text p (args esp) (strs esp)) (view k)" "ok k1" "step k k1"
  proof (cases "\<exists>c. p = Plain c")
    case True
    then obtain c where p: "p = Plain c" "c \<noteq> 0" "c \<noteq> of_char (CHR ''%'')" using Cons.prems(3) by auto
    obtain k1 where "put c k = Some k1" "view k1 = con_putc c (view k)" "ok k1" "step k k1"
      using put_con [OF Cons.prems(1)] by blast
    then show ?thesis
      using that [of k1] p at0 by (simp add: printf_loop_cases(3) add.commute)
  next
    case False
    then obtain k1 where k1: "format_char_switch put format args False (word_of_nat (length pre) + 1) esp k =
        Some (word_of_nat (length pre + length (piece_chars p)) - 1, ?esp, k1)"
      "view k1 = fold con_putc (piece_text p (args esp) (strs esp)) (view k)" "ok k1" "step k k1"
      using conversion [of k format pre p "format_chars ps" args esp "strs esp"] Cons.prems by (auto simp: fmt)
    have "piece_chars p ! 0 = of_char (CHR ''%'')" using False by (cases p) (auto simp: ascii_def)
    then show ?thesis
      using that [of k1] k1 at0 by (simp add: printf_loop_cases(2))
  qed
  let ?pre = "pre @ piece_chars p"
  have "shown step format k (?pre @ format_chars ps)" using Cons.prems(2) by (simp only: fmt append_assoc)
  moreover have "list_all plain_ok ps" using Cons.prems(3) by simp
  moreover have "strings_shown step ps args strs ?esp k" using Cons.prems(4) by (simp only: strings_shown.simps)
  ultimately obtain k' where k': "printf_loop put format args (word_of_nat (length ?pre)) ?esp k1 =
       Some (word_of_nat (length ?pre + length (format_chars ps)), k')"
    "view k' = fold con_putc (format_text ps args strs ?esp) (view k1)" "ok k'" "step k1 k'"
    using Cons.IH [OF k1(3) shown_step [OF _ k1(4)] _ strings_shown_step [OF _ k1(4)]] by metis
  have "printf_loop put format args (word_of_nat (length pre)) esp k =
      Some (word_of_nat (length pre + length (format_chars (p # ps))), k')"
    unfolding k1(1) using k'(1) by (simp only: fmt length_append add.assoc)
  moreover have "view k' = fold con_putc (format_text (p # ps) args strs esp) (view k)"
    using k'(2) k1(2) by (simp only: format_text.simps fold_append comp_def)
  ultimately show ?case using k'(3) step_trans [OF k1(4) k'(4)] by blast
qed

lemma plain_chars:
  "ok k \<Longrightarrow> (\<And>i. i < length cs \<Longrightarrow> r (n + word_of_nat i) = cs ! i) \<Longrightarrow> 0 \<notin> set cs \<Longrightarrow> 37 \<notin> set cs \<Longrightarrow>
   \<exists>k'. printf_loop put (\<lambda>_. r) args n esp k = printf_loop put (\<lambda>_. r) args (n + word_of_nat (length cs)) esp k' \<and>
     view k' = fold con_putc cs (view k) \<and> ok k' \<and> step k k'"
proof (induction cs arbitrary: n k)
  case Nil
  then show ?case using step_refl by auto
next
  case (Cons c cs)
  obtain k1 where k1: "put c k = Some k1" "view k1 = con_putc c (view k)" "ok k1" "step k k1"
    using put_con [OF Cons.prems(1)] by blast
  have "r (n + 1 + word_of_nat i) = cs ! i" if "i < length cs" for i
    using Cons.prems(2) [of "Suc i"] that by (simp add: ac_simps)
  then obtain k' where k': "printf_loop put (\<lambda>_. r) args (n + 1) esp k1 =
      printf_loop put (\<lambda>_. r) args (n + 1 + word_of_nat (length cs)) esp k'"
    "view k' = fold con_putc cs (view k1)" "ok k'" "step k1 k'"
    using Cons.IH [OF k1(3)] Cons.prems(3,4) by auto
  have "r n = c" using Cons.prems(2) [of 0] by simp
  then have "printf_loop put (\<lambda>_. r) args n esp k = printf_loop put (\<lambda>_. r) args (n + 1) esp k1"
    using Cons.prems(3,4) k1(1) by (simp add: printf_loop_cases(3))
  then show ?case
    using k' k1(2) step_trans [OF k1(4) k'(4)] by (auto simp: ac_simps)
qed

lemma printf_past_end:
  assumes "ok k" and "0 \<notin> set xs" and "37 \<notin> set xs" and "0 \<notin> set ys" and "37 \<notin> set ys"
    and "length xs + length ys + 3 < 4294967296"
  shows "\<exists>k'. printf_loop put (\<lambda>_. arr (xs @ [37, 0] @ ys @ [0])) args 0 0 k =
      Some (word_of_nat (length xs + 2 + length ys), k') \<and>
    view k' = fold con_putc (xs @ ys) (view k) \<and> ok k'"
proof -
  let ?r = "arr (xs @ [37, 0] @ ys @ [0])" and ?n = "length xs" and ?m = "length xs + 2 + length ys"
  have at: "?r (word_of_nat i) = (xs @ [37, 0] @ ys @ [0]) ! i" if "i < ?m + 1" for i
    using that assms(6) by (simp add: arr_def)
  have xs: "?r (0 + word_of_nat i) = xs ! i" if "i < ?n" for i
    using at [of i] that by (simp add: nth_append)
  have ys: "?r (word_of_nat ?n + 2 + word_of_nat i) = ys ! i" if "i < length ys" for i
    using at [of "?n + 2 + i"] that by (simp add: nth_append ac_simps)
  obtain k1 where k1: "printf_loop put (\<lambda>_. ?r) args 0 0 k = printf_loop put (\<lambda>_. ?r) args (0 + word_of_nat ?n) 0 k1"
    "view k1 = fold con_putc xs (view k)" "ok k1"
    using plain_chars [OF assms(1) xs assms(2,3)] by blast
  have pct: "?r (word_of_nat ?n) = 37" "?r (word_of_nat ?n + 1) = 0"
    using at [of ?n] at [of "?n + 1"] by (simp_all add: nth_append add.commute)
  have "format_char_switch put (\<lambda>_. ?r) args False (word_of_nat ?n + 1) 0 k1 = Some (word_of_nat ?n + 1, 0, k1)"
    using pct(2) by (subst format_char_switch.simps) simp
  then have "printf_loop put (\<lambda>_. ?r) args (word_of_nat ?n) 0 k1 = printf_loop put (\<lambda>_. ?r) args (word_of_nat ?n + 2) 0 k1"
    using pct(1) by (simp add: printf_loop_cases(2) add.assoc)
  moreover obtain k' where k': "printf_loop put (\<lambda>_. ?r) args (word_of_nat ?n + 2) 0 k1 =
      printf_loop put (\<lambda>_. ?r) args (word_of_nat ?n + 2 + word_of_nat (length ys)) 0 k'"
    "view k' = fold con_putc ys (view k1)" "ok k'"
    using plain_chars [OF k1(3) ys assms(4,5)] by blast
  moreover have "?r (word_of_nat ?n + 2 + word_of_nat (length ys)) = 0"
    using at [of ?m] by (simp add: nth_append ac_simps)
  ultimately show ?thesis
    using k1 by (simp add: printf_loop_cases(1))
qed

lemma printf:
  assumes "ok k" and "shown step format k (format_chars ps)" and "list_all plain_ok ps"
    and "strings_shown step ps args strs 0 k"
  shows "\<exists>k'. printf_loop put format args 0 0 k = Some (word_of_nat (length (format_chars ps)), k') \<and>
     view k' = fold con_putc (format_text ps args strs 0) (view k) \<and> ok k' \<and> step k k'"
  using printf_loop [of k format "[]" ps args strs 0] assms by simp

end

section \<open>The two consoles of the kernel\<close>

interpretation fg: console_output putc screen_ok fore_console screen_step
proof
  show "\<exists>k'. putc c k = Some k' \<and> fore_console k' = con_putc c (fore_console k) \<and> screen_ok k' \<and> screen_step k k'"
    if "screen_ok k" for k c
    using putc_refines [OF that, of c] con_ok_putc fore_console_ok that by metis
qed (fact screen_step_updates(5), fact screen_step_trans)

lemma back_step_refl: "back_step k k"
  using back_step_mem [of k "mem k"] by simp

interpretation bg: console_output putc_terminal_active back_ok back_console back_step
proof
  show "\<exists>k'. putc_terminal_active c k = Some k' \<and> back_console k' = con_putc c (back_console k) \<and>
      back_ok k' \<and> back_step k k'" if "back_ok k" for k c
  proof -
    have "con_ok (con_putc c (back_console k))"
      using that by (intro con_ok_putc) (simp add: back_console_ok back_ok_def)
    then show ?thesis
      using putc_terminal_active_refines [OF that, of c] back_ok_step that back_console_ok by metis
  qed
qed (fact back_step_refl, fact back_step_trans)

text \<open>A string is shown when the memory behind its pages is away from what a console writes.\<close>

definition backed_outside :: "(addr \<Rightarrow> bool) \<Rightarrow> kernel \<Rightarrow> addr \<Rightarrow> nat \<Rightarrow> bool" where
  "backed_outside R k p n \<longleftrightarrow>
     (\<forall>i<n. \<exists>f u. translate k (p + word_of_nat i) = Some (f, u) \<and> \<not> R f)"

lemma vmem_backed:
  "translate k v = Some (f, u) \<Longrightarrow> translate k' v = translate k v \<Longrightarrow> mem k' f = mem k f \<Longrightarrow> vmem k' v = vmem k v"
  by (simp add: vmem_def)

lemma translate_screen_step: "screen_step k k' \<Longrightarrow> translate k' v = translate k v"
  unfolding screen_step_def by (elim exE conjE) simp

lemma translate_upd_act [simp]: "translate (upd_act f k) v = translate k v"
  by (simp add: upd_act_def upd_terminal_def)

lemma translate_back_step: "back_step k k' \<Longrightarrow> translate k' v = translate k v"
  unfolding back_step_def by (elim exE conjE) simp

lemma shown_backed:
  assumes "cstr (vptr p k) xs" and "backed_outside R k p (length xs + 1)"
    and "\<And>k' v. step k k' \<Longrightarrow> translate k' v = translate k v"
    and "\<And>k' a. step k k' \<Longrightarrow> \<not> R a \<Longrightarrow> mem k' a = mem k a"
  shows "shown step (vptr p) k xs"
  unfolding shown_def
proof (intro allI impI)
  fix k'
  assume k': "step k k'"
  have same: "vptr p k' (word_of_nat i) = vptr p k (word_of_nat i)" if "i \<le> length xs" for i
  proof -
    obtain f u where f: "translate k (p + word_of_nat i) = Some (f, u)" "\<not> R f"
      using assms(2) \<open>i \<le> length xs\<close> unfolding backed_outside_def by (metis Suc_eq_plus1 le_imp_less_Suc)
    show ?thesis
      unfolding vptr_def using vmem_backed [OF f(1) assms(3) [OF k'] assms(4) [OF k' f(2)]] .
  qed
  show "cstr (vptr p k') xs" using assms(1) by (simp add: cstr_def same)
qed

lemma shown_fore:
  "cstr (vptr p k) xs \<Longrightarrow> backed_outside (in_range VIDEO 4000) k p (length xs + 1) \<Longrightarrow> shown screen_step (vptr p) k xs"
  by (rule shown_backed [where R = "in_range VIDEO 4000"]) (auto simp: translate_screen_step screen_step_def)

definition back_memory :: "kernel \<Rightarrow> addr \<Rightarrow> bool" where
  "back_memory k a \<longleftrightarrow> in_range VIDEO 4000 a \<or> in_range (t_video_mem (act k)) 4000 a"

lemma back_step_memory: "back_step k k' \<Longrightarrow> \<not> back_memory k a \<Longrightarrow> mem k' a = mem k a"
  unfolding back_step_def back_memory_def by (elim exE conjE) simp

lemma shown_back:
  "cstr (vptr p k) xs \<Longrightarrow> backed_outside (back_memory k) k p (length xs + 1) \<Longrightarrow> shown back_step (vptr p) k xs"
  by (rule shown_backed) (auto simp: translate_back_step back_step_memory)

section \<open>Properties\<close>

text \<open>
  C25. \<^verbatim>\<open>printf\<close> prints exactly the text of its format: plain characters as they are, \<^verbatim>\<open>%%\<close>,
  and for each conversion the decimal, hexadecimal, zero padded hexadecimal or signed decimal
  text of its argument, the character, or the string it points to, taken from the stack in
  order. It returns the length of the format. The screen changes as if the text had been put
  character by character on the abstract console, and nothing else in memory changes.
\<close>

theorem printf_prints:
  assumes "screen_ok k" and "shown screen_step format k (format_chars ps)"
    and "list_all plain_ok ps" and "strings_shown screen_step ps args strs 0 k"
  shows "\<exists>k'. printf format args k = Some (word_of_nat (length (format_chars ps)), k') \<and>
    fore_console k' = fold con_putc (format_text ps args strs 0) (fore_console k) \<and> screen_ok k' \<and>
    (\<forall>a. in_range VIDEO 4000 a \<or> mem k' a = mem k a)"
proof -
  obtain k' where "printf_loop putc format args 0 0 k = Some (word_of_nat (length (format_chars ps)), k')"
    "fore_console k' = fold con_putc (format_text ps args strs 0) (fore_console k)"
    "screen_ok k'" "screen_step k k'"
    using fg.printf [OF assms] by blast
  then show ?thesis by (auto simp: printf_def screen_step_def)
qed

lemma printf_prints_witness:
  "\<exists>k'. printf (literal ''TERM %d'') (\<lambda>_. - 2) some_kernel = Some (7, k') \<and>
    fore_console k' = fold con_putc (ascii ''TERM -2'') (fore_console some_kernel) \<and> screen_ok k' \<and>
    (\<forall>a. in_range VIDEO 4000 a \<or> mem k' a = mem some_kernel a)"
proof -
  let ?ps = "map Plain (ascii ''TERM '') @ [Signed]"
  have chars: "format_chars ?ps = ascii ''TERM %d''" by (simp add: format_chars_def ascii_def)
  have printed: "format_text ?ps (\<lambda>_. - 2) (\<lambda>_. []) 0 = ascii ''TERM -2''" by code_simp
  have "shown screen_step (literal ''TERM %d'') some_kernel (format_chars ?ps)"
    unfolding chars by (rule shown_literal) (simp_all add: ascii_def)
  moreover have "list_all plain_ok ?ps" by (simp add: ascii_def)
  moreover have "strings_shown screen_step ?ps (\<lambda>_. - 2) (\<lambda>_. []) 0 some_kernel" by (simp add: ascii_def)
  ultimately show ?thesis
    using printf_prints [OF some_kernel_screen, of "literal ''TERM %d''" ?ps "\<lambda>_. - 2" "\<lambda>_. []"]
    unfolding chars printed by (simp add: ascii_def)
qed

text \<open>
  Output of a background terminal: \<^verbatim>\<open>printf_terminal_active\<close> puts the text of the format on the
  console of the scheduled terminal, in its own buffer, while the characters on the screen and
  the cursor of the terminal that the user sees stay as they are.
\<close>

lemma background_output_invisible:
  assumes "back_ok k" and "shown back_step format k (format_chars ps)"
    and "list_all plain_ok ps" and "strings_shown back_step ps args strs 0 k"
  shows "\<exists>k'. printf_terminal_active format args k = Some (word_of_nat (length (format_chars ps)), k') \<and>
    back_console k' = fold con_putc (format_text ps args strs 0) (back_console k) \<and>
    fore_console k' = fore_console k \<and> back_ok k'"
proof -
  obtain k' where "printf_loop putc_terminal_active format args 0 0 k = Some (word_of_nat (length (format_chars ps)), k')"
    "back_console k' = fold con_putc (format_text ps args strs 0) (back_console k)"
    "back_ok k'" "back_step k k'"
    using bg.printf [OF assms] by blast
  then show ?thesis using back_step_screen by (auto simp: printf_terminal_active_def)
qed

text \<open>
  A format that ends in \<^verbatim>\<open>%\<close> is read past its end: \<^verbatim>\<open>printf\<close> steps over the NUL and prints what
  is stored behind the string up to the next NUL, and its result counts that too.
\<close>

lemma printf_overruns_trailing_percent:
  assumes "screen_ok k" and "set xs \<inter> {0, 37} = {}" and "set ys \<inter> {0, 37} = {}"
    and "length xs + length ys + 3 < 4294967296"
  shows "\<exists>k'. printf (\<lambda>_. arr (xs @ [37, 0] @ ys @ [0])) args k = Some (word_of_nat (length xs + 2 + length ys), k') \<and>
    fore_console k' = fold con_putc (xs @ ys) (fore_console k)"
  using fg.printf_past_end [OF assms(1) _ _ _ _ assms(4), of args] assms(2,3) by (auto simp: printf_def)

end
