(* ===== verification/Pcb.thy ===== *)
theory Pcb
  imports Kernel_State
begin

text \<open>
  Finding process control blocks (\<^verbatim>\<open>get_pcb_ptr\<close> and \<^verbatim>\<open>get_pcb_ptr_process\<close> of
  \<^verbatim>\<open>student-distrib/syscalls.c\<close>). The block of process \<open>n\<close> lies at the bottom of the 8 KB
  below \<open>8 MB - n * 8 KB\<close>; the top of these 8 KB is the kernel stack of the process.
\<close>

unbundle bit_operations_syntax

section \<open>Definitions\<close>

definition PCB_PTR_MASK :: u32 where "PCB_PTR_MASK = 0xFFFFE000"

definition get_pcb_ptr :: "kernel \<Rightarrow> addr" where
  "get_pcb_ptr k = r_esp k AND PCB_PTR_MASK"

definition get_pcb_ptr_process :: "u32 \<Rightarrow> addr" where
  "get_pcb_ptr_process process = 0x800000 - (process + 1) * 0x2000"

text \<open>The kernel stack of a process, and the stack pointer that the processor loads on entry.\<close>

definition in_kernel_stack :: "u32 \<Rightarrow> u32 \<Rightarrow> bool" where
  "in_kernel_stack n esp \<longleftrightarrow>
     unat (get_pcb_ptr_process n) \<le> unat esp \<and> unat esp < unat (get_pcb_ptr_process n) + 0x2000"

section \<open>Lemmas\<close>

lemma unat_pcb_process: "unat n < 100 \<Longrightarrow> unat (get_pcb_ptr_process n) = 0x800000 - (unat n + 1) * 0x2000"
proof -
  assume n: "unat n < 100"
  have "unat (n + 1) = unat n + 1" using n by (subst unat_add32) simp_all
  then have "unat ((n + 1) * 0x2000) = (unat n + 1) * 0x2000" using n by (subst unat_mult32) simp_all
  then show ?thesis using n unfolding get_pcb_ptr_process_def
    by (subst unat_sub32) (simp_all add: word_le_unat)
qed

lemma get_pcb_process_inj:
  "unat a < 100 \<Longrightarrow> unat b < 100 \<Longrightarrow> get_pcb_ptr_process a = get_pcb_ptr_process b \<Longrightarrow> a = b"
proof -
  assume *: "unat a < 100" "unat b < 100" "get_pcb_ptr_process a = get_pcb_ptr_process b"
  then have "0x800000 - (unat a + 1) * 0x2000 = 0x800000 - (unat b + 1) * (0x2000 :: nat)"
    using unat_pcb_process by metis
  then have "unat a = unat b" using *(1,2) by simp
  then show "a = b" by (simp add: word_unat_eq_iff)
qed

lemma and_pcb_mask: "(x :: u32) AND 0xFFFFE000 = x - x mod 0x2000"
proof -
  have m: "NOT (mask 13) = (0xFFFFE000 :: u32)" by code_simp
  have "x mod 0x2000 = take_bit 13 x" by (simp add: take_bit_eq_mod)
  moreover have "(x AND NOT (mask 13)) + take_bit 13 x = (x AND NOT (mask 13)) OR take_bit 13 x"
    by (rule disjunctive_add) (auto simp: bit_simps)
  moreover have "(x AND NOT (mask 13)) OR take_bit 13 x = x"
    by (rule bit_word_eqI) (auto simp: bit_simps)
  ultimately show ?thesis by (simp add: m algebra_simps)
qed

text \<open>The stack pointer anywhere in the kernel stack of a process leads to its control block.\<close>

lemma get_pcb_ptr_stack:
  assumes "unat n < 100" and "in_kernel_stack n (r_esp k)"
  shows "get_pcb_ptr k = get_pcb_ptr_process n"
proof -
  let ?b = "unat (get_pcb_ptr_process n)" and ?e = "unat (r_esp k)"
  have b: "?b = (1023 - unat n) * 0x2000" using unat_pcb_process [OF assms(1)] assms(1) by simp
  have e: "?b \<le> ?e" "?e < ?b + 0x2000" using assms(2) by (simp_all add: in_kernel_stack_def)
  have "?e - ?e mod 0x2000 = ?b"
  proof -
    obtain r where r: "?e = ?b + r" "r < 0x2000" using e by (metis le_Suc_ex nat_add_left_cancel_less)
    have "?e mod 0x2000 = r" unfolding r(1) b using r(2) by (simp only: mod_mult_self3) simp
    then show ?thesis using r(1) by simp
  qed
  moreover have "unat (r_esp k - r_esp k mod 0x2000) = ?e - ?e mod 0x2000"
    by (subst unat_sub32) (simp_all add: word_le_unat unat_mod_distrib)
  ultimately have "unat (get_pcb_ptr k) = ?b"
    by (simp only: get_pcb_ptr_def PCB_PTR_MASK_def and_pcb_mask)
  then show ?thesis by (simp add: word_unat_eq_iff)
qed

section \<open>Properties\<close>

text \<open>
  As long as the stack pointer is inside the kernel stack of process \<open>n\<close>, at any depth,
  \<^verbatim>\<open>get_pcb_ptr\<close> finds the control block of process \<open>n\<close> and no other.
\<close>

lemma get_pcb_ptr_current:
  assumes "unat n < 100" and "in_kernel_stack n (r_esp k)"
  shows "get_pcb_ptr k = get_pcb_ptr_process n \<and>
    (\<forall>n'. unat n' < 100 \<and> get_pcb_ptr k = get_pcb_ptr_process n' \<longrightarrow> n' = n)"
  using get_pcb_ptr_stack [OF assms] get_pcb_process_inj [OF _ assms(1)] by metis

end
