(* ===== verification/I8259.thy ===== *)
theory I8259
  imports Kernel_State
begin

text \<open>
  The interrupt controllers: \<^verbatim>\<open>student-distrib/i8259.c\<close>. The operations write the two mask
  variables and the ports. What the two chips make of the port writes is stated with \<open>pic\<close>,
  the part of the data sheet of the 8259A that the code relies on: the initialisation sequence,
  the mask register and the specific end of interrupt command.
\<close>

unbundle bit_operations_syntax

section \<open>Definitions\<close>

definition PIC_IRQ_MASK :: u32 where "PIC_IRQ_MASK = 0xFF"
definition NUM_IRQ :: u32 where "NUM_IRQ = 0x0F"
definition EOI :: u32 where "EOI = 0x60"
definition ICW3_SLAVE :: nat where "ICW3_SLAVE = 2"

text \<open>\<^verbatim>\<open>0x1 << irq_num\<close>, an \<^verbatim>\<open>int\<close>.\<close>

definition irq_bit :: "nat \<Rightarrow> u32" where
  "irq_bit n = push_bit n 1"

definition i8259_init :: "kernel \<Rightarrow> kernel" where
  "i8259_init k =
     (let k = outb PIC_IRQ_MASK 0x21 k; k = outb PIC_IRQ_MASK 0xA1 k;
          k = outb 0x11 0x20 k; k = outb 0x20 0x21 k; k = outb 0x04 0x21 k; k = outb 0x01 0x21 k;
          k = outb 0x11 0xA0 k; k = outb 0x28 0xA1 k; k = outb 0x02 0xA1 k; k = outb 0x01 0xA1 k
      in k)"

definition enable_irq :: "u32 \<Rightarrow> kernel \<Rightarrow> kernel" where
  "enable_irq irq_num k =
     (if irq_num > NUM_IRQ then k
      else if irq_num > 7 then
        (let irq_num = irq_num - 8;
             k = k\<lparr>slave_mask := slave_mask k AND ucast (NOT (irq_bit (unat irq_num)))\<rparr>;
             k = outb (ucast (slave_mask k)) 0xA1 k;
             k = k\<lparr>master_mask := master_mask k AND ucast (NOT (irq_bit ICW3_SLAVE))\<rparr>
         in outb (ucast (master_mask k)) 0x21 k)
      else
        (let k = k\<lparr>master_mask := master_mask k AND ucast (NOT (irq_bit (unat irq_num)))\<rparr>
         in outb (ucast (master_mask k)) 0x21 k))"

definition disable_irq :: "u32 \<Rightarrow> kernel \<Rightarrow> kernel" where
  "disable_irq irq_num k =
     (if irq_num > NUM_IRQ then k
      else if irq_num > 7 then
        (let irq_num = irq_num - 8;
             k = k\<lparr>slave_mask := slave_mask k OR ucast (irq_bit (unat irq_num))\<rparr>;
             k = outb (ucast (slave_mask k)) 0xA1 k;
             k = k\<lparr>master_mask := master_mask k OR ucast (irq_bit ICW3_SLAVE)\<rparr>
         in outb (ucast (master_mask k)) 0x21 k)
      else
        (let k = k\<lparr>master_mask := master_mask k OR ucast (irq_bit (unat irq_num))\<rparr>
         in outb (ucast (master_mask k)) 0x21 k))"

definition send_eoi :: "u32 \<Rightarrow> kernel \<Rightarrow> kernel" where
  "send_eoi irq_num k =
     (if irq_num > NUM_IRQ then k
      else if irq_num > 7 then
        (let irq_num = irq_num - 8; k = outb (EOI OR irq_num) 0xA0 k in outb (EOI OR 2) 0x20 k)
      else outb (EOI OR irq_num) 0x20 k)"

section \<open>The chips\<close>

text \<open>
  A chip: the initialisation words it still waits for, the vector of its line 0, its cascade
  word, the mask register and the in-service register.
\<close>

datatype pic_phase = Ready | Icw2 | Icw3 | Icw4

record pic =
  phase :: pic_phase
  vector_base :: u8
  cascade :: u8
  imr :: u8
  isr :: u8

text \<open>
  A write to the command port starts the initialisation when bit 4 is set, which also clears
  the mask, and is a specific end of interrupt when its three top bits are 011. A write to the
  data port is the next initialisation word, or the mask.
\<close>

definition pic_command :: "u8 \<Rightarrow> pic \<Rightarrow> pic" where
  "pic_command v p =
     (if bit v 4 then p\<lparr>phase := Icw2, imr := 0, isr := 0\<rparr>
      else if drop_bit 5 v = 3 then p\<lparr>isr := isr p AND NOT (push_bit (unat (v AND 7)) 1)\<rparr>
      else p)"

definition pic_data :: "u8 \<Rightarrow> pic \<Rightarrow> pic" where
  "pic_data v p = (case phase p of
       Icw2 \<Rightarrow> p\<lparr>vector_base := v AND 0xF8, phase := Icw3\<rparr>
     | Icw3 \<Rightarrow> p\<lparr>cascade := v, phase := Icw4\<rparr>
     | Icw4 \<Rightarrow> p\<lparr>phase := Ready\<rparr>
     | Ready \<Rightarrow> p\<lparr>imr := v\<rparr>)"

fun pic_io :: "u16 \<Rightarrow> io \<Rightarrow> pic \<Rightarrow> pic" where
  "pic_io base (Outb v port) p =
     (if port = base then pic_command v p else if port = base + 1 then pic_data v p else p)"
| "pic_io base (Outw v port) p = p"
| "pic_io base (Inb port) p = p"

text \<open>The two chips after everything the kernel did on the ports, the last action first.\<close>

definition pic_state :: "u16 \<Rightarrow> pic \<Rightarrow> io list \<Rightarrow> pic" where
  "pic_state base p0 log = foldr (pic_io base) log p0"

definition master :: "pic \<Rightarrow> kernel \<Rightarrow> pic" where
  "master p0 k = pic_state 0x20 p0 (io_log k)"

definition slave :: "pic \<Rightarrow> kernel \<Rightarrow> pic" where
  "slave p0 k = pic_state 0xA0 p0 (io_log k)"

text \<open>Line \<open>n\<close> of the pair reaches the processor.\<close>

definition irq_open :: "pic \<Rightarrow> pic \<Rightarrow> nat \<Rightarrow> bool" where
  "irq_open m s n \<longleftrightarrow> (if n < 8 then \<not> bit (imr m) n else \<not> bit (imr s) (n - 8) \<and> \<not> bit (imr m) 2)"

text \<open>The chips are initialised and hold the masks of the two variables.\<close>

definition pics_in_sync :: "pic \<Rightarrow> pic \<Rightarrow> kernel \<Rightarrow> bool" where
  "pics_in_sync m0 s0 k \<longleftrightarrow> phase (master m0 k) = Ready \<and> phase (slave s0 k) = Ready \<and>
     imr (master m0 k) = master_mask k \<and> imr (slave s0 k) = slave_mask k"

section \<open>Lemmas\<close>

lemma pic_state_Cons [simp]: "pic_state base p0 (a # log) = pic_io base a (pic_state base p0 log)"
  by (simp add: pic_state_def)

lemma master_outb:
  "master p0 (outb v port k) = pic_io 0x20 (Outb (ucast v) port) (master p0 k)"
  by (simp add: master_def outb_def)

lemma slave_outb:
  "slave p0 (outb v port k) = pic_io 0xA0 (Outb (ucast v) port) (slave p0 k)"
  by (simp add: slave_def outb_def)

lemma pic_mask_update [simp]:
  "master p0 (k\<lparr>master_mask := x\<rparr>) = master p0 k" "master p0 (k\<lparr>slave_mask := x\<rparr>) = master p0 k"
  "slave p0 (k\<lparr>master_mask := x\<rparr>) = slave p0 k" "slave p0 (k\<lparr>slave_mask := x\<rparr>) = slave p0 k"
  by (simp_all add: master_def slave_def)

lemma outb_masks [simp]:
  "master_mask (outb v port k) = master_mask k" "slave_mask (outb v port k) = slave_mask k"
  by (simp_all add: outb_def)

lemmas pic_simps = master_outb slave_outb pic_command_def pic_data_def

lemma ucast_ucast_8: "ucast (ucast (x :: u8) :: u32) = x"
  by (rule bit_word_eqI) (simp add: bit_simps)

lemma clear_bit_mask:
  "bit ((x :: u8) AND ucast (NOT (irq_bit n))) i \<longleftrightarrow> bit x i \<and> i \<noteq> n"
  by (auto simp: irq_bit_def bit_simps simp del: push_bit_of_1 no_bit8 dest: bit_imp_le_length)

lemma set_bit_mask:
  "n < 8 \<Longrightarrow> bit ((x :: u8) OR ucast (irq_bit n)) i \<longleftrightarrow> bit x i \<or> i = n"
  by (auto simp: irq_bit_def bit_simps simp del: push_bit_of_1)

lemma irq_cases: "irq < 16 \<Longrightarrow> (irq :: u32) \<le> 7 \<and> unat irq < 8 \<or> 7 < irq \<and> unat (irq - 8) = unat irq - 8 \<and> 8 \<le> unat irq"
proof -
  assume "irq < 16"
  show ?thesis
  proof (cases "irq \<le> 7")
    case True
    then show ?thesis by (simp add: word_le_unat)
  next
    case False
    then have "7 < irq" "8 \<le> irq" by (simp_all add: word_le_unat word_less_unat)
    then show ?thesis using unat_sub32 [of 8 irq] by (simp add: word_le_unat)
  qed
qed

lemma irq_num_simps [simp]:
  "irq < 16 \<Longrightarrow> \<not> NUM_IRQ < (irq :: u32)"
  by (simp add: NUM_IRQ_def word_less_unat)

lemma enable_irq_masks:
  assumes "irq < 16"
  shows "bit (master_mask (enable_irq irq k)) i \<longleftrightarrow>
      bit (master_mask k) i \<and> i \<noteq> (if unat irq < 8 then unat irq else 2)"
    and "bit (slave_mask (enable_irq irq k)) i \<longleftrightarrow> bit (slave_mask k) i \<and> i + 8 \<noteq> unat irq"
  using irq_cases [OF assms] assms
  by (auto simp: enable_irq_def Let_def clear_bit_mask ICW3_SLAVE_def)

lemma disable_irq_masks:
  assumes "irq < 16"
  shows "bit (master_mask (disable_irq irq k)) i \<longleftrightarrow>
      bit (master_mask k) i \<or> i = (if unat irq < 8 then unat irq else 2)"
    and "bit (slave_mask (disable_irq irq k)) i \<longleftrightarrow> bit (slave_mask k) i \<or> i + 8 = unat irq"
proof -
  have irq: "unat irq < 16" using assms by (simp add: word_less_unat)
  show "bit (master_mask (disable_irq irq k)) i \<longleftrightarrow>
      bit (master_mask k) i \<or> i = (if unat irq < 8 then unat irq else 2)"
    using irq_cases [OF assms] assms by (auto simp: disable_irq_def Let_def set_bit_mask ICW3_SLAVE_def)
  show "bit (slave_mask (disable_irq irq k)) i \<longleftrightarrow> bit (slave_mask k) i \<or> i + 8 = unat irq"
    using irq_cases [OF assms] assms irq by (auto simp: disable_irq_def Let_def set_bit_mask)
qed

lemma irq_in_sync:
  assumes "pics_in_sync m0 s0 k"
  shows "pics_in_sync m0 s0 (enable_irq irq k)" and "pics_in_sync m0 s0 (disable_irq irq k)"
  using assms
  by (auto simp: enable_irq_def disable_irq_def Let_def pics_in_sync_def pic_simps ucast_ucast_8)

text \<open>
  Opening a line of the slave writes both masks, so it brings the chips in step with the
  variables whatever their masks were, once they are initialised.
\<close>

lemma enable_slave_irq_syncs:
  assumes "irq < 16" "7 < irq" and "phase (master m0 k) = Ready" "phase (slave s0 k) = Ready"
  shows "pics_in_sync m0 s0 (enable_irq irq k)"
  using assms by (simp add: enable_irq_def Let_def pics_in_sync_def pic_simps ucast_ucast_8)

lemma irq_open_masks:
  "pics_in_sync m0 s0 k \<Longrightarrow> irq_open (master m0 k) (slave s0 k) n \<longleftrightarrow>
     (if n < 8 then \<not> bit (master_mask k) n else \<not> bit (slave_mask k) (n - 8) \<and> \<not> bit (master_mask k) 2)"
  by (simp add: irq_open_def pics_in_sync_def)

lemma eoi_command:
  assumes "unat (n :: u32) < 8"
  shows "\<not> bit (ucast (EOI OR n) :: u8) 4" "drop_bit 5 (ucast (EOI OR n) :: u8) = 3"
    "unat ((ucast (EOI OR n) :: u8) AND 7) = unat n"
proof -
  have "\<forall>i\<in>set [0..<8]. \<not> bit (ucast (EOI OR word_of_nat i) :: u8) 4 \<and>
      drop_bit 5 (ucast (EOI OR word_of_nat i) :: u8) = 3 \<and>
      unat ((ucast (EOI OR word_of_nat i) :: u8) AND 7) = i"
    unfolding EOI_def by code_simp
  then have "\<not> bit (ucast (EOI OR word_of_nat (unat n)) :: u8) 4 \<and>
      drop_bit 5 (ucast (EOI OR word_of_nat (unat n)) :: u8) = 3 \<and>
      unat ((ucast (EOI OR word_of_nat (unat n)) :: u8) AND 7) = unat n"
    by (rule bspec) (use assms in simp)
  then show "\<not> bit (ucast (EOI OR n) :: u8) 4" "drop_bit 5 (ucast (EOI OR n) :: u8) = 3"
    "unat ((ucast (EOI OR n) :: u8) AND 7) = unat n" by simp_all
qed

text \<open>A machine whose chips are initialised and in step with the variables.\<close>

definition some_pic :: pic where
  "some_pic = \<lparr>phase = Ready, vector_base = 0, cascade = 0, imr = 0, isr = 0\<rparr>"

definition init_kernel :: kernel where
  "init_kernel = enable_irq 8 (i8259_init some_kernel)"

lemma i8259_init_Ready:
  "phase (master m0 (i8259_init k)) = Ready" "phase (slave s0 (i8259_init k)) = Ready"
  by (simp_all add: i8259_init_def Let_def pic_simps PIC_IRQ_MASK_def)

lemma init_kernel_sync: "pics_in_sync m0 s0 init_kernel"
  unfolding init_kernel_def by (rule enable_slave_irq_syncs) (simp_all add: i8259_init_Ready)

section \<open>Properties\<close>

text \<open>
  \<^verbatim>\<open>enable_irq\<close> opens its line at the chips, for every line of the pair, and keeps every
  line open that was.
\<close>

lemma enable_irq_opens:
  assumes "pics_in_sync m0 s0 k" and "irq < 16"
  shows "irq_open (master m0 (enable_irq irq k)) (slave s0 (enable_irq irq k)) (unat irq) \<and>
    (\<forall>n. irq_open (master m0 k) (slave s0 k) n \<longrightarrow>
      irq_open (master m0 (enable_irq irq k)) (slave s0 (enable_irq irq k)) n)"
  unfolding irq_open_masks [OF assms(1)] irq_open_masks [OF irq_in_sync(1) [OF assms(1)]]
    enable_irq_masks [OF assms(2)] by auto

text \<open>
  \<^verbatim>\<open>disable_irq\<close> closes its line and opens none; a line of the slave is closed by masking
  the cascade line as well, which closes all the eight lines of the slave.
\<close>

lemma disable_irq_closes:
  assumes "pics_in_sync m0 s0 k" and "irq < 16"
  shows "\<not> irq_open (master m0 (disable_irq irq k)) (slave s0 (disable_irq irq k)) (unat irq) \<and>
    (\<forall>n. irq_open (master m0 (disable_irq irq k)) (slave s0 (disable_irq irq k)) n \<longrightarrow>
      irq_open (master m0 k) (slave s0 k) n) \<and>
    (8 \<le> unat irq \<longrightarrow>
      (\<forall>n\<ge>8. \<not> irq_open (master m0 (disable_irq irq k)) (slave s0 (disable_irq irq k)) n))"
  unfolding irq_open_masks [OF assms(1)] irq_open_masks [OF irq_in_sync(2) [OF assms(1)]]
    disable_irq_masks [OF assms(2)] by auto

text \<open>
  \<^verbatim>\<open>i8259_init\<close> initialises both chips from any state: lines 0 to 7 raise the vectors from
  0x20, lines 8 to 15 those from 0x28, and the slave hangs on line 2. The sequence clears the
  masks that were written before it, so afterwards every line is open.
\<close>

lemma i8259_init_programs:
  "let m = master m0 (i8259_init k); s = slave s0 (i8259_init k) in
     phase m = Ready \<and> vector_base m = 0x20 \<and> cascade m = 4 \<and>
     phase s = Ready \<and> vector_base s = 0x28 \<and> cascade s = 2 \<and>
     (\<forall>n. irq_open m s n)"
  by (simp add: i8259_init_def Let_def pic_simps PIC_IRQ_MASK_def irq_open_def)

text \<open>
  \<^verbatim>\<open>send_eoi\<close> ends exactly the interrupt of its line: it clears the in-service bit of the
  line, for a line of the slave also that of the cascade line, and nothing else of the chips.
\<close>

lemma send_eoi_ends:
  assumes "phase (master m0 k) = Ready" and "phase (slave s0 k) = Ready" and "irq < 16"
  shows "master m0 (send_eoi irq k) = (master m0 k)
      \<lparr>isr := isr (master m0 k) AND NOT (push_bit (if irq < 8 then unat irq else 2) 1)\<rparr> \<and>
    slave s0 (send_eoi irq k) = (if irq < 8 then slave s0 k
      else (slave s0 k)\<lparr>isr := isr (slave s0 k) AND NOT (push_bit (unat irq - 8) 1)\<rparr>)"
proof (cases "irq < 8")
  case True
  then have "unat irq < 8" "\<not> 7 < irq" by (simp_all add: word_less_unat)
  then show ?thesis
    using True assms by (simp add: send_eoi_def pic_simps eoi_command)
next
  case False
  then have irq: "7 < irq" "unat (irq - 8) = unat irq - 8" "unat (irq - 8) < 8"
    using irq_cases [OF assms(3)] assms(3) by (auto simp: word_less_unat)
  have two: "unat (2 :: u32) < 8" by simp
  show ?thesis
    using False irq assms eoi_command [OF two]
    by (simp add: send_eoi_def Let_def pic_simps eoi_command [OF irq(3)])
qed

end
