(* ===== verification/Keyboard.thy ===== *)
theory Keyboard
  imports Printf Pcb I8259
begin

text \<open>
  The keyboard: \<^verbatim>\<open>student-distrib/keyboard.c\<close> without its interrupt handler, which needs the
  terminals (theory \<open>Interrupts\<close>). The line that is typed is in the buffer of the terminal on the
  screen, which \<open>key_buffer\<close> points to. The buffer has \<open>KEY_BUFFER_SIZE + 1\<close> bytes; a store past
  them is \<open>None\<close>.
\<close>

unbundle bit_operations_syntax

section \<open>Definitions\<close>

definition KEY_BUFFER_SIZE :: u8 where "KEY_BUFFER_SIZE = 127"
definition CTRL_C :: u8 where "CTRL_C = 3"
definition CTRL_L :: u8 where "CTRL_L = 12"
definition BS :: u8 where "BS = 8"
definition ENTER :: u8 where "ENTER = 13"
definition NUM_CHAR_HANDLE :: u8 where "NUM_CHAR_HANDLE = 58"
definition BACKSPACE :: u8 where "BACKSPACE = 0x0E"
definition KEY_L :: u8 where "KEY_L = 0x26"
definition KEY_ENTER :: u8 where "KEY_ENTER = 0x1C"
definition PR_CONVER :: u8 where "PR_CONVER = 0x80"
definition CAPS_CONVER :: u8 where "CAPS_CONVER = 0x20"

text \<open>The table, by scan code: without and with the shift key.\<close>

definition scan2ascii :: "(u8 \<times> u8) list" where
  "scan2ascii = zip
     ([0, 27] @ ascii ''1234567890-='' @ [BS, 9] @ ascii ''qwertyuiop[]'' @ [13, 0] @ ascii ''asdfghjkl;'' @
      [39] @ ascii [CHR 0x60] @ [0, 92] @ ascii ''zxcvbnm,./'' @ [0, 0, 0] @ ascii '' '')
     ([0, 27] @ ascii ''!@#$%^&*()_+'' @ [BS, 9] @ ascii ''QWERTYUIOP{}'' @ [13, 0] @ ascii ''ASDFGHJKL:'' @
      [34] @ ascii ''~'' @ [0, 124] @ ascii ''ZXCVBNM<>?'' @ [0, 0, 0] @ ascii '' '')"

definition init_keyboard :: "kernel \<Rightarrow> kernel" where
  "init_keyboard k = enable_irq 1 k"

text \<open>\<^verbatim>\<open>key_buffer[i]\<close>, read and written.\<close>

definition key_buf_get :: "u8 \<Rightarrow> kernel \<Rightarrow> u8 option" where
  "key_buf_get i k = do { t \<leftarrow> key_buffer k; arr_get (t_key_buffer (terminal k t)) (unat i) }"

definition key_buf_set :: "u8 \<Rightarrow> u8 \<Rightarrow> kernel \<Rightarrow> kernel option" where
  "key_buf_set i c k = do {
     t \<leftarrow> key_buffer k;
     xs \<leftarrow> arr_set (t_key_buffer (terminal k t)) (unat i) c;
     Some (upd_terminal t (t_key_buffer_update (\<lambda>_. xs)) k) }"

definition add_key_buff :: "u8 \<Rightarrow> kernel \<Rightarrow> kernel option" where
  "add_key_buff key k =
     (if key_buffer_idx k < KEY_BUFFER_SIZE then do {
        k \<leftarrow> key_buf_set (key_buffer_idx k) key k;
        Some (k\<lparr>key_buffer_idx := key_buffer_idx k + 1\<rparr>) }
      else Some k)"

definition clear_buf :: "kernel \<Rightarrow> kernel option" where
  "clear_buf k = do {
     k \<leftarrow> fold (\<lambda>i ok. Option.bind ok (key_buf_set (word_of_nat i) 0)) [0..<unat KEY_BUFFER_SIZE] (Some k);
     Some (k\<lparr>key_buffer_idx := 0\<rparr>) }"

definition handle_key_press :: "u16 \<Rightarrow> kernel \<Rightarrow> kernel option" where
  "handle_key_press keycode k =
     (if keycode \<ge> ucast PR_CONVER then Some k
      else let key = (ucast keycode :: u8) in
        if key = CTRL_L then set_screen_pos 0 0 (clear k)
        else if key = CTRL_C then Some k
        else if key = BS then
          (if 0 < key_buffer_idx k then do {
             k \<leftarrow> backspace k;
             let k = k\<lparr>key_buffer_idx := key_buffer_idx k - 1\<rparr>;
             key_buf_set (key_buffer_idx k) 0 k }
           else Some k)
        else if key = ENTER then
          (let pcb = pcbs k (get_pcb_ptr_process (scast (apn (terminal k (cur_term k)))));
               k = upd_terminal (term_ptr pcb) (eflag_update (\<lambda>_. 1)) k
           in do {
             k \<leftarrow> key_buf_set (key_buffer_idx k) 0x0A k;
             let k = k\<lparr>key_buffer_idx := key_buffer_idx k + 1\<rparr>;
             enter k })
        else
          (if key_buffer_idx k < KEY_BUFFER_SIZE \<and> keyboard_enabled k = 1 then do {
             k \<leftarrow> add_key_buff key k;
             putc key k }
           else Some k))"

text \<open>
  What the interrupt handler makes of a scan code that is not a modifier, when \<^verbatim>\<open>alt\<close> is up: the
  key code, or 0 for none.
\<close>

definition decode :: "u8 \<Rightarrow> bool \<Rightarrow> bool \<Rightarrow> bool \<Rightarrow> u8" where
  "decode scancode ctrl shift caps =
     (if scancode < NUM_CHAR_HANDLE then
        (let (low, high) = scan2ascii ! unat scancode;
             plain = (if shift then high else low);
             plain = (if caps then
                 (if 0x61 \<le> plain \<and> plain \<le> 0x7A then plain - CAPS_CONVER
                  else if 0x41 \<le> plain \<and> plain \<le> 0x5A then plain + CAPS_CONVER else plain)
               else plain)
         in if ctrl then
              (if scancode = BACKSPACE then plain
               else if scancode = KEY_ENTER then plain
               else if scancode = KEY_L then
                 (if 0x61 \<le> low \<and> low \<le> 0x7A then low - 0x61 + 1 else plain)
               else 0)
            else plain)
      else 0)"

definition keycode_of :: "u8 \<Rightarrow> kernel \<Rightarrow> u8" where
  "keycode_of scancode k = decode scancode (ctrl_stat k \<noteq> 0) (shift_stat k \<noteq> 0) (caps_stat k \<noteq> 0)"

section \<open>The line editor\<close>

text \<open>
  The line that is being typed, and what a key does to it and to the console. The line is cut
  at 127 characters, but \<^verbatim>\<open>ENTER\<close> is always appended.
\<close>

definition edit :: "u16 \<Rightarrow> u8 list \<Rightarrow> u8 list" where
  "edit key line =
     (if key \<ge> 0x80 \<or> key = 3 \<or> key = 12 then line
      else if key = 8 then butlast line
      else if key = 13 then line @ [0x0A]
      else if length line < 127 then line @ [ucast key] else line)"

definition echo :: "u16 \<Rightarrow> u8 list \<Rightarrow> console \<Rightarrow> console" where
  "echo key line con =
     (if key \<ge> 0x80 \<or> key = 3 then con
      else if key = 12 then (replicate 2000 0x20, 0, 0)
      else if key = 8 then (if line = [] then con else con_backspace con)
      else if key = 13 then con_newline con
      else if length line < 127 then con_putc (ucast key) con else con)"

definition key_terminal :: "kernel \<Rightarrow> u8" where
  "key_terminal k = the (key_buffer k)"

definition key_array :: "kernel \<Rightarrow> u8 list" where
  "key_array k = t_key_buffer (terminal k (key_terminal k))"

definition typed :: "kernel \<Rightarrow> u8 list" where
  "typed k = take (unat (key_buffer_idx k)) (key_array k)"

text \<open>
  What the keyboard keeps: a buffer of 128 bytes with the line at its start and zeros behind it
  (the last byte is never cleared), and the cursor on the screen.
\<close>

definition keyboard_ok :: "kernel \<Rightarrow> bool" where
  "keyboard_ok k \<longleftrightarrow> key_buffer k \<noteq> None \<and> length (key_array k) = 128 \<and> unat (key_buffer_idx k) \<le> 128 \<and>
     (\<forall>i<127. unat (key_buffer_idx k) \<le> i \<longrightarrow> key_array k ! i = 0) \<and>
     keyboard_enabled k = 1 \<and> screen_ok k"

lemma screen_step_fields:
  assumes "screen_step k k'"
  shows "key_buffer k' = key_buffer k" "key_buffer_idx k' = key_buffer_idx k" "terminal k' = terminal k"
    "keyboard_enabled k' = keyboard_enabled k" "pcbs k' = pcbs k" "cur_term k' = cur_term k" "r_esp k' = r_esp k"
    "cur_active_terminal k' = cur_active_terminal k" "key_array k' = key_array k" "typed k' = typed k"
    "key_terminal k' = key_terminal k" "page_directory k' = page_directory k" "pid_array k' = pid_array k"
    "tss k' = tss k" "FILESYSLOC k' = FILESYSLOC k" "r_ebp k' = r_ebp k" "iflag k' = iflag k"
  using assms unfolding screen_step_def
  by (auto simp: key_array_def typed_def key_terminal_def)

lemma screen_step_mapped: "screen_step k k' \<Longrightarrow> user_mapped k' = user_mapped k"
  unfolding screen_step_def by (elim exE conjE) (simp add: user_mapped_def paging_on_def)

lemma screen_step_keyboard_ok: "screen_step k k' \<Longrightarrow> screen_ok k' \<Longrightarrow> keyboard_ok k \<Longrightarrow> keyboard_ok k'"
  by (simp add: keyboard_ok_def screen_step_fields)

lemma typed_length: "keyboard_ok k \<Longrightarrow> length (typed k) = unat (key_buffer_idx k)"
  by (simp add: typed_def keyboard_ok_def)

text \<open>A store in the buffer, with the new index.\<close>

definition store_key :: "u8 \<Rightarrow> u8 \<Rightarrow> u8 \<Rightarrow> kernel \<Rightarrow> kernel" where
  "store_key i c n k = (upd_terminal (key_terminal k) (\<lambda>t. t\<lparr>t_key_buffer := (t_key_buffer t)[unat i := c]\<rparr>) k)\<lparr>key_buffer_idx := n\<rparr>"

lemma store_key_fields [simp]:
  "key_buffer (store_key i c n k) = key_buffer k" "key_buffer_idx (store_key i c n k) = n"
  "key_terminal (store_key i c n k) = key_terminal k" "key_array (store_key i c n k) = (key_array k)[unat i := c]"
  "keyboard_enabled (store_key i c n k) = keyboard_enabled k" "screen_ok (store_key i c n k) = screen_ok k"
  "fore_console (store_key i c n k) = fore_console k" "cur_term (store_key i c n k) = cur_term k"
  "pcbs (store_key i c n k) = pcbs k" "apn (terminal (store_key i c n k) t) = apn (terminal k t)"
  "eflag (terminal (store_key i c n k) t) = eflag (terminal k t)"
  by (simp_all add: store_key_def upd_terminal_def key_terminal_def key_array_def screen_ok_def fore_console_def)

lemma key_buf_set_store:
  assumes "keyboard_ok k" and "unat i < 128"
  shows "map_option (\<lambda>k. k\<lparr>key_buffer_idx := n\<rparr>) (key_buf_set i c k) = Some (store_key i c n k)"
    and "key_buf_set i c (k\<lparr>key_buffer_idx := n\<rparr>) = Some (store_key i c n k)"
  using assms
  by (auto simp: key_buf_set_def keyboard_ok_def key_array_def key_terminal_def arr_set_def store_key_def upd_terminal_def)

lemma add_key_buff_store:
  assumes "keyboard_ok k" and "unat (key_buffer_idx k) < 127"
  shows "add_key_buff c k = Some (store_key (key_buffer_idx k) c (key_buffer_idx k + 1) k)"
    and "keyboard_ok (store_key (key_buffer_idx k) c (key_buffer_idx k + 1) k)"
    and "typed (store_key (key_buffer_idx k) c (key_buffer_idx k + 1) k) = typed k @ [c]"
proof -
  have idx: "unat (key_buffer_idx k + 1) = unat (key_buffer_idx k) + 1"
    using assms(2) by (simp add: unat_word_ariths)
  show "add_key_buff c k = Some (store_key (key_buffer_idx k) c (key_buffer_idx k + 1) k)"
    using assms by (auto simp: add_key_buff_def KEY_BUFFER_SIZE_def word_less_unat key_buf_set_def keyboard_ok_def
        key_array_def key_terminal_def arr_set_def store_key_def upd_terminal_def)
  show "keyboard_ok (store_key (key_buffer_idx k) c (key_buffer_idx k + 1) k)"
    using assms idx by (auto simp: keyboard_ok_def nth_list_update)
  show "typed (store_key (key_buffer_idx k) c (key_buffer_idx k + 1) k) = typed k @ [c]"
    using assms idx by (simp add: typed_def keyboard_ok_def take_Suc_conv_app_nth)
qed

text \<open>One key press is one step of the editor and of the console.\<close>

lemma echo_step:
  assumes "screen_step k1 k2" and "screen_ok k2" and "keyboard_ok k1" and "typed k1 = line"
    and "fore_console k2 = con"
  shows "keyboard_ok k2 \<and> typed k2 = line \<and> fore_console k2 = con \<and> key_terminal k2 = key_terminal k1 \<and>
    cur_term k2 = cur_term k1 \<and> pcbs k2 = pcbs k1 \<and> terminal k2 = terminal k1"
  using assms by (simp add: screen_step_keyboard_ok screen_step_fields)

definition key_frame :: "kernel \<Rightarrow> kernel \<Rightarrow> bool" where
  "key_frame k k' \<longleftrightarrow> key_buffer k' = key_buffer k \<and> cur_term k' = cur_term k \<and> pcbs k' = pcbs k \<and> r_esp k' = r_esp k \<and>
     ctrl_stat k' = ctrl_stat k \<and> shift_stat k' = shift_stat k \<and> alt_stat k' = alt_stat k \<and> caps_stat k' = caps_stat k \<and>
     (\<forall>t. apn (terminal k' t) = apn (terminal k t)) \<and> user_mapped k' = user_mapped k \<and>
     (\<forall>v. translate k' v = translate k v) \<and> (\<forall>a. \<not> in_range VIDEO 4000 a \<longrightarrow> mem k' a = mem k a)"

lemma key_frame_refl: "key_frame k k"
  by (simp add: key_frame_def)

lemma key_frame_trans: "key_frame k k1 \<Longrightarrow> key_frame k1 k2 \<Longrightarrow> key_frame k k2"
  by (simp add: key_frame_def)

lemma key_frame_screen: "screen_step k k' \<Longrightarrow> key_frame k k'"
  by (simp add: key_frame_def screen_step_fields translate_screen_step screen_step_mapped) (auto simp: screen_step_def)

lemma key_frame_store: "key_frame k (store_key i c n k)"
  by (simp add: key_frame_def store_key_def upd_terminal_def user_mapped_def paging_on_def)

definition enter_flag :: "kernel \<Rightarrow> kernel" where
  "enter_flag k = upd_terminal (term_ptr (pcbs k (get_pcb_ptr_process (scast (apn (terminal k (cur_term k)))))))
     (eflag_update (\<lambda>_. 1)) k"

lemma enter_flag_facts:
  "key_frame k (enter_flag k)" "typed (enter_flag k) = typed k" "fore_console (enter_flag k) = fore_console k"
  "keyboard_ok (enter_flag k) = keyboard_ok k" "key_buffer_idx (enter_flag k) = key_buffer_idx k"
  "eflag (terminal (enter_flag k) (term_ptr (pcbs k (get_pcb_ptr_process (scast (apn (terminal k (cur_term k)))))))) = 1"
  by (simp_all add: enter_flag_def upd_terminal_def key_frame_def typed_def key_array_def key_terminal_def
      fore_console_def keyboard_ok_def screen_ok_def user_mapped_def paging_on_def)

lemma key_values:
  assumes "key < (0x80 :: u16)" and "key \<notin> {3, 8, 12, 13}"
  shows "(ucast key :: u8) \<noteq> 12" "(ucast key :: u8) \<noteq> 3" "(ucast key :: u8) \<noteq> 8" "(ucast key :: u8) \<noteq> 13"
proof -
  have "unat (ucast key :: u8) = unat key"
    using assms(1) by (simp add: unsigned_ucast_eq take_bit_eq_mod word_less_unat)
  then have "key = word_of_nat (unat (ucast key :: u8))" by simp
  then have "(ucast key :: u8) = c \<Longrightarrow> key = word_of_nat (unat c)" for c by simp
  from this [of 12] this [of 3] this [of 8] this [of 13] assms(2)
  show "(ucast key :: u8) \<noteq> 12" "(ucast key :: u8) \<noteq> 3" "(ucast key :: u8) \<noteq> 8" "(ucast key :: u8) \<noteq> 13" by auto
qed

definition presses :: "u16 \<Rightarrow> kernel \<Rightarrow> bool" where
  "presses key k \<longleftrightarrow> (\<exists>k'. handle_key_press key k = Some k' \<and> keyboard_ok k' \<and> typed k' = edit key (typed k) \<and>
    fore_console k' = echo key (typed k) (fore_console k) \<and> key_frame k k' \<and>
    (key = 13 \<longrightarrow> eflag (terminal k' (term_ptr (pcbs k (get_pcb_ptr_process (scast (apn (terminal k (cur_term k)))))))) = 1))"

lemma press_clear:
  assumes ok: "keyboard_ok k" and c: "key = 12"
  shows "presses key k"
proof -
  have screen: "screen_ok k" using ok by (simp add: keyboard_ok_def)
  note clear = clear_result(1,4) [of k]
  have "screen_ok (clear k)" using screen by (simp add: clear_def screen_ok_def)
  moreover have "set_screen_pos 0 0 (clear k) = Some (set_cursor_pos ((clear k)\<lparr>screen_x := 0, screen_y := 0\<rparr>))"
    by (rule set_screen_pos_inside) simp_all
  moreover define k' where "k' = set_cursor_pos ((clear k)\<lparr>screen_x := 0, screen_y := 0\<rparr>)"
  moreover have "screen_step k k'"
    unfolding k'_def using screen_step_trans [OF clear(2) set_screen_pos_inside_step] .
  moreover have "fore_console k' = (replicate 2000 0x20, 0, 0)"
    unfolding k'_def by (simp add: fore_console_def clear(1))
  moreover have "screen_ok k'" unfolding k'_def by (simp add: screen_ok_def)
  ultimately show ?thesis unfolding presses_def
    using c ok by (auto simp: handle_key_press_def edit_def echo_def PR_CONVER_def CTRL_L_def
        screen_step_keyboard_ok screen_step_fields key_frame_screen)
qed

lemma press_backspace:
  assumes ok: "keyboard_ok k" and c: "key = 8" "typed k \<noteq> []"
  shows "presses key k"
proof -
  have screen: "screen_ok k" using ok by (simp add: keyboard_ok_def)
  have len: "length (typed k) = unat (key_buffer_idx k)" using ok by (rule typed_length)
  have pos: "0 < unat (key_buffer_idx k)" using c(2) len by (metis length_greater_0_conv)
  obtain k1 where k1: "backspace k = Some k1" "fore_console k1 = con_backspace (fore_console k)"
    "screen_step k k1" "screen_ok k1" using backspace_refines [OF screen] by blast
  have ok1: "keyboard_ok k1" using screen_step_keyboard_ok [OF k1(3,4) ok] .
  let ?i = "key_buffer_idx k - 1"
  have i: "unat ?i = unat (key_buffer_idx k) - 1" using pos by (simp add: unat_sub word_le_unat Suc_le_eq)
  have bound: "unat (key_buffer_idx k) \<le> 128" using ok by (simp add: keyboard_ok_def)
  then have "handle_key_press key k = Some (store_key ?i 0 ?i k1)"
    using c pos i k1(1) key_buf_set_store(2) [OF ok1, where i = ?i and n = ?i and c = 0] screen_step_fields(2) [OF k1(3)]
    by (simp add: handle_key_press_def PR_CONVER_def CTRL_C_def CTRL_L_def BS_def word_less_unat)
  moreover have "keyboard_ok (store_key ?i 0 ?i k1)"
    using ok1 i screen_step_fields(2) [OF k1(3)] pos bound
    by (auto simp: keyboard_ok_def nth_list_update)
  moreover have "typed (store_key ?i 0 ?i k1) = butlast (typed k)"
    using i pos bound screen_step_fields(9) [OF k1(3)] ok
    by (simp add: typed_def keyboard_ok_def butlast_take)
  ultimately show ?thesis unfolding presses_def
    using c k1(2) key_frame_trans [OF key_frame_screen [OF k1(3)] key_frame_store]
    by (auto simp: edit_def echo_def)
qed

lemma press_enter:
  assumes ok: "keyboard_ok k" and c: "key = 13" and bound0: "key = 13 \<longrightarrow> unat (key_buffer_idx k) < 128"
  shows "presses key k"
proof -
  let ?i = "key_buffer_idx k"
  have bound: "unat ?i < 128" using bound0 c by simp
  have ok1: "keyboard_ok (enter_flag k)" using ok by (simp add: enter_flag_facts)
  define k1 where "k1 = store_key ?i 0x0A (?i + 1) (enter_flag k)"
  have i: "unat (?i + 1) = unat ?i + 1" using bound by (simp add: unat_word_ariths)
  have k1: "keyboard_ok k1" "typed k1 = typed k @ [0x0A]" "key_frame k k1" "fore_console k1 = fore_console k"
  proof -
    show "keyboard_ok k1" using ok1 i bound by (auto simp: k1_def keyboard_ok_def enter_flag_facts(5) nth_list_update)
    have "typed k1 = typed (enter_flag k) @ [0x0A]"
      using ok1 i bound by (simp add: typed_def k1_def keyboard_ok_def enter_flag_facts(5) take_Suc_conv_app_nth)
    then show "typed k1 = typed k @ [0x0A]" by (simp add: enter_flag_facts)
    show "key_frame k k1" unfolding k1_def using key_frame_trans [OF enter_flag_facts(1) key_frame_store] .
    show "fore_console k1 = fore_console k" by (simp add: k1_def enter_flag_facts)
  qed
  have "screen_ok k1" using k1(1) by (simp add: keyboard_ok_def)
  then obtain k2 where k2: "enter k1 = Some k2" "fore_console k2 = con_newline (fore_console k1)" "screen_step k1 k2"
    using enter_refines by blast
  have "screen_ok k2" using k2(2) \<open>screen_ok k1\<close> con_ok_newline fore_console_ok by metis
  note e = echo_step [OF k2(3) this k1(1,2) refl]
  have "map_option (\<lambda>k. k\<lparr>key_buffer_idx := ?i + 1\<rparr>) (key_buf_set ?i 0x0A (enter_flag k)) = Some k1"
    unfolding k1_def using key_buf_set_store(1) [OF ok1] bound by blast
  then obtain q where "key_buf_set ?i 0x0A (enter_flag k) = Some q" "q\<lparr>key_buffer_idx := ?i + 1\<rparr> = k1" by auto
  moreover from this have "key_buffer_idx q = ?i"
    by (auto simp: key_buf_set_def enter_flag_def upd_terminal_def split: bind_splits)
  ultimately have "handle_key_press key k = Some k2"
    using c k2(1) by (simp add: handle_key_press_def PR_CONVER_def CTRL_C_def CTRL_L_def BS_def ENTER_def enter_flag_def
        Let_def) (simp add: upd_terminal_def)
  moreover have "eflag (terminal k2 (term_ptr (pcbs k (get_pcb_ptr_process (scast (apn (terminal k (cur_term k)))))))) = 1"
    using e by (simp add: k1_def enter_flag_facts)
  ultimately show ?thesis unfolding presses_def
    using c e k1(4) k2(2) key_frame_trans [OF k1(3) key_frame_screen [OF k2(3)]] by (auto simp: edit_def echo_def)
qed

lemma press_char:
  assumes ok: "keyboard_ok k" and c: "key < 0x80" "key \<notin> {3, 8, 12, 13}" "length (typed k) < 127"
  shows "presses key k"
proof -
  have len: "length (typed k) = unat (key_buffer_idx k)" using ok by (rule typed_length)
  let ?i = "key_buffer_idx k" and ?c = "ucast key :: u8"
  have i: "unat ?i < 127" using c len by simp
  define k1 where "k1 = store_key ?i ?c (?i + 1) k"
  note k1 = add_key_buff_store [OF ok i, of ?c, folded k1_def]
  have "screen_ok k1" using k1(2) by (simp add: keyboard_ok_def)
  then obtain k2 where k2: "putc ?c k1 = Some k2" "fore_console k2 = con_putc ?c (fore_console k1)" "screen_step k1 k2"
    using putc_refines by blast
  have "screen_ok k2" using k2(2) \<open>screen_ok k1\<close> con_ok_putc fore_console_ok by metis
  note e = echo_step [OF k2(3) this k1(2,3) refl]
  note key = key_values [OF c(1,2)]
  have "\<not> 0x80 \<le> key" using c(1) by simp
  then have "handle_key_press key k = Some k2"
    using key i k1(1) k2(1) ok
    by (simp add: handle_key_press_def PR_CONVER_def CTRL_C_def CTRL_L_def BS_def ENTER_def KEY_BUFFER_SIZE_def
        word_less_unat keyboard_ok_def)
  then show ?thesis unfolding presses_def
    using c e k2(2) key_frame_trans [OF key_frame_store [of k ?i ?c "?i + 1"], folded k1_def, OF key_frame_screen [OF k2(3)]]
    by (auto simp: edit_def echo_def k1_def)
qed

lemma key_press:
  assumes "keyboard_ok k" and "key = 13 \<longrightarrow> unat (key_buffer_idx k) < 128"
  shows "\<exists>k'. handle_key_press key k = Some k' \<and> keyboard_ok k' \<and> typed k' = edit key (typed k) \<and>
    fore_console k' = echo key (typed k) (fore_console k) \<and> key_frame k k' \<and>
    (key = 13 \<longrightarrow> eflag (terminal k' (term_ptr (pcbs k (get_pcb_ptr_process (scast (apn (terminal k (cur_term k)))))))) = 1)"
proof -
  have screen: "screen_ok k" using assms(1) by (simp add: keyboard_ok_def)
  have len: "length (typed k) = unat (key_buffer_idx k)" using assms(1) by (rule typed_length)
  consider "key \<ge> 0x80" | "key = 3" | "key = 12" | "key = 8" "typed k = []" | "key = 8" "typed k \<noteq> []"
    | "key = 13" | "key < 0x80" "key \<notin> {3, 8, 12, 13}" "length (typed k) < 127"
    | "key < 0x80" "key \<notin> {3, 8, 12, 13}" "\<not> length (typed k) < 127" by force
  then have "presses key k"
  proof cases
    case 1
    then show ?thesis unfolding presses_def
      using assms(1) key_frame_refl by (auto simp: handle_key_press_def edit_def echo_def PR_CONVER_def)
  next
    case 2
    then show ?thesis unfolding presses_def
      using assms(1) key_frame_refl by (auto simp: handle_key_press_def edit_def echo_def PR_CONVER_def CTRL_C_def CTRL_L_def)
  next
    case 3
    then show ?thesis by (intro press_clear [OF assms(1)])
  next
    case 4
    then have "key_buffer_idx k = 0" using len by (simp add: unat_eq_0)
    then show ?thesis unfolding presses_def
      using 4 assms(1) key_frame_refl
      by (auto simp: handle_key_press_def edit_def echo_def PR_CONVER_def CTRL_C_def CTRL_L_def BS_def)
  next
    case 5
    then show ?thesis by (intro press_backspace [OF assms(1)])
  next
    case 6
    then show ?thesis by (intro press_enter [OF assms(1) _ assms(2)])
  next
    case 7
    then show ?thesis by (intro press_char [OF assms(1)])
  next
    case 8
    then have "handle_key_press key k = Some k"
      using key_values [OF 8(1,2)] len
      by (simp add: handle_key_press_def PR_CONVER_def CTRL_C_def CTRL_L_def BS_def ENTER_def KEY_BUFFER_SIZE_def word_less_unat)
    then show ?thesis unfolding presses_def using 8 assms(1) key_frame_refl by (auto simp: edit_def echo_def)
  qed
  then show ?thesis unfolding presses_def .
qed

section \<open>Clearing the line\<close>

lemma clear_buf_fold:
  assumes "key_buffer k = Some t" and "length (t_key_buffer (terminal k t)) = 128" and "n \<le> 127"
  shows "fold (\<lambda>i ok. Option.bind ok (key_buf_set (word_of_nat i) 0)) [0..<n] (Some k) =
    Some (upd_terminal t (\<lambda>tm. tm\<lparr>t_key_buffer := replicate n 0 @ drop n (t_key_buffer tm)\<rparr>) k)"
  using assms(3)
proof (induction n)
  case 0
  then show ?case by (simp add: upd_terminal_def)
next
  case (Suc n)
  have n: "unat (word_of_nat n :: u8) = n" using Suc.prems by (simp add: unat_of_nat take_bit_eq_mod)
  let ?xs = "t_key_buffer (terminal k t)"
  have xs: "(replicate n 0 @ drop n ?xs)[n := 0] = replicate (Suc n) 0 @ drop (Suc n) ?xs"
  proof -
    have "drop n ?xs = ?xs ! n # drop (Suc n) ?xs" using assms(2) Suc.prems by (intro Cons_nth_drop_Suc [symmetric]) simp
    then have "(replicate n 0 @ drop n ?xs)[n := 0] = replicate n 0 @ 0 # drop (Suc n) ?xs"
      by (simp add: list_update_append)
    then show ?thesis using replicate_append_same [of n "0 :: u8"] by simp
  qed
  show ?case
    using Suc assms n xs by (simp add: key_buf_set_def upd_terminal_def arr_set_def)
qed

lemma clear_buf_result:
  assumes "keyboard_ok k"
  shows "\<exists>k'. clear_buf k = Some k' \<and> keyboard_ok k' \<and> typed k' = [] \<and> key_frame k k' \<and>
    fore_console k' = fore_console k \<and> mem k' = mem k"
proof -
  obtain t where t: "key_buffer k = Some t" "length (t_key_buffer (terminal k t)) = 128"
    using assms by (auto simp: keyboard_ok_def key_array_def key_terminal_def)
  let ?k = "(upd_terminal t (\<lambda>tm. tm\<lparr>t_key_buffer := replicate 127 0 @ drop 127 (t_key_buffer tm)\<rparr>) k)\<lparr>key_buffer_idx := 0\<rparr>"
  have "clear_buf k = Some ?k"
    using clear_buf_fold [OF t, of 127] by (simp add: clear_buf_def KEY_BUFFER_SIZE_def)
  moreover have "keyboard_ok ?k"
    using assms t by (auto simp: keyboard_ok_def key_array_def key_terminal_def upd_terminal_def screen_ok_def nth_append)
  moreover have "typed ?k = []" by (simp add: typed_def)
  moreover have "key_frame k ?k" "fore_console ?k = fore_console k" "mem ?k = mem k"
    by (simp_all add: key_frame_def upd_terminal_def fore_console_def user_mapped_def paging_on_def)
  ultimately show ?thesis by blast
qed

section \<open>Typing\<close>

fun press_keys :: "u16 list \<Rightarrow> kernel \<Rightarrow> kernel option" where
  "press_keys [] k = Some k"
| "press_keys (key # keys) k = do { k \<leftarrow> handle_key_press key k; press_keys keys k }"

fun echo_keys :: "u16 list \<Rightarrow> u8 list \<Rightarrow> console \<Rightarrow> console" where
  "echo_keys [] line con = con"
| "echo_keys (key # keys) line con = echo_keys keys (edit key line) (echo key line con)"

lemma edit_length: "length line \<le> 127 \<Longrightarrow> key \<noteq> 13 \<Longrightarrow> length (edit key line) \<le> 127"
  by (auto simp: edit_def)

lemma fold_edit_length: "length line \<le> 127 \<Longrightarrow> 13 \<notin> set keys \<Longrightarrow> length (fold edit keys line) \<le> 127"
  by (induction keys arbitrary: line) (auto simp: edit_length)

text \<open>An \<^verbatim>\<open>ENTER\<close> comes with 128 characters in the buffer.\<close>

fun overruns :: "u16 list \<Rightarrow> u8 list \<Rightarrow> bool" where
  "overruns [] line = False"
| "overruns (key # keys) line = (key = 13 \<and> length line = 128 \<or> overruns keys (edit key line))"

lemma no_overrun: "13 \<notin> set keys \<Longrightarrow> \<not> overruns keys line"
  by (induction keys arbitrary: line) auto

lemma enter_full:
  assumes "keyboard_ok k" and "unat (key_buffer_idx k) = 128"
  shows "handle_key_press 13 k = None"
proof -
  have "key_buf_set (key_buffer_idx k) 0x0A (enter_flag k) = None"
    using assms by (auto simp: key_buf_set_def arr_set_def keyboard_ok_def key_array_def key_terminal_def
        enter_flag_def upd_terminal_def)
  moreover have "key_buffer_idx (enter_flag k) = key_buffer_idx k" by (simp add: enter_flag_facts)
  ultimately show ?thesis
    by (simp add: handle_key_press_def PR_CONVER_def CTRL_C_def CTRL_L_def BS_def ENTER_def enter_flag_def)
qed

definition edits :: "u16 list \<Rightarrow> kernel \<Rightarrow> kernel \<Rightarrow> bool" where
  "edits keys k k' \<longleftrightarrow> keyboard_ok k' \<and> typed k' = fold edit keys (typed k) \<and>
     fore_console k' = echo_keys keys (typed k) (fore_console k) \<and> key_frame k k'"

lemma press_keys_cases:
  "keyboard_ok k \<Longrightarrow>
   if overruns keys (typed k) then press_keys keys k = None else \<exists>k'. press_keys keys k = Some k' \<and> edits keys k k'"
proof (induction keys arbitrary: k)
  case Nil
  then show ?case by (simp add: edits_def key_frame_refl)
next
  case (Cons key keys)
  have len: "length (typed k) = unat (key_buffer_idx k)" "unat (key_buffer_idx k) \<le> 128"
    using typed_length [OF Cons.prems] Cons.prems by (simp_all add: keyboard_ok_def)
  show ?case
  proof (cases "key = 13 \<and> length (typed k) = 128")
    case True
    then show ?thesis using enter_full [OF Cons.prems] len by simp
  next
    case False
    obtain k1 where k1: "handle_key_press key k = Some k1" "keyboard_ok k1" "typed k1 = edit key (typed k)"
      "fore_console k1 = echo key (typed k) (fore_console k)" "key_frame k k1"
      using key_press [OF Cons.prems, of key] False len by auto
    have "edits (key # keys) k k'" if "edits keys k1 k'" for k'
      using that k1 key_frame_trans [OF k1(5)] by (simp add: edits_def)
    then show ?thesis using Cons.IH [OF k1(2)] k1(1,3) False by (auto split: if_splits)
  qed
qed

lemma press_keys_edit:
  assumes "keyboard_ok k" and "13 \<notin> set keys"
  shows "\<exists>k'. press_keys keys k = Some k' \<and> keyboard_ok k' \<and> typed k' = fold edit keys (typed k) \<and>
     fore_console k' = echo_keys keys (typed k) (fore_console k) \<and> key_frame k k'"
  using press_keys_cases [OF assms(1), of keys] no_overrun [OF assms(2)] by (auto simp: edits_def)

text \<open>A machine on which the first terminal has been set up.\<close>

definition typing_kernel :: kernel where
  "typing_kernel = some_kernel\<lparr>key_buffer := Some 0\<rparr>"

lemma typing_kernel_ok: "keyboard_ok typing_kernel" "typed typing_kernel = []"
proof -
  have "t_key_buffer (terminal some_kernel 0) = replicate 128 0" "keyboard_enabled some_kernel = 1"
    "key_buffer_idx some_kernel = 0" by (simp_all add: some_kernel_def boot_kernel_def zero_terminal_def)
  then show "keyboard_ok typing_kernel" "typed typing_kernel = []"
    using some_kernel_screen
    by (simp_all add: keyboard_ok_def typing_kernel_def key_array_def key_terminal_def typed_def screen_ok_def)
qed

section \<open>Properties\<close>



text \<open>
  \<^verbatim>\<open>ENTER\<close> is stored without a check of the buffer's end: with 128 characters in the buffer
  (a full line that nobody reads, then one \<^verbatim>\<open>ENTER\<close>), the next one is stored past the array.
\<close>

lemma enter_overruns_line_buffer:
  assumes "keyboard_ok k" and "unat (key_buffer_idx k) = 127"
  shows "\<exists>k'. handle_key_press 13 k = Some k' \<and> unat (key_buffer_idx k') = 128 \<and> handle_key_press 13 k' = None"
proof -
  obtain k' where k': "handle_key_press 13 k = Some k'" "keyboard_ok k'" "typed k' = typed k @ [0x0A]"
    using key_press [OF assms(1), of 13] assms(2) by (auto simp: edit_def)
  have "unat (key_buffer_idx k') = 128"
    using typed_length [OF k'(2)] typed_length [OF assms(1)] k'(3) assms(2) by simp
  then show ?thesis using k'(1) enter_full [OF k'(2)] by blast
qed

text \<open>
  Letters: for the scan code of each letter the key code is the capital letter exactly when
  one of shift and caps lock is on, and with \<^verbatim>\<open>ctrl\<close> only \<^verbatim>\<open>ctrl+L\<close> gives a code, which clears the
  screen.
\<close>

definition letter_codes :: "u8 list" where
  "letter_codes = [0x1E, 0x30, 0x2E, 0x20, 0x12, 0x21, 0x22, 0x23, 0x17, 0x24, 0x25, 0x26, 0x32,
     0x31, 0x18, 0x19, 0x10, 0x13, 0x1F, 0x14, 0x16, 0x2F, 0x11, 0x2D, 0x15, 0x2C]"

lemma letter_table:
  "map (\<lambda>c. scan2ascii ! unat c) letter_codes = map (\<lambda>i. (0x61 + word_of_nat i, 0x41 + word_of_nat i)) [0..<26]"
  "list_all (\<lambda>i. letter_codes ! i < NUM_CHAR_HANDLE \<and> letter_codes ! i \<noteq> BACKSPACE \<and> letter_codes ! i \<noteq> KEY_ENTER \<and>
     (letter_codes ! i = KEY_L \<longleftrightarrow> i = 11)) [0..<26]"
  by code_simp+

lemma length_letter_codes: "length letter_codes = 26"
  by (simp add: letter_codes_def)

lemma decode_letter:
  assumes "i < 26"
  shows "decode (letter_codes ! i) ctrl shift caps =
    (if ctrl then (if i = 11 then CTRL_L else 0)
     else if shift \<noteq> caps then 0x41 + word_of_nat i else 0x61 + word_of_nat i)"
proof -
  have "map (\<lambda>c. scan2ascii ! unat c) letter_codes ! i = map (\<lambda>i. (0x61 + word_of_nat i, 0x41 + word_of_nat i)) [0..<26] ! i"
    by (simp only: letter_table(1))
  then have entry: "scan2ascii ! unat (letter_codes ! i) = (0x61 + word_of_nat i, 0x41 + word_of_nat i)"
    using assms length_letter_codes by simp
  have code: "letter_codes ! i < NUM_CHAR_HANDLE" "letter_codes ! i \<noteq> BACKSPACE" "letter_codes ! i \<noteq> KEY_ENTER"
    "letter_codes ! i = KEY_L \<longleftrightarrow> i = 11"
    using letter_table(2) assms by (auto simp: list_all_iff)
  define w :: u8 where "w = word_of_nat i"
  have w: "unat w < 26" using assms by (simp add: w_def unat_of_nat take_bit_eq_mod)
  have "unat (0x61 + w) = 97 + unat w" "unat (0x41 + w) = 65 + unat w"
    using w by (simp_all add: unat_word_ariths)
  then have range: "0x61 \<le> 0x61 + w" "0x61 + w \<le> 0x7A" "\<not> 0x61 \<le> 0x41 + w" "0x41 \<le> 0x41 + w" "0x41 + w \<le> 0x5A"
    using w by (simp_all add: word_le_unat)
  show ?thesis
    using code range
    by (cases ctrl; cases shift; cases caps)
      (simp_all add: decode_def entry w_def [symmetric] CAPS_CONVER_def CTRL_L_def, auto simp: w_def)
qed

lemma letter_keys:
  assumes "i < 26"
  shows "keycode_of (letter_codes ! i) k =
    (if ctrl_stat k \<noteq> 0 then (if i = 11 then CTRL_L else 0)
     else if (shift_stat k \<noteq> 0) \<noteq> (caps_stat k \<noteq> 0) then 0x41 + word_of_nat i else 0x61 + word_of_nat i)"
  by (simp only: keycode_of_def decode_letter [OF assms])

end
