(* ===== verification/Filesys.thy ===== *)
theory Filesys
  imports Paging
begin

text \<open>
  The read only file system: \<^verbatim>\<open>student-distrib/filesys.c\<close>. The image lies in memory from
  \<^verbatim>\<open>FILESYSLOC\<close>: the boot block (counts, then 64 byte directory entries), one block per inode
  (file size, then block numbers) and the data blocks. The functions that only read the image
  and write a buffer take the memory that the processor sees; \<open>fs\<close> is \<^verbatim>\<open>FILESYSLOC\<close>.
\<close>

unbundle bit_operations_syntax

section \<open>Definitions\<close>

definition DENTRYSIZE :: u32 where "DENTRYSIZE = 64"
definition NAMESIZE :: u32 where "NAMESIZE = 32"
definition BLOCK_SIZE :: u32 where "BLOCK_SIZE = 4096"
definition INODE_BYTE_OFFSET :: u32 where "INODE_BYTE_OFFSET = 4"
definition DATA_BLOCK_BYTE_OFFSET :: u32 where "DATA_BLOCK_BYTE_OFFSET = 8"

text \<open>
  \<^verbatim>\<open>strncpy\<close> into an array that is an object of its own: the routine runs on the array's bytes,
  which start at offset 0.
\<close>

definition strncpy_array :: "u8 list \<Rightarrow> cptr \<Rightarrow> u32 \<Rightarrow> u8 list" where
  "strncpy_array xs src n = bytes (strncpy (arr xs) 0 (\<lambda>_. src) n) 0 (length xs)"

text \<open>Reading a directory entry at an address into \<open>*dentry\<close>, whose old value is \<open>d\<close>.\<close>

definition load_dentry :: "mem \<Rightarrow> addr \<Rightarrow> cptr \<Rightarrow> dentry_t \<Rightarrow> dentry_t" where
  "load_dentry m directory name d =
     d\<lparr>fileName := (strncpy_array (fileName d) name NAMESIZE)[32 := 0],
       filetype := load32 m (directory + NAMESIZE),
       inodeNumber := load32 m (directory + NAMESIZE + 4)\<rparr>"

text \<open>
  The loop of \<^verbatim>\<open>read_dentry_by_name\<close>: \<open>curName\<close> is a local array of 33 bytes, whatever was on
  the stack before. The result is the return value and the entry.
\<close>

function read_dentry_loop ::
  "addr \<Rightarrow> mem \<Rightarrow> cptr \<Rightarrow> i32 \<Rightarrow> u8 list \<Rightarrow> u32 \<Rightarrow> u32 \<Rightarrow> dentry_t \<Rightarrow> (i32 \<times> dentry_t) option" where
  "read_dentry_loop fs m fname len curName numDirectories i d =
     (if i < numDirectories then
        (let directory = fs + (i + 1) * DENTRYSIZE;
             curName = (strncpy_array curName (ptr directory m) NAMESIZE)[32 := 0]
         in do {
           curLen \<leftarrow> strlen (arr curName);
           if len = curLen \<and> strncmp fname (arr curName) len = 0
           then Some (0, load_dentry m directory (arr curName) d)
           else read_dentry_loop fs m fname len curName numDirectories (i + 1) d })
      else Some (- 1, d))"
  by pat_completeness auto
termination
proof (relation "measure (\<lambda>(fs, m, fname, len, curName, num, i, d). unat num - unat i)", goal_cases)
  case 1
  show ?case by simp
next
  case (2 fs m fname len curName num i d)
  then show ?case using unat_loop_measure by simp
qed

declare read_dentry_loop.simps [simp del]

definition read_dentry_by_name ::
  "addr \<Rightarrow> mem \<Rightarrow> u8 list \<Rightarrow> cptr \<Rightarrow> dentry_t \<Rightarrow> (i32 \<times> dentry_t) option" where
  "read_dentry_by_name fs m stack fname d =
     (let numDirectories = load32 m fs in do {
        len \<leftarrow> strlen fname;
        if NAMESIZE <s len then Some (- 1, d)
        else read_dentry_loop fs m fname len stack numDirectories 0 d })"

definition read_dentry_by_index :: "addr \<Rightarrow> mem \<Rightarrow> u32 \<Rightarrow> dentry_t \<Rightarrow> i32 \<times> dentry_t" where
  "read_dentry_by_index fs m idx d =
     (let numDirectories = load32 m fs in
      if idx < 0 \<or> idx \<ge> numDirectories then (- 1, d)
      else let directory = fs + (idx + 1) * DENTRYSIZE
           in (0, load_dentry m directory (ptr directory m) d))"

text \<open>
  The loop of \<^verbatim>\<open>read_data\<close> over the blocks after the first: \<open>ip\<close> points at the block number in
  the inode, \<open>data\<close> at data block 0. The result is the memory and the return value.
\<close>

function read_data_loop ::
  "u32 \<Rightarrow> addr \<Rightarrow> addr \<Rightarrow> addr \<Rightarrow> u32 \<Rightarrow> u32 \<Rightarrow> mem \<Rightarrow> mem \<times> i32" where
  "read_data_loop total_data_blocks data ip buf len byte_count m =
     (if 0 < len then
        (let ip = ip + INODE_BYTE_OFFSET in
         if load32 m ip < 0 \<or> load32 m ip \<ge> total_data_blocks then (m, - 1)
         else let data_ptr = data + BLOCK_SIZE * load32 m ip in
           if len \<le> BLOCK_SIZE then (memcpy m buf data_ptr len, byte_count + len)
           else read_data_loop total_data_blocks data ip (buf + BLOCK_SIZE) (len - BLOCK_SIZE)
                  (byte_count + BLOCK_SIZE) (memcpy m buf data_ptr BLOCK_SIZE))
      else (m, 0))"
  by pat_completeness auto
termination
proof (relation "measure (\<lambda>(total, data, ip, buf, len, count, m). unat len)", goal_cases)
  case 1
  show ?case by simp
next
  case (2 total data ip buf len count m)
  then have "BLOCK_SIZE < len" by simp
  then have "4096 < unat len" by (simp add: word_less_unat BLOCK_SIZE_def)
  then show ?case by (simp add: unat_sub32 word_le_unat BLOCK_SIZE_def)
qed

declare read_data_loop.simps [simp del]

definition read_data :: "addr \<Rightarrow> mem \<Rightarrow> u32 \<Rightarrow> u32 \<Rightarrow> addr \<Rightarrow> u32 \<Rightarrow> mem \<times> i32" where
  "read_data fs m inode_num offset buf len =
     (let total_inodes = load32 m (fs + INODE_BYTE_OFFSET) in
      if inode_num < 0 \<or> inode_num \<ge> total_inodes then (m, - 1)
      else
        let total_data_blocks = load32 m (fs + DATA_BLOCK_BYTE_OFFSET);
            inode_ptr = fs + BLOCK_SIZE * (inode_num + 1);
            data = fs + BLOCK_SIZE * (total_inodes + 1);
            file_size = load32 m inode_ptr
        in if offset \<ge> file_size then (m, 0)
        else
          let len = (if len + offset > file_size then file_size - offset else len);
              ip = inode_ptr + (offset div BLOCK_SIZE + 1) * INODE_BYTE_OFFSET
          in if load32 m ip < 0 \<or> load32 m ip \<ge> total_data_blocks then (m, - 1)
          else
            let data_ptr = data + BLOCK_SIZE * load32 m ip + offset mod BLOCK_SIZE in
            if offset mod BLOCK_SIZE + len \<le> BLOCK_SIZE
            then (memcpy m buf data_ptr len, len)
            else
              let part = BLOCK_SIZE - offset mod BLOCK_SIZE
              in read_data_loop total_data_blocks data ip (buf + part) (len - part) part
                   (memcpy m buf data_ptr part))"

section \<open>Files\<close>

text \<open>
  The abstract view of the image: the size of a file, the number of its \<open>b\<close>th block, its byte
  at a position and its contents. \<open>file_ok\<close> is what the program that builds the image
  promises for a file.
\<close>

definition total_inodes :: "addr \<Rightarrow> mem \<Rightarrow> u32" where
  "total_inodes fs m = load32 m (fs + 4)"

definition total_blocks :: "addr \<Rightarrow> mem \<Rightarrow> u32" where
  "total_blocks fs m = load32 m (fs + 8)"

definition image_size :: "addr \<Rightarrow> mem \<Rightarrow> nat" where
  "image_size fs m = 4096 * (1 + unat (total_inodes fs m) + unat (total_blocks fs m))"

definition inode_addr :: "addr \<Rightarrow> u32 \<Rightarrow> addr" where
  "inode_addr fs i = fs + BLOCK_SIZE * (i + 1)"

definition file_size :: "addr \<Rightarrow> mem \<Rightarrow> u32 \<Rightarrow> u32" where
  "file_size fs m i = load32 m (inode_addr fs i)"

definition block_no :: "addr \<Rightarrow> mem \<Rightarrow> u32 \<Rightarrow> nat \<Rightarrow> u32" where
  "block_no fs m i b = load32 m (inode_addr fs i + word_of_nat (4 * (b + 1)))"

definition data_addr :: "addr \<Rightarrow> mem \<Rightarrow> addr" where
  "data_addr fs m = fs + BLOCK_SIZE * (total_inodes fs m + 1)"

definition file_byte :: "addr \<Rightarrow> mem \<Rightarrow> u32 \<Rightarrow> nat \<Rightarrow> u8" where
  "file_byte fs m i p =
     m (data_addr fs m + BLOCK_SIZE * block_no fs m i (p div 4096) + word_of_nat (p mod 4096))"

definition file_contents :: "addr \<Rightarrow> mem \<Rightarrow> u32 \<Rightarrow> u8 list" where
  "file_contents fs m i = map (file_byte fs m i) [0..<unat (file_size fs m i)]"

definition file_ok :: "addr \<Rightarrow> mem \<Rightarrow> u32 \<Rightarrow> bool" where
  "file_ok fs m i \<longleftrightarrow> image_size fs m < 4294967296 \<and> i < total_inodes fs m \<and>
     unat (file_size fs m i) \<le> 1023 * 4096 \<and>
     (\<forall>b<1023. b * 4096 < unat (file_size fs m i) \<longrightarrow> block_no fs m i b < total_blocks fs m)"

subsection \<open>The image is not touched by writes elsewhere\<close>

definition same_image :: "addr \<Rightarrow> mem \<Rightarrow> mem \<Rightarrow> bool" where
  "same_image fs m m' \<longleftrightarrow> (\<forall>x. in_range fs (image_size fs m) x \<longrightarrow> m' x = m x)"

lemma same_image_write:
  assumes "disjoint_range buf n fs (image_size fs m)" and "length xs \<le> n" and "n < 4294967296"
  shows "same_image fs m (write_bytes buf xs m)"
  unfolding same_image_def
proof (intro allI impI)
  fix x
  assume "in_range fs (image_size fs m) x"
  then have "\<not> in_range buf n x" using disjoint_range_excl [OF disjoint_range_sym [OF assms(1)]] by blast
  then have "\<not> in_range buf (length xs) x" using assms(2) by (simp add: in_range_def)
  then show "write_bytes buf xs m x = m x" using assms(2,3) by (simp add: write_bytes_outside)
qed

lemma same_image_nth:
  assumes "same_image fs m m'" and "o' < image_size fs m" and "image_size fs m < 4294967296"
  shows "m' (fs + word_of_nat o') = m (fs + word_of_nat o')"
  using assms in_range_offset [of o' "image_size fs m" fs] by (simp add: same_image_def)

lemma same_image_load32:
  assumes "same_image fs m m'" and "o' + 4 \<le> image_size fs m" and "image_size fs m < 4294967296"
  shows "load32 m' (fs + word_of_nat o') = load32 m (fs + word_of_nat o')"
proof -
  have "m' (fs + word_of_nat o' + word_of_nat j) = m (fs + word_of_nat o' + word_of_nat j)" if "j < 4" for j
    using same_image_nth [OF assms(1), of "o' + j"] assms(2,3) that by (simp add: add.assoc)
  from this [of 0] this [of 1] this [of 2] this [of 3] show ?thesis by (simp add: load32_def)
qed

text \<open>Where the parts of the image lie, as offsets from its start.\<close>

lemma inode_addr_offset: "inode_addr fs i = fs + word_of_nat (4096 * (unat i + 1))"
  by (simp add: inode_addr_def BLOCK_SIZE_def)

lemma block_no_offset: "block_no fs m i b = load32 m (fs + word_of_nat (4096 * (unat i + 1) + 4 * (b + 1)))"
  by (simp add: block_no_def inode_addr_offset add.assoc)

lemma data_offset:
  "data_addr fs m + BLOCK_SIZE * blk + word_of_nat q
   = fs + word_of_nat (4096 * (unat (total_inodes fs m) + 1) + 4096 * unat blk + q)"
  by (simp add: data_addr_def BLOCK_SIZE_def add.assoc)

lemma file_ok_block:
  assumes "file_ok fs m i" and "p < unat (file_size fs m i)"
  shows "block_no fs m i (p div 4096) < total_blocks fs m" and "p div 4096 < 1023"
    and "4096 * (unat i + 1) + 4 * (p div 4096 + 1) + 4 \<le> image_size fs m"
proof -
  have "p < 1023 * 4096" using assms by (simp add: file_ok_def)
  then show b: "p div 4096 < 1023" by (simp add: less_mult_imp_div_less)
  have "p div 4096 * 4096 \<le> p" by simp
  then show "block_no fs m i (p div 4096) < total_blocks fs m"
    using assms b by (simp add: file_ok_def)
  have arith: "4096 * (a + 1) + 4 * (q + 1) + 4 \<le> 4096 * (1 + t + u)" if "a < t" "q < 1023" for a q t u :: nat
    using that unfolding distrib_left mult_1_right by linarith
  have "unat i < unat (total_inodes fs m)" using assms(1) by (simp add: file_ok_def word_less_unat)
  then show "4096 * (unat i + 1) + 4 * (p div 4096 + 1) + 4 \<le> image_size fs m"
    using b unfolding image_size_def by (rule arith)
qed

lemma same_image_file:
  assumes "same_image fs m m'" and "file_ok fs m i" and "p < unat (file_size fs m i)"
  shows "block_no fs m' i (p div 4096) = block_no fs m i (p div 4096)"
    and "q < 4096 \<Longrightarrow> m' (data_addr fs m + BLOCK_SIZE * block_no fs m i (p div 4096) + word_of_nat q)
      = m (data_addr fs m + BLOCK_SIZE * block_no fs m i (p div 4096) + word_of_nat q)"
proof -
  have size: "image_size fs m < 4294967296" using assms(2) by (simp add: file_ok_def)
  note blk = file_ok_block [OF assms(2,3)]
  show "block_no fs m' i (p div 4096) = block_no fs m i (p div 4096)"
    unfolding block_no_offset using same_image_load32 [OF assms(1) blk(3) size] .
  have "4096 * (unat (total_inodes fs m) + 1) + 4096 * unat (block_no fs m i (p div 4096)) + q < image_size fs m"
    if "q < 4096"
  proof -
    have arith: "4096 * (t + 1) + 4096 * b + q < 4096 * (1 + t + u)" if "b < u" for t b u :: nat
      using that \<open>q < 4096\<close> unfolding distrib_left mult_1_right by linarith
    show ?thesis unfolding image_size_def by (rule arith) (use blk(1) in \<open>simp add: word_less_unat\<close>)
  qed
  then show "q < 4096 \<Longrightarrow> m' (data_addr fs m + BLOCK_SIZE * block_no fs m i (p div 4096) + word_of_nat q)
      = m (data_addr fs m + BLOCK_SIZE * block_no fs m i (p div 4096) + word_of_nat q)"
    unfolding data_offset using same_image_nth [OF assms(1) _ size] by blast
qed

subsection \<open>Copying one block\<close>

text \<open>
  The buffer holds the first \<open>c\<close> of the bytes \<open>xs\<close> to be read; \<open>k\<close> more are copied from
  position \<open>p\<close> of the file, all of them in one block.
\<close>

lemma copy_block:
  assumes ok: "file_ok fs m i" and disj: "disjoint_range buf (length xs) fs (image_size fs m)"
    and xs: "length xs < 4294967296" "c + k \<le> length xs" "take k (drop c xs) = map (file_byte fs m i) [p..<p + k]"
    and p: "0 < k" "p mod 4096 + k \<le> 4096" "p < unat (file_size fs m i)"
  defines "m' \<equiv> write_bytes buf (take c xs) m"
    and "dp \<equiv> data_addr fs m + BLOCK_SIZE * block_no fs m i (p div 4096) + word_of_nat (p mod 4096)"
  shows "memcpy m' (buf + word_of_nat c) dp (word_of_nat k) = write_bytes buf (take (c + k) xs) m"
proof -
  let ?o = "4096 * (unat (total_inodes fs m) + 1) + 4096 * unat (block_no fs m i (p div 4096)) + p mod 4096"
  have size: "image_size fs m < 4294967296" using ok by (simp add: file_ok_def)
  have k: "unat (word_of_nat k :: u32) = k" using xs by simp
  have same: "same_image fs m m'" unfolding m'_def using disj xs by (intro same_image_write) auto
  have arith: "4096 * (t + 1) + 4096 * b + q + k \<le> 4096 * (1 + t + u)" if "b < u" "q + k \<le> 4096" for t b u q :: nat
    using that unfolding distrib_left mult_1_right by linarith
  have "?o + k \<le> image_size fs m"
    unfolding image_size_def
    by (rule arith) (use file_ok_block(1) [OF ok p(3)] p(2) in \<open>simp_all add: word_less_unat\<close>)
  then have "disjoint_range (buf + word_of_nat c) k (fs + word_of_nat ?o) k"
    by (rule disjoint_range_sub [OF disj xs(2)]) (use xs(1) size in simp_all)
  then have safe: "copy_up_safe (buf + word_of_nat c) dp k"
    unfolding dp_def data_offset using p(1) by (auto simp: disjoint_range_def copy_up_safe_def)
  have "bytes m' dp k = take k (drop c xs)"
  proof (rule bytes_eqI)
    show "length (take k (drop c xs)) = k" using xs(2) by simp
    fix j
    assume j: "j < k"
    have pos: "(p + j) div 4096 = p div 4096" "(p + j) mod 4096 = p mod 4096 + j"
    proof -
      have "p + j = 4096 * (p div 4096) + (p mod 4096 + j)" by simp
      moreover have "p mod 4096 + j < 4096" using j p(2) by linarith
      ultimately show "(p + j) div 4096 = p div 4096" "(p + j) mod 4096 = p mod 4096 + j"
        by (metis div_mult_self4 add.right_neutral div_less mult.commute zero_neq_numeral, metis mod_mult_self4 mod_less mult.commute)
    qed
    have "m' (dp + word_of_nat j) = m (dp + word_of_nat j)"
      using same_image_file(2) [OF same ok p(3), of "p mod 4096 + j"] j p(2)
      by (simp add: dp_def add.assoc)
    also have "\<dots> = file_byte fs m i (p + j)" by (simp add: file_byte_def pos dp_def add.assoc)
    also have "\<dots> = take k (drop c xs) ! j" using j by (simp add: xs(3))
    finally show "m' (dp + word_of_nat j) = take k (drop c xs) ! j" .
  qed
  then have "memcpy m' (buf + word_of_nat c) dp (word_of_nat k)
      = write_bytes (buf + word_of_nat c) (take k (drop c xs)) m'"
    using memcpy_write [of "buf + word_of_nat c" dp "word_of_nat k" m'] safe by (simp only: k)
  also have "\<dots> = write_bytes buf (take c xs @ take k (drop c xs)) m"
    using xs(2) by (simp add: write_bytes_append m'_def min_def)
  also have "take c xs @ take k (drop c xs) = take (c + k) xs" by (simp add: take_add)
  finally show ?thesis .
qed

subsection \<open>The loop over the blocks\<close>

lemma read_data_loop_rest:
  assumes ok: "file_ok fs m i" and disj: "disjoint_range buf (length xs) fs (image_size fs m)"
    and xs: "xs = map (file_byte fs m i) [off..<off + length xs]" "off + length xs \<le> unat (file_size fs m i)"
    and len: "length xs < 4294967296"
  shows "c < length xs \<Longrightarrow> (off + c) mod 4096 = 0 \<Longrightarrow>
    read_data_loop (total_blocks fs m) (data_addr fs m)
      (inode_addr fs i + word_of_nat (4 * ((off + c) div 4096))) (buf + word_of_nat c)
      (word_of_nat (length xs - c)) (word_of_nat c) (write_bytes buf (take c xs) m)
    = (write_bytes buf xs m, word_of_nat (length xs))"
proof (induction "length xs - c" arbitrary: c rule: less_induct)
  case less
  let ?n = "length xs" and ?p = "off + c"
  define m' where "m' = write_bytes buf (take c xs) m"
  have size: "?p < unat (file_size fs m i)" using xs(2) less.prems(1) by linarith
  have same: "same_image fs m m'" unfolding m'_def using disj len by (intro same_image_write) auto
  have r: "unat (word_of_nat (?n - c) :: u32) = ?n - c" using len by simp
  define ip where "ip = inode_addr fs i + word_of_nat (4 * (?p div 4096))"
  have blk: "load32 m' (ip + INODE_BYTE_OFFSET) = block_no fs m i (?p div 4096)"
    using same_image_file(1) [OF same ok size] by (simp add: block_no_def INODE_BYTE_OFFSET_def ip_def ac_simps)
  have bytes: "take k (drop c xs) = map (file_byte fs m i) [?p..<?p + k]" if "c + k \<le> ?n" for k
    by (subst xs(1)) (use that in \<open>simp add: drop_map take_map drop_upt take_upt\<close>)
  note copy = copy_block [OF ok disj len _ bytes _ _ size, folded m'_def]
  have pos: "(0 :: u32) < word_of_nat (?n - c)" using r less.prems(1) by (simp add: word_less_unat)
  have valid: "\<not> (block_no fs m i (?p div 4096) < 0 \<or> block_no fs m i (?p div 4096) \<ge> total_blocks fs m)"
    using file_ok_block(1) [OF ok size] by simp
  show ?case
  proof (cases "?n - c \<le> 4096")
    case True
    then have "(word_of_nat (?n - c) :: u32) \<le> BLOCK_SIZE" using r by (simp add: word_le_unat BLOCK_SIZE_def)
    moreover have "memcpy m' (buf + word_of_nat c) (data_addr fs m + BLOCK_SIZE * block_no fs m i (?p div 4096))
        (word_of_nat (?n - c)) = write_bytes buf xs m"
      using copy [of "?n - c"] True less.prems by simp
    moreover have "word_of_nat c + word_of_nat (?n - c) = (word_of_nat ?n :: u32)"
      using less.prems(1) by (simp add: of_nat_add [symmetric] del: of_nat_add)
    ultimately show ?thesis
      unfolding ip_def [symmetric] m'_def [symmetric]
      using pos valid by (subst read_data_loop.simps) (simp add: Let_def blk)
  next
    case False
    then have gt: "\<not> (word_of_nat (?n - c) :: u32) \<le> BLOCK_SIZE" using r by (simp add: word_le_unat BLOCK_SIZE_def)
    have step: "memcpy m' (buf + word_of_nat c) (data_addr fs m + BLOCK_SIZE * block_no fs m i (?p div 4096))
        BLOCK_SIZE = write_bytes buf (take (c + 4096) xs) m"
      using copy [of 4096] False less.prems by (simp add: BLOCK_SIZE_def)
    have len': "(word_of_nat (?n - c) :: u32) - BLOCK_SIZE = word_of_nat (?n - (c + 4096))"
      using False by (simp add: BLOCK_SIZE_def of_nat_diff)
    have next_pos: "(off + (c + 4096)) mod 4096 = 0" "(off + (c + 4096)) div 4096 = ?p div 4096 + 1"
      using less.prems(2) by (simp_all add: add.assoc [symmetric])
    have ip': "inode_addr fs i + word_of_nat (4 * ((off + (c + 4096)) div 4096)) = ip + INODE_BYTE_OFFSET"
      by (simp only: next_pos(2)) (simp add: ip_def INODE_BYTE_OFFSET_def algebra_simps)
    have "read_data_loop (total_blocks fs m) (data_addr fs m)
        (inode_addr fs i + word_of_nat (4 * ((off + (c + 4096)) div 4096))) (buf + word_of_nat (c + 4096))
        (word_of_nat (?n - (c + 4096))) (word_of_nat (c + 4096)) (write_bytes buf (take (c + 4096) xs) m)
      = (write_bytes buf xs m, word_of_nat ?n)"
      using False next_pos(1) by (intro less.hyps) auto
    then have "read_data_loop (total_blocks fs m) (data_addr fs m) (ip + INODE_BYTE_OFFSET)
        (buf + word_of_nat c + BLOCK_SIZE) (word_of_nat (?n - c) - BLOCK_SIZE) (word_of_nat c + BLOCK_SIZE)
        (write_bytes buf (take (c + 4096) xs) m) = (write_bytes buf xs m, word_of_nat ?n)"
      unfolding ip' len' by (simp add: BLOCK_SIZE_def ac_simps)
    then show ?thesis
      unfolding ip_def [symmetric] m'_def [symmetric]
      using pos valid gt step by (subst read_data_loop.simps) (simp add: Let_def blk)
  qed
qed

subsection \<open>read_data\<close>

lemma memcpy_0: "memcpy m dest src 0 = m"
  by (simp add: memcpy_def)

lemma read_data_eq:
  "read_data fs m i off buf len =
    (if i < 0 \<or> i \<ge> total_inodes fs m then (m, - 1)
     else if off \<ge> file_size fs m i then (m, 0)
     else
       let n = (if len + off > file_size fs m i then file_size fs m i - off else len);
           ip = inode_addr fs i + (off div BLOCK_SIZE + 1) * INODE_BYTE_OFFSET;
           dp = data_addr fs m + BLOCK_SIZE * load32 m ip + off mod BLOCK_SIZE;
           part = BLOCK_SIZE - off mod BLOCK_SIZE
       in if load32 m ip < 0 \<or> load32 m ip \<ge> total_blocks fs m then (m, - 1)
          else if off mod BLOCK_SIZE + n \<le> BLOCK_SIZE then (memcpy m buf dp n, n)
          else read_data_loop (total_blocks fs m) (data_addr fs m) ip (buf + part) (n - part) part
                 (memcpy m buf dp part))"
  by (simp only: read_data_def Let_def total_inodes_def total_blocks_def file_size_def inode_addr_def
      data_addr_def INODE_BYTE_OFFSET_def DATA_BLOCK_BYTE_OFFSET_def)

text \<open>A read that starts inside the file: the number of bytes, and the two ways through the function.\<close>

lemma read_length:
  assumes "unat off < unat sz" and "unat off + unat len < 4294967296"
  defines "l \<equiv> if len + off > sz then sz - off else len :: u32"
  shows "unat l = min (unat len) (unat sz - unat off)"
proof -
  have "unat (len + off) = unat len + unat off" using assms(2) by (simp add: unat_add32)
  then show ?thesis using assms(1) by (auto simp: l_def word_less_unat min_def unat_sub32 word_le_unat)
qed

lemma block_offset:
  "off div BLOCK_SIZE = word_of_nat (unat off div 4096)" "off mod BLOCK_SIZE = word_of_nat (unat off mod 4096)"
  "unat (off mod BLOCK_SIZE) = unat off mod 4096" "BLOCK_SIZE - off mod BLOCK_SIZE = word_of_nat (4096 - unat off mod 4096)"
proof -
  have q: "unat (off div BLOCK_SIZE) = unat off div 4096" "unat (off mod BLOCK_SIZE) = unat off mod 4096"
    by (simp_all add: BLOCK_SIZE_def unat_div_distrib unat_mod_distrib)
  then show "off div BLOCK_SIZE = word_of_nat (unat off div 4096)" and m: "off mod BLOCK_SIZE = word_of_nat (unat off mod 4096)"
    by (metis unat_eq_nat32 unat_lt32)+
  show "unat (off mod BLOCK_SIZE) = unat off mod 4096" by (rule q(2))
  show "BLOCK_SIZE - off mod BLOCK_SIZE = word_of_nat (4096 - unat off mod 4096)"
    unfolding m by (simp add: BLOCK_SIZE_def of_nat_diff)
qed

lemma read_data_inside:
  assumes ok: "file_ok fs m i" and inside: "unat off < unat (file_size fs m i)" and no_wrap: "unat off + unat len < 4294967296"
  defines "n \<equiv> min (unat len) (unat (file_size fs m i) - unat off)" and "part \<equiv> 4096 - unat off mod 4096"
    and "dp \<equiv> data_addr fs m + BLOCK_SIZE * block_no fs m i (unat off div 4096) + word_of_nat (unat off mod 4096)"
  shows "read_data fs m i off buf len =
      (if unat off mod 4096 + n \<le> 4096 then (memcpy m buf dp (word_of_nat n), word_of_nat n)
       else read_data_loop (total_blocks fs m) (data_addr fs m) (inode_addr fs i + word_of_nat (4 * (unat off div 4096 + 1)))
              (buf + word_of_nat part) (word_of_nat n - word_of_nat part) (word_of_nat part)
              (memcpy m buf dp (word_of_nat part)))"
proof -
  have i: "\<not> (i < 0 \<or> i \<ge> total_inodes fs m)" using ok by (auto simp: file_ok_def)
  have n: "n < 4294967296" using unat_lt32 [of len] by (simp add: n_def)
  have l: "(if len + off > file_size fs m i then file_size fs m i - off else len) = word_of_nat n"
    using read_length [OF inside no_wrap] n by (simp add: unat_eq_nat32 n_def)
  have ip: "inode_addr fs i + (off div BLOCK_SIZE + 1) * INODE_BYTE_OFFSET
      = inode_addr fs i + word_of_nat (4 * (unat off div 4096 + 1))"
    by (simp add: block_offset(1) INODE_BYTE_OFFSET_def algebra_simps)
  have blk: "load32 m (inode_addr fs i + (off div BLOCK_SIZE + 1) * INODE_BYTE_OFFSET)
      = block_no fs m i (unat off div 4096)" by (simp only: ip block_no_def)
  have valid: "\<not> (block_no fs m i (unat off div 4096) < 0 \<or> block_no fs m i (unat off div 4096) \<ge> total_blocks fs m)"
    using file_ok_block(1) [OF ok inside] by simp
  have "n \<le> 1023 * 4096" using ok unfolding n_def file_ok_def by linarith
  moreover have "unat off mod 4096 < 4096" by simp
  ultimately have "unat off mod 4096 + n < 4294967296" by linarith
  then have "unat (off mod BLOCK_SIZE + word_of_nat n) = unat off mod 4096 + n"
    using n by (subst unat_add32) (simp_all add: block_offset(3))
  then have fits: "off mod BLOCK_SIZE + word_of_nat n \<le> BLOCK_SIZE \<longleftrightarrow> unat off mod 4096 + n \<le> 4096"
    by (simp add: word_le_unat) (simp add: BLOCK_SIZE_def)
  have "\<not> off \<ge> file_size fs m i" using inside by (simp add: word_le_unat)
  then show ?thesis
    unfolding read_data_eq Let_def blk l block_offset(4) fits dp_def part_def block_offset(2) [symmetric] ip [symmetric]
    using i valid by (simp only: if_not_P if_False)
qed

lemma read_data_write:
  assumes ok: "file_ok fs m i" and disj: "disjoint_range buf (unat len) fs (image_size fs m)"
    and no_wrap: "unat off + unat len < 4294967296"
  defines "xs \<equiv> take (unat len) (drop (unat off) (file_contents fs m i))"
  shows "read_data fs m i off buf len = (write_bytes buf xs m, word_of_nat (length xs))"
proof (cases "unat off < unat (file_size fs m i)")
  case False
  then have "off \<ge> file_size fs m i" by (simp add: word_le_unat)
  moreover have "xs = []" using False by (simp add: xs_def file_contents_def)
  moreover have "\<not> (i < 0 \<or> i \<ge> total_inodes fs m)" using ok by (auto simp: file_ok_def)
  ultimately show ?thesis
    by (simp add: read_data_def Let_def total_inodes_def file_size_def inode_addr_def INODE_BYTE_OFFSET_def)
next
  case True
  let ?off = "unat off"
  define n where "n = min (unat len) (unat (file_size fs m i) - ?off)"
  have len_xs: "length xs = n" by (simp add: xs_def file_contents_def n_def)
  have xs: "xs = map (file_byte fs m i) [?off..<?off + length xs]" "?off + length xs \<le> unat (file_size fs m i)"
    using True by (auto simp: len_xs) (auto simp: xs_def file_contents_def drop_map take_map drop_upt n_def min_def take_upt)
  have small: "length xs < 4294967296" using unat_lt32 [of len] len_xs by (simp add: n_def)
  have disj': "disjoint_range buf (length xs) fs (image_size fs m)"
    using disj unfolding len_xs by (auto simp: disjoint_range_def n_def)
  note read = read_data_inside [OF ok True no_wrap, of buf, folded n_def]
  have bytes: "take k (drop 0 xs) = map (file_byte fs m i) [?off..<?off + k]" if "0 + k \<le> length xs" for k
    by (subst xs(1)) (use that in \<open>simp add: take_map take_upt\<close>)
  have first: "memcpy m buf (data_addr fs m + BLOCK_SIZE * block_no fs m i (?off div 4096) + word_of_nat (?off mod 4096)) (word_of_nat k) =
      write_bytes buf (take k xs) m" if "?off mod 4096 + k \<le> 4096" "0 < k" "k \<le> length xs" for k
    using copy_block [OF ok disj' small _ bytes _ _ True, of k] that by simp
  show ?thesis
  proof (cases "?off mod 4096 + n \<le> 4096")
    case True
    then show ?thesis using read first [of n] len_xs memcpy_0 by (cases "n = 0") simp_all
  next
    case False
    define part_len where "part_len = 4096 - ?off mod 4096"
    have p: "?off mod 4096 + part_len = 4096" "0 < part_len" "part_len < length xs"
      using False len_xs mod_less_divisor [of 4096 ?off] unfolding part_len_def by linarith+
    have pos: "?off + part_len = 4096 * (?off div 4096 + 1)"
      using p(1) mult_div_mod_eq [of 4096 ?off] unfolding distrib_left mult_1_right by linarith
    have next_block: "(?off + part_len) mod 4096 = 0" "(?off + part_len) div 4096 = ?off div 4096 + 1"
      unfolding pos by simp_all
    have "(word_of_nat n - word_of_nat part_len :: u32) = word_of_nat (length xs - part_len)"
      using p(3) len_xs by (simp add: of_nat_diff)
    then show ?thesis
      using read False first [of part_len] p
        read_data_loop_rest [OF ok disj' xs small p(3) next_block(1)]
      by (simp add: part_len_def [symmetric] next_block(2) del: of_nat_mult of_nat_add of_nat_diff)
  qed
qed

section \<open>The directory\<close>

text \<open>The name of entry \<open>i\<close>: up to 32 bytes, without the NULs that fill the field; and the entry.\<close>

definition dentry_addr :: "addr \<Rightarrow> u32 \<Rightarrow> addr" where
  "dentry_addr fs i = fs + (i + 1) * DENTRYSIZE"

definition dentry_name :: "addr \<Rightarrow> mem \<Rightarrow> u32 \<Rightarrow> u8 list" where
  "dentry_name fs m i = takeWhile (\<lambda>c. c \<noteq> 0) (bytes m (dentry_addr fs i) 32)"

definition dentry_at :: "addr \<Rightarrow> mem \<Rightarrow> u32 \<Rightarrow> dentry_t" where
  "dentry_at fs m i =
     \<lparr>fileName = dentry_name fs m i @ replicate (33 - length (dentry_name fs m i)) 0,
      filetype = load32 m (dentry_addr fs i + 32),
      inodeNumber = load32 m (dentry_addr fs i + 36)\<rparr>"

definition directory :: "addr \<Rightarrow> mem \<Rightarrow> dentry_t list" where
  "directory fs m = map (\<lambda>i. dentry_at fs m (word_of_nat i)) [0..<unat (load32 m fs)]"

lemma dentry_name_facts: "0 \<notin> set (dentry_name fs m i)" "length (dentry_name fs m i) \<le> 32"
proof -
  show "0 \<notin> set (dentry_name fs m i)" by (auto simp: dentry_name_def dest: set_takeWhileD)
  show "length (dentry_name fs m i) \<le> 32"
    using length_takeWhile_le [of "\<lambda>c. c \<noteq> 0" "bytes m (dentry_addr fs i) 32"] by (simp add: dentry_name_def)
qed

lemma strncpy_array_bytes:
  assumes "unat n \<le> length xs" and "length xs < 4294967296"
  shows "strncpy_array xs src n = strncpy_bytes src (unat n) @ drop (unat n) xs"
proof -
  have "strncpy (arr xs) 0 (\<lambda>_. src) n = write_bytes 0 (strncpy_bytes src (unat n)) (arr xs)"
    using strncpy_write [where src = "\<lambda>_. src" and m = "arr xs" and dest = 0 and n = n] by simp
  then show ?thesis
    unfolding strncpy_array_def using assms
    by (intro nth_equalityI) (auto simp: write_bytes_apply nth_append arr_def)
qed

lemma name_field: "strncpy_bytes (ptr (dentry_addr fs i) m) 32
    = dentry_name fs m i @ replicate (32 - length (dentry_name fs m i)) 0"
  by (simp add: strncpy_bytes_def dentry_name_def bytes_def ptr_def Let_def)

lemma cur_name:
  assumes "length cur = 33"
  shows "(strncpy_array cur (ptr (dentry_addr fs i) m) NAMESIZE)[32 := 0]
    = dentry_name fs m i @ replicate (33 - length (dentry_name fs m i)) 0"
proof -
  let ?name = "dentry_name fs m i"
  have "33 - length ?name = Suc (32 - length ?name)" using dentry_name_facts(2) [of fs m i] by simp
  then have "replicate (33 - length ?name) (0 :: u8) = replicate (32 - length ?name) 0 @ [0]"
    by (simp add: replicate_append_same)
  moreover have "drop 32 cur = [last cur]"
    using assms by (metis drop_eq_Nil append_butlast_last_id append_eq_conv_conj diff_Suc_1 length_butlast list.size(3) numeral_eq_Suc pred_numeral_simps(3) zero_neq_numeral)
  ultimately show ?thesis
    using assms dentry_name_facts(2) [of fs m i]
    by (simp add: strncpy_array_bytes NAMESIZE_def name_field list_update_append)
qed

lemma cstr_name: "cstr (arr (dentry_name fs m i @ replicate (33 - length (dentry_name fs m i)) 0)) (dentry_name fs m i)"
proof -
  have "33 - length (dentry_name fs m i) = Suc (32 - length (dentry_name fs m i))"
    using dentry_name_facts(2) [of fs m i] by simp
  then show ?thesis using dentry_name_facts [of fs m i] by (simp add: cstr_arr)
qed

lemma load_dentry_at:
  assumes "length (fileName d) = 33"
  shows "load_dentry m (dentry_addr fs i) (ptr (dentry_addr fs i) m) d = dentry_at fs m i"
    and "load_dentry m (dentry_addr fs i)
      (arr (dentry_name fs m i @ replicate (33 - length (dentry_name fs m i)) 0)) d = dentry_at fs m i"
proof -
  let ?name = "dentry_name fs m i"
  show "load_dentry m (dentry_addr fs i) (ptr (dentry_addr fs i) m) d = dentry_at fs m i"
    using cur_name [OF assms, of fs i m]
    by (cases d) (simp add: load_dentry_def dentry_at_def NAMESIZE_def add.commute)
  have "strncpy_bytes (arr (?name @ replicate (33 - length ?name) 0)) 32
      = strncpy_bytes (ptr (dentry_addr fs i) m) 32"
    using strncpy_bytes_cstr [OF cstr_name, of fs m i 32] dentry_name_facts(2) [of fs m i]
    by (simp add: name_field)
  then have "strncpy_array (fileName d) (arr (?name @ replicate (33 - length ?name) 0)) NAMESIZE
      = strncpy_array (fileName d) (ptr (dentry_addr fs i) m) NAMESIZE"
    using assms by (simp add: strncpy_array_bytes NAMESIZE_def)
  then show "load_dentry m (dentry_addr fs i) (arr (?name @ replicate (33 - length ?name) 0)) d
      = dentry_at fs m i"
    using cur_name [OF assms, of fs i m]
    by (cases d) (simp add: load_dentry_def dentry_at_def NAMESIZE_def add.commute)
qed

lemma read_dentry_loop_find:
  assumes "cstr fname xs" and "length (fileName d) = 33"
  shows "length cur = 33 \<Longrightarrow> j \<le> unat num \<Longrightarrow>
    read_dentry_loop fs m fname (word_of_nat (length xs)) cur num (word_of_nat j) d =
    Some (case find (\<lambda>i. dentry_name fs m (word_of_nat i) = xs) [j..<unat num] of
        None \<Rightarrow> (- 1, d) | Some i \<Rightarrow> (0, dentry_at fs m (word_of_nat i)))"
proof (induction "unat num - j" arbitrary: j cur)
  case 0
  then have "j = unat num" by simp
  then show ?case by (subst read_dentry_loop.simps) simp
next
  case (Suc k)
  let ?i = "word_of_nat j :: u32"
  let ?name = "dentry_name fs m ?i"
  define cur' where "cur' = ?name @ replicate (33 - length ?name) 0"
  note cstr_cur = cstr_name [of fs m ?i, folded cur'_def]
  have j: "?i < num" "[j..<unat num] = j # [Suc j..<unat num]"
    using Suc.hyps(2) unat_lt32 [of num] by (auto simp: word_less_unat upt_conv_Cons)
  have len: "strlen (arr cur') = Some (word_of_nat (length ?name))" by (rule strlen_cstr [OF cstr_cur])
  have "(word_of_nat (length xs) :: u32) = word_of_nat (length ?name) \<longleftrightarrow> length xs = length ?name"
    using cstr_length [OF assms(1)] dentry_name_facts(2) [of fs m ?i] word_of_nat_inj32 by force
  then have found: "((word_of_nat (length xs) :: u32) = word_of_nat (length ?name) \<and>
      strncmp fname (arr cur') (word_of_nat (length xs)) = 0) \<longleftrightarrow> ?name = xs"
    using strncmp_eq_0 [OF assms(1) cstr_cur, of "word_of_nat (length xs)"] cstr_length [OF assms(1)]
    by auto
  have IH: "read_dentry_loop fs m fname (word_of_nat (length xs)) cur' num (?i + 1) d =
      Some (case find (\<lambda>i. dentry_name fs m (word_of_nat i) = xs) [Suc j..<unat num] of
        None \<Rightarrow> (- 1, d) | Some i \<Rightarrow> (0, dentry_at fs m (word_of_nat i)))"
    using Suc.hyps(1) [of "Suc j" cur'] Suc.hyps(2) dentry_name_facts(2) [of fs m ?i]
    by (simp add: add.commute cur'_def)
  have "read_dentry_loop fs m fname (word_of_nat (length xs)) cur num ?i d =
      (if ?name = xs then Some (0, dentry_at fs m ?i)
       else read_dentry_loop fs m fname (word_of_nat (length xs)) cur' num (?i + 1) d)"
    using j(1) load_dentry_at(2) [OF assms(2), of m fs ?i, folded cur'_def]
    by (subst read_dentry_loop.simps)
      (simp add: Let_def dentry_addr_def [symmetric] cur_name [OF Suc.prems(1), of fs ?i m, folded cur'_def] len found)
  then show ?case using IH by (simp add: j(2))
qed

lemma find_map_index:
  "(case find (\<lambda>i. P (f i)) xs of None \<Rightarrow> a | Some i \<Rightarrow> g (f i)) = (case find P (map f xs) of None \<Rightarrow> a | Some x \<Rightarrow> g x)"
  by (induction xs) auto

end
