(* ===== verification/File_Ops.thy ===== *)
theory File_Ops
  imports Filesys Pcb
begin

text \<open>
  The operations that the file descriptor layer calls for files and for the directory: the
  first half of \<^verbatim>\<open>student-distrib/filesys.c\<close>. They work on the machine: the file position
  is in the control block of the running process, the buffer in its memory, and all users of
  the directory share the position \<open>directoryLoc\<close>. An index outside the eight file
  descriptors is \<open>None\<close>; the callers check it.
\<close>

unbundle bit_operations_syntax

section \<open>Definitions\<close>

definition file_open :: "kernel \<Rightarrow> i32 \<times> kernel" where
  "file_open k = (0, k)"

definition file_close :: "kernel \<Rightarrow> i32 \<times> kernel" where
  "file_close k = (0, k)"

definition file_write :: "kernel \<Rightarrow> i32 \<times> kernel" where
  "file_write k = (- 1, k)"

definition directory_open :: "kernel \<Rightarrow> i32 \<times> kernel" where
  "directory_open k = (0, k)"

definition directory_close :: "kernel \<Rightarrow> i32 \<times> kernel" where
  "directory_close k = (0, k)"

definition directory_write :: "kernel \<Rightarrow> i32 \<times> kernel" where
  "directory_write k = (- 1, k)"

definition file_read :: "i32 \<Rightarrow> addr \<Rightarrow> i32 \<Rightarrow> kernel \<Rightarrow> (i32 \<times> kernel) option" where
  "file_read fd buf nbytes k =
     (let pcb = get_pcb_ptr k in do {
        f \<leftarrow> arr_get (fds (pcbs k pcb)) (unat fd);
        let offset = file_position f;
            inode_number = inode f;
            (m, temp) = read_data (FILESYSLOC k) (vmem k) inode_number offset buf nbytes;
            k = set_vmem m k;
            k = upd_pcb pcb (upd_fd (unat fd) (\<lambda>f. f\<lparr>file_position := file_position f + temp\<rparr>)) k
        in Some (temp, k) })"

text \<open>The local \<^verbatim>\<open>dentry\<close> is not initialised; it is only used once the entry has been read.\<close>

definition local_dentry :: dentry_t where
  "local_dentry = \<lparr>fileName = replicate 33 0, filetype = 0, inodeNumber = 0\<rparr>"

definition directory_read :: "i32 \<Rightarrow> addr \<Rightarrow> i32 \<Rightarrow> kernel \<Rightarrow> (i32 \<times> kernel) option" where
  "directory_read fd buf nbytes k =
     (let (r, dentry) = read_dentry_by_index (FILESYSLOC k) (vmem k) (directoryLoc k) local_dentry
      in if r = 0 then
           (let k = set_vmem (memset (vmem k) buf 0 33) k in do {
              len \<leftarrow> strlen (arr (fileName dentry));
              let k = set_vmem (strncpy (vmem k) buf (\<lambda>_. arr (fileName dentry)) len) k;
                  k = k\<lparr>directoryLoc := directoryLoc k + 1\<rparr>
              in Some (len, k) })
         else Some (0, k\<lparr>directoryLoc := 0\<rparr>))"

section \<open>What a file descriptor still has to deliver\<close>

text \<open>
  The abstraction of an open file: the bytes from its position to its end. The position is an
  \<^verbatim>\<open>int32_t\<close> that \<^verbatim>\<open>read_data\<close> takes as unsigned.
\<close>

definition fd_of :: "kernel \<Rightarrow> i32 \<Rightarrow> file_desc_t" where
  "fd_of k fd = fds (pcbs k (get_pcb_ptr k)) ! unat fd"

definition fd_contents :: "kernel \<Rightarrow> i32 \<Rightarrow> u8 list" where
  "fd_contents k fd = file_contents (FILESYSLOC k) (vmem k) (inode (fd_of k fd))"

definition remaining :: "kernel \<Rightarrow> i32 \<Rightarrow> u8 list" where
  "remaining k fd = drop (unat (file_position (fd_of k fd))) (fd_contents k fd)"

text \<open>
  What a read needs: the descriptor is one of the process and open on a good file, at a
  position inside it; the whole buffer is in the user page; the image is in memory that the
  kernel sees at its own address, outside the frame of the process.
\<close>

definition image_visible :: "kernel \<Rightarrow> bool" where
  "image_visible k \<longleftrightarrow>
     (\<forall>x. in_range (FILESYSLOC k) (image_size (FILESYSLOC k) (vmem k)) x \<longrightarrow>
       map_option fst (translate k x) = Some x \<and> \<not> x - user_frame k < 0x400000)"

definition fd_ready :: "kernel \<Rightarrow> i32 \<Rightarrow> bool" where
  "fd_ready k fd \<longleftrightarrow> unat fd < length (fds (pcbs k (get_pcb_ptr k))) \<and> user_mapped k \<and> image_visible k \<and>
     file_ok (FILESYSLOC k) (vmem k) (inode (fd_of k fd)) \<and>
     unat (file_position (fd_of k fd)) \<le> length (fd_contents k fd)"

definition user_buffer :: "kernel \<Rightarrow> addr \<Rightarrow> nat \<Rightarrow> bool" where
  "user_buffer k buf n \<longleftrightarrow> n \<le> 0x400000 \<and> (\<forall>i<n. in_user_page (buf + word_of_nat i)) \<and>
     disjoint_range buf n (FILESYSLOC k) (image_size (FILESYSLOC k) (vmem k))"

lemma upd_pcb_fields [simp]:
  "FILESYSLOC (upd_pcb p f k) = FILESYSLOC k" "mem (upd_pcb p f k) = mem k" "r_esp (upd_pcb p f k) = r_esp k"
  "pcbs (upd_pcb p f k) = (pcbs k)(p := f (pcbs k p))" "translate (upd_pcb p f k) v = translate k v"
  "page_directory (upd_pcb p f k) = page_directory k" "paging_on (upd_pcb p f k) = paging_on k"
  by (simp_all add: upd_pcb_def translate_def table_at_def Let_def paging_on_def)

lemma set_vmem_more [simp]:
  "FILESYSLOC (set_vmem m k) = FILESYSLOC k" "pcbs (set_vmem m k) = pcbs k" "r_esp (set_vmem m k) = r_esp k"
  "paging_on (set_vmem m k) = paging_on k" "user_mapped (set_vmem m k) = user_mapped k"
  "directoryLoc (set_vmem m k) = directoryLoc k"
  by (simp_all add: set_vmem_def paging_on_def user_mapped_def)

lemma vmem_upd_pcb [simp]: "vmem (upd_pcb p f k) = vmem k"
  by (simp add: vmem_def fun_eq_iff split: option.splits)

lemma get_pcb_ptr_esp [simp]:
  "get_pcb_ptr (upd_pcb p f k) = get_pcb_ptr k" "get_pcb_ptr (set_vmem m k) = get_pcb_ptr k"
  by (simp_all add: get_pcb_ptr_def)

lemma same_image_file_contents:
  assumes "same_image fs m m'" and "file_ok fs m i"
  shows "image_size fs m' = image_size fs m" "file_size fs m' i = file_size fs m i"
    "file_contents fs m' i = file_contents fs m i" "file_ok fs m' i"
proof -
  have size: "image_size fs m < 4294967296" and i: "i < total_inodes fs m" using assms(2) by (auto simp: file_ok_def)
  have big: "4096 * (unat i + 1) + 4 \<le> image_size fs m"
  proof -
    have arith: "4096 * (a + 1) + 4 \<le> 4096 * (1 + t + u)" if "a < t" for a t u :: nat
      using that unfolding distrib_left mult_1_right by linarith
    show ?thesis unfolding image_size_def using i by (intro arith) (simp add: word_less_unat)
  qed
  have counts: "total_inodes fs m' = total_inodes fs m" "total_blocks fs m' = total_blocks fs m"
    using same_image_load32 [OF assms(1), of 4] same_image_load32 [OF assms(1), of 8] size big
    by (simp_all add: total_inodes_def total_blocks_def)
  then show sz: "image_size fs m' = image_size fs m" by (simp add: image_size_def)
  show fsz: "file_size fs m' i = file_size fs m i"
    using same_image_load32 [OF assms(1) big size] by (simp add: file_size_def inode_addr_offset)
  have data: "data_addr fs m' = data_addr fs m" by (simp add: data_addr_def counts)
  have blk: "block_no fs m' i (p div 4096) = block_no fs m i (p div 4096)"
    if "p < unat (file_size fs m i)" for p using same_image_file(1) [OF assms that] .
  show "file_contents fs m' i = file_contents fs m i"
    unfolding file_contents_def fsz
    by (rule map_cong) (auto simp: file_byte_def data blk same_image_file(2) [OF assms])
  have "block_no fs m' i b < total_blocks fs m" if "b < 1023" "b * 4096 < unat (file_size fs m i)" for b
    using blk [OF that(2)] that assms(2) by (simp add: file_ok_def)
  then show "file_ok fs m' i" using assms(2) by (simp add: file_ok_def sz fsz counts)
qed

lemma vmem_set_buffer:
  assumes "user_mapped k" and "user_buffer k buf n" and "length xs \<le> n"
  shows "bytes (vmem (set_vmem (write_bytes buf xs (vmem k)) k)) buf (length xs) = xs"
proof (rule bytes_eqI)
  fix i
  assume i: "i < length xs"
  then have "in_user_page (buf + word_of_nat i)" using assms(2,3) by (simp add: user_buffer_def)
  then show "vmem (set_vmem (write_bytes buf xs (vmem k)) k) (buf + word_of_nat i) = xs ! i"
    using i assms by (simp add: vmem_set_user user_buffer_def write_bytes_inside)
qed simp

lemma same_image_set_vmem:
  assumes "image_visible k" and "same_image (FILESYSLOC k) (vmem k) m"
  shows "same_image (FILESYSLOC k) (vmem k) (vmem (set_vmem m k))"
  using assms unfolding same_image_def image_visible_def by (simp add: vmem_set_identity)

text \<open>A write to a user buffer keeps everything that the file system sees.\<close>

lemma user_write_keeps_files:
  assumes "image_visible k" and "user_buffer k buf n" and "length xs \<le> n"
    and "file_ok (FILESYSLOC k) (vmem k) i"
  defines "m' \<equiv> vmem (set_vmem (write_bytes buf xs (vmem k)) k)"
  shows "file_contents (FILESYSLOC k) m' i = file_contents (FILESYSLOC k) (vmem k) i"
    and "file_ok (FILESYSLOC k) m' i" and "image_size (FILESYSLOC k) m' = image_size (FILESYSLOC k) (vmem k)"
proof -
  have "same_image (FILESYSLOC k) (vmem k) (write_bytes buf xs (vmem k))"
    using assms(2,3) by (intro same_image_write [of _ n]) (auto simp: user_buffer_def)
  then have "same_image (FILESYSLOC k) (vmem k) m'"
    unfolding m'_def using assms(1) by (rule same_image_set_vmem [rotated])
  from same_image_file_contents [OF this assms(4)]
  show "file_contents (FILESYSLOC k) m' i = file_contents (FILESYSLOC k) (vmem k) i"
    and "file_ok (FILESYSLOC k) m' i" and "image_size (FILESYSLOC k) m' = image_size (FILESYSLOC k) (vmem k)"
    by auto
qed

lemma file_read_write:
  assumes "fd_ready k fd" and "user_buffer k buf (unat n)" and "unat n \<le> 0x400000"
  defines "xs \<equiv> take (unat n) (remaining k fd)"
  shows "file_read fd buf n k = Some (word_of_nat (length xs),
    upd_pcb (get_pcb_ptr k) (upd_fd (unat fd) (\<lambda>f. f\<lparr>file_position := file_position f + word_of_nat (length xs)\<rparr>))
      (set_vmem (write_bytes buf xs (vmem k)) k))"
proof -
  let ?f = "fd_of k fd"
  have size: "length (fd_contents k fd) \<le> 1023 * 4096"
    using assms(1) by (simp add: fd_ready_def file_ok_def fd_contents_def file_contents_def)
  have "read_data (FILESYSLOC k) (vmem k) (inode ?f) (file_position ?f) buf n
      = (write_bytes buf xs (vmem k), word_of_nat (length xs))"
    using read_data_write [of "FILESYSLOC k" "vmem k" "inode ?f" buf n "file_position ?f"] assms size
    by (simp add: fd_ready_def user_buffer_def remaining_def fd_contents_def)
  then show ?thesis
    using assms(1) by (simp add: file_read_def Let_def fd_ready_def arr_get_def fd_of_def)
qed

lemma image_visible_cong:
  "translate k' = translate k \<Longrightarrow> page_directory k' = page_directory k \<Longrightarrow> FILESYSLOC k' = FILESYSLOC k \<Longrightarrow>
   image_size (FILESYSLOC k) (vmem k') = image_size (FILESYSLOC k) (vmem k) \<Longrightarrow>
   image_visible k' = image_visible k"
  by (simp add: image_visible_def user_frame_def)

text \<open>One read: the bytes it delivers and what is left, with everything still in place.\<close>

lemma file_read_step:
  assumes ready: "fd_ready k fd" and buf: "user_buffer k buf N" and n: "unat n \<le> N"
  obtains k' where
    "file_read fd buf n k = Some (word_of_nat (length (take (unat n) (remaining k fd))), k')"
    "bytes (vmem k') buf (length (take (unat n) (remaining k fd))) = take (unat n) (remaining k fd)"
    "remaining k' fd = drop (unat n) (remaining k fd)" "fd_ready k' fd" "user_buffer k' buf N"
proof -
  define xs where "xs = take (unat n) (remaining k fd)"
  define m where "m = write_bytes buf xs (vmem k)"
  define k' where "k' = upd_pcb (get_pcb_ptr k)
    (upd_fd (unat fd) (\<lambda>f. f\<lparr>file_position := file_position f + word_of_nat (length xs)\<rparr>)) (set_vmem m k)"
  have N: "N \<le> 0x400000" using buf by (simp add: user_buffer_def)
  have buf_n: "user_buffer k buf (unat n)"
    using buf n by (auto simp: user_buffer_def disjoint_range_def)
  have read: "file_read fd buf n k = Some (word_of_nat (length xs), k')"
    using file_read_write [OF ready buf_n] n N by (simp add: k'_def m_def xs_def)
  have len: "length xs \<le> unat n" by (simp add: xs_def)
  have ok: "file_ok (FILESYSLOC k) (vmem k) (inode (fd_of k fd))" and vis: "image_visible k"
    and fd: "unat fd < length (fds (pcbs k (get_pcb_ptr k)))" and um: "user_mapped k"
    and pos: "unat (file_position (fd_of k fd)) \<le> length (fd_contents k fd)"
    using ready by (simp_all add: fd_ready_def)
  note keeps = user_write_keeps_files [OF vis buf_n len ok, folded m_def]
  have vm: "vmem k' = vmem (set_vmem m k)" by (simp add: k'_def)
  have fd': "fd_of k' fd = (fd_of k fd)\<lparr>file_position := file_position (fd_of k fd) + word_of_nat (length xs)\<rparr>"
    using fd by (simp add: fd_of_def k'_def upd_fd_def)
  have contents: "fd_contents k' fd = fd_contents k fd"
    unfolding fd_contents_def vm fd' using keeps(1) by (simp add: k'_def)
  have size: "length (fd_contents k fd) \<le> 1023 * 4096"
    using ok by (simp add: file_ok_def fd_contents_def file_contents_def)
  have len_xs: "length xs = min (unat n) (length (fd_contents k fd) - unat (file_position (fd_of k fd)))"
    by (simp add: xs_def remaining_def)
  then have pos': "unat (file_position (fd_of k' fd)) = unat (file_position (fd_of k fd)) + length xs"
    unfolding fd' using pos size by (simp add: unat_add32)
  have "bytes (vmem k') buf (length xs) = xs"
    unfolding vm m_def using vmem_set_buffer [OF um buf_n len] .
  moreover have "remaining k' fd = drop (unat n) (remaining k fd)"
  proof -
    have "remaining k' fd = drop (length xs) (remaining k fd)"
      unfolding remaining_def contents pos' by (simp add: add.commute)
    also have "\<dots> = drop (unat n) (remaining k fd)" by (simp add: xs_def min_def)
    finally show ?thesis .
  qed
  moreover have "fd_ready k' fd"
  proof -
    have "image_visible k' = image_visible k"
      unfolding image_visible_def user_frame_def using keeps(3) vm by (simp add: k'_def)
    moreover have "user_mapped k'" using um by (simp add: user_mapped_def k'_def)
    moreover have "file_ok (FILESYSLOC k') (vmem k') (inode (fd_of k' fd))"
      unfolding vm fd' using keeps(2) by (simp add: k'_def)
    moreover have "unat fd < length (fds (pcbs k' (get_pcb_ptr k')))" using fd by (simp add: k'_def upd_fd_def)
    moreover have "unat (file_position (fd_of k' fd)) \<le> length (fd_contents k' fd)"
      unfolding contents pos' using pos len_xs by simp
    ultimately show ?thesis using vis by (simp add: fd_ready_def)
  qed
  moreover have "user_buffer k' buf N"
    using buf keeps(3) unfolding user_buffer_def vm by (simp add: k'_def)
  ultimately show ?thesis using read that unfolding xs_def by blast
qed

section \<open>Looking up a name\<close>

lemma read_dentry_by_name_result:
  assumes "cstr fname xs" and "length (fileName d) = 33" and "length stack = 33"
  shows "read_dentry_by_name fs m stack fname d = Some
    (case find (\<lambda>i. dentry_name fs m (word_of_nat i) = xs) [0..<unat (load32 m fs)] of
       None \<Rightarrow> (- 1, d) | Some i \<Rightarrow> (0, dentry_at fs m (word_of_nat i)))"
proof (cases "NAMESIZE <s word_of_nat (length xs)")
  case True
  have "32 < length xs"
  proof (rule ccontr)
    assume "\<not> 32 < length xs"
    then have "sint (word_of_nat (length xs) :: u32) = int (length xs)" by (simp add: sint_small)
    then show False using True \<open>\<not> 32 < length xs\<close> by (simp add: NAMESIZE_def word_sless_alt)
  qed
  then have "dentry_name fs m i \<noteq> xs" for i using dentry_name_facts(2) [of fs m i] by auto
  then have "find (\<lambda>i. dentry_name fs m (word_of_nat i) = xs) [0..<unat (load32 m fs)] = None"
    by (simp add: find_None_iff)
  then show ?thesis
    using strlen_cstr [OF assms(1)] True by (simp add: read_dentry_by_name_def Let_def)
next
  case False
  then show ?thesis
    using read_dentry_loop_find [OF assms, of 0 "load32 m fs" fs m] strlen_cstr [OF assms(1)]
    by (simp add: read_dentry_by_name_def Let_def)
qed

section \<open>Reading the directory\<close>

text \<open>The entries fit into the boot block; reading them needs them, and a buffer of 33 bytes.\<close>

definition directory_ok :: "addr \<Rightarrow> mem \<Rightarrow> bool" where
  "directory_ok fs m \<longleftrightarrow> unat (load32 m fs) \<le> 63 \<and> image_size fs m < 4294967296"

definition directory_ready :: "kernel \<Rightarrow> addr \<Rightarrow> bool" where
  "directory_ready k buf \<longleftrightarrow> user_mapped k \<and> image_visible k \<and>
     directory_ok (FILESYSLOC k) (vmem k) \<and> user_buffer k buf 33"

definition names :: "kernel \<Rightarrow> u8 list list" where
  "names k = map (\<lambda>i. dentry_name (FILESYSLOC k) (vmem k) (word_of_nat i)) [0..<unat (load32 (vmem k) (FILESYSLOC k))]"

lemma same_image_directory:
  assumes "same_image fs m m'" and "directory_ok fs m"
  shows "load32 m' fs = load32 m fs" "image_size fs m' = image_size fs m" "directory_ok fs m'"
    and "\<And>i. i < unat (load32 m fs) \<Longrightarrow> dentry_name fs m' (word_of_nat i) = dentry_name fs m (word_of_nat i)"
proof -
  have size: "image_size fs m < 4294967296" and n: "unat (load32 m fs) \<le> 63"
    using assms(2) by (simp_all add: directory_ok_def)
  have big: "4096 \<le> image_size fs m" by (simp add: image_size_def)
  show count: "load32 m' fs = load32 m fs"
    using same_image_load32 [OF assms(1), of 0] size big by simp
  have "total_inodes fs m' = total_inodes fs m" "total_blocks fs m' = total_blocks fs m"
    using same_image_load32 [OF assms(1), of 4] same_image_load32 [OF assms(1), of 8] size big
    by (simp_all add: total_inodes_def total_blocks_def)
  then show sz: "image_size fs m' = image_size fs m" by (simp add: image_size_def)
  show "directory_ok fs m'" using assms(2) by (simp add: directory_ok_def count sz)
  fix i
  assume "i < unat (load32 m fs)"
  then have i: "i < 63" using n by linarith
  have "bytes m' (dentry_addr fs (word_of_nat i)) 32 = bytes m (dentry_addr fs (word_of_nat i)) 32"
  proof (rule bytes_cong)
    fix j :: nat
    assume "j < 32"
    then have "(i + 1) * 64 + j < image_size fs m" using i big unfolding add_mult_distrib mult_1 by linarith
    moreover have "dentry_addr fs (word_of_nat i) + word_of_nat j = fs + word_of_nat ((i + 1) * 64 + j)"
      by (simp add: dentry_addr_def DENTRYSIZE_def algebra_simps)
    ultimately show "m' (dentry_addr fs (word_of_nat i) + word_of_nat j) = m (dentry_addr fs (word_of_nat i) + word_of_nat j)"
      using same_image_nth [OF assms(1) _ size] by metis
  qed
  then show "dentry_name fs m' (word_of_nat i) = dentry_name fs m (word_of_nat i)" by (simp add: dentry_name_def)
qed

text \<open>Writing to the buffer keeps what the next read needs.\<close>

lemma directory_ready_write:
  assumes "directory_ready k buf" and "length xs \<le> 33"
  defines "k' \<equiv> set_vmem (write_bytes buf xs (vmem k)) k"
  shows "directory_ready k' buf" "names k' = names k" "load32 (vmem k') (FILESYSLOC k) = load32 (vmem k) (FILESYSLOC k)"
    and "i < 33 \<Longrightarrow> vmem k' (buf + word_of_nat i) = write_bytes buf xs (vmem k) (buf + word_of_nat i)"
proof -
  have um: "user_mapped k" and vis: "image_visible k" and dir: "directory_ok (FILESYSLOC k) (vmem k)"
    and buf: "user_buffer k buf 33" using assms(1) by (simp_all add: directory_ready_def)
  have "same_image (FILESYSLOC k) (vmem k) (write_bytes buf xs (vmem k))"
    using buf assms(2) by (intro same_image_write [of _ 33]) (auto simp: user_buffer_def)
  then have "same_image (FILESYSLOC k) (vmem k) (vmem k')"
    unfolding k'_def using vis by (rule same_image_set_vmem [rotated])
  note dir' = same_image_directory [OF this dir]
  show "names k' = names k" unfolding names_def using dir' by (auto simp: k'_def)
  show "load32 (vmem k') (FILESYSLOC k) = load32 (vmem k) (FILESYSLOC k)" by (rule dir')
  have "image_visible k'"
    using vis dir'(2) by (simp add: image_visible_def user_frame_def k'_def)
  moreover have "user_buffer k' buf 33" using buf dir'(2) by (simp add: user_buffer_def k'_def)
  ultimately show "directory_ready k' buf" using um dir'(3) by (simp add: directory_ready_def k'_def)
  show "i < 33 \<Longrightarrow> vmem k' (buf + word_of_nat i) = write_bytes buf xs (vmem k) (buf + word_of_nat i)"
    unfolding k'_def using um buf by (intro vmem_set_user) (auto simp: user_buffer_def)
qed

lemma directoryLoc_update [simp]:
  "directory_ready (k\<lparr>directoryLoc := x\<rparr>) buf = directory_ready k buf" "names (k\<lparr>directoryLoc := x\<rparr>) = names k"
  by (simp_all add: directory_ready_def user_mapped_def paging_on_def image_visible_def user_frame_def
      user_buffer_def names_def)

text \<open>The whole effect of a read of the directory: the buffer is cleared and gets the name.\<close>

definition name_stored :: "addr \<Rightarrow> u8 list \<Rightarrow> kernel \<Rightarrow> kernel" where
  "name_stored buf name k =
     (let k1 = set_vmem (write_bytes buf (replicate 33 0) (vmem k)) k
      in (set_vmem (write_bytes buf name (vmem k1)) k1)\<lparr>directoryLoc := directoryLoc k + 1\<rparr>)"

lemma directory_read_state:
  assumes loc: "unat (directoryLoc k) < length (names k)"
  defines "name \<equiv> names k ! unat (directoryLoc k)"
  shows "directory_read fd buf n k = Some (word_of_nat (length name), name_stored buf name k)"
proof -
  let ?fs = "FILESYSLOC k"
  let ?i = "directoryLoc k"
  let ?name = "dentry_name ?fs (vmem k) ?i"
  have name: "name = ?name" using loc by (simp add: names_def name_def)
  have num: "?i < load32 (vmem k) ?fs" using loc by (simp add: names_def word_less_unat)
  have len: "length ?name \<le> 32" by (rule dentry_name_facts)
  let ?file = "?name @ replicate (33 - length ?name) 0"
  have entry: "read_dentry_by_index ?fs (vmem k) ?i local_dentry = (0, dentry_at ?fs (vmem k) ?i)"
    using num load_dentry_at(1) [of local_dentry "vmem k" ?fs ?i]
    by (auto simp: read_dentry_by_index_def Let_def dentry_addr_def [symmetric] local_dentry_def)
  have strlen: "strlen (arr ?file) = Some (word_of_nat (length ?name))" by (rule strlen_cstr [OF cstr_name])
  have bytes: "strncpy_bytes (arr ?file) (length ?name) = ?name"
    using strncpy_bytes_cstr [OF cstr_name, of ?fs "vmem k" ?i "length ?name"] by simp
  have "strncpy m buf (\<lambda>_. arr ?file) (word_of_nat (length ?name)) = write_bytes buf ?name m" for m
    using strncpy_write [where src = "\<lambda>_. arr ?file" and m = m and dest = buf and n = "word_of_nat (length ?name)"] len bytes
    by simp
  then show ?thesis
    by (simp add: directory_read_def entry Let_def memset_write dentry_at_def strlen name_stored_def name)
qed

lemma directory_read_entry:
  assumes ready: "directory_ready k buf" and loc: "unat (directoryLoc k) < length (names k)"
  obtains k' where
    "directory_read fd buf n k = Some (word_of_nat (length (names k ! unat (directoryLoc k))), k')"
    "bytes (vmem k') buf 33 = names k ! unat (directoryLoc k) @ replicate (33 - length (names k ! unat (directoryLoc k))) 0"
    "directory_ready k' buf" "names k' = names k" "unat (directoryLoc k') = Suc (unat (directoryLoc k))"
    "k' = name_stored buf (names k ! unat (directoryLoc k)) k"
proof -
  let ?i = "directoryLoc k"
  let ?name = "names k ! unat ?i"
  have name: "?name = dentry_name (FILESYSLOC k) (vmem k) ?i" using loc by (simp add: names_def)
  have num: "?i < load32 (vmem k) (FILESYSLOC k)" using loc by (simp add: names_def word_less_unat)
  have len: "length ?name \<le> 32" unfolding name by (rule dentry_name_facts)
  let ?file = "?name @ replicate (33 - length ?name) 0"
  define k1 where "k1 = set_vmem (write_bytes buf (replicate 33 0) (vmem k)) k"
  note step1 = directory_ready_write [OF ready, of "replicate 33 0", folded k1_def]
  define k2 where "k2 = set_vmem (write_bytes buf ?name (vmem k1)) k1"
  have ready1: "directory_ready k1 buf" by (rule step1) simp
  note step2 = directory_ready_write [OF ready1, of ?name, folded k2_def]
  have stored: "name_stored buf ?name k = k2\<lparr>directoryLoc := ?i + 1\<rparr>" by (simp add: name_stored_def k2_def k1_def Let_def)
  have "bytes (vmem k2) buf 33 = ?file"
  proof (rule bytes_eqI)
    show "length ?file = 33" using len by simp
    fix i :: nat
    assume i: "i < 33"
    show "vmem k2 (buf + word_of_nat i) = ?file ! i"
      using step2(4) [OF _ i] step1(4) [OF _ i] len i
      by (simp add: write_bytes_apply nth_append)
  qed
  moreover have "unat (?i + 1) = Suc (unat ?i)" using num by (rule unat_Suc32)
  moreover have "directory_ready k2 buf" "names k2 = names k" using step2(1,2) step1(2) len by simp_all
  ultimately show ?thesis
    by (intro that [of "k2\<lparr>directoryLoc := ?i + 1\<rparr>"]) (simp_all add: directory_read_state [OF loc] stored)
qed

lemma directory_read_end:
  "length (names k) \<le> unat (directoryLoc k) \<Longrightarrow> directory_read fd buf n k = Some (0, k\<lparr>directoryLoc := 0\<rparr>)"
  by (auto simp: directory_read_def read_dentry_by_index_def Let_def names_def word_le_unat)

section \<open>A sample machine\<close>

text \<open>
  A machine with paging on, process 0 mapped and a file system image of three blocks at 5 MB:
  the directory has the entries \<^verbatim>\<open>.\<close> (the directory itself) and \<^verbatim>\<open>frame0\<close>, a file of five bytes.
\<close>

definition sample_mem :: mem where
  "sample_mem = (\<lambda>_. 0)(0x500000 := 2, 0x500004 := 1, 0x500008 := 1,
     0x500040 := 0x2E, 0x500060 := 1,
     0x500080 := 0x66, 0x500081 := 0x72, 0x500082 := 0x61, 0x500083 := 0x6D, 0x500084 := 0x65, 0x500085 := 0x30,
     0x5000A0 := 2,
     0x501000 := 5,
     0x502000 := 0x48, 0x502001 := 0x65, 0x502002 := 0x6C, 0x502003 := 0x6C, 0x502004 := 0x6F)"

definition sample_kernel :: kernel where
  "sample_kernel = (page_remap 0x8000000 0x800000 (paging_init some_kernel))
     \<lparr>mem := sample_mem, FILESYSLOC := 0x500000, r_esp := 0x7FFF00\<rparr>"

lemma sample_fields [simp]:
  "FILESYSLOC sample_kernel = 0x500000" "mem sample_kernel = sample_mem"
  "get_pcb_ptr sample_kernel = 0x7FE000" "pcbs sample_kernel p = some_pcb"
  by (simp_all add: sample_kernel_def get_pcb_ptr_def PCB_PTR_MASK_def page_remap_def paging_init_def
      Let_def flush_tlb_def init_pages_eq some_kernel_def boot_kernel_def)

lemma sample_mapped: "user_mapped sample_kernel" "user_frame sample_kernel = 0x800000"
proof -
  have dir: "page_directory sample_kernel 32 = 0x800000 OR 0x87"
    by (simp add: sample_kernel_def)
  moreover have "paging_on sample_kernel"
    using paging_init_on [of some_kernel] by (simp add: sample_kernel_def paging_on_def)
  ultimately show "user_mapped sample_kernel"
    unfolding user_mapped_def by (intro conjI exI [of _ "0x800000"]) simp_all
  show "user_frame sample_kernel = 0x800000" unfolding user_frame_def dir by code_simp
qed

lemma sample_translate:
  assumes "0x400000 \<le> unat v" and "unat v < 0x800000"
  shows "translate sample_kernel v = Some (v, False)"
proof -
  have "unat (v div 0x400000) \<noteq> unat (32 :: u32)" using assms(2) by (simp add: unat_div_distrib)
  then have "v div 0x400000 \<noteq> 0x8000000 div 0x400000" by auto
  then have "translate (page_remap 0x8000000 0x800000 (paging_init some_kernel)) v = translate (paging_init some_kernel) v"
    by (rule translate_page_remap_other)
  also have "\<dots> = Some (v, False)" using translate_init_high [OF assms(1)] assms(2) by simp
  finally show ?thesis
    by (simp add: sample_kernel_def)
qed

lemma sample_vmem: "0x400000 \<le> unat v \<Longrightarrow> unat v < 0x800000 \<Longrightarrow> vmem sample_kernel v = sample_mem v"
  by (simp add: vmem_def sample_translate)

lemma sample_load32:
  "0x400000 \<le> unat v \<Longrightarrow> unat v < 0x7FFFFC \<Longrightarrow> load32 (vmem sample_kernel) v = load32 sample_mem v"
proof -
  assume v: "0x400000 \<le> unat v" "unat v < 0x7FFFFC"
  have "unat (v + j) = unat v + unat j" if "unat j < 4" for j using v that by (subst unat_add32) simp_all
  then show ?thesis using v by (simp add: load32_def sample_vmem)
qed

lemma sample_image:
  "total_inodes 0x500000 (vmem sample_kernel) = 1" "total_blocks 0x500000 (vmem sample_kernel) = 1"
  "image_size 0x500000 (vmem sample_kernel) = 0x3000" "file_size 0x500000 (vmem sample_kernel) 0 = 5"
  "block_no 0x500000 (vmem sample_kernel) 0 0 = 0"
  by (simp_all add: total_inodes_def total_blocks_def image_size_def file_size_def inode_addr_def block_no_def
      BLOCK_SIZE_def sample_load32) (simp_all add: load32_def sample_mem_def)

lemma sample_file_ok: "file_ok 0x500000 (vmem sample_kernel) 0"
proof -
  have "b = 0" if "b * 4096 < (5 :: nat)" for b using that by (cases b) auto
  then have "block_no 0x500000 (vmem sample_kernel) 0 b = 0" if "b * 4096 < 5" for b
    using that sample_image(5) by metis
  then show ?thesis using sample_image by (simp add: file_ok_def)
qed

lemma sample_contents: "file_contents 0x500000 (vmem sample_kernel) 0 = [0x48, 0x65, 0x6C, 0x6C, 0x6F]"
proof -
  have "[0..<5] = [0, 1, 2, 3, 4 :: nat]" by code_simp
  then show ?thesis
    by (simp add: file_contents_def sample_image file_byte_def data_addr_def BLOCK_SIZE_def sample_vmem)
      (simp add: sample_mem_def)
qed

lemma sample_visible: "image_visible sample_kernel"
  unfolding image_visible_def
proof (intro allI impI)
  fix x
  assume "in_range (FILESYSLOC sample_kernel) (image_size (FILESYSLOC sample_kernel) (vmem sample_kernel)) x"
  then have "unat (x - 0x500000) < 0x3000" by (simp add: sample_image in_range_def)
  then obtain i where i: "i < 0x3000" "x = 0x500000 + word_of_nat i" using range_addr by blast
  then have "unat x = 0x500000 + i" by (simp add: unat_add32)
  then show "map_option fst (translate sample_kernel x) = Some x \<and> \<not> x - user_frame sample_kernel < 0x400000"
    using i(1) by (simp add: sample_translate sample_mapped word_less_unat unat_sub_if')
qed

lemma sample_fd_ready: "fd_ready sample_kernel 2"
  using sample_mapped sample_visible sample_file_ok
  by (simp add: fd_ready_def fd_of_def some_pcb_def)

lemma sample_buffer: "user_buffer sample_kernel 0x8050000 100"
proof -
  have "in_user_page (0x8050000 + word_of_nat i)" if "i < 100" for i
    using that by (simp add: in_user_page_def unat_add32)
  then show ?thesis by (simp add: user_buffer_def sample_image disjoint_range_def)
qed

lemma sample_dentry_name:
  assumes "i < 2"
  shows "dentry_name 0x500000 (vmem sample_kernel) (word_of_nat i) = [ascii ''.'', ascii ''frame0''] ! i"
proof -
  have "bytes (vmem sample_kernel) (dentry_addr 0x500000 (word_of_nat i)) 32
      = bytes sample_mem (dentry_addr 0x500000 (word_of_nat i)) 32"
  proof (rule bytes_cong)
    fix j :: nat
    assume j: "j < 32"
    have "dentry_addr 0x500000 (word_of_nat i) + word_of_nat j = 0x500000 + word_of_nat ((i + 1) * 64 + j)"
      by (simp add: dentry_addr_def DENTRYSIZE_def algebra_simps)
    moreover have "unat (0x500000 + word_of_nat ((i + 1) * 64 + j) :: addr) = 0x500000 + ((i + 1) * 64 + j)"
      using assms j by (subst unat_add32) (simp_all del: of_nat_add of_nat_mult)
    ultimately show "vmem sample_kernel (dentry_addr 0x500000 (word_of_nat i) + word_of_nat j)
        = sample_mem (dentry_addr 0x500000 (word_of_nat i) + word_of_nat j)"
      using assms j by (simp only:) (rule sample_vmem, simp_all)
  qed
  then have eq: "dentry_name 0x500000 (vmem sample_kernel) (word_of_nat i) = dentry_name 0x500000 sample_mem (word_of_nat i)"
    by (simp add: dentry_name_def)
  have "dentry_name 0x500000 sample_mem 0 = ascii ''.''" "dentry_name 0x500000 sample_mem 1 = ascii ''frame0''"
    by code_simp+
  then show ?thesis using assms unfolding eq by (cases i) simp_all
qed

lemma sample_directory: "load32 (vmem sample_kernel) 0x500000 = 2" "names sample_kernel = [ascii ''.'', ascii ''frame0'']"
proof -
  show n: "load32 (vmem sample_kernel) 0x500000 = 2"
    by (simp add: sample_load32) (simp add: load32_def sample_mem_def)
  have "[0..<2] = [0, 1 :: nat]" by code_simp
  then show "names sample_kernel = [ascii ''.'', ascii ''frame0'']"
    using sample_dentry_name [of 0] sample_dentry_name [of 1] by (simp add: names_def n)
qed

lemma sample_directory_ready: "directory_ready sample_kernel 0x8050000"
proof -
  have "user_buffer sample_kernel 0x8050000 33"
    using sample_buffer by (auto simp: user_buffer_def disjoint_range_def sample_image)
  then show ?thesis
    using sample_mapped sample_visible by (simp add: directory_ready_def directory_ok_def sample_directory sample_image)
qed

section \<open>Properties\<close>

text \<open>A user program that reads into one buffer again and again and keeps what it got.\<close>

fun read_chunks :: "i32 \<Rightarrow> addr \<Rightarrow> u32 list \<Rightarrow> kernel \<Rightarrow> (u8 list \<times> kernel) option" where
  "read_chunks fd buf [] k = Some ([], k)"
| "read_chunks fd buf (n # ns) k = do {
     (r, k) \<leftarrow> file_read fd buf n k;
     (xs, k') \<leftarrow> read_chunks fd buf ns k;
     Some (bytes (vmem k) buf (unat r) @ xs, k') }"

text \<open>
  C10. Reading a file in pieces of any sizes delivers the file: the pieces put together are the
  contents from the position on, cut at the total of the sizes or at the end of the file, and
  the descriptor is left exactly behind them. Every read returns.
\<close>

theorem file_read_sequence:
  assumes "fd_ready k fd" and "user_buffer k buf N" and "\<forall>n\<in>set ns. unat n \<le> N"
  shows "\<exists>k'. read_chunks fd buf ns k = Some (take (sum_list (map unat ns)) (remaining k fd), k') \<and>
    remaining k' fd = drop (sum_list (map unat ns)) (remaining k fd) \<and> fd_ready k' fd"
  using assms
proof (induction ns arbitrary: k)
  case Nil
  then show ?case by simp
next
  case (Cons n ns)
  let ?xs = "take (unat n) (remaining k fd)"
  have n: "unat n \<le> N" "\<forall>n\<in>set ns. unat n \<le> N" using Cons.prems(3) by simp_all
  obtain k1 where k1: "file_read fd buf n k = Some (word_of_nat (length ?xs), k1)"
    "bytes (vmem k1) buf (length ?xs) = ?xs" "remaining k1 fd = drop (unat n) (remaining k fd)"
    "fd_ready k1 fd" "user_buffer k1 buf N"
    using file_read_step [OF Cons.prems(1,2) n(1)] .
  obtain k2 where k2: "read_chunks fd buf ns k1 = Some (take (sum_list (map unat ns)) (remaining k1 fd), k2)"
    "remaining k2 fd = drop (sum_list (map unat ns)) (remaining k1 fd)" "fd_ready k2 fd"
    using Cons.IH [OF k1(4,5) n(2)] by blast
  have "length ?xs < 4294967296" using unat_lt32 [of n] by simp
  then have "unat (word_of_nat (length ?xs) :: u32) = length ?xs" by (rule unat_of_nat32)
  then have "read_chunks fd buf (n # ns) k = Some (?xs @ take (sum_list (map unat ns)) (remaining k1 fd), k2)"
    by (simp only: read_chunks.simps k1(1) k2(1) bind.bind_lunit prod.case k1(2))
  then show ?case
    using k2(2,3) unfolding k1(3) list.map sum_list.Cons
    by (intro exI [of _ k2]) (simp add: take_add add.commute)
qed

lemma file_read_sequence_witness:
  "\<exists>k'. read_chunks 2 0x8050000 [2, 100] sample_kernel = Some ([0x48, 0x65, 0x6C, 0x6C, 0x6F], k') \<and>
    remaining k' 2 = []"
proof -
  have "remaining sample_kernel 2 = [0x48, 0x65, 0x6C, 0x6C, 0x6F]"
    by (simp add: remaining_def fd_contents_def fd_of_def some_pcb_def sample_contents)
  then show ?thesis
    using file_read_sequence [OF sample_fd_ready sample_buffer, of "[2, 100]"] by auto
qed

text \<open>
  C1. \<^verbatim>\<open>read_data\<close> on any file, for every offset and length whose sum does not wrap at 32 bits and
  every buffer outside the image: it returns, the number of bytes is what is left of the file or
  what was asked for, whichever is less, these bytes of the file are in the buffer whatever blocks
  they come from, and no other byte of the memory changed.
\<close>

theorem read_data_correct:
  assumes "file_ok fs m i" and "disjoint_range buf (unat len) fs (image_size fs m)"
    and "unat off + unat len < 4294967296"
  defines "m' \<equiv> fst (read_data fs m i off buf len)" and "r \<equiv> snd (read_data fs m i off buf len)"
  shows "unat r = min (unat len) (unat (file_size fs m i) - unat off) \<and>
    bytes m' buf (unat r) = take (unat len) (drop (unat off) (file_contents fs m i)) \<and>
    (\<forall>x. \<not> in_range buf (unat r) x \<longrightarrow> m' x = m x)"
proof -
  let ?xs = "take (unat len) (drop (unat off) (file_contents fs m i))"
  have len: "length ?xs = min (unat len) (unat (file_size fs m i) - unat off)" by (simp add: file_contents_def)
  then have small: "length ?xs < 4294967296" using unat_lt32 [of len] by simp
  have eq: "m' = write_bytes buf ?xs m" "r = word_of_nat (length ?xs)"
    using read_data_write [OF assms(1-3)] by (simp_all add: m'_def r_def)
  have r: "unat r = length ?xs" unfolding eq(2) using small by (rule unat_of_nat32)
  show ?thesis
    unfolding r eq(1) using len small bytes_write_bytes [of ?xs buf m]
    by (auto simp: write_bytes_outside)
qed

lemma read_data_correct_witness:
  "bytes (fst (read_data 0x500000 (vmem sample_kernel) 0 1 0x8050000 3)) 0x8050000 3 = [0x65, 0x6C, 0x6C]"
proof -
  have "disjoint_range 0x8050000 (unat (3 :: u32)) 0x500000 (image_size 0x500000 (vmem sample_kernel))"
    by (simp add: sample_image disjoint_range_def)
  from read_data_correct [OF sample_file_ok this, of 1] show ?thesis
    by (auto simp: sample_image sample_contents)
qed

text \<open>
  \<^verbatim>\<open>read_data\<close> refuses an inode number that the image does not have: it returns -1 and
  changes nothing; so does a read that starts in a block with an invalid number.
\<close>

lemma read_data_refuses:
  assumes "i \<ge> total_inodes fs m \<or>
    off < file_size fs m i \<and> block_no fs m i (unat off div 4096) \<ge> total_blocks fs m"
  shows "read_data fs m i off buf len = (m, - 1)"
proof (cases "i \<ge> total_inodes fs m")
  case True
  then show ?thesis by (simp add: read_data_eq)
next
  case False
  have "(off div BLOCK_SIZE + 1) * INODE_BYTE_OFFSET = word_of_nat (4 * (unat off div 4096 + 1))"
  proof -
    have "unat (off div BLOCK_SIZE) = unat off div 4096" by (simp add: BLOCK_SIZE_def unat_div_distrib)
    then have "off div BLOCK_SIZE = word_of_nat (unat off div 4096)" by (metis unat_eq_nat32 unat_lt32)
    then show ?thesis by (simp add: INODE_BYTE_OFFSET_def algebra_simps)
  qed
  moreover have "\<not> file_size fs m i \<le> off" using False assms by auto
  ultimately show ?thesis using False assms by (simp add: read_data_eq Let_def block_no_def)
qed

text \<open>
  C20. \<^verbatim>\<open>read_dentry_by_name\<close> returns for every name, of any length: it finds the first entry
  whose name is exactly the given one and copies it, or returns -1 and leaves the entry alone.
  What was on the stack and in the entry before plays no role.
\<close>

theorem read_dentry_by_name_finds:
  assumes "cstr fname xs" and "length (fileName d) = 33" and "length stack = 33"
  shows "read_dentry_by_name fs m stack fname d = Some
    (case find (\<lambda>i. dentry_name fs m (word_of_nat i) = xs) [0..<unat (load32 m fs)] of
       None \<Rightarrow> (- 1, d) | Some i \<Rightarrow> (0, dentry_at fs m (word_of_nat i)))"
  using assms by (rule read_dentry_by_name_result)

lemma read_dentry_by_name_finds_witness:
  "read_dentry_by_name 0x500000 (vmem sample_kernel) (replicate 33 7) (arr (ascii ''frame0'' @ [0])) local_dentry
     = Some (0, dentry_at 0x500000 (vmem sample_kernel) 1)"
proof -
  define x y where "x = ascii ''.''" and "y = ascii ''frame0''"
  have "x \<noteq> y" by (simp add: x_def y_def ascii_def)
  have str: "cstr (arr (y @ [0])) y" by (rule cstr_arr) (simp_all add: ascii_def y_def)
  have "[0..<2] = [0, 1 :: nat]" by code_simp
  then have "find (\<lambda>i. dentry_name 0x500000 (vmem sample_kernel) (word_of_nat i) = y)
      [0..<unat (load32 (vmem sample_kernel) 0x500000)] = Some 1"
    using sample_dentry_name [of 0] sample_dentry_name [of 1] \<open>x \<noteq> y\<close>
    unfolding x_def [symmetric] y_def [symmetric] by (auto simp: sample_directory)
  then show ?thesis
    using read_dentry_by_name_finds [OF str, of local_dentry "replicate 33 7" "0x500000" "vmem sample_kernel"]
    unfolding y_def [symmetric] by (simp add: local_dentry_def)
qed

text \<open>A user program that reads the directory as often as the list of sizes is long.\<close>

fun list_directory :: "i32 \<Rightarrow> addr \<Rightarrow> i32 list \<Rightarrow> kernel \<Rightarrow> (u8 list list \<times> kernel) option" where
  "list_directory fd buf [] k = Some ([], k)"
| "list_directory fd buf (n # ns) k = do {
     (r, k) \<leftarrow> directory_read fd buf n k;
     (xs, k') \<leftarrow> list_directory fd buf ns k;
     Some (bytes (vmem k) buf (unat r) # xs, k') }"

lemma list_directory_from:
  "directory_ready k buf \<Longrightarrow> unat (directoryLoc k) + length ns = length (names k) \<Longrightarrow>
   \<exists>k'. list_directory fd buf ns k = Some (drop (unat (directoryLoc k)) (names k), k') \<and>
     directory_ready k' buf \<and> names k' = names k \<and> unat (directoryLoc k') = length (names k)"
proof (induction ns arbitrary: k)
  case Nil
  then show ?case by simp
next
  case (Cons n ns)
  let ?l = "unat (directoryLoc k)"
  have l: "?l < length (names k)" using Cons.prems(2) by simp
  obtain k1 where k1: "directory_read fd buf n k = Some (word_of_nat (length (names k ! ?l)), k1)"
    "bytes (vmem k1) buf 33 = names k ! ?l @ replicate (33 - length (names k ! ?l)) 0"
    "directory_ready k1 buf" "names k1 = names k" "unat (directoryLoc k1) = Suc ?l"
    using directory_read_entry [OF Cons.prems(1) l] .
  obtain k2 where k2: "list_directory fd buf ns k1 = Some (drop (unat (directoryLoc k1)) (names k1), k2)"
    "directory_ready k2 buf" "names k2 = names k1" "unat (directoryLoc k2) = length (names k1)"
    using Cons.IH [OF k1(3)] Cons.prems(2) k1(4,5) by auto
  have len: "length (names k ! ?l) \<le> 32" using l dentry_name_facts(2) by (simp add: names_def)
  then have r: "unat (word_of_nat (length (names k ! ?l)) :: u32) = length (names k ! ?l)" by simp
  have "bytes (vmem k1) buf (length (names k ! ?l)) = take (length (names k ! ?l)) (bytes (vmem k1) buf 33)"
    using len by (intro nth_equalityI) auto
  then have got: "bytes (vmem k1) buf (length (names k ! ?l)) = names k ! ?l" unfolding k1(2) by simp
  have "list_directory fd buf (n # ns) k = Some (names k ! ?l # drop (Suc ?l) (names k), k2)"
    by (simp only: list_directory.simps k1(1) k2(1) bind.bind_lunit prod.case r got k1(4,5))
  then show ?case
    using k2 k1(4) l by (auto simp: Cons_nth_drop_Suc)
qed

text \<open>
  C33. Listing the directory: from the start, as many reads as there are entries deliver their
  names in order and each name exactly once; the next read returns 0 and the position is back
  at the start, so the directory can be listed again.
\<close>

theorem directory_listing:
  assumes "directory_ready k buf" and "directoryLoc k = 0" and "length ns = length (names k)"
  shows "\<exists>k'. list_directory fd buf ns k = Some (names k, k') \<and>
    directory_read fd buf n k' = Some (0, k'\<lparr>directoryLoc := 0\<rparr>) \<and>
    directory_ready (k'\<lparr>directoryLoc := 0\<rparr>) buf \<and> names (k'\<lparr>directoryLoc := 0\<rparr>) = names k"
proof -
  obtain k' where k': "list_directory fd buf ns k = Some (drop (unat (directoryLoc k)) (names k), k')"
    "directory_ready k' buf" "names k' = names k" "unat (directoryLoc k') = length (names k)"
    using list_directory_from [OF assms(1), of ns fd] assms(2,3) by auto
  moreover have "directory_read fd buf n k' = Some (0, k'\<lparr>directoryLoc := 0\<rparr>)"
    using k' by (intro directory_read_end) simp
  ultimately show ?thesis using assms(2) by auto
qed

lemma directory_listing_witness:
  "\<exists>k'. list_directory 2 0x8050000 [32, 32] sample_kernel = Some ([ascii ''.'', ascii ''frame0''], k')"
proof -
  have "directoryLoc sample_kernel = 0"
    by (simp add: sample_kernel_def page_remap_def paging_init_def Let_def flush_tlb_def init_pages_eq
        some_kernel_def boot_kernel_def)
  from directory_listing [OF sample_directory_ready this, of "[32, 32]" 2 32] show ?thesis
    by (auto simp: sample_directory)
qed

end
