(* ===== verification/Terminal_Io.thy ===== *)
theory Terminal_Io
  imports Keyboard File_Ops
begin

text \<open>
  The terminal as a device of the file descriptor layer: \<^verbatim>\<open>terminal_read\<close>, \<^verbatim>\<open>terminal_write\<close>,
  \<^verbatim>\<open>terminal_open\<close> and \<^verbatim>\<open>terminal_close\<close> of \<^verbatim>\<open>student-distrib/terminal.c\<close>. A read that spins
  until \<^verbatim>\<open>ENTER\<close> is pressed is \<open>None\<close>.
\<close>

unbundle bit_operations_syntax

section \<open>Definitions\<close>

text \<open>A store through a pointer of the caller.\<close>

definition store_user :: "addr \<Rightarrow> u8 \<Rightarrow> kernel \<Rightarrow> kernel" where
  "store_user a c k = set_vmem ((vmem k)(a := c)) k"

function terminal_read_loop :: "addr \<Rightarrow> i32 \<Rightarrow> u8 \<Rightarrow> kernel \<Rightarrow> (u8 \<times> kernel) option" where
  "terminal_read_loop buffer num_bytes i k =
     (if ucast i <s num_bytes - 1 \<and> i < KEY_BUFFER_SIZE then do {
        c \<leftarrow> key_buf_get i k;
        terminal_read_loop buffer num_bytes (i + 1) (store_user (buffer + ucast i) c k) }
      else Some (i, k))"
  by pat_completeness auto
termination
proof (relation "measure (\<lambda>(buffer, num_bytes, i, k). 128 - unat i)", goal_cases)
  case 1
  show ?case by simp
next
  case (2 buffer num_bytes i k)
  then have "unat i < 127" by (simp add: KEY_BUFFER_SIZE_def word_less_unat)
  then show ?case by (simp add: unat_word_ariths)
qed

declare terminal_read_loop.simps [simp del]

definition terminal_read :: "addr \<Rightarrow> i32 \<Rightarrow> kernel \<Rightarrow> (i32 \<times> kernel) option" where
  "terminal_read buf num_bytes k =
     (let t = term_ptr (pcbs k (get_pcb_ptr k)) in
      if eflag (terminal k t) = 0 then None
      else do {
        (i, k) \<leftarrow> terminal_read_loop buf num_bytes 0 (upd_terminal t (eflag_update (\<lambda>_. 0)) k);
        k \<leftarrow> clear_buf k;
        Some (ucast i, k) })"

text \<open>
  The whole buffer is the format of \<^verbatim>\<open>printf\<close>, whatever \<^verbatim>\<open>num_bytes\<close> says; \<open>stack\<close> is what the
  conversions in it take for arguments.
\<close>

definition terminal_write :: "(nat \<Rightarrow> u32) \<Rightarrow> addr \<Rightarrow> i32 \<Rightarrow> kernel \<Rightarrow> (i32 \<times> kernel) option" where
  "terminal_write stack buf num_bytes k =
     (let k = cli k in do {
        (idx, k) \<leftarrow> (if cur_term k = cur_active_terminal k then printf (vptr buf) stack k
                    else printf_terminal_active (vptr buf) stack k);
        Some (idx, sti k) })"

definition terminal_open :: "kernel \<Rightarrow> i32 \<times> kernel" where
  "terminal_open k = (0, k)"

definition terminal_close :: "kernel \<Rightarrow> i32 \<times> kernel" where
  "terminal_close k = (0, k)"

section \<open>Reading a line\<close>

text \<open>Stores into a user buffer one after the other are one store of the bytes.\<close>

lemma user_translate:
  assumes "user_mapped k" and "in_user_page v"
  shows "translate k v = Some (user_frame k + (v - 0x8000000), True)"
proof -
  obtain f where f: "page_directory k 32 = f OR 0x87" "f mod 0x400000 = 0" and on: "paging_on k"
    using assms(1) unfolding user_mapped_def by (elim conjE exE) (rule that)
  let ?o = "v - 0x8000000"
  have o: "unat ?o < 0x400000" using assms(2) by (simp add: in_user_page_def)
  have v: "0x8000000 + ?o = v" by simp
  note page = user_page_addr [OF o, unfolded v]
  have "page_directory k (v div 0x400000) = f OR 0x87" by (simp only: page f)
  from translate_4m [OF on this f(2)] have "translate k v = Some (f + ?o, True)" by (simp only: page(2))
  moreover have "user_frame k = f" using frame_4m [OF f(2)] f(1) by (simp add: user_frame_def)
  ultimately show ?thesis by simp
qed

lemma user_page_present: "user_mapped k \<Longrightarrow> bit (page_directory k 32) 0"
  unfolding user_mapped_def using flags_4m by (elim conjE exE) simp

lemma set_vmem_again:
  assumes "user_mapped k" and "in_user_page v"
  shows "set_vmem ((vmem (set_vmem m k))(v := c)) (set_vmem m k) = set_vmem (m(v := c)) k"
proof -
  have um: "user_mapped (set_vmem m k)" using assms(1) by simp
  have "mem (set_vmem ((vmem (set_vmem m k))(v := c)) (set_vmem m k)) p = mem (set_vmem (m(v := c)) k) p" for p
  proof (cases "p - user_frame k < 0x400000")
    case True
    have "in_user_page (0x8000000 + (p - user_frame k))"
      using True by (simp add: in_user_page_def word_less_unat)
    then show ?thesis
      using True user_page_present [OF assms(1)] vmem_set_user [OF assms(1)]
      by (simp add: mem_set_vmem user_frame_def)
  next
    case False
    show ?thesis
    proof (cases "map_option fst (translate k p) = Some p")
      case True
      then have "p \<noteq> v"
        using False user_translate [OF assms] assms(2) by (auto simp: in_user_page_def word_less_unat)
      then show ?thesis using True False vmem_set_identity [OF True False] by (simp add: mem_set_vmem user_frame_def)
    next
      case other: False
      then show ?thesis using False by (simp add: mem_set_vmem user_frame_def)
    qed
  qed
  then show ?thesis by (simp add: set_vmem_def fun_eq_iff)
qed

lemma set_vmem_id: "set_vmem (vmem k) k = k" if "user_mapped k" for k
proof -
  have "(if bit (page_directory k 32) 0 \<and> p - user_frame k < 0x400000 then vmem k (0x8000000 + (p - user_frame k))
      else if map_option fst (translate k p) = Some p then vmem k p else mem k p) = mem k p" for p
  proof (cases "p - user_frame k < 0x400000")
    case True
    then have "in_user_page (0x8000000 + (p - user_frame k))" by (simp add: in_user_page_def word_less_unat)
    from user_translate [OF that this] show ?thesis using True user_page_present [OF that] by (simp add: vmem_def)
  next
    case False
    then show ?thesis by (auto simp: vmem_def)
  qed
  then show ?thesis unfolding set_vmem_def by simp
qed

text \<open>A store in memory leaves the variables of the kernel.\<close>

lemma set_vmem_variables [simp]:
  "key_buffer (set_vmem m k) = key_buffer k" "key_buffer_idx (set_vmem m k) = key_buffer_idx k"
  "terminal (set_vmem m k) = terminal k" "keyboard_enabled (set_vmem m k) = keyboard_enabled k"
  "cur_term (set_vmem m k) = cur_term k" "cur_active_terminal (set_vmem m k) = cur_active_terminal k"
  "pid_array (set_vmem m k) = pid_array k" "tss (set_vmem m k) = tss k" "r_ebp (set_vmem m k) = r_ebp k"
  "iflag (set_vmem m k) = iflag k"
  by (simp_all add: set_vmem_def)

lemma key_buf_get_set_vmem [simp]: "key_buf_get i (set_vmem m k) = key_buf_get i k"
  by (simp add: key_buf_get_def set_vmem_def)

lemma small_cast: "n \<le> 127 \<Longrightarrow> ucast (word_of_nat n :: u8) = (word_of_nat n :: u32)"
  by (simp add: word_unat_eq_iff unsigned_ucast_eq take_bit_eq_mod unat_of_nat)

lemma terminal_read_loop_run:
  assumes "user_mapped k" and "\<And>i. i < n \<Longrightarrow> in_user_page (buf + word_of_nat i)"
    and "n = min 127 (unat nb - 1)" and "unat nb < 0x80000000" and "0 < unat nb"
    and "key_buffer k = Some t" and "length (t_key_buffer (terminal k t)) = 128"
  defines "xs \<equiv> t_key_buffer (terminal k t)"
  shows "j \<le> n \<Longrightarrow> terminal_read_loop buf nb (word_of_nat j) (set_vmem (write_bytes buf (take j xs) (vmem k)) k)
    = Some (word_of_nat n, set_vmem (write_bytes buf (take n xs) (vmem k)) k)"
proof (induction "n - j" arbitrary: j)
  case 0
  have n: "n \<le> 127" using assms(3) by simp
  have j: "j = n" using 0 by simp
  have un: "unat (word_of_nat n :: u8) = n" using n by (simp add: unat_of_nat take_bit_eq_mod)
  have "\<not> (ucast (word_of_nat n :: u8) <s nb - 1 \<and> (word_of_nat n :: u8) < KEY_BUFFER_SIZE)"
  proof (cases "n = 127")
    case True
    then show ?thesis by (simp add: KEY_BUFFER_SIZE_def)
  next
    case False
    then have "n = unat nb - 1" using assms(3) by simp
    moreover have "unat (nb - 1) = unat nb - 1" using assms(5) by (simp add: unat_sub word_le_unat)
    ultimately have "nb - 1 = word_of_nat n" using n by (simp add: word_unat_eq_iff)
    then have "nb - 1 = ucast (word_of_nat n :: u8)" by (simp only: small_cast [OF n])
    then show ?thesis by simp
  qed
  then show ?case unfolding j by (subst terminal_read_loop.simps) (simp only: if_False)
next
  case (Suc d)
  have n: "n \<le> 127" using assms(3) by simp
  have j: "j < n" using Suc.hyps(2) by simp
  have uj: "unat (word_of_nat j :: u8) = j" using n j by (simp add: unat_of_nat take_bit_eq_mod)
  have cj: "ucast (word_of_nat j :: u8) = (word_of_nat j :: u32)"
    by (rule small_cast) (use n j in simp)
  have nb: "unat (nb - 1) = unat nb - 1" using assms(5) by (simp add: unat_sub word_le_unat)
  have sj: "sint (word_of_nat j :: u32) = int j" using n j by (subst sint_small) simp_all
  have sn: "sint (nb - 1) = int (unat nb - 1)" using assms(4) nb by (subst sint_small) simp_all
  have "int j < int (unat nb - 1)" using j assms(3) by simp
  then have guard: "ucast (word_of_nat j :: u8) <s nb - 1 \<and> (word_of_nat j :: u8) < KEY_BUFFER_SIZE"
    using n j by (simp only: word_sless_alt cj sj sn) (simp add: KEY_BUFFER_SIZE_def word_less_unat uj)
  let ?k = "set_vmem (write_bytes buf (take j xs) (vmem k)) k"
  have get: "key_buf_get (word_of_nat j) ?k = Some (xs ! j)"
    using assms(6,7) n j by (simp add: key_buf_get_def arr_get_def uj xs_def)
  have "store_user (buf + word_of_nat j) (xs ! j) ?k = set_vmem ((write_bytes buf (take j xs) (vmem k))(buf + word_of_nat j := xs ! j)) k"
    unfolding store_user_def by (rule set_vmem_again [OF assms(1) assms(2) [OF j]])
  also have "\<dots> = set_vmem (write_bytes buf (take (Suc j) xs) (vmem k)) k"
    using assms(7) n j by (subst write_bytes_take_Suc) (simp_all add: xs_def)
  finally have store: "store_user (buf + word_of_nat j) (xs ! j) ?k = set_vmem (write_bytes buf (take (Suc j) xs) (vmem k)) k" .
  have "terminal_read_loop buf nb (word_of_nat j) ?k
      = terminal_read_loop buf nb (word_of_nat j + 1) (set_vmem (write_bytes buf (take (Suc j) xs) (vmem k)) k)"
    using guard get store by (subst terminal_read_loop.simps) (simp add: cj)
  then show ?case using Suc.hyps(1) [of "Suc j"] Suc.hyps(2) j by (simp add: add.commute)
qed

lemma vmem_cong: "mem k' = mem k \<Longrightarrow> translate k' = translate k \<Longrightarrow> vmem k' = vmem k"
  by (simp add: vmem_def fun_eq_iff split: option.splits)

lemma terminal_read_result:
  assumes "keyboard_ok k" and "user_mapped k" and "\<And>i. i < n \<Longrightarrow> in_user_page (buf + word_of_nat i)"
    and "n = min 127 (unat nb - 1)" and "unat nb < 0x80000000" and "0 < unat nb"
    and "eflag (terminal k (term_ptr (pcbs k (get_pcb_ptr k)))) \<noteq> 0"
  shows "\<exists>k'. terminal_read buf nb k = Some (word_of_nat n, k') \<and>
    vmem k' = vmem (set_vmem (write_bytes buf (take n (key_array k)) (vmem k)) k) \<and> typed k' = [] \<and>
    eflag (terminal k' (term_ptr (pcbs k (get_pcb_ptr k)))) = 0 \<and> get_pcb_ptr k' = get_pcb_ptr k \<and> pcbs k' = pcbs k \<and>
    (\<exists>ts. k' = (set_vmem (write_bytes buf (take n (key_array k)) (vmem k)) k)\<lparr>terminal := ts, key_buffer_idx := 0\<rparr> \<and>
      (\<forall>t. \<exists>e b. ts t = (terminal k t)\<lparr>eflag := e, t_key_buffer := b\<rparr>))"
proof -
  let ?t = "term_ptr (pcbs k (get_pcb_ptr k))"
  define k1 where "k1 = upd_terminal ?t (eflag_update (\<lambda>_. 0)) k"
  define k2 where "k2 = set_vmem (write_bytes buf (take n (key_array k)) (vmem k)) k1"
  have buf: "t_key_buffer (terminal k1 t) = t_key_buffer (terminal k t)" for t
    by (simp add: k1_def upd_terminal_def)
  have kb: "key_buffer k1 = Some (key_terminal k)" "length (t_key_buffer (terminal k1 (key_terminal k))) = 128"
    using assms(1) unfolding buf by (auto simp: keyboard_ok_def key_array_def key_terminal_def k1_def upd_terminal_def)
  have vm: "vmem k1 = vmem k" "translate k1 = translate k" "page_directory k1 = page_directory k" "mem k1 = mem k"
    "user_frame k1 = user_frame k"
    by (simp_all add: k1_def upd_terminal_def fun_eq_iff user_frame_def)
  have um: "user_mapped k1" using assms(2) by (simp add: user_mapped_def paging_on_def k1_def upd_terminal_def)
  have n127: "n \<le> 127" using assms(4) by simp
  have xs: "t_key_buffer (terminal k1 (key_terminal k)) = key_array k" using buf by (simp add: key_array_def)
  have loop: "terminal_read_loop buf nb 0 k1 = Some (word_of_nat n, k2)"
    using terminal_read_loop_run [OF um assms(3-6) kb, of 0] by (simp add: k2_def vm xs set_vmem_id [OF um, unfolded vm])
  have kb2: "key_buffer k2 = key_buffer k" "terminal k2 = terminal k1" "key_buffer_idx k2 = key_buffer_idx k"
    "keyboard_enabled k2 = keyboard_enabled k" "screen_x k2 = screen_x k" "screen_y k2 = screen_y k"
    by (simp_all add: k2_def set_vmem_def k1_def upd_terminal_def)
  have "key_array k2 = key_array k" using kb2 buf by (simp add: key_array_def key_terminal_def)
  then have "keyboard_ok k2" using assms(1) by (simp add: keyboard_ok_def kb2 screen_ok_def)
  then obtain t where t: "key_buffer k2 = Some t" "length (t_key_buffer (terminal k2 t)) = 128"
    by (auto simp: keyboard_ok_def key_array_def key_terminal_def)
  define k3 where "k3 = (upd_terminal t (\<lambda>tm. tm\<lparr>t_key_buffer := replicate 127 0 @ drop 127 (t_key_buffer tm)\<rparr>) k2)\<lparr>key_buffer_idx := 0\<rparr>"
  have clear: "clear_buf k2 = Some k3"
    using clear_buf_fold [OF t, of 127] by (simp add: clear_buf_def KEY_BUFFER_SIZE_def k3_def)
  have "terminal_read buf nb k = Some (ucast (word_of_nat n :: u8), k3)"
    using assms(7) loop clear by (simp add: terminal_read_def Let_def k1_def)
  moreover have "vmem k3 = vmem k2" by (simp add: k3_def upd_terminal_def)
  moreover have "vmem k2 = vmem (set_vmem (write_bytes buf (take n (key_array k)) (vmem k)) k)"
  proof -
    have "mem (set_vmem m k1) = mem (set_vmem m k)" for m by (simp add: set_vmem_def vm cong: if_cong)
    moreover have "translate (set_vmem m k1) = translate (set_vmem m k)" for m by (simp add: vm fun_eq_iff)
    ultimately show ?thesis unfolding k2_def vm(1) by (intro vmem_cong) simp_all
  qed
  moreover have "typed k3 = []" by (simp add: k3_def typed_def)
  moreover have "eflag (terminal k3 ?t) = 0" using kb2 by (simp add: k3_def upd_terminal_def k1_def)
  moreover have "get_pcb_ptr k3 = get_pcb_ptr k" "pcbs k3 = pcbs k"
    by (simp_all add: k3_def k2_def k1_def upd_terminal_def get_pcb_ptr_def set_vmem_def)
  moreover have "\<exists>ts. k3 = (set_vmem (write_bytes buf (take n (key_array k)) (vmem k)) k)\<lparr>terminal := ts, key_buffer_idx := 0\<rparr> \<and>
      (\<forall>t. \<exists>e b. ts t = (terminal k t)\<lparr>eflag := e, t_key_buffer := b\<rparr>)"
  proof (intro exI [of _ "terminal k3"] conjI allI)
    have "set_vmem m k1 = (set_vmem m k)\<lparr>terminal := terminal k1\<rparr>" for m
      unfolding set_vmem_def vm by (simp add: k1_def upd_terminal_def)
    then show "k3 = (set_vmem (write_bytes buf (take n (key_array k)) (vmem k)) k)\<lparr>terminal := terminal k3, key_buffer_idx := 0\<rparr>"
      by (simp add: k3_def k2_def upd_terminal_def)
    fix u
    have "\<exists>e b. (terminal k1 u)\<lparr>t_key_buffer := x\<rparr> = (terminal k u)\<lparr>eflag := e, t_key_buffer := b\<rparr>"
      "\<exists>e b. terminal k1 u = (terminal k u)\<lparr>eflag := e, t_key_buffer := b\<rparr>" for x
      by (rule exI [of _ "eflag (terminal k1 u)"], rule exI [of _ x], simp add: k1_def upd_terminal_def)
        (rule exI [of _ "eflag (terminal k1 u)"], rule exI [of _ "t_key_buffer (terminal k u)"], simp add: k1_def upd_terminal_def)
    then show "\<exists>e b. terminal k3 u = (terminal k u)\<lparr>eflag := e, t_key_buffer := b\<rparr>"
      by (cases "u = t") (simp_all add: k3_def upd_terminal_def kb2)
  qed
  ultimately have "terminal_read buf nb k = Some (ucast (word_of_nat n :: u8), k3) \<and>
    vmem k3 = vmem (set_vmem (write_bytes buf (take n (key_array k)) (vmem k)) k) \<and> typed k3 = [] \<and>
    eflag (terminal k3 ?t) = 0 \<and> get_pcb_ptr k3 = get_pcb_ptr k \<and> pcbs k3 = pcbs k \<and>
    (\<exists>ts. k3 = (set_vmem (write_bytes buf (take n (key_array k)) (vmem k)) k)\<lparr>terminal := ts, key_buffer_idx := 0\<rparr> \<and>
      (\<forall>t. \<exists>e b. ts t = (terminal k t)\<lparr>eflag := e, t_key_buffer := b\<rparr>))" by simp
  then show ?thesis unfolding small_cast [OF n127] by blast
qed

lemma press_keys_append: "press_keys (xs @ ys) k = Option.bind (press_keys xs k) (press_keys ys)"
  by (induction xs arbitrary: k) (auto split: bind_splits)

section \<open>Properties\<close>

text \<open>A line that ends with \<^verbatim>\<open>ENTER\<close> in the buffer.\<close>

lemma key_array_line:
  assumes "keyboard_ok k" and "typed k = line @ [0x0A]" and "length line < 127" and "n \<le> 127"
  shows "take n (key_array k) = take n (line @ 0x0A # replicate 126 0)"
proof (rule nth_equalityI)
  have len: "length (key_array k) = 128" "unat (key_buffer_idx k) = length line + 1"
    using assms(1) typed_length [OF assms(1)] assms(2) by (simp_all add: keyboard_ok_def)
  show "length (take n (key_array k)) = length (take n (line @ 0x0A # replicate 126 0))" using len(1) assms(4) by simp
  fix i
  assume "i < length (take n (key_array k))"
  then have i: "i < n" "i < 127" using assms(4) by simp_all
  show "take n (key_array k) ! i = take n (line @ 0x0A # replicate 126 0) ! i"
  proof (cases "i < length line + 1")
    case True
    have "key_array k ! i = typed k ! i" using True len by (simp add: typed_def)
    then show ?thesis using True i assms(2,3) by (simp add: nth_append)
  next
    case False
    then have "key_array k ! i = 0" using assms(1) len(2) i by (simp add: keyboard_ok_def)
    then show ?thesis using False i by (simp add: nth_append nth_Cons')
  qed
qed

text \<open>Keys and then \<^verbatim>\<open>ENTER\<close>, when the program of the terminal on the screen is the one that reads.\<close>

lemma press_line:
  assumes "keyboard_ok k" and "typed k = []" and "13 \<notin> set keys" and "length (fold edit keys []) < 127"
    and "get_pcb_ptr k = get_pcb_ptr_process (scast (apn (terminal k (cur_term k))))"
  shows "\<exists>k'. press_keys (keys @ [13]) k = Some k' \<and> keyboard_ok k' \<and> typed k' = fold edit keys [] @ [0x0A] \<and>
    key_frame k k' \<and> eflag (terminal k' (term_ptr (pcbs k' (get_pcb_ptr k')))) = 1"
proof -
  obtain k0 where k0: "press_keys keys k = Some k0" "keyboard_ok k0" "typed k0 = fold edit keys []" "key_frame k k0"
    using press_keys_edit [OF assms(1,3)] assms(2) by auto
  have idx: "unat (key_buffer_idx k0) < 127" using typed_length [OF k0(2)] k0(3) assms(4) by simp
  obtain k1 where k1: "handle_key_press 13 k0 = Some k1" "keyboard_ok k1" "typed k1 = edit 13 (typed k0)" "key_frame k0 k1"
    "eflag (terminal k1 (term_ptr (pcbs k0 (get_pcb_ptr_process (scast (apn (terminal k0 (cur_term k0)))))))) = 1"
    using key_press [OF k0(2), of 13] idx by auto
  have frame: "key_frame k k1" using k0(4) k1(4) by (rule key_frame_trans)
  then have "get_pcb_ptr k1 = get_pcb_ptr k" "pcbs k1 = pcbs k" by (simp_all add: key_frame_def get_pcb_ptr_def)
  moreover have "get_pcb_ptr_process (scast (apn (terminal k0 (cur_term k0)))) = get_pcb_ptr k" "pcbs k0 = pcbs k"
    using k0(4) assms(5) by (simp_all add: key_frame_def)
  ultimately have "eflag (terminal k1 (term_ptr (pcbs k1 (get_pcb_ptr k1)))) = 1" using k1(5) by simp
  moreover have "press_keys (keys @ [13]) k = Some k1" using k0(1) k1(1) by (simp add: press_keys_append)
  ultimately show ?thesis using k1(2,3) k0(3) frame by (auto simp: edit_def)
qed

text \<open>
  C24. From the keys to the program: keys are typed at an empty line and \<^verbatim>\<open>ENTER\<close> is pressed; then a
  \<^verbatim>\<open>terminal_read\<close> of the program on that terminal returns, and puts into its buffer the edited
  line with its newline, cut at the buffer's size less one (a shorter line is followed by
  zeros); the line is empty again and the next read waits.
\<close>

theorem typed_line_is_read:
  assumes "keyboard_ok k" and "typed k = []" and "13 \<notin> set keys" and "length (fold edit keys []) < 127"
    and "user_mapped k" and "0 < unat nb" and "unat nb < 0x80000000"
    and "\<forall>i<127. in_user_page (buf + word_of_nat i)"
    and "get_pcb_ptr k = get_pcb_ptr_process (scast (apn (terminal k (cur_term k))))"
  shows "\<exists>k1 k2. press_keys (keys @ [13]) k = Some k1 \<and>
    terminal_read buf nb k1 = Some (word_of_nat (min 127 (unat nb - 1)), k2) \<and>
    bytes (vmem k2) buf (min 127 (unat nb - 1)) =
      take (min 127 (unat nb - 1)) (fold edit keys [] @ 0x0A # replicate 126 0) \<and>
    typed k2 = [] \<and> terminal_read buf nb k2 = None"
proof -
  let ?line = "fold edit keys []" and ?n = "min 127 (unat nb - 1)"
  obtain k1 where k1: "press_keys (keys @ [13]) k = Some k1" "keyboard_ok k1" "typed k1 = ?line @ [0x0A]" "key_frame k k1"
    "eflag (terminal k1 (term_ptr (pcbs k1 (get_pcb_ptr k1)))) = 1"
    using press_line [OF assms(1-4,9)] by blast
  then have um: "user_mapped k1" and nonzero: "eflag (terminal k1 (term_ptr (pcbs k1 (get_pcb_ptr k1)))) \<noteq> 0"
    using assms(5) by (simp_all add: key_frame_def)
  have page: "in_user_page (buf + word_of_nat i)" if "i < ?n" for i using that assms(8) by simp
  obtain k2 where k2: "terminal_read buf nb k1 = Some (word_of_nat ?n, k2)"
    "vmem k2 = vmem (set_vmem (write_bytes buf (take ?n (key_array k1)) (vmem k1)) k1)" "typed k2 = []"
    "eflag (terminal k2 (term_ptr (pcbs k1 (get_pcb_ptr k1)))) = 0" "get_pcb_ptr k2 = get_pcb_ptr k1" "pcbs k2 = pcbs k1"
    using terminal_read_result [OF k1(2) um page refl assms(7,6) nonzero] by blast
  have array: "take ?n (key_array k1) = take ?n (?line @ 0x0A # replicate 126 0)"
    by (rule key_array_line [OF k1(2,3) assms(4)]) simp
  have "bytes (vmem k2) buf ?n = take ?n (key_array k1)"
  proof (rule bytes_eqI)
    fix i
    assume i: "i < ?n"
    have "length (take ?n (key_array k1)) = ?n" using k1(2) by (simp add: keyboard_ok_def)
    then have "write_bytes buf (take ?n (key_array k1)) (vmem k1) (buf + word_of_nat i) = take ?n (key_array k1) ! i"
      using i by (subst write_bytes_inside) simp_all
    then show "vmem k2 (buf + word_of_nat i) = take ?n (key_array k1) ! i"
      using k2(2) vmem_set_user [OF um page [OF i]] by simp
  qed (use k1(2) in \<open>simp add: keyboard_ok_def\<close>)
  moreover have "terminal_read buf nb k2 = None" using k2(4-6) by (simp add: terminal_read_def)
  ultimately show ?thesis using k1(1) k2(1,3) array by auto
qed

definition reading_kernel :: kernel where
  "reading_kernel = sample_kernel\<lparr>key_buffer := Some 0\<rparr>"

lemma sample_variables:
  "terminal sample_kernel t = zero_terminal" "keyboard_enabled sample_kernel = 1" "key_buffer_idx sample_kernel = 0"
  "screen_x sample_kernel = 0" "screen_y sample_kernel = 0" "cur_term sample_kernel = 0"
  "cur_active_terminal sample_kernel = 0" "iflag sample_kernel = False"
  by (simp_all add: sample_kernel_def page_remap_def paging_init_def Let_def flush_tlb_def init_pages_eq
      some_kernel_def boot_kernel_def)

lemma reading_kernel_ok: "keyboard_ok reading_kernel" "typed reading_kernel = []" "user_mapped reading_kernel"
  "get_pcb_ptr reading_kernel = get_pcb_ptr_process (scast (apn (terminal reading_kernel (cur_term reading_kernel))))"
proof -
  have "t_key_buffer zero_terminal = replicate 128 0" "apn zero_terminal = 0" by (simp_all add: zero_terminal_def)
  then show "keyboard_ok reading_kernel" "typed reading_kernel = []"
    by (simp_all add: reading_kernel_def keyboard_ok_def key_array_def key_terminal_def typed_def screen_ok_def sample_variables)
  show "user_mapped reading_kernel"
    using sample_mapped(1) by (simp add: reading_kernel_def user_mapped_def paging_on_def)
  have "get_pcb_ptr reading_kernel = get_pcb_ptr sample_kernel" by (simp add: reading_kernel_def get_pcb_ptr_def)
  then show "get_pcb_ptr reading_kernel = get_pcb_ptr_process (scast (apn (terminal reading_kernel (cur_term reading_kernel))))"
    by (simp add: reading_kernel_def sample_variables get_pcb_ptr_process_def \<open>apn zero_terminal = 0\<close>)
qed

lemma typed_line_is_read_witness:
  "\<exists>k1 k2. press_keys [0x6C, 0x73, 13] reading_kernel = Some k1 \<and>
    terminal_read 0x8050000 5 k1 = Some (4, k2) \<and> bytes (vmem k2) 0x8050000 4 = [0x6C, 0x73, 0x0A, 0] \<and>
    typed k2 = [] \<and> terminal_read 0x8050000 5 k2 = None"
proof -
  have page: "\<forall>i<127. in_user_page (0x8050000 + word_of_nat i)"
    by (simp add: in_user_page_def unat_add32)
  have line: "edit 0x73 (edit 0x6C []) = [0x6C, 0x73]" by code_simp
  show ?thesis
    using typed_line_is_read [OF reading_kernel_ok(1,2) _ _ reading_kernel_ok(3) _ _ page reading_kernel_ok(4),
        of "[0x6C, 0x73]" 5]
    by (simp add: line)
qed

text \<open>
  A program on the terminal that the user sees writes: the string in its buffer, up to the
  NUL, appears on the screen, whatever byte count the program passed; the result is the length
  of the string, and interrupts are on again.
\<close>

lemma terminal_write_prints:
  assumes "screen_ok k" and "cur_term k = cur_active_terminal k"
    and "cstr (vptr buf k) xs" and "backed_outside (in_range VIDEO 4000) k buf (length xs + 1)" and "37 \<notin> set xs"
  shows "\<exists>k'. terminal_write stack buf nbytes k = Some (word_of_nat (length xs), sti k') \<and>
    fore_console k' = fold con_putc xs (fore_console k) \<and> screen_ok k' \<and> screen_step (cli k) k'"
proof -
  have text0: "concat (map (piece_chars \<circ> Plain) ys) = ys" "format_text (map Plain ys) stack strs n = ys" for ys strs n
    by (induction ys arbitrary: n) simp_all
  have "vmem (cli k) = vmem k" "translate (cli k) v = translate k v" for v by (simp_all add: cli_def)
  then have "cstr (vptr buf (cli k)) xs" "backed_outside (in_range VIDEO 4000) (cli k) buf (length xs + 1)"
    using assms(3,4) by (simp_all add: vptr_def backed_outside_def)
  then have "shown screen_step (vptr buf) (cli k) xs" by (rule shown_fore)
  then have "shown screen_step (vptr buf) (cli k) (format_chars (map Plain xs))"
    by (simp add: format_chars_def text0)
  moreover have "list_all plain_ok (map Plain xs)"
    using assms(5) cstr_no_nul [OF assms(3)] by (auto simp: list_all_iff)
  moreover have "strings_shown screen_step (map Plain ys) stack (\<lambda>_. []) n (cli k)" for ys n
    by (induction ys arbitrary: n) simp_all
  moreover have "screen_ok (cli k)" using assms(1) by (simp add: screen_ok_def cli_def)
  ultimately obtain k' where "printf (vptr buf) stack (cli k) = Some (word_of_nat (length xs), k')"
    "fore_console k' = fold con_putc xs (fore_console (cli k))" "screen_ok k'" "screen_step (cli k) k'"
    using fg.printf [of "cli k" "vptr buf" "map Plain xs" stack "\<lambda>_. []"]
    by (auto simp: printf_def format_chars_def text0)
  moreover have "cur_term (cli k) = cur_active_terminal (cli k)" using assms(2) by (simp add: cli_def)
  moreover have "fore_console (cli k) = fore_console k" by (simp add: fore_console_def cli_def)
  ultimately show ?thesis
    by (auto simp: terminal_write_def Let_def)
qed

end
