(* ===== verification/Rtc.thy ===== *)
theory Rtc
  imports I8259
begin

text \<open>
  The real time clock: \<^verbatim>\<open>student-distrib/rtc.c\<close>. A local variable that the code reads without
  having set it is an argument \<open>uninit\<close>. A loop that spins until an interrupt handler changes a
  variable does not return in a state where it spins, which is \<open>None\<close>.
\<close>

unbundle bit_operations_syntax

section \<open>Definitions\<close>

definition RTC_PORT :: u16 where "RTC_PORT = 0x70"
definition CMOS_PORT :: u16 where "CMOS_PORT = 0x71"
definition RTC_IRQ_LINE :: u32 where "RTC_IRQ_LINE = 8"

definition init_rtc :: "kernel \<Rightarrow> kernel" where
  "init_rtc k =
     (let k = outb 0x0A RTC_PORT k;
          (v, k) = inb CMOS_PORT k; a_old = (ucast v :: u8);
          k = outb 0x0B RTC_PORT k;
          k = outb (ucast a_old OR 0x40) CMOS_PORT k
      in enable_irq RTC_IRQ_LINE k)"

definition rtc_interrupt_handler :: "kernel \<Rightarrow> kernel" where
  "rtc_interrupt_handler k =
     (let k = send_eoi RTC_IRQ_LINE k;
          k = cli k;
          k = fold (\<lambda>i k. k\<lparr>rtc_interrupt_occurred := (rtc_interrupt_occurred k)(i := 1)\<rparr>) [0, 1, 2] k;
          k = outb 0x0C RTC_PORT k;
          (_, k) = inb CMOS_PORT k
      in sti k)"

definition rtc_rate :: "u8 \<Rightarrow> i32 \<Rightarrow> u8" where
  "rtc_rate uninit freq =
     (let rate = uninit;
          rate = (if freq = 1024 then 0x06 else rate);
          rate = (if freq = 512 then 0x07 else rate);
          rate = (if freq = 256 then 0x08 else rate);
          rate = (if freq = 128 then 0x09 else rate);
          rate = (if freq = 64 then 0x0A else rate);
          rate = (if freq = 32 then 0x0B else rate);
          rate = (if freq = 16 then 0x0C else rate);
          rate = (if freq = 8 then 0x0D else rate);
          rate = (if freq = 4 then 0x0E else rate);
          rate = (if freq = 2 then 0x0F else rate)
      in rate)"

definition rtc_set_freq :: "u8 \<Rightarrow> i32 \<Rightarrow> kernel \<Rightarrow> kernel" where
  "rtc_set_freq uninit freq k =
     (let k = outb 0x0A RTC_PORT k; (v, k) = inb CMOS_PORT k; a_old = (ucast v :: u8)
      in if freq = 8192 \<or> freq = 4096 \<or> freq = 2048 then k
         else let rate = rtc_rate uninit freq; k = outb 0x0A RTC_PORT k
              in outb ((0xF0 AND ucast a_old) OR scast rate) CMOS_PORT k)"

definition rtc_open :: "u8 \<Rightarrow> kernel \<Rightarrow> i32 \<times> kernel" where
  "rtc_open uninit k = (0, rtc_set_freq uninit 2 k)"

definition rtc_read :: "kernel \<Rightarrow> (i32 \<times> kernel) option" where
  "rtc_read k =
     (if rtc_interrupt_occurred k (cur_active_terminal k) = 0 then None
      else Some (0, k\<lparr>rtc_interrupt_occurred := (rtc_interrupt_occurred k)(cur_active_terminal k := 0)\<rparr>))"

text \<open>\<open>m\<close> is the memory that the processor sees when it reads the buffer.\<close>

definition rtc_write :: "u8 \<Rightarrow> mem \<Rightarrow> addr \<Rightarrow> i32 \<Rightarrow> kernel \<Rightarrow> i32 \<times> kernel" where
  "rtc_write uninit m buf nbytes k =
     (if nbytes \<noteq> 4 \<or> buf = 0 then (- 1, k)
      else (nbytes, rtc_set_freq uninit (load32 m buf) k))"

definition rtc_close :: "u8 \<Rightarrow> kernel \<Rightarrow> i32 \<times> kernel" where
  "rtc_close uninit k = (0, rtc_set_freq uninit 2 k)"

section \<open>The chip\<close>

text \<open>
  The clock chip: an index that a write to port 0x70 sets, and the registers that port 0x71
  writes. The low four bits \<open>r\<close> of register A select the periodic rate \<open>32768 >> (r - 1)\<close> Hz.
\<close>

record rtc_chip =
  index :: u8
  regs :: "u8 \<Rightarrow> u8"

fun rtc_io :: "io \<Rightarrow> rtc_chip \<Rightarrow> rtc_chip" where
  "rtc_io (Outb v port) c =
     (if port = 0x70 then c\<lparr>index := v AND 0x7F\<rparr>
      else if port = 0x71 then c\<lparr>regs := (regs c)(index c := v)\<rparr> else c)"
| "rtc_io (Outw v port) c = c"
| "rtc_io (Inb port) c = c"

definition rtc_state :: "rtc_chip \<Rightarrow> io list \<Rightarrow> rtc_chip" where
  "rtc_state c0 log = foldr rtc_io log c0"

definition rtc_hz :: "rtc_chip \<Rightarrow> nat" where
  "rtc_hz c = 32768 div 2 ^ (unat (regs c 0x0A AND 0x0F) - 1)"

text \<open>The data port answers with the selected register.\<close>

definition rtc_answers :: "rtc_chip \<Rightarrow> kernel \<Rightarrow> bool" where
  "rtc_answers c0 k \<longleftrightarrow> (\<forall>log. device k log CMOS_PORT = regs (rtc_state c0 log) (index (rtc_state c0 log)))"

section \<open>Lemmas\<close>

lemma rtc_state_Cons [simp]: "rtc_state c0 (a # log) = rtc_io a (rtc_state c0 log)"
  by (simp add: rtc_state_def)

text \<open>What programming a rate leaves in the chip: register A with its high half kept.\<close>

lemma rtc_set_freq_chip:
  assumes "rtc_answers c0 k" and "freq \<noteq> 8192" "freq \<noteq> 4096" "freq \<noteq> 2048"
  defines "c \<equiv> rtc_state c0 (io_log k)"
  shows "rtc_state c0 (io_log (rtc_set_freq uninit freq k)) =
    c\<lparr>index := 0x0A, regs := (regs c)(0x0A := (0xF0 AND regs c 0x0A) OR rtc_rate uninit freq)\<rparr>"
proof -
  have "device k (Outb 0x0A RTC_PORT # io_log k) CMOS_PORT = regs c 0x0A"
    using assms(1) by (simp add: rtc_answers_def RTC_PORT_def c_def)
  moreover have "ucast ((0xF0 AND ucast a) OR scast r :: u32) = (0xF0 AND a) OR r" for a r :: u8
    by (rule bit_word_eqI) (auto simp: bit_simps)
  ultimately show ?thesis
    using assms(2-4)
    by (simp add: rtc_set_freq_def Let_def outb_def inb_def RTC_PORT_def CMOS_PORT_def c_def ucast_ucast_8)
qed

lemma nibbles:
  "((0xF0 AND a) OR r) AND 0x0F = r AND (0x0F :: u8)"
  "((0xF0 AND a) OR r) AND 0xF0 = (a AND 0xF0) OR (r AND (0xF0 :: u8))"
proof -
  have "(0xF0 AND a) AND 0x0F = (0xF0 AND 0x0F) AND a" by (simp only: ac_simps)
  then show "((0xF0 AND a) OR r) AND 0x0F = r AND (0x0F :: u8)" by (simp add: bit.conj_disj_distrib2)
  have "(0xF0 AND a) AND 0xF0 = (0xF0 AND 0xF0) AND a" by (simp only: ac_simps)
  then have "(0xF0 AND a) AND 0xF0 = a AND 0xF0" by (simp add: and.commute)
  then show "((0xF0 AND a) OR r) AND 0xF0 = (a AND 0xF0) OR (r AND (0xF0 :: u8))"
    by (simp only: bit.conj_disj_distrib2)
qed

lemma freq_exponent: "1 \<le> j \<Longrightarrow> j \<le> 10 \<Longrightarrow> (j :: nat) \<in> {1, 2, 3, 4, 5, 6, 7, 8, 9, 10}"
proof -
  assume "1 \<le> j" "j \<le> 10"
  then have "j \<in> set [1..<11]" by simp
  also have "set [1..<11] = {1, 2, 3, 4, 5, 6, 7, 8, 9, 10 :: nat}" by code_simp
  finally show ?thesis .
qed

lemma rtc_rate_nibble:
  assumes "1 \<le> j" and "j \<le> 10"
  shows "(((0xF0 AND a) OR rtc_rate uninit (2 ^ j)) AND 0x0F :: u8) = word_of_nat (16 - j)"
proof -
  have j: "j \<in> {1, 2, 3, 4, 5, 6, 7, 8, 9, 10}"
    using assms by (rule freq_exponent)
  show ?thesis unfolding nibbles using j by (auto simp: rtc_rate_def)
qed

lemma pow2_freq:
  assumes "1 \<le> j" and "j \<le> 10"
  shows "unat (2 ^ j :: u32) = 2 ^ j" and "(2 ^ j :: u32) \<noteq> 8192" "(2 ^ j :: u32) \<noteq> 4096" "(2 ^ j :: u32) \<noteq> 2048"
    and "32768 div 2 ^ (unat (word_of_nat (16 - j) :: u8) - 1) = (2 ^ j :: nat)"
proof -
  have j: "j \<in> {1, 2, 3, 4, 5, 6, 7, 8, 9, 10}"
    using assms by (rule freq_exponent)
  then show "unat (2 ^ j :: u32) = 2 ^ j" and "(2 ^ j :: u32) \<noteq> 8192" "(2 ^ j :: u32) \<noteq> 4096" "(2 ^ j :: u32) \<noteq> 2048"
    and "32768 div 2 ^ (unat (word_of_nat (16 - j) :: u8) - 1) = (2 ^ j :: nat)"
    by auto
qed

text \<open>A machine whose clock answers as the chip does.\<close>

definition some_chip :: rtc_chip where
  "some_chip = \<lparr>index = 0, regs = (\<lambda>_. 0x26)\<rparr>"

definition rtc_kernel :: kernel where
  "rtc_kernel = some_kernel\<lparr>device := \<lambda>log port. regs (rtc_state some_chip log) (index (rtc_state some_chip log))\<rparr>"

lemma rtc_kernel_answers: "rtc_answers some_chip rtc_kernel"
  by (simp add: rtc_answers_def rtc_kernel_def)

section \<open>Properties\<close>

text \<open>
  Writing a power of two from 2 to 1024 to the clock makes the chip interrupt at that
  frequency: the write reports 4 bytes, register A keeps its high half and the other registers
  do not change.
\<close>

lemma rtc_write_frequency:
  fixes uninit :: u8
  assumes "rtc_answers c0 k" and "1 \<le> j" and "j \<le> 10" and "buf \<noteq> 0" and "load32 m buf = 2 ^ j"
  defines "c \<equiv> rtc_state c0 (io_log k)" and "c' \<equiv> rtc_state c0 (io_log (snd (rtc_write uninit m buf 4 k)))"
  shows "fst (rtc_write uninit m buf 4 k) = 4 \<and> rtc_hz c' = unat (load32 m buf) \<and>
    regs c' 0x0A AND 0xF0 = regs c 0x0A AND 0xF0 \<and> (\<forall>r. r \<noteq> 0x0A \<longrightarrow> regs c' r = regs c r)"
proof -
  note pow = pow2_freq [OF assms(2,3)]
  let ?r = "rtc_rate uninit (2 ^ j)"
  have c': "c' = c\<lparr>index := 0x0A, regs := (regs c)(0x0A := (0xF0 AND regs c 0x0A) OR ?r)\<rparr>"
    using rtc_set_freq_chip [OF assms(1) pow(2-4)] assms(4,5) unfolding c'_def c_def by (simp add: rtc_write_def)
  have "?r AND 0xF0 = 0"
  proof -
    have "j \<in> {1, 2, 3, 4, 5, 6, 7, 8, 9, 10}"
      using assms(2,3) by (rule freq_exponent)
    then show ?thesis by (auto simp: rtc_rate_def)
  qed
  then have "((0xF0 AND a) OR ?r) AND 0xF0 = a AND 0xF0" for a
    unfolding nibbles by simp
  moreover have "rtc_hz c' = 2 ^ j"
    using rtc_rate_nibble [OF assms(2,3)] pow(5) by (simp add: rtc_hz_def c')
  ultimately show ?thesis using assms(4,5) pow(1) by (simp add: c' rtc_write_def)
qed

text \<open>
  C38. A clock interrupt lets every terminal read once: \<^verbatim>\<open>rtc_read\<close> returns 0 for whichever
  terminal is scheduled, a second read of that terminal waits for the next interrupt, and the
  other terminals can still read.
\<close>

theorem rtc_read_after_interrupt:
  assumes "cur_active_terminal k < 3"
  shows "\<exists>k'. rtc_read (rtc_interrupt_handler k) = Some (0, k') \<and> rtc_read k' = None \<and>
    (\<forall>t<3. t \<noteq> cur_active_terminal k \<longrightarrow> rtc_read (k'\<lparr>cur_active_terminal := t\<rparr>) \<noteq> None)"
proof -
  have flags: "rtc_interrupt_occurred (rtc_interrupt_handler k) t = 1" if "t < 3" for t
    using term_cases [OF that] by (auto simp: rtc_interrupt_handler_def Let_def outb_def inb_def cli_def sti_def)
  moreover have "cur_active_terminal (rtc_interrupt_handler k) = cur_active_terminal k"
    by (simp add: rtc_interrupt_handler_def Let_def c_simps send_eoi_def)
  ultimately show ?thesis using assms by (simp add: rtc_read_def)
qed

lemma rtc_read_after_interrupt_witness:
  "\<exists>k'. rtc_read (rtc_interrupt_handler some_kernel) = Some (0, k') \<and> rtc_read k' = None"
  using rtc_read_after_interrupt [of some_kernel] by (auto simp: some_kernel_def boot_kernel_def)

end
