(* ===== verification/Syscalls.thy ===== *)
theory Syscalls
  imports Terminal_Io Rtc
begin

text \<open>
  The system calls on file descriptors: \<^verbatim>\<open>sys_open\<close>, \<^verbatim>\<open>sys_read\<close>, \<^verbatim>\<open>sys_write\<close> and
  \<^verbatim>\<open>sys_close\<close> of \<^verbatim>\<open>student-distrib/syscalls.c\<close>, with the tables of operations they dispatch
  on. A local variable or stack word that C code reads without having set it is an argument
  (\<open>uninit\<close>, \<open>stack\<close>).
\<close>

unbundle bit_operations_syntax

section \<open>Definitions\<close>

definition FD_OCCUP :: i32 where "FD_OCCUP = 0"
definition FD_AVAIL :: i32 where "FD_AVAIL = 1"
definition OFFSET_START :: i32 where "OFFSET_START = 0"
definition NUM_MAX_OPEN_FILES :: nat where "NUM_MAX_OPEN_FILES = 8"
definition FILE_TYPE_RTC :: u32 where "FILE_TYPE_RTC = 0"
definition FILE_TYPE_DIR :: u32 where "FILE_TYPE_DIR = 1"
definition FILE_TYPE_FILE :: u32 where "FILE_TYPE_FILE = 2"

definition fops_STDIN :: fops_t where
  "fops_STDIN = \<lparr>fread = Terminal_read, fwrite = Has_error, fopen = Terminal_open, fclose = Terminal_close\<rparr>"

definition fops_STDOUT :: fops_t where
  "fops_STDOUT = \<lparr>fread = Has_error, fwrite = Terminal_write, fopen = Terminal_open, fclose = Terminal_close\<rparr>"

definition fops_rtc :: fops_t where
  "fops_rtc = \<lparr>fread = Rtc_read, fwrite = Rtc_write, fopen = Rtc_open, fclose = Rtc_close\<rparr>"

definition fops_dir :: fops_t where
  "fops_dir = \<lparr>fread = Directory_read, fwrite = Directory_write, fopen = Directory_open, fclose = Directory_close\<rparr>"

definition fops_file :: fops_t where
  "fops_file = \<lparr>fread = File_read, fwrite = File_write, fopen = File_open, fclose = File_close\<rparr>"

definition fops_error :: fops_t where
  "fops_error = \<lparr>fread = Has_error, fwrite = Has_error, fopen = Has_error, fclose = Has_error\<rparr>"

definition has_error :: "kernel \<Rightarrow> i32 \<times> kernel" where
  "has_error k = (- 1, k)"

text \<open>
  The calls through the function pointers of a table. No table has a function of another kind
  in the place of a \<^verbatim>\<open>read\<close>, \<^verbatim>\<open>write\<close> or \<^verbatim>\<open>close\<close>; such a call is \<open>None\<close>.
\<close>

fun call_read :: "fop \<Rightarrow> i32 \<Rightarrow> addr \<Rightarrow> i32 \<Rightarrow> kernel \<Rightarrow> (i32 \<times> kernel) option" where
  "call_read Terminal_read fd buf nbytes k = terminal_read buf nbytes k"
| "call_read Rtc_read fd buf nbytes k = rtc_read k"
| "call_read Directory_read fd buf nbytes k = directory_read fd buf nbytes k"
| "call_read File_read fd buf nbytes k = file_read fd buf nbytes k"
| "call_read Has_error fd buf nbytes k = Some (has_error k)"
| "call_read _ fd buf nbytes k = None"

fun call_write :: "(nat \<Rightarrow> u32) \<Rightarrow> u8 \<Rightarrow> fop \<Rightarrow> i32 \<Rightarrow> addr \<Rightarrow> i32 \<Rightarrow> kernel \<Rightarrow> (i32 \<times> kernel) option" where
  "call_write stack uninit Terminal_write fd buf nbytes k = terminal_write stack buf nbytes k"
| "call_write stack uninit Rtc_write fd buf nbytes k = Some (rtc_write uninit (vmem k) buf nbytes k)"
| "call_write stack uninit Directory_write fd buf nbytes k = Some (directory_write k)"
| "call_write stack uninit File_write fd buf nbytes k = Some (file_write k)"
| "call_write stack uninit Has_error fd buf nbytes k = Some (has_error k)"
| "call_write stack uninit _ fd buf nbytes k = None"

fun call_close :: "u8 \<Rightarrow> fop \<Rightarrow> kernel \<Rightarrow> (i32 \<times> kernel) option" where
  "call_close uninit Terminal_close k = Some (terminal_close k)"
| "call_close uninit Rtc_close k = Some (rtc_close uninit k)"
| "call_close uninit Directory_close k = Some (directory_close k)"
| "call_close uninit File_close k = Some (file_close k)"
| "call_close uninit Has_error k = Some (has_error k)"
| "call_close uninit _ k = None"

text \<open>The loop of \<^verbatim>\<open>sys_open\<close> over the descriptors from \<open>idx\<close> on.\<close>

function find_slot :: "file_desc_t list \<Rightarrow> nat \<Rightarrow> nat option" where
  "find_slot xs idx =
     (if idx < NUM_MAX_OPEN_FILES then
        (if flags (xs ! idx) = FD_OCCUP then Some idx
         else if idx = NUM_MAX_OPEN_FILES - 1 then None
         else find_slot xs (idx + 1))
      else Some idx)"
  by pat_completeness auto
termination by (relation "measure (\<lambda>(xs, idx). NUM_MAX_OPEN_FILES - idx)") auto

declare find_slot.simps [simp del]

text \<open>
  One case of the switch on the file type: the device has been opened with result \<open>r\<close>; then
  the descriptor gets its inode number and operations.
\<close>

definition install :: "addr \<Rightarrow> nat \<Rightarrow> i32 \<Rightarrow> fops_t \<Rightarrow> i32 \<times> kernel \<Rightarrow> i32 \<times> kernel" where
  "install pcb idx inode_num ops opened =
     (let (r, k) = opened in
      if r \<noteq> 0 then (- 1, k)
      else (word_of_nat idx, upd_pcb pcb (upd_fd idx (\<lambda>f. f\<lparr>inode := inode_num, fops_ptr := ops\<rparr>)) k))"

text \<open>\<^verbatim>\<open>curName\<close> in \<^verbatim>\<open>read_dentry_by_name\<close> and \<^verbatim>\<open>dir_entry\<close> are written before they are read.\<close>

definition sys_open :: "u8 \<Rightarrow> addr \<Rightarrow> kernel \<Rightarrow> (i32 \<times> kernel) option" where
  "sys_open uninit filename k = do {
     (r, dir_entry) \<leftarrow> read_dentry_by_name (FILESYSLOC k) (vmem k) (replicate 33 0) (vptr filename k) local_dentry;
     if r = - 1 then Some (- 1, k)
     else let pcb = get_pcb_ptr k in
       case find_slot (fds (pcbs k pcb)) 2 of
         None \<Rightarrow> Some (- 1, k)
       | Some idx \<Rightarrow>
           let k = upd_pcb pcb (upd_fd idx (\<lambda>f. f\<lparr>flags := FD_AVAIL, file_position := OFFSET_START\<rparr>)) k in
           Some (if filetype dir_entry = FILE_TYPE_RTC then install pcb idx 0 fops_rtc (rtc_open uninit k)
                 else if filetype dir_entry = FILE_TYPE_DIR then install pcb idx 0 fops_dir (directory_open k)
                 else if filetype dir_entry = FILE_TYPE_FILE
                   then install pcb idx (inodeNumber dir_entry) fops_file (file_open k)
                 else (word_of_nat idx, k)) }"

definition sys_read :: "i32 \<Rightarrow> addr \<Rightarrow> i32 \<Rightarrow> kernel \<Rightarrow> (i32 \<times> kernel) option" where
  "sys_read fd buf nbytes k =
     (let pcb = get_pcb_ptr k in
      if (fd <s 0 \<or> 7 <s fd) \<or> buf = 0 then Some (- 1, k)
      else if flags (fds (pcbs k pcb) ! unat fd) = FD_OCCUP then Some (- 1, k)
      else call_read (fread (fops_ptr (fds (pcbs k pcb) ! unat fd))) fd buf nbytes k)"

definition sys_write :: "(nat \<Rightarrow> u32) \<Rightarrow> u8 \<Rightarrow> i32 \<Rightarrow> addr \<Rightarrow> i32 \<Rightarrow> kernel \<Rightarrow> (i32 \<times> kernel) option" where
  "sys_write stack uninit fd buf nbytes k =
     (let pcb = get_pcb_ptr_process (scast (apn (terminal k (cur_active_terminal k)))) in
      if (fd <s 0 \<or> 7 <s fd) \<or> buf = 0 then Some (- 1, k)
      else if flags (fds (pcbs k pcb) ! unat fd) = FD_OCCUP then Some (- 1, k)
      else call_write stack uninit (fwrite (fops_ptr (fds (pcbs k pcb) ! unat fd))) fd buf nbytes k)"

definition sys_close :: "u8 \<Rightarrow> i32 \<Rightarrow> kernel \<Rightarrow> (i32 \<times> kernel) option" where
  "sys_close uninit fd k =
     (if fd <s 2 \<or> 7 <s fd then Some (- 1, k)
      else let pcb = get_pcb_ptr k in
        if flags (fds (pcbs k pcb) ! unat fd) = FD_OCCUP then Some (- 1, k)
        else let k = upd_pcb pcb (upd_fd (unat fd) (\<lambda>f. f\<lparr>flags := 0\<rparr>)) k in do {
          (r, k) \<leftarrow> call_close uninit (fclose (fops_ptr (fds (pcbs k pcb) ! unat fd))) k;
          Some (if r \<noteq> 0 then - 1 else 0, k) })"

section \<open>The drivers\<close>

text \<open>
  What the descriptor layer relies on: opening and closing a device succeeds and only talks to
  the hardware. The lemmas of the locale are what it gets from that.
\<close>

definition port_step :: "kernel \<Rightarrow> kernel \<Rightarrow> bool" where
  "port_step k k' \<longleftrightarrow> (\<exists>log. k' = k\<lparr>io_log := log\<rparr>)"

lemma port_step_refl: "port_step k k"
  unfolding port_step_def by (rule exI [of _ "io_log k"]) simp

lemma port_step_fields:
  assumes "port_step k k'"
  shows "pcbs k' = pcbs k" "mem k' = mem k" "vmem k' = vmem k" "get_pcb_ptr k' = get_pcb_ptr k"
    "terminal k' = terminal k" "pid_array k' = pid_array k" "translate k' = translate k"
    "FILESYSLOC k' = FILESYSLOC k" "page_directory k' = page_directory k" "user_mapped k' = user_mapped k"
    "cur_active_terminal k' = cur_active_terminal k" "cur_term k' = cur_term k" "r_esp k' = r_esp k"
  using assms unfolding port_step_def
  by (elim exE, simp add: get_pcb_ptr_def fun_eq_iff user_mapped_def paging_on_def)+

locale driver =
  fixes drv_open drv_close :: "kernel \<Rightarrow> i32 \<times> kernel"
  assumes open_ok: "fst (drv_open k) = 0"
    and close_ok: "fst (drv_close k) = 0"
    and open_ports: "port_step k (snd (drv_open k))"
    and close_ports: "port_step k (snd (drv_close k))"
begin

lemma install_open:
  "\<exists>k'. port_step k k' \<and> install pcb idx i ops (drv_open k) =
     (word_of_nat idx, upd_pcb pcb (upd_fd idx (\<lambda>f. f\<lparr>inode := i, fops_ptr := ops\<rparr>)) k')"
  using open_ok [of k] open_ports [of k] by (auto simp: install_def split: prod.splits)

lemma close_result: "\<exists>k'. port_step k k' \<and> drv_close k = (0, k')"
  using close_ok [of k] close_ports [of k] by (metis prod.collapse)

end

lemma rtc_set_freq_ports: "port_step k (rtc_set_freq uninit freq k)"
  unfolding port_step_def rtc_set_freq_def outb_def inb_def Let_def
  by (rule exI [of _ "io_log (rtc_set_freq uninit freq k)"]) (simp add: rtc_set_freq_def outb_def inb_def Let_def)

interpretation rtc: driver "rtc_open uninit" "rtc_close uninit" for uninit
  by unfold_locales (simp_all add: rtc_open_def rtc_close_def rtc_set_freq_ports)

interpretation dir: driver directory_open directory_close
  by unfold_locales (simp_all add: directory_open_def directory_close_def port_step_refl)

interpretation regular: driver file_open file_close
  by unfold_locales (simp_all add: file_open_def file_close_def port_step_refl)

interpretation tty: driver terminal_open terminal_close
  by unfold_locales (simp_all add: terminal_open_def terminal_close_def port_step_refl)

section \<open>Opening\<close>

lemma find_slot_find: "idx < 8 \<Longrightarrow> find_slot xs idx = find (\<lambda>i. flags (xs ! i) = 0) [idx..<8]"
proof (induction xs idx rule: find_slot.induct)
  case (1 xs idx)
  have upt: "[idx..<8] = idx # [Suc idx..<8]" using 1(2) by (rule upt_conv_Cons)
  show ?case
  proof (cases "idx = 7")
    case True
    then show ?thesis by (subst find_slot.simps) (simp add: NUM_MAX_OPEN_FILES_def FD_OCCUP_def upt)
  next
    case False
    then show ?thesis
      using 1 by (subst find_slot.simps) (simp add: NUM_MAX_OPEN_FILES_def FD_OCCUP_def upt)
  qed
qed

lemma find_slot_2: "find_slot xs 2 = find (\<lambda>i. flags (xs ! i) = 0) [2..<8]"
  by (rule find_slot_find) simp

text \<open>The table of operations and the inode number that an entry of each type gets.\<close>

definition opened_file :: "dentry_t \<Rightarrow> (fops_t \<times> i32) option" where
  "opened_file d =
     (if filetype d = 0 then Some (fops_rtc, 0)
      else if filetype d = 1 then Some (fops_dir, 0)
      else if filetype d = 2 then Some (fops_file, inodeNumber d) else None)"

definition new_descriptor :: "fops_t \<Rightarrow> i32 \<Rightarrow> file_desc_t" where
  "new_descriptor ops i = \<lparr>fops_ptr = ops, inode = i, file_position = 0, flags = 1\<rparr>"

definition fd_table :: "kernel \<Rightarrow> file_desc_t list" where
  "fd_table k = fds (pcbs k (get_pcb_ptr k))"

definition lookup_name :: "kernel \<Rightarrow> u8 list \<Rightarrow> dentry_t option" where
  "lookup_name k xs = map_option (\<lambda>i. dentry_at (FILESYSLOC k) (vmem k) (word_of_nat i))
     (find (\<lambda>i. dentry_name (FILESYSLOC k) (vmem k) (word_of_nat i) = xs) [0..<unat (load32 (vmem k) (FILESYSLOC k))])"

definition free_slot :: "kernel \<Rightarrow> nat option" where
  "free_slot k = find (\<lambda>i. flags (fd_table k ! i) = 0) [2..<8]"

text \<open>The machine after a descriptor has been taken, up to what the driver did on its ports.\<close>

definition with_descriptor :: "nat \<Rightarrow> file_desc_t \<Rightarrow> kernel \<Rightarrow> kernel" where
  "with_descriptor i f k = upd_pcb (get_pcb_ptr k) (\<lambda>p. p\<lparr>fds := (fds p)[i := f]\<rparr>) k"

lemma find_in_range: "find P [a..<b] = Some i \<Longrightarrow> a \<le> i \<and> i < b \<and> P i \<and> (\<forall>j. a \<le> j \<and> j < i \<longrightarrow> \<not> P j)"
  unfolding find_Some_iff by (auto simp: nth_append) (metis add_diff_inverse_nat add_less_cancel_left le_add_diff_inverse less_trans)

lemma find_slot_free: "find_slot (fds (pcbs k (get_pcb_ptr k))) 2 = free_slot k"
  by (simp add: find_slot_2 free_slot_def fd_table_def)

lemma lookup_name_reads:
  assumes "cstr src xs"
  shows "lookup_name k xs = None \<Longrightarrow>
      \<exists>e. read_dentry_by_name (FILESYSLOC k) (vmem k) (replicate 33 0) src local_dentry = Some (- 1, e)"
    and "lookup_name k xs = Some d \<Longrightarrow>
      read_dentry_by_name (FILESYSLOC k) (vmem k) (replicate 33 0) src local_dentry = Some (0, d)"
proof -
  have len: "length (fileName local_dentry) = 33" "length (replicate 33 (0 :: u8)) = 33"
    by (simp_all add: local_dentry_def)
  note look = read_dentry_by_name_result [OF assms len, of "FILESYSLOC k" "vmem k"]
  show "lookup_name k xs = None \<Longrightarrow>
      \<exists>e. read_dentry_by_name (FILESYSLOC k) (vmem k) (replicate 33 0) src local_dentry = Some (- 1, e)"
    and "lookup_name k xs = Some d \<Longrightarrow>
      read_dentry_by_name (FILESYSLOC k) (vmem k) (replicate 33 0) src local_dentry = Some (0, d)"
    using look by (auto simp: lookup_name_def split: option.splits)
qed

lemma sys_open_fails:
  assumes "cstr (vptr filename k) xs" and "lookup_name k xs = None \<or> free_slot k = None"
  shows "sys_open uninit filename k = Some (- 1, k)"
proof (cases "lookup_name k xs")
  case None
  then obtain e where "read_dentry_by_name (FILESYSLOC k) (vmem k) (replicate 33 0) (vptr filename k) local_dentry = Some (- 1, e)"
    using lookup_name_reads(1) [OF assms(1)] by blast
  then show ?thesis by (simp add: sys_open_def)
next
  case (Some d)
  then show ?thesis using assms(2) lookup_name_reads(2) [OF assms(1) Some]
    by (simp add: sys_open_def find_slot_free Let_def)
qed

lemma descriptor_filled:
  "f\<lparr>flags := FD_AVAIL, file_position := OFFSET_START, inode := i, fops_ptr := ops\<rparr> = new_descriptor ops i"
  by (cases f) (simp add: new_descriptor_def FD_AVAIL_def OFFSET_START_def)

lemma sys_open_takes:
  assumes "cstr (vptr filename k) xs" and "length (fd_table k) = 8"
    and *: "lookup_name k xs = Some d" "free_slot k = Some i" "opened_file d = Some (ops, ino)"
  shows "\<exists>k1. port_step (with_descriptor i (new_descriptor ops ino) k) k1 \<and>
        sys_open uninit filename k = Some (word_of_nat i, k1)"
proof -
  have i: "i < length (fds (pcbs k (get_pcb_ptr k)))"
    using assms(2) *(2) find_in_range [of _ 2 8 i] by (auto simp: free_slot_def fd_table_def)
  let ?p = "get_pcb_ptr k"
  define k0 where "k0 = upd_pcb ?p (upd_fd i (\<lambda>f. f\<lparr>flags := FD_AVAIL, file_position := OFFSET_START\<rparr>)) k"
  have finish: "\<exists>k1. port_step (with_descriptor i (new_descriptor ops ino) k) k1 \<and>
      upd_pcb ?p (upd_fd i (\<lambda>f. f\<lparr>inode := ino, fops_ptr := ops\<rparr>)) k' = k1" if k': "port_step k0 k'" for k'
  proof -
    obtain log where log: "k' = k0\<lparr>io_log := log\<rparr>" using k' unfolding port_step_def by blast
    have "upd_pcb ?p (upd_fd i (\<lambda>f. f\<lparr>inode := ino, fops_ptr := ops\<rparr>)) k' =
        (with_descriptor i (new_descriptor ops ino) k)\<lparr>io_log := log\<rparr>"
      using i unfolding log k0_def upd_pcb_def upd_fd_def with_descriptor_def
      by (intro kernel.equality) (simp_all add: descriptor_filled)
    then show ?thesis unfolding port_step_def by blast
  qed
  have "\<exists>k'. port_step k0 k' \<and> sys_open uninit filename k =
      Some (word_of_nat i, upd_pcb ?p (upd_fd i (\<lambda>f. f\<lparr>inode := ino, fops_ptr := ops\<rparr>)) k')"
    using lookup_name_reads(2) [OF assms(1) *(1)] find_slot_free [of k] *(2,3) rtc.install_open [of k0 ?p i 0 fops_rtc uninit] dir.install_open [of k0 ?p i 0 fops_dir]
      regular.install_open [of k0 ?p i "inodeNumber d" fops_file]
    by (auto simp: sys_open_def opened_file_def FILE_TYPE_RTC_def FILE_TYPE_DIR_def FILE_TYPE_FILE_def k0_def [symmetric]
        split: if_splits)
  then show "\<exists>k1. port_step (with_descriptor i (new_descriptor ops ino) k) k1 \<and>
      sys_open uninit filename k = Some (word_of_nat i, k1)"
    using finish by blast
qed

section \<open>Descriptors in use\<close>

lemma small_fd:
  assumes "i < 8"
  shows "unat (word_of_nat i :: u32) = i" "\<not> (word_of_nat i :: u32) <s 0" "\<not> 7 <s (word_of_nat i :: u32)"
    "2 \<le> i \<Longrightarrow> \<not> (word_of_nat i :: u32) <s 2"
proof -
  have s: "sint (word_of_nat i :: u32) = int i" using assms by (subst sint_small) simp_all
  show "unat (word_of_nat i :: u32) = i" "\<not> (word_of_nat i :: u32) <s 0" "\<not> 7 <s (word_of_nat i :: u32)"
    "2 \<le> i \<Longrightarrow> \<not> (word_of_nat i :: u32) <s 2"
    using assms by (simp_all add: word_sless_alt s)
qed

lemma with_descriptor_fields [simp]:
  "FILESYSLOC (with_descriptor i f k) = FILESYSLOC k" "mem (with_descriptor i f k) = mem k"
  "vmem (with_descriptor i f k) = vmem k" "translate (with_descriptor i f k) = translate k"
  "get_pcb_ptr (with_descriptor i f k) = get_pcb_ptr k" "user_mapped (with_descriptor i f k) = user_mapped k"
  "page_directory (with_descriptor i f k) = page_directory k"
  by (simp_all add: with_descriptor_def fun_eq_iff user_mapped_def)

lemma with_descriptor_table: "fd_table (with_descriptor i f k) = (fd_table k)[i := f]"
  by (simp add: fd_table_def with_descriptor_def get_pcb_ptr_def)

lemma port_step_table: "port_step k k' \<Longrightarrow> fd_table k' = fd_table k"
  by (simp add: fd_table_def port_step_fields)

lemma free_slot_facts:
  assumes "free_slot k = Some i"
  shows "2 \<le> i" "i < 8" "flags (fd_table k ! i) = 0" "2 \<le> j \<Longrightarrow> j < i \<Longrightarrow> flags (fd_table k ! j) \<noteq> 0"
  using find_in_range [OF assms [unfolded free_slot_def]] by blast+

lemma sys_close_open:
  assumes "2 \<le> i" "i < 8" and "length (fd_table k) = 8" and "flags (fd_table k ! i) \<noteq> 0"
    and "fops_ptr (fd_table k ! i) \<in> {fops_rtc, fops_dir, fops_file}"
  shows "\<exists>k1. port_step (with_descriptor i ((fd_table k ! i)\<lparr>flags := 0\<rparr>) k) k1 \<and>
    sys_close uninit (word_of_nat i) k = Some (0, k1)"
proof -
  define k0 where "k0 = with_descriptor i ((fd_table k ! i)\<lparr>flags := 0\<rparr>) k"
  have k0: "upd_pcb (get_pcb_ptr k) (upd_fd i (\<lambda>f. f\<lparr>flags := 0\<rparr>)) k = k0"
    by (simp add: k0_def with_descriptor_def upd_pcb_def upd_fd_def fd_table_def)
  have fops: "fops_ptr (fds (pcbs k0 (get_pcb_ptr k)) ! i) = fops_ptr (fd_table k ! i)"
    using assms(2,3) by (simp add: k0_def with_descriptor_def fd_table_def)
  have "\<exists>k1. port_step k0 k1 \<and> call_close uninit (fclose (fops_ptr (fd_table k ! i))) k0 = Some (0, k1)"
    using assms(5) rtc.close_result [of k0 uninit] dir.close_result [of k0] regular.close_result [of k0]
    by (auto simp: fops_rtc_def fops_dir_def fops_file_def)
  then obtain k1 where "port_step k0 k1" "call_close uninit (fclose (fops_ptr (fd_table k ! i))) k0 = Some (0, k1)" by blast
  moreover have "flags (fds (pcbs k (get_pcb_ptr k)) ! i) \<noteq> FD_OCCUP"
    using assms(4) by (simp add: FD_OCCUP_def fd_table_def)
  ultimately show ?thesis
    using small_fd [OF assms(2)] assms(1)
    by (simp add: sys_close_def Let_def k0 fops k0_def [symmetric])
qed

lemma opened_file_ops: "opened_file d = Some (ops, ino) \<Longrightarrow> ops \<in> {fops_rtc, fops_dir, fops_file}"
  by (auto simp: opened_file_def split: if_splits)

lemma sys_read_closed: "flags (fd_table k ! unat fd) = 0 \<Longrightarrow> sys_read fd buf n k = Some (- 1, k)"
  by (auto simp: sys_read_def fd_table_def FD_OCCUP_def Let_def)

lemma opened_ready:
  assumes "port_step (with_descriptor i (new_descriptor fops_file ino) k) k1" and "i < 8" and "length (fd_table k) = 8"
    and "user_mapped k" "image_visible k" "file_ok (FILESYSLOC k) (vmem k) ino"
  shows "fd_ready k1 (word_of_nat i)" "remaining k1 (word_of_nat i) = file_contents (FILESYSLOC k) (vmem k) ino"
    "user_buffer k buf n \<Longrightarrow> user_buffer k1 buf n"
    "buf \<noteq> 0 \<Longrightarrow> sys_read (word_of_nat i) buf n' k1 = file_read (word_of_nat i) buf n' k1"
proof -
  note step = port_step_fields [OF assms(1)] port_step_table [OF assms(1)] with_descriptor_table
  have "fd_table k1 = (fd_table k)[i := new_descriptor fops_file ino]"
    using port_step_table [OF assms(1)] by (simp only: with_descriptor_table)
  then have len: "length (fds (pcbs k1 (get_pcb_ptr k1))) = 8"
    and fd: "fds (pcbs k1 (get_pcb_ptr k1)) ! i = new_descriptor fops_file ino"
    using assms(2,3) by (simp_all only: fd_table_def [of k1, symmetric] length_list_update nth_list_update_eq)
  then have fd': "fd_of k1 (word_of_nat i) = new_descriptor fops_file ino"
    using small_fd(1) [OF assms(2)] by (simp add: fd_of_def)
  have contents: "fd_contents k1 (word_of_nat i) = file_contents (FILESYSLOC k) (vmem k) ino"
    using step by (simp add: fd_contents_def fd' new_descriptor_def)
  have "user_frame k1 = user_frame k" using step by (simp add: user_frame_def)
  then have "image_visible k1" using assms(5) step by (simp add: image_visible_def)
  then show "fd_ready k1 (word_of_nat i)"
    using assms step len small_fd(1) [OF assms(2)]
    by (simp add: fd_ready_def contents) (simp add: fd' new_descriptor_def)
  show "remaining k1 (word_of_nat i) = file_contents (FILESYSLOC k) (vmem k) ino"
    by (simp add: remaining_def contents) (simp add: fd' new_descriptor_def)
  show "user_buffer k buf n \<Longrightarrow> user_buffer k1 buf n" using step by (simp add: user_buffer_def)
  show "buf \<noteq> 0 \<Longrightarrow> sys_read (word_of_nat i) buf n' k1 = file_read (word_of_nat i) buf n' k1"
    using small_fd [OF assms(2)]
    by (simp add: sys_read_def Let_def fd new_descriptor_def FD_OCCUP_def fops_file_def)
qed

lemma sample_lookup:
  "cstr (vptr 0x500080 sample_kernel) (ascii ''frame0'')" "length (fd_table sample_kernel) = 8"
  "\<exists>d. lookup_name sample_kernel (ascii ''frame0'') = Some d \<and> filetype d = 2 \<and> inodeNumber d = 0"
  "free_slot sample_kernel = Some 2"
proof -
  have six: "length (ascii ''frame0'') = 6" by (simp add: ascii_def)
  have c: "sample_mem (0x500080 + word_of_nat i) = (ascii ''frame0'' @ [0]) ! i" if "i < 7" for i
  proof -
    have "i \<in> {0, 1, 2, 3, 4, 5, 6}" using that by auto
    then show ?thesis by (elim insertE emptyE; simp add: sample_mem_def ascii_def)
  qed
  have see: "vptr 0x500080 sample_kernel (word_of_nat i) = (ascii ''frame0'' @ [0]) ! i" if "i < 7" for i
    using that c [OF that] by (simp add: vptr_def sample_vmem unat_add32)
  show "cstr (vptr 0x500080 sample_kernel) (ascii ''frame0'')"
    unfolding cstr_def six
    using see [of 6] see by (auto simp: nth_append six) (simp add: ascii_def)
  show "length (fd_table sample_kernel) = 8" "free_slot sample_kernel = Some 2"
    by (simp_all add: fd_table_def some_pcb_def free_slot_def upt_rec)
  define x y where "x = ascii ''.''" and "y = ascii ''frame0''"
  have "x \<noteq> y" by (simp add: x_def y_def ascii_def)
  have "[0..<2] = [0, 1 :: nat]" by code_simp
  then have "find (\<lambda>i. dentry_name 0x500000 (vmem sample_kernel) (word_of_nat i) = y) [0..<2] = Some 1"
    using sample_dentry_name [of 0] sample_dentry_name [of 1] \<open>x \<noteq> y\<close>
    unfolding x_def [symmetric] y_def [symmetric] by auto
  then have "lookup_name sample_kernel y = Some (dentry_at 0x500000 (vmem sample_kernel) 1)"
    by (simp add: lookup_name_def sample_directory)
  moreover have "filetype (dentry_at 0x500000 (vmem sample_kernel) 1) = 2" "inodeNumber (dentry_at 0x500000 (vmem sample_kernel) 1) = 0"
    by (simp_all add: dentry_at_def dentry_addr_def DENTRYSIZE_def sample_load32) (simp_all add: load32_def sample_mem_def)
  ultimately show "\<exists>d. lookup_name sample_kernel (ascii ''frame0'') = Some d \<and> filetype d = 2 \<and> inodeNumber d = 0"
    unfolding y_def by blast
qed

section \<open>Properties\<close>

text \<open>
  C27. \<^verbatim>\<open>sys_open\<close> on any name: without an entry of that name or without a free descriptor it
  returns -1 and changes nothing; otherwise it takes the least free descriptor from 2 on, with
  position 0 and the operations and inode number of the kind of file, and no other descriptor,
  process or memory is touched.
\<close>

theorem sys_open_descriptor:
  assumes "cstr (vptr filename k) xs" and "length (fd_table k) = 8"
  shows "(lookup_name k xs = None \<or> free_slot k = None \<longrightarrow> sys_open uninit filename k = Some (- 1, k)) \<and>
    (\<forall>d i ops ino. lookup_name k xs = Some d \<and> free_slot k = Some i \<and> opened_file d = Some (ops, ino) \<longrightarrow>
       2 \<le> i \<and> i < 8 \<and> (\<forall>j. 2 \<le> j \<and> j < i \<longrightarrow> flags (fd_table k ! j) \<noteq> 0) \<and>
       (\<exists>k'. sys_open uninit filename k = Some (word_of_nat i, k') \<and>
          fd_table k' = (fd_table k)[i := \<lparr>fops_ptr = ops, inode = ino, file_position = 0, flags = 1\<rparr>] \<and>
          (\<forall>p. p \<noteq> get_pcb_ptr k \<longrightarrow> pcbs k' p = pcbs k p) \<and> mem k' = mem k))"
proof (intro conjI allI impI)
  show "sys_open uninit filename k = Some (- 1, k)" if "lookup_name k xs = None \<or> free_slot k = None"
    using sys_open_fails [OF assms(1) that] .
next
  fix d i ops ino
  assume *: "lookup_name k xs = Some d \<and> free_slot k = Some i \<and> opened_file d = Some (ops, ino)"
  then have "free_slot k = Some i" by blast
  note free = free_slot_facts [OF this]
  show "2 \<le> i" "i < 8" using free by blast+
  show "flags (fd_table k ! j) \<noteq> 0" if "2 \<le> j \<and> j < i" for j using free(4) that by blast
  obtain k1 where k1: "port_step (with_descriptor i (new_descriptor ops ino) k) k1"
    "sys_open uninit filename k = Some (word_of_nat i, k1)"
    using sys_open_takes [OF assms] * by blast
  then show "\<exists>k'. sys_open uninit filename k = Some (word_of_nat i, k') \<and>
      fd_table k' = (fd_table k)[i := \<lparr>fops_ptr = ops, inode = ino, file_position = 0, flags = 1\<rparr>] \<and>
      (\<forall>p. p \<noteq> get_pcb_ptr k \<longrightarrow> pcbs k' p = pcbs k p) \<and> mem k' = mem k"
    by (intro exI [of _ k1]) (simp add: port_step_table with_descriptor_table new_descriptor_def port_step_fields,
        simp add: with_descriptor_def)
qed

lemma sys_open_descriptor_witness:
  "\<exists>k'. sys_open 0 0x500080 sample_kernel = Some (2, k') \<and>
     fd_table k' ! 2 = \<lparr>fops_ptr = fops_file, inode = 0, file_position = 0, flags = 1\<rparr>"
proof -
  obtain d where d: "lookup_name sample_kernel (ascii ''frame0'') = Some d" "opened_file d = Some (fops_file, 0)"
    using sample_lookup(3) by (auto simp: opened_file_def)
  show ?thesis
    using sys_open_descriptor [OF sample_lookup(1,2), of 0, THEN conjunct2, rule_format, OF conjI [OF d(1) conjI [OF sample_lookup(4) d(2)]]]
      sample_lookup(2) by auto
qed

text \<open>
  C22. Opening a file and reading from it through the descriptor delivers the file from its first
  byte, as much of it as was asked for, and leaves the rest for the next read.
\<close>

theorem open_read_delivers:
  assumes "cstr (vptr filename k) xs" and "length (fd_table k) = 8"
    and "lookup_name k xs = Some d" and "filetype d = 2" and "free_slot k = Some i"
    and "user_mapped k" and "image_visible k" and "file_ok (FILESYSLOC k) (vmem k) (inodeNumber d)"
    and "user_buffer k buf N" and "unat n \<le> N" and "buf \<noteq> 0"
  shows "\<exists>k1 k2. sys_open uninit filename k = Some (word_of_nat i, k1) \<and>
    (let contents = file_contents (FILESYSLOC k) (vmem k) (inodeNumber d); got = take (unat n) contents in
     sys_read (word_of_nat i) buf n k1 = Some (word_of_nat (length got), k2) \<and>
     bytes (vmem k2) buf (length got) = got \<and> remaining k2 (word_of_nat i) = drop (unat n) contents)"
proof -
  have i: "i < 8" using free_slot_facts [OF assms(5)] by blast
  have "opened_file d = Some (fops_file, inodeNumber d)" using assms(4) by (simp add: opened_file_def)
  then obtain k1 where k1: "port_step (with_descriptor i (new_descriptor fops_file (inodeNumber d)) k) k1"
    "sys_open uninit filename k = Some (word_of_nat i, k1)"
    using sys_open_takes [OF assms(1-3,5)] by blast
  note ready = opened_ready [OF k1(1) i assms(2,6,7,8)]
  obtain k2 where "file_read (word_of_nat i) buf n k1 =
      Some (word_of_nat (length (take (unat n) (remaining k1 (word_of_nat i)))), k2)"
    "bytes (vmem k2) buf (length (take (unat n) (remaining k1 (word_of_nat i)))) = take (unat n) (remaining k1 (word_of_nat i))"
    "remaining k2 (word_of_nat i) = drop (unat n) (remaining k1 (word_of_nat i))"
    using file_read_step [OF ready(1) ready(3) [OF assms(9)] assms(10)] .
  then show ?thesis
    using k1(2) ready(4) [OF assms(11), of n] unfolding ready(2) Let_def by (intro exI conjI) simp_all
qed

lemma open_read_delivers_witness:
  "\<exists>k1 k2. sys_open 0 0x500080 sample_kernel = Some (2, k1) \<and> sys_read 2 0x8050000 3 k1 = Some (3, k2) \<and>
     bytes (vmem k2) 0x8050000 3 = [0x48, 0x65, 0x6C]"
proof -
  obtain d where d: "lookup_name sample_kernel (ascii ''frame0'') = Some d" "filetype d = 2" "inodeNumber d = 0"
    using sample_lookup(3) by blast
  have "file_ok (FILESYSLOC sample_kernel) (vmem sample_kernel) (inodeNumber d)" using sample_file_ok by (simp add: d(3))
  from open_read_delivers [OF sample_lookup(1,2) d(1,2) sample_lookup(4) sample_mapped(1) sample_visible this sample_buffer, of 3 0]
  show ?thesis by (auto simp: d(3) sample_contents) (simp only: numeral_3_eq_3)
qed

text \<open>
  C28. \<^verbatim>\<open>sys_close\<close> undoes \<^verbatim>\<open>sys_open\<close>: the descriptor is free again and the next to be handed
  out, reading from it or closing it once more is refused, and the other descriptors are what
  they were before the file was opened.
\<close>

theorem close_undoes_open:
  assumes "cstr (vptr filename k) xs" and "length (fd_table k) = 8"
    and "lookup_name k xs = Some d" and "free_slot k = Some i" and "opened_file d = Some (ops, ino)"
  shows "\<exists>k1 k2. sys_open uninit filename k = Some (word_of_nat i, k1) \<and>
    sys_close uninit (word_of_nat i) k1 = Some (0, k2) \<and>
    free_slot k2 = Some i \<and> (\<forall>j. j \<noteq> i \<longrightarrow> fd_table k2 ! j = fd_table k ! j) \<and>
    sys_read (word_of_nat i) buf n k2 = Some (- 1, k2) \<and> sys_close uninit (word_of_nat i) k2 = Some (- 1, k2)"
proof -
  note free = free_slot_facts [OF assms(4)]
  obtain k1 where k1: "port_step (with_descriptor i (new_descriptor ops ino) k) k1"
    "sys_open uninit filename k = Some (word_of_nat i, k1)"
    using sys_open_takes [OF assms] by blast
  have t1: "fd_table k1 = (fd_table k)[i := new_descriptor ops ino]"
    using port_step_table [OF k1(1)] by (simp add: with_descriptor_table)
  then have at: "length (fd_table k1) = 8" "fd_table k1 ! i = new_descriptor ops ino"
    using assms(2) free(2) by simp_all
  have open_fd: "flags (fd_table k1 ! i) \<noteq> 0" "fops_ptr (fd_table k1 ! i) \<in> {fops_rtc, fops_dir, fops_file}"
    using opened_file_ops [OF assms(5)] by (simp_all add: at new_descriptor_def)
  obtain k2 where k2: "port_step (with_descriptor i ((fd_table k1 ! i)\<lparr>flags := 0\<rparr>) k1) k2"
    "sys_close uninit (word_of_nat i) k1 = Some (0, k2)"
    using sys_close_open [OF free(1,2) at(1) open_fd] by blast
  have t2: "fd_table k2 = (fd_table k)[i := (new_descriptor ops ino)\<lparr>flags := 0\<rparr>]"
    using port_step_table [OF k2(1)] t1 at(2) by (simp add: with_descriptor_table)
  have fl: "flags (fd_table k2 ! j) = flags (fd_table k ! j)" for j
    using t2 free(2,3) assms(2) by (cases "j = i") auto
  then have slot: "free_slot k2 = Some i" using assms(4) by (simp add: free_slot_def)
  have closed: "flags (fd_table k2 ! unat (word_of_nat i :: u32)) = 0" using fl free(3) small_fd(1) [OF free(2)] by simp
  then have "sys_close uninit (word_of_nat i) k2 = Some (- 1, k2)"
    by (simp add: sys_close_def fd_table_def FD_OCCUP_def)
  then show ?thesis
    using k1(2) k2(2) slot sys_read_closed [OF closed] t2 by (intro exI conjI) auto
qed

lemma close_undoes_open_witness:
  "\<exists>k1 k2. sys_open 0 0x500080 sample_kernel = Some (2, k1) \<and> sys_close 0 2 k1 = Some (0, k2) \<and>
     sys_read 2 0x8050000 3 k2 = Some (- 1, k2)"
proof -
  obtain d where d: "lookup_name sample_kernel (ascii ''frame0'') = Some d" "opened_file d = Some (fops_file, 0)"
    using sample_lookup(3) by (auto simp: opened_file_def)
  from close_undoes_open [OF sample_lookup(1,2) d(1) sample_lookup(4) d(2), of 0 "0x8050000" 3]
  show ?thesis by auto
qed

end
