(* ===== verification/Process.thy ===== *)
theory Process
  imports Syscalls
begin

text \<open>
  The system calls on processes, in \<^verbatim>\<open>student-distrib/syscalls.c\<close>: \<^verbatim>\<open>execute\<close>, \<^verbatim>\<open>halt\<close>,
  \<^verbatim>\<open>getargs\<close>, \<^verbatim>\<open>vidmap\<close>, \<^verbatim>\<open>set_handler\<close>, \<^verbatim>\<open>sigreturn\<close> and \<^verbatim>\<open>get_proc_num\<close>.

  \<^verbatim>\<open>execute\<close> and \<^verbatim>\<open>halt\<close> do not return like functions: the first leaves for user code with
  \<^verbatim>\<open>iret\<close>, the second loads the stack pointers that the \<^verbatim>\<open>execute\<close> of the process had saved and
  returns from there. The type \<open>outcome\<close> has these ways out. \<open>r_esp\<close> and \<open>r_ebp\<close> are the
  stack pointers in the frame of the function that runs.
\<close>

unbundle bit_operations_syntax

section \<open>Definitions\<close>

definition NUM_MAX_PROCESSES :: nat where "NUM_MAX_PROCESSES = 6"
definition FREE :: u8 where "FREE = 0"
definition AVIL :: u8 where "AVIL = 1"
definition MAX_COMMAND_SIZE :: nat where "MAX_COMMAND_SIZE = 256"
definition MAX_BUFFER_SIZE :: nat where "MAX_BUFFER_SIZE = 100"
definition READ_BUFFER_SIZE :: u32 where "READ_BUFFER_SIZE = 4"
definition LOCATION_FOR_ENTRY :: u32 where "LOCATION_FOR_ENTRY = 24"
definition LARGE_NUMBER :: u32 where "LARGE_NUMBER = 100000"
definition LOAD_ADDRESS :: addr where "LOAD_ADDRESS = 0x8048000"
definition KERNEL_DS :: u16 where "KERNEL_DS = 0x18"
definition USER_STACK :: addr where "USER_STACK = 0x83FFFFC"
definition VIDMAP_ADDR :: addr where "VIDMAP_ADDR = 0x8800000"

text \<open>
  The way out of a system call: it returns a value; it goes to user code, at an address and
  with a stack; or it returns a value to the caller of the \<^verbatim>\<open>execute\<close> whose frame is now
  in \<open>r_esp\<close> and \<open>r_ebp\<close>.
\<close>

datatype outcome = Returns i32 kernel | To_user u32 addr kernel | Resumes u32 kernel

subsection \<open>Small calls\<close>

definition set_handler :: "kernel \<Rightarrow> i32 \<times> kernel" where
  "set_handler k = (- 1, k)"

definition sigreturn :: "kernel \<Rightarrow> i32 \<times> kernel" where
  "sigreturn k = (- 1, k)"

function get_proc_num_loop :: "nat \<Rightarrow> kernel \<Rightarrow> (i32 \<times> kernel) option" where
  "get_proc_num_loop i k =
     (if i < NUM_MAX_PROCESSES then do {
        p \<leftarrow> arr_get (pid_array k) i;
        if p = 0 then do {
          pids \<leftarrow> arr_set (pid_array k) i 1;
          Some (word_of_nat i, k\<lparr>pid_array := pids\<rparr>) }
        else get_proc_num_loop (i + 1) k }
      else do {
        (n, k) \<leftarrow> printf (literal ''Too many processes active. '') (\<lambda>_. 0) k;
        Some (- 1, k) })"
  by pat_completeness auto
termination by (relation "measure (\<lambda>(i, k). NUM_MAX_PROCESSES - i)") auto

declare get_proc_num_loop.simps [simp del]

definition get_proc_num :: "kernel \<Rightarrow> (i32 \<times> kernel) option" where
  "get_proc_num k = get_proc_num_loop 0 k"

text \<open>The pointer that \<^verbatim>\<open>vidmap\<close> stores is at \<open>screen_start\<close>.\<close>

definition store_user32 :: "addr \<Rightarrow> u32 \<Rightarrow> kernel \<Rightarrow> kernel" where
  "store_user32 a v k = set_vmem (store32 a v (vmem k)) k"

definition vidmap :: "addr \<Rightarrow> kernel \<Rightarrow> i32 \<times> kernel" where
  "vidmap screen_start k =
     (if screen_start = 0 \<or> screen_start = 0x400000 then (- 1, k)
      else (VIDMAP_ADDR, store_user32 screen_start VIDMAP_ADDR (table_remap VIDMAP_ADDR VIDEO k)))"

definition getargs :: "addr \<Rightarrow> i32 \<Rightarrow> kernel \<Rightarrow> (i32 \<times> kernel) option" where
  "getargs buf num_bytes k =
     (if buf = 0 then Some (- 1, k)
      else let pcb = get_pcb_ptr k in
        if arr (argbuf (pcbs k pcb)) 0 = 0 then Some (- 1, k)
        else do {
          m \<leftarrow> strcpy (vmem k) buf (\<lambda>_. arr (argbuf (pcbs k pcb)));
          Some (0, set_vmem m k) })"

subsection \<open>The command line\<close>

text \<open>
  The indices \<open>cmd_start\<close> and \<open>cmd_end\<close> are bytes that wrap around; a scan that never stops is
  \<open>None\<close>, as is a store past the end of a local array. What the arrays held before are the
  arguments \<open>parsed_cmd\<close> and \<open>arg\<close>.
\<close>

partial_function (option) skip_spaces :: "cptr \<Rightarrow> u8 \<Rightarrow> u8 option" where
  "skip_spaces command cmd_start =
     (if command (ucast cmd_start) = 0x20 then skip_spaces command (cmd_start + 1) else Some cmd_start)"

partial_function (option) word_end :: "cptr \<Rightarrow> u8 \<Rightarrow> u8 option" where
  "word_end command cmd_end =
     (if command (ucast cmd_end) \<noteq> 0x20 \<and> command (ucast cmd_end) \<noteq> 0x0A \<and> command (ucast cmd_end) \<noteq> 0
      then word_end command (cmd_end + 1) else Some cmd_end)"

primrec copy_chars :: "cptr \<Rightarrow> nat \<Rightarrow> nat list \<Rightarrow> u8 list \<Rightarrow> u8 list option" where
  "copy_chars command cmd_start [] xs = Some xs"
| "copy_chars command cmd_start (i # is) xs =
     Option.bind (arr_set xs (i - cmd_start) (command (word_of_nat i))) (copy_chars command cmd_start is)"

definition parse_command :: "cptr \<Rightarrow> u8 list \<Rightarrow> u8 list \<Rightarrow> (u8 list \<times> u8 list) option" where
  "parse_command command parsed_cmd arg = do {
     cmd_start \<leftarrow> skip_spaces command 0;
     cmd_end \<leftarrow> word_end command cmd_start;
     parsed_cmd \<leftarrow> copy_chars command (unat cmd_start) [unat cmd_start..<unat cmd_end] parsed_cmd;
     parsed_cmd \<leftarrow> arr_set parsed_cmd (unat cmd_end) 0;
     let cmd_start = cmd_end + 1 in do {
       cmd_end \<leftarrow> word_end command cmd_start;
       arg \<leftarrow> copy_chars command (unat cmd_start) [unat cmd_start..<unat cmd_end] arg;
       arg \<leftarrow> (if cmd_end < cmd_start then None else arr_set arg (unat cmd_end - unat cmd_start) 0);
       Some (parsed_cmd, arg) } }"

subsection \<open>Starting a program\<close>

text \<open>
  The local variables of \<^verbatim>\<open>execute\<close> as the compiler lays them out: what the two arrays hold on
  entry, the address of \<^verbatim>\<open>buffer\<close> in the kernel stack, and what is in \<^verbatim>\<open>eax\<close> where the assembly
  code calls \<^verbatim>\<open>halt\<close>. The argument is read from behind the NUL of the name, so what follows the
  literal \<^verbatim>\<open>"shell"\<close> of the kernel matters too.
\<close>

record exec_locals =
  l_parsed_cmd :: "u8 list"
  l_arg :: "u8 list"
  l_buffer :: addr
  l_eax :: u32
  l_behind :: "u8 list"

text \<open>\<^verbatim>\<open>strcpy\<close> into an array that is an object of its own and has room for the source.\<close>

definition strcpy_array :: "u8 list \<Rightarrow> cptr \<Rightarrow> u8 list option" where
  "strcpy_array xs src = map_option (\<lambda>m. bytes m 0 (length xs)) (strcpy (arr xs) 0 (\<lambda>_. src))"

definition read_file :: "u32 \<Rightarrow> u32 \<Rightarrow> addr \<Rightarrow> u32 \<Rightarrow> kernel \<Rightarrow> kernel" where
  "read_file ino offset buf n k = set_vmem (fst (read_data (FILESYSLOC k) (vmem k) ino offset buf n)) k"

definition init_fds :: "pcb_t \<Rightarrow> pcb_t" where
  "init_fds p =
     (let p = fold (\<lambda>i. upd_fd i (\<lambda>f. f\<lparr>fops_ptr := fops_error, inode := - 1, file_position := OFFSET_START,
                                      flags := FD_OCCUP\<rparr>)) [0..<NUM_MAX_OPEN_FILES] p;
          p = upd_fd 0 (\<lambda>f. f\<lparr>fops_ptr := fops_STDIN\<rparr>) p;
          p = upd_fd 1 (\<lambda>f. f\<lparr>fops_ptr := fops_STDOUT\<rparr>) p;
          p = upd_fd 0 (\<lambda>f. f\<lparr>flags := FD_AVAIL\<rparr>) p
      in upd_fd 1 (\<lambda>f. f\<lparr>flags := FD_AVAIL\<rparr>) p)"

text \<open>\<^verbatim>\<open>execute\<close> from the point where it has a process number on.\<close>

definition start_process :: "u32 \<Rightarrow> u32 \<Rightarrow> i32 \<Rightarrow> u8 list \<Rightarrow> kernel \<Rightarrow> outcome option" where
  "start_process ino entry_location new_process_num arg k =
     (let pcb = get_pcb_ptr_process new_process_num;
          k = upd_pcb pcb (\<lambda>p. p\<lparr>parent_kbp := r_ebp k, parent_ksp := r_esp k\<rparr>) k;
          k = page_remap 0x8000000 (0x800000 + new_process_num * 0x400000) k;
          k = read_file ino 0 LOAD_ADDRESS LARGE_NUMBER k;
          k = upd_pcb pcb (\<lambda>p. p\<lparr>process_number := ucast new_process_num\<rparr>) k;
          k = (if active (terminal k (cur_term k)) = FREE then
                 let k = k\<lparr>cur_active_terminal := cur_term k\<rparr>;
                     k = upd_pcb pcb (\<lambda>p. p\<lparr>parent_process_number := process_number p\<rparr>) k
                 in upd_terminal (cur_term k) (active_update (\<lambda>_. AVIL)) k
               else let parent_PCB = get_pcb_ptr_process (scast (apn (terminal k (cur_term k))))
                 in upd_pcb pcb (\<lambda>p. p\<lparr>parent_process_number := process_number (pcbs k parent_PCB)\<rparr>) k)
      in do {
        args \<leftarrow> strcpy_array (argbuf (pcbs k pcb)) (arr arg);
        let k = upd_pcb pcb (\<lambda>p. p\<lparr>argbuf := args\<rparr>) k;
            k = upd_pcb pcb init_fds k;
            k = upd_pcb pcb (\<lambda>p. p\<lparr>term_ptr := cur_term k\<rparr>) k;
            k = upd_terminal (cur_term k) (apn_update (\<lambda>_. process_number (pcbs k pcb))) k;
            k = k\<lparr>tss := (tss k)\<lparr>ss0 := KERNEL_DS, esp0 := 0x800000 - 0x2000 * new_process_num - 4\<rparr>\<rparr>
        in Some (To_user entry_location USER_STACK (sti k)) })"

text \<open>From the lookup of the program on.\<close>

definition run_program :: "exec_locals \<Rightarrow> u8 list \<Rightarrow> u8 list \<Rightarrow> kernel \<Rightarrow> outcome option" where
  "run_program l parsed_cmd arg k = do {
     (r, test_dentry) \<leftarrow> read_dentry_by_name (FILESYSLOC k) (vmem k) (replicate 33 0) (arr parsed_cmd) local_dentry;
     if r \<noteq> 0 then Some (Returns (- 1) k)
     else
       let ino = inodeNumber test_dentry;
           k = read_file ino 0 (l_buffer l) READ_BUFFER_SIZE k;
           buffer = ptr (l_buffer l) (vmem k)
       in if buffer 1 \<noteq> 0x45 \<or> buffer 2 \<noteq> 0x4C \<or> buffer 3 \<noteq> 0x46 \<or> buffer 0 \<noteq> 0x7F then Some (Returns (- 1) k)
       else
         let k = read_file ino LOCATION_FOR_ENTRY (l_buffer l) READ_BUFFER_SIZE k;
             entry_location = load32 (vmem k) (l_buffer l)
         in do {
           (new_process_num, k) \<leftarrow> get_proc_num k;
           if new_process_num = - 1 then Some (Returns (- 1) k)
           else start_process ino entry_location new_process_num arg k } }"

text \<open>\<^verbatim>\<open>execute\<close>, with the function that it calls for \<^verbatim>\<open>exit\<close>.\<close>

definition execute_with ::
  "(kernel \<Rightarrow> outcome option) \<Rightarrow> exec_locals \<Rightarrow> (kernel \<Rightarrow> cptr) \<Rightarrow> kernel \<Rightarrow> outcome option" where
  "execute_with call_halt l command k =
     (let k = cli k in do {
        (parsed_cmd, arg) \<leftarrow> parse_command (command k) (l_parsed_cmd l) (l_arg l);
        if strncmp (literal ''exit'' k) (arr parsed_cmd) READ_BUFFER_SIZE = 0 then call_halt k
        else do {
          k \<leftarrow> (if strncmp (literal ''term_num'' k) (arr parsed_cmd) READ_BUFFER_SIZE = 0
                then map_option snd (printf (literal (''TERM %d'' @ [CHR 0x0A])) (\<lambda>_. ucast (cur_term k)) k)
                else Some k);
          run_program l parsed_cmd arg k } })"

subsection \<open>Ending a program\<close>

text \<open>The loop of \<^verbatim>\<open>halt\<close> over the descriptors.\<close>

primrec close_all :: "u8 \<Rightarrow> addr \<Rightarrow> nat list \<Rightarrow> kernel \<Rightarrow> kernel option" where
  "close_all uninit pcb [] k = Some k"
| "close_all uninit pcb (i # is) k = do {
     k \<leftarrow> (if flags (fds (pcbs k pcb) ! i) = FD_AVAIL then map_option snd (sys_close uninit (word_of_nat i) k) else Some k);
     close_all uninit pcb is (upd_pcb pcb (upd_fd i (\<lambda>f. f\<lparr>fops_ptr := fops_error, flags := FD_OCCUP\<rparr>)) k) }"

text \<open>The end of \<^verbatim>\<open>halt\<close>: back to the frame of the \<^verbatim>\<open>execute\<close> that started the process.\<close>

definition return_to_parent :: "u8 \<Rightarrow> addr \<Rightarrow> addr \<Rightarrow> kernel \<Rightarrow> outcome" where
  "return_to_parent status current_pcb parent_pcb k =
     (let k = page_remap 0x8000000 (0x800000 + ucast (process_number (pcbs k parent_pcb)) * 0x400000) k;
          k = k\<lparr>tss := (tss k)\<lparr>esp0 := parent_ksp (pcbs k current_pcb)\<rparr>\<rparr>;
          k = sti k
      in Resumes (ucast status) (k\<lparr>r_esp := parent_ksp (pcbs k current_pcb), r_ebp := parent_kbp (pcbs k current_pcb)\<rparr>))"

text \<open>\<^verbatim>\<open>halt\<close>, with the function that it calls to start the shell again.\<close>

definition halt_with :: "(kernel \<Rightarrow> outcome option) \<Rightarrow> u8 \<Rightarrow> u8 \<Rightarrow> kernel \<Rightarrow> outcome option" where
  "halt_with execute_shell uninit status k =
     (let k = cli k;
          current_pcb = get_pcb_ptr_process (scast (apn (terminal k (cur_active_terminal k))));
          parent_pcb = get_pcb_ptr_process (ucast (parent_process_number (pcbs k current_pcb)))
      in do {
        pids \<leftarrow> arr_set (pid_array k) (unat (process_number (pcbs k current_pcb))) FREE;
        k \<leftarrow> close_all uninit current_pcb [0..<NUM_MAX_OPEN_FILES] (k\<lparr>pid_array := pids\<rparr>);
        let k = upd_terminal (cur_active_terminal k) (apn_update (\<lambda>_. process_number (pcbs k parent_pcb))) k
        in if process_number (pcbs k current_pcb) = parent_process_number (pcbs k current_pcb) then
             (let k = upd_terminal (cur_active_terminal k) (active_update (\<lambda>_. ucast FD_OCCUP)) k
              in Option.bind (execute_shell k) (\<lambda>out. case out of
                   Returns r k \<Rightarrow> Some (return_to_parent status current_pcb parent_pcb k)
                 | To_user entry esp k \<Rightarrow> Some out | Resumes r k \<Rightarrow> Some out))
           else Some (return_to_parent status current_pcb parent_pcb k) })"

text \<open>
  The two functions call each other. \<^verbatim>\<open>halt\<close> only executes \<^verbatim>\<open>shell\<close>, which does not come back
  to \<^verbatim>\<open>halt\<close> (lemma \<open>execute_shell_no_halt\<close>), so the knot is tied without a recursion.
\<close>

definition execute_shell :: "exec_locals \<Rightarrow> kernel \<Rightarrow> outcome option" where
  "execute_shell l = execute_with (\<lambda>_. None) l (\<lambda>_. arr (ascii ''shell'' @ 0 # l_behind l))"

definition halt :: "exec_locals \<Rightarrow> u8 \<Rightarrow> u8 \<Rightarrow> kernel \<Rightarrow> outcome option" where
  "halt l uninit status = halt_with (execute_shell l) uninit status"

definition execute :: "exec_locals \<Rightarrow> exec_locals \<Rightarrow> u8 \<Rightarrow> (kernel \<Rightarrow> cptr) \<Rightarrow> kernel \<Rightarrow> outcome option" where
  "execute l l' uninit = execute_with (halt l' uninit (ucast (l_eax l))) l"

section \<open>The command line\<close>

lemma unat_ucast_u8: "unat (ucast (x :: u8) :: u32) = unat x"
  by (simp add: unsigned_ucast_eq take_bit_eq_mod) (use unat_lt8 [of x] in simp)

lemma scast_small: "unat (x :: u8) < 128 \<Longrightarrow> scast x = (ucast x :: u32)"
proof -
  assume "unat x < 128"
  then have "uint x < 128" using uint_less_int [of x 128] by simp
  then have "sint (word_of_int (uint x) :: u8) = uint x"
    by (simp only: int_word_sint) (simp add: mod_pos_pos_trivial)
  then have "sint x = uint x" by simp
  then show ?thesis by (simp only: scast_eq [of x] ucast_eq [of x])
qed

definition word_char :: "u8 \<Rightarrow> bool" where
  "word_char c \<longleftrightarrow> c \<noteq> 0x20 \<and> c \<noteq> 0x0A \<and> c \<noteq> 0"

lemma byte_cast: "n < 256 \<Longrightarrow> ucast (word_of_nat n :: u8) = (word_of_nat n :: u32)"
  by (simp add: word_unat_eq_iff unsigned_ucast_eq take_bit_eq_mod unat_of_nat)

lemma byte_unat: "n < 256 \<Longrightarrow> unat (word_of_nat n :: u8) = n"
  by (simp add: unat_of_nat take_bit_eq_mod)

lemma skip_spaces_run:
  "a + n < 256 \<Longrightarrow> (\<And>i. i < n \<Longrightarrow> s (word_of_nat (a + i)) = 0x20) \<Longrightarrow> s (word_of_nat (a + n)) \<noteq> 0x20 \<Longrightarrow>
   skip_spaces s (word_of_nat a) = Some (word_of_nat (a + n))"
proof (induction n arbitrary: a)
  case 0
  then show ?case by (subst skip_spaces.simps) (simp add: byte_cast)
next
  case (Suc n)
  have "skip_spaces s (word_of_nat (Suc a)) = Some (word_of_nat (Suc a + n))"
    using Suc.prems(1,3) Suc.prems(2) [of "Suc i" for i] by (intro Suc.IH) auto
  then show ?case
    using Suc.prems(1) Suc.prems(2) [of 0] by (subst skip_spaces.simps) (simp add: byte_cast add.commute)
qed

lemma word_end_run:
  "a + n < 256 \<Longrightarrow> (\<And>i. i < n \<Longrightarrow> word_char (s (word_of_nat (a + i)))) \<Longrightarrow> \<not> word_char (s (word_of_nat (a + n))) \<Longrightarrow>
   word_end s (word_of_nat a) = Some (word_of_nat (a + n))"
proof (induction n arbitrary: a)
  case 0
  then show ?case by (subst word_end.simps) (auto simp: byte_cast word_char_def)
next
  case (Suc n)
  have "word_end s (word_of_nat (Suc a)) = Some (word_of_nat (Suc a + n))"
    using Suc.prems(1,3) Suc.prems(2) [of "Suc i" for i] by (intro Suc.IH) auto
  then show ?case
    using Suc.prems(1) Suc.prems(2) [of 0] by (subst word_end.simps) (simp add: byte_cast word_char_def add.commute)
qed

lemma copy_chars_append: "copy_chars s a (is @ js) xs = Option.bind (copy_chars s a is xs) (copy_chars s a js)"
  by (induction "is" arbitrary: xs) (auto split: bind_splits)

lemma copy_chars_run:
  "n \<le> length xs \<Longrightarrow> copy_chars s a [a..<a + n] xs = Some (map (\<lambda>i. s (word_of_nat (a + i))) [0..<n] @ drop n xs)"
proof (induction n)
  case 0
  then show ?case by simp
next
  case (Suc n)
  have "drop n xs = xs ! n # drop (Suc n) xs" using Suc.prems by (intro Cons_nth_drop_Suc [symmetric]) simp
  then show ?case
    using Suc by (simp add: copy_chars_append arr_set_Some list_update_append)
qed

lemma segment:
  assumes "\<forall>i<length line. command (word_of_nat i) = line ! i" and "line = xs @ ys @ zs"
  shows "map (\<lambda>i. command (word_of_nat (length xs + i))) [0..<length ys] = ys"
    and "i < length ys \<Longrightarrow> command (word_of_nat (length xs + i)) = ys ! i"
proof -
  show at: "command (word_of_nat (length xs + i)) = ys ! i" if "i < length ys" for i
  proof -
    have "length xs + i < length line" using that assms(2) by simp
    then have "command (word_of_nat (length xs + i)) = line ! (length xs + i)" using assms(1) by blast
    then show ?thesis using that by (simp only: assms(2) nth_append_length_plus) (simp add: nth_append)
  qed
  show "map (\<lambda>i. command (word_of_nat (length xs + i))) [0..<length ys] = ys"
    by (rule nth_equalityI) (simp_all add: at del: of_nat_add)
qed

text \<open>
  What the parser makes of a line: after \<open>n\<close> spaces the name, one separator and the next word.
  The NUL behind the name goes \<open>n\<close> places too far.
\<close>

lemma parse_command_line:
  assumes line: "\<forall>i<length line. command (word_of_nat i) = line ! i"
    "line = replicate n 0x20 @ name @ d # args @ [t]" "length line \<le> 256"
    and words: "name \<noteq> []" "list_all word_char name" "\<not> word_char d" "list_all word_char args" "\<not> word_char t"
    and len: "length ps = 256" "length as = 100" "length args < 100"
  shows "parse_command command ps as =
    Some ((name @ drop (length name) ps)[n + length name := 0], args @ 0 # drop (Suc (length args)) as)"
proof -
  let ?l = "length name" and ?a = "length args"
  have sum: "n + ?l + ?a + 2 \<le> 256" using line(2,3) by simp
  note spaces = segment(2) [OF line(1), of "[]" "replicate n 0x20", simplified, OF line(2)]
  note name_at = segment [OF line(1), of "replicate n 0x20" name, simplified, OF line(2)]
  have d_at: "command (word_of_nat (n + ?l)) = d"
    using segment(2) [OF line(1), of "replicate n 0x20 @ name" "[d]" "args @ [t]" 0] line(2) by simp
  note args_at = segment [OF line(1), of "replicate n 0x20 @ name @ [d]" args "[t]", simplified, OF line(2)]
  have t_at: "command (word_of_nat (Suc (n + ?l + ?a))) = t"
    using segment(2) [OF line(1), of "replicate n 0x20 @ name @ d # args" "[t]" "[]" 0] line(2) by (simp add: ac_simps)
  have nw: "word_char (command (word_of_nat (n + i)))" if "i < ?l" for i
    using that name_at(2) [OF that] words(2) by (simp add: list_all_length)
  have skip: "skip_spaces command 0 = Some (word_of_nat n)"
    using skip_spaces_run [of 0 n command] spaces nw [of 0] words(1) sum by (simp add: word_char_def)
  have we: "word_end command (word_of_nat n) = Some (word_of_nat (n + ?l))"
    by (rule word_end_run) (use nw d_at words(3) sum in auto)
  have we2: "word_end command (word_of_nat (Suc (n + ?l))) = Some (word_of_nat (Suc (n + ?l) + ?a))"
    by (rule word_end_run) (use args_at(2) words(4,5) t_at sum in \<open>auto simp: list_all_length ac_simps\<close>)
  have c1: "copy_chars command n [n..<n + ?l] ps = Some (name @ drop ?l ps)"
    using copy_chars_run [of ?l ps command n] name_at(1) sum len(1) by simp
  have c2: "copy_chars command (Suc (n + ?l)) [Suc (n + ?l)..<Suc (n + ?l) + ?a] as = Some (args @ drop ?a as)"
    using copy_chars_run [of ?a as command "Suc (n + ?l)"] args_at(1) len(2,3) by (simp add: ac_simps)
  have next_word: "(word_of_nat (n + ?l) + 1 :: u8) = word_of_nat (Suc (n + ?l))" by (simp add: add.commute)
  have un: "unat (word_of_nat n :: u8) = n" "unat (word_of_nat (n + ?l) :: u8) = n + ?l"
    "unat (word_of_nat (Suc (n + ?l)) :: u8) = Suc (n + ?l)"
    "unat (word_of_nat (Suc (n + ?l) + ?a) :: u8) = Suc (n + ?l) + ?a"
    using sum by (simp_all only: byte_unat)
  have order: "\<not> (word_of_nat (Suc (n + ?l) + ?a) :: u8) < word_of_nat (Suc (n + ?l))"
    by (simp only: word_less_unat un not_add_less1 not_False_eq_True)
  have s1: "arr_set (name @ drop ?l ps) (n + ?l) 0 = Some ((name @ drop ?l ps)[n + ?l := 0])"
    using len(1) sum by (intro arr_set_Some) simp
  have "drop ?a as = as ! ?a # drop (Suc ?a) as" using len by (intro Cons_nth_drop_Suc [symmetric]) simp
  then have s2: "arr_set (args @ drop ?a as) (Suc (n + ?l) + ?a - Suc (n + ?l)) 0 = Some (args @ 0 # drop (Suc ?a) as)"
    using len by (simp add: arr_set_Some list_update_append)
  show ?thesis
    unfolding parse_command_def
    by (simp only: skip we bind.bind_lunit un c1 s1 Let_def next_word we2 c2 order if_False s2)
qed

section \<open>Process numbers\<close>

definition free_pid :: "kernel \<Rightarrow> nat option" where
  "free_pid k = find (\<lambda>i. pid_array k ! i = 0) [0..<6]"

lemma get_proc_num_loop_find:
  "i \<le> 6 \<Longrightarrow> length (pid_array k) = 6 \<Longrightarrow> get_proc_num_loop i k =
     (case find (\<lambda>i. pid_array k ! i = 0) [i..<6] of
        Some n \<Rightarrow> Some (word_of_nat n, k\<lparr>pid_array := (pid_array k)[n := 1]\<rparr>)
      | None \<Rightarrow> map_option (\<lambda>(n, k). (- 1, k)) (printf (literal ''Too many processes active. '') (\<lambda>_. 0) k))"
proof (induction i k rule: get_proc_num_loop.induct)
  case (1 i k)
  show ?case
  proof (cases "i < 6")
    case True
    have upt: "[i..<6] = i # [Suc i..<6]" using True by (rule upt_conv_Cons)
    show ?thesis
      using 1 True by (subst get_proc_num_loop.simps) (simp add: NUM_MAX_PROCESSES_def arr_get_Some arr_set_Some upt)
  next
    case False
    then show ?thesis using 1
      by (subst get_proc_num_loop.simps) (auto simp: NUM_MAX_PROCESSES_def map_option_case split: option.split)
  qed
qed

lemma get_proc_num_result:
  "length (pid_array k) = 6 \<Longrightarrow> get_proc_num k =
     (case free_pid k of
        Some n \<Rightarrow> Some (word_of_nat n, k\<lparr>pid_array := (pid_array k)[n := 1]\<rparr>)
      | None \<Rightarrow> map_option (\<lambda>(n, k). (- 1, k)) (printf (literal ''Too many processes active. '') (\<lambda>_. 0) k))"
  unfolding get_proc_num_def free_pid_def by (rule get_proc_num_loop_find) simp_all

lemma free_pid_facts:
  assumes "free_pid k = Some n"
  shows "n < 6" "pid_array k ! n = 0" "j < n \<Longrightarrow> pid_array k ! j \<noteq> 0"
  using find_in_range [OF assms [unfolded free_pid_def]] by auto

section \<open>Ending a process\<close>

definition closed_fd :: "file_desc_t \<Rightarrow> file_desc_t" where
  "closed_fd f = f\<lparr>fops_ptr := fops_error, flags := 0\<rparr>"

lemma port_step_trans: "port_step a b \<Longrightarrow> port_step b c \<Longrightarrow> port_step a c"
  unfolding port_step_def by (metis kernel.update_convs(2) kernel.surjective)

lemma port_step_upd_pcb: "port_step k k' \<Longrightarrow> port_step (upd_pcb p f k) (upd_pcb p f k')"
proof -
  assume "port_step k k'"
  then obtain log where "k' = k\<lparr>io_log := log\<rparr>" unfolding port_step_def by blast
  then have "upd_pcb p f k' = (upd_pcb p f k)\<lparr>io_log := log\<rparr>" by (simp add: upd_pcb_def)
  then show ?thesis unfolding port_step_def by blast
qed

text \<open>The descriptors of a process that \<^verbatim>\<open>halt\<close> can close: the devices of those in use are known.\<close>

definition closable :: "file_desc_t list \<Rightarrow> bool" where
  "closable fs \<longleftrightarrow> length fs = 8 \<and>
     (\<forall>i<8. 2 \<le> i \<and> flags (fs ! i) \<noteq> 0 \<longrightarrow> fops_ptr (fs ! i) \<in> {fops_rtc, fops_dir, fops_file})"

lemma closable_update:
  assumes "closable fs"
  shows "closable (fs[i := closed_fd f])"
  unfolding closable_def
proof (intro conjI allI impI)
  show "length (fs[i := closed_fd f]) = 8" using assms by (simp add: closable_def)
  fix j
  assume j: "j < 8" "2 \<le> j \<and> flags (fs[i := closed_fd f] ! j) \<noteq> 0"
  then show "fops_ptr (fs[i := closed_fd f] ! j) \<in> {fops_rtc, fops_dir, fops_file}"
    using assms by (cases "j = i") (auto simp: closable_def closed_fd_def)
qed

lemma close_one:
  assumes "closable (fds (pcbs k pcb))" and "get_pcb_ptr k = pcb" and "i < 8"
  shows "\<exists>k1. (if flags (fds (pcbs k pcb) ! i) = FD_AVAIL then map_option snd (sys_close uninit (word_of_nat i) k) else Some k) = Some k1 \<and>
     port_step (upd_pcb pcb (upd_fd i closed_fd) k)
       (upd_pcb pcb (upd_fd i (\<lambda>f. f\<lparr>fops_ptr := fops_error, flags := FD_OCCUP\<rparr>)) k1)"
proof -
  have closed: "(\<lambda>f. f\<lparr>fops_ptr := fops_error, flags := FD_OCCUP\<rparr>) = closed_fd"
    by (simp add: closed_fd_def FD_OCCUP_def fun_eq_iff)
  have len: "length (fds (pcbs k pcb)) = 8" using assms(1) by (simp add: closable_def)
  consider (close) "flags (fds (pcbs k pcb) ! i) = FD_AVAIL" "2 \<le> i" | (std) "flags (fds (pcbs k pcb) ! i) = FD_AVAIL" "i < 2"
    | (other) "flags (fds (pcbs k pcb) ! i) \<noteq> FD_AVAIL" by linarith
  then show ?thesis
  proof cases
    case close
    have table: "fd_table k = fds (pcbs k pcb)" by (simp add: fd_table_def assms(2))
    obtain k1 where k1: "port_step (with_descriptor i ((fd_table k ! i)\<lparr>flags := 0\<rparr>) k) k1"
      "sys_close uninit (word_of_nat i) k = Some (0, k1)"
      using sys_close_open [OF close(2) assms(3), of k uninit] close assms(1,3)
      by (auto simp: closable_def table FD_AVAIL_def)
    have "upd_pcb pcb (upd_fd i closed_fd) (with_descriptor i ((fd_table k ! i)\<lparr>flags := 0\<rparr>) k) = upd_pcb pcb (upd_fd i closed_fd) k"
      using assms(3) len by (simp add: with_descriptor_def assms(2) upd_pcb_def upd_fd_def closed_fd_def fd_table_def)
    then have "port_step (upd_pcb pcb (upd_fd i closed_fd) k) (upd_pcb pcb (upd_fd i closed_fd) k1)"
      using port_step_upd_pcb [OF k1(1), of pcb "upd_fd i closed_fd"] by simp
    then show ?thesis using close(1) k1(2) by (simp add: closed)
  next
    case std
    have "sint (word_of_nat i :: u32) = int i" using std(2) by (subst sint_small) simp_all
    then have "(word_of_nat i :: u32) <s 2" using std(2) by (simp add: word_sless_alt)
    then show ?thesis using std(1) port_step_refl by (auto simp: sys_close_def closed)
  next
    case other
    then show ?thesis using port_step_refl by (auto simp: closed)
  qed
qed

lemma close_all_result:
  "closable (fds (pcbs k pcb)) \<Longrightarrow> get_pcb_ptr k = pcb \<Longrightarrow> i \<le> 8 \<Longrightarrow>
   \<exists>k'. close_all uninit pcb [i..<8] k = Some k' \<and>
     port_step (upd_pcb pcb (\<lambda>p. p\<lparr>fds := take i (fds p) @ map closed_fd (drop i (fds p))\<rparr>) k) k'"
proof (induction "8 - i" arbitrary: i k)
  case 0
  then have "upd_pcb pcb (\<lambda>p. p\<lparr>fds := take i (fds p) @ map closed_fd (drop i (fds p))\<rparr>) k = k"
    by (simp add: closable_def upd_pcb_def)
  then show ?case using 0 port_step_refl [of k] by simp
next
  case (Suc n)
  have i: "i < 8" using Suc.hyps(2) by simp
  let ?close = "\<lambda>i p. p\<lparr>fds := take i (fds p) @ map closed_fd (drop i (fds p))\<rparr>"
  define k0 where "k0 = upd_pcb pcb (upd_fd i closed_fd) k"
  obtain k1 where k1: "(if flags (fds (pcbs k pcb) ! i) = FD_AVAIL then map_option snd (sys_close uninit (word_of_nat i) k) else Some k) = Some k1"
    "port_step k0 (upd_pcb pcb (upd_fd i (\<lambda>f. f\<lparr>fops_ptr := fops_error, flags := FD_OCCUP\<rparr>)) k1)"
    using close_one [OF Suc.prems(1,2) i] unfolding k0_def by blast
  define k2 where "k2 = upd_pcb pcb (upd_fd i (\<lambda>f. f\<lparr>fops_ptr := fops_error, flags := FD_OCCUP\<rparr>)) k1"
  have step2: "port_step k0 k2" using k1(2) by (simp add: k2_def)
  have fds0: "fds (pcbs k0 pcb) = (fds (pcbs k pcb))[i := closed_fd (fds (pcbs k pcb) ! i)]"
    by (simp add: k0_def upd_fd_def)
  have "closable (fds (pcbs k0 pcb))"
    using closable_update [OF Suc.prems(1)] unfolding fds0 .
  then have "closable (fds (pcbs k2 pcb))" "get_pcb_ptr k2 = pcb"
    using port_step_fields [OF step2] Suc.prems(2) by (simp_all add: k0_def)
  note ready = this
  have n: "n = 8 - Suc i" using Suc.hyps(2) by simp
  have "Suc i \<le> 8" using i by simp
  then obtain k' where k': "close_all uninit pcb [Suc i..<8] k2 = Some k'"
    "port_step (upd_pcb pcb (?close (Suc i)) k2) k'"
    using Suc.hyps(1) [OF n ready] by blast
  have len: "length (fds (pcbs k pcb)) = 8" using Suc.prems(1) by (simp add: closable_def)
  have upt: "[i..<8] = i # [Suc i..<8]" using i by (rule upt_conv_Cons)
  have "drop i (fds (pcbs k pcb)) = fds (pcbs k pcb) ! i # drop (Suc i) (fds (pcbs k pcb))"
    using len i by (intro Cons_nth_drop_Suc [symmetric]) simp
  then have "upd_pcb pcb (?close (Suc i)) k0 = upd_pcb pcb (?close i) k"
    using len i by (simp add: k0_def upd_pcb_def upd_fd_def take_Suc_conv_app_nth)
  then have "port_step (upd_pcb pcb (?close i) k) k'"
    using port_step_trans [OF port_step_upd_pcb [OF step2] k'(2)] by simp
  then show ?case using k1(1) k'(1) unfolding upt close_all.simps by (simp add: k2_def)
qed

text \<open>What \<^verbatim>\<open>halt\<close> does to a process that is not the first of its terminal.\<close>

definition current_process :: "kernel \<Rightarrow> addr" where
  "current_process k = get_pcb_ptr_process (scast (apn (terminal k (cur_active_terminal k))))"

definition parent_process :: "kernel \<Rightarrow> addr" where
  "parent_process k = get_pcb_ptr_process (ucast (parent_process_number (pcbs k (current_process k))))"

lemma halt_to_parent:
  assumes "closable (fds (pcbs k c))" and "get_pcb_ptr k = c" and "c = current_process k"
    and "parent_process k \<noteq> c" and "unat (process_number (pcbs k c)) < length (pid_array k)"
    and "process_number (pcbs k c) \<noteq> parent_process_number (pcbs k c)"
  defines "q \<equiv> process_number (pcbs k (parent_process k))"
  shows "\<exists>log. halt l uninit status k = Some (Resumes (ucast status)
    ((page_remap 0x8000000 (process_frame (ucast q)) k)
      \<lparr>io_log := log, iflag := True,
       pid_array := (pid_array k)[unat (process_number (pcbs k c)) := 0],
       pcbs := (pcbs k)(c := (pcbs k c)\<lparr>fds := map closed_fd (fds (pcbs k c))\<rparr>),
       terminal := (terminal k)(cur_active_terminal k := (terminal k (cur_active_terminal k))\<lparr>apn := q\<rparr>),
       tss := (tss k)\<lparr>esp0 := parent_ksp (pcbs k c)\<rparr>,
       r_esp := parent_ksp (pcbs k c), r_ebp := parent_kbp (pcbs k c)\<rparr>))"
proof -
  let ?pids = "(pid_array k)[unat (process_number (pcbs k c)) := 0]"
  define k0 where "k0 = (cli k)\<lparr>pid_array := ?pids\<rparr>"
  have f0: "pcbs k0 = pcbs k" "get_pcb_ptr k0 = get_pcb_ptr k" "terminal k0 = terminal k"
    "cur_active_terminal k0 = cur_active_terminal k"
    by (simp_all add: k0_def cli_def get_pcb_ptr_def)
  have c: "get_pcb_ptr_process (scast (apn (terminal k (cur_active_terminal k)))) = c"
    "get_pcb_ptr_process (ucast (parent_process_number (pcbs k c))) = parent_process k"
    using assms(3) by (simp_all add: current_process_def parent_process_def)
  have pids: "arr_set (pid_array k) (unat (process_number (pcbs k c))) FREE = Some ?pids"
    using assms(5) by (simp add: arr_set_Some FREE_def)
  obtain k1 where k1: "close_all uninit c [0..<8] k0 = Some k1"
    "port_step (upd_pcb c (\<lambda>p. p\<lparr>fds := map closed_fd (fds p)\<rparr>) k0) k1"
    using close_all_result [of k0 c 0 uninit] assms(1,2) by (auto simp: f0)
  then obtain log where log: "k1 = (upd_pcb c (\<lambda>p. p\<lparr>fds := map closed_fd (fds p)\<rparr>) k0)\<lparr>io_log := log\<rparr>"
    unfolding port_step_def by blast
  have halted: "halt l uninit status k = Some (return_to_parent status c (parent_process k)
      (upd_terminal (cur_active_terminal k1) (apn_update (\<lambda>_. process_number (pcbs k1 (parent_process k)))) k1))"
    using k1(1) pids c assms(6)
    by (simp add: halt_def halt_with_def Let_def cli_def k0_def NUM_MAX_OPEN_FILES_def log upd_pcb_def upd_terminal_def)
  have flip: "parent_process k \<noteq> c" by (rule assms(4))
  show ?thesis
    unfolding halted
    by (rule exI [of _ log])
      (simp add: return_to_parent_def Let_def log k0_def cli_def sti_def upd_terminal_def upd_pcb_def flip q_def
        page_remap_def flush_tlb_def process_frame_def)
qed

section \<open>The kernel's own memory\<close>

text \<open>
  The 4 MB page of the kernel is mapped to itself, and the frame of the process that is mapped,
  if any, is above it. The file system image lies in that page.
\<close>

definition kernel_mapped :: "kernel \<Rightarrow> bool" where
  "kernel_mapped k \<longleftrightarrow> paging_on k \<and> page_directory k 1 = 0x00400083 \<and>
     (user_frame k = 0 \<or> 0x800000 \<le> unat (user_frame k))"

definition image_in_kernel :: "kernel \<Rightarrow> bool" where
  "image_in_kernel k \<longleftrightarrow> 0x400000 \<le> unat (FILESYSLOC k) \<and>
     unat (FILESYSLOC k) + image_size (FILESYSLOC k) (vmem k) \<le> 0x800000"

lemma kernel_identity:
  assumes "kernel_mapped k" and "0x400000 \<le> unat v" and "unat v < 0x800000"
  shows "translate k v = Some (v, False)" "\<not> v - user_frame k < 0x400000"
proof -
  have div: "v div 0x400000 = 1"
  proof -
    have "unat v div 0x400000 = 1" using assms(2,3) by (intro div_nat_eqI) simp_all
    then show ?thesis by (simp add: word_unat_eq_iff unat_div_distrib)
  qed
  have "v mod 0x400000 = v - 0x400000"
    using assms(2) div by (metis mult_1 word_mod_div_equality add_diff_cancel_left' mult.commute)
  moreover have "(0x00400083 :: u32) AND 0xFFC00000 = 0x400000" "bit (0x00400083 :: u32) 0" "bit (0x00400083 :: u32) 7"
    "\<not> bit (0x00400083 :: u32) 2" by code_simp+
  ultimately show "translate k v = Some (v, False)"
    using assms(1) by (simp add: translate_def kernel_mapped_def paging_on_def div)
  show "\<not> v - user_frame k < 0x400000"
  proof (cases "user_frame k = 0")
    case True
    then show ?thesis using assms(2) by (simp add: word_less_unat)
  next
    case False
    then have big: "0x800000 \<le> unat (user_frame k)" using assms(1) by (simp add: kernel_mapped_def)
    have "unat (user_frame k) \<le> unat (0xFFC00000 :: u32)"
      unfolding user_frame_def using word_and_le1 [of "page_directory k 32" "0xFFC00000"] by (simp only: word_le_unat)
    then have "unat (v - user_frame k) = 4294967296 + unat v - unat (user_frame k)"
      using big assms(3) by (simp add: unat_sub_if')
    then show ?thesis using \<open>unat (user_frame k) \<le> unat (0xFFC00000 :: u32)\<close> assms(2) by (simp add: word_less_unat)
  qed
qed

lemma kernel_vmem:
  assumes "kernel_mapped k" and "0x400000 \<le> unat v" and "unat v < 0x800000"
  shows "vmem k v = mem k v" "vmem (set_vmem m k) v = m v"
  using kernel_identity [OF assms] by (simp_all add: vmem_def mem_set_vmem)

lemma in_image_range:
  assumes "image_in_kernel k" and "in_range (FILESYSLOC k) (image_size (FILESYSLOC k) (vmem k)) x"
  shows "0x400000 \<le> unat x" "unat x < 0x800000"
proof -
  obtain i where i: "i < image_size (FILESYSLOC k) (vmem k)" "x = FILESYSLOC k + word_of_nat i"
    using assms(2) range_addr unfolding in_range_def by blast
  have "unat x = unat (FILESYSLOC k) + i"
    unfolding i(2) using i(1) assms(1) by (subst unat_add32) (simp_all add: image_in_kernel_def)
  then show "0x400000 \<le> unat x" "unat x < 0x800000" using i(1) assms(1) by (simp_all add: image_in_kernel_def)
qed

text \<open>Two machines with the same image, whatever is mapped at 128 MB.\<close>

definition same_files :: "kernel \<Rightarrow> kernel \<Rightarrow> bool" where
  "same_files k k' \<longleftrightarrow> FILESYSLOC k' = FILESYSLOC k \<and> kernel_mapped k \<and> kernel_mapped k' \<and> image_in_kernel k \<and>
     (\<forall>x. in_range (FILESYSLOC k) (image_size (FILESYSLOC k) (vmem k)) x \<longrightarrow> mem k' x = mem k x)"

lemma same_files_image: "same_files k k' \<Longrightarrow> same_image (FILESYSLOC k) (vmem k) (vmem k')"
  unfolding same_image_def same_files_def
  using in_image_range kernel_vmem(1) by (elim conjE, intro allI impI) metis

lemma same_files_facts:
  assumes "same_files k k'" and "file_ok (FILESYSLOC k) (vmem k) i"
  shows "FILESYSLOC k' = FILESYSLOC k" "image_size (FILESYSLOC k) (vmem k') = image_size (FILESYSLOC k) (vmem k)"
    "file_contents (FILESYSLOC k) (vmem k') i = file_contents (FILESYSLOC k) (vmem k) i"
    "file_ok (FILESYSLOC k) (vmem k') i" "image_in_kernel k'"
  using same_image_file_contents [OF same_files_image [OF assms(1)] assms(2)] assms(1)
  by (auto simp: same_files_def image_in_kernel_def)

lemma same_files_trans:
  assumes "same_files k k1" and "same_files k1 k2" and "file_ok (FILESYSLOC k) (vmem k) i"
  shows "same_files k k2"
  using assms(1,2) same_files_facts(1,2) [OF assms(1,3)] by (simp add: same_files_def)

text \<open>An object of the kernel, such as a local variable, that the image does not overlap.\<close>

definition kernel_object :: "kernel \<Rightarrow> addr \<Rightarrow> nat \<Rightarrow> bool" where
  "kernel_object k a n \<longleftrightarrow> 0x400000 \<le> unat a \<and> unat a + n \<le> 0x800000 \<and>
     disjoint_range a n (FILESYSLOC k) (image_size (FILESYSLOC k) (vmem k))"

lemma read_file_write:
  assumes "file_ok (FILESYSLOC k) (vmem k) ino" and "disjoint_range buf (unat n) (FILESYSLOC k) (image_size (FILESYSLOC k) (vmem k))"
    and "unat off + unat n < 4294967296"
  shows "read_file ino off buf n k =
    set_vmem (write_bytes buf (take (unat n) (drop (unat off) (file_contents (FILESYSLOC k) (vmem k) ino))) (vmem k)) k"
  unfolding read_file_def read_data_write [OF assms] by simp

lemma set_vmem_same_files:
  assumes "kernel_mapped k" and "image_in_kernel k" and "length xs \<le> n" "n < 4294967296"
    and "disjoint_range buf n (FILESYSLOC k) (image_size (FILESYSLOC k) (vmem k))"
  shows "same_files k (set_vmem (write_bytes buf xs (vmem k)) k)"
proof -
  let ?k' = "set_vmem (write_bytes buf xs (vmem k)) k"
  have "kernel_mapped ?k'" using assms(1) by (simp add: kernel_mapped_def user_frame_def)
  moreover have "mem ?k' x = mem k x" if x: "in_range (FILESYSLOC k) (image_size (FILESYSLOC k) (vmem k)) x" for x
  proof -
    note r = in_image_range [OF assms(2) x]
    have "write_bytes buf xs (vmem k) x = vmem k x"
      using same_image_write [OF assms(5,3,4)] x by (simp add: same_image_def)
    then show ?thesis
      using kernel_identity [OF assms(1) r] kernel_vmem(1) [OF assms(1) r] by (simp add: mem_set_vmem)
  qed
  ultimately show ?thesis using assms(1,2) by (simp add: same_files_def)
qed

lemma read_file_kernel:
  assumes "kernel_mapped k" and "image_in_kernel k" and "file_ok (FILESYSLOC k) (vmem k) ino"
    and "kernel_object k buf (unat n)" and "unat off + unat n < 4294967296"
  defines "xs \<equiv> take (unat n) (drop (unat off) (file_contents (FILESYSLOC k) (vmem k) ino))"
  shows "\<exists>m. read_file ino off buf n k = k\<lparr>mem := m\<rparr>"
    and "bytes (vmem (read_file ino off buf n k)) buf (length xs) = xs"
    and "same_files k (read_file ino off buf n k)"
proof -
  have disj: "disjoint_range buf (unat n) (FILESYSLOC k) (image_size (FILESYSLOC k) (vmem k))"
    using assms(4) by (simp add: kernel_object_def)
  have eq: "read_file ino off buf n k = set_vmem (write_bytes buf xs (vmem k)) k"
    unfolding xs_def by (rule read_file_write [OF assms(3) disj assms(5)])
  have len: "length xs \<le> unat n" by (simp add: xs_def)
  show "\<exists>m. read_file ino off buf n k = k\<lparr>mem := m\<rparr>" unfolding eq set_vmem_def by blast
  show "bytes (vmem (read_file ino off buf n k)) buf (length xs) = xs"
  proof (rule bytes_eqI)
    fix i assume i: "i < length xs"
    have "unat (buf + word_of_nat i) = unat buf + i"
      using i len assms(4) by (subst unat_add32) (simp_all add: kernel_object_def)
    then have "vmem (read_file ino off buf n k) (buf + word_of_nat i) = write_bytes buf xs (vmem k) (buf + word_of_nat i)"
      unfolding eq using i len assms(4) by (intro kernel_vmem(2) [OF assms(1)]) (simp_all add: kernel_object_def)
    then show "vmem (read_file ino off buf n k) (buf + word_of_nat i) = xs ! i"
      using i len unat_lt32 [of n] by (simp add: write_bytes_inside)
  qed simp
  show "same_files k (read_file ino off buf n k)"
    unfolding eq by (rule set_vmem_same_files [OF assms(1,2) len unat_lt32 disj])
qed

section \<open>Starting a process\<close>

text \<open>The process control block of a process that has just been started.\<close>

definition std_fds :: "file_desc_t list" where
  "std_fds = [\<lparr>fops_ptr = fops_STDIN, inode = - 1, file_position = 0, flags = 1\<rparr>,
     \<lparr>fops_ptr = fops_STDOUT, inode = - 1, file_position = 0, flags = 1\<rparr>] @
     replicate 6 \<lparr>fops_ptr = fops_error, inode = - 1, file_position = 0, flags = 0\<rparr>"

definition started_pcb :: "kernel \<Rightarrow> u8 \<Rightarrow> u8 \<Rightarrow> u8 list \<Rightarrow> pcb_t \<Rightarrow> pcb_t" where
  "started_pcb k n parent args p = p\<lparr>parent_kbp := r_ebp k, parent_ksp := r_esp k, process_number := n,
     parent_process_number := parent, argbuf := args @ 0 # drop (Suc (length args)) (argbuf p), fds := std_fds,
     term_ptr := cur_term k\<rparr>"

lemma length_8_cases:
  assumes "length xs = 8"
  obtains a b c d e f g h where "xs = [a, b, c, d, e, f, g, h]"
  using assms by (auto simp: numeral_eq_Suc length_Suc_conv)

lemma init_fds_std:
  assumes "length (fds p) = 8"
  shows "init_fds p = p\<lparr>fds := std_fds\<rparr>"
proof -
  obtain a b c d e f g h where xs: "fds p = [a, b, c, d, e, f, g, h]" using length_8_cases [OF assms] .
  have upt: "[0..<8] = [0, 1, 2, 3, 4, 5, 6, 7 :: nat]" by code_simp
  have fill: "x\<lparr>fops_ptr := o', inode := i, file_position := q, flags := l\<rparr> =
      \<lparr>fops_ptr = o', inode = i, file_position = q, flags = l\<rparr>" for x :: file_desc_t and o' i q l
    by (cases x) simp
  show ?thesis
    by (simp add: init_fds_def Let_def NUM_MAX_OPEN_FILES_def upt upd_fd_def xs fill std_fds_def
        OFFSET_START_def FD_OCCUP_def FD_AVAIL_def numeral_eq_Suc)
qed

lemma strcpy_array_write:
  assumes "cstr src args" and "length args < length xs" and "length xs < 4294967296"
  shows "strcpy_array xs src = Some (args @ 0 # drop (Suc (length args)) xs)"
proof -
  have "strcpy (arr xs) 0 (\<lambda>_. src) = Some (write_bytes 0 (args @ [0]) (arr xs))"
    using assms by (intro strcpy_write) simp_all
  moreover have "bytes (write_bytes 0 (args @ [0]) (arr xs)) 0 (length xs) = args @ 0 # drop (Suc (length args)) xs"
  proof (rule bytes_eqI)
    fix i assume i: "i < length xs"
    have "write_bytes 0 (args @ [0]) (arr xs) (0 + word_of_nat i) =
        (if i < Suc (length args) then (args @ [0]) ! i else xs ! i)"
      using i assms(2,3) by (simp add: write_bytes_apply arr_def)
    also have "\<dots> = (args @ 0 # drop (Suc (length args)) xs) ! i"
      using i assms(2) by (auto simp: nth_append not_less less_Suc_eq nth_Cons split: nat.split)
        (metis Suc_diff_Suc add_Suc_right le_add_diff_inverse less_le_not_le nat.inject not_less_eq_eq order_le_less)
    finally show "write_bytes 0 (args @ [0]) (arr xs) (0 + word_of_nat i) = (args @ 0 # drop (Suc (length args)) xs) ! i" .
  qed (use assms(2) in simp)
  ultimately show ?thesis by (simp add: strcpy_array_def)
qed

text \<open>The parent of a process that is started on the terminal that is shown.\<close>

definition first_of_terminal :: "kernel \<Rightarrow> bool" where
  "first_of_terminal k \<longleftrightarrow> active (terminal k (cur_term k)) = 0"

definition parent_number :: "nat \<Rightarrow> kernel \<Rightarrow> u8" where
  "parent_number n k = (if first_of_terminal k then word_of_nat n
     else process_number (pcbs k (get_pcb_ptr_process (scast (apn (terminal k (cur_term k)))))))"

definition started :: "nat \<Rightarrow> u8 list \<Rightarrow> mem \<Rightarrow> kernel \<Rightarrow> kernel" where
  "started n args m k =
     (let p = get_pcb_ptr_process (word_of_nat n); t = cur_term k in
      (page_remap 0x8000000 (process_frame (word_of_nat n)) k)
        \<lparr>mem := m, iflag := True,
         cur_active_terminal := (if first_of_terminal k then t else cur_active_terminal k),
         pcbs := (pcbs k)(p := started_pcb k (word_of_nat n) (parent_number n k) args (pcbs k p)),
         terminal := (terminal k)(t := (terminal k t)\<lparr>active := (if first_of_terminal k then 1 else active (terminal k t)),
           apn := word_of_nat n\<rparr>),
         tss := (tss k)\<lparr>ss0 := KERNEL_DS, esp0 := 0x800000 - 0x2000 * word_of_nat n - 4\<rparr>\<rparr>)"

text \<open>The machine when the program is loaded.\<close>

definition loading :: "nat \<Rightarrow> kernel \<Rightarrow> kernel" where
  "loading n k = page_remap 0x8000000 (process_frame (word_of_nat n))
     (upd_pcb (get_pcb_ptr_process (word_of_nat n)) (\<lambda>p. p\<lparr>parent_kbp := r_ebp k, parent_ksp := r_esp k\<rparr>) k)"

lemma loading_commute:
  "loading n k = upd_pcb (get_pcb_ptr_process (word_of_nat n)) (\<lambda>p. p\<lparr>parent_kbp := r_ebp k, parent_ksp := r_esp k\<rparr>)
     (page_remap 0x8000000 (process_frame (word_of_nat n)) k)"
  by (simp add: loading_def page_remap_def flush_tlb_def Let_def upd_pcb_def)

lemma read_file_mem: "read_file ino off buf n k = k\<lparr>mem := mem (read_file ino off buf n k)\<rparr>"
  by (simp add: read_file_def set_vmem_def)

lemma start_process_result:
  assumes "n < 6" and "cstr (arr q) args" "length args < 100"
    and "length (argbuf (pcbs k (get_pcb_ptr_process (word_of_nat n)))) = 100"
    and "length (fds (pcbs k (get_pcb_ptr_process (word_of_nat n)))) = 8"
    and "first_of_terminal k \<or>
      get_pcb_ptr_process (scast (apn (terminal k (cur_term k)))) \<noteq> get_pcb_ptr_process (word_of_nat n)"
  shows "start_process ino entry (word_of_nat n) q k = Some (To_user entry USER_STACK
    (started n args (mem (read_file ino 0 LOAD_ADDRESS LARGE_NUMBER (loading n k))) k))"
proof -
  let ?p = "get_pcb_ptr_process (word_of_nat n)"
  define m where "m = mem (read_file ino 0 LOAD_ADDRESS LARGE_NUMBER (loading n k))"
  define k5 where "k5 = (loading n k)\<lparr>mem := m\<rparr>"
  have load: "read_file ino 0 LOAD_ADDRESS LARGE_NUMBER (loading n k) = k5"
    unfolding k5_def m_def by (rule read_file_mem)
  have pn: "ucast (word_of_nat n :: u32) = (word_of_nat n :: u8)"
    using assms(1) by (simp add: word_unat_eq_iff unsigned_ucast_eq take_bit_eq_mod unat_of_nat)
  have start: "page_remap 0x8000000 (0x800000 + word_of_nat n * 0x400000)
      (upd_pcb ?p (\<lambda>p. p\<lparr>parent_kbp := r_ebp k, parent_ksp := r_esp k\<rparr>) k) = loading n k"
    by (simp add: loading_def process_frame_def)
  have args: "strcpy_array xs (arr q) = Some (args @ 0 # drop (Suc (length args)) xs)" if "length xs = 100" for xs
    using strcpy_array_write [OF assms(2)] assms(3) that by simp
  have p: "\<And>xs x. length (fds x) = 8 \<Longrightarrow> init_fds x = x\<lparr>fds := std_fds\<rparr>" by (rule init_fds_std)
  show ?thesis
  proof (cases "first_of_terminal k")
    case True
    then show ?thesis
      using assms(4,5) unfolding start_process_def Let_def start load m_def [symmetric]
      by (simp add: k5_def loading_def started_def Let_def upd_pcb_def upd_terminal_def sti_def page_remap_def
          flush_tlb_def first_of_terminal_def FREE_def AVIL_def args p pn started_pcb_def parent_number_def;
          intro kernel.equality; simp)
  next
    case False
    then show ?thesis
      using assms(4,5,6) unfolding start_process_def Let_def start load m_def [symmetric]
      by (simp add: k5_def loading_def started_def Let_def upd_pcb_def upd_terminal_def sti_def page_remap_def
          flush_tlb_def first_of_terminal_def FREE_def AVIL_def args p pn started_pcb_def parent_number_def;
          intro kernel.equality; simp)
  qed
qed

text \<open>A directory entry that can be executed, and the address where its program starts.\<close>

definition executable_file :: "kernel \<Rightarrow> dentry_t \<Rightarrow> u8 list \<Rightarrow> bool" where
  "executable_file k d contents \<longleftrightarrow> file_ok (FILESYSLOC k) (vmem k) (inodeNumber d) \<and>
     contents = file_contents (FILESYSLOC k) (vmem k) (inodeNumber d) \<and>
     take 4 contents = [0x7F, 0x45, 0x4C, 0x46] \<and> 28 \<le> length contents \<and> length contents \<le> 100000"

definition entry_point :: "u8 list \<Rightarrow> u32" where
  "entry_point contents = load32 (arr contents) 24"

lemma loading_mapped:
  assumes "kernel_mapped k" and "n < 6"
  shows "kernel_mapped (loading n k)" "user_mapped (loading n k)" "user_frame (loading n k) = process_frame (word_of_nat n)"
    "mem (loading n k) = mem k" "FILESYSLOC (loading n k) = FILESYSLOC k"
    "image_in_kernel k \<Longrightarrow> file_ok (FILESYSLOC k) (vmem k) i \<Longrightarrow> same_files k (loading n k)"
proof -
  have pd: "page_directory (loading n k) = (page_directory k)(32 := process_frame (word_of_nat n) OR 0x87)"
    by (simp add: loading_def)
  have on: "paging_on (loading n k) = paging_on k" by (simp add: loading_def)
  show frame: "user_frame (loading n k) = process_frame (word_of_nat n)"
    using frame_4m [OF process_frame_aligned] by (simp add: user_frame_def pd)
  have "0x800000 \<le> unat (process_frame (word_of_nat n))"
    using assms(2) by (subst unat_process_frame) simp_all
  then show km: "kernel_mapped (loading n k)" using assms(1) by (simp add: kernel_mapped_def pd on frame)
  show "user_mapped (loading n k)"
    using assms(1) process_frame_aligned by (auto simp: user_mapped_def pd on kernel_mapped_def)
  show mem: "mem (loading n k) = mem k" by (simp add: loading_def)
  show fs: "FILESYSLOC (loading n k) = FILESYSLOC k" by (simp add: loading_def page_remap_def flush_tlb_def Let_def)
  show "same_files k (loading n k)" if "image_in_kernel k"
    using assms(1) km that by (simp add: same_files_def mem fs)
qed

lemma load_program:
  assumes "kernel_mapped k" and "image_in_kernel k" and "executable_file k d contents" and "n < 6"
  defines "k' \<equiv> read_file (inodeNumber d) 0 LOAD_ADDRESS LARGE_NUMBER (loading n k)"
  shows "bytes (vmem k') LOAD_ADDRESS (length contents) = contents"
proof -
  let ?k = "loading n k"
  have ok: "file_ok (FILESYSLOC k) (vmem k) (inodeNumber d)"
    and c: "contents = file_contents (FILESYSLOC k) (vmem k) (inodeNumber d)" and small: "length contents \<le> 100000"
    using assms(3) unfolding executable_file_def by blast+
  note map = loading_mapped [OF assms(1,4)]
  note same = same_files_facts [OF map(6) [OF assms(2) ok] ok]
  have img: "0x400000 \<le> unat (FILESYSLOC k)" "unat (FILESYSLOC k) + image_size (FILESYSLOC k) (vmem k) \<le> 0x800000"
    using assms(2) by (simp_all add: image_in_kernel_def)
  have disj: "disjoint_range LOAD_ADDRESS (unat LARGE_NUMBER) (FILESYSLOC k) (image_size (FILESYSLOC k) (vmem k))"
    using img by (auto simp: disjoint_range_def LOAD_ADDRESS_def LARGE_NUMBER_def unat_sub_if')
  have "k' = set_vmem (write_bytes LOAD_ADDRESS (take (unat LARGE_NUMBER) contents) (vmem ?k)) ?k"
    unfolding k'_def using read_file_write [of ?k "inodeNumber d" LOAD_ADDRESS LARGE_NUMBER 0] ok disj c
    by (simp add: map(5) same(2,3,4)) (simp add: LARGE_NUMBER_def)
  then have k': "k' = set_vmem (write_bytes LOAD_ADDRESS contents (vmem ?k)) ?k"
    using small by (simp add: LARGE_NUMBER_def)
  show ?thesis
  proof (rule bytes_eqI)
    fix i assume i: "i < length contents"
    have "unat (LOAD_ADDRESS + word_of_nat i - 0x8000000) < 0x400000"
    proof -
      have offset: "LOAD_ADDRESS + word_of_nat i - 0x8000000 = 0x48000 + word_of_nat i" by (simp add: LOAD_ADDRESS_def)
      show ?thesis unfolding offset using i small by (simp add: unat_add32)
    qed
    then have "vmem k' (LOAD_ADDRESS + word_of_nat i) = write_bytes LOAD_ADDRESS contents (vmem ?k) (LOAD_ADDRESS + word_of_nat i)"
      unfolding k' by (intro vmem_set_user [OF map(2)]) (simp add: in_user_page_def)
    then show "vmem k' (LOAD_ADDRESS + word_of_nat i) = contents ! i"
      using i small by (simp add: write_bytes_inside)
  qed simp
qed

lemma load32_cong: "bytes m a 4 = bytes m' b 4 \<Longrightarrow> load32 m a = load32 m' b"
  by (simp add: bytes_4 load32_def)

text \<open>What \<^verbatim>\<open>execute\<close> needs to start a program.\<close>

definition can_execute :: "kernel \<Rightarrow> exec_locals \<Rightarrow> cptr \<Rightarrow> nat \<Rightarrow> u8 list \<Rightarrow> u8 list \<Rightarrow> bool" where
  "can_execute k l command n args contents \<longleftrightarrow> kernel_mapped k \<and> image_in_kernel k \<and>
     kernel_object k (l_buffer l) 4 \<and> length (pid_array k) = 6 \<and> free_pid k = Some n \<and> length args < 100 \<and>
     length (argbuf (pcbs k (get_pcb_ptr_process (word_of_nat n)))) = 100 \<and>
     length (fds (pcbs k (get_pcb_ptr_process (word_of_nat n)))) = 8 \<and>
     (first_of_terminal k \<or>
      get_pcb_ptr_process (scast (apn (terminal k (cur_term k)))) \<noteq> get_pcb_ptr_process (word_of_nat n)) \<and>
     (\<exists>ps as name d. parse_command command (l_parsed_cmd l) (l_arg l) = Some (ps, as) \<and>
        cstr (arr ps) name \<and> cstr (arr as) args \<and> take 4 name \<notin> {ascii ''exit'', ascii ''term''} \<and>
        lookup_name k name = Some d \<and> executable_file k d contents)"

lemma cli_fields [simp]:
  "FILESYSLOC (cli k) = FILESYSLOC k" "vmem (cli k) = vmem k" "mem (cli k) = mem k" "pid_array (cli k) = pid_array k"
  "cur_term (cli k) = cur_term k" "lookup_name (cli k) = lookup_name k"
  "kernel_mapped (cli k) = kernel_mapped k" "image_in_kernel (cli k) = image_in_kernel k"
  "kernel_object (cli k) a n = kernel_object k a n"
  by (simp_all add: cli_def lookup_name_def kernel_mapped_def image_in_kernel_def kernel_object_def paging_on_def
      user_frame_def fun_eq_iff)

lemma word_prefix: "0 \<notin> set w \<Longrightarrow> length w < 4294967296 \<Longrightarrow> cstr (arr (w @ [0])) w"
  by (rule cstr_arr)

lemma not_a_builtin:
  assumes "cstr (arr ps) name" and "take 4 name \<notin> {ascii ''exit'', ascii ''term''}"
  shows "strncmp (literal ''exit'' k) (arr ps) READ_BUFFER_SIZE \<noteq> 0"
    "strncmp (literal ''term_num'' k) (arr ps) READ_BUFFER_SIZE \<noteq> 0"
proof -
  have c: "cstr (literal ''exit'' k) (ascii ''exit'')" "cstr (literal ''term_num'' k) (ascii ''term_num'')"
    unfolding literal_def by (rule word_prefix; simp add: ascii_def)+
  have t: "take 4 (ascii ''exit'') = ascii ''exit''" "take 4 (ascii ''term_num'') = ascii ''term''"
    by (simp_all add: ascii_def)
  have four: "unat READ_BUFFER_SIZE = 4" by (simp add: READ_BUFFER_SIZE_def)
  show "strncmp (literal ''exit'' k) (arr ps) READ_BUFFER_SIZE \<noteq> 0"
    "strncmp (literal ''term_num'' k) (arr ps) READ_BUFFER_SIZE \<noteq> 0"
    using assms(2) unfolding strncmp_eq_0 [OF c(1) assms(1)] strncmp_eq_0 [OF c(2) assms(1)] four t by auto
qed

text \<open>\<^verbatim>\<open>execute\<close> of the shell never calls \<^verbatim>\<open>halt\<close>.\<close>

lemma parse_shell:
  assumes "length ps = 256" and "parse_command (arr (ascii ''shell'' @ 0 # behind)) ps as = Some (ps', as')"
  shows "cstr (arr ps') (ascii ''shell'')"
proof -
  define s where "s = arr (ascii ''shell'' @ 0 # behind)"
  have len: "length (ascii ''shell'') = 5" by (simp add: ascii_def)
  have chars: "s (word_of_nat i) = ascii ''shell'' ! i \<and> word_char (s (word_of_nat i))" if "i < 5" for i
  proof -
    have at: "s (word_of_nat i) = ascii ''shell'' ! i" using that by (simp add: s_def arr_def len nth_append unat_of_nat take_bit_eq_mod)
    have "i \<in> {0, 1, 2, 3, 4}" using that by auto
    then show ?thesis unfolding at by (elim insertE emptyE) (simp_all add: ascii_def word_char_def)
  qed
  have nul: "\<not> word_char (s (word_of_nat 5))" by (simp add: s_def arr_def len word_char_def nth_append)
  have skip: "skip_spaces s 0 = Some 0"
  proof -
    have "s 0 \<noteq> 0x20" using conjunct2 [OF chars [of 0]] by (simp add: word_char_def)
    then show ?thesis using skip_spaces_run [of 0 0 s] by simp
  qed
  have word: "word_char (s (word_of_nat i))" if "i < 5" for i using chars [OF that] by (rule conjunct2)
  have "word_end s (word_of_nat 0) = Some (word_of_nat (0 + 5))" by (rule word_end_run) (use word nul in simp_all)
  then have we: "word_end s 0 = Some 5" by simp
  have "map (\<lambda>i. s (word_of_nat i)) [0..<5] = ascii ''shell''"
    by (rule nth_equalityI) (use chars in \<open>simp_all add: len\<close>)
  then have copy: "copy_chars s 0 [0..<5] ps = Some (ascii ''shell'' @ drop 5 ps)"
    using copy_chars_run [of 5 ps s 0] assms(1) by simp
  have u: "unat (5 :: u8) = 5" "unat (0 :: u8) = 0" by simp_all
  have "drop 5 ps = ps ! 5 # drop 6 ps" using assms(1) Cons_nth_drop_Suc [of 5 ps] by simp
  then have set: "arr_set (ascii ''shell'' @ drop 5 ps) 5 0 = Some (ascii ''shell'' @ 0 # drop 6 ps)"
    using assms(1) by (simp add: arr_set_Some len list_update_append)
  have "ps' = ascii ''shell'' @ 0 # drop 6 ps"
    using assms(2) unfolding parse_command_def s_def [symmetric]
    by (simp only: skip we bind.bind_lunit u copy set) (auto simp: Let_def split: bind_splits if_splits)
  moreover have "cstr (arr (ascii ''shell'' @ 0 # drop 6 ps)) (ascii ''shell'')"
    using assms(1) by (simp add: cstr_def arr_def len nth_append unat_of_nat take_bit_eq_mod) (simp add: ascii_def)
  ultimately show ?thesis by simp
qed

lemma execute_shell_no_halt:
  assumes "length (l_parsed_cmd l) = 256"
  shows "execute_with call_halt l (\<lambda>_. arr (ascii ''shell'' @ 0 # l_behind l)) k = execute_shell l k"
proof (cases "parse_command (arr (ascii ''shell'' @ 0 # l_behind l)) (l_parsed_cmd l) (l_arg l)")
  case None
  then show ?thesis by (simp add: execute_shell_def execute_with_def)
next
  case (Some r)
  obtain ps as where r: "r = (ps, as)" by (cases r)
  have "take 4 (ascii ''shell'') \<notin> {ascii ''exit'', ascii ''term''}" by (simp add: ascii_def)
  then show ?thesis
    using not_a_builtin [OF parse_shell [OF assms Some [unfolded r]]] Some r
    by (simp add: execute_shell_def execute_with_def)
qed

lemma execute_result:
  assumes "can_execute k l (command (cli k)) n args contents"
  defines "k' \<equiv> \<lambda>m. (started n args m k)\<lparr>pid_array := (pid_array k)[n := 1]\<rparr>"
  shows "\<exists>m. execute l l' uninit command k = Some (To_user (entry_point contents) USER_STACK (k' m)) \<and>
    bytes (vmem (k' m)) LOAD_ADDRESS (length contents) = contents"
proof -
  let ?k = "cli k" and ?fs = "FILESYSLOC k"
  have km: "kernel_mapped ?k" "image_in_kernel ?k" "kernel_object ?k (l_buffer l) 4"
    and n: "free_pid k = Some n" "length (pid_array k) = 6" and args: "length args < 100"
    using assms(1) by (simp_all add: can_execute_def)
  obtain ps as name d where parse: "parse_command (command ?k) (l_parsed_cmd l) (l_arg l) = Some (ps, as)"
    and name: "cstr (arr ps) name" "take 4 name \<notin> {ascii ''exit'', ascii ''term''}" and as: "cstr (arr as) args"
    and d: "lookup_name k name = Some d" and ex: "executable_file k d contents"
    using assms(1) unfolding can_execute_def by blast
  let ?ino = "inodeNumber d"
  have n6: "n < 6" using free_pid_facts [OF n(1)] by blast
  have ok: "file_ok (FILESYSLOC ?k) (vmem ?k) ?ino" and c: "file_contents (FILESYSLOC ?k) (vmem ?k) ?ino = contents"
    and magic: "take 4 contents = [0x7F, 0x45, 0x4C, 0x46]" and long: "28 \<le> length contents" "length contents \<le> 100000"
    using ex by (auto simp: executable_file_def)
  define k1 where "k1 = read_file ?ino 0 (l_buffer l) READ_BUFFER_SIZE ?k"
  define k2 where "k2 = read_file ?ino LOCATION_FOR_ENTRY (l_buffer l) READ_BUFFER_SIZE k1"
  have sizes: "unat READ_BUFFER_SIZE = 4" "unat LOCATION_FOR_ENTRY = 24"
    by (simp_all add: READ_BUFFER_SIZE_def LOCATION_FOR_ENTRY_def)
  have buf: "kernel_object ?k (l_buffer l) (unat READ_BUFFER_SIZE)" using km(3) by (simp add: sizes)
  have "unat (0 :: u32) + unat READ_BUFFER_SIZE < 4294967296" by (simp add: sizes)
  note r1 = read_file_kernel [OF km(1,2) ok buf this, folded k1_def, unfolded c sizes]
  note f1 = same_files_facts [OF r1(3) ok]
  obtain m1 where m1: "k1 = ?k\<lparr>mem := m1\<rparr>" using r1(1) by blast
  have km1: "kernel_mapped k1" "image_in_kernel k1" using r1(3) f1(5) by (simp_all add: same_files_def)
  have ok1: "file_ok (FILESYSLOC k1) (vmem k1) ?ino" and c1: "file_contents (FILESYSLOC k1) (vmem k1) ?ino = contents"
    using f1 c by simp_all
  have buf1: "kernel_object k1 (l_buffer l) (unat READ_BUFFER_SIZE)" using buf f1(1,2) by (simp add: kernel_object_def)
  have "unat LOCATION_FOR_ENTRY + unat READ_BUFFER_SIZE < 4294967296" by (simp add: sizes)
  note r2 = read_file_kernel [OF km1 ok1 buf1 this, folded k2_def, unfolded c1 sizes]
  note f2 = same_files_facts [OF r2(3) ok1]
  obtain m2 where m2: "k2 = ?k\<lparr>mem := m2\<rparr>" using r2(1) by (auto simp: m1)
  have "length (take 4 contents) = 4" using long by simp
  then have "bytes (vmem k1) (l_buffer l) 4 = take 4 contents" using r1(2) by simp
  then have b1: "bytes (vmem k1) (l_buffer l) 4 = [0x7F, 0x45, 0x4C, 0x46]" by (simp only: magic)
  have "length (take 4 (drop 24 contents)) = 4" using long by simp
  then have "bytes (vmem k2) (l_buffer l) 4 = take 4 (drop 24 contents)" using r2(2) by simp
  also have "\<dots> = bytes (arr contents) 24 4"
    using long by (intro bytes_eqI [symmetric]) (simp_all add: arr_def unat_add32)
  finally have entry: "load32 (vmem k2) (l_buffer l) = entry_point contents"
    unfolding entry_point_def by (rule load32_cong)
  define k3 where "k3 = k2\<lparr>pid_array := (pid_array k)[n := 1]\<rparr>"
  have pid: "get_proc_num k2 = Some (word_of_nat n, k3)"
    using get_proc_num_result [of k2] n by (simp add: m2 k3_def free_pid_def)
  have not_full: "(word_of_nat n :: i32) \<noteq> - 1"
  proof
    assume "(word_of_nat n :: i32) = - 1"
    then have "(word_of_nat (Suc n) :: i32) = 0" by simp
    moreover have "unat (word_of_nat (Suc n) :: i32) = Suc n" using n6 by (intro unat_of_nat32) simp
    ultimately show False by (simp only: unat_0)
  qed
  let ?p = "get_pcb_ptr_process (word_of_nat n)"
  have k3: "k3 = k\<lparr>iflag := False, mem := m2, pid_array := (pid_array k)[n := 1]\<rparr>" by (simp add: k3_def m2 cli_def)
  define m where "m = mem (read_file ?ino 0 LOAD_ADDRESS LARGE_NUMBER (loading n k3))"
  have start: "start_process ?ino (entry_point contents) (word_of_nat n) as k3 =
      Some (To_user (entry_point contents) USER_STACK (started n args m k3))"
    unfolding m_def using assms(1) args
    by (intro start_process_result [OF n6 as]) (simp_all add: can_execute_def k3 first_of_terminal_def)
  have final: "started n args m k3 = k' m"
    unfolding k'_def started_def Let_def k3
    by (intro kernel.equality) (simp_all add: page_remap_def flush_tlb_def Let_def first_of_terminal_def parent_number_def started_pcb_def)
  have found: "read_dentry_by_name (FILESYSLOC ?k) (vmem ?k) (replicate 33 0) (arr ps) local_dentry = Some (0, d)"
    using lookup_name_reads(2) [OF name(1) d] by simp
  have "run_program l ps as ?k = Some (To_user (entry_point contents) USER_STACK (k' m))"
    using b1 pid not_full start final unfolding run_program_def found
    by (simp add: Let_def k1_def [symmetric] k2_def [symmetric] entry bytes_4 ptr_def)
  then have run: "execute l l' uninit command k = Some (To_user (entry_point contents) USER_STACK (k' m))"
    using not_a_builtin [OF name] by (simp add: execute_def execute_with_def parse)
  have km3: "kernel_mapped k3" "image_in_kernel k3" "executable_file k3 d contents"
    using r2(3) f2 km1 ok1 c1 magic long f1
    by (simp_all add: k3_def same_files_def executable_file_def kernel_mapped_def image_in_kernel_def user_frame_def paging_on_def)
  have "bytes (vmem (read_file ?ino 0 LOAD_ADDRESS LARGE_NUMBER (loading n k3))) LOAD_ADDRESS (length contents) = contents"
    by (rule load_program [OF km3 n6])
  moreover have "vmem (read_file ?ino 0 LOAD_ADDRESS LARGE_NUMBER (loading n k3)) = vmem (k' m)"
    unfolding final [symmetric]
    by (rule vmem_cong) (simp_all add: m_def read_file_def started_def Let_def loading_commute fun_eq_iff)
  ultimately show ?thesis using run by auto
qed

text \<open>What a machine needs that a started process runs on.\<close>

lemma started_fields:
  assumes "n < 6"
  defines "p \<equiv> get_pcb_ptr_process (word_of_nat n)"
  shows "pcbs (started n args m k) p = started_pcb k (word_of_nat n) (parent_number n k) args (pcbs k p)"
    "x \<noteq> p \<Longrightarrow> pcbs (started n args m k) x = pcbs k x"
    "user_frame (started n args m k) = process_frame (word_of_nat n)"
    "paging_on k \<Longrightarrow> user_mapped (started n args m k)"
    "in_kernel_stack (word_of_nat n) (esp0 (tss (started n args m k)))"
proof -
  have pd: "page_directory (started n args m k) = (page_directory k)(32 := process_frame (word_of_nat n) OR 0x87)"
    by (simp add: started_def Let_def)
  have on: "paging_on (started n args m k) = paging_on k"
    by (simp add: started_def Let_def paging_on_def page_remap_def flush_tlb_def)
  show "pcbs (started n args m k) p = started_pcb k (word_of_nat n) (parent_number n k) args (pcbs k p)"
    "x \<noteq> p \<Longrightarrow> pcbs (started n args m k) x = pcbs k x"
    by (simp_all add: started_def Let_def p_def page_remap_def flush_tlb_def)
  show "user_frame (started n args m k) = process_frame (word_of_nat n)"
    using frame_4m [OF process_frame_aligned] by (simp add: user_frame_def pd)
  show "paging_on k \<Longrightarrow> user_mapped (started n args m k)"
    using process_frame_aligned by (auto simp: user_mapped_def pd on)
  have esp: "esp0 (tss (started n args m k)) = 0x800000 - 0x2000 * word_of_nat n - 4"
    by (simp add: started_def Let_def)
  have "n \<in> {0, 1, 2, 3, 4, 5}" using assms(1) by auto
  then show "in_kernel_stack (word_of_nat n) (esp0 (tss (started n args m k)))"
    unfolding esp in_kernel_stack_def get_pcb_ptr_process_def by (elim insertE emptyE) simp_all
qed

section \<open>A machine with a program\<close>

text \<open>The image has one file, \<^verbatim>\<open>shell\<close>, of 28 bytes: the ELF magic number and the entry point.\<close>

definition shell_mem :: mem where
  "shell_mem = (\<lambda>_. 0)(0x500000 := 1, 0x500004 := 1, 0x500008 := 1,
     0x500040 := 0x73, 0x500041 := 0x68, 0x500042 := 0x65, 0x500043 := 0x6C, 0x500044 := 0x6C, 0x500060 := 2,
     0x501000 := 28,
     0x502000 := 0x7F, 0x502001 := 0x45, 0x502002 := 0x4C, 0x502003 := 0x46, 0x502018 := 0x94, 0x502019 := 0x80,
     0x50201A := 0x04, 0x50201B := 0x08)"

definition shell_program :: "u8 list" where
  "shell_program = [0x7F, 0x45, 0x4C, 0x46] @ replicate 20 0 @ [0x94, 0x80, 0x04, 0x08]"

definition shell_kernel :: kernel where
  "shell_kernel = sample_kernel\<lparr>mem := shell_mem\<rparr>"

definition some_locals :: exec_locals where
  "some_locals = \<lparr>l_parsed_cmd = replicate 256 0, l_arg = replicate 100 0, l_buffer = 0x7FFE00, l_eax = 0, l_behind = []\<rparr>"

lemma shell_kernel_mapped: "kernel_mapped shell_kernel"
proof -
  have "paging_on sample_kernel"
    using paging_init_on [of some_kernel] by (simp add: sample_kernel_def paging_on_def)
  moreover have "page_directory sample_kernel 1 = 0x00400083"
    by (simp add: sample_kernel_def init_directory_def)
  ultimately show ?thesis
    using sample_mapped(2) by (simp add: shell_kernel_def kernel_mapped_def paging_on_def user_frame_def)
qed

lemma shell_vmem: "0x400000 \<le> unat v \<Longrightarrow> unat v < 0x800000 \<Longrightarrow> vmem shell_kernel v = shell_mem v"
  using kernel_vmem(1) [OF shell_kernel_mapped] by (simp add: shell_kernel_def)

lemma shell_load32: "0x400000 \<le> unat v \<Longrightarrow> unat v < 0x7FFFFC \<Longrightarrow> load32 (vmem shell_kernel) v = load32 shell_mem v"
proof -
  assume v: "0x400000 \<le> unat v" "unat v < 0x7FFFFC"
  have "unat (v + j) = unat v + unat j" if "unat j < 4" for j using v that by (subst unat_add32) simp_all
  then show ?thesis using v by (simp add: load32_def shell_vmem)
qed

lemma shell_image:
  "FILESYSLOC shell_kernel = 0x500000" "load32 (vmem shell_kernel) 0x500000 = 1"
  "total_inodes 0x500000 (vmem shell_kernel) = 1" "total_blocks 0x500000 (vmem shell_kernel) = 1"
  "image_size 0x500000 (vmem shell_kernel) = 0x3000" "file_size 0x500000 (vmem shell_kernel) 0 = 28"
  "block_no 0x500000 (vmem shell_kernel) 0 0 = 0"
proof -
  show "FILESYSLOC shell_kernel = 0x500000" by (simp add: shell_kernel_def)
  show "load32 (vmem shell_kernel) 0x500000 = 1" by (simp add: shell_load32) (simp add: load32_def shell_mem_def)
qed (simp_all add: total_inodes_def total_blocks_def image_size_def file_size_def inode_addr_def block_no_def
      BLOCK_SIZE_def shell_load32, simp_all add: load32_def shell_mem_def)

lemma shell_contents:
  "file_contents 0x500000 (vmem shell_kernel) 0 =
    shell_program"
proof -
  have byte: "file_byte 0x500000 (vmem shell_kernel) 0 p = shell_mem (0x502000 + word_of_nat p)" if "p < 28" for p
    using that shell_image(3,7)
    by (simp add: file_byte_def data_addr_def BLOCK_SIZE_def shell_vmem unat_add32)
  have "file_contents 0x500000 (vmem shell_kernel) 0 = map (\<lambda>p. shell_mem (0x502000 + word_of_nat p)) [0..<28]"
    using byte by (simp add: file_contents_def shell_image)
  also have "\<dots> = shell_program" by code_simp
  finally show ?thesis .
qed

lemma shell_executable:
  "\<exists>d. lookup_name shell_kernel (ascii ''shell'') = Some d \<and>
    executable_file shell_kernel d shell_program"
proof -
  have "b = 0" if "b * 4096 < (28 :: nat)" for b using that by (cases b) auto
  then have "block_no 0x500000 (vmem shell_kernel) 0 b = 0" if "b * 4096 < 28" for b
    using that shell_image(7) by metis
  then have ok: "file_ok 0x500000 (vmem shell_kernel) 0" using shell_image by (simp add: file_ok_def)
  have at: "dentry_addr 0x500000 0 = 0x500040" by (simp add: dentry_addr_def DENTRYSIZE_def)
  have "bytes (vmem shell_kernel) (dentry_addr 0x500000 0) 32 = bytes shell_mem 0x500040 32"
    unfolding at by (rule bytes_cong) (simp add: shell_vmem unat_add32)
  moreover have "takeWhile (\<lambda>c. c \<noteq> 0) (bytes shell_mem 0x500040 32) = ascii ''shell''" by code_simp
  ultimately have "dentry_name 0x500000 (vmem shell_kernel) 0 = ascii ''shell''" by (simp add: dentry_name_def)
  then have "lookup_name shell_kernel (ascii ''shell'') = Some (dentry_at 0x500000 (vmem shell_kernel) 0)"
    by (simp add: lookup_name_def shell_image)
  moreover have "inodeNumber (dentry_at 0x500000 (vmem shell_kernel) 0) = 0"
    by (simp add: dentry_at_def dentry_addr_def DENTRYSIZE_def shell_load32) (simp add: load32_def shell_mem_def)
  moreover have "take 4 shell_program = [0x7F, 0x45, 0x4C, 0x46]" "length shell_program = 28" by code_simp+
  ultimately show ?thesis using ok shell_contents shell_image(1) by (simp add: executable_file_def)
qed

text \<open>The command line \<^verbatim>\<open>shell\<close> with the argument \<open>a\<close>, typed or as a literal.\<close>

definition shell_line :: "kernel \<Rightarrow> cptr" where
  "shell_line = (\<lambda>_. arr (ascii ''shell a'' @ [0]))"

lemma parse_shell_line:
  "parse_command (shell_line k) (replicate 256 0) (replicate 100 0) =
    Some (ascii ''shell'' @ 0 # replicate 250 0, ascii ''a'' @ 0 # replicate 98 0)"
proof -
  have "replicate 251 (0 :: u8) = 0 # replicate 250 0" by (simp flip: replicate_Suc)
  moreover have "length (ascii ''shell'') = 5" by (simp add: ascii_def)
  ultimately have nul: "(ascii ''shell'' @ replicate 251 0)[5 := 0] = ascii ''shell'' @ 0 # replicate 250 0"
    by (simp add: list_update_append)
  have line: "\<forall>i<length (ascii ''shell a'' @ [0]). shell_line k (word_of_nat i) = (ascii ''shell a'' @ [0]) ! i"
    by (simp add: shell_line_def arr_def ascii_def)
  have split: "ascii ''shell a'' @ [0] = replicate 0 0x20 @ ascii ''shell'' @ 0x20 # ascii ''a'' @ [0]"
    by (simp add: ascii_def)
  show ?thesis
    using parse_command_line [OF line split, of "replicate 256 0" "replicate 100 0"] nul
    by (simp add: ascii_def word_char_def)
qed

lemma shell_can_execute:
  "can_execute shell_kernel some_locals (shell_line k) 0 (ascii ''a'') shell_program"
proof -
  have "cstr (arr (ascii ''shell'' @ 0 # replicate 250 0)) (ascii ''shell'')"
    "cstr (arr (ascii ''a'' @ 0 # replicate 98 0)) (ascii ''a'')"
    by (rule cstr_arr; simp add: ascii_def)+
  moreover obtain d where "lookup_name shell_kernel (ascii ''shell'') = Some d"
    "executable_file shell_kernel d shell_program"
    using shell_executable by blast
  moreover have "take 4 (ascii ''shell'') \<notin> {ascii ''exit'', ascii ''term''}" by (simp add: ascii_def)
  ultimately have parsed: "\<exists>ps as name d. parse_command (shell_line k) (replicate 256 0) (replicate 100 0) = Some (ps, as) \<and>
      cstr (arr ps) name \<and> cstr (arr as) (ascii ''a'') \<and> take 4 name \<notin> {ascii ''exit'', ascii ''term''} \<and>
      lookup_name shell_kernel name = Some d \<and> executable_file shell_kernel d shell_program"
    using parse_shell_line [of k] by blast
  have fields: "pid_array shell_kernel = replicate 6 0" "terminal shell_kernel = (\<lambda>_. zero_terminal)" "cur_term shell_kernel = 0"
    "pcbs shell_kernel = (\<lambda>_. some_pcb)"
    by (simp_all add: shell_kernel_def sample_kernel_def page_remap_def paging_init_def Let_def flush_tlb_def init_pages_eq
        some_kernel_def boot_kernel_def)
  have "free_pid shell_kernel = Some 0" by (simp add: free_pid_def fields upt_rec)
  moreover have "kernel_object shell_kernel 0x7FFE00 4" "image_in_kernel shell_kernel"
    by (simp_all add: kernel_object_def image_in_kernel_def shell_image disjoint_range_def)
  moreover have "length (argbuf some_pcb) = 100" "length (fds some_pcb) = 8" "length (ascii ''a'') < 100"
    by (simp_all add: some_pcb_def ascii_def)
  ultimately show ?thesis
    using shell_kernel_mapped parsed
    by (simp add: can_execute_def fields some_locals_def first_of_terminal_def zero_terminal_def)
qed

text \<open>The same machine when process 0 runs on the first terminal.\<close>

definition busy_kernel :: kernel where
  "busy_kernel = shell_kernel\<lparr>pid_array := [1, 0, 0, 0, 0, 0],
     terminal := (terminal shell_kernel)(0 := zero_terminal\<lparr>active := 1\<rparr>)\<rparr>"

lemma busy_can_execute: "can_execute busy_kernel some_locals (shell_line k) 1 (ascii ''a'') shell_program"
proof -
  have cong: "lookup_name busy_kernel = lookup_name shell_kernel" "executable_file busy_kernel = executable_file shell_kernel"
    "kernel_mapped busy_kernel = kernel_mapped shell_kernel" "image_in_kernel busy_kernel = image_in_kernel shell_kernel"
    "kernel_object busy_kernel = kernel_object shell_kernel"
    by (simp_all add: busy_kernel_def lookup_name_def executable_file_def kernel_mapped_def image_in_kernel_def
        kernel_object_def paging_on_def user_frame_def fun_eq_iff)
  have fields: "cur_term busy_kernel = 0" "pcbs busy_kernel = (\<lambda>_. some_pcb)"
    "active (terminal busy_kernel 0) = 1" "apn (terminal busy_kernel 0) = 0" "pid_array busy_kernel = [1, 0, 0, 0, 0, 0]"
    by (simp_all add: busy_kernel_def shell_kernel_def sample_kernel_def page_remap_def paging_init_def Let_def flush_tlb_def
        init_pages_eq some_kernel_def boot_kernel_def zero_terminal_def)
  have "get_pcb_ptr_process 0 \<noteq> get_pcb_ptr_process 1" by (simp add: get_pcb_ptr_process_def)
  moreover have "length (argbuf some_pcb) = 100" "length (fds some_pcb) = 8" by (simp_all add: some_pcb_def)
  moreover have "free_pid busy_kernel = Some 1" by (simp add: free_pid_def fields upt_rec)
  ultimately show ?thesis
    using shell_can_execute [of k] by (simp add: can_execute_def cong fields)
qed

section \<open>Properties\<close>

text \<open>
  C2. \<^verbatim>\<open>execute\<close> of an executable file of the image: it always gets to user code, at the entry
  point that the file names and with a fresh stack. The file is in memory at \<open>0x8048000\<close>, in
  the frame of the least free process number, which is taken; the control block of that process
  holds the argument, the standard descriptors and the frame to return to; the process is the
  active one of the terminal that is shown; the kernel stack for its system calls is its own;
  no other control block is touched.
\<close>

theorem execute_starts_program:
  assumes "can_execute k l (command (cli k)) n args contents"
  shows "\<exists>k'. execute l l' uninit command k = Some (To_user (entry_point contents) 0x83FFFFC k') \<and>
    bytes (vmem k') 0x8048000 (length contents) = contents \<and>
    user_mapped k' \<and> user_frame k' = process_frame (word_of_nat n) \<and>
    pid_array k ! n = 0 \<and> (\<forall>j<n. pid_array k ! j \<noteq> 0) \<and> pid_array k' = (pid_array k)[n := 1] \<and>
    (let p = pcbs k' (get_pcb_ptr_process (word_of_nat n)) in
       fds p = std_fds \<and> cstr (arr (argbuf p)) args \<and> parent_ksp p = r_esp k \<and> parent_kbp p = r_ebp k \<and>
       process_number p = word_of_nat n \<and> parent_process_number p = parent_number n k \<and> term_ptr p = cur_term k) \<and>
    (\<forall>x. x \<noteq> get_pcb_ptr_process (word_of_nat n) \<longrightarrow> pcbs k' x = pcbs k x) \<and>
    apn (terminal k' (cur_term k)) = word_of_nat n \<and> in_kernel_stack (word_of_nat n) (esp0 (tss k')) \<and> iflag k'"
proof -
  obtain m where m: "execute l l' uninit command k = Some (To_user (entry_point contents) USER_STACK
      ((started n args m k)\<lparr>pid_array := (pid_array k)[n := 1]\<rparr>))"
    "bytes (vmem ((started n args m k)\<lparr>pid_array := (pid_array k)[n := 1]\<rparr>)) LOAD_ADDRESS (length contents) = contents"
    using execute_result [where command = command, OF assms] by blast
  have free: "free_pid k = Some n" and on: "paging_on k" and len: "length args < 100"
    "length (argbuf (pcbs k (get_pcb_ptr_process (word_of_nat n)))) = 100"
    using assms by (simp_all add: can_execute_def kernel_mapped_def)
  note pid = free_pid_facts [OF free]
  note fields = started_fields [OF pid(1)]
  have nul: "0 \<notin> set args" using assms unfolding can_execute_def by (elim conjE exE) (simp add: cstr_def)
  have args: "cstr (arr (args @ 0 # xs)) args" for xs by (rule cstr_arr [OF nul]) (use len(1) in simp)
  let ?k' = "(started n args m k)\<lparr>pid_array := (pid_array k)[n := 1]\<rparr>"
  have "apn (terminal ?k' (cur_term k)) = word_of_nat n" "iflag ?k'" by (simp_all add: started_def Let_def)
  moreover have "user_mapped ?k'" "user_frame ?k' = process_frame (word_of_nat n)"
    using fields(3,4) on by (simp_all add: user_mapped_def user_frame_def paging_on_def)
  ultimately show ?thesis
    using m pid fields by (intro exI [of _ ?k']) (simp add: Let_def USER_STACK_def LOAD_ADDRESS_def started_pcb_def args)
qed

lemma execute_starts_program_witness:
  "\<exists>k'. execute some_locals some_locals 0 shell_line shell_kernel = Some (To_user 0x08048094 0x83FFFFC k') \<and>
     pid_array k' = [1, 0, 0, 0, 0, 0]"
proof -
  have "entry_point shell_program = 0x08048094" by code_simp
  moreover have "pid_array shell_kernel = replicate 6 0"
    by (simp add: shell_kernel_def sample_kernel_def page_remap_def paging_init_def Let_def flush_tlb_def init_pages_eq
        some_kernel_def boot_kernel_def)
  ultimately show ?thesis
    using execute_starts_program [where command = shell_line and l' = some_locals and uninit = 0, OF shell_can_execute]
    by (elim exE conjE) (simp add: numeral_eq_Suc)
qed

text \<open>
  The argument gets through: whatever word follows the program's name on the command line
  of \<^verbatim>\<open>execute\<close>, \<^verbatim>\<open>getargs\<close> called by the new process puts it, with its NUL, into a buffer of
  the process that has room for it. Without an argument \<^verbatim>\<open>getargs\<close> returns -1.
\<close>

lemma getargs_returns_argument:
  assumes "can_execute k l (command (cli k)) n args contents" and "in_kernel_stack (word_of_nat n) esp"
    and "buf \<noteq> 0" and "\<forall>i\<le>length args. in_user_page (buf + word_of_nat i)"
  shows "\<exists>entry stack k'. execute l l' uninit command k = Some (To_user entry stack k') \<and>
    (\<exists>k''. getargs buf nbytes (k'\<lparr>r_esp := esp\<rparr>) = Some (if args = [] then - 1 else 0, k'') \<and>
      (args \<noteq> [] \<longrightarrow> cstr (vptr buf k'') args))"
proof -
  obtain m where m: "execute l l' uninit command k = Some (To_user (entry_point contents) USER_STACK
      ((started n args m k)\<lparr>pid_array := (pid_array k)[n := 1]\<rparr>))"
    using execute_result [where command = command, OF assms(1)] by blast
  define k' where "k' = (started n args m k)\<lparr>pid_array := (pid_array k)[n := 1], r_esp := esp\<rparr>"
  have free: "free_pid k = Some n" and on: "paging_on k" and len: "length args < 100"
    using assms(1) by (simp_all add: can_execute_def kernel_mapped_def)
  have n: "n < 6" using free_pid_facts [OF free] by blast
  have nul: "0 \<notin> set args" using assms(1) unfolding can_execute_def by (elim conjE exE) (simp add: cstr_def)
  have pcb: "get_pcb_ptr k' = get_pcb_ptr_process (word_of_nat n)"
    using get_pcb_ptr_stack [of "word_of_nat n" k'] assms(2) n by (simp add: k'_def)
  obtain xs where ab: "argbuf (pcbs k' (get_pcb_ptr k')) = args @ 0 # xs"
    unfolding pcb by (simp add: k'_def started_fields(1) [OF n] started_pcb_def)
  have src: "cstr (arr (args @ 0 # xs)) args" by (rule cstr_arr [OF nul]) (use len in simp)
  have copy: "strcpy (vmem k') buf (\<lambda>_. arr (args @ 0 # xs)) = Some (write_bytes buf (args @ [0]) (vmem k'))"
    by (rule strcpy_write) (use src len in simp_all)
  have um: "user_mapped k'"
    using started_fields(4) [OF n on] by (simp add: k'_def user_mapped_def paging_on_def)
  show ?thesis
  proof (cases "args = []")
    case True
    then have "getargs buf nbytes k' = Some (- 1, k')"
      using assms(3) ab by (simp add: getargs_def arr_def)
    then show ?thesis using m True by (auto simp: k'_def)
  next
    case False
    then have first: "arr (args @ 0 # xs) 0 \<noteq> 0" using nul by (cases args) (auto simp: arr_def)
    define k'' where "k'' = set_vmem (write_bytes buf (args @ [0]) (vmem k')) k'"
    have "vmem k'' (buf + word_of_nat i) = (args @ [0]) ! i" if "i \<le> length args" for i
      using that assms(4) len vmem_set_user [OF um] by (simp add: k''_def write_bytes_inside)
    then have "cstr (vptr buf k'') args"
      using nul len by (auto simp: cstr_def vptr_def nth_append)
    moreover have "getargs buf nbytes k' = Some (0, k'')"
      using assms(3) ab copy first by (simp add: getargs_def Let_def k''_def)
    ultimately show ?thesis using m False by (auto simp: k'_def)
  qed
qed

text \<open>The process that was started halts.\<close>

lemma pcb_distinct:
  assumes "unat a < 100" and "unat b < 100" and "a \<noteq> b"
  shows "get_pcb_ptr_process a \<noteq> get_pcb_ptr_process b"
  using get_pcb_process_inj [OF assms(1,2)] assms(3) by blast

lemma halt_started:
  assumes "free_pid k = Some n" "length (pid_array k) = 6" and "\<not> first_of_terminal k" and "cur_active_terminal k = cur_term k"
    and "apn (terminal k (cur_term k)) = q" and "process_number (pcbs k (get_pcb_ptr_process (ucast q))) = q"
    and "unat q < 6" and "unat q \<noteq> n" and "in_kernel_stack (word_of_nat n) esp" and "closable fs"
  fixes m' m log args
  defines "p \<equiv> get_pcb_ptr_process (word_of_nat n)"
  defines "k1 \<equiv> upd_pcb p (fds_update (\<lambda>_. fs)) ((started n args m' k)
     \<lparr>pid_array := (pid_array k)[n := 1], mem := m, io_log := log, r_esp := esp\<rparr>)"
  shows "\<exists>log'. halt l uninit status k1 = Some (Resumes (ucast status) ((page_remap 0x8000000 (process_frame (ucast q)) k1)
      \<lparr>io_log := log', iflag := True, pid_array := pid_array k,
       pcbs := (pcbs k1)(p := (pcbs k1 p)\<lparr>fds := map closed_fd fs\<rparr>), terminal := terminal k,
       tss := (tss k1)\<lparr>esp0 := r_esp k\<rparr>, r_esp := r_esp k, r_ebp := r_ebp k\<rparr>))"
    and "x \<noteq> p \<Longrightarrow> pcbs k1 x = pcbs k x" and "mem k1 = m"
proof -
  note pid = free_pid_facts [OF assms(1)]
  note n = pid(1)
  note fields = started_fields [OF n, folded p_def]
  have un: "unat (word_of_nat n :: u8) = n" using n by (intro byte_unat) simp
  have casts: "scast (word_of_nat n :: u8) = (word_of_nat n :: u32)" "scast q = (ucast q :: u32)"
    using n assms(7) by (simp_all add: scast_small byte_cast un)
  have q_n: "q \<noteq> word_of_nat n" using assms(8) un by blast
  have small: "unat (ucast q :: u32) < 100" "unat (word_of_nat n :: u32) < 100" "(ucast q :: u32) \<noteq> word_of_nat n"
    using n assms(7,8) by (auto simp: unat_ucast_u8 unat_of_nat32 word_unat_eq_iff)
  have other: "get_pcb_ptr_process (ucast q) \<noteq> p" unfolding p_def by (rule pcb_distinct [OF small])
  have parent: "parent_number n k = q" using assms(3,5,6) casts by (simp add: parent_number_def)
  have pcb1: "pcbs k1 p = (started_pcb k (word_of_nat n) q args (pcbs k p))\<lparr>fds := fs\<rparr>"
    "x \<noteq> p \<Longrightarrow> pcbs k1 x = pcbs k x" for x
    by (simp_all add: k1_def fields parent)
  have term1: "terminal k1 = (terminal k)(cur_term k := (terminal k (cur_term k))\<lparr>apn := word_of_nat n\<rparr>)"
    "cur_active_terminal k1 = cur_term k" "pid_array k1 = (pid_array k)[n := 1]" "mem k1 = m" "r_esp k1 = esp"
    using assms(3,4) fields(3) by (simp_all add: k1_def started_def Let_def upd_pcb_def)
  have cur: "p = current_process k1" by (simp add: current_process_def term1 casts p_def)
  have par: "parent_process k1 = get_pcb_ptr_process (ucast q)"
    using cur pcb1(1) by (simp add: parent_process_def started_pcb_def)
  have stack: "get_pcb_ptr k1 = p"
    unfolding p_def using assms(9) n by (intro get_pcb_ptr_stack) (simp_all add: term1)
  have pids: "(pid_array k)[n := 0] = pid_array k"
    using pid(2) by (metis list_update_id)
  have terms: "(terminal k)(cur_term k := (terminal k (cur_term k))\<lparr>apn := q\<rparr>) = terminal k"
    using assms(5) by (simp add: fun_eq_iff)
  show "\<exists>log'. halt l uninit status k1 = Some (Resumes (ucast status) ((page_remap 0x8000000 (process_frame (ucast q)) k1)
      \<lparr>io_log := log', iflag := True, pid_array := pid_array k,
       pcbs := (pcbs k1)(p := (pcbs k1 p)\<lparr>fds := map closed_fd fs\<rparr>), terminal := terminal k,
       tss := (tss k1)\<lparr>esp0 := r_esp k\<rparr>, r_esp := r_esp k, r_ebp := r_ebp k\<rparr>))"
    using halt_to_parent [OF _ stack cur, where l = l and uninit = uninit and status = status] assms(6,10) other q_n n assms(2) un
    by (simp add: par pcb1 started_pcb_def term1 pids terms)
  show "x \<noteq> p \<Longrightarrow> pcbs k1 x = pcbs k x" "mem k1 = m" by (simp_all add: pcb1 term1)
qed

text \<open>
  C3. \<^verbatim>\<open>halt\<close> undoes \<^verbatim>\<open>execute\<close>: when the new process halts, with whatever it has written into
  the memory and whichever files it has open, \<^verbatim>\<open>execute\<close> returns the status to its caller: the
  stack pointers are the caller's, its memory is mapped again, its process is the active one
  of the terminal, the process number is free and all descriptors of the ended process are
  closed. Nothing is left of the process in the tables.
\<close>

theorem halt_undoes_execute:
  assumes "can_execute k l (command (cli k)) n args contents"
    and "\<not> first_of_terminal k" and "cur_active_terminal k = cur_term k"
    and "apn (terminal k (cur_term k)) = q" and "process_number (pcbs k (get_pcb_ptr_process (ucast q))) = q"
    and "unat q < 6" and "unat q \<noteq> n" and "in_kernel_stack (word_of_nat n) esp" and "closable fs"
  shows "\<exists>entry stack k'. execute l l' uninit command k = Some (To_user entry stack k') \<and>
    (\<exists>k''. halt l'' uninit status (upd_pcb (get_pcb_ptr_process (word_of_nat n)) (fds_update (\<lambda>_. fs))
        (k'\<lparr>mem := m, io_log := log, r_esp := esp\<rparr>)) = Some (Resumes (ucast status) k'') \<and>
      r_esp k'' = r_esp k \<and> r_ebp k'' = r_ebp k \<and> esp0 (tss k'') = r_esp k \<and>
      user_frame k'' = process_frame (ucast q) \<and> mem k'' = m \<and>
      pid_array k'' = pid_array k \<and> terminal k'' = terminal k \<and>
      (\<forall>x. x \<noteq> get_pcb_ptr_process (word_of_nat n) \<longrightarrow> pcbs k'' x = pcbs k x) \<and>
      (\<forall>f\<in>set (fds (pcbs k'' (get_pcb_ptr_process (word_of_nat n)))). flags f = 0))"
proof -
  let ?p = "get_pcb_ptr_process (word_of_nat n)"
  obtain m' where run: "execute l l' uninit command k = Some (To_user (entry_point contents) USER_STACK
      ((started n args m' k)\<lparr>pid_array := (pid_array k)[n := 1]\<rparr>))"
    using execute_result [where command = command, OF assms(1)] by blast
  have free: "free_pid k = Some n" "length (pid_array k) = 6" using assms(1) by (simp_all add: can_execute_def)
  define k1 where "k1 = upd_pcb ?p (fds_update (\<lambda>_. fs)) ((started n args m' k)
     \<lparr>pid_array := (pid_array k)[n := 1], mem := m, io_log := log, r_esp := esp\<rparr>)"
  note halted = halt_started [OF free assms(2-9), where args = args and m' = m' and m = m and log = log, folded k1_def]
  let ?k = "\<lambda>log'. (page_remap 0x8000000 (process_frame (ucast q)) k1)\<lparr>io_log := log', iflag := True, pid_array := pid_array k,
       pcbs := (pcbs k1)(?p := (pcbs k1 ?p)\<lparr>fds := map closed_fd fs\<rparr>), terminal := terminal k,
       tss := (tss k1)\<lparr>esp0 := r_esp k\<rparr>, r_esp := r_esp k, r_ebp := r_ebp k\<rparr>"
  obtain log' where "halt l'' uninit status k1 = Some (Resumes (ucast status) (?k log'))" using halted(1) by blast
  moreover define k'' where "k'' = ?k log'"
  moreover have "r_esp k'' = r_esp k" "r_ebp k'' = r_ebp k" "esp0 (tss k'') = r_esp k" "user_frame k'' = process_frame (ucast q)"
    "mem k'' = m" "pid_array k'' = pid_array k" "terminal k'' = terminal k"
    "\<forall>x. x \<noteq> ?p \<longrightarrow> pcbs k'' x = pcbs k x" "\<forall>f\<in>set (fds (pcbs k'' ?p)). flags f = 0"
    using halted(2,3) frame_4m [OF process_frame_aligned] by (simp_all add: k''_def user_frame_def closed_fd_def)
  ultimately show ?thesis
    using run unfolding k1_def
    by (rule_tac x = "entry_point contents" in exI, rule_tac x = USER_STACK in exI,
        rule_tac x = "(started n args m' k)\<lparr>pid_array := (pid_array k)[n := 1]\<rparr>" in exI) (simp only:, blast)
qed

lemma halt_undoes_execute_witness:
  "\<exists>entry stack k' k''. execute some_locals some_locals 0 shell_line busy_kernel = Some (To_user entry stack k') \<and>
    halt some_locals 0 7 (upd_pcb (get_pcb_ptr_process 1) (fds_update (\<lambda>_. std_fds))
      (k'\<lparr>mem := \<lambda>_. 0, io_log := [], r_esp := 0x7FDF00\<rparr>)) = Some (Resumes 7 k'') \<and>
    pid_array k'' = [1, 0, 0, 0, 0, 0] \<and> user_frame k'' = process_frame 0"
proof -
  have fields: "cur_term busy_kernel = 0" "cur_active_terminal busy_kernel = 0" "pcbs busy_kernel = (\<lambda>_. some_pcb)"
    "active (terminal busy_kernel 0) = 1" "apn (terminal busy_kernel 0) = 0" "pid_array busy_kernel = [1, 0, 0, 0, 0, 0]"
    by (simp_all add: busy_kernel_def shell_kernel_def sample_kernel_def page_remap_def paging_init_def Let_def flush_tlb_def
        init_pages_eq some_kernel_def boot_kernel_def zero_terminal_def)
  have "in_kernel_stack (word_of_nat 1) 0x7FDF00" by (simp add: in_kernel_stack_def get_pcb_ptr_process_def)
  moreover have "closable std_fds"
    by (simp add: closable_def std_fds_def nth_append nth_Cons split: nat.split)
  moreover have "process_number some_pcb = 0" by (simp add: some_pcb_def)
  ultimately show ?thesis
    using halt_undoes_execute [where command = shell_line and l' = some_locals and l'' = some_locals and uninit = 0
        and status = 7 and q = 0 and esp = "0x7FDF00" and fs = std_fds and m = "\<lambda>_. 0" and log = "[]", OF busy_can_execute]
    by (simp add: fields first_of_terminal_def) blast
qed

text \<open>
  The parser of \<^verbatim>\<open>execute\<close>. A line that starts with the name, then a separator, then a word,
  gives both, whatever the local arrays held before. After leading spaces it does not: the NUL
  is written as many places too far as there are spaces, and what the array held there becomes
  part of the name; and what the word is taken from lies behind the separator even when that
  is the NUL that ends the line.
\<close>

lemma parse_command_words:
  assumes "\<forall>i<length line. command (word_of_nat i) = line ! i"
    and "line = replicate n 0x20 @ name @ d # args @ [t]" and "length line \<le> 256"
    and "name \<noteq> []" and "list_all word_char name" and "\<not> word_char d" and "list_all word_char args" and "\<not> word_char t"
    and "length ps = 256" and "length as = 100" and "length args < 100"
  shows "\<exists>ps' as'. parse_command command ps as = Some (ps', as') \<and> cstr (arr as') args \<and>
    (n = 0 \<longrightarrow> cstr (arr ps') name) \<and>
    (\<forall>c. n = 1 \<and> ps ! length name = c \<and> c \<noteq> 0 \<longrightarrow> cstr (arr ps') (name @ [c]))"
proof -
  have small: "n + length name \<le> 254" "length args < 4294967296" using assms(2,3) by simp_all
  have nul: "0 \<notin> set name" "0 \<notin> set args" using assms(5,7) by (auto simp: list_all_iff word_char_def)
  have zero: "cstr (arr ((name @ drop (length name) ps)[n + length name := 0])) name" if "n = 0"
  proof -
    have "drop (length name) ps = ps ! length name # drop (Suc (length name)) ps"
      using small assms(9) by (intro Cons_nth_drop_Suc [symmetric]) simp
    then have "(name @ drop (length name) ps)[n + length name := 0] = name @ 0 # drop (Suc (length name)) ps"
      using that by (simp add: list_update_append)
    then show ?thesis using nul small by (simp add: cstr_arr)
  qed
  have one: "cstr (arr ((name @ drop (length name) ps)[n + length name := 0])) (name @ [ps ! length name])"
    if "n = 1" "ps ! length name \<noteq> 0"
  proof -
    have d: "drop (length name) ps = ps ! length name # ps ! Suc (length name) # drop (Suc (Suc (length name))) ps"
      using small assms(9) by (simp add: Cons_nth_drop_Suc)
    have "(name @ drop (length name) ps)[n + length name := 0] = (name @ [ps ! length name]) @ 0 # drop (Suc (Suc (length name))) ps"
      using that(1) by (subst d) (simp add: list_update_append)
    moreover have "cstr (arr ((name @ [ps ! length name]) @ 0 # drop (Suc (Suc (length name))) ps)) (name @ [ps ! length name])"
      using nul small that(2) by (intro cstr_arr) auto
    ultimately show ?thesis by simp
  qed
  have "cstr (arr (args @ 0 # drop (Suc (length args)) as)) args" by (rule cstr_arr [OF nul(2) small(2)])
  then show ?thesis
    using parse_command_line [OF assms(1-11)] zero one by auto
qed

end
