(* ===== verification/Terminal.thy ===== *)
theory Terminal
  imports Process
begin

text \<open>
  The three terminals: the first part of \<^verbatim>\<open>student-distrib/terminal.c\<close>. The terminal that is
  shown owns the video memory, the cursor and the key buffer index; the others have theirs saved
  in \<^verbatim>\<open>terminal[i]\<close> and in a page above 100 MB that is mapped to its own address, so that copies
  between the two work on \<open>mem\<close>.
\<close>

unbundle bit_operations_syntax

section \<open>Definitions\<close>

definition MAX_TERM :: u8 where "MAX_TERM = 3"
definition LOCATION :: u32 where "LOCATION = 2 * NUM_ROWS * NUM_COLS"

definition save_restore :: "u8 \<Rightarrow> u8 \<Rightarrow> kernel \<Rightarrow> (i32 \<times> kernel) option" where
  "save_restore term_num s_or_r k =
     (if s_or_r = 0 then
        let k = upd_terminal term_num (pos_x_update (\<lambda>_. get_screen_x k)) k;
            k = upd_terminal term_num (pos_y_update (\<lambda>_. get_screen_y k)) k;
            k = upd_terminal term_num (t_key_buffer_idx_update (\<lambda>_. key_buffer_idx k)) k;
            k = k\<lparr>mem := memcpy (mem k) (t_video_mem (terminal k term_num)) VIDEO LOCATION\<rparr>
        in Some (0, k)
      else
        let k = k\<lparr>key_buffer_idx := t_key_buffer_idx (terminal k term_num)\<rparr> in do {
          k \<leftarrow> set_screen_pos (pos_x (terminal k term_num)) (pos_y (terminal k term_num)) k;
          let k = k\<lparr>mem := memcpy (mem k) VIDEO (t_video_mem (terminal k term_num)) LOCATION\<rparr>;
          Some (0, k) })"

definition switch_helper :: "u8 \<Rightarrow> u8 \<Rightarrow> kernel \<Rightarrow> (i32 \<times> kernel) option" where
  "switch_helper old new k = do {
     (r, k) \<leftarrow> save_restore old 0 k;
     if r = - 1 then Some (- 1, k)
     else do {
       (r, k) \<leftarrow> save_restore new 1 k;
       if r = - 1 then Some (- 1, k) else Some (0, k) } }"

text \<open>
  \<^verbatim>\<open>vidmap(&local)\<close>: a local variable is at none of the two refused addresses, and then holds
  \<open>VIDMAP_ADDR\<close>.
\<close>

definition vidmap_local :: "kernel \<Rightarrow> addr \<times> kernel" where
  "vidmap_local k = (VIDMAP_ADDR, table_remap VIDMAP_ADDR VIDEO k)"

text \<open>Switching to a terminal on which a program runs, and the first half of starting a terminal.\<close>

definition switch_to_active :: "u8 \<Rightarrow> kernel \<Rightarrow> (i32 \<times> kernel) option" where
  "switch_to_active term_num k = do {
     (r, k) \<leftarrow> switch_helper (cur_term k) term_num k;
     if r = - 1 then Some (- 1, k)
     else
       let k = k\<lparr>key_buffer := Some term_num\<rparr>;
           k = k\<lparr>cur_term := term_num\<rparr>;
           (scr_str, k) = vidmap_local k;
           k = (if t_id (terminal k (cur_active_terminal k)) \<noteq> cur_term k
                then vidmem_remap scr_str (t_video_mem (terminal k (cur_active_terminal k))) k else k)
       in Some (0, k) }"

definition switch_to_new :: "u8 \<Rightarrow> kernel \<Rightarrow> kernel option" where
  "switch_to_new term_num k = do {
     (_, k) \<leftarrow> save_restore (cur_term k) 0 k;
     let k = k\<lparr>cur_term := term_num\<rparr>;
         old_pcb = get_pcb_ptr_process (scast (apn (terminal k (cur_active_terminal k))));
         k = k\<lparr>key_buffer := Some term_num\<rparr> in do {
       (_, k) \<leftarrow> save_restore term_num 1 k;
       Some (sti (upd_pcb old_pcb (\<lambda>p. p\<lparr>p_ebp := r_ebp k, p_esp := r_esp k\<rparr>) k)) } }"

text \<open>\<^verbatim>\<open>execute(...); return 0;\<close>\<close>

fun return_0 :: "outcome \<Rightarrow> outcome" where
  "return_0 (Returns r k) = Returns 0 k"
| "return_0 (To_user entry esp k) = To_user entry esp k"
| "return_0 (Resumes r k) = Resumes r k"

definition switch_terminal :: "exec_locals \<Rightarrow> u8 \<Rightarrow> kernel \<Rightarrow> outcome option" where
  "switch_terminal l term_num k =
     (let k = cli k in
      if term_num > MAX_TERM - 1 then Some (Returns (- 1) k)
      else if term_num = cur_term k then Some (Returns 0 k)
      else if active (terminal k term_num) = 1 then
        map_option (\<lambda>(r, k). Returns r k) (switch_to_active term_num k)
      else do {
        k \<leftarrow> switch_to_new term_num k;
        out \<leftarrow> execute_shell l k;
        Some (return_0 out) })"

text \<open>One round of the loop of \<^verbatim>\<open>init_terminal\<close>.\<close>

definition init_one_terminal :: "u8 \<Rightarrow> kernel \<Rightarrow> kernel" where
  "init_one_terminal i k =
     (let k = upd_terminal i (\<lambda>t. t\<lparr>t_id := i, pos_x := 0, pos_y := 0, active := 0, apn := - 1,
            t_key_buffer_idx := 0, eflag := 0\<rparr>) k;
          k = upd_terminal i (t_key_buffer_update (\<lambda>xs. fold (\<lambda>j xs. xs[j := 0]) [0..<127] xs)) k;
          page = 0x6400000 + (ucast i + 1) * 0x1000;
          k = table_to_page_mapping 0x6400000 page (ucast i + 1) k;
          k = upd_terminal i (t_video_mem_update (\<lambda>_. page)) k
      in fold (\<lambda>j k.
           let k = poke (t_video_mem (terminal k i) + push_bit 1 (word_of_nat j)) 0x20 k
           in poke (t_video_mem (terminal k i) + push_bit 1 (word_of_nat j) + 1) (attribute i) k) [0..<2000] k)"

definition setup_terminals :: "kernel \<Rightarrow> kernel option" where
  "setup_terminals k =
     (let k = fold init_one_terminal [0, 1, 2] k;
          k = k\<lparr>key_buffer := Some 0\<rparr> in do {
        (_, k) \<leftarrow> save_restore 0 1 k;
        Some (k\<lparr>cur_term := 0\<rparr>) })"

definition init_terminal :: "exec_locals \<Rightarrow> kernel \<Rightarrow> outcome option" where
  "init_terminal l k = Option.bind (setup_terminals k) (execute_shell l)"

section \<open>What a terminal shows\<close>

text \<open>
  The state of terminal \<open>t\<close> wherever it is kept: the cells of its screen, its cursor, how much
  of a line has been typed, and the line.
\<close>

definition screen_of :: "kernel \<Rightarrow> u8 \<Rightarrow> u8 list \<times> u32 \<times> u32 \<times> u8 \<times> u8 list" where
  "screen_of k t =
     (if t = cur_term k
      then (bytes (mem k) VIDEO 4000, screen_x k, screen_y k, key_buffer_idx k, t_key_buffer (terminal k t))
      else let s = terminal k t in
        (bytes (mem k) (t_video_mem s) 4000, pos_x s, pos_y s, t_key_buffer_idx s, t_key_buffer s))"

definition term_page :: "u8 \<Rightarrow> addr" where
  "term_page t = 0x6400000 + (ucast t + 1) * 0x1000"

definition terminals_ok :: "kernel \<Rightarrow> bool" where
  "terminals_ok k \<longleftrightarrow> cur_term k < 3 \<and> screen_ok k \<and> key_buffer k = Some (cur_term k) \<and>
     (\<forall>t<3. t_id (terminal k t) = t \<and> t_video_mem (terminal k t) = term_page t \<and>
       pos_x (terminal k t) < 80 \<and> pos_y (terminal k t) < 25)"

lemma LOCATION_4000: "unat LOCATION = 4000"
  by (simp add: LOCATION_def NUM_ROWS_def NUM_COLS_def)

lemma term_page_values: "term_page 0 = 0x6401000" "term_page 1 = 0x6402000" "term_page 2 = 0x6403000"
  by (simp_all add: term_page_def)

text \<open>The pages and the video memory do not overlap.\<close>

lemma pages_disjoint:
  assumes "t < 3"
  shows "disjoint_range (term_page t) 4000 VIDEO 4000" "disjoint_range VIDEO 4000 (term_page t) 4000"
    "t' < 3 \<Longrightarrow> t' \<noteq> t \<Longrightarrow> disjoint_range (term_page t) 4000 (term_page t') 4000"
  using term_cases [OF assms] term_cases [of t'] by (auto simp: disjoint_range_def VIDEO_def term_page_values)

lemma disjoint_copy: "disjoint_range a n b n \<Longrightarrow> copy_up_safe a b n"
  by (auto simp: disjoint_range_def copy_up_safe_def)

lemma bytes_copy_other:
  assumes "disjoint_range a n b n" and "n < 4294967296" and "length xs = n"
  shows "bytes (write_bytes a xs m) b n = bytes m b n"
proof (rule bytes_cong)
  fix i assume "i < n"
  then have "\<not> in_range a n (b + word_of_nat i)"
    using disjoint_range_excl [OF disjoint_range_sym [OF assms(1)]] in_range_offset [of i n b] assms(2) by auto
  then show "write_bytes a xs m (b + word_of_nat i) = m (b + word_of_nat i)"
    using assms(2,3) by (simp add: write_bytes_outside)
qed

lemma save_result:
  assumes "t < 3" and "t_video_mem (terminal k t) = term_page t"
  shows "save_restore t 0 k = Some (0, k\<lparr>
     terminal := (terminal k)(t := (terminal k t)\<lparr>pos_x := screen_x k, pos_y := screen_y k, t_key_buffer_idx := key_buffer_idx k\<rparr>),
     mem := write_bytes (term_page t) (bytes (mem k) VIDEO 4000) (mem k)\<rparr>)"
  using memcpy_write [of "term_page t" VIDEO LOCATION "mem k"] disjoint_copy [OF pages_disjoint(1) [OF assms(1)]] assms(2)
  by (simp add: save_restore_def upd_terminal_def get_screen_x_def get_screen_y_def LOCATION_4000 Let_def)

lemma restore_result:
  assumes "t < 3" and "t_video_mem (terminal k t) = term_page t" and "pos_x (terminal k t) < 80" "pos_y (terminal k t) < 25"
  shows "\<exists>log. save_restore t 1 k = Some (0, k\<lparr>
     key_buffer_idx := t_key_buffer_idx (terminal k t), screen_x := pos_x (terminal k t), screen_y := pos_y (terminal k t),
     io_log := log, mem := write_bytes VIDEO (bytes (mem k) (term_page t) 4000) (mem k)\<rparr>)"
proof -
  let ?k = "k\<lparr>key_buffer_idx := t_key_buffer_idx (terminal k t), screen_x := pos_x (terminal k t), screen_y := pos_y (terminal k t)\<rparr>"
  obtain log where "set_cursor_pos ?k = ?k\<lparr>io_log := log\<rparr>" using set_cursor_pos_log by blast
  then show ?thesis
    using memcpy_write [of VIDEO "term_page t" LOCATION "mem k"] disjoint_copy [OF pages_disjoint(2) [OF assms(1)]] assms(2-4)
    by (intro exI [of _ log]) (simp add: save_restore_def set_screen_pos_inside LOCATION_4000)
qed

text \<open>What a switch of page tables leaves.\<close>

lemma remap_fields [simp]:
  "mem (table_remap v p k) = mem k" "terminal (table_remap v p k) = terminal k" "cur_term (table_remap v p k) = cur_term k"
  "screen_x (table_remap v p k) = screen_x k" "screen_y (table_remap v p k) = screen_y k"
  "key_buffer_idx (table_remap v p k) = key_buffer_idx k" "key_buffer (table_remap v p k) = key_buffer k"
  "cur_active_terminal (table_remap v p k) = cur_active_terminal k"
  "mem (vidmem_remap v p k) = mem k" "terminal (vidmem_remap v p k) = terminal k" "cur_term (vidmem_remap v p k) = cur_term k"
  "screen_x (vidmem_remap v p k) = screen_x k" "screen_y (vidmem_remap v p k) = screen_y k"
  "key_buffer_idx (vidmem_remap v p k) = key_buffer_idx k" "key_buffer (vidmem_remap v p k) = key_buffer k"
  "cur_active_terminal (vidmem_remap v p k) = cur_active_terminal k"
  "tables_linked (table_remap v p k) = tables_linked k" "paging_on (table_remap v p k) = paging_on k"
  "tables_linked (vidmem_remap v p k) = tables_linked k" "paging_on (vidmem_remap v p k) = paging_on k"
  by (simp_all add: table_remap_def vidmem_remap_def flush_tlb_def Let_def tables_linked_def paging_on_def)

lemma remap_more [simp]:
  "pid_array (table_remap v p k) = pid_array k" "pcbs (table_remap v p k) = pcbs k" "tss (table_remap v p k) = tss k"
  "r_esp (table_remap v p k) = r_esp k" "r_ebp (table_remap v p k) = r_ebp k"
  "next_sched_terminal (table_remap v p k) = next_sched_terminal k"
  "pid_array (vidmem_remap v p k) = pid_array k" "pcbs (vidmem_remap v p k) = pcbs k" "tss (vidmem_remap v p k) = tss k"
  "r_esp (vidmem_remap v p k) = r_esp k" "r_ebp (vidmem_remap v p k) = r_ebp k"
  by (simp_all add: table_remap_def vidmem_remap_def flush_tlb_def Let_def)

lemma vidmem_page_directory:
  "v div CONVERT_4MB \<noteq> 32 \<Longrightarrow> page_directory (vidmem_remap v p k) 32 = page_directory k 32"
  "v div CONVERT_4MB \<noteq> 32 \<Longrightarrow> page_directory (table_remap v p k) 32 = page_directory k 32"
  by (simp_all add: vidmem_remap_def table_remap_def flush_tlb_def Let_def)

text \<open>
  What everything but the start, the end and the switch of programs leaves: which terminal is
  scheduled, which process is active on which terminal, the table of the process numbers, the
  task state segment, the page of the program at 128 MB, and in the control blocks the saved
  stack pointer, the terminal and the number.
\<close>

definition books_kept :: "kernel \<Rightarrow> kernel \<Rightarrow> bool" where
  "books_kept k k' \<longleftrightarrow> cur_active_terminal k' = cur_active_terminal k \<and> tss k' = tss k \<and> pid_array k' = pid_array k \<and>
     tables_linked k' = tables_linked k \<and> paging_on k' = paging_on k \<and> page_directory k' 32 = page_directory k 32 \<and>
     (\<forall>t. active (terminal k' t) = active (terminal k t) \<and> apn (terminal k' t) = apn (terminal k t)) \<and>
     (\<forall>p. p_esp (pcbs k' p) = p_esp (pcbs k p) \<and> term_ptr (pcbs k' p) = term_ptr (pcbs k p) \<and>
       process_number (pcbs k' p) = process_number (pcbs k p))"

lemma screen_of_cong:
  "mem k' = mem k \<Longrightarrow> terminal k' = terminal k \<Longrightarrow> cur_term k' = cur_term k \<Longrightarrow> screen_x k' = screen_x k \<Longrightarrow>
   screen_y k' = screen_y k \<Longrightarrow> key_buffer_idx k' = key_buffer_idx k \<Longrightarrow> screen_of k' t = screen_of k t"
  by (simp add: screen_of_def Let_def)

text \<open>The page at 136 MB, that user programs draw on.\<close>

lemma vidmap_page:
  assumes "off < 0x1000"
  shows "(VIDMAP_ADDR + off) div 0x400000 = 34" "(VIDMAP_ADDR + off) mod 0x400000 div 0x1000 = 0" "(VIDMAP_ADDR + off) mod 0x1000 = off"
proof -
  have o: "unat off < 0x1000" using assms by (simp add: word_less_unat)
  have u: "unat (VIDMAP_ADDR + off) = 0x8800000 + unat off"
    using o by (subst unat_add32) (simp_all add: VIDMAP_ADDR_def)
  have d: "(0x8800000 + unat off) div 0x400000 = 34" using o by (intro div_nat_eqI) simp_all
  have m: "(0x8800000 + unat off) mod 0x400000 = unat off" using o by (simp add: mod_if)
  show "(VIDMAP_ADDR + off) div 0x400000 = 34" by (simp add: word_unat_eq_iff unat_div_distrib u d)
  show "(VIDMAP_ADDR + off) mod 0x400000 div 0x1000 = 0"
    using o by (simp add: word_unat_eq_iff unat_div_distrib unat_mod_distrib u m)
  have "(34816 * 4096 + unat off) mod 4096 = unat off" using o by (simp only: mod_mult_self3) simp
  then show "(VIDMAP_ADDR + off) mod 0x1000 = off" by (simp add: word_unat_eq_iff unat_mod_distrib u)
qed

lemma table_remap_maps:
  assumes "tables_linked k" and "paging_on k" and "p mod 0x1000 = 0" and "off < 0x1000"
  shows "translate (table_remap VIDMAP_ADDR p k) (VIDMAP_ADDR + off) = Some (p + off, True)"
proof -
  let ?k = "table_remap VIDMAP_ADDR p k"
  note v = vidmap_page [OF assms(4)]
  have "VIDMAP_ADDR div CONVERT_4MB = 34" by (simp add: VIDMAP_ADDR_def CONVERT_4MB_def)
  then have pd: "page_directory ?k ((VIDMAP_ADDR + off) div 0x400000) = user_page_table_addr k OR 7"
    by (simp add: v table_remap_def flush_tlb_def Let_def PAGE_TABLE_PRESENT_ENTRY_def)
  have ta: "table_at (user_page_table_addr k) ?k = Some (user_page_table ?k)"
    using assms(1) by (auto simp: table_at_def table_remap_def flush_tlb_def Let_def tables_linked_def)
  have al: "user_page_table_addr k mod 0x1000 = 0" using assms(1) by (simp add: tables_linked_def)
  have e: "user_page_table ?k ((VIDMAP_ADDR + off) mod 0x400000 div 0x1000) = p OR 7"
    by (simp add: v table_remap_def flush_tlb_def Let_def PAGE_TABLE_PRESENT_ENTRY_def)
  show ?thesis using translate_4k [OF _ pd al ta e assms(3)] assms(2) by (simp add: v)
qed

lemma vidmem_remap_maps:
  assumes "tables_linked k" and "paging_on k" and "p mod 0x1000 = 0" and "off < 0x1000"
  shows "translate (vidmem_remap VIDMAP_ADDR p k) (VIDMAP_ADDR + off) = Some (p + off, True)"
proof -
  let ?k = "vidmem_remap VIDMAP_ADDR p k"
  note v = vidmap_page [OF assms(4)]
  have "VIDMAP_ADDR div CONVERT_4MB = 34" by (simp add: VIDMAP_ADDR_def CONVERT_4MB_def)
  then have pd: "page_directory ?k ((VIDMAP_ADDR + off) div 0x400000) = video_page_table_addr k OR 7"
    by (simp add: v vidmem_remap_def flush_tlb_def Let_def PAGE_TABLE_PRESENT_ENTRY_def)
  have ta: "table_at (video_page_table_addr k) ?k = Some (video_page_table ?k)"
    using assms(1) by (auto simp: table_at_def vidmem_remap_def flush_tlb_def Let_def tables_linked_def)
  have al: "video_page_table_addr k mod 0x1000 = 0" using assms(1) by (simp add: tables_linked_def)
  have e: "video_page_table ?k ((VIDMAP_ADDR + off) mod 0x400000 div 0x1000) = p OR 7"
    by (simp add: v vidmem_remap_def flush_tlb_def Let_def PAGE_TABLE_PRESENT_ENTRY_def)
  show ?thesis using translate_4k [OF _ pd al ta e assms(3)] assms(2) by (simp add: v)
qed

lemma video_aligned: "VIDEO mod 0x1000 = 0" "t < 3 \<Longrightarrow> term_page t mod 0x1000 = 0"
  using term_cases [of t] by (auto simp: VIDEO_def term_page_values)

text \<open>The two copies of a switch.\<close>

definition swapped_mem :: "u8 \<Rightarrow> u8 \<Rightarrow> mem \<Rightarrow> mem" where
  "swapped_mem old new m =
     (let m1 = write_bytes (term_page old) (bytes m VIDEO 4000) m
      in write_bytes VIDEO (bytes m1 (term_page new) 4000) m1)"

lemma swapped_bytes:
  assumes "old < 3" "new < 3" "old \<noteq> new"
  shows "bytes (swapped_mem old new m) VIDEO 4000 = bytes m (term_page new) 4000"
    and "bytes (swapped_mem old new m) (term_page old) 4000 = bytes m VIDEO 4000"
    and "t < 3 \<Longrightarrow> t \<noteq> old \<Longrightarrow> bytes (swapped_mem old new m) (term_page t) 4000 = bytes m (term_page t) 4000"
proof -
  define m1 where "m1 = write_bytes (term_page old) (bytes m VIDEO 4000) m"
  have sw: "swapped_mem old new m = write_bytes VIDEO (bytes m1 (term_page new) 4000) m1"
    by (simp add: swapped_mem_def m1_def Let_def)
  have b: "bytes (write_bytes a xs k) a 4000 = xs" if "length xs = 4000" for a xs k
    using bytes_write_bytes [of xs a k] that by simp
  have m1: "bytes m1 (term_page t) 4000 = bytes m (term_page t) 4000" if "t < 3" "t \<noteq> old" for t
    unfolding m1_def using pages_disjoint(3) [OF assms(1)] that by (intro bytes_copy_other) auto
  have video: "bytes (swapped_mem old new m) (term_page t) 4000 = bytes m1 (term_page t) 4000" if "t < 3" for t
    unfolding sw by (rule bytes_copy_other [OF pages_disjoint(2) [OF that]]) simp_all
  show "bytes (swapped_mem old new m) VIDEO 4000 = bytes m (term_page new) 4000"
    unfolding sw using m1 assms(2,3) by (simp add: b)
  show "bytes (swapped_mem old new m) (term_page old) 4000 = bytes m VIDEO 4000"
    unfolding video [OF assms(1)] by (simp add: m1_def b)
  show "t < 3 \<Longrightarrow> t \<noteq> old \<Longrightarrow> bytes (swapped_mem old new m) (term_page t) 4000 = bytes m (term_page t) 4000"
    using video m1 by simp
qed

lemma switch_helper_result:
  assumes "terminals_ok k" and "new < 3" and "new \<noteq> cur_term k"
  defines "old \<equiv> cur_term k"
  shows "\<exists>log. switch_helper old new k = Some (0, k\<lparr>
     terminal := (terminal k)(old := (terminal k old)\<lparr>pos_x := screen_x k, pos_y := screen_y k, t_key_buffer_idx := key_buffer_idx k\<rparr>),
     key_buffer_idx := t_key_buffer_idx (terminal k new), screen_x := pos_x (terminal k new), screen_y := pos_y (terminal k new),
     io_log := log, mem := swapped_mem old new (mem k)\<rparr>)"
proof -
  define k1 where "k1 = k\<lparr>terminal := (terminal k)(old := (terminal k old)\<lparr>pos_x := screen_x k, pos_y := screen_y k,
      t_key_buffer_idx := key_buffer_idx k\<rparr>), mem := write_bytes (term_page old) (bytes (mem k) VIDEO 4000) (mem k)\<rparr>"
  have old: "old < 3" "t_video_mem (terminal k old) = term_page old"
    and new: "t_video_mem (terminal k new) = term_page new" "pos_x (terminal k new) < 80" "pos_y (terminal k new) < 25"
    using assms by (simp_all add: terminals_ok_def)
  have save: "save_restore old 0 k = Some (0, k1)" unfolding k1_def by (rule save_result [OF old])
  have t1: "terminal k1 new = terminal k new" using assms(3) by (simp add: k1_def old_def)
  obtain log where "save_restore new 1 k1 = Some (0, k1\<lparr>key_buffer_idx := t_key_buffer_idx (terminal k new),
      screen_x := pos_x (terminal k new), screen_y := pos_y (terminal k new), io_log := log,
      mem := write_bytes VIDEO (bytes (mem k1) (term_page new) 4000) (mem k1)\<rparr>)"
    using restore_result [of new k1] assms(2) new unfolding t1 by blast
  then show ?thesis
    using save by (intro exI [of _ log]) (simp add: switch_helper_def k1_def swapped_mem_def Let_def)
qed

text \<open>Switching is nothing but a change of the terminal that is shown.\<close>

lemma switch_to_active_result:
  assumes "terminals_ok k" and "new < 3" and "new \<noteq> cur_term k" and "tables_linked k" and "paging_on k"
    and "cur_active_terminal k < 3"
  shows "\<exists>k'. switch_to_active new k = Some (0, k') \<and> cur_term k' = new \<and> terminals_ok k' \<and>
    (\<forall>t<3. screen_of k' t = screen_of k t) \<and> books_kept k k' \<and>
    (\<forall>off<0x1000. translate k' (VIDMAP_ADDR + off) =
       Some ((if cur_active_terminal k = new then VIDEO else term_page (cur_active_terminal k)) + off, True))"
proof -
  define old where "old = cur_term k"
  obtain log where helper: "switch_helper old new k = Some (0, k\<lparr>
     terminal := (terminal k)(old := (terminal k old)\<lparr>pos_x := screen_x k, pos_y := screen_y k, t_key_buffer_idx := key_buffer_idx k\<rparr>),
     key_buffer_idx := t_key_buffer_idx (terminal k new), screen_x := pos_x (terminal k new), screen_y := pos_y (terminal k new),
     io_log := log, mem := swapped_mem old new (mem k)\<rparr>)"
    using switch_helper_result [OF assms(1-3)] unfolding old_def by blast
  define k1 where "k1 = k\<lparr>
     terminal := (terminal k)(old := (terminal k old)\<lparr>pos_x := screen_x k, pos_y := screen_y k, t_key_buffer_idx := key_buffer_idx k\<rparr>),
     key_buffer_idx := t_key_buffer_idx (terminal k new), screen_x := pos_x (terminal k new), screen_y := pos_y (terminal k new),
     io_log := log, mem := swapped_mem old new (mem k), key_buffer := Some new, cur_term := new\<rparr>"
  define a where "a = cur_active_terminal k"
  define k2 where "k2 = table_remap VIDMAP_ADDR VIDEO k1"
  define k' where "k' = (if a \<noteq> new then vidmem_remap VIDMAP_ADDR (term_page a) k2 else k2)"
  have ok: "old < 3" "screen_ok k" "\<And>t. t < 3 \<Longrightarrow> t_id (terminal k t) = t \<and> t_video_mem (terminal k t) = term_page t \<and>
       pos_x (terminal k t) < 80 \<and> pos_y (terminal k t) < 25"
    using assms(1) by (simp_all add: terminals_ok_def old_def)
  have old_new: "old \<noteq> new" using assms(3) by (simp add: old_def)
  have a: "t_id (terminal k1 a) = a" "t_video_mem (terminal k1 a) = term_page a"
    using ok(1,3) assms(6) by (auto simp: k1_def a_def)
  have run: "switch_to_active new k = Some (0, k')"
    using helper a by (simp add: switch_to_active_def old_def [symmetric] vidmap_local_def k'_def k2_def k1_def a_def Let_def)
  have ok1: "terminals_ok k1"
    using ok assms(2) by (auto simp: terminals_ok_def k1_def screen_ok_def)
  have fields: "mem k' = mem k1" "terminal k' = terminal k1" "cur_term k' = new" "screen_x k' = screen_x k1"
    "screen_y k' = screen_y k1" "key_buffer_idx k' = key_buffer_idx k1" "key_buffer k' = key_buffer k1"
    "cur_active_terminal k' = cur_active_terminal k"
    by (simp_all add: k'_def k2_def) (simp_all add: k1_def)
  have "terminals_ok k'" using ok1 by (simp add: terminals_ok_def screen_ok_def fields) (simp add: k1_def)
  moreover have "screen_of k' t = screen_of k t" if t: "t < 3" for t
  proof -
    note sw = swapped_bytes [OF ok(1) assms(2) old_new]
    have "screen_of k1 t = screen_of k t"
      using ok(1,3) t old_new assms(2) sw by (auto simp: screen_of_def k1_def old_def Let_def)
    moreover have "screen_of k' t = screen_of k1 t" by (rule screen_of_cong) (simp_all add: fields, simp add: k1_def)
    ultimately show ?thesis by simp
  qed
  moreover have "translate k' (VIDMAP_ADDR + off) = Some ((if a = new then VIDEO else term_page a) + off, True)"
    if "off < 0x1000" for off
  proof -
    have linked: "tables_linked k1" "paging_on k1"
      using assms(4,5) by (simp_all add: k1_def tables_linked_def paging_on_def)
    have "a < 3" using assms(6) by (simp add: a_def)
    then show ?thesis
      using that linked video_aligned table_remap_maps vidmem_remap_maps by (simp add: k'_def k2_def)
  qed
  moreover have "books_kept k k'"
    using vidmem_page_directory by (simp add: books_kept_def k'_def k2_def VIDMAP_ADDR_def CONVERT_4MB_def)
      (simp add: k1_def tables_linked_def paging_on_def)
  ultimately show ?thesis using run fields unfolding a_def by blast
qed

section \<open>Setting up\<close>

definition blank_cells :: "u8 \<Rightarrow> u8 list" where
  "blank_cells t = concat (replicate 2000 [0x20, attribute t])"

lemma fold_pokes:
  "2 * n \<le> 4000 \<Longrightarrow>
   fold (\<lambda>j k. poke (v + push_bit 1 (word_of_nat j) + 1) b (poke (v + push_bit 1 (word_of_nat j)) a k)) [0..<n] k =
     k\<lparr>mem := write_bytes v (concat (replicate n [a, b])) (mem k)\<rparr>"
proof (induction n)
  case 0
  then show ?case by simp
next
  case (Suc n)
  have len: "length (concat (replicate n [a, b])) = 2 * n" by (induction n) simp_all
  have split: "concat (replicate (Suc n) [a, b]) = concat (replicate n [a, b]) @ [a, b]"
    by (simp only: replicate_Suc replicate_append_same [symmetric] concat_append) simp
  define m where "m = write_bytes v (concat (replicate n [a, b])) (mem k)"
  have w: "write_bytes v (concat (replicate (Suc n) [a, b])) (mem k) =
      m(v + word_of_nat (2 * n) := a, v + word_of_nat (2 * n) + 1 := b)"
    unfolding split m_def by (simp only: write_bytes_append len) simp
  have f: "fold (\<lambda>j k. poke (v + push_bit 1 (word_of_nat j) + 1) b (poke (v + push_bit 1 (word_of_nat j)) a k)) [0..<Suc n] k =
      poke (v + word_of_nat (2 * n) + 1) b (poke (v + word_of_nat (2 * n)) a (k\<lparr>mem := m\<rparr>))"
    using Suc unfolding m_def by (simp add: mult.commute)
  show ?case unfolding f w by (simp add: poke_def del: fun_upd_apply of_nat_mult)
qed

definition wiped :: "u8 list \<Rightarrow> u8 list" where
  "wiped xs = fold (\<lambda>j xs. xs[j := 0]) [0..<127] xs"

definition blank_terminal :: "u8 \<Rightarrow> term_t \<Rightarrow> term_t" where
  "blank_terminal i t = (t_key_buffer_update (\<lambda>xs. fold (\<lambda>j xs. xs[j := 0]) [0..<127] xs)
     (t\<lparr>t_id := i, pos_x := 0, pos_y := 0, active := 0, apn := - 1, t_key_buffer_idx := 0, eflag := 0\<rparr>))
     \<lparr>t_video_mem := term_page i\<rparr>"

lemma init_one_terminal_result:
  fixes k :: kernel and i :: u8
  defines "k' \<equiv> init_one_terminal i k"
  shows "mem k' = write_bytes (term_page i) (blank_cells i) (mem k)"
    "terminal k' = (terminal k)(i := blank_terminal i (terminal k i))"
proof -
  define t where "t = blank_terminal i (terminal k i)"
  define k1 where "k1 = (table_to_page_mapping 0x6400000 (term_page i) (ucast i + 1) k)\<lparr>terminal := (terminal k)(i := t)\<rparr>"
  have page: "0x6400000 + (ucast i + 1) * 0x1000 = term_page i" by (simp add: term_page_def)
  have video: "t_video_mem t = term_page i" by (simp add: t_def blank_terminal_def)
  have start: "upd_terminal i (t_video_mem_update (\<lambda>_. term_page i)) (table_to_page_mapping 0x6400000 (term_page i) (ucast i + 1)
      (upd_terminal i (t_key_buffer_update (\<lambda>xs. fold (\<lambda>j xs. xs[j := 0]) [0..<127] xs))
        (upd_terminal i (\<lambda>t. t\<lparr>t_id := i, pos_x := 0, pos_y := 0, active := 0, apn := - 1, t_key_buffer_idx := 0, eflag := 0\<rparr>) k))) = k1"
    by (simp add: k1_def t_def blank_terminal_def upd_terminal_def table_to_page_mapping_def flush_tlb_def Let_def)
  have loop: "fold (\<lambda>j k. poke (t_video_mem (terminal k i) + push_bit 1 (word_of_nat j) + 1) (attribute i)
        (poke (t_video_mem (terminal k i) + push_bit 1 (word_of_nat j)) 0x20 k)) js k1 =
      fold (\<lambda>j k. poke (term_page i + push_bit 1 (word_of_nat j) + 1) (attribute i)
        (poke (term_page i + push_bit 1 (word_of_nat j)) 0x20 k)) js k1" for js
  proof (induction js rule: rev_induct)
    case Nil
    then show ?case by simp
  next
    case (snoc j js)
    have "terminal (fold (\<lambda>j k. poke (term_page i + push_bit 1 (word_of_nat j) + 1) (attribute i)
        (poke (term_page i + push_bit 1 (word_of_nat j)) 0x20 k)) js k1) i = t"
      by (induction js rule: rev_induct) (simp_all add: poke_def k1_def)
    then show ?case using snoc video by (simp add: poke_def)
  qed
  have "k' = fold (\<lambda>j k. poke (t_video_mem (terminal k i) + push_bit 1 (word_of_nat j) + 1) (attribute i)
        (poke (t_video_mem (terminal k i) + push_bit 1 (word_of_nat j)) 0x20 k)) [0..<2000] k1"
    unfolding k'_def init_one_terminal_def Let_def page start by (simp add: poke_def)
  also have "\<dots> = k1\<lparr>mem := write_bytes (term_page i) (blank_cells i) (mem k1)\<rparr>"
    unfolding loop blank_cells_def by (rule fold_pokes) simp
  finally show "mem k' = write_bytes (term_page i) (blank_cells i) (mem k)"
    "terminal k' = (terminal k)(i := blank_terminal i (terminal k i))"
    by (simp_all add: k1_def t_def table_to_page_mapping_def flush_tlb_def Let_def)
qed

lemma length_blank_cells: "length (blank_cells t) = 4000"
  by (simp add: blank_cells_def length_concat sum_list_replicate)

lemma setup_terminals_result:
  "\<exists>k'. setup_terminals k = Some k' \<and> cur_term k' = 0 \<and> terminals_ok k' \<and>
     (\<forall>t<3. screen_of k' t = (blank_cells t, 0, 0, 0, wiped (t_key_buffer (terminal k t))) \<and> active (terminal k' t) = 0)"
proof -
  define k1 where "k1 = init_one_terminal 0 k"
  define k2 where "k2 = init_one_terminal 1 k1"
  define k3 where "k3 = (init_one_terminal 2 k2)\<lparr>key_buffer := Some 0\<rparr>"
  have t3: "terminal k3 t = blank_terminal t (terminal k t)" if "t < 3" for t
    using term_cases [OF that] by (auto simp: k3_def k2_def k1_def init_one_terminal_result)
  have m3: "mem k3 = write_bytes (term_page 2) (blank_cells 2) (write_bytes (term_page 1) (blank_cells 1)
      (write_bytes (term_page 0) (blank_cells 0) (mem k)))"
    by (simp add: k3_def k2_def k1_def init_one_terminal_result)
  have own: "bytes (write_bytes (term_page t) (blank_cells t) m) (term_page t) 4000 = blank_cells t" for t m
    using bytes_write_bytes [of "blank_cells t" "term_page t" m] by (simp add: length_blank_cells)
  have other: "bytes (write_bytes (term_page t) (blank_cells t) m) (term_page t') 4000 = bytes m (term_page t') 4000"
    if "t < 3" "t' < 3" "t' \<noteq> t" for t t' m
    using pages_disjoint(3) [OF that(1,2)] that(3) by (intro bytes_copy_other) (simp_all add: length_blank_cells)
  have cells: "bytes (mem k3) (term_page t) 4000 = blank_cells t" if "t < 3" for t
    using term_cases [OF that] by (auto simp: m3 own other)
  have b: "t_video_mem (blank_terminal i t) = term_page i" "t_id (blank_terminal i t) = i" "pos_x (blank_terminal i t) = 0"
    "pos_y (blank_terminal i t) = 0" "t_key_buffer_idx (blank_terminal i t) = 0" "active (blank_terminal i t) = 0"
    "t_key_buffer (blank_terminal i t) = wiped (t_key_buffer t)" for i t
    by (simp_all add: blank_terminal_def wiped_def del: upt_rec_numeral)
  obtain log where "save_restore 0 1 k3 = Some (0, k3\<lparr>key_buffer_idx := 0, screen_x := 0, screen_y := 0, io_log := log,
      mem := write_bytes VIDEO (bytes (mem k3) (term_page 0) 4000) (mem k3)\<rparr>)"
    using restore_result [of 0 k3] by (auto simp: t3 b)
  then have run: "setup_terminals k = Some (k3\<lparr>key_buffer_idx := 0, screen_x := 0, screen_y := 0, io_log := log,
      mem := write_bytes VIDEO (blank_cells 0) (mem k3), cur_term := 0\<rparr>)"
    using cells by (simp add: setup_terminals_def Let_def k3_def k2_def k1_def)
  have video: "bytes (write_bytes VIDEO (blank_cells 0) m) (term_page t) 4000 = bytes m (term_page t) 4000" if "t < 3" for t m
    by (rule bytes_copy_other [OF pages_disjoint(2) [OF that]]) (simp_all add: length_blank_cells)
  have shown: "bytes (write_bytes VIDEO (blank_cells 0) m) VIDEO 4000 = blank_cells 0" for m
    using bytes_write_bytes [of "blank_cells 0" VIDEO m] by (simp add: length_blank_cells)
  have kb: "key_buffer k3 = Some 0" by (simp add: k3_def)
  show ?thesis
    using run by (intro exI conjI, assumption)
      (simp_all add: terminals_ok_def screen_ok_def screen_of_def Let_def t3 b video shown cells kb)
qed

text \<open>What setting up the terminals keeps.\<close>

definition terminal_frame :: "kernel \<Rightarrow> kernel \<Rightarrow> bool" where
  "terminal_frame k k' \<longleftrightarrow> FILESYSLOC k' = FILESYSLOC k \<and> pid_array k' = pid_array k \<and> pcbs k' = pcbs k \<and>
     cr0 k' = cr0 k \<and> cr3 k' = cr3 k \<and> cr4 k' = cr4 k \<and> page_directory_addr k' = page_directory_addr k \<and>
     page_table_addr k' = page_table_addr k \<and> user_page_table_addr k' = user_page_table_addr k \<and>
     video_page_table_addr k' = video_page_table_addr k \<and>
     r_esp k' = r_esp k \<and> r_ebp k' = r_ebp k \<and> iflag k' = iflag k \<and>
     (\<forall>j. j \<noteq> 25 \<longrightarrow> page_directory k' j = page_directory k j) \<and>
     (\<forall>a. 0x400000 \<le> unat a \<and> unat a < 0x800000 \<longrightarrow> mem k' a = mem k a)"

lemma terminal_frame_trans: "terminal_frame k k1 \<Longrightarrow> terminal_frame k1 k2 \<Longrightarrow> terminal_frame k k2"
  unfolding terminal_frame_def by simp

lemma kernel_range_excl:
  assumes "disjoint_range a n 0x400000 0x400000" and "0x400000 \<le> unat x" and "unat x < 0x800000"
  shows "\<not> in_range a n x"
proof
  assume "in_range a n x"
  then have "\<not> in_range 0x400000 0x400000 x" by (rule disjoint_range_excl [OF assms(1)])
  moreover have "unat (x - 0x400000) = unat x - 0x400000" using assms(2) by (subst unat_sub32) (simp_all add: word_le_unat)
  ultimately show False using assms(2,3) by (simp add: in_range_def)
qed

lemma terminal_areas:
  "t < 3 \<Longrightarrow> disjoint_range (term_page t) 4000 0x400000 0x400000" "disjoint_range VIDEO 4000 0x400000 0x400000"
  using term_cases [of t] by (auto simp: disjoint_range_def VIDEO_def term_page_values)

lemma init_one_terminal_frame:
  assumes "i < 3"
  shows "terminal_frame k (init_one_terminal i k)"
proof -
  define k1 where "k1 = upd_terminal i (t_video_mem_update (\<lambda>_. term_page i)) (table_to_page_mapping 0x6400000 (term_page i) (ucast i + 1)
      (upd_terminal i (t_key_buffer_update (\<lambda>xs. fold (\<lambda>j xs. xs[j := 0]) [0..<127] xs))
        (upd_terminal i (\<lambda>t. t\<lparr>t_id := i, pos_x := 0, pos_y := 0, active := 0, apn := - 1, t_key_buffer_idx := 0, eflag := 0\<rparr>) k)))"
  have page: "0x6400000 + (ucast i + 1) * 0x1000 = term_page i" by (simp add: term_page_def)
  have fold: "init_one_terminal i k = fold (\<lambda>j k. poke (t_video_mem (terminal k i) + push_bit 1 (word_of_nat j) + 1) (attribute i)
        (poke (t_video_mem (terminal k i) + push_bit 1 (word_of_nat j)) 0x20 k)) [0..<2000] k1"
    unfolding init_one_terminal_def Let_def page k1_def [symmetric] by (simp add: poke_def)
  have pokes: "\<exists>m. fold (\<lambda>j k. poke (t_video_mem (terminal k i) + push_bit 1 (word_of_nat j) + 1) (attribute i)
        (poke (t_video_mem (terminal k i) + push_bit 1 (word_of_nat j)) 0x20 k)) js k1 = k1\<lparr>mem := m\<rparr>" for js :: "nat list"
    by (induction js rule: rev_induct) (auto simp: poke_def intro: exI [of _ "mem k1"])
  obtain m where m: "init_one_terminal i k = k1\<lparr>mem := m\<rparr>" using pokes [of "[0..<2000]"] fold by auto
  have "mem (init_one_terminal i k) a = mem k a" if "0x400000 \<le> unat a" "unat a < 0x800000" for a
    using kernel_range_excl [OF terminal_areas(1) [OF assms] that]
    by (simp add: init_one_terminal_result write_bytes_outside length_blank_cells)
  moreover have "(0x6400000 :: u32) div 0x400000 = 25" by simp
  ultimately show ?thesis
    by (simp add: terminal_frame_def m k1_def upd_terminal_def table_to_page_mapping_def flush_tlb_def CONVERT_4MB_def Let_def)
qed

lemma setup_terminals_frame:
  assumes "setup_terminals k = Some k'"
  shows "terminal_frame k k'"
proof -
  define k3 where "k3 = fold init_one_terminal [0, 1, 2] k"
  have k3: "terminal_frame k k3"
    using terminal_frame_trans [OF terminal_frame_trans [OF init_one_terminal_frame init_one_terminal_frame] init_one_terminal_frame]
    by (simp add: k3_def)
  have t: "t_video_mem (terminal k3 0) = term_page 0" "pos_x (terminal k3 0) = 0" "pos_y (terminal k3 0) = 0"
    by (simp_all add: k3_def init_one_terminal_result blank_terminal_def)
  obtain log where s: "save_restore 0 1 (k3\<lparr>key_buffer := Some 0\<rparr>) = Some (0, (k3\<lparr>key_buffer := Some 0\<rparr>)\<lparr>
     key_buffer_idx := t_key_buffer_idx (terminal k3 0), screen_x := 0, screen_y := 0,
     io_log := log, mem := write_bytes VIDEO (bytes (mem k3) (term_page 0) 4000) (mem k3)\<rparr>)"
    using restore_result [of 0 "k3\<lparr>key_buffer := Some 0\<rparr>"] by (auto simp: t)
  have "k' = k3\<lparr>key_buffer := Some 0, key_buffer_idx := t_key_buffer_idx (terminal k3 0), screen_x := 0, screen_y := 0,
     io_log := log, mem := write_bytes VIDEO (bytes (mem k3) (term_page 0) 4000) (mem k3), cur_term := 0\<rparr>"
    using assms s unfolding setup_terminals_def k3_def [symmetric] Let_def by simp
  moreover have "write_bytes VIDEO (bytes (mem k3) (term_page 0) 4000) (mem k3) a = mem k3 a"
    if "0x400000 \<le> unat a" "unat a < 0x800000" for a
    using kernel_range_excl [OF terminal_areas(2) that] by (simp add: write_bytes_outside)
  ultimately have "terminal_frame k3 k'" by (simp add: terminal_frame_def)
  then show ?thesis by (rule terminal_frame_trans [OF k3])
qed

lemma cli_screen [simp]:
  "terminals_ok (cli k) = terminals_ok k" "screen_of (cli k) t = screen_of k t" "cur_term (cli k) = cur_term k"
  "terminal (cli k) = terminal k" "cur_active_terminal (cli k) = cur_active_terminal k" "r_esp (cli k) = r_esp k"
  "r_ebp (cli k) = r_ebp k" "pcbs (cli k) = pcbs k" "tables_linked (cli k) = tables_linked k" "paging_on (cli k) = paging_on k"
  by (simp_all add: cli_def terminals_ok_def screen_ok_def screen_of_def tables_linked_def paging_on_def)

lemma switch_to_new_result:
  assumes "terminals_ok k" and "new < 3" and "new \<noteq> cur_term k"
  defines "old_pcb \<equiv> get_pcb_ptr_process (scast (apn (terminal k (cur_active_terminal k))))"
  shows "\<exists>k'. switch_to_new new k = Some k' \<and> cur_term k' = new \<and> terminals_ok k' \<and>
    (\<forall>t<3. screen_of k' t = screen_of k t) \<and> iflag k' \<and>
    p_esp (pcbs k' old_pcb) = r_esp k \<and> p_ebp (pcbs k' old_pcb) = r_ebp k \<and>
    books_kept (upd_pcb old_pcb (\<lambda>p. p\<lparr>p_ebp := r_ebp k, p_esp := r_esp k\<rparr>) k) k'"
proof -
  define old where "old = cur_term k"
  define k1 where "k1 = k\<lparr>terminal := (terminal k)(old := (terminal k old)\<lparr>pos_x := screen_x k, pos_y := screen_y k,
      t_key_buffer_idx := key_buffer_idx k\<rparr>), mem := write_bytes (term_page old) (bytes (mem k) VIDEO 4000) (mem k)\<rparr>"
  define k2 where "k2 = k1\<lparr>cur_term := new, key_buffer := Some new\<rparr>"
  have old: "old < 3" "t_video_mem (terminal k old) = term_page old" "screen_ok k" "old \<noteq> new"
    and new: "t_video_mem (terminal k new) = term_page new" "pos_x (terminal k new) < 80" "pos_y (terminal k new) < 25"
    and all: "\<And>t. t < 3 \<Longrightarrow> t_id (terminal k t) = t \<and> t_video_mem (terminal k t) = term_page t \<and>
       pos_x (terminal k t) < 80 \<and> pos_y (terminal k t) < 25"
    using assms by (auto simp: terminals_ok_def old_def)
  have save: "save_restore old 0 k = Some (0, k1)" unfolding k1_def by (rule save_result [OF old(1,2)])
  have t2: "terminal k2 new = terminal k new" using old(4) by (simp add: k2_def k1_def)
  obtain log where restore: "save_restore new 1 k2 = Some (0, k2\<lparr>key_buffer_idx := t_key_buffer_idx (terminal k new),
      screen_x := pos_x (terminal k new), screen_y := pos_y (terminal k new), io_log := log,
      mem := write_bytes VIDEO (bytes (mem k2) (term_page new) 4000) (mem k2)\<rparr>)"
    using restore_result [of new k2] assms(2) new unfolding t2 by blast
  have mem: "write_bytes VIDEO (bytes (mem k2) (term_page new) 4000) (mem k2) = swapped_mem old new (mem k)"
    by (simp add: k2_def k1_def swapped_mem_def Let_def)
  define k' where "k' = sti (upd_pcb old_pcb (\<lambda>p. p\<lparr>p_ebp := r_ebp k, p_esp := r_esp k\<rparr>)
     (k2\<lparr>key_buffer_idx := t_key_buffer_idx (terminal k new),
      screen_x := pos_x (terminal k new), screen_y := pos_y (terminal k new), io_log := log, mem := swapped_mem old new (mem k)\<rparr>))"
  have pcb: "get_pcb_ptr_process (scast (apn (terminal k1 (cur_active_terminal k1)))) = old_pcb"
    by (simp add: k1_def old_pcb_def)
  have run: "switch_to_new new k = Some k'"
    using save restore pcb by (simp add: switch_to_new_def old_def [symmetric] k2_def [symmetric] Let_def k'_def mem)
      (simp add: k2_def k1_def)
  have k': "k' = k\<lparr>iflag := True, pcbs := (pcbs k)(old_pcb := (pcbs k old_pcb)\<lparr>p_ebp := r_ebp k, p_esp := r_esp k\<rparr>),
      terminal := (terminal k)(old := (terminal k old)\<lparr>pos_x := screen_x k, pos_y := screen_y k, t_key_buffer_idx := key_buffer_idx k\<rparr>),
      cur_term := new, key_buffer := Some new, key_buffer_idx := t_key_buffer_idx (terminal k new),
      screen_x := pos_x (terminal k new), screen_y := pos_y (terminal k new), io_log := log, mem := swapped_mem old new (mem k)\<rparr>"
    by (intro kernel.equality) (simp_all add: k'_def k2_def k1_def sti_def upd_pcb_def)
  have "terminals_ok k'" using old(3) all assms(2) by (auto simp: terminals_ok_def k' screen_ok_def)
  moreover have "screen_of k' t = screen_of k t" if t: "t < 3" for t
    using t all assms(2) old(4) swapped_bytes [OF old(1) assms(2) old(4)] by (auto simp: screen_of_def k' old_def Let_def)
  moreover have "books_kept (upd_pcb old_pcb (\<lambda>p. p\<lparr>p_ebp := r_ebp k, p_esp := r_esp k\<rparr>) k) k'"
    by (simp add: books_kept_def k' upd_pcb_def tables_linked_def paging_on_def)
  ultimately show ?thesis using run by (auto simp: k')
qed

text \<open>A machine on which programs run on all terminals.\<close>

definition three_terminals :: kernel where
  "three_terminals = shell_kernel\<lparr>terminal := (\<lambda>t. zero_terminal\<lparr>t_id := t, t_video_mem := term_page t, active := 1, apn := t\<rparr>),
     key_buffer := Some 0\<rparr>"

lemma three_terminals_facts:
  "terminals_ok three_terminals" "tables_linked three_terminals" "paging_on three_terminals" "cur_active_terminal three_terminals = 0"
  "cur_term three_terminals = 0" "active (terminal three_terminals t) = 1" "apn (terminal three_terminals t) = t"
proof -
  have f: "cur_term shell_kernel = 0" "cur_active_terminal shell_kernel = 0" "screen_x shell_kernel = 0" "screen_y shell_kernel = 0"
    "tables_linked shell_kernel = tables_linked some_kernel"
    by (simp_all add: shell_kernel_def sample_kernel_def page_remap_def paging_init_def Let_def flush_tlb_def
        init_pages_eq tables_linked_def) (simp_all add: some_kernel_def boot_kernel_def)
  then show "terminals_ok three_terminals" "tables_linked three_terminals" "cur_active_terminal three_terminals = 0"
    "cur_term three_terminals = 0" "active (terminal three_terminals t) = 1" "apn (terminal three_terminals t) = t"
    using some_kernel_linked
    by (simp_all add: three_terminals_def terminals_ok_def screen_ok_def zero_terminal_def tables_linked_def)
  show "paging_on three_terminals"
    using shell_kernel_mapped by (simp add: three_terminals_def kernel_mapped_def paging_on_def)
qed

section \<open>Properties\<close>

text \<open>
  C16. What the terminals show is independent of which one is shown. \<^verbatim>\<open>switch_terminal\<close> refuses a
  number that is not a terminal and does nothing for the terminal that is shown already;
  otherwise every terminal keeps the cells of its screen, its cursor and its typed line,
  wherever they are kept before and after. If a program runs on the new terminal, the page at
  136 MB of the program that is scheduled leads to the screen if it is the one shown and to the
  page of its terminal if not; otherwise the registers of the scheduled process are saved and
  the shell is started.
\<close>

theorem switch_terminal_keeps_screens:
  assumes "terminals_ok k" and "tables_linked k" and "paging_on k" and "cur_active_terminal k < 3"
  shows "(\<not> new < 3 \<longrightarrow> switch_terminal l new k = Some (Returns (- 1) (cli k))) \<and>
    (new = cur_term k \<longrightarrow> switch_terminal l new k = Some (Returns 0 (cli k))) \<and>
    (new < 3 \<and> new \<noteq> cur_term k \<longrightarrow>
      (\<exists>k'. cur_term k' = new \<and> terminals_ok k' \<and> (\<forall>t<3. screen_of k' t = screen_of k t) \<and>
        (if active (terminal k new) = 1
         then switch_terminal l new k = Some (Returns 0 k') \<and>
           (\<forall>off<0x1000. translate k' (0x8800000 + off) =
              Some ((if cur_active_terminal k = new then VIDEO else term_page (cur_active_terminal k)) + off, True))
         else switch_terminal l new k = map_option return_0 (execute_shell l k') \<and>
           (let old_pcb = pcbs k' (get_pcb_ptr_process (scast (apn (terminal k (cur_active_terminal k))))) in
            p_esp old_pcb = r_esp k \<and> p_ebp old_pcb = r_ebp k))))"
proof (intro conjI impI)
  have max: "MAX_TERM - 1 = 2" by (simp add: MAX_TERM_def)
  have three: "\<not> t < 3 \<longleftrightarrow> t > 2" for t :: u8 by (auto simp: word_less_unat)
  show "switch_terminal l new k = Some (Returns (- 1) (cli k))" if "\<not> new < 3"
    using that unfolding three by (simp add: switch_terminal_def max)
  have c: "cur_term k < 3" using assms(1) by (simp add: terminals_ok_def)
  have small: "\<not> new > 2" if "new < 3" for new :: u8 using three that by blast
  show "switch_terminal l new k = Some (Returns 0 (cli k))" if "new = cur_term k"
    using that small [OF c] by (simp add: switch_terminal_def max)
  assume new: "new < 3 \<and> new \<noteq> cur_term k"
  have ok: "terminals_ok (cli k)" "tables_linked (cli k)" "paging_on (cli k)" "cur_active_terminal (cli k) < 3" "new < 3"
    "new \<noteq> cur_term (cli k)" using assms new by simp_all
  show "\<exists>k'. cur_term k' = new \<and> terminals_ok k' \<and> (\<forall>t<3. screen_of k' t = screen_of k t) \<and>
        (if active (terminal k new) = 1
         then switch_terminal l new k = Some (Returns 0 k') \<and>
           (\<forall>off<0x1000. translate k' (0x8800000 + off) =
              Some ((if cur_active_terminal k = new then VIDEO else term_page (cur_active_terminal k)) + off, True))
         else switch_terminal l new k = map_option return_0 (execute_shell l k') \<and>
           (let old_pcb = pcbs k' (get_pcb_ptr_process (scast (apn (terminal k (cur_active_terminal k))))) in
            p_esp old_pcb = r_esp k \<and> p_ebp old_pcb = r_ebp k))"
  proof (cases "active (terminal k new) = 1")
    case True
    then show ?thesis
      using switch_to_active_result [OF ok(1,5,6,2,3,4)] small new
      by (auto simp: switch_terminal_def max VIDMAP_ADDR_def)
  next
    case False
    then show ?thesis
      using switch_to_new_result [OF ok(1,5,6)] small new
      by (auto simp: switch_terminal_def max Let_def map_option_case split: bind_split option.split)
  qed
qed

lemma switch_terminal_keeps_screens_witness:
  "\<exists>k'. switch_terminal some_locals 1 three_terminals = Some (Returns 0 k') \<and> cur_term k' = 1 \<and>
    screen_of k' 0 = screen_of three_terminals 0 \<and> translate k' 0x8800000 = Some (0x6401000, True)"
proof -
  have "cur_active_terminal three_terminals < 3" by (simp add: three_terminals_facts)
  from switch_terminal_keeps_screens [OF three_terminals_facts(1-3) this, of 1 some_locals]
  obtain k' where k': "cur_term k' = 1" "\<forall>t<3. screen_of k' t = screen_of three_terminals t"
    "switch_terminal some_locals 1 three_terminals = Some (Returns 0 k')"
    "\<forall>off<0x1000. translate k' (0x8800000 + off) = Some (term_page 0 + off, True)"
    by (auto simp: three_terminals_facts)
  have "translate k' 0x8800000 = Some (0x6401000, True)" using k'(4) [rule_format, of 0] by (simp add: term_page_values)
  moreover have "screen_of k' 0 = screen_of three_terminals 0" using k'(2) by simp
  ultimately show ?thesis using k'(1,3) by blast
qed

text \<open>
  After the set up of \<^verbatim>\<open>init_terminal\<close> the three terminals are empty screens in their own
  colours with the cursor in the top left corner and no program, whatever was in the memory
  before, and the first one is shown.
\<close>

lemma terminals_start_blank:
  "\<exists>k'. init_terminal l k = execute_shell l k' \<and> cur_term k' = 0 \<and> terminals_ok k' \<and>
    (\<forall>t<3. screen_of k' t = (concat (replicate 2000 [0x20, attribute t]), 0, 0, 0, wiped (t_key_buffer (terminal k t))) \<and>
      active (terminal k' t) = 0)"
  using setup_terminals_result [of k] by (auto simp: init_terminal_def blank_cells_def)

end
