(* ===== verification/Scheduler.thy ===== *)
theory Scheduler
  imports Terminal
begin

text \<open>
  The round robin over the terminals: \<^verbatim>\<open>student-distrib/scheduler.c\<close>. A context switch is a
  change of \<open>r_esp\<close> and \<open>r_ebp\<close>: the function returns into the frame of the next process.
\<close>

unbundle bit_operations_syntax

section \<open>Definitions\<close>

definition PIT_IRQ :: u32 where "PIT_IRQ = 0"
definition PIT_CMD_PORT :: u16 where "PIT_CMD_PORT = 0x43"
definition PIT_INIT :: u32 where "PIT_INIT = 0x36"
definition PIT_CHANNEL_0 :: u16 where "PIT_CHANNEL_0 = 0x40"
definition CLK_FREQ :: u32 where "CLK_FREQ = 1193180"
definition SET_FREQ :: u32 where "SET_FREQ = 50"
definition MAX_TERMINALS :: u8 where "MAX_TERMINALS = 3"
definition TERMINAL_ACTIVE :: u8 where "TERMINAL_ACTIVE = 1"

definition PIT_init :: "kernel \<Rightarrow> kernel" where
  "PIT_init k =
     (let frequency = (ucast (CLK_FREQ div SET_FREQ) :: u16);
          k = outb PIT_INIT PIT_CMD_PORT k;
          k = outb (ucast frequency AND 0xFF) PIT_CHANNEL_0 k;
          k = outb (drop_bit 8 (ucast frequency)) PIT_CHANNEL_0 k
      in enable_irq PIT_IRQ k)"

text \<open>The loop of \<^verbatim>\<open>get_next_scheduled\<close>, with \<open>n\<close> rounds to go, on \<^verbatim>\<open>next_sched_terminal\<close>.\<close>

primrec next_loop :: "nat \<Rightarrow> kernel \<Rightarrow> u8 \<Rightarrow> u8" where
  "next_loop 0 k t = t"
| "next_loop (Suc n) k t =
     (let t = (t + 1) mod MAX_TERMINALS in
      if active (terminal k t) = TERMINAL_ACTIVE then t else next_loop n k t)"

definition get_next_scheduled :: "kernel \<Rightarrow> i32 \<times> kernel" where
  "get_next_scheduled k =
     (let t = next_loop (unat (MAX_TERMINALS - 1)) k (cur_active_terminal k)
      in (scast (apn (terminal k t)), k\<lparr>next_sched_terminal := t\<rparr>))"

definition process_contextswitch :: "i32 \<Rightarrow> kernel \<Rightarrow> kernel" where
  "process_contextswitch next_process k =
     (let k = page_remap 0x8000000 (0x800000 + next_process * 0x400000) k;
          (screen_start, k) = vidmap_local k;
          old_pcb = get_pcb_ptr_process (scast (apn (terminal k (cur_active_terminal k))));
          k = k\<lparr>cur_active_terminal := next_sched_terminal k\<rparr>;
          next_pcb = get_pcb_ptr_process next_process;
          term = terminal k (term_ptr (pcbs k next_pcb));
          k = (if t_id term \<noteq> cur_term k then vidmem_remap screen_start (t_video_mem term) k else k);
          k = k\<lparr>tss := (tss k)\<lparr>esp0 := 0x800000 - 0x2000 * next_process - 4\<rparr>\<rparr>;
          k = k\<lparr>tss := (tss k)\<lparr>ss0 := KERNEL_DS\<rparr>\<rparr>;
          k = upd_pcb old_pcb (\<lambda>p. p\<lparr>p_esp := r_esp k, p_ebp := r_ebp k\<rparr>) k
      in k\<lparr>r_esp := p_esp (pcbs k next_pcb), r_ebp := p_ebp (pcbs k next_pcb)\<rparr>)"

definition PIT_scheduling :: "kernel \<Rightarrow> kernel" where
  "PIT_scheduling k =
     (let k = send_eoi PIT_IRQ k;
          k = cli k;
          k = (if active (terminal k 1) = 1 \<or> active (terminal k 2) = 1
               then let (n, k) = get_next_scheduled k in process_contextswitch n k else k)
      in sti k)"

section \<open>The timer\<close>

text \<open>
  Channel 0 of the timer chip after a sequence of port writes (the last one first): the
  command 0x36 asks for two writes of the divisor of 1193180 Hz, the low byte first.
\<close>

fun pit_bytes :: "io list \<Rightarrow> u8 list" where
  "pit_bytes (Outb v port # log) =
     (if port = 0x43 then [] else if port = 0x40 then pit_bytes log @ [v] else pit_bytes log)"
| "pit_bytes (Outw v port # log) = pit_bytes log"
| "pit_bytes (Inb port # log) = pit_bytes log"
| "pit_bytes [] = []"

definition pit_divisor :: "io list \<Rightarrow> nat" where
  "pit_divisor log = (case pit_bytes log of [low, high] \<Rightarrow> unat low + 256 * unat high | _ \<Rightarrow> 0x10000)"

section \<open>The order of the terminals\<close>

text \<open>The terminal that the scheduler goes to from \<open>t\<close>.\<close>

definition next_term :: "kernel \<Rightarrow> u8 \<Rightarrow> u8" where
  "next_term k t = next_loop 2 k t"

lemma next_term_cases:
  "next_term k 0 = (if active (terminal k 1) = 1 then 1 else 2)"
  "next_term k 1 = (if active (terminal k 2) = 1 then 2 else 0)"
  "next_term k 2 = (if active (terminal k 0) = 1 then 0 else 1)"
proof -
  have m: "((0 :: u8) + 1) mod 3 = 1" "((1 :: u8) + 1) mod 3 = 2" "((2 :: u8) + 1) mod 3 = 0" by code_simp+
  show "next_term k 0 = (if active (terminal k 1) = 1 then 1 else 2)"
    "next_term k 1 = (if active (terminal k 2) = 1 then 2 else 0)"
    "next_term k 2 = (if active (terminal k 0) = 1 then 0 else 1)"
    unfolding next_term_def numeral_2_eq_2 next_loop.simps Let_def MAX_TERMINALS_def TERMINAL_ACTIVE_def m by simp_all
qed

lemma next_term_active:
  assumes "t < 3" and "t' < 3" "t' \<noteq> t" and "active (terminal k t') = 1"
  shows "next_term k t < 3" "next_term k t \<noteq> t" "active (terminal k (next_term k t)) = 1"
  using term_cases [OF assms(1)] term_cases [OF assms(2)] assms(3,4) by (auto simp: next_term_cases split: if_splits)

lemma two_rounds: "unat (MAX_TERMINALS - 1) = 2"
  by (simp add: MAX_TERMINALS_def)

lemma get_next_scheduled_result:
  "get_next_scheduled k = (scast (apn (terminal k (next_term k (cur_active_terminal k)))),
     k\<lparr>next_sched_terminal := next_term k (cur_active_terminal k)\<rparr>)"
  by (simp add: get_next_scheduled_def next_term_def two_rounds Let_def)

section \<open>The invariant of the scheduler\<close>

text \<open>
  The process of terminal \<open>t\<close> and its control block. A process that waits has its stack
  pointer, inside its own kernel stack, in its control block; the one that runs has it in the
  register.
\<close>

definition term_pcb :: "kernel \<Rightarrow> u8 \<Rightarrow> addr" where
  "term_pcb k t = get_pcb_ptr_process (ucast (apn (terminal k t)))"

definition saved_ok :: "kernel \<Rightarrow> u8 \<Rightarrow> u32 \<Rightarrow> bool" where
  "saved_ok k t esp \<longleftrightarrow> unat (apn (terminal k t)) < 6 \<and> term_ptr (pcbs k (term_pcb k t)) = t \<and>
     in_kernel_stack (ucast (apn (terminal k t))) esp"

definition sched_ok :: "kernel \<Rightarrow> bool" where
  "sched_ok k \<longleftrightarrow> terminals_ok k \<and> tables_linked k \<and> paging_on k \<and> cur_active_terminal k < 3 \<and>
     active (terminal k (cur_active_terminal k)) = 1 \<and> saved_ok k (cur_active_terminal k) (r_esp k) \<and>
     (\<forall>t<3. active (terminal k t) = 1 \<and> t \<noteq> cur_active_terminal k \<longrightarrow> saved_ok k t (p_esp (pcbs k (term_pcb k t)))) \<and>
     (\<forall>t<3. \<forall>t'<3. active (terminal k t) = 1 \<and> active (terminal k t') = 1 \<and>
        apn (terminal k t) = apn (terminal k t') \<longrightarrow> t = t')"

lemma casts_small: "unat (x :: u8) < 6 \<Longrightarrow> scast x = (ucast x :: u32)"
  by (rule scast_small) simp

lemma term_pcb_inj:
  assumes "unat (apn (terminal k t)) < 6" "unat (apn (terminal k t')) < 6" and "term_pcb k t = term_pcb k t'"
  shows "apn (terminal k t) = apn (terminal k t')"
proof -
  have "(ucast (apn (terminal k t)) :: u32) = ucast (apn (terminal k t'))"
    by (rule get_pcb_process_inj) (use assms in \<open>simp_all add: term_pcb_def unat_ucast_u8\<close>)
  then show ?thesis by (metis unat_ucast_u8 word_unat_eq_iff)
qed

text \<open>The top of the kernel stack of process \<open>n\<close>, which the processor loads on an interrupt in user mode.\<close>

definition kernel_stack_top :: "u32 \<Rightarrow> u32" where
  "kernel_stack_top n = 0x800000 - 0x2000 * n - 4"

text \<open>The result of a context switch.\<close>

definition switched :: "u8 \<Rightarrow> kernel \<Rightarrow> kernel \<Rightarrow> bool" where
  "switched t k k' \<longleftrightarrow>
     cur_active_terminal k' = t \<and> terminal k' = terminal k \<and> cur_term k' = cur_term k \<and> mem k' = mem k \<and>
     pid_array k' = pid_array k \<and> screen_x k' = screen_x k \<and> screen_y k' = screen_y k \<and> key_buffer k' = key_buffer k \<and>
     tables_linked k' \<and> paging_on k' \<and>
     user_frame k' = process_frame (ucast (apn (terminal k t))) \<and> user_mapped k' \<and>
     esp0 (tss k') = kernel_stack_top (ucast (apn (terminal k t))) \<and>
     (\<forall>off<0x1000. translate k' (VIDMAP_ADDR + off) = Some ((if t = cur_term k then VIDEO else term_page t) + off, True)) \<and>
     (let old = term_pcb k (cur_active_terminal k) in
      pcbs k' = (pcbs k)(old := (pcbs k old)\<lparr>p_esp := r_esp k, p_ebp := r_ebp k\<rparr>)) \<and>
     r_esp k' = p_esp (pcbs k' (term_pcb k t)) \<and> r_ebp k' = p_ebp (pcbs k' (term_pcb k t))"

lemma below_stack_top:
  assumes "unat (n :: u32) < 6" and "unat d \<le> 0x1FFC"
  shows "in_kernel_stack n (kernel_stack_top n - d)"
proof -
  have b: "unat (get_pcb_ptr_process n) = 0x800000 - (unat n + 1) * 0x2000" using assms(1) by (simp add: unat_pcb_process)
  have top: "kernel_stack_top n = get_pcb_ptr_process n + 0x1FFC"
    by (simp add: kernel_stack_top_def get_pcb_ptr_process_def)
  have "unat (kernel_stack_top n) = unat (get_pcb_ptr_process n) + 0x1FFC"
    unfolding top using b by (subst unat_add32) simp_all
  moreover from this have "unat (kernel_stack_top n - d) = unat (kernel_stack_top n) - unat d"
    using assms(2) by (subst unat_sub32) (simp_all add: word_le_unat)
  ultimately show ?thesis using assms(2) unfolding in_kernel_stack_def by linarith
qed

lemma esp0_in_stack: "unat (n :: u32) < 6 \<Longrightarrow> in_kernel_stack n (kernel_stack_top n)"
  using below_stack_top [of n 0] by simp

lemma page_remap_more [simp]:
  "pid_array (page_remap v p k) = pid_array k" "pcbs (page_remap v p k) = pcbs k" "tss (page_remap v p k) = tss k"
  "r_esp (page_remap v p k) = r_esp k" "r_ebp (page_remap v p k) = r_ebp k" "terminal (page_remap v p k) = terminal k"
  "cur_term (page_remap v p k) = cur_term k" "cur_active_terminal (page_remap v p k) = cur_active_terminal k"
  "next_sched_terminal (page_remap v p k) = next_sched_terminal k" "screen_x (page_remap v p k) = screen_x k"
  "screen_y (page_remap v p k) = screen_y k" "key_buffer (page_remap v p k) = key_buffer k" "mem (page_remap v p k) = mem k"
  "paging_on (page_remap v p k) = paging_on k" "tables_linked (page_remap v p k) = tables_linked k"
  by (simp_all add: page_remap_def flush_tlb_def Let_def tables_linked_def paging_on_def)

lemma scheduler_variables [simp]:
  "paging_on (k\<lparr>cur_active_terminal := t\<rparr>) = paging_on k" "tables_linked (k\<lparr>cur_active_terminal := t\<rparr>) = tables_linked k"
  "paging_on (k\<lparr>next_sched_terminal := t\<rparr>) = paging_on k" "tables_linked (k\<lparr>next_sched_terminal := t\<rparr>) = tables_linked k"
  by (simp_all add: paging_on_def tables_linked_def)

lemma contextswitch_result:
  assumes "terminals_ok k" and "tables_linked k" and "paging_on k" and "next_sched_terminal k = t" and "t < 3"
    and "unat (apn (terminal k t)) < 6" and "unat (apn (terminal k (cur_active_terminal k))) < 6"
    and "term_ptr (pcbs k (term_pcb k t)) = t"
  shows "switched t k (process_contextswitch (ucast (apn (terminal k t))) k)"
proof -
  define n :: u32 where "n = ucast (apn (terminal k t))"
  define old where "old = term_pcb k (cur_active_terminal k)"
  define k1 where "k1 = table_remap VIDMAP_ADDR VIDEO (page_remap 0x8000000 (process_frame n) k)"
  define k2 where "k2 = (if t \<noteq> cur_term k then vidmem_remap VIDMAP_ADDR (term_page t) (k1\<lparr>cur_active_terminal := t\<rparr>)
      else k1\<lparr>cur_active_terminal := t\<rparr>)"
  define tss' where "tss' = (tss k)\<lparr>esp0 := 0x800000 - 0x2000 * n - 4, ss0 := KERNEL_DS\<rparr>"
  define ps where "ps = (pcbs k)(old := (pcbs k old)\<lparr>p_esp := r_esp k, p_ebp := r_ebp k\<rparr>)"
  have n: "unat n < 6" using assms(6) by (simp add: n_def unat_ucast_u8)
  have t: "t_id (terminal k t) = t" "t_video_mem (terminal k t) = term_page t" using assms(1,5) by (auto simp: terminals_ok_def)
  have next_pcb: "get_pcb_ptr_process n = term_pcb k t" by (simp add: n_def term_pcb_def)
  have old_pcb: "get_pcb_ptr_process (scast (apn (terminal k (cur_active_terminal k)))) = old"
    using assms(7) by (simp add: old_def term_pcb_def casts_small)
  have frame: "0x800000 + n * 0x400000 = process_frame n" by (simp add: process_frame_def)
  have k2: "terminal k2 = terminal k" "cur_term k2 = cur_term k" "cur_active_terminal k2 = t" "mem k2 = mem k"
    "screen_x k2 = screen_x k" "screen_y k2 = screen_y k" "key_buffer k2 = key_buffer k" "tables_linked k2"
    "pid_array k2 = pid_array k" "pcbs k2 = pcbs k" "tss k2 = tss k" "r_esp k2 = r_esp k" "r_ebp k2 = r_ebp k"
    using assms(2) by (simp_all add: k2_def k1_def)
  have result: "process_contextswitch n k = k2\<lparr>tss := tss', pcbs := ps, r_esp := p_esp (ps (term_pcb k t)), r_ebp := p_ebp (ps (term_pcb k t))\<rparr>"
  proof -
    have "process_contextswitch n k = (let k = k2\<lparr>tss := (tss k2)\<lparr>esp0 := 0x800000 - 0x2000 * n - 4\<rparr>\<rparr>;
          k = k\<lparr>tss := (tss k)\<lparr>ss0 := KERNEL_DS\<rparr>\<rparr>;
          k = upd_pcb old (\<lambda>p. p\<lparr>p_esp := r_esp k, p_ebp := r_ebp k\<rparr>) k
      in k\<lparr>r_esp := p_esp (pcbs k (term_pcb k2 t)), r_ebp := p_ebp (pcbs k (term_pcb k2 t))\<rparr>)"
      unfolding process_contextswitch_def vidmap_local_def Let_def frame prod.case next_pcb
      using assms(4,8) t by (simp add: old_pcb k2_def k1_def term_pcb_def)
    then show ?thesis by (simp add: Let_def k2 upd_pcb_def tss'_def ps_def term_pcb_def)
  qed
  have pd: "page_directory k2 32 = process_frame n OR 0x87"
    using vidmem_page_directory by (simp add: k2_def k1_def VIDMAP_ADDR_def CONVERT_4MB_def)
  have on: "paging_on k2" using assms(3) by (simp add: k2_def k1_def)
  have frame_k2: "user_frame k2 = process_frame n"
    using frame_4m [OF process_frame_aligned] by (simp add: user_frame_def pd)
  have mapped: "user_mapped k2" using on process_frame_aligned by (auto simp: user_mapped_def pd)
  have video: "translate k2 (VIDMAP_ADDR + off) = Some ((if t = cur_term k then VIDEO else term_page t) + off, True)"
    if "off < 0x1000" for off
  proof -
    have "tables_linked (page_remap 0x8000000 (process_frame n) k)" "paging_on (page_remap 0x8000000 (process_frame n) k)"
      "tables_linked (k1\<lparr>cur_active_terminal := t\<rparr>)" "paging_on (k1\<lparr>cur_active_terminal := t\<rparr>)"
      using assms(2,3) by (simp_all add: k1_def)
    then show ?thesis
      using that video_aligned assms(5) table_remap_maps [of "page_remap 0x8000000 (process_frame n) k" VIDEO off]
        vidmem_remap_maps [of "k1\<lparr>cur_active_terminal := t\<rparr>" "term_page t" off]
      by (simp add: k2_def k1_def)
  qed
  let ?k' = "k2\<lparr>tss := tss', pcbs := ps, r_esp := p_esp (ps (term_pcb k t)), r_ebp := p_ebp (ps (term_pcb k t))\<rparr>"
  have "user_frame ?k' = process_frame n" "user_mapped ?k'" "tables_linked ?k'" "paging_on ?k'"
    using frame_k2 mapped on k2 unfolding tables_linked_def by (simp_all add: user_frame_def user_mapped_def paging_on_def)
  then have "switched t k ?k'"
    using k2(1-7,9-) video
    by (simp add: switched_def Let_def n_def [symmetric] old_def [symmetric] ps_def)
      (simp add: tss'_def kernel_stack_top_def)
  then show ?thesis using result by (simp add: n_def)
qed

text \<open>A tick of the timer in a state that keeps the invariant.\<close>

lemma eoi_cli_fields:
  defines "k0 \<equiv> \<lambda>k. cli (send_eoi PIT_IRQ k)"
  shows "\<exists>log. k0 k = k\<lparr>io_log := log, iflag := False\<rparr>"
  by (simp add: k0_def send_eoi_def PIT_IRQ_def NUM_IRQ_def outb_def cli_def) blast

lemma sched_ok_variables:
  "sched_ok (k\<lparr>io_log := log\<rparr>) = sched_ok k" "sched_ok (k\<lparr>iflag := b\<rparr>) = sched_ok k" "sched_ok (k\<lparr>next_sched_terminal := t\<rparr>) = sched_ok k"
  by (simp_all add: sched_ok_def terminals_ok_def screen_ok_def tables_linked_def paging_on_def saved_ok_def term_pcb_def)

lemma switched_variables:
  "switched t (k\<lparr>io_log := log\<rparr>) k' = switched t k k'" "switched t (k\<lparr>iflag := b\<rparr>) k' = switched t k k'"
  "switched t (k\<lparr>next_sched_terminal := u\<rparr>) k' = switched t k k'" "switched t k (k'\<lparr>iflag := b\<rparr>) = switched t k k'"
  by (simp_all add: switched_def term_pcb_def user_frame_def user_mapped_def paging_on_def tables_linked_def)

lemma next_term_variables [simp]:
  "next_term (k\<lparr>io_log := log\<rparr>) = next_term k" "next_term (k\<lparr>iflag := b\<rparr>) = next_term k"
proof -
  have "next_loop n (k\<lparr>io_log := log\<rparr>) t = next_loop n k t" "next_loop n (k\<lparr>iflag := b\<rparr>) t = next_loop n k t" for n t
    by (induction n arbitrary: t) (simp_all add: Let_def)
  then show "next_term (k\<lparr>io_log := log\<rparr>) = next_term k" "next_term (k\<lparr>iflag := b\<rparr>) = next_term k"
    by (simp_all add: next_term_def fun_eq_iff)
qed

text \<open>Another terminal than the scheduled one has a program.\<close>

definition contended :: "kernel \<Rightarrow> bool" where
  "contended k \<longleftrightarrow> active (terminal k 0) = 1 \<and> (active (terminal k 1) = 1 \<or> active (terminal k 2) = 1)"

lemma contended_next:
  assumes "sched_ok k" and "contended k"
  defines "t \<equiv> next_term k (cur_active_terminal k)"
  shows "t < 3" "t \<noteq> cur_active_terminal k" "active (terminal k t) = 1"
    "unat (apn (terminal k t)) < 6" "unat (apn (terminal k (cur_active_terminal k))) < 6" "term_ptr (pcbs k (term_pcb k t)) = t"
    "in_kernel_stack (ucast (apn (terminal k t))) (p_esp (pcbs k (term_pcb k t)))"
    "term_pcb k t \<noteq> term_pcb k (cur_active_terminal k)"
proof -
  have cur: "cur_active_terminal k < 3" using assms(1) by (simp add: sched_ok_def)
  obtain t' where t': "t' < 3" "t' \<noteq> cur_active_terminal k" "active (terminal k t') = 1"
    using term_cases [OF cur] assms(2) that [of 0] that [of 1] that [of 2] by (auto simp: contended_def)
  show t: "t < 3" "t \<noteq> cur_active_terminal k" "active (terminal k t) = 1"
    unfolding t_def using next_term_active [OF cur t'] by blast+
  have saved: "saved_ok k t (p_esp (pcbs k (term_pcb k t)))" "saved_ok k (cur_active_terminal k) (r_esp k)"
    using assms(1) t by (simp_all add: sched_ok_def)
  then show "unat (apn (terminal k t)) < 6" "unat (apn (terminal k (cur_active_terminal k))) < 6" "term_ptr (pcbs k (term_pcb k t)) = t"
    "in_kernel_stack (ucast (apn (terminal k t))) (p_esp (pcbs k (term_pcb k t)))"
    by (simp_all add: saved_ok_def)
  have "apn (terminal k t) \<noteq> apn (terminal k (cur_active_terminal k))"
    using assms(1) t cur unfolding sched_ok_def by blast
  then show "term_pcb k t \<noteq> term_pcb k (cur_active_terminal k)"
    using term_pcb_inj [of k t "cur_active_terminal k"] saved by (auto simp: saved_ok_def)
qed

lemma tick_switches:
  assumes "sched_ok k" and "contended k"
  shows "switched (next_term k (cur_active_terminal k)) k (PIT_scheduling k)" "iflag (PIT_scheduling k)"
proof -
  obtain log where k0: "cli (send_eoi PIT_IRQ k) = k\<lparr>io_log := log, iflag := False\<rparr>" using eoi_cli_fields by blast
  let ?k0 = "k\<lparr>io_log := log, iflag := False\<rparr>"
  define t where "t = next_term k (cur_active_terminal k)"
  note next_facts = contended_next [OF assms, folded t_def]
  let ?k1 = "?k0\<lparr>next_sched_terminal := t\<rparr>"
  have ok: "sched_ok ?k1" using assms(1) by (simp add: sched_ok_variables)
  have "get_next_scheduled ?k0 = (scast (apn (terminal k t)), ?k1)" by (simp add: get_next_scheduled_result t_def)
  moreover have "scast (apn (terminal k t)) = (ucast (apn (terminal k t)) :: u32)" using next_facts(4) by (rule casts_small)
  moreover have "active (terminal k 1) = 1 \<or> active (terminal k 2) = 1" using assms(2) by (simp add: contended_def)
  ultimately have run: "PIT_scheduling k = sti (process_contextswitch (ucast (apn (terminal k t))) ?k1)"
    unfolding PIT_scheduling_def Let_def k0 by simp
  have "switched t ?k1 (process_contextswitch (ucast (apn (terminal ?k1 t))) ?k1)"
    using ok next_facts by (intro contextswitch_result) (simp_all add: sched_ok_def term_pcb_def)
  then show "switched (next_term k (cur_active_terminal k)) k (PIT_scheduling k)" "iflag (PIT_scheduling k)"
    unfolding run t_def [symmetric] by (simp_all add: switched_variables sti_def)
qed


section \<open>Steps\<close>

text \<open>
  What a terminal that waits, and the pair of the invariant, know: nothing but a switch changes
  a saved stack pointer.
\<close>

lemma saved_ok_cong:
  "terminal k' = terminal k \<Longrightarrow> term_ptr (pcbs k' (term_pcb k t)) = term_ptr (pcbs k (term_pcb k t)) \<Longrightarrow> saved_ok k' t esp = saved_ok k t esp"
  by (simp add: saved_ok_def term_pcb_def)

lemma switched_keeps_ok:
  assumes "sched_ok k" and "contended k" and "switched t k k'" and "t = next_term k (cur_active_terminal k)"
  shows "sched_ok k'"
proof -
  note next_facts = contended_next [OF assms(1,2), folded assms(4)]
  define c where "c = cur_active_terminal k"
  have k': "cur_active_terminal k' = t" "terminal k' = terminal k" "cur_term k' = cur_term k" "screen_x k' = screen_x k"
    "screen_y k' = screen_y k" "key_buffer k' = key_buffer k" "tables_linked k'" "paging_on k'"
    "pcbs k' = (pcbs k)(term_pcb k c := (pcbs k (term_pcb k c))\<lparr>p_esp := r_esp k, p_ebp := r_ebp k\<rparr>)"
    "r_esp k' = p_esp (pcbs k' (term_pcb k t))"
    using assms(3) by (simp_all add: switched_def Let_def c_def)
  have pcb: "term_pcb k' = term_pcb k" by (simp add: term_pcb_def fun_eq_iff k'(2))
  have ptr: "term_ptr (pcbs k' p) = term_ptr (pcbs k p)" for p by (simp add: k'(9))
  have saved: "saved_ok k' u e = saved_ok k u e" for u e by (rule saved_ok_cong [OF k'(2) ptr])
  have ok: "terminals_ok k" "c < 3" "active (terminal k c) = 1" "saved_ok k c (r_esp k)"
    "\<And>u. u < 3 \<Longrightarrow> active (terminal k u) = 1 \<Longrightarrow> u \<noteq> c \<Longrightarrow> saved_ok k u (p_esp (pcbs k (term_pcb k u)))"
    "\<And>u u'. u < 3 \<Longrightarrow> u' < 3 \<Longrightarrow> active (terminal k u) = 1 \<Longrightarrow> active (terminal k u') = 1 \<Longrightarrow>
        apn (terminal k u) = apn (terminal k u') \<Longrightarrow> u = u'"
    using assms(1) unfolding sched_ok_def c_def by blast+
  have "terminals_ok k'" using ok(1) unfolding terminals_ok_def screen_ok_def k' .
  moreover have "saved_ok k' t (r_esp k')"
    using next_facts ok(5) unfolding saved k'(9,10) c_def by simp
  moreover have "saved_ok k' u (p_esp (pcbs k' (term_pcb k' u)))" if u: "u < 3" "active (terminal k' u) = 1" "u \<noteq> t" for u
  proof (cases "u = c")
    case True
    then show ?thesis using ok(4) by (simp add: saved pcb k'(9))
  next
    case False
    then have s: "saved_ok k u (p_esp (pcbs k (term_pcb k u)))" using ok(5) u unfolding k' by blast
    have "apn (terminal k u) \<noteq> apn (terminal k c)" using False ok(2,3,6) u(1,2) unfolding k' by blast
    then have "term_pcb k u \<noteq> term_pcb k c" using s ok(4) term_pcb_inj by (auto simp: saved_ok_def)
    then show ?thesis using s by (simp add: saved pcb k'(9))
  qed
  moreover have "t < 3" "active (terminal k t) = 1" by (rule next_facts)+
  ultimately show ?thesis using ok(6) k' unfolding sched_ok_def by metis
qed

lemma idle_tick:
  assumes "sched_ok k" and "active (terminal k 0) = 1" and "\<not> contended k"
  shows "\<exists>log. PIT_scheduling k = k\<lparr>io_log := log, iflag := True\<rparr>" "cur_active_terminal k = 0"
proof -
  obtain log where k0: "cli (send_eoi PIT_IRQ k) = k\<lparr>io_log := log, iflag := False\<rparr>" using eoi_cli_fields by blast
  show "\<exists>log. PIT_scheduling k = k\<lparr>io_log := log, iflag := True\<rparr>"
    unfolding PIT_scheduling_def Let_def k0 using assms(2,3) by (intro exI [of _ log]) (simp add: contended_def sti_def)
  show "cur_active_terminal k = 0"
    using assms term_cases [of "cur_active_terminal k"] by (auto simp: sched_ok_def contended_def)
qed

lemma tick_keeps_ok:
  assumes "sched_ok k" and "active (terminal k 0) = 1"
  shows "sched_ok (PIT_scheduling k)" "terminal (PIT_scheduling k) = terminal k"
proof -
  have "sched_ok (PIT_scheduling k) \<and> terminal (PIT_scheduling k) = terminal k"
  proof (cases "contended k")
    case True
    then show ?thesis
      using switched_keeps_ok [OF assms(1) True tick_switches(1) [OF assms(1) True] refl] tick_switches(1) [OF assms(1) True]
      by (simp add: switched_def)
  next
    case False
    then show ?thesis using idle_tick(1) [OF assms False] assms(1) by (auto simp: sched_ok_variables)
  qed
  then show "sched_ok (PIT_scheduling k)" "terminal (PIT_scheduling k) = terminal k" by blast+
qed

text \<open>
  Between two ticks the process of the scheduled terminal runs: it writes memory, and its
  kernel stack grows and shrinks. What system calls do to the terminals is left aside.
\<close>

datatype sched_event = Tick | Run

inductive sched_step :: "sched_event \<Rightarrow> kernel \<Rightarrow> kernel \<Rightarrow> bool" where
  tick: "sched_step Tick k (PIT_scheduling k)"
| run: "in_kernel_stack (ucast (apn (terminal k (cur_active_terminal k)))) esp \<Longrightarrow>
    sched_step Run k (k\<lparr>r_esp := esp, r_ebp := ebp, mem := m\<rparr>)"

inductive_cases tickE: "sched_step Tick k k'"
inductive_cases runE: "sched_step Run k k'"

text \<open>\<open>n\<close> ticks and any number of other steps, in which terminal \<open>t\<close> is never the scheduled one.\<close>

inductive away :: "u8 \<Rightarrow> nat \<Rightarrow> kernel \<Rightarrow> kernel \<Rightarrow> bool" for t where
  start: "cur_active_terminal k \<noteq> t \<Longrightarrow> away t 0 k k"
| step: "away t n k k' \<Longrightarrow> sched_step e k' k'' \<Longrightarrow> cur_active_terminal k'' \<noteq> t \<Longrightarrow>
    away t (case e of Tick \<Rightarrow> Suc n | Run \<Rightarrow> n) k k''"

lemma run_fields:
  assumes "sched_step Run k k'"
  shows "cur_active_terminal k' = cur_active_terminal k" "terminal k' = terminal k" "pcbs k' = pcbs k"
  using assms by (auto elim: runE)

lemma run_keeps_ok:
  assumes "sched_step Run k k'" and "sched_ok k"
  shows "sched_ok k'"
  using assms(1)
proof (rule runE)
  fix esp ebp m
  assume k': "k' = k\<lparr>r_esp := esp, r_ebp := ebp, mem := m\<rparr>"
    and stack: "in_kernel_stack (ucast (apn (terminal k (cur_active_terminal k)))) esp"
  have pcb: "term_pcb k' = term_pcb k" by (simp add: term_pcb_def fun_eq_iff k')
  have saved: "saved_ok k' u e = saved_ok k u e" for u e by (rule saved_ok_cong) (simp_all add: k')
  have "saved_ok k (cur_active_terminal k) esp" using assms(2) stack by (simp add: sched_ok_def saved_ok_def)
  then show ?thesis
    using assms(2) unfolding sched_ok_def pcb saved
    by (simp add: k' terminals_ok_def screen_ok_def tables_linked_def paging_on_def)
qed

lemma step_keeps_ok:
  assumes "sched_step e k k'" and "sched_ok k" and "active (terminal k 0) = 1"
  shows "sched_ok k'" "terminal k' = terminal k"
proof -
  have "sched_ok k' \<and> terminal k' = terminal k"
  proof (cases e)
    case Tick
    then show ?thesis using assms tick_keeps_ok by (auto elim: tickE)
  next
    case Run
    then show ?thesis using assms run_keeps_ok run_fields by blast
  qed
  then show "sched_ok k'" "terminal k' = terminal k" by blast+
qed

lemma tick_cur:
  assumes "sched_ok k" and "contended k"
  shows "cur_active_terminal (PIT_scheduling k) = next_term k (cur_active_terminal k)"
  using tick_switches(1) [OF assms] by (simp add: switched_def)

lemma next_term_cong: "terminal k' = terminal k \<Longrightarrow> next_term k' t = next_term k t"
proof -
  assume *: "terminal k' = terminal k"
  have "next_loop n k' t = next_loop n k t" for n
    by (induction n arbitrary: t) (simp_all add: Let_def *)
  then show ?thesis by (simp add: next_term_def)
qed

lemma contendedI:
  assumes "active (terminal k 0) = 1" and "sched_ok k" and "t < 3" "active (terminal k t) = 1" "t \<noteq> cur_active_terminal k"
  shows "contended k"
proof -
  have "cur_active_terminal k < 3" "active (terminal k (cur_active_terminal k)) = 1"
    using assms(2) by (simp_all add: sched_ok_def)
  then show ?thesis
    using assms(1,4,5) term_cases [OF assms(3)] term_cases [of "cur_active_terminal k"] unfolding contended_def by metis
qed

text \<open>With three terminals two ticks reach all of them.\<close>

lemma second_turn:
  assumes "c < 3" "t < 3" and "t \<noteq> c" "next_term k c \<noteq> t" and "active (terminal k c) = 1" "active (terminal k t) = 1"
  shows "next_term k (next_term k c) = t"
  using term_cases [OF assms(1)] term_cases [OF assms(2)] assms(3-6) by (auto simp: next_term_cases split: if_splits)

lemma away_bounded:
  assumes "away t n k k'" and "sched_ok k" and "active (terminal k 0) = 1" and "t < 3" and "active (terminal k t) = 1"
  shows "sched_ok k' \<and> terminal k' = terminal k \<and> cur_active_terminal k \<noteq> t \<and> cur_active_terminal k' \<noteq> t \<and>
    (n = 0 \<and> cur_active_terminal k' = cur_active_terminal k \<or> n = 1 \<and> cur_active_terminal k' = next_term k (cur_active_terminal k))"
  using assms
proof (induction rule: away.induct)
  case (start k)
  then show ?case by simp
next
  case (step n k k' e k'')
  have IH: "sched_ok k'" "terminal k' = terminal k" "cur_active_terminal k \<noteq> t" "cur_active_terminal k' \<noteq> t"
    "n = 0 \<and> cur_active_terminal k' = cur_active_terminal k \<or> n = 1 \<and> cur_active_terminal k' = next_term k (cur_active_terminal k)"
    using step.IH step.prems by blast+
  have zero: "active (terminal k' 0) = 1" using step.prems(2) IH(2) by simp
  have k'': "sched_ok k''" "terminal k'' = terminal k" using step_keeps_ok [OF step.hyps(2) IH(1) zero] IH(2) by simp_all
  show ?case
  proof (cases e)
    case Run
    then show ?thesis using IH k'' step.hyps(2,3) run_fields [of k' k''] by auto
  next
    case Tick
    have "contended k'" using contendedI [OF zero IH(1)] step.prems(3,4) IH(2,4) by simp
    then have cur: "cur_active_terminal k'' = next_term k (cur_active_terminal k')"
      using step.hyps(2) Tick tick_cur [OF IH(1)] next_term_cong [OF IH(2)] by (auto elim: tickE)
    have "cur_active_terminal k < 3" "active (terminal k (cur_active_terminal k)) = 1"
      using step.prems(1) by (simp_all add: sched_ok_def)
    then have "n = 0 \<and> cur_active_terminal k' = cur_active_terminal k"
      using IH(3,4,5) second_turn [of "cur_active_terminal k" t k] step.prems(3,4) step.hyps(3) cur by auto
    then show ?thesis using Tick k'' cur IH(3) step.hyps(3) by auto
  qed
qed

text \<open>A process that is not scheduled keeps its saved registers.\<close>

lemma step_keeps_saved:
  assumes "sched_step e k k'" and "sched_ok k" and "active (terminal k 0) = 1" and "t < 3" "active (terminal k t) = 1"
    and "t \<noteq> cur_active_terminal k"
  shows "pcbs k' (term_pcb k t) = pcbs k (term_pcb k t)"
proof (cases e)
  case Run
  then show ?thesis using run_fields(3) assms(1) by simp
next
  case Tick
  have k': "k' = PIT_scheduling k" using assms(1) Tick by (auto elim: tickE)
  have "contended k" by (rule contendedI [OF assms(3,2,4,5,6)])
  then have "pcbs k' = (pcbs k)(term_pcb k (cur_active_terminal k) := (pcbs k (term_pcb k (cur_active_terminal k)))
      \<lparr>p_esp := r_esp k, p_ebp := r_ebp k\<rparr>)"
    using tick_switches(1) [OF assms(2)] by (simp add: k' switched_def Let_def)
  moreover have "term_pcb k t \<noteq> term_pcb k (cur_active_terminal k)"
    using assms(2,4-6) term_pcb_inj [of k t "cur_active_terminal k"] unfolding sched_ok_def saved_ok_def by blast
  ultimately show ?thesis by simp
qed

lemma away_keeps_saved:
  assumes "away t n k k'" and "sched_ok k" and "active (terminal k 0) = 1" and "t < 3" and "active (terminal k t) = 1"
  shows "pcbs k' (term_pcb k t) = pcbs k (term_pcb k t)"
  using assms
proof (induction rule: away.induct)
  case (start k)
  then show ?case by simp
next
  case (step n k k' e k'')
  have b: "sched_ok k'" "terminal k' = terminal k" "cur_active_terminal k' \<noteq> t"
    using away_bounded [OF step.hyps(1) step.prems] by blast+
  have "pcbs k'' (term_pcb k' t) = pcbs k' (term_pcb k' t)"
    by (rule step_keeps_saved [OF step.hyps(2) b(1)]) (use step.prems b in auto)
  moreover have "term_pcb k' t = term_pcb k t" by (simp add: term_pcb_def b(2))
  ultimately show ?case using step by simp
qed

section \<open>A machine with three programs\<close>

definition three_programs :: kernel where
  "three_programs = three_terminals\<lparr>r_esp := 0x7FFF00,
     pcbs := (\<lambda>p. some_pcb\<lparr>term_ptr := if p = 0x7FE000 then 0 else if p = 0x7FC000 then 1 else 2,
       p_esp := p + 0x1F00, p_ebp := p + 0x1F10\<rparr>)\<rparr>"

lemma three_programs_ok: "sched_ok three_programs" "active (terminal three_programs t) = 1" "cur_active_terminal three_programs = 0"
proof -
  have pcb: "term_pcb three_programs 0 = 0x7FE000" "term_pcb three_programs 1 = 0x7FC000" "term_pcb three_programs 2 = 0x7FA000"
    by (simp_all add: term_pcb_def three_programs_def three_terminals_facts get_pcb_ptr_process_def)
  have "saved_ok three_programs 0 0x7FFF00"
    "saved_ok three_programs 1 (p_esp (pcbs three_programs (term_pcb three_programs 1)))"
    "saved_ok three_programs 2 (p_esp (pcbs three_programs (term_pcb three_programs 2)))"
    unfolding saved_ok_def pcb
    by (simp_all add: three_programs_def three_terminals_facts in_kernel_stack_def get_pcb_ptr_process_def)
  then have saved: "t < 3 \<Longrightarrow> t \<noteq> 0 \<Longrightarrow> saved_ok three_programs t (p_esp (pcbs three_programs (term_pcb three_programs t)))"
    "saved_ok three_programs 0 0x7FFF00" for t
    using term_cases [of t] by auto
  have v: "terminals_ok three_programs" "tables_linked three_programs" "paging_on three_programs"
    using three_terminals_facts(1-3)
    by (simp_all add: three_programs_def terminals_ok_def screen_ok_def tables_linked_def paging_on_def)
  have f: "cur_active_terminal three_programs = 0" "active (terminal three_programs t) = 1" "apn (terminal three_programs t) = t"
    "r_esp three_programs = 0x7FFF00" for t
    by (simp_all add: three_programs_def three_terminals_facts)
  show "sched_ok three_programs" using saved v by (simp add: sched_ok_def f)
  show "active (terminal three_programs t) = 1" "cur_active_terminal three_programs = 0" by (rule f)+
qed

section \<open>Properties\<close>

text \<open>
  C13. The round robin is fair: a terminal with a program that is not scheduled is scheduled at
  the latest by the second tick, whatever the processes that run in between do.
\<close>

theorem round_robin_fair:
  assumes "sched_ok k" and "active (terminal k 0) = 1" and "t < 3" and "active (terminal k t) = 1" and "away t n k k'"
  shows "n \<le> 1 \<and> (n = 1 \<longrightarrow> cur_active_terminal (PIT_scheduling k') = t)"
proof -
  note b = away_bounded [OF assms(5,1-4)]
  have "cur_active_terminal (PIT_scheduling k') = t" if n: "n = 1"
  proof -
    have ok: "sched_ok k'" "terminal k' = terminal k" "cur_active_terminal k' \<noteq> t" "cur_active_terminal k \<noteq> t"
      "cur_active_terminal k' = next_term k (cur_active_terminal k)"
      using b n by auto
    have "contended k'" using contendedI [of k' t] ok assms(2-4) by simp
    then have "cur_active_terminal (PIT_scheduling k') = next_term k (next_term k (cur_active_terminal k))"
      using tick_cur [OF ok(1)] next_term_cong [OF ok(2)] ok(5) by simp
    moreover have "cur_active_terminal k < 3" "active (terminal k (cur_active_terminal k)) = 1"
      using assms(1) by (simp_all add: sched_ok_def)
    ultimately show ?thesis using second_turn [of "cur_active_terminal k" t k] ok assms(3,4) by simp
  qed
  then show ?thesis using b by auto
qed

lemma first_tick: "cur_active_terminal (PIT_scheduling three_programs) = 1"
proof -
  have "contended three_programs" using three_programs_ok(2) by (simp add: contended_def)
  then show ?thesis
    using tick_cur [OF three_programs_ok(1)] by (simp add: three_programs_ok next_term_cases)
qed

lemma away_one: "away 2 1 three_programs (PIT_scheduling three_programs)"
proof -
  have "away 2 0 three_programs three_programs" by (rule away.start) (simp add: three_programs_ok)
  from away.step [OF this sched_step.tick] show ?thesis by (simp add: first_tick)
qed

lemma round_robin_fair_witness: "cur_active_terminal (PIT_scheduling (PIT_scheduling three_programs)) = 2"
  using round_robin_fair [OF three_programs_ok(1,2) _ three_programs_ok(2) away_one] by simp

text \<open>
  C4. A process comes back as it was: a tick takes the processor from it, and when a later tick
  schedules its terminal again, after whatever steps of the other terminals, the stack pointer
  and the frame pointer are the ones it had, 128 MB leads to its own memory again, the
  processor will find its kernel stack, and interrupts are on.
\<close>

theorem switch_round_trip:
  assumes "sched_ok k" and "contended k" and "away (cur_active_terminal k) n (PIT_scheduling k) k'"
    and "cur_active_terminal (PIT_scheduling k') = cur_active_terminal k"
  shows "r_esp (PIT_scheduling k') = r_esp k \<and> r_ebp (PIT_scheduling k') = r_ebp k \<and> iflag (PIT_scheduling k') \<and>
    (let process = ucast (apn (terminal k (cur_active_terminal k))) in
      user_mapped (PIT_scheduling k') \<and> user_frame (PIT_scheduling k') = process_frame process \<and>
      in_kernel_stack process (esp0 (tss (PIT_scheduling k'))))"
proof -
  define t where "t = cur_active_terminal k"
  define k1 where "k1 = PIT_scheduling k"
  have t: "t < 3" "active (terminal k t) = 1" using assms(1) by (simp_all add: sched_ok_def t_def)
  have zero: "active (terminal k 0) = 1" using assms(2) by (simp add: contended_def)
  have k1: "sched_ok k1" "terminal k1 = terminal k" unfolding k1_def by (rule tick_keeps_ok [OF assms(1) zero])+
  have away: "away t n k1 k'" using assms(3) by (simp add: t_def k1_def)
  have b: "sched_ok k'" "terminal k' = terminal k" "cur_active_terminal k' \<noteq> t"
    using away_bounded [OF away k1(1)] k1(2) zero t by auto
  have "contended k'" using contendedI [of k' t] b zero t by simp
  note back_switch = tick_switches [OF b(1) this]
  have "unat (apn (terminal k t)) < 6" using assms(1) by (simp add: sched_ok_def saved_ok_def t_def)
  then have stack: "in_kernel_stack (ucast (apn (terminal k t))) (kernel_stack_top (ucast (apn (terminal k t))))"
    by (simp add: esp0_in_stack unat_ucast_u8)
  have next_t: "next_term k' (cur_active_terminal k') = t"
    using back_switch(1) assms(4) by (simp add: switched_def t_def)
  have pcb: "term_pcb k1 = term_pcb k" "term_pcb k' = term_pcb k" by (simp_all add: term_pcb_def fun_eq_iff k1(2) b(2))
  have saved: "pcbs k1 (term_pcb k t) = (pcbs k (term_pcb k t))\<lparr>p_esp := r_esp k, p_ebp := r_ebp k\<rparr>"
    using tick_switches(1) [OF assms(1,2)] by (simp add: k1_def switched_def Let_def t_def)
  have "pcbs k' (term_pcb k t) = pcbs k1 (term_pcb k t)"
    using away_keeps_saved [OF away k1(1)] k1(2) zero t by (simp add: pcb)
  moreover have "pcbs (PIT_scheduling k') (term_pcb k t) = pcbs k' (term_pcb k t)"
    using step_keeps_saved [OF sched_step.tick b(1), of t] b zero t pcb by simp
  ultimately show ?thesis
    using back_switch saved stack by (simp add: next_t switched_def pcb b(2) Let_def t_def [symmetric])
qed

lemma switch_round_trip_witness:
  "r_esp (PIT_scheduling (PIT_scheduling (PIT_scheduling three_programs))) = 0x7FFF00"
proof -
  let ?k2 = "PIT_scheduling (PIT_scheduling three_programs)"
  have contended: "contended three_programs" using three_programs_ok(2) by (simp add: contended_def)
  have one: "sched_ok (PIT_scheduling three_programs)" "terminal (PIT_scheduling three_programs) = terminal three_programs"
    by (rule tick_keeps_ok [OF three_programs_ok(1,2)])+
  have two: "sched_ok ?k2" "terminal ?k2 = terminal three_programs"
    using tick_keeps_ok [OF one(1)] one(2) three_programs_ok(2) by simp_all
  have c: "contended (PIT_scheduling three_programs)" "contended ?k2" using contended one(2) two(2) by (simp_all add: contended_def)
  have cur2: "cur_active_terminal ?k2 = 2"
    using tick_cur [OF one(1) c(1)] by (simp add: first_tick next_term_cases one(2) three_programs_ok(2))
  have cur3: "cur_active_terminal (PIT_scheduling ?k2) = 0"
    using tick_cur [OF two(1) c(2)] by (simp add: cur2 next_term_cases two(2) three_programs_ok(2))
  have "away 0 0 (PIT_scheduling three_programs) (PIT_scheduling three_programs)" by (rule away.start) (simp add: first_tick)
  from away.step [OF this sched_step.tick] have "away 0 1 (PIT_scheduling three_programs) ?k2" by (simp add: cur2)
  then have "r_esp (PIT_scheduling ?k2) = r_esp three_programs"
    using switch_round_trip [OF three_programs_ok(1) contended, of 1 ?k2] cur3 by (simp add: three_programs_ok)
  then show ?thesis by (simp add: three_programs_def)
qed

text \<open>
  After \<^verbatim>\<open>PIT_init\<close> channel 0 of the timer divides 1193180 Hz by 23863, the low byte
  written first: it ticks 50 times a second. The timer line of the interrupt controller is open.
\<close>

lemma pit_ticks_50_hz:
  "pit_divisor (io_log (PIT_init k)) = 23863 \<and> 1193180 div 23863 = (50 :: nat) \<and>
   \<not> bit (master_mask (PIT_init k)) 0"
proof -
  define k1 where "k1 = outb (drop_bit 8 (ucast (ucast (CLK_FREQ div SET_FREQ) :: u16))) PIT_CHANNEL_0
     (outb (ucast (ucast (CLK_FREQ div SET_FREQ) :: u16) AND 0xFF) PIT_CHANNEL_0 (outb PIT_INIT PIT_CMD_PORT k))"
  have run: "PIT_init k = enable_irq 0 k1" by (simp add: PIT_init_def Let_def k1_def PIT_IRQ_def)
  have k1: "io_log k1 = Outb 0x5D 0x40 # Outb 0x37 0x40 # Outb 0x36 0x43 # io_log k"
    by (simp add: k1_def outb_def CLK_FREQ_def SET_FREQ_def PIT_CHANNEL_0_def PIT_INIT_def PIT_CMD_PORT_def)
  have "io_log (enable_irq 0 k1) = Outb (master_mask (enable_irq 0 k1)) 0x21 # io_log k1"
    by (simp add: enable_irq_def NUM_IRQ_def outb_def Let_def ucast_ucast_8)
  then have "pit_bytes (io_log (PIT_init k)) = [0x37, 0x5D]" by (simp add: run k1)
  then show ?thesis using enable_irq_masks(1) [of 0 k1 0] by (simp add: pit_divisor_def run)
qed

end
