(* ===== verification/Interrupts.thy ===== *)
theory Interrupts
  imports Scheduler
begin

text \<open>
  The ways into the kernel: the keyboard interrupt handler of \<^verbatim>\<open>student-distrib/keyboard.c\<close> and the
  system call handler of \<^verbatim>\<open>student-distrib/interrupts.S\<close>. The wrappers of the device interrupts
  in that file only save and restore registers.
\<close>

unbundle bit_operations_syntax

section \<open>Definitions\<close>

definition KEYBOARD_DATA_PORT :: u16 where "KEYBOARD_DATA_PORT = 0x60"
definition CTRL :: u8 where "CTRL = 0x1D"
definition SHIFT_LEFT :: u8 where "SHIFT_LEFT = 0x2A"
definition SHIFT_RIGHT :: u8 where "SHIFT_RIGHT = 0x36"
definition ALT :: u8 where "ALT = 0x38"
definition CAPS :: u8 where "CAPS = 0x3A"

text \<open>The end of the handler, with the key code that the switch has set.\<close>

definition finish_key :: "u8 \<Rightarrow> kernel \<Rightarrow> outcome option" where
  "finish_key keycode k = do {
     k \<leftarrow> (if keycode \<noteq> 0 then handle_key_press (ucast keycode) k else Some k);
     Some (Returns 0 (sti (send_eoi 1 k))) }"

text \<open>The default case while \<^verbatim>\<open>alt\<close> is down. Starting a shell on a new terminal does not come back.\<close>

definition alt_key :: "exec_locals \<Rightarrow> u8 \<Rightarrow> kernel \<Rightarrow> outcome option" where
  "alt_key l scancode k =
     (if scancode = BACKSPACE then finish_key 8 k
      else if 0x3A < scancode \<and> scancode < 0x3E then
        Option.bind (switch_terminal l (scancode - 0x3B) (send_eoi 1 k)) (\<lambda>out. case out of
            Returns r k \<Rightarrow> finish_key 0 k | To_user entry esp k \<Rightarrow> Some out | Resumes r k \<Rightarrow> Some out)
      else finish_key 0 k)"

definition keyboard_interrupt_handler :: "exec_locals \<Rightarrow> kernel \<Rightarrow> outcome option" where
  "keyboard_interrupt_handler l k =
     (let k = cli k;
          (b, k) = inb KEYBOARD_DATA_PORT k;
          scancode = (ucast b :: u8)
      in if scancode = CTRL then finish_key 0 (k\<lparr>ctrl_stat := 1\<rparr>)
         else if scancode = CTRL + PR_CONVER then finish_key 0 (k\<lparr>ctrl_stat := 0\<rparr>)
         else if scancode = SHIFT_LEFT \<or> scancode = SHIFT_RIGHT then finish_key 0 (k\<lparr>shift_stat := 1\<rparr>)
         else if scancode = SHIFT_LEFT + PR_CONVER \<or> scancode = SHIFT_RIGHT + PR_CONVER then finish_key 0 (k\<lparr>shift_stat := 0\<rparr>)
         else if scancode = ALT then finish_key 0 (k\<lparr>alt_stat := 1\<rparr>)
         else if scancode = ALT + PR_CONVER then finish_key 0 (k\<lparr>alt_stat := 0\<rparr>)
         else if scancode = CAPS then finish_key 0 (k\<lparr>caps_stat := (if caps_stat k \<noteq> 0 then 0 else 1)\<rparr>)
         else if scancode = CAPS + PR_CONVER then finish_key 0 k
         else if alt_stat k \<noteq> 0 then alt_key l scancode k
         else finish_key (keycode_of scancode k) k)"

text \<open>
  The system calls by their number, with the registers that hold the arguments. What the calls
  read without having set it is in \<open>env\<close>.
\<close>

record syscall_env =
  s_locals :: exec_locals
  s_shell_locals :: exec_locals
  s_uninit :: u8
  s_stack :: "nat \<Rightarrow> u32"

definition returning :: "i32 \<times> kernel \<Rightarrow> outcome" where
  "returning rk = Returns (fst rk) (snd rk)"

definition system_call_jump_table ::
  "syscall_env \<Rightarrow> u32 \<Rightarrow> u32 \<Rightarrow> u32 \<Rightarrow> u32 \<Rightarrow> kernel \<Rightarrow> outcome option" where
  "system_call_jump_table env eax ebx ecx edx k =
     (if eax = 1 then halt (s_shell_locals env) (s_uninit env) (ucast ebx) k
      else if eax = 2 then execute (s_locals env) (s_shell_locals env) (s_uninit env) (vptr ebx) k
      else if eax = 3 then map_option returning (sys_read ebx ecx edx k)
      else if eax = 4 then map_option returning (sys_write (s_stack env) (s_uninit env) ebx ecx edx k)
      else if eax = 5 then map_option returning (sys_open (s_uninit env) ebx k)
      else if eax = 6 then map_option returning (sys_close (s_uninit env) ebx k)
      else if eax = 7 then map_option returning (getargs ebx ecx k)
      else Some (returning (vidmap ebx k)))"

definition system_call_handler ::
  "syscall_env \<Rightarrow> u32 \<Rightarrow> u32 \<Rightarrow> u32 \<Rightarrow> u32 \<Rightarrow> kernel \<Rightarrow> outcome option" where
  "system_call_handler env eax ebx ecx edx k =
     (let k = cli k in
      if eax <s 1 then Some (Returns (- 1) (sti k))
      else if 8 <s eax then Some (Returns (- 1) (sti k))
      else map_option (\<lambda>out. case out of
            Returns r k \<Rightarrow> Returns r (sti (cli k))
          | To_user entry esp k \<Rightarrow> out
          | Resumes r k \<Rightarrow> out)
        (system_call_jump_table env eax ebx ecx edx (sti k)))"

section \<open>The keyboard as a state machine\<close>

text \<open>The modifier keys, and the key codes of a sequence of scan codes.\<close>

record modifiers =
  m_ctrl :: bool
  m_shift :: bool
  m_alt :: bool
  m_caps :: bool

definition next_mods :: "u8 \<Rightarrow> modifiers \<Rightarrow> modifiers" where
  "next_mods c m =
     (if c = 0x1D then m\<lparr>m_ctrl := True\<rparr> else if c = 0x9D then m\<lparr>m_ctrl := False\<rparr>
      else if c = 0x2A \<or> c = 0x36 then m\<lparr>m_shift := True\<rparr> else if c = 0xAA \<or> c = 0xB6 then m\<lparr>m_shift := False\<rparr>
      else if c = 0x38 then m\<lparr>m_alt := True\<rparr> else if c = 0xB8 then m\<lparr>m_alt := False\<rparr>
      else if c = 0x3A then m\<lparr>m_caps := \<not> m_caps m\<rparr> else m)"

definition modifier_codes :: "u8 set" where
  "modifier_codes = {0x1D, 0x9D, 0x2A, 0x36, 0xAA, 0xB6, 0x38, 0xB8, 0x3A, 0xBA}"

definition key_of :: "u8 \<Rightarrow> modifiers \<Rightarrow> u8" where
  "key_of c m =
     (if c \<in> modifier_codes then 0
      else if m_alt m then (if c = BACKSPACE then 8 else 0)
      else decode c (m_ctrl m) (m_shift m) (m_caps m))"

fun keys_of :: "u8 list \<Rightarrow> modifiers \<Rightarrow> u16 list" where
  "keys_of [] m = []"
| "keys_of (c # cs) m = (if key_of c m = 0 then [] else [ucast (key_of c m)]) @ keys_of cs (next_mods c m)"

text \<open>Alt and F1 to F3 switch terminals.\<close>

fun switches :: "u8 list \<Rightarrow> modifiers \<Rightarrow> bool" where
  "switches [] m = False"
| "switches (c # cs) m = (m_alt m \<and> 0x3A < c \<and> c < 0x3E \<or> switches cs (next_mods c m))"

definition mods_of :: "kernel \<Rightarrow> modifiers" where
  "mods_of k = \<lparr>m_ctrl = ctrl_stat k \<noteq> 0, m_shift = shift_stat k \<noteq> 0, m_alt = alt_stat k \<noteq> 0, m_caps = caps_stat k \<noteq> 0\<rparr>"

text \<open>The keyboard delivers a scan code and interrupts.\<close>

definition key_irq :: "exec_locals \<Rightarrow> u8 \<Rightarrow> kernel \<Rightarrow> outcome option" where
  "key_irq l c k = keyboard_interrupt_handler l (k\<lparr>device := (\<lambda>_ _. c)\<rparr>)"

fun key_irqs :: "exec_locals \<Rightarrow> u8 list \<Rightarrow> kernel \<Rightarrow> kernel option" where
  "key_irqs l [] k = Some k"
| "key_irqs l (c # cs) k = (case key_irq l c k of Some (Returns r k') \<Rightarrow> key_irqs l cs k' | _ \<Rightarrow> None)"

lemma eoi_log: "\<exists>log. send_eoi 1 k = k\<lparr>io_log := log\<rparr>"
  by (simp add: send_eoi_def NUM_IRQ_def outb_def) blast

text \<open>What the line editor does not look at.\<close>

lemma keyboard_variables [simp]:
  "keyboard_ok (k\<lparr>io_log := log\<rparr>) = keyboard_ok k" "keyboard_ok (k\<lparr>iflag := b\<rparr>) = keyboard_ok k"
  "keyboard_ok (k\<lparr>device := d\<rparr>) = keyboard_ok k" "keyboard_ok (k\<lparr>ctrl_stat := v\<rparr>) = keyboard_ok k"
  "keyboard_ok (k\<lparr>shift_stat := v\<rparr>) = keyboard_ok k" "keyboard_ok (k\<lparr>alt_stat := v\<rparr>) = keyboard_ok k"
  "keyboard_ok (k\<lparr>caps_stat := v\<rparr>) = keyboard_ok k"
  "typed (k\<lparr>io_log := log\<rparr>) = typed k" "typed (k\<lparr>iflag := b\<rparr>) = typed k"
  "typed (k\<lparr>device := d\<rparr>) = typed k" "typed (k\<lparr>ctrl_stat := v\<rparr>) = typed k"
  "typed (k\<lparr>shift_stat := v\<rparr>) = typed k" "typed (k\<lparr>alt_stat := v\<rparr>) = typed k" "typed (k\<lparr>caps_stat := v\<rparr>) = typed k"
  "fore_console (k\<lparr>io_log := log\<rparr>) = fore_console k" "fore_console (k\<lparr>iflag := b\<rparr>) = fore_console k"
  "fore_console (k\<lparr>device := d\<rparr>) = fore_console k" "fore_console (k\<lparr>ctrl_stat := v\<rparr>) = fore_console k"
  "fore_console (k\<lparr>shift_stat := v\<rparr>) = fore_console k" "fore_console (k\<lparr>alt_stat := v\<rparr>) = fore_console k"
  "fore_console (k\<lparr>caps_stat := v\<rparr>) = fore_console k"
  by (simp_all add: keyboard_ok_def typed_def fore_console_def key_array_def key_terminal_def screen_ok_def)

text \<open>The state of the keyboard after an interrupt.\<close>

definition key_result :: "u8 \<Rightarrow> kernel \<Rightarrow> kernel \<Rightarrow> bool" where
  "key_result keycode k k' \<longleftrightarrow> keyboard_ok k' \<and> mods_of k' = mods_of k \<and> iflag k' \<and>
     typed k' = (if keycode = 0 then typed k else edit (ucast keycode) (typed k)) \<and>
     fore_console k' = (if keycode = 0 then fore_console k else echo (ucast keycode) (typed k) (fore_console k))"

lemma ucast_enter: "(ucast (c :: u8) :: u16) = 13 \<longleftrightarrow> c = 13"
proof
  assume "(ucast c :: u16) = 13"
  then have "unat (ucast c :: u16) = 13" by simp
  then show "c = 13" using unat_lt8 [of c] by (simp add: unsigned_ucast_eq take_bit_eq_mod word_unat_eq_iff)
qed simp

lemma finish_key_cases:
  assumes "keyboard_ok k"
  shows "if keycode = 13 \<and> length (typed k) = 128 then finish_key keycode k = None
    else \<exists>k'. finish_key keycode k = Some (Returns 0 k') \<and> key_result keycode k k'"
proof (cases "keycode = 0")
  case True
  obtain log where "send_eoi 1 k = k\<lparr>io_log := log\<rparr>" using eoi_log by blast
  then show ?thesis using True assms(1) by (simp add: finish_key_def key_result_def sti_def mods_of_def)
next
  case False
  have len: "length (typed k) = unat (key_buffer_idx k)" "unat (key_buffer_idx k) \<le> 128"
    using typed_length [OF assms] assms by (simp_all add: keyboard_ok_def)
  show ?thesis
  proof (cases "keycode = 13 \<and> length (typed k) = 128")
    case True
    then show ?thesis using enter_full [OF assms] len by (simp add: finish_key_def)
  next
    case below: False
    obtain k1 where k1: "handle_key_press (ucast keycode) k = Some k1" "keyboard_ok k1"
      "typed k1 = edit (ucast keycode) (typed k)" "fore_console k1 = echo (ucast keycode) (typed k) (fore_console k)" "key_frame k k1"
      using key_press [OF assms(1), of "ucast keycode"] below len ucast_enter [of keycode] by auto
    obtain log where "send_eoi 1 k1 = k1\<lparr>io_log := log\<rparr>" using eoi_log by blast
    then show ?thesis
      unfolding if_not_P [OF below] using False k1 by (simp add: finish_key_def key_result_def sti_def mods_of_def key_frame_def)
  qed
qed

text \<open>The handler up to the switch.\<close>

lemma key_irq_read:
  "\<exists>log. key_irq l c k =
     (let k = k\<lparr>device := (\<lambda>_ _. c), iflag := False, io_log := log\<rparr> in
      if c = 0x1D then finish_key 0 (k\<lparr>ctrl_stat := 1\<rparr>) else if c = 0x9D then finish_key 0 (k\<lparr>ctrl_stat := 0\<rparr>)
      else if c = 0x2A \<or> c = 0x36 then finish_key 0 (k\<lparr>shift_stat := 1\<rparr>)
      else if c = 0xAA \<or> c = 0xB6 then finish_key 0 (k\<lparr>shift_stat := 0\<rparr>)
      else if c = 0x38 then finish_key 0 (k\<lparr>alt_stat := 1\<rparr>) else if c = 0xB8 then finish_key 0 (k\<lparr>alt_stat := 0\<rparr>)
      else if c = 0x3A then finish_key 0 (k\<lparr>caps_stat := (if caps_stat k \<noteq> 0 then 0 else 1)\<rparr>)
      else if c = 0xBA then finish_key 0 k
      else if alt_stat k \<noteq> 0 then alt_key l c k
      else finish_key (keycode_of c k) k)"
  by (rule exI [of _ "Inb KEYBOARD_DATA_PORT # io_log k"])
    (simp add: key_irq_def keyboard_interrupt_handler_def inb_def cli_def Let_def ucast_ucast_8
      CTRL_def SHIFT_LEFT_def SHIFT_RIGHT_def ALT_def CAPS_def PR_CONVER_def)

text \<open>What an interrupt does before the key code gets to the editor: the modifier keys.\<close>

lemma key_irq_start:
  assumes "keyboard_ok k" and "\<not> (m_alt (mods_of k) \<and> 0x3A < c \<and> c < 0x3E)"
  shows "\<exists>k0. key_irq l c k = finish_key (key_of c (mods_of k)) k0 \<and> keyboard_ok k0 \<and>
     mods_of k0 = next_mods c (mods_of k) \<and> typed k0 = typed k \<and> fore_console k0 = fore_console k"
proof -
  obtain log where run: "key_irq l c k =
     (let k = k\<lparr>device := (\<lambda>_ _. c), iflag := False, io_log := log\<rparr> in
      if c = 0x1D then finish_key 0 (k\<lparr>ctrl_stat := 1\<rparr>) else if c = 0x9D then finish_key 0 (k\<lparr>ctrl_stat := 0\<rparr>)
      else if c = 0x2A \<or> c = 0x36 then finish_key 0 (k\<lparr>shift_stat := 1\<rparr>)
      else if c = 0xAA \<or> c = 0xB6 then finish_key 0 (k\<lparr>shift_stat := 0\<rparr>)
      else if c = 0x38 then finish_key 0 (k\<lparr>alt_stat := 1\<rparr>) else if c = 0xB8 then finish_key 0 (k\<lparr>alt_stat := 0\<rparr>)
      else if c = 0x3A then finish_key 0 (k\<lparr>caps_stat := (if caps_stat k \<noteq> 0 then 0 else 1)\<rparr>)
      else if c = 0xBA then finish_key 0 k
      else if alt_stat k \<noteq> 0 then alt_key l c k
      else finish_key (keycode_of c k) k)"
    using key_irq_read by blast
  let ?k = "k\<lparr>device := (\<lambda>_ _. c), iflag := False, io_log := log\<rparr>"
  show ?thesis
  proof (cases "c \<in> modifier_codes")
    case True
    then have zero: "key_of c (mods_of k) = 0" by (simp add: key_of_def)
    define k0 where "k0 = (if c = 0x1D then ?k\<lparr>ctrl_stat := 1\<rparr> else if c = 0x9D then ?k\<lparr>ctrl_stat := 0\<rparr>
      else if c = 0x2A \<or> c = 0x36 then ?k\<lparr>shift_stat := 1\<rparr> else if c = 0xAA \<or> c = 0xB6 then ?k\<lparr>shift_stat := 0\<rparr>
      else if c = 0x38 then ?k\<lparr>alt_stat := 1\<rparr> else if c = 0xB8 then ?k\<lparr>alt_stat := 0\<rparr>
      else if c = 0x3A then ?k\<lparr>caps_stat := (if caps_stat k \<noteq> 0 then 0 else 1)\<rparr> else ?k)"
    show ?thesis
    proof (intro exI [of _ k0] conjI)
      show "key_irq l c k = finish_key (key_of c (mods_of k)) k0"
        using True unfolding run zero k0_def Let_def modifier_codes_def by (elim insertE emptyE) simp_all
      show "mods_of k0 = next_mods c (mods_of k)"
        using True unfolding k0_def modifier_codes_def next_mods_def mods_of_def by (elim insertE emptyE) simp_all
    qed (simp_all add: k0_def assms(1))
  next
    case False
    then have default: "key_irq l c k = (if alt_stat ?k \<noteq> 0 then alt_key l c ?k else finish_key (keycode_of c ?k) ?k)"
      "next_mods c (mods_of k) = mods_of k"
      unfolding run by (auto simp: modifier_codes_def next_mods_def Let_def)
    show ?thesis
    proof (intro exI [of _ ?k] conjI)
      show "key_irq l c k = finish_key (key_of c (mods_of k)) ?k"
        using False assms(2) unfolding default(1)
        by (auto simp: alt_key_def key_of_def mods_of_def keycode_of_def)
    qed (simp_all add: assms(1) default(2), simp add: mods_of_def)
  qed
qed

definition scanned :: "u8 list \<Rightarrow> kernel \<Rightarrow> kernel \<Rightarrow> bool" where
  "scanned cs k k' \<longleftrightarrow> keyboard_ok k' \<and> mods_of k' = fold next_mods cs (mods_of k) \<and>
     typed k' = fold edit (keys_of cs (mods_of k)) (typed k) \<and>
     fore_console k' = echo_keys (keys_of cs (mods_of k)) (typed k) (fore_console k) \<and> (cs \<noteq> [] \<longrightarrow> iflag k')"

lemma key_irqs_cases:
  "keyboard_ok k \<Longrightarrow> \<not> switches cs (mods_of k) \<Longrightarrow>
   if overruns (keys_of cs (mods_of k)) (typed k) then key_irqs l cs k = None
   else \<exists>k'. key_irqs l cs k = Some k' \<and> scanned cs k k'"
proof (induction cs arbitrary: k)
  case Nil
  then show ?case by (simp add: scanned_def)
next
  case (Cons c cs)
  let ?key = "key_of c (mods_of k)" and ?m = "next_mods c (mods_of k)"
  have no_switch: "\<not> (m_alt (mods_of k) \<and> 0x3A < c \<and> c < 0x3E)" "\<not> switches cs ?m" using Cons.prems(2) by simp_all
  obtain k0 where k0: "key_irq l c k = finish_key ?key k0" "keyboard_ok k0" "mods_of k0 = ?m" "typed k0 = typed k"
    "fore_console k0 = fore_console k"
    using key_irq_start [OF Cons.prems(1) no_switch(1), of l] by blast
  show ?case
  proof (cases "?key = 13 \<and> length (typed k) = 128")
    case True
    then show ?thesis using finish_key_cases [OF k0(2), of ?key] k0(1,4) by simp
  next
    case False
    then obtain k1 where k1: "key_irq l c k = Some (Returns 0 k1)" "key_result ?key k0 k1"
      using finish_key_cases [OF k0(2), of ?key] k0(1,4) by auto
    note r = k1(2) [unfolded key_result_def k0(3-5)]
    have over: "overruns (keys_of (c # cs) (mods_of k)) (typed k) = overruns (keys_of cs (mods_of k1)) (typed k1)"
      using False r by (auto simp: ucast_enter)
    have "scanned (c # cs) k k'" if "scanned cs k1 k'" "key_irqs l cs k1 = Some k'" for k'
      using that r by (cases cs) (auto simp: scanned_def)
    then show ?thesis using Cons.IH [of k1] r no_switch(2) over k1(1) by (auto split: if_splits)
  qed
qed

section \<open>Switching terminals from the keyboard\<close>

text \<open>\<^verbatim>\<open>Alt\<close> with a function key gets to \<^verbatim>\<open>switch_terminal\<close>, and the handler ends after it.\<close>

lemma alt_f_start:
  assumes "alt_stat k \<noteq> 0" and "t < 3"
  shows "\<exists>k0. key_irq l (0x3B + t) k = Option.bind (switch_terminal l t k0) (\<lambda>out. case out of
        Returns r k \<Rightarrow> finish_key 0 k | To_user entry esp k \<Rightarrow> Some out | Resumes r k \<Rightarrow> Some out) \<and>
    (\<exists>log. k0 = k\<lparr>device := \<lambda>_ _. 0x3B + t, iflag := False, io_log := log\<rparr>)"
proof -
  let ?k = "k\<lparr>device := \<lambda>_ _. 0x3B + t, iflag := False, io_log := Inb KEYBOARD_DATA_PORT # io_log k\<rparr>"
  obtain log where log: "send_eoi 1 ?k = k\<lparr>device := \<lambda>_ _. 0x3B + t, iflag := False, io_log := log\<rparr>"
    using eoi_log [of ?k] by auto
  have code: "0x3B + t \<notin> {0x1D, 0x9D, 0x2A, 0x36, 0xAA, 0xB6, 0x38, 0xB8, 0x3A, 0xBA, BACKSPACE}"
    "0x3A < 0x3B + t" "0x3B + t < 0x3E"
    using term_cases [OF assms(2)] by (auto simp: BACKSPACE_def)
  have "key_irq l (0x3B + t) k = alt_key l (0x3B + t) ?k"
    using code(1) assms(1)
    by (simp add: key_irq_def keyboard_interrupt_handler_def inb_def cli_def Let_def ucast_ucast_8
      CTRL_def SHIFT_LEFT_def SHIFT_RIGHT_def ALT_def CAPS_def PR_CONVER_def)
  then show ?thesis
    using code by (intro exI [of _ "k\<lparr>device := \<lambda>_ _. 0x3B + t, iflag := False, io_log := log\<rparr>"]) (auto simp: alt_key_def log)
qed

definition switched_back :: "kernel \<Rightarrow> kernel \<Rightarrow> bool" where
  "switched_back k k' \<longleftrightarrow> (\<exists>log. k' = k\<lparr>io_log := log, iflag := True\<rparr>)"

lemma finish_switch: "\<exists>k'. finish_key 0 k = Some (Returns 0 k') \<and> switched_back k k'"
proof -
  obtain log where "send_eoi 1 k = k\<lparr>io_log := log\<rparr>" using eoi_log by blast
  then show ?thesis by (auto simp: finish_key_def sti_def switched_back_def)
qed

lemma switched_back_facts:
  assumes "switched_back k k'"
  shows "cur_term k' = cur_term k" "terminals_ok k' = terminals_ok k" "screen_of k' u = screen_of k u" "iflag k'"
  using assms by (auto simp: switched_back_def terminals_ok_def screen_ok_def intro: screen_of_cong)

section \<open>Properties\<close>

text \<open>
  C19. The keyboard interrupt handler turns scan codes into an edited line: for every sequence of
  scan codes without \<^verbatim>\<open>Alt\<close> with F1, F2 or F3 (these switch terminals), \<^verbatim>\<open>ENTER\<close> included, delivered one
  interrupt at a time, the modifier keys are the ones that are down, the line is the one that the
  abstract line editor makes of the decoded keys, and the screen shows it. Interrupts are enabled
  again after each one. The one exception is an \<^verbatim>\<open>ENTER\<close> that comes with 128 characters in the
  line buffer: exactly then the store goes past the end of the buffer, which is the result \<open>None\<close>.
\<close>

theorem scancodes_edit_line:
  assumes "keyboard_ok k" and "\<not> switches cs (mods_of k)"
  shows "case key_irqs l cs k of
      None \<Rightarrow> overruns (keys_of cs (mods_of k)) (typed k)
    | Some k' \<Rightarrow> \<not> overruns (keys_of cs (mods_of k)) (typed k) \<and> mods_of k' = fold next_mods cs (mods_of k) \<and>
        typed k' = fold edit (keys_of cs (mods_of k)) (typed k) \<and>
        fore_console k' = echo_keys (keys_of cs (mods_of k)) (typed k) (fore_console k) \<and> (cs \<noteq> [] \<longrightarrow> iflag k')"
  using key_irqs_cases [OF assms, of l] by (auto simp: scanned_def split: if_splits)

text \<open>Shift down, H, shift up, I, J, backspace, \<^verbatim>\<open>ENTER\<close>.\<close>

lemma scancodes_edit_line_witness:
  "\<exists>k'. key_irqs some_locals [0x2A, 0x23, 0xAA, 0x17, 0x24, 0x0E, 0x1C] typing_kernel = Some k' \<and>
     typed k' = ascii ''Hi'' @ [0x0A] \<and> iflag k'"
proof -
  have mods: "mods_of typing_kernel = \<lparr>m_ctrl = False, m_shift = False, m_alt = False, m_caps = False\<rparr>" "typed typing_kernel = []"
    using typing_kernel_ok(2) by (simp_all add: mods_of_def typing_kernel_def some_kernel_def boot_kernel_def)
  define cs :: "u8 list" where "cs = [0x2A, 0x23, 0xAA, 0x17, 0x24, 0x0E, 0x1C]"
  define m where "m = \<lparr>m_ctrl = False, m_shift = False, m_alt = False, m_caps = False\<rparr>"
  define keys :: "u16 list" where "keys = [0x48, 0x69, 0x6A, 8, 13]"
  have k: "keys_of cs m = keys" unfolding cs_def m_def keys_def by code_simp
  have s: "\<not> switches cs m" unfolding cs_def m_def by code_simp
  have e: "fold edit keys [] = ascii ''Hi'' @ [0x0A]" "\<not> overruns keys []" unfolding keys_def by code_simp+
  have "cs \<noteq> []" by (simp add: cs_def)
  then have "\<exists>k'. key_irqs some_locals cs typing_kernel = Some k' \<and> typed k' = ascii ''Hi'' @ [0x0A] \<and> iflag k'"
    using scancodes_edit_line [OF typing_kernel_ok(1), of cs some_locals] k s e
    by (auto simp: mods m_def [symmetric] split: option.splits)
  then show ?thesis by (simp only: cs_def)
qed

text \<open>
  C21. \<^verbatim>\<open>Alt\<close> with F1, F2 or F3 switches to the terminal of the key, whichever it is. There is a
  machine in which this terminal is shown and all terminals have the cells of their screens,
  their cursors, their typed lines and their line buffers as before the interrupt. If the
  terminal was shown already or a program runs on it, this is the machine after the interrupt,
  with interrupts enabled. If not (the first use of the terminal), it is the one in which the
  shell is started for it, and the registers of the interrupted program have been saved in its
  control block; only if that shell cannot be started does the handler go on.
\<close>

theorem alt_f_key_switches:
  assumes "terminals_ok k" and "tables_linked k" and "paging_on k" and "cur_active_terminal k < 3" and "alt_stat k \<noteq> 0"
    and "t < 3"
  shows "\<exists>k'. cur_term k' = t \<and> terminals_ok k' \<and> (\<forall>u<3. screen_of k' u = screen_of k u) \<and> iflag k' \<and>
    (if t = cur_term k \<or> active (terminal k t) = 1 then key_irq l (0x3B + t) k = Some (Returns 0 k')
     else key_irq l (0x3B + t) k = Option.bind (execute_shell l k') (\<lambda>out. case out of
            Returns r k \<Rightarrow> finish_key 0 k | To_user entry esp k \<Rightarrow> Some out | Resumes r k \<Rightarrow> Some out) \<and>
       (let old_pcb = pcbs k' (get_pcb_ptr_process (scast (apn (terminal k (cur_active_terminal k))))) in
        p_esp old_pcb = r_esp k \<and> p_ebp old_pcb = r_ebp k))"
proof -
  obtain k0 where k0: "key_irq l (0x3B + t) k = Option.bind (switch_terminal l t k0) (\<lambda>out. case out of
        Returns r k \<Rightarrow> finish_key 0 k | To_user entry esp k \<Rightarrow> Some out | Resumes r k \<Rightarrow> Some out)"
    "\<exists>log. k0 = k\<lparr>device := \<lambda>_ _. 0x3B + t, iflag := False, io_log := log\<rparr>"
    using alt_f_start [OF assms(5,6)] by blast
  from k0(2) obtain log where log: "k0 = k\<lparr>device := \<lambda>_ _. 0x3B + t, iflag := False, io_log := log\<rparr>" by blast
  have ok: "terminals_ok k0" "tables_linked k0" "paging_on k0" "cur_term k0 = cur_term k" "terminal k0 = terminal k"
    "cur_active_terminal k0 = cur_active_terminal k" "r_esp k0 = r_esp k" "r_ebp k0 = r_ebp k" "cli k0 = k0"
    using assms(1-3) by (simp_all add: log terminals_ok_def screen_ok_def tables_linked_def paging_on_def cli_def)
  have screens: "screen_of k0 u = screen_of k u" for u unfolding log by (rule screen_of_cong) simp_all
  have small: "\<not> t > MAX_TERM - 1" using term_cases [OF assms(6)] by (auto simp: MAX_TERM_def)
  consider "t = cur_term k" | "t \<noteq> cur_term k" "active (terminal k t) = 1" | "t \<noteq> cur_term k" "active (terminal k t) \<noteq> 1" by blast
  then show ?thesis
  proof cases
    case 1
    then have "switch_terminal l t k0 = Some (Returns 0 k0)" using small ok by (simp add: switch_terminal_def)
    moreover obtain k' where "finish_key 0 k0 = Some (Returns 0 k')" "switched_back k0 k'" using finish_switch by blast
    ultimately show ?thesis
      using 1 ok screens switched_back_facts [OF \<open>switched_back k0 k'\<close>] k0(1) by (intro exI [of _ k']) simp
  next
    case 2
    obtain k1 where k1: "switch_to_active t k0 = Some (0, k1)" "cur_term k1 = t" "terminals_ok k1"
      "\<forall>u<3. screen_of k1 u = screen_of k u"
      using switch_to_active_result [OF ok(1) assms(6) _ ok(2,3)] assms(4) 2 ok(4,6) screens by auto
    then have "switch_terminal l t k0 = Some (Returns 0 k1)" using small ok 2 by (simp add: switch_terminal_def)
    moreover obtain k' where "finish_key 0 k1 = Some (Returns 0 k')" "switched_back k1 k'" using finish_switch by blast
    ultimately show ?thesis
      using 2 k1 switched_back_facts [OF \<open>switched_back k1 k'\<close>] k0(1) by (intro exI [of _ k']) simp
  next
    case 3
    obtain k1 where k1: "switch_to_new t k0 = Some k1" "cur_term k1 = t" "terminals_ok k1" "\<forall>u<3. screen_of k1 u = screen_of k u"
      "iflag k1" "p_esp (pcbs k1 (get_pcb_ptr_process (scast (apn (terminal k (cur_active_terminal k)))))) = r_esp k"
      "p_ebp (pcbs k1 (get_pcb_ptr_process (scast (apn (terminal k (cur_active_terminal k)))))) = r_ebp k"
      using switch_to_new_result [OF ok(1) assms(6)] 3 ok screens by auto
    have "switch_terminal l t k0 = map_option return_0 (execute_shell l k1)"
      using small ok 3 k1(1) by (simp add: switch_terminal_def map_option_case split: bind_split option.split)
    then have "key_irq l (0x3B + t) k = Option.bind (execute_shell l k1) (\<lambda>out. case out of
            Returns r k \<Rightarrow> finish_key 0 k | To_user entry esp k \<Rightarrow> Some out | Resumes r k \<Rightarrow> Some out)"
      unfolding k0(1) by (cases "execute_shell l k1") (auto split: outcome.splits)
    then show ?thesis using 3 k1 by (intro exI [of _ k1]) (simp add: Let_def)
  qed
qed

text \<open>F3 on a machine with programs on all terminals, and on one where the third has none.\<close>

lemma alt_f_key_switches_witness:
  "(\<exists>k'. key_irq some_locals 0x3D (three_terminals\<lparr>alt_stat := 1\<rparr>) = Some (Returns 0 k') \<and> cur_term k' = 2 \<and>
     screen_of k' 0 = screen_of three_terminals 0) \<and>
   (\<exists>k'. key_irq some_locals 0x3D (upd_terminal 2 (active_update (\<lambda>_. 0)) (three_terminals\<lparr>alt_stat := 1\<rparr>)) =
       Option.bind (execute_shell some_locals k') (\<lambda>out. case out of
         Returns r k \<Rightarrow> finish_key 0 k | To_user entry esp k \<Rightarrow> Some out | Resumes r k \<Rightarrow> Some out) \<and> cur_term k' = 2)"
proof -
  let ?k = "three_terminals\<lparr>alt_stat := 1\<rparr>"
  let ?q = "upd_terminal 2 (active_update (\<lambda>_. 0)) ?k"
  have ok: "terminals_ok ?k" "tables_linked ?k" "paging_on ?k" "terminals_ok ?q" "tables_linked ?q" "paging_on ?q"
    using three_terminals_facts(1-3)
    by (simp_all add: terminals_ok_def screen_ok_def tables_linked_def paging_on_def upd_terminal_def)
  have "screen_of ?k 0 = screen_of three_terminals 0" by (rule screen_of_cong) simp_all
  then show ?thesis
    using alt_f_key_switches [OF ok(1-3), of 2 some_locals] alt_f_key_switches [OF ok(4-6), of 2 some_locals]
    by (fastforce simp: three_terminals_facts upd_terminal_def)
qed

text \<open>
  The system call handler refuses every number outside 1 to 8 with -1 and changes nothing;
  a number inside runs the call of the table with interrupts enabled, and interrupts are enabled
  when it returns.
\<close>

lemma system_call_refused:
  assumes "eax = 0 \<or> 8 <s eax \<or> eax <s 0"
  shows "system_call_handler env eax ebx ecx edx k = Some (Returns (- 1) (k\<lparr>iflag := True\<rparr>))"
proof -
  have "eax <s 1 \<or> 8 <s eax"
    using assms by (auto simp: word_sless_alt)
  then show ?thesis by (auto simp: system_call_handler_def cli_def sti_def Let_def)
qed

end
