(* ===== verification/Idt.thy ===== *)
theory Idt
  imports Interrupts
begin

text \<open>
  The interrupt descriptor table and the processor exceptions: \<^verbatim>\<open>student-distrib/idt.c\<close>. Where the
  linker puts a handler is an argument (\<open>addr_of\<close>); a bit field is a word of its width.
\<close>

unbundle bit_operations_syntax

section \<open>Definitions\<close>

record idt_desc_t =
  offset_15_00 :: u16
  seg_selector :: u16
  reserved4 :: u8
  reserved3 :: "1 word"
  reserved2 :: "1 word"
  reserved1 :: "1 word"
  gate_size :: "1 word"
  reserved0 :: "1 word"
  dpl :: "2 word"
  present :: "1 word"
  offset_31_16 :: u16

type_synonym idt = "u32 \<Rightarrow> idt_desc_t"

definition NUM_VEC :: u32 where "NUM_VEC = 256"
definition KERNEL_CS :: u16 where "KERNEL_CS = 0x10"
definition SYSCALL_VECTOR :: u32 where "SYSCALL_VECTOR = 0x80"
definition RTC_VECTOR :: u32 where "RTC_VECTOR = 0x28"
definition KEYBOARD_VECTOR :: u32 where "KEYBOARD_VECTOR = 0x21"
definition PIT_VECTOR :: u32 where "PIT_VECTOR = 0x20"

text \<open>The functions that the table points to.\<close>

datatype handler =
    Divide_error | Debug | Nmi | Breakpoint | Overflow | Bounds | Invalid_op
  | Device_not_available | Double_fault | Segment_overrun | Invalid_TSS
  | Segment_not_present | Stack_segment | General_protection | Page_fault | Generic_error
  | Fp | Alignment_check | Machine_check | Rtc_handler | Keyboard_handler | Pit_handler
  | System_call_handler

definition SET_IDT_ENTRY :: "u32 \<Rightarrow> addr \<Rightarrow> idt \<Rightarrow> idt" where
  "SET_IDT_ENTRY i h idt =
     (let idt = idt(i := (idt i)\<lparr>offset_31_16 := ucast (drop_bit 16 (h AND 0xFFFF0000))\<rparr>)
      in idt(i := (idt i)\<lparr>offset_15_00 := ucast (h AND 0xFFFF)\<rparr>))"

text \<open>One round of the loop.\<close>

definition init_gate :: "u32 \<Rightarrow> idt_desc_t \<Rightarrow> idt_desc_t" where
  "init_gate i d =
     (let d = d\<lparr>present := 1, dpl := 0, gate_size := 1\<rparr>;
          d = d\<lparr>reserved0 := 0, reserved1 := 1, reserved2 := 1, reserved3 := 0, reserved4 := 0, seg_selector := KERNEL_CS\<rparr>;
          d = (if i < 32 then d\<lparr>reserved3 := 1\<rparr> else d)
      in if SYSCALL_VECTOR = i then d\<lparr>reserved3 := 1, dpl := 3\<rparr> else d)"

definition init_idt :: "(handler \<Rightarrow> addr) \<Rightarrow> idt \<Rightarrow> idt" where
  "init_idt addr_of idt =
     (let idt = fold (\<lambda>i idt. idt(word_of_nat i := init_gate (word_of_nat i) (idt (word_of_nat i)))) [0..<unat NUM_VEC] idt;
          idt = SET_IDT_ENTRY 0 (addr_of Divide_error) idt;
          idt = SET_IDT_ENTRY 1 (addr_of Debug) idt;
          idt = SET_IDT_ENTRY 2 (addr_of Nmi) idt;
          idt = SET_IDT_ENTRY 3 (addr_of Breakpoint) idt;
          idt = SET_IDT_ENTRY 4 (addr_of Overflow) idt;
          idt = SET_IDT_ENTRY 5 (addr_of Bounds) idt;
          idt = SET_IDT_ENTRY 6 (addr_of Invalid_op) idt;
          idt = SET_IDT_ENTRY 7 (addr_of Device_not_available) idt;
          idt = SET_IDT_ENTRY 8 (addr_of Double_fault) idt;
          idt = SET_IDT_ENTRY 9 (addr_of Segment_overrun) idt;
          idt = SET_IDT_ENTRY 10 (addr_of Invalid_TSS) idt;
          idt = SET_IDT_ENTRY 11 (addr_of Segment_not_present) idt;
          idt = SET_IDT_ENTRY 12 (addr_of Stack_segment) idt;
          idt = SET_IDT_ENTRY 13 (addr_of General_protection) idt;
          idt = SET_IDT_ENTRY 14 (addr_of Page_fault) idt;
          idt = SET_IDT_ENTRY 15 (addr_of Generic_error) idt;
          idt = SET_IDT_ENTRY 16 (addr_of Fp) idt;
          idt = SET_IDT_ENTRY 17 (addr_of Alignment_check) idt;
          idt = SET_IDT_ENTRY 18 (addr_of Machine_check) idt;
          idt = SET_IDT_ENTRY RTC_VECTOR (addr_of Rtc_handler) idt;
          idt = SET_IDT_ENTRY KEYBOARD_VECTOR (addr_of Keyboard_handler) idt;
          idt = SET_IDT_ENTRY PIT_VECTOR (addr_of Pit_handler) idt
      in SET_IDT_ENTRY SYSCALL_VECTOR (addr_of System_call_handler) idt)"

subsection \<open>Exceptions\<close>

text \<open>\<^verbatim>\<open>stop\<close> spins with interrupts off: nothing follows.\<close>

datatype panic = Stopped kernel

definition stop :: "kernel \<Rightarrow> panic" where
  "stop k = Stopped (cli k)"

definition divide_error :: "kernel \<Rightarrow> panic option" where
  "divide_error k = map_option (\<lambda>(_, k). stop k) (printf (literal ''Division by 0'') (\<lambda>_. 0) (blue_screen k))"

definition debug :: "kernel \<Rightarrow> panic option" where
  "debug k = map_option (\<lambda>(_, k). stop k) (printf (literal ''Debug Exception'') (\<lambda>_. 0) (blue_screen k))"

definition nmi :: "kernel \<Rightarrow> panic option" where
  "nmi k = map_option (\<lambda>(_, k). stop k) (printf (literal ''Non-Maskable Interrupt'') (\<lambda>_. 0) (blue_screen k))"

definition breakpoint :: "kernel \<Rightarrow> panic option" where
  "breakpoint k = map_option (\<lambda>(_, k). stop k) (printf (literal ''Breakpoint (INT3)'') (\<lambda>_. 0) (blue_screen k))"

definition overflow :: "kernel \<Rightarrow> panic option" where
  "overflow k = map_option (\<lambda>(_, k). stop k) (printf (literal ''Overflow with EFLAGS[OF] Set'') (\<lambda>_. 0) (blue_screen k))"

definition bounds :: "kernel \<Rightarrow> panic option" where
  "bounds k = map_option (\<lambda>(_, k). stop k) (printf (literal ''Debug Exception'') (\<lambda>_. 0) (blue_screen k))"

definition invalid_op :: "kernel \<Rightarrow> panic option" where
  "invalid_op k = map_option (\<lambda>(_, k). stop k) (printf (literal ''Invalid Opcode'') (\<lambda>_. 0) (blue_screen k))"

definition device_not_available :: "kernel \<Rightarrow> panic option" where
  "device_not_available k = map_option (\<lambda>(_, k). stop k) (printf (literal ''Floating Point Unit Missing'') (\<lambda>_. 0) (blue_screen k))"

definition double_fault :: "kernel \<Rightarrow> panic option" where
  "double_fault k = map_option (\<lambda>(_, k). stop k) (printf (literal ''Double Fault'') (\<lambda>_. 0) (blue_screen k))"

definition segment_overrun :: "kernel \<Rightarrow> panic option" where
  "segment_overrun k = map_option (\<lambda>(_, k). stop k) (printf (literal ''Coprocessor Segment Overrun'') (\<lambda>_. 0) (blue_screen k))"

definition invalid_TSS :: "kernel \<Rightarrow> panic option" where
  "invalid_TSS k = map_option (\<lambda>(_, k). stop k) (printf (literal ''Invalid TSS'') (\<lambda>_. 0) (blue_screen k))"

definition segment_not_present :: "kernel \<Rightarrow> panic option" where
  "segment_not_present k = map_option (\<lambda>(_, k). stop k) (printf (literal ''Segment Not Present'') (\<lambda>_. 0) (blue_screen k))"

definition stack_segment :: "kernel \<Rightarrow> panic option" where
  "stack_segment k = map_option (\<lambda>(_, k). stop k) (printf (literal ''Stack Exception'') (\<lambda>_. 0) (blue_screen k))"

definition general_protection :: "kernel \<Rightarrow> panic option" where
  "general_protection k = map_option (\<lambda>(_, k). stop k) (printf (literal ''General Protection Exception'') (\<lambda>_. 0) (blue_screen k))"

definition page_fault :: "kernel \<Rightarrow> panic option" where
  "page_fault k = map_option (\<lambda>(_, k). stop k) (printf (literal ''Page Fault'') (\<lambda>_. 0) (blue_screen k))"

definition generic_error :: "kernel \<Rightarrow> panic option" where
  "generic_error k = map_option (\<lambda>(_, k). stop k) (printf (literal ''Undefined Exception'') (\<lambda>_. 0) (blue_screen k))"

definition fp :: "kernel \<Rightarrow> panic option" where
  "fp k = map_option (\<lambda>(_, k). stop k) (printf (literal ''Floating Point Error'') (\<lambda>_. 0) (blue_screen k))"

definition alignment_check :: "kernel \<Rightarrow> panic option" where
  "alignment_check k = map_option (\<lambda>(_, k). stop k) (printf (literal ''Alignment Check'') (\<lambda>_. 0) (blue_screen k))"

definition machine_check :: "kernel \<Rightarrow> panic option" where
  "machine_check k = map_option (\<lambda>(_, k). stop k) (printf (literal ''Machine Check Exception'') (\<lambda>_. 0) (blue_screen k))"

text \<open>What runs when the processor reaches the handler of an exception.\<close>

fun exception :: "handler \<Rightarrow> kernel \<Rightarrow> panic option" where
  "exception Divide_error k = divide_error k"
| "exception Debug k = debug k"
| "exception Nmi k = nmi k"
| "exception Breakpoint k = breakpoint k"
| "exception Overflow k = overflow k"
| "exception Bounds k = bounds k"
| "exception Invalid_op k = invalid_op k"
| "exception Device_not_available k = device_not_available k"
| "exception Double_fault k = double_fault k"
| "exception Segment_overrun k = segment_overrun k"
| "exception Invalid_TSS k = invalid_TSS k"
| "exception Segment_not_present k = segment_not_present k"
| "exception Stack_segment k = stack_segment k"
| "exception General_protection k = general_protection k"
| "exception Page_fault k = page_fault k"
| "exception Generic_error k = generic_error k"
| "exception Fp k = fp k"
| "exception Alignment_check k = alignment_check k"
| "exception Machine_check k = machine_check k"
| "exception _ k = None"

section \<open>What the processor makes of the table\<close>

text \<open>
  A gate is two words in memory. The processor takes from them the address, the code segment,
  whether the gate is present, the least privileged level from which \<^verbatim>\<open>int\<close> may use it, and the
  type: 14 is an interrupt gate, which turns interrupts off, and 15 a trap gate.
\<close>

definition gate_words :: "idt_desc_t \<Rightarrow> u32 \<times> u32" where
  "gate_words d =
     (ucast (offset_15_00 d) OR push_bit 16 (ucast (seg_selector d)),
      ucast (reserved4 d) OR push_bit 8 (ucast (reserved3 d)) OR push_bit 9 (ucast (reserved2 d)) OR
      push_bit 10 (ucast (reserved1 d)) OR push_bit 11 (ucast (gate_size d)) OR push_bit 12 (ucast (reserved0 d)) OR
      push_bit 13 (ucast (dpl d)) OR push_bit 15 (ucast (present d)) OR push_bit 16 (ucast (offset_31_16 d)))"

record gate =
  g_offset :: addr
  g_segment :: u16
  g_present :: bool
  g_level :: nat
  g_type :: nat

definition cpu_gate :: "u32 \<times> u32 \<Rightarrow> gate" where
  "cpu_gate = (\<lambda>(low, high).
     \<lparr>g_offset = (low AND 0xFFFF) OR (high AND 0xFFFF0000), g_segment = ucast (drop_bit 16 low), g_present = bit high 15,
      g_level = unat (drop_bit 13 high AND 3), g_type = unat (drop_bit 8 high AND 31)\<rparr>)"

text \<open>The table before \<^verbatim>\<open>init_idt\<close>: 256 times the quad \<^verbatim>\<open>0x00008E0000100000\<close> of \<^verbatim>\<open>x86_desc.S\<close>.\<close>

definition static_idt :: idt where
  "static_idt = (\<lambda>_. \<lparr>offset_15_00 = 0, seg_selector = 0x10, reserved4 = 0, reserved3 = 0, reserved2 = 1, reserved1 = 1,
     gate_size = 1, reserved0 = 0, dpl = 0, present = 1, offset_31_16 = 0\<rparr>)"

lemma static_idt_words: "gate_words (static_idt n) = (0x00100000, 0x00008E00)"
  unfolding static_idt_def by code_simp

text \<open>The handlers by vector, from the manual of the processor and the board.\<close>

definition handler_table :: "(u32 \<times> handler) list" where
  "handler_table =
    [(0, Divide_error), (1, Debug), (2, Nmi), (3, Breakpoint), (4, Overflow), (5, Bounds),
     (6, Invalid_op), (7, Device_not_available), (8, Double_fault), (9, Segment_overrun),
     (10, Invalid_TSS), (11, Segment_not_present), (12, Stack_segment),
     (13, General_protection), (14, Page_fault), (15, Generic_error), (16, Fp),
     (17, Alignment_check), (18, Machine_check),
     (0x28, Rtc_handler), (0x21, Keyboard_handler), (0x20, Pit_handler), (0x80, System_call_handler)]"

definition handler_of :: "u32 \<rightharpoonup> handler" where
  "handler_of = map_of handler_table"

lemma low_half: "(0xFFFF :: u32) = mask 16" "(0xFFFF0000 :: u32) = push_bit 16 (mask 16)"
  by (simp_all add: mask_eq_exp_minus_1 push_bit_eq_mult)

lemma halves:
  fixes h :: addr
  shows "(ucast (ucast (h AND 0xFFFF) :: u16) :: u32) = h AND 0xFFFF"
    "push_bit 16 (ucast (ucast (drop_bit 16 (h AND 0xFFFF0000)) :: u16) :: u32) = h AND 0xFFFF0000"
  unfolding low_half by (rule bit_word_eqI; auto simp: bit_simps)+

text \<open>The gate that two words with a constant part give.\<close>

lemma cpu_gate_offset:
  fixes h low high c :: u32
  assumes "low = (h AND 0xFFFF) OR push_bit 16 c" and "high = take_bit 16 b OR (h AND 0xFFFF0000)"
  shows "(low AND 0xFFFF) OR (high AND 0xFFFF0000) = h"
  unfolding assms low_half by (rule bit_word_eqI) (auto simp: bit_simps)

lemma cpu_gate_flags:
  fixes h high b :: u32
  assumes "high = take_bit 16 b OR (h AND 0xFFFF0000)"
  shows "bit high 15 = bit b 15" "drop_bit 13 high AND 3 = drop_bit 13 b AND 3" "drop_bit 8 high AND 31 = drop_bit 8 b AND 31"
proof -
  have m: "(3 :: u32) = mask 2" "(31 :: u32) = mask 5" by (simp_all add: mask_eq_exp_minus_1)
  show "bit high 15 = bit b 15" unfolding assms low_half by (auto simp: bit_simps)
  show "drop_bit 13 high AND 3 = drop_bit 13 b AND 3"
    unfolding assms low_half m by (rule bit_word_eqI) (auto simp: bit_simps)
  show "drop_bit 8 high AND 31 = drop_bit 8 b AND 31"
    unfolding assms low_half m by (rule bit_word_eqI) (auto simp: bit_simps)
qed

definition gate_flags :: "u32 \<Rightarrow> u32" where
  "gate_flags n = (if n = 0x80 then 0xEF00 else if n < 32 then 0x8F00 else 0x8E00)"

definition filled :: "u32 \<Rightarrow> addr \<Rightarrow> idt_desc_t \<Rightarrow> idt_desc_t" where
  "filled n h d = (init_gate n d)\<lparr>offset_31_16 := ucast (drop_bit 16 (h AND 0xFFFF0000)), offset_15_00 := ucast (h AND 0xFFFF)\<rparr>"

lemma filled_words: "gate_words (filled n h d) = ((h AND 0xFFFF) OR push_bit 16 0x10, take_bit 16 (gate_flags n) OR (h AND 0xFFFF0000))"
proof -
  have o: "offset_15_00 (filled n h d) = ucast (h AND 0xFFFF)" "offset_31_16 (filled n h d) = ucast (drop_bit 16 (h AND 0xFFFF0000))"
    by (simp_all add: filled_def)
  have f: "seg_selector (filled n h d) = 0x10" "reserved4 (filled n h d) = 0" "reserved2 (filled n h d) = 1" "reserved1 (filled n h d) = 1"
    "gate_size (filled n h d) = 1" "reserved0 (filled n h d) = 0" "present (filled n h d) = 1"
    "reserved3 (filled n h d) = (if n = 0x80 \<or> n < 32 then 1 else 0)" "dpl (filled n h d) = (if n = 0x80 then 3 else 0)"
    by (simp_all add: filled_def init_gate_def Let_def KERNEL_CS_def SYSCALL_VECTOR_def)
  show ?thesis
    unfolding gate_words_def o f halves gate_flags_def by (cases "n = 0x80"; cases "n < 32"; simp flip: or.assoc)
qed

lemma cpu_gate_filled:
  "cpu_gate (gate_words (filled n h d)) =
     \<lparr>g_offset = h, g_segment = 0x10, g_present = True, g_level = (if n = 0x80 then 3 else 0),
      g_type = (if n = 0x80 \<or> n < 32 then 15 else 14)\<rparr>"
proof -
  define low high where "low = (h AND 0xFFFF) OR push_bit 16 0x10" and "high = take_bit 16 (gate_flags n) OR (h AND 0xFFFF0000)"
  have words: "gate_words (filled n h d) = (low, high)" by (simp add: filled_words low_def high_def)
  have seg: "(ucast (drop_bit 16 low) :: u16) = 0x10"
  proof -
    have "drop_bit 16 low = 0x10"
      unfolding low_def low_half by (rule bit_word_eqI) (auto simp: bit_simps)
    then show ?thesis by simp
  qed
  show ?thesis
    unfolding words cpu_gate_def prod.case cpu_gate_offset [OF low_def high_def] cpu_gate_flags [OF high_def] seg
    by (simp add: gate_flags_def)
qed

text \<open>The table that \<^verbatim>\<open>init_idt\<close> leaves.\<close>

lemma init_loop:
  "m \<le> 256 \<Longrightarrow> fold (\<lambda>i idt. idt(word_of_nat i := init_gate (word_of_nat i) (idt (word_of_nat i)))) [0..<m] idt =
     (\<lambda>n :: u32. if unat n < m then init_gate n (idt n) else idt n)"
proof (induction m)
  case 0
  then show ?case by simp
next
  case (Suc m)
  have u: "unat (word_of_nat m :: u32) = m" using Suc.prems by (simp add: unat_of_nat32)
  have "unat n < Suc m \<longleftrightarrow> unat n < m \<or> n = word_of_nat m" for n :: u32
    using u by (auto simp: less_Suc_eq word_unat_eq_iff)
  then show ?case using Suc u by (auto simp: fun_eq_iff)
qed

definition fill :: "addr \<Rightarrow> idt_desc_t \<Rightarrow> idt_desc_t" where
  "fill h d = d\<lparr>offset_31_16 := ucast (drop_bit 16 (h AND 0xFFFF0000)), offset_15_00 := ucast (h AND 0xFFFF)\<rparr>"

lemma set_entry: "SET_IDT_ENTRY i h idt n = (if n = i then fill h (idt n) else idt n)"
  by (simp add: SET_IDT_ENTRY_def fill_def Let_def)

lemma set_entries:
  "distinct (map fst t) \<Longrightarrow> fold (\<lambda>(i, h). SET_IDT_ENTRY i (addr_of h)) t idt n =
     (case map_of t n of Some h \<Rightarrow> fill (addr_of h) (idt n) | None \<Rightarrow> idt n)"
proof (induction t arbitrary: idt)
  case Nil
  then show ?case by simp
next
  case (Cons e t)
  obtain i h where e: "e = (i, h)" by (cases e)
  have "map_of t i = None" using Cons.prems by (simp add: e map_of_eq_None_iff)
  then show ?case using Cons by (auto simp: e set_entry split: option.split)
qed

lemma init_idt_entry:
  assumes "n < 256"
  shows "init_idt addr_of idt n =
    (case handler_of n of Some h \<Rightarrow> filled n (addr_of h) (idt n) | None \<Rightarrow> init_gate n (idt n))"
proof -
  define g where "g = (\<lambda>n :: u32. if unat n < 256 then init_gate n (idt n) else idt n)"
  have "unat n < 256" using assms by (simp add: word_less_unat)
  then have gn: "g n = init_gate n (idt n)" by (simp add: g_def)
  have loop: "fold (\<lambda>i idt. idt(word_of_nat i := init_gate (word_of_nat i) (idt (word_of_nat i)))) [0..<unat NUM_VEC] idt = g"
    using init_loop [of 256 idt] by (simp add: NUM_VEC_def g_def)
  have "init_idt addr_of idt = fold (\<lambda>(i, h). SET_IDT_ENTRY i (addr_of h)) handler_table g"
    unfolding init_idt_def loop Let_def handler_table_def
    by (simp add: RTC_VECTOR_def KEYBOARD_VECTOR_def PIT_VECTOR_def SYSCALL_VECTOR_def)
  moreover have "distinct (map fst handler_table)" by (simp add: handler_table_def)
  ultimately show ?thesis
    using set_entries [of handler_table addr_of g n]
    by (simp add: handler_of_def gn fill_def filled_def split: option.split)
qed

section \<open>What an exception shows\<close>

lemma format_plain: "format_chars (map Plain xs) = xs" "format_text (map Plain xs) args strs esp = xs"
  "strings_shown step (map Plain xs) args strs esp k" "list_all plain_ok (map Plain xs) = list_all (\<lambda>c. c \<noteq> 0 \<and> c \<noteq> 37) xs"
  by (induction xs) (simp_all add: format_chars_def)

lemma panic_prints:
  assumes "screen_ok k" and "length msg < 4294967296" and "list_all (\<lambda>c. c \<noteq> 0 \<and> c \<noteq> 37) (ascii msg)"
  shows "\<exists>k'. map_option (\<lambda>(_, k). stop k) (printf (literal msg) (\<lambda>_. 0) (blue_screen k)) = Some (Stopped k') \<and>
    \<not> iflag k' \<and> fore_console k' = fold con_putc (ascii msg) (fore_console k)"
proof -
  let ?ps = "map Plain (ascii msg)"
  have "screen_ok (blue_screen k)"
    using assms(1) blue_screen_result(2) [of k] by (simp add: screen_ok_def fore_console_def word_less_unat)
  moreover have "shown screen_step (literal msg) (blue_screen k) (format_chars ?ps)"
    unfolding format_plain using assms(2,3) by (intro shown_literal) (auto simp: list_all_iff)
  ultimately obtain k' where k': "printf_loop putc (literal msg) (\<lambda>_. 0) 0 0 (blue_screen k) =
      Some (word_of_nat (length (format_chars ?ps)), k')"
    "fore_console k' = fold con_putc (format_text ?ps (\<lambda>_. 0) (\<lambda>_. []) 0) (fore_console (blue_screen k))"
    using fg.printf [of "blue_screen k" "literal msg" ?ps "\<lambda>_. 0" "\<lambda>_. []"] assms(3) by (auto simp: format_plain)
  have "fore_console (cli k') = fore_console k'" "\<not> iflag (cli k')" by (simp_all add: cli_def fore_console_def)
  then show ?thesis using k' by (simp add: printf_def stop_def format_plain blue_screen_result(2))
qed

text \<open>The messages as they are in the code: the bounds exception has that of the debug exception.\<close>

definition exception_messages :: "(handler \<times> string) list" where
  "exception_messages =
    [(Divide_error, ''Division by 0''),
     (Debug, ''Debug Exception''),
     (Nmi, ''Non-Maskable Interrupt''),
     (Breakpoint, ''Breakpoint (INT3)''),
     (Overflow, ''Overflow with EFLAGS[OF] Set''),
     (Bounds, ''Debug Exception''),
     (Invalid_op, ''Invalid Opcode''),
     (Device_not_available, ''Floating Point Unit Missing''),
     (Double_fault, ''Double Fault''),
     (Segment_overrun, ''Coprocessor Segment Overrun''),
     (Invalid_TSS, ''Invalid TSS''),
     (Segment_not_present, ''Segment Not Present''),
     (Stack_segment, ''Stack Exception''),
     (General_protection, ''General Protection Exception''),
     (Page_fault, ''Page Fault''),
     (Generic_error, ''Undefined Exception''),
     (Fp, ''Floating Point Error''),
     (Alignment_check, ''Alignment Check''),
     (Machine_check, ''Machine Check Exception'')]"

lemmas exception_handler_defs =
  divide_error_def debug_def nmi_def breakpoint_def overflow_def bounds_def invalid_op_def device_not_available_def double_fault_def
    segment_overrun_def invalid_TSS_def segment_not_present_def stack_segment_def general_protection_def page_fault_def
    generic_error_def fp_def alignment_check_def machine_check_def

lemma exception_calls:
  "(h, msg) \<in> set exception_messages \<Longrightarrow>
     exception h k = map_option (\<lambda>(_, k). stop k) (printf (literal msg) (\<lambda>_. 0) (blue_screen k))"
  unfolding exception_messages_def set_simps
  by (elim insertE emptyE Pair_inject; hypsubst; simp only: exception.simps exception_handler_defs)

lemma messages_plain:
  "list_all (\<lambda>(h, msg). length msg < 4294967296 \<and> list_all (\<lambda>c. c \<noteq> 0 \<and> c \<noteq> 37) (ascii msg)) exception_messages"
  unfolding exception_messages_def by (simp add: ascii_def)

section \<open>Properties\<close>

text \<open>
  C31. After \<^verbatim>\<open>init_idt\<close> the processor finds for each of the 256 vectors a present gate to kernel
  code: for the 19 exceptions, the timer, the keyboard, the clock and the system call the gate
  leads to the function for it, wherever the linker has put it; for the others to address 0.
  Exceptions and the system call leave interrupts on, devices turn them off, and only the system
  call can be used by user code.
\<close>

theorem idt_gates:
  assumes "n < 256"
  shows "cpu_gate (gate_words (init_idt addr_of static_idt n)) =
     \<lparr>g_offset = (case handler_of n of Some h \<Rightarrow> addr_of h | None \<Rightarrow> 0), g_segment = 0x10, g_present = True,
      g_level = (if n = 0x80 then 3 else 0), g_type = (if n = 0x80 \<or> n < 32 then 15 else 14)\<rparr>"
proof -
  have "init_gate m (static_idt m) = filled m 0 (static_idt m)" for m
    by (simp add: filled_def init_gate_def static_idt_def Let_def)
  then show ?thesis
    by (simp add: init_idt_entry [OF assms] cpu_gate_filled split: option.split)
qed

lemma idt_gates_witness:
  "g_offset (cpu_gate (gate_words (init_idt (\<lambda>h. if h = Page_fault then 0x400123 else 0x400000) static_idt 14))) = 0x400123"
  using idt_gates [of 14 "\<lambda>h. if h = Page_fault then 0x400123 else 0x400000"] by (simp add: handler_of_def handler_table_def)

text \<open>
  C36. A processor exception is fatal: its handler puts its message at the cursor, turns
  interrupts off and never returns.
\<close>

theorem exceptions_stop:
  assumes "screen_ok k" and "(h, msg) \<in> set exception_messages"
  shows "\<exists>k'. exception h k = Some (Stopped k') \<and> \<not> iflag k' \<and>
    fore_console k' = fold con_putc (ascii msg) (fore_console k)"
proof -
  have "length msg < 4294967296" "list_all (\<lambda>c. c \<noteq> 0 \<and> c \<noteq> 37) (ascii msg)"
    using messages_plain assms(2) unfolding list_all_iff by blast+
  then show ?thesis using panic_prints [OF assms(1)] by (simp only: exception_calls [OF assms(2)])
qed

lemma exceptions_stop_witness:
  "\<exists>k'. page_fault some_kernel = Some (Stopped k') \<and> \<not> iflag k' \<and>
    fore_console k' = fold con_putc (ascii ''Page Fault'') (fore_console some_kernel)"
  using exceptions_stop [OF some_kernel_screen, of Page_fault "''Page Fault''"] by (simp add: exception_messages_def)

end
