(* ===== verification/Kept.thy ===== *)
theory Kept
  imports Interrupts
begin

text \<open>
  What the system calls and interrupt handlers leave: a call that returns to the program that made
  it, whatever its arguments, and a key or clock interrupt that returns, keep the bookkeeping of
  the scheduler (\<open>books_kept\<close>) and the terminals. The lemmas are about any result, so they hold
  for calls that may also not return.
\<close>

unbundle bit_operations_syntax

section \<open>The relation\<close>

definition keeps :: "kernel \<Rightarrow> kernel \<Rightarrow> bool" where
  "keeps k k' \<longleftrightarrow> (terminals_ok k \<and> cur_active_terminal k < 3 \<longrightarrow>
     books_kept k k' \<and> terminals_ok k' \<and> cur_term k' = cur_term k)"

text \<open>The same, but another terminal may be shown.\<close>

definition keeps_books :: "kernel \<Rightarrow> kernel \<Rightarrow> bool" where
  "keeps_books k k' \<longleftrightarrow> (terminals_ok k \<and> cur_active_terminal k < 3 \<longrightarrow> books_kept k k' \<and> terminals_ok k')"

lemma books_kept_refl: "books_kept k k"
  by (simp add: books_kept_def)

lemma books_kept_trans: "books_kept k k1 \<Longrightarrow> books_kept k1 k2 \<Longrightarrow> books_kept k k2"
  by (simp add: books_kept_def)

lemma keeps_refl: "keeps k k"
  by (simp add: keeps_def books_kept_refl)

lemma keeps_trans: "keeps k k1 \<Longrightarrow> keeps k1 k2 \<Longrightarrow> keeps k k2"
  unfolding keeps_def using books_kept_trans by (auto simp: books_kept_def)

lemma keeps_weaken: "keeps k k' \<Longrightarrow> keeps_books k k'"
  by (simp add: keeps_def keeps_books_def)

lemma keeps_books_trans: "keeps_books k k1 \<Longrightarrow> keeps_books k1 k2 \<Longrightarrow> keeps_books k k2"
  unfolding keeps_books_def using books_kept_trans by (auto simp: books_kept_def)

text \<open>Variables that the bookkeeping is not about.\<close>

lemma keeps_variables:
  "keeps k (k\<lparr>io_log := log\<rparr>)" "keeps k (k\<lparr>iflag := b\<rparr>)" "keeps k (k\<lparr>mem := m\<rparr>)" "keeps k (k\<lparr>device := d\<rparr>)"
  "keeps k (k\<lparr>r_esp := esp\<rparr>)" "keeps k (k\<lparr>r_ebp := esp\<rparr>)" "keeps k (k\<lparr>directoryLoc := v\<rparr>)"
  "keeps k (k\<lparr>rtc_interrupt_occurred := f\<rparr>)" "keeps k (k\<lparr>key_buffer_idx := c\<rparr>)" "keeps k (k\<lparr>next_sched_terminal := c\<rparr>)"
  "keeps k (k\<lparr>ctrl_stat := c\<rparr>)" "keeps k (k\<lparr>shift_stat := c\<rparr>)" "keeps k (k\<lparr>alt_stat := c\<rparr>)" "keeps k (k\<lparr>caps_stat := c\<rparr>)"
  by (simp_all add: keeps_def books_kept_def terminals_ok_def screen_ok_def tables_linked_def paging_on_def)

lemma keeps_terminal:
  "keeps k (upd_terminal t (eflag_update f) k)" "keeps k (upd_terminal t (t_key_buffer_update g) k)"
  by (simp_all add: keeps_def books_kept_def terminals_ok_def screen_ok_def tables_linked_def paging_on_def upd_terminal_def)

lemma keeps_fd: "keeps k (upd_pcb p (upd_fd i f) k)"
  by (simp add: keeps_def books_kept_def terminals_ok_def screen_ok_def tables_linked_def paging_on_def upd_pcb_def upd_fd_def)

lemma keeps_set_vmem: "keeps k (set_vmem m k)"
  unfolding set_vmem_def by (rule keeps_variables)

lemma keeps_table_remap: "keeps k (table_remap VIDMAP_ADDR p k)"
  using vidmem_page_directory(2) [of VIDMAP_ADDR p k]
  by (simp add: keeps_def books_kept_def terminals_ok_def screen_ok_def VIDMAP_ADDR_def CONVERT_4MB_def)

lemma keeps_port: "port_step k k' \<Longrightarrow> keeps k k'"
  using keeps_variables(1) by (auto simp: port_step_def)

lemma keeps_eoi: "keeps k (send_eoi n k)"
  by (rule keeps_port) (auto simp: port_step_def send_eoi_def outb_def Let_def intro: exI [of _ "io_log k"])

lemma keeps_cli: "keeps k (cli k)" "keeps k (sti k)"
  unfolding cli_def sti_def by (rule keeps_variables)+

section \<open>Printing\<close>

lemma screen_step_keeps:
  assumes "screen_step k k'" and "screen_ok k'"
  shows "keeps k k'"
proof -
  obtain m log x y where "k' = k\<lparr>mem := m, io_log := log, screen_x := x, screen_y := y\<rparr>"
    using assms(1) unfolding screen_step_def by blast
  then show ?thesis using assms(2) by (simp add: keeps_def books_kept_def terminals_ok_def tables_linked_def paging_on_def)
qed

lemma keepsI: "(terminals_ok k \<Longrightarrow> cur_active_terminal k < 3 \<Longrightarrow> keeps k k') \<Longrightarrow> keeps k k'"
  unfolding keeps_def by blast

lemma putc_keeps:
  assumes "putc c k = Some k'"
  shows "keeps k k'"
proof (rule keepsI)
  assume "terminals_ok k"
  then have ok: "screen_ok k" by (simp add: terminals_ok_def)
  obtain k1 where k1: "putc c k = Some k1" "fore_console k1 = con_putc c (fore_console k)" "screen_step k k1"
    using putc_refines [OF ok] by blast
  have "screen_ok k1" using k1(2) ok con_ok_putc fore_console_ok by metis
  then show "keeps k k'" using screen_step_keeps [OF k1(3)] k1(1) assms by simp
qed

lemma back_step_keeps:
  assumes "back_step k k'" and "pos_x (act k') < 80" "pos_y (act k') < 25"
  shows "keeps k k'"
proof -
  obtain m x y where "k' = upd_act (\<lambda>t. t\<lparr>pos_x := x, pos_y := y\<rparr>) (k\<lparr>mem := m\<rparr>)"
    using assms(1) unfolding back_step_def by blast
  then show ?thesis
    using assms(2,3) by (auto simp: keeps_def books_kept_def terminals_ok_def screen_ok_def tables_linked_def paging_on_def
        upd_act_def upd_terminal_def act_def)
qed

lemma putc_terminal_active_keeps:
  assumes "putc_terminal_active c k = Some k'"
  shows "keeps k k'"
proof (rule keepsI)
  assume t: "terminals_ok k" "cur_active_terminal k < 3"
  have "back_ok k" using t pages_disjoint(1) [OF t(2)] by (simp add: back_ok_def act_def terminals_ok_def)
  then obtain k1 where k1: "putc_terminal_active c k = Some k1" "back_console k1 = con_putc c (back_console k)" "back_step k k1"
    using putc_terminal_active_refines by blast
  have "con_ok (back_console k1)" using k1(2) con_ok_putc [of "back_console k" c] \<open>back_ok k\<close> by (simp add: back_console_ok back_ok_def)
  then show "keeps k k'" using back_step_keeps [OF k1(3)] k1(1) assms by (simp add: back_console_ok)
qed

text \<open>
  What every printed character keeps is kept by everything that prints. This is the part of
  \<open>console_output\<close> for output that nobody has checked: any format and any strings.
\<close>

locale kept_output =
  fixes put :: put
    and R :: "kernel \<Rightarrow> kernel \<Rightarrow> bool"
  assumes put_kept: "put c k = Some k' \<Longrightarrow> R k k'"
    and kept_refl: "R k k"
    and kept_trans: "R k k1 \<Longrightarrow> R k1 k2 \<Longrightarrow> R k k2"
begin

lemma puts_kept:
  assumes "puts_loop put s i k = Some r"
  shows "R k (snd r)"
proof -
  have "put = put \<longrightarrow> R k (snd r)"
  proof (rule puts_loop.raw_induct [where P = "\<lambda>p s i k r. p = put \<longrightarrow> R k (snd r)", OF _ assms])
    fix loop p s i k r
    assume *: "\<And>s i k p r. loop s i k p = Some r \<Longrightarrow> s = put \<longrightarrow> R p (snd r)"
      "(if s k i \<noteq> 0 then p (s k i) k \<bind> loop p s (i + 1) else Some (i, k)) = Some r"
    show "p = put \<longrightarrow> R k (snd r)"
    proof
      assume p: "p = put"
      show "R k (snd r)" using *(2) *(1) unfolding p
        by (cases r) (auto split: if_splits bind_splits intro: kept_refl kept_trans put_kept)
    qed
  qed
  then show ?thesis by blast
qed

lemma switch_kept:
  assumes "format_char_switch put format args alternate buf esp k = Some r"
  shows "R k (snd (snd r))"
proof -
  have "put = put \<longrightarrow> R k (snd (snd r))"
    by (rule format_char_switch.raw_induct [where P = "\<lambda>p format args alternate buf esp k r. p = put \<longrightarrow> R k (snd (snd r))", OF _ assms])
      (auto simp: Let_def map_option_case split: if_splits bind_splits option.splits intro: kept_refl put_kept dest: puts_kept)
  then show ?thesis by blast
qed

lemma printf_kept:
  assumes "printf_loop put format args buf esp k = Some r"
  shows "R k (snd r)"
proof -
  have "put = put \<longrightarrow> R k (snd r)"
    by (rule printf_loop.raw_induct [where P = "\<lambda>p format args buf esp k r. p = put \<longrightarrow> R k (snd r)", OF _ assms])
      (auto simp: Let_def split: if_splits bind_splits intro: kept_refl kept_trans put_kept dest: switch_kept)
  then show ?thesis by blast
qed

end

interpretation fore_kept: kept_output putc keeps
  by unfold_locales (auto intro: putc_keeps keeps_refl keeps_trans)

interpretation back_kept: kept_output putc_terminal_active keeps
  by unfold_locales (auto intro: putc_terminal_active_keeps keeps_refl keeps_trans)

lemma printf_keeps:
  "printf format args k = Some (n, k') \<Longrightarrow> keeps k k'"
  "printf_terminal_active format args k = Some (n, k') \<Longrightarrow> keeps k k'"
  using fore_kept.printf_kept [of format args 0 0 k "(n, k')"] back_kept.printf_kept [of format args 0 0 k "(n, k')"]
  by (simp_all add: printf_def printf_terminal_active_def)

section \<open>The calls on descriptors\<close>

lemma key_buf_set_keeps: "key_buf_set i c k = Some k' \<Longrightarrow> keeps k k'"
  by (auto simp: key_buf_set_def intro: keeps_terminal split: bind_splits)

lemma clear_buf_keeps:
  assumes "clear_buf k = Some k'"
  shows "keeps k k'"
proof -
  have fold: "fold (\<lambda>i ok. Option.bind ok (key_buf_set (word_of_nat i) 0)) js (Some k) = Some k1 \<Longrightarrow> keeps k k1" for js :: "nat list" and k1
    by (induction js arbitrary: k1 rule: rev_induct)
      (auto intro: keeps_refl keeps_trans key_buf_set_keeps split: bind_splits)
  obtain k1 where "fold (\<lambda>i ok. Option.bind ok (key_buf_set (word_of_nat i) 0)) [0..<unat KEY_BUFFER_SIZE] (Some k) = Some k1"
    "k' = k1\<lparr>key_buffer_idx := 0\<rparr>"
    using assms by (auto simp: clear_buf_def split: bind_splits)
  then show ?thesis using fold keeps_trans keeps_variables(9) by blast
qed

lemma terminal_read_loop_keeps: "terminal_read_loop buf n i k = Some (j, k') \<Longrightarrow> keeps k k'"
proof (induction buf n i k rule: terminal_read_loop.induct)
  case (1 buf n i k)
  have store: "keeps k (store_user a c k)" for a c unfolding store_user_def by (rule keeps_set_vmem)
  from 1(2) show ?case
    by (subst (asm) terminal_read_loop.simps)
      (auto intro: keeps_refl keeps_trans [OF store] 1(1) split: if_splits bind_splits)
qed

lemma terminal_read_keeps: "terminal_read buf n k = Some (r, k') \<Longrightarrow> keeps k k'"
  by (auto simp: terminal_read_def Let_def split: if_splits bind_splits
      intro: keeps_trans keeps_terminal dest!: terminal_read_loop_keeps clear_buf_keeps) (meson keeps_trans keeps_terminal)+

lemma terminal_write_keeps: "terminal_write stack buf n k = Some (r, k') \<Longrightarrow> keeps k k'"
  by (auto simp: terminal_write_def Let_def split: if_splits bind_splits dest!: printf_keeps)
    (meson keeps_trans keeps_cli)+

lemma file_read_keeps: "file_read fd buf n k = Some (r, k') \<Longrightarrow> keeps k k'"
  by (auto simp: file_read_def Let_def split: bind_splits prod.splits intro: keeps_trans keeps_set_vmem keeps_fd)

lemma directory_read_keeps: "directory_read fd buf n k = Some (r, k') \<Longrightarrow> keeps k k'"
  by (auto simp: directory_read_def Let_def split: if_splits bind_splits prod.splits
      intro: keeps_variables keeps_trans [OF keeps_set_vmem keeps_trans [OF keeps_set_vmem keeps_variables(7)]])

lemma rtc_read_keeps: "rtc_read k = Some (r, k') \<Longrightarrow> keeps k k'"
  by (auto simp: rtc_read_def intro: keeps_variables split: if_splits)

lemma rtc_set_freq_keeps: "keeps k (rtc_set_freq u f k)"
  by (rule keeps_port) (auto simp: port_step_def rtc_set_freq_def outb_def inb_def Let_def)

lemma sys_read_keeps: "sys_read fd buf n k = Some (r, k') \<Longrightarrow> keeps k k'"
  by (cases "fread (fops_ptr (fds (pcbs k (get_pcb_ptr k)) ! unat fd))")
    (auto simp: sys_read_def Let_def has_error_def split: if_splits
      intro: keeps_refl terminal_read_keeps rtc_read_keeps directory_read_keeps file_read_keeps)

lemma sys_write_keeps: "sys_write stack u fd buf n k = Some (r, k') \<Longrightarrow> keeps k k'"
  by (cases "fwrite (fops_ptr (fds (pcbs k (get_pcb_ptr_process (scast (apn (terminal k (cur_active_terminal k)))))) ! unat fd))")
    (auto simp: sys_write_def Let_def has_error_def file_write_def directory_write_def rtc_write_def split: if_splits
      intro: keeps_refl terminal_write_keeps rtc_set_freq_keeps)

lemma call_close_keeps: "call_close u f k = Some (r, k') \<Longrightarrow> keeps k k'"
  by (cases f) (auto simp: has_error_def file_close_def directory_close_def rtc_close_def terminal_close_def
      intro: keeps_refl rtc_set_freq_keeps)

lemma sys_close_keeps: "sys_close u fd k = Some (r, k') \<Longrightarrow> keeps k k'"
  by (auto simp: sys_close_def Let_def split: if_splits bind_splits
      intro: keeps_refl keeps_trans keeps_fd dest!: call_close_keeps)

lemma install_keeps:
  assumes "keeps k (snd opened)" and "install pcb i n ops opened = (r, k')"
  shows "keeps k k'"
  using assms by (cases opened) (auto simp: install_def split: if_splits intro: keeps_trans keeps_fd)

lemma sys_open_keeps:
  assumes "sys_open u filename k = Some (r, k')"
  shows "keeps k k'"
proof -
  have opened: "keeps k (snd (rtc_open u k))" "keeps k (snd (directory_open k))" "keeps k (snd (file_open k))" for k
    by (simp_all add: rtc_open_def directory_open_def file_open_def keeps_refl rtc_set_freq_keeps)
  obtain r0 d where d: "read_dentry_by_name (FILESYSLOC k) (vmem k) (replicate 33 0) (vptr filename k) local_dentry = Some (r0, d)"
    using assms by (auto simp: sys_open_def split: bind_splits)
  show ?thesis
  proof (cases "r0 = - 1 \<or> find_slot (fds (pcbs k (get_pcb_ptr k))) 2 = None")
    case True
    then show ?thesis using assms d by (auto simp: sys_open_def keeps_refl Let_def split: if_splits)
  next
    case False
    then obtain i where i: "r0 \<noteq> - 1" "find_slot (fds (pcbs k (get_pcb_ptr k))) 2 = Some i" by blast
    define k1 where "k1 = upd_pcb (get_pcb_ptr k) (upd_fd i (\<lambda>f. f\<lparr>flags := FD_AVAIL, file_position := OFFSET_START\<rparr>)) k"
    have "keeps k1 k'"
      using assms d i install_keeps [OF opened(1) [of k1]] install_keeps [OF opened(2) [of k1]] install_keeps [OF opened(3) [of k1]]
      by (auto simp: sys_open_def Let_def k1_def [symmetric] keeps_refl split: if_splits)
    then show ?thesis using keeps_trans keeps_fd unfolding k1_def by blast
  qed
qed

lemma getargs_keeps: "getargs buf n k = Some (r, k') \<Longrightarrow> keeps k k'"
  by (auto simp: getargs_def Let_def split: if_splits bind_splits intro: keeps_refl keeps_set_vmem)

lemma vidmap_keeps: "vidmap p k = (r, k') \<Longrightarrow> keeps k k'"
  by (auto simp: vidmap_def store_user32_def split: if_splits intro: keeps_refl keeps_trans keeps_table_remap keeps_set_vmem)

section \<open>The calls on programs\<close>

text \<open>\<^verbatim>\<open>halt\<close> does not return to its caller; \<^verbatim>\<open>execute\<close> does so only when it could not start a program.\<close>

lemma halt_no_return: "halt l u status k \<noteq> Some (Returns r k')"
  by (auto simp: halt_def halt_with_def return_to_parent_def Let_def split: bind_splits if_splits outcome.splits)

lemma start_no_return: "start_process ino e n arg k \<noteq> Some (Returns r k')"
  by (auto simp: start_process_def Let_def split: bind_splits)

lemma get_proc_num_loop_cases:
  "i \<le> 6 \<Longrightarrow> get_proc_num_loop i k = Some (n, k') \<Longrightarrow>
   n = - 1 \<and> keeps k k' \<or>
   (\<exists>j<6. n = word_of_nat j \<and> j < length (pid_array k) \<and> pid_array k ! j = 0 \<and> k' = k\<lparr>pid_array := (pid_array k)[j := 1]\<rparr>)"
proof (induction i k rule: get_proc_num_loop.induct)
  case (1 i k)
  show ?case
  proof (cases "i < 6")
    case False
    then show ?thesis
      using 1(3) by (subst (asm) get_proc_num_loop.simps) (auto simp: NUM_MAX_PROCESSES_def split: bind_splits dest!: printf_keeps)
  next
    case True
    obtain p where p: "arr_get (pid_array k) i = Some p"
      using 1(3) True by (subst (asm) get_proc_num_loop.simps) (auto simp: NUM_MAX_PROCESSES_def split: bind_splits)
    show ?thesis
    proof (cases "p = 0")
      case True
      then have "n = word_of_nat i \<and> i < length (pid_array k) \<and> pid_array k ! i = 0 \<and> k' = k\<lparr>pid_array := (pid_array k)[i := 1]\<rparr>"
        using 1(3) \<open>i < 6\<close> p by (subst (asm) get_proc_num_loop.simps)
          (auto simp: NUM_MAX_PROCESSES_def arr_get_def arr_set_def split: bind_splits if_splits)
      then show ?thesis using \<open>i < 6\<close> by blast
    next
      case False
      then have "get_proc_num_loop (i + 1) k = Some (n, k')"
        using 1(3) \<open>i < 6\<close> p by (subst (asm) get_proc_num_loop.simps) (auto simp: NUM_MAX_PROCESSES_def)
      then show ?thesis using 1(1) [of p] False \<open>i < 6\<close> p by (auto simp: NUM_MAX_PROCESSES_def)
    qed
  qed
qed

lemma read_file_keeps: "keeps k (read_file ino off buf n k)"
  unfolding read_file_def by (rule keeps_set_vmem)

text \<open>The way of \<^verbatim>\<open>execute\<close> to the start of a program, with a free process number.\<close>

definition starts :: "kernel \<Rightarrow> outcome \<Rightarrow> bool" where
  "starts k out \<longleftrightarrow> (\<exists>k1 ino e j arg. keeps k k1 \<and> j < 6 \<and> pid_array k1 ! j = 0 \<and>
     start_process ino e (word_of_nat j) arg (k1\<lparr>pid_array := (pid_array k1)[j := 1]\<rparr>) = Some out)"

lemma starts_after: "keeps k k1 \<Longrightarrow> starts k1 out \<Longrightarrow> starts k out"
  unfolding starts_def using keeps_trans by blast

lemma run_program_cases:
  assumes "run_program l name arg k = Some out"
  shows "(\<exists>r k'. out = Returns r k' \<and> keeps k k') \<or> starts k out"
proof -
  obtain r d where d: "read_dentry_by_name (FILESYSLOC k) (vmem k) (replicate 33 0) (arr name) local_dentry = Some (r, d)"
    using assms by (auto simp: run_program_def split: bind_splits)
  define k1 where "k1 = read_file (inodeNumber d) 0 (l_buffer l) READ_BUFFER_SIZE k"
  define k2 where "k2 = read_file (inodeNumber d) LOCATION_FOR_ENTRY (l_buffer l) READ_BUFFER_SIZE k1"
  have k2: "keeps k k1" "keeps k k2" unfolding k2_def k1_def by (auto intro: keeps_trans read_file_keeps)
  show ?thesis
  proof (cases "\<exists>r k'. out = Returns r k' \<and> (k' = k \<or> k' = k1)")
    case True
    then show ?thesis using k2(1) keeps_refl by blast
  next
    case False
    then have "Option.bind (get_proc_num k2) (\<lambda>(n, k). if n = - 1 then Some (Returns (- 1) k)
        else start_process (inodeNumber d) (load32 (vmem k2) (l_buffer l)) n arg k) = Some out"
      using assms d by (auto simp: run_program_def Let_def k1_def [symmetric] k2_def [symmetric] split: if_splits)
    then obtain n k3 where n: "get_proc_num_loop 0 k2 = Some (n, k3)"
      "if n = - 1 then out = Returns (- 1) k3
       else start_process (inodeNumber d) (load32 (vmem k2) (l_buffer l)) n arg k3 = Some out"
      by (auto simp: get_proc_num_def split: bind_splits if_splits)
    have small: "word_of_nat j \<noteq> (- 1 :: u32)" if "j < 6" for j
    proof
      assume "word_of_nat j = (- 1 :: u32)"
      then have "unat (word_of_nat j :: u32) = unat (- 1 :: u32)" by simp
      then show False using that by (simp add: unsigned_minus_1_eq_mask mask_eq_exp_minus_1)
    qed
    show ?thesis
    proof (cases "n = - 1")
      case True
      then have "\<not> (\<exists>j<6. n = word_of_nat j)" using small by metis
      then have "keeps k2 k3" using get_proc_num_loop_cases [OF _ n(1)] by auto
      then show ?thesis using n(2) True keeps_trans [OF k2(2)] by auto
    next
      case False
      then obtain j where "j < 6" "n = word_of_nat j" "j < length (pid_array k2)" "pid_array k2 ! j = 0"
        "k3 = k2\<lparr>pid_array := (pid_array k2)[j := 1]\<rparr>"
        using get_proc_num_loop_cases [OF _ n(1)] by auto
      then show ?thesis using n(2) False k2(2) unfolding starts_def by auto
    qed
  qed
qed

lemma execute_with_cases:
  assumes "execute_with h l command k = Some out" and "\<And>k r k'. h k \<noteq> Some (Returns r k')"
  shows "(\<exists>r k'. out = Returns r k' \<and> keeps k k') \<or> h (cli k) = Some out \<or> starts k out"
proof -
  obtain ps as where "parse_command (command (cli k)) (l_parsed_cmd l) (l_arg l) = Some (ps, as)"
    using assms(1) by (auto simp: execute_with_def Let_def split: bind_splits)
  then have "h (cli k) = Some out \<or> (\<exists>k1. keeps (cli k) k1 \<and> run_program l ps as k1 = Some out)"
    using assms(1) printf_keeps(1) keeps_refl
    by (fastforce simp: execute_with_def Let_def split: bind_splits if_splits)
  then show ?thesis
    using run_program_cases keeps_trans [OF keeps_cli(1)] keeps_trans starts_after by meson
qed

section \<open>The interrupt handlers\<close>

lemma screen_keeps:
  "set_screen_pos x y k = Some k' \<Longrightarrow> keeps k k'" "backspace k = Some k' \<Longrightarrow> keeps k k'" "enter k = Some k' \<Longrightarrow> keeps k k'"
proof -
  have ok: "screen_ok k" if "terminals_ok k" using that by (simp add: terminals_ok_def)
  show "keeps k k'" if "set_screen_pos x y k = Some k'"
  proof (rule keepsI)
    assume "terminals_ok k"
    then show "keeps k k'" using set_screen_pos_total [OF ok, of x y] screen_step_keeps that by (metis option.inject)
  qed
  show "keeps k k'" if "backspace k = Some k'"
  proof (rule keepsI)
    assume "terminals_ok k"
    then show "keeps k k'" using backspace_refines [OF ok] screen_step_keeps that by (metis option.inject)
  qed
  show "keeps k k'" if "enter k = Some k'"
  proof (rule keepsI)
    assume t: "terminals_ok k"
    obtain k1 where "enter k = Some k1" "fore_console k1 = con_newline (fore_console k)" "screen_step k k1"
      using enter_refines [OF ok [OF t]] by blast
    moreover from this have "screen_ok k1" using con_ok_newline fore_console_ok ok [OF t] by metis
    ultimately show "keeps k k'" using screen_step_keeps that by simp
  qed
qed

lemma clear_keeps: "keeps k (clear k)"
  unfolding clear_def by (rule keeps_variables)

lemma add_key_buff_keeps: "add_key_buff c k = Some k' \<Longrightarrow> keeps k k'"
  by (auto simp: add_key_buff_def intro: keeps_refl keeps_trans [OF key_buf_set_keeps keeps_variables(9)] split: if_splits bind_splits)

lemma handle_key_press_keeps:
  assumes "handle_key_press key k = Some k'"
  shows "keeps k k'"
proof -
  have "keeps k k'" if "key_buf_set i c (k1\<lparr>key_buffer_idx := n\<rparr>) = Some k'" "keeps k k1" for i c n k1
    using that keeps_trans keeps_variables(9) key_buf_set_keeps by blast
  moreover have "keeps k k'"
    if "key_buf_set i c (upd_terminal t (eflag_update f) k) = Some k1" "enter (k1\<lparr>key_buffer_idx := n\<rparr>) = Some k'" for i c t f k1 n
    using that keeps_trans keeps_variables(9) key_buf_set_keeps keeps_terminal(1) screen_keeps(3) by meson
  moreover have "keeps k k'" if "add_key_buff c k = Some k1" "putc c k1 = Some k'" for c k1
    using that keeps_trans add_key_buff_keeps putc_keeps by blast
  moreover have "keeps k k'" if "set_screen_pos 0 0 (clear k) = Some k'"
    using that keeps_trans clear_keeps screen_keeps(1) by blast
  ultimately show ?thesis
    using assms by (auto simp: handle_key_press_def Let_def keeps_refl split: if_splits bind_splits dest: screen_keeps(2))
qed

lemma finish_key_keeps:
  assumes "finish_key c k = Some out"
  shows "\<exists>k'. out = Returns 0 k' \<and> keeps k k'"
proof -
  obtain k1 where k1: "(if c \<noteq> 0 then handle_key_press (ucast c) k else Some k) = Some k1" "out = Returns 0 (sti (send_eoi 1 k1))"
    using assms by (auto simp: finish_key_def split: bind_splits)
  have "keeps k k1" using k1(1) handle_key_press_keeps keeps_refl by (cases "c = 0") auto
  then show ?thesis using k1(2) using keeps_trans [OF keeps_trans [OF _ keeps_eoi] keeps_cli(2)] by blast
qed

text \<open>A key interrupt: only the first use of a terminal does not end like a function.\<close>

definition first_use :: "exec_locals \<Rightarrow> kernel \<Rightarrow> outcome \<Rightarrow> bool" where
  "first_use l k out \<longleftrightarrow> (\<exists>t k0 k1. keeps k k0 \<and> r_esp k0 = r_esp k \<and> t < 3 \<and> t \<noteq> cur_term k0 \<and> active (terminal k0 t) \<noteq> 1 \<and>
     switch_to_new t k0 = Some k1 \<and> Option.bind (execute_shell l k1) (\<lambda>out. case out of
       Returns r k \<Rightarrow> finish_key 0 k | To_user entry esp k \<Rightarrow> Some out | Resumes r k \<Rightarrow> Some out) = Some out)"

lemma switch_terminal_cases:
  assumes "Option.bind (switch_terminal l t k) (\<lambda>out. case out of
       Returns r k \<Rightarrow> finish_key 0 k | To_user entry esp k \<Rightarrow> Some out | Resumes r k \<Rightarrow> Some out) = Some out"
    and "terminals_ok k" and "tables_linked k" and "paging_on k" and "cur_active_terminal k < 3"
  shows "(\<exists>k'. out = Returns 0 k' \<and> keeps_books k k') \<or> first_use l k out"
proof -
  have three: "t > MAX_TERM - 1 \<longleftrightarrow> \<not> t < 3" for t by (auto simp: MAX_TERM_def word_less_unat)
  have cli: "terminals_ok (cli k)" "tables_linked (cli k)" "paging_on (cli k)" "cur_active_terminal (cli k) < 3"
    using assms(2-5) by simp_all
  have fin: "\<exists>k'. out = Returns 0 k' \<and> keeps_books k k'" if "keeps_books k k1" "finish_key 0 k1 = Some out" for k1
    using finish_key_keeps [OF that(2)] keeps_books_trans [OF that(1)] keeps_weaken by blast
  consider "\<not> t < 3 \<or> t = cur_term k" | "t < 3" "t \<noteq> cur_term k" "active (terminal k t) = 1"
    | "t < 3" "t \<noteq> cur_term k" "active (terminal k t) \<noteq> 1" by blast
  then show ?thesis
  proof cases
    case 1
    then have "finish_key 0 (cli k) = Some out" using assms(1) by (cases "t < 3") (simp_all add: switch_terminal_def three Let_def)
    then show ?thesis using fin [OF keeps_weaken [OF keeps_cli(1)]] by blast
  next
    case 2
    obtain k1 where k1: "switch_to_active t (cli k) = Some (0, k1)" "terminals_ok k1" "books_kept (cli k) k1"
      using switch_to_active_result [OF cli(1) 2(1) _ cli(2-4)] 2(2) by auto
    then have "finish_key 0 k1 = Some out" using assms(1) 2 by (simp add: switch_terminal_def three)
    moreover have "keeps_books (cli k) k1" using k1 by (simp add: keeps_books_def)
    ultimately show ?thesis using fin keeps_books_trans [OF keeps_weaken [OF keeps_cli(1)]] by blast
  next
    case 3
    then obtain k1 where "switch_to_new t (cli k) = Some k1" "Option.bind (Option.bind (execute_shell l k1) (\<lambda>out. Some (return_0 out)))
        (\<lambda>out. case out of Returns r k \<Rightarrow> finish_key 0 k | To_user entry esp k \<Rightarrow> Some out | Resumes r k \<Rightarrow> Some out) = Some out"
      using assms(1) by (auto simp: switch_terminal_def three Let_def split: bind_splits)
    then show ?thesis unfolding first_use_def using 3 keeps_cli(1)
      by (intro disjI2 exI [of _ t] exI [of _ "cli k"] exI [of _ k1])
        (auto split: bind_splits outcome.splits)
  qed
qed

lemma keyboard_interrupt_cases:
  assumes "keyboard_interrupt_handler l k = Some out"
    and "terminals_ok k" and "tables_linked k" and "paging_on k" and "cur_active_terminal k < 3"
  shows "(\<exists>k'. out = Returns 0 k' \<and> keeps_books k k') \<or> first_use l k out"
proof -
  define k1 where "k1 = k\<lparr>iflag := False, io_log := Inb KEYBOARD_DATA_PORT # io_log k\<rparr>"
  have k1: "keeps k k1" unfolding k1_def by (rule keeps_trans [OF keeps_variables(2) keeps_variables(1)])
  have fin: "\<exists>k'. out = Returns 0 k' \<and> keeps_books k k'" if "keeps k1 k2" "finish_key c k2 = Some out" for c k2
    using finish_key_keeps [OF that(2)] keeps_trans [OF keeps_trans [OF k1 that(1)]] keeps_weaken by blast
  define c :: u8 where "c = ucast (fst (inb KEYBOARD_DATA_PORT (cli k)))"
  have ways: "(\<exists>k2 code. keeps k1 k2 \<and> finish_key code k2 = Some out) \<or> alt_key l c k1 = Some out"
    using assms(1) keeps_variables(11-14) [of k1] keeps_refl [of k1]
    unfolding keyboard_interrupt_handler_def Let_def
    by (simp add: inb_def cli_def c_def k1_def [symmetric] split: if_splits) blast+
  then show ?thesis
  proof
    assume "\<exists>k2 code. keeps k1 k2 \<and> finish_key code k2 = Some out"
    then show ?thesis using fin by blast
  next
    assume alt: "alt_key l c k1 = Some out"
    define k2 where "k2 = send_eoi 1 k1"
    obtain log where log: "k2 = k1\<lparr>io_log := log\<rparr>" using eoi_log unfolding k2_def by blast
    have k2: "r_esp k2 = r_esp k" "tables_linked k2" "paging_on k2" "terminals_ok k2" "cur_active_terminal k2 < 3"
      using assms(2-5) by (simp_all add: log k1_def tables_linked_def paging_on_def terminals_ok_def screen_ok_def)
    have kept: "keeps k k2" unfolding k2_def by (rule keeps_trans [OF k1 keeps_eoi])
    show ?thesis
    proof (cases "c \<noteq> BACKSPACE \<and> 0x3A < c \<and> c < 0x3E")
      case False
      then show ?thesis using alt fin [OF keeps_refl] by (auto simp: alt_key_def split: if_splits)
    next
      case True
      then have "Option.bind (switch_terminal l (c - 0x3B) k2) (\<lambda>out. case out of
           Returns r k \<Rightarrow> finish_key 0 k | To_user entry esp k \<Rightarrow> Some out | Resumes r k \<Rightarrow> Some out) = Some out"
        using alt by (simp add: alt_key_def k2_def)
      from switch_terminal_cases [OF this k2(4,2,3,5)] show ?thesis
        using keeps_trans [OF kept] keeps_books_trans [OF keeps_weaken [OF kept]] k2(1) unfolding first_use_def
        by (metis (no_types, lifting))
    qed
  qed
qed

lemma rtc_interrupt_keeps: "keeps k (rtc_interrupt_handler k)"
proof -
  define k0 where "k0 = send_eoi RTC_IRQ_LINE k"
  have "keeps k0 (rtc_interrupt_handler k)"
    by (simp add: rtc_interrupt_handler_def k0_def [symmetric] Let_def cli_def sti_def outb_def inb_def)
      (simp add: keeps_def books_kept_def terminals_ok_def screen_ok_def tables_linked_def paging_on_def)
  then show ?thesis using keeps_trans keeps_eoi unfolding k0_def by blast
qed

end
