(* ===== verification/Machine.thy ===== *)
theory Machine
  imports Kept
begin

text \<open>
  The machine as a whole: programs run on up to three terminals, the timer and the keyboard
  interrupt them, and they make system calls. On every entry from a program the processor loads
  the stack pointer from the task state segment.
\<close>

unbundle bit_operations_syntax

section \<open>Definitions\<close>

text \<open>Entry into the kernel from a program, \<open>d\<close> bytes below the top of the stack.\<close>

definition from_user :: "u32 \<Rightarrow> u32 \<Rightarrow> kernel \<Rightarrow> kernel" where
  "from_user d ebp k = k\<lparr>r_esp := esp0 (tss k) - d, r_ebp := ebp\<rparr>"

text \<open>
  One step: the program of the scheduled terminal runs and writes memory, whatever and wherever;
  the timer, the clock or the keyboard interrupts it; or it makes a system call, with any number
  and arguments, that returns to it or goes to a new program. At most the kernel stack of the
  process is used. Two ways of a call are no step: the end of a program that has a parent
  (\<open>Resumes\<close>), and the start of a program by one whose terminal is not the one shown.
\<close>

inductive machine_step :: "kernel \<Rightarrow> kernel \<Rightarrow> bool" where
  program: "machine_step k (k\<lparr>mem := m, r_esp := esp, r_ebp := ebp\<rparr>)"
| timer: "unat d \<le> 0x1FFC \<Longrightarrow> machine_step k (PIT_scheduling (from_user d ebp k))"
| clock: "machine_step k (rtc_interrupt_handler (from_user d ebp k))"
| keyboard: "unat d \<le> 0x1FFC \<Longrightarrow>
    keyboard_interrupt_handler l ((from_user d ebp k)\<lparr>device := dev\<rparr>) \<in> {Some (Returns r k'), Some (To_user entry esp k')} \<Longrightarrow>
    machine_step k k'"
| call: "system_call_handler env eax ebx ecx edx (from_user d ebp k) = Some (Returns r k') \<Longrightarrow> machine_step k k'"
| start: "system_call_handler env eax ebx ecx edx (from_user d ebp k) = Some (To_user entry esp k') \<Longrightarrow>
    cur_active_terminal k = cur_term k \<Longrightarrow> machine_step k k'"

text \<open>
  The invariant: the one of the scheduler, with the stack pointer that an entry into the kernel
  will have; the process numbers of all terminals are taken; and the processor has the kernel
  stack and the page of the scheduled process.
\<close>

definition machine_ok :: "kernel \<Rightarrow> bool" where
  "machine_ok k \<longleftrightarrow> sched_ok (k\<lparr>r_esp := esp0 (tss k)\<rparr>) \<and> active (terminal k 0) = 1 \<and>
     (\<forall>t<3. active (terminal k t) = 0 \<or> active (terminal k t) = 1) \<and> length (pid_array k) = 6 \<and>
     (\<forall>t<3. active (terminal k t) = 1 \<longrightarrow> pid_array k ! unat (apn (terminal k t)) \<noteq> 0 \<and>
        process_number (pcbs k (term_pcb k t)) = apn (terminal k t)) \<and>
     (let process = ucast (apn (terminal k (cur_active_terminal k))) in
      esp0 (tss k) = kernel_stack_top process \<and> user_mapped k \<and> user_frame k = process_frame process)"

section \<open>Steps that leave the bookkeeping\<close>

lemma sched_ok_esp:
  "sched_ok (k\<lparr>r_esp := esp\<rparr>) \<longleftrightarrow> terminals_ok k \<and> tables_linked k \<and> paging_on k \<and> cur_active_terminal k < 3 \<and>
     active (terminal k (cur_active_terminal k)) = 1 \<and> saved_ok k (cur_active_terminal k) esp \<and>
     (\<forall>t<3. active (terminal k t) = 1 \<and> t \<noteq> cur_active_terminal k \<longrightarrow> saved_ok k t (p_esp (pcbs k (term_pcb k t)))) \<and>
     (\<forall>t<3. \<forall>t'<3. active (terminal k t) = 1 \<and> active (terminal k t') = 1 \<and>
        apn (terminal k t) = apn (terminal k t') \<longrightarrow> t = t')"
  by (simp add: sched_ok_def terminals_ok_def screen_ok_def tables_linked_def paging_on_def saved_ok_def term_pcb_def)

lemma sched_ok_change:
  "sched_ok (k\<lparr>r_esp := esp\<rparr>) \<Longrightarrow> saved_ok k (cur_active_terminal k) esp' \<Longrightarrow> sched_ok (k\<lparr>r_esp := esp'\<rparr>)"
  by (simp add: sched_ok_esp)

lemma machine_terminals: "machine_ok k \<Longrightarrow> terminals_ok k \<and> tables_linked k \<and> paging_on k \<and> cur_active_terminal k < 3"
  by (simp add: machine_ok_def sched_ok_esp)

lemma machine_cong:
  assumes "books_kept k k'" and "terminals_ok k'" and "machine_ok k"
  shows "machine_ok k'"
proof -
  note b = assms(1) [unfolded books_kept_def]
  have pcb: "term_pcb k' = term_pcb k" using b by (simp add: term_pcb_def fun_eq_iff)
  have saved: "saved_ok k' t e = saved_ok k t e" for t e using b by (simp add: saved_ok_def pcb)
  have page: "user_mapped k' = user_mapped k" "user_frame k' = user_frame k"
    using b by (simp_all add: user_mapped_def user_frame_def)
  have "terminals_ok k" using assms(3) by (simp add: machine_ok_def sched_ok_esp)
  then have "machine_ok k' \<longleftrightarrow> machine_ok k"
    unfolding machine_ok_def sched_ok_esp pcb saved page by (simp add: b assms(2))
  then show ?thesis using assms(3) by simp
qed

lemma keeps_machine: "keeps k k' \<Longrightarrow> machine_ok k \<Longrightarrow> machine_ok k'"
  using machine_terminals machine_cong unfolding keeps_def by blast

lemma from_user_keeps: "keeps k (from_user d ebp k)"
  unfolding from_user_def by (rule keeps_trans [OF keeps_variables(5,6)])

lemma from_user_fields [simp]:
  "terminal (from_user d ebp k) = terminal k" "cur_term (from_user d ebp k) = cur_term k"
  "cur_active_terminal (from_user d ebp k) = cur_active_terminal k" "r_esp (from_user d ebp k) = esp0 (tss k) - d"
  "tss (from_user d ebp k) = tss k" "pcbs (from_user d ebp k) = pcbs k" "pid_array (from_user d ebp k) = pid_array k"
  by (simp_all add: from_user_def)

text \<open>A program that waits, and its control block.\<close>

lemma machine_waiting:
  assumes "machine_ok k" and "u < 3" "active (terminal k u) = 1" "u \<noteq> cur_active_terminal k"
  shows "saved_ok k u (p_esp (pcbs k (term_pcb k u)))" "term_pcb k u \<noteq> term_pcb k (cur_active_terminal k)"
proof -
  show saved: "saved_ok k u (p_esp (pcbs k (term_pcb k u)))" using assms by (simp add: machine_ok_def sched_ok_esp)
  have c: "saved_ok k (cur_active_terminal k) (esp0 (tss k))" using assms(1) by (simp add: machine_ok_def sched_ok_esp)
  have "apn (terminal k u) \<noteq> apn (terminal k (cur_active_terminal k))"
    using assms unfolding machine_ok_def sched_ok_esp by metis
  then show "term_pcb k u \<noteq> term_pcb k (cur_active_terminal k)"
    using term_pcb_inj [of k u "cur_active_terminal k"] saved c by (auto simp: saved_ok_def)
qed

text \<open>The stack pointer in the kernel is in the kernel stack of the scheduled process.\<close>

lemma machine_stack:
  assumes "machine_ok k" and "unat d \<le> 0x1FFC"
  shows "in_kernel_stack (ucast (apn (terminal k (cur_active_terminal k)))) (esp0 (tss k) - d)"
proof -
  have "unat (ucast (apn (terminal k (cur_active_terminal k))) :: u32) < 6"
    using assms(1) by (simp add: machine_ok_def sched_ok_esp saved_ok_def unat_ucast_u8)
  then show ?thesis using assms below_stack_top by (simp add: machine_ok_def Let_def)
qed

lemma machine_sched:
  assumes "machine_ok k" and "unat d \<le> 0x1FFC"
  shows "sched_ok (from_user d ebp k)"
proof -
  have "machine_ok (from_user d ebp k)" by (rule keeps_machine [OF from_user_keeps assms(1)])
  then have "sched_ok ((from_user d ebp k)\<lparr>r_esp := esp0 (tss k) - d\<rparr>)"
    using machine_stack [OF assms] unfolding machine_ok_def sched_ok_esp by (simp add: saved_ok_def)
  moreover have "(from_user d ebp k)\<lparr>r_esp := esp0 (tss k) - d\<rparr> = from_user d ebp k"
    by (rule kernel.equality) (simp_all add: from_user_def)
  ultimately show ?thesis by simp
qed

section \<open>The timer\<close>

lemma tick_machine:
  assumes "machine_ok k" and "unat d \<le> 0x1FFC"
  shows "machine_ok (PIT_scheduling (from_user d ebp k))"
proof -
  define k0 where "k0 = from_user d ebp k"
  have m0: "machine_ok k0" unfolding k0_def by (rule keeps_machine [OF from_user_keeps assms(1)])
  have ok: "sched_ok k0" unfolding k0_def by (rule machine_sched [OF assms])
  have zero: "active (terminal k0 0) = 1" using m0 by (simp add: machine_ok_def)
  show ?thesis
  proof (cases "contended k0")
    case False
    then obtain log where "PIT_scheduling k0 = k0\<lparr>io_log := log, iflag := True\<rparr>" using idle_tick(1) [OF ok zero] by blast
    then show ?thesis
      using keeps_machine [OF keeps_trans [OF keeps_variables(1) keeps_variables(2)] m0] by (simp add: k0_def)
  next
    case True
    define t where "t = next_term k0 (cur_active_terminal k0)"
    define k' where "k' = PIT_scheduling k0"
    have sw: "switched t k0 k'" using tick_switches(1) [OF ok True] by (simp add: t_def k'_def)
    have ok': "sched_ok k'" using tick_keeps_ok(1) [OF ok zero] by (simp add: k'_def)
    have t: "t < 3" "active (terminal k0 t) = 1" "unat (apn (terminal k0 t)) < 6"
      using contended_next [OF ok True] by (simp_all add: t_def)
    note f = sw [unfolded switched_def Let_def]
    have numbers: "process_number (pcbs k' p) = process_number (pcbs k0 p)" for p using f by simp
    have pcb: "term_pcb k' = term_pcb k0" using f by (simp add: term_pcb_def fun_eq_iff)
    have "in_kernel_stack (ucast (apn (terminal k0 t))) (kernel_stack_top (ucast (apn (terminal k0 t))))"
      using t(3) by (simp add: esp0_in_stack unat_ucast_u8)
    then have "in_kernel_stack (ucast (apn (terminal k' (cur_active_terminal k')))) (esp0 (tss k'))" using f by simp
    moreover have "saved_ok k' (cur_active_terminal k') (r_esp k')" using ok' by (simp add: sched_ok_def)
    ultimately have "saved_ok k' (cur_active_terminal k') (esp0 (tss k'))" unfolding saved_ok_def by blast
    moreover have "sched_ok (k'\<lparr>r_esp := r_esp k'\<rparr>)" using ok' by simp
    ultimately have "sched_ok (k'\<lparr>r_esp := esp0 (tss k')\<rparr>)" by (rule sched_ok_change [rotated])
    moreover have same: "terminal k' = terminal k0" "pid_array k' = pid_array k0" using f by simp_all
    moreover have "esp0 (tss k') = kernel_stack_top (ucast (apn (terminal k' (cur_active_terminal k'))))" "user_mapped k'"
      "user_frame k' = process_frame (ucast (apn (terminal k' (cur_active_terminal k'))))"
      using f by simp_all
    ultimately have "machine_ok k'"
      using m0 unfolding machine_ok_def Let_def same numbers pcb by simp
    then show ?thesis by (simp add: k'_def k0_def)
  qed
qed

section \<open>The start of a program\<close>

text \<open>A machine on which a program can be started on the terminal that is shown.\<close>

definition startable :: "kernel \<Rightarrow> bool" where
  "startable k \<longleftrightarrow> terminals_ok k \<and> tables_linked k \<and> paging_on k \<and> cur_active_terminal k < 3 \<and>
     (cur_active_terminal k = cur_term k \<or> active (terminal k (cur_term k)) = 0) \<and>
     (cur_term k = 0 \<or> active (terminal k 0) = 1) \<and> length (pid_array k) = 6 \<and>
     (\<forall>t<3. active (terminal k t) = 0 \<or> active (terminal k t) = 1) \<and>
     (\<forall>t<3. active (terminal k t) = 1 \<and> t \<noteq> cur_term k \<longrightarrow> saved_ok k t (p_esp (pcbs k (term_pcb k t))) \<and>
        pid_array k ! unat (apn (terminal k t)) \<noteq> 0 \<and> process_number (pcbs k (term_pcb k t)) = apn (terminal k t)) \<and>
     (\<forall>t<3. \<forall>t'<3. t \<noteq> cur_term k \<and> t' \<noteq> cur_term k \<and> active (terminal k t) = 1 \<and> active (terminal k t') = 1 \<and>
        apn (terminal k t) = apn (terminal k t') \<longrightarrow> t = t')"

lemma startable_facts:
  assumes "startable k"
  shows "terminals_ok k" "tables_linked k" "paging_on k" "cur_active_terminal k < 3" "length (pid_array k) = 6"
    "cur_active_terminal k = cur_term k \<or> active (terminal k (cur_term k)) = 0"
    "cur_term k = 0 \<or> active (terminal k 0) = 1"
    "t < 3 \<Longrightarrow> active (terminal k t) = 0 \<or> active (terminal k t) = 1"
    "t < 3 \<Longrightarrow> active (terminal k t) = 1 \<Longrightarrow> t \<noteq> cur_term k \<Longrightarrow> saved_ok k t (p_esp (pcbs k (term_pcb k t))) \<and>
       pid_array k ! unat (apn (terminal k t)) \<noteq> 0 \<and> process_number (pcbs k (term_pcb k t)) = apn (terminal k t)"
    "t < 3 \<Longrightarrow> t' < 3 \<Longrightarrow> t \<noteq> cur_term k \<Longrightarrow> t' \<noteq> cur_term k \<Longrightarrow> active (terminal k t) = 1 \<Longrightarrow>
       active (terminal k t') = 1 \<Longrightarrow> apn (terminal k t) = apn (terminal k t') \<Longrightarrow> t = t'"
  using assms unfolding startable_def by blast+

lemma startable_keeps:
  assumes "keeps k k'" and "startable k"
  shows "startable k'"
proof -
  have t: "terminals_ok k" "cur_active_terminal k < 3" using assms(2) by (simp_all add: startable_def)
  then have ok: "terminals_ok k'" "cur_term k' = cur_term k" and b: "books_kept k k'" using assms(1) by (simp_all add: keeps_def)
  note b = b [unfolded books_kept_def]
  have pcb: "term_pcb k' = term_pcb k" using b by (simp add: term_pcb_def fun_eq_iff)
  have saved: "saved_ok k' t e = saved_ok k t e" for t e using b by (simp add: saved_ok_def pcb)
  have "startable k' \<longleftrightarrow> startable k" unfolding startable_def pcb saved by (simp add: b ok t(1))
  then show ?thesis using assms(2) by simp
qed

lemma init_fds_fields: "\<exists>fs. init_fds p = p\<lparr>fds := fs\<rparr>"
proof -
  have upd: "\<exists>fs. upd_fd i f (p\<lparr>fds := gs\<rparr>) = p\<lparr>fds := fs\<rparr>" for i f gs by (auto simp: upd_fd_def)
  have "\<exists>fs. fold (\<lambda>i. upd_fd i (\<lambda>f. f\<lparr>fops_ptr := fops_error, inode := - 1, file_position := OFFSET_START, flags := FD_OCCUP\<rparr>)) is p
      = p\<lparr>fds := fs\<rparr>" for "is"
    by (induction "is" rule: rev_induct) (use upd in \<open>fastforce intro: exI [of _ "fds p"]\<close>)+
  then show ?thesis unfolding init_fds_def Let_def using upd by metis
qed

text \<open>What \<^verbatim>\<open>execute\<close> has done when it leaves for the new program.\<close>

definition entered :: "nat \<Rightarrow> kernel \<Rightarrow> kernel \<Rightarrow> bool" where
  "entered j k k' \<longleftrightarrow> (let p = get_pcb_ptr_process (word_of_nat j); c = cur_term k; t = terminal k c in
     cur_term k' = c \<and> key_buffer k' = key_buffer k \<and> screen_x k' = screen_x k \<and> screen_y k' = screen_y k \<and>
     tables_linked k' = tables_linked k \<and> paging_on k' = paging_on k \<and> pid_array k' = pid_array k \<and>
     page_directory k' 32 = process_frame (word_of_nat j) OR 0x87 \<and> esp0 (tss k') = kernel_stack_top (word_of_nat j) \<and>
     cur_active_terminal k' = (if active t = 0 then c else cur_active_terminal k) \<and>
     terminal k' = (terminal k)(c := t\<lparr>active := (if active t = 0 then 1 else active t), apn := word_of_nat j\<rparr>) \<and>
     (\<forall>q. q \<noteq> p \<longrightarrow> pcbs k' q = pcbs k q) \<and> term_ptr (pcbs k' p) = c \<and> process_number (pcbs k' p) = word_of_nat j)"

lemma start_process_entered:
  assumes "start_process ino e (word_of_nat j) arg k = Some out" and "j < 6"
  shows "\<exists>k'. out = To_user e USER_STACK k' \<and> entered j k k'"
proof -
  let ?p = "get_pcb_ptr_process (word_of_nat j)"
  define m where "m = mem (read_file ino 0 LOAD_ADDRESS LARGE_NUMBER (loading j k))"
  define k5 where "k5 = (loading j k)\<lparr>mem := m\<rparr>"
  have load: "read_file ino 0 LOAD_ADDRESS LARGE_NUMBER (loading j k) = k5"
    unfolding k5_def m_def by (rule read_file_mem)
  have start: "page_remap 0x8000000 (0x800000 + word_of_nat j * 0x400000)
      (upd_pcb ?p (\<lambda>p. p\<lparr>parent_kbp := r_ebp k, parent_ksp := r_esp k\<rparr>) k) = loading j k"
    by (simp add: loading_def process_frame_def)
  have pn: "ucast (word_of_nat j :: u32) = (word_of_nat j :: u8)"
    using assms(2) by (simp add: word_unat_eq_iff unsigned_ucast_eq take_bit_eq_mod unat_of_nat)
  obtain fs where fs: "\<And>p. init_fds p = p\<lparr>fds := fs p\<rparr>" using init_fds_fields by metis
  define k6 where "k6 = upd_pcb ?p (\<lambda>p. p\<lparr>process_number := word_of_nat j\<rparr>) k5"
  define k7 where "k7 = (if active (terminal k6 (cur_term k6)) = FREE then
       let k = k6\<lparr>cur_active_terminal := cur_term k6\<rparr>;
           k = upd_pcb ?p (\<lambda>p. p\<lparr>parent_process_number := process_number p\<rparr>) k
       in upd_terminal (cur_term k) (active_update (\<lambda>_. AVIL)) k
     else upd_pcb ?p (\<lambda>p. p\<lparr>parent_process_number :=
         process_number (pcbs k6 (get_pcb_ptr_process (scast (apn (terminal k6 (cur_term k6))))))\<rparr>) k6)"
  have k7: "cur_term k7 = cur_term k" "key_buffer k7 = key_buffer k" "screen_x k7 = screen_x k" "screen_y k7 = screen_y k"
    "tables_linked k7 = tables_linked k" "paging_on k7 = paging_on k" "pid_array k7 = pid_array k"
    "page_directory k7 32 = process_frame (word_of_nat j) OR 0x87"
    "cur_active_terminal k7 = (if active (terminal k (cur_term k)) = 0 then cur_term k else cur_active_terminal k)"
    "terminal k7 = (terminal k)(cur_term k := (terminal k (cur_term k))
       \<lparr>active := (if active (terminal k (cur_term k)) = 0 then 1 else active (terminal k (cur_term k)))\<rparr>)"
    "\<forall>q. q \<noteq> ?p \<longrightarrow> pcbs k7 q = pcbs k q" "process_number (pcbs k7 ?p) = word_of_nat j"
    by (simp_all add: k7_def k6_def k5_def Let_def loading_def upd_pcb_def upd_terminal_def page_remap_def flush_tlb_def FREE_def AVIL_def
        CONVERT_4MB_def tables_linked_def paging_on_def)
  have run: "start_process ino e (word_of_nat j) arg k = Option.bind (strcpy_array (argbuf (pcbs k7 ?p)) (arr arg)) (\<lambda>args.
      let k = upd_pcb ?p (\<lambda>p. p\<lparr>argbuf := args\<rparr>) k7;
            k = upd_pcb ?p init_fds k;
            k = upd_pcb ?p (\<lambda>p. p\<lparr>term_ptr := cur_term k\<rparr>) k;
            k = upd_terminal (cur_term k) (apn_update (\<lambda>_. process_number (pcbs k ?p))) k;
            k = k\<lparr>tss := (tss k)\<lparr>ss0 := KERNEL_DS, esp0 := 0x800000 - 0x2000 * word_of_nat j - 4\<rparr>\<rparr>
        in Some (To_user e USER_STACK (sti k)))"
    unfolding start_process_def by (simp only: Let_def start load pn k6_def [symmetric] k7_def [unfolded Let_def, symmetric])
  from assms(1) [unfolded run] obtain args where "out = To_user e USER_STACK (sti
      (let k = upd_pcb ?p (\<lambda>p. p\<lparr>argbuf := args\<rparr>) k7;
            k = upd_pcb ?p init_fds k;
            k = upd_pcb ?p (\<lambda>p. p\<lparr>term_ptr := cur_term k\<rparr>) k;
            k = upd_terminal (cur_term k) (apn_update (\<lambda>_. process_number (pcbs k ?p))) k
       in k\<lparr>tss := (tss k)\<lparr>ss0 := KERNEL_DS, esp0 := 0x800000 - 0x2000 * word_of_nat j - 4\<rparr>\<rparr>))"
    by (auto simp: Let_def split: bind_splits)
  moreover have "entered j k (sti
      (let k = upd_pcb ?p (\<lambda>p. p\<lparr>argbuf := args\<rparr>) k7;
            k = upd_pcb ?p init_fds k;
            k = upd_pcb ?p (\<lambda>p. p\<lparr>term_ptr := cur_term k\<rparr>) k;
            k = upd_terminal (cur_term k) (apn_update (\<lambda>_. process_number (pcbs k ?p))) k
       in k\<lparr>tss := (tss k)\<lparr>ss0 := KERNEL_DS, esp0 := 0x800000 - 0x2000 * word_of_nat j - 4\<rparr>\<rparr>))"
    unfolding entered_def Let_def using k7
    by (simp add: upd_pcb_def upd_terminal_def sti_def fs kernel_stack_top_def tables_linked_def paging_on_def)
  ultimately show ?thesis by blast
qed

lemma entered_machine:
  assumes "startable k" and "entered j (k\<lparr>pid_array := (pid_array k)[j := 1]\<rparr>) k'" and "j < 6" and "pid_array k ! j = 0"
  shows "machine_ok k'"
proof -
  define c where "c = cur_term k"
  define n :: u8 where "n = word_of_nat j"
  note facts = startable_facts [OF assms(1), folded c_def]
  note s = facts(1-3,6,7,5) and s_active = facts(8) and s_wait = facts(9) and s_distinct = facts(10)
  have n: "unat n = j" "(ucast n :: u32) = word_of_nat j" using assms(3) byte_unat [of j] byte_cast [of j] by (simp_all add: n_def)
  have c: "c < 3" using s(1) by (simp add: terminals_ok_def c_def)
  note c = c s_active [OF c]
  have e: "cur_term k' = c" "key_buffer k' = key_buffer k" "screen_x k' = screen_x k" "screen_y k' = screen_y k"
    "tables_linked k'" "paging_on k'" "pid_array k' = (pid_array k)[j := 1]"
    "page_directory k' 32 = process_frame (ucast n) OR 0x87" "esp0 (tss k') = kernel_stack_top (ucast n)"
    "cur_active_terminal k' = c" "terminal k' = (terminal k)(c := (terminal k c)\<lparr>active := 1, apn := n\<rparr>)"
    "\<And>q. q \<noteq> get_pcb_ptr_process (ucast n) \<Longrightarrow> pcbs k' q = pcbs k q"
    "term_ptr (pcbs k' (get_pcb_ptr_process (ucast n))) = c" "process_number (pcbs k' (get_pcb_ptr_process (ucast n))) = n"
  proof -
    let ?p = "get_pcb_ptr_process (ucast n)"
    define k0 where "k0 = k\<lparr>pid_array := (pid_array k)[j := 1]\<rparr>"
    have k0: "cur_term k0 = cur_term k" "key_buffer k0 = key_buffer k" "screen_x k0 = screen_x k" "screen_y k0 = screen_y k"
      "tables_linked k0 = tables_linked k" "paging_on k0 = paging_on k" "pid_array k0 = (pid_array k)[j := 1]"
      "cur_active_terminal k0 = cur_active_terminal k" "terminal k0 = terminal k" "pcbs k0 = pcbs k"
      by (simp_all add: k0_def tables_linked_def paging_on_def)
    have w: "(word_of_nat j :: u32) = ucast n" "(word_of_nat j :: u8) = n" using n(2) by (simp_all add: n_def)
    have en: "cur_term k' = c" "key_buffer k' = key_buffer k" "screen_x k' = screen_x k" "screen_y k' = screen_y k"
      "tables_linked k' = tables_linked k" "paging_on k' = paging_on k" "pid_array k' = (pid_array k)[j := 1]"
      "page_directory k' 32 = process_frame (ucast n) OR 0x87" "esp0 (tss k') = kernel_stack_top (ucast n)"
      "cur_active_terminal k' = (if active (terminal k c) = 0 then c else cur_active_terminal k)"
      "terminal k' = (terminal k)(c := (terminal k c)\<lparr>active := (if active (terminal k c) = 0 then 1 else active (terminal k c)), apn := n\<rparr>)"
      "\<forall>q. q \<noteq> ?p \<longrightarrow> pcbs k' q = pcbs k q" "term_ptr (pcbs k' ?p) = c" "process_number (pcbs k' ?p) = n"
      using assms(2) unfolding k0_def [symmetric] entered_def Let_def k0 w c_def [symmetric] by simp_all
    show "cur_term k' = c" "key_buffer k' = key_buffer k" "screen_x k' = screen_x k" "screen_y k' = screen_y k"
      "pid_array k' = (pid_array k)[j := 1]" "page_directory k' 32 = process_frame (ucast n) OR 0x87"
      "esp0 (tss k') = kernel_stack_top (ucast n)" "term_ptr (pcbs k' ?p) = c" "process_number (pcbs k' ?p) = n"
      by (rule en)+
    show "\<And>q. q \<noteq> ?p \<Longrightarrow> pcbs k' q = pcbs k q" using en(12) by blast
    show "tables_linked k'" "paging_on k'" using en(5,6) s(2,3) by blast+
    show "cur_active_terminal k' = c" using en(10) s(4) by auto
    show "terminal k' = (terminal k)(c := (terminal k c)\<lparr>active := 1, apn := n\<rparr>)" using en(11) c(2) by auto
  qed
  have n6: "unat (ucast n :: u32) < 6" using n(1) assms(3) by (simp add: unat_ucast_u8)
  have pages: "user_frame k' = process_frame (ucast n)" "user_mapped k'"
    using frame_4m [OF process_frame_aligned] process_frame_aligned e(6,8) by (auto simp: user_frame_def user_mapped_def)
  have term_c: "terminal k' c = (terminal k c)\<lparr>active := 1, apn := n\<rparr>" "term_pcb k' c = get_pcb_ptr_process (ucast n)"
    by (simp_all add: e(11) term_pcb_def)
  have other: "terminal k' t = terminal k t" "term_pcb k' t = term_pcb k t" if "t \<noteq> c" for t
    using that by (simp_all add: e(11) term_pcb_def)
  have wait: "saved_ok k' t (p_esp (pcbs k' (term_pcb k' t)))" "pid_array k' ! unat (apn (terminal k' t)) \<noteq> 0"
    "process_number (pcbs k' (term_pcb k' t)) = apn (terminal k' t)" "apn (terminal k t) \<noteq> n"
    if t: "t < 3" "t \<noteq> c" "active (terminal k t) = 1" for t
  proof -
    have k: "saved_ok k t (p_esp (pcbs k (term_pcb k t)))" "pid_array k ! unat (apn (terminal k t)) \<noteq> 0"
      "process_number (pcbs k (term_pcb k t)) = apn (terminal k t)"
      using s_wait [OF t(1,3,2)] by blast+
    have small: "unat (apn (terminal k t)) < 6" using k(1) by (simp add: saved_ok_def)
    have ne: "unat (apn (terminal k t)) \<noteq> j" using k(2) assms(4) by auto
    then show "apn (terminal k t) \<noteq> n" using n(1) by auto
    have "term_pcb k t \<noteq> get_pcb_ptr_process (ucast n)"
    proof
      assume "term_pcb k t = get_pcb_ptr_process (ucast n)"
      then have "(ucast (apn (terminal k t)) :: u32) = ucast n"
        using get_pcb_process_inj [of "ucast (apn (terminal k t))" "ucast n"] small n6 by (simp add: term_pcb_def unat_ucast_u8)
      then have "unat (ucast (apn (terminal k t)) :: u32) = unat (ucast n :: u32)" by simp
      then have "unat (apn (terminal k t)) = unat n" by (simp only: unat_ucast_u8)
      then show False using ne n(1) by simp
    qed
    then have pcb: "pcbs k' (term_pcb k t) = pcbs k (term_pcb k t)" by (rule e(12))
    show "saved_ok k' t (p_esp (pcbs k' (term_pcb k' t)))"
      using k(1) by (simp add: saved_ok_def other [OF t(2)] pcb)
    show "pid_array k' ! unat (apn (terminal k' t)) \<noteq> 0" using k(2) ne by (simp add: e(7) other [OF t(2)])
    show "process_number (pcbs k' (term_pcb k' t)) = apn (terminal k' t)" using k(3) by (simp add: other [OF t(2)] pcb)
  qed
  have terms: "terminals_ok k'" using s(1) by (simp add: terminals_ok_def screen_ok_def e(1-4,11) c_def)
  have "saved_ok k' c (esp0 (tss k'))"
    using n6 by (simp add: saved_ok_def term_c e(9,13) esp0_in_stack unat_ucast_u8)
  moreover have differ: "apn (terminal k' t) \<noteq> apn (terminal k' c)" if "t < 3" "active (terminal k' t) = 1" "t \<noteq> c" for t
    using wait(4) [of t] other(1) [of t] term_c(1) that by simp
  moreover have "t = t'" if t: "t < 3" "t' < 3" "active (terminal k' t) = 1" "active (terminal k' t') = 1"
    "apn (terminal k' t) = apn (terminal k' t')" for t t'
  proof (cases "t = c \<or> t' = c")
    case True
    then show ?thesis using t differ [of t] differ [of t'] by metis
  next
    case False
    then show ?thesis using t s_distinct [of t t'] other(1) [of t] other(1) [of t'] by simp
  qed
  moreover have "saved_ok k' t (p_esp (pcbs k' (term_pcb k' t)))" if "t < 3" "active (terminal k' t) = 1" "t \<noteq> c" for t
    using wait(1) [of t] other(1) [of t] that by simp
  moreover have "active (terminal k' c) = 1" by (simp add: term_c)
  ultimately have "sched_ok (k'\<lparr>r_esp := esp0 (tss k')\<rparr>)"
    unfolding sched_ok_esp e(10) using terms e(5,6) c(1) by blast
  moreover have "pid_array k' ! unat (apn (terminal k' t)) \<noteq> 0 \<and> process_number (pcbs k' (term_pcb k' t)) = apn (terminal k' t)"
    if "t < 3" "active (terminal k' t) = 1" for t
  proof (cases "t = c")
    case True
    then show ?thesis using n(1) assms(3) s(6) by (simp add: term_c e(7,14))
  next
    case False
    then show ?thesis using wait(2,3) [of t] that other(1) [of t] by simp
  qed
  moreover have "active (terminal k' 0) = 1" using s(5) by (auto simp: e(11))
  moreover have "active (terminal k' t) = 0 \<or> active (terminal k' t) = 1" if "t < 3" for t
    using s_active [OF that] by (auto simp: e(11))
  ultimately show ?thesis unfolding machine_ok_def Let_def e(10) term_c(1) using e(7,9) pages s(6) by simp
qed

lemma start_machine:
  assumes "startable k" and "starts k out"
  shows "\<exists>entry esp k'. out = To_user entry esp k' \<and> machine_ok k'"
proof -
  obtain k1 ino e j arg where k1: "keeps k k1" "j < 6" "pid_array k1 ! j = 0"
    "start_process ino e (word_of_nat j) arg (k1\<lparr>pid_array := (pid_array k1)[j := 1]\<rparr>) = Some out"
    using assms(2) unfolding starts_def by blast
  show ?thesis
    using start_process_entered [OF k1(4,2)] entered_machine [OF startable_keeps [OF k1(1) assms(1)] _ k1(2,3)] by blast
qed

lemma starts_to_user: "starts k out \<Longrightarrow> \<exists>entry esp k'. out = To_user entry esp k'"
  unfolding starts_def using start_process_entered by blast

lemma execute_shell_machine:
  assumes "startable k" and "execute_shell l k = Some out"
  shows "(\<exists>r k'. out = Returns r k' \<and> keeps k k') \<or> (\<exists>entry esp k'. out = To_user entry esp k' \<and> machine_ok k')"
  using execute_with_cases [OF assms(2) [unfolded execute_shell_def]] start_machine [OF assms(1)] by auto

text \<open>With a program on the scheduled terminal, and that terminal shown.\<close>

lemma machine_startable:
  assumes "machine_ok k" and "cur_active_terminal k = cur_term k"
  shows "startable k"
  using assms unfolding machine_ok_def sched_ok_esp startable_def by simp

text \<open>The last program of a terminal ends, and its shell starts again.\<close>

lemma closed_keeps: "close_all u p is k = Some k' \<Longrightarrow> keeps k k'"
proof (induction "is" arbitrary: k)
  case Nil
  then show ?case by (simp add: keeps_refl)
next
  case (Cons i "is")
  obtain k1 where k1: "(if flags (fds (pcbs k p) ! i) = FD_AVAIL then map_option snd (sys_close u (word_of_nat i) k) else Some k) = Some k1"
    "close_all u p is (upd_pcb p (upd_fd i (\<lambda>f. f\<lparr>fops_ptr := fops_error, flags := FD_OCCUP\<rparr>)) k1) = Some k'"
    using Cons.prems by (auto split: bind_splits)
  have "keeps k k1" using k1(1) sys_close_keeps keeps_refl by (auto split: if_splits)
  then show ?case using keeps_trans keeps_fd Cons.IH [OF k1(2)] by blast
qed

lemma free_startable:
  assumes "machine_ok k" and "cur_active_terminal k = cur_term k"
  shows "startable ((cli k)\<lparr>pid_array := (pid_array k)[unat (apn (terminal k (cur_term k))) := 0]\<rparr>)" (is "startable ?k")
proof -
  have k: "startable k" by (rule machine_startable [OF assms])
  have fields: "terminal ?k = terminal k" "pcbs ?k = pcbs k" "cur_term ?k = cur_term k" "cur_active_terminal ?k = cur_active_terminal k"
    "terminals_ok ?k = terminals_ok k" "tables_linked ?k = tables_linked k" "paging_on ?k = paging_on k"
    "term_pcb ?k = term_pcb k" "saved_ok ?k = saved_ok k"
    by (simp_all add: cli_def terminals_ok_def screen_ok_def tables_linked_def paging_on_def term_pcb_def saved_ok_def fun_eq_iff)
  have c: "cur_term k < 3" "active (terminal k (cur_term k)) = 1"
    using assms by (simp_all add: machine_ok_def sched_ok_esp)
  have "pid_array ?k ! unat (apn (terminal k t)) = pid_array k ! unat (apn (terminal k t))"
    if "t < 3" "active (terminal k t) = 1" "t \<noteq> cur_term k" for t
  proof -
    have "unat (apn (terminal k (cur_term k))) \<noteq> unat (apn (terminal k t))"
      using assms(1) c that unfolding machine_ok_def sched_ok_esp by (metis word_unat_eq_iff)
    then show ?thesis by simp
  qed
  moreover have "length (pid_array ?k) = length (pid_array k)" by simp
  ultimately show ?thesis using k unfolding startable_def fields by simp
qed

lemma ended_startable:
  assumes "startable k" and "cur_active_terminal k = cur_term k"
  shows "startable (upd_terminal (cur_active_terminal k) (active_update (\<lambda>_. ucast FD_OCCUP))
     (upd_terminal (cur_active_terminal k) (apn_update (\<lambda>_. x)) k))" (is "startable ?k")
proof -
  let ?c = "cur_term k"
  have fields: "pcbs ?k = pcbs k" "cur_term ?k = ?c" "cur_active_terminal ?k = ?c" "pid_array ?k = pid_array k"
    "terminals_ok ?k = terminals_ok k" "tables_linked ?k = tables_linked k" "paging_on ?k = paging_on k"
    using assms(2) by (simp_all add: upd_terminal_def tables_linked_def paging_on_def)
      (auto simp: terminals_ok_def screen_ok_def)
  have own: "active (terminal ?k ?c) = 0" using assms(2) by (simp add: upd_terminal_def FD_OCCUP_def)
  have other: "terminal ?k t = terminal k t" "term_pcb ?k t = term_pcb k t" "saved_ok ?k t e = saved_ok k t e" if "t \<noteq> ?c" for t e
    using that assms(2) by (simp_all add: upd_terminal_def term_pcb_def saved_ok_def)
  have "active (terminal ?k t) = 0 \<or> active (terminal ?k t) = 1" if "t < 3" for t
    using startable_facts(8) [OF assms(1) that] own other(1) [of t] by (cases "t = ?c") auto
  moreover have "?c = 0 \<or> active (terminal ?k 0) = 1" using startable_facts(7) [OF assms(1)] other(1) [of 0] by (cases "?c = 0") auto
  moreover have "?c < 3" using startable_facts(1) [OF assms(1)] by (simp add: terminals_ok_def)
  moreover have "saved_ok ?k t (p_esp (pcbs k (term_pcb ?k t))) \<and> pid_array k ! unat (apn (terminal ?k t)) \<noteq> 0 \<and>
      process_number (pcbs k (term_pcb ?k t)) = apn (terminal ?k t)"
    if "t < 3" "active (terminal ?k t) = 1" "t \<noteq> ?c" for t
    using startable_facts(9) [OF assms(1) that(1) _ that(3)] that(2) unfolding other [OF that(3)] by blast
  moreover have "t = t'" if "t < 3" "t' < 3" "t \<noteq> ?c" "t' \<noteq> ?c" "active (terminal ?k t) = 1" "active (terminal ?k t') = 1"
    "apn (terminal ?k t) = apn (terminal ?k t')" for t t'
    using startable_facts(10) [OF assms(1) that(1-4)] that(5-7) unfolding other [OF that(3)] other [OF that(4)] by blast
  ultimately show ?thesis unfolding startable_def fields using startable_facts(1-5) [OF assms(1)] own by blast
qed

lemma halt_machine:
  assumes "halt l u status k = Some (To_user entry esp k')" and "machine_ok k" and "cur_active_terminal k = cur_term k"
  shows "machine_ok k'"
proof -
  define c where "c = cur_active_terminal k"
  define p where "p = pcbs k (term_pcb k c)"
  have own: "unat (apn (terminal k c)) < 6" "process_number p = apn (terminal k c)"
    using assms(2) by (simp_all add: machine_ok_def sched_ok_esp saved_ok_def c_def p_def)
  have pcb: "get_pcb_ptr_process (scast (apn (terminal k c))) = term_pcb k c" using own(1) by (simp add: term_pcb_def casts_small)
  define k0 where "k0 = (cli k)\<lparr>pid_array := (pid_array k)[unat (apn (terminal k (cur_term k))) := 0]\<rparr>"
  obtain k1 x where k1: "close_all u (term_pcb k c) [0..<NUM_MAX_OPEN_FILES] k0 = Some k1"
    "execute_shell l (upd_terminal (cur_active_terminal k1) (active_update (\<lambda>_. ucast FD_OCCUP))
        (upd_terminal (cur_active_terminal k1) (apn_update (\<lambda>_. x)) k1)) = Some (To_user entry esp k')"
    using assms(1) own(2) pcb assms(3)
    by (auto simp: halt_def halt_with_def Let_def cli_def k0_def c_def p_def arr_set_def upd_terminal_def FREE_def return_to_parent_def
        split: bind_splits if_splits outcome.splits)
  have k0: "startable k0" "cur_active_terminal k0 = cur_term k0"
    unfolding k0_def using free_startable [OF assms(2,3)] assms(3) by (simp_all add: cli_def)
  note kept = closed_keeps [OF k1(1)]
  have "startable k1" by (rule startable_keeps [OF kept k0(1)])
  moreover have "cur_active_terminal k1 = cur_term k1"
    using kept k0 by (simp add: keeps_def startable_def books_kept_def)
  ultimately have "startable (upd_terminal (cur_active_terminal k1) (active_update (\<lambda>_. ucast FD_OCCUP))
        (upd_terminal (cur_active_terminal k1) (apn_update (\<lambda>_. x)) k1))"
    by (rule ended_startable)
  from execute_shell_machine [OF this k1(2)] show ?thesis by auto
qed

section \<open>The system calls\<close>

lemma jump_table_machine:
  assumes "system_call_jump_table env eax ebx ecx edx k = Some out" and "machine_ok k"
  shows "(\<exists>r k'. out = Returns r k' \<and> keeps k k') \<or> (\<exists>r k'. out = Resumes r k') \<or>
    (\<exists>entry esp k'. out = To_user entry esp k' \<and> (cur_active_terminal k = cur_term k \<longrightarrow> machine_ok k'))"
proof -
  have ret: "\<exists>r k'. out = Returns r k' \<and> keeps k k'" if "map_option returning f = Some out" "\<And>r k'. f = Some (r, k') \<Longrightarrow> keeps k k'" for f
    using that by (auto simp: returning_def)
  have halts: "\<exists>entry esp k'. out = To_user entry esp k' \<and> (cur_active_terminal k = cur_term k \<longrightarrow> machine_ok k')"
    if halted: "halt l u s k0 = Some out" "\<nexists>r k'. out = Resumes r k'" "k0 = k \<or> k0 = cli k" for l u s k0
  proof -
    have k0: "machine_ok k0" "cur_active_terminal k0 = cur_active_terminal k" "cur_term k0 = cur_term k"
      using halted(3) assms(2) keeps_machine [OF keeps_cli(1)] by auto
    obtain entry esp k' where "out = To_user entry esp k'"
      using halted(1,2) halt_no_return by (cases out) auto
    then show ?thesis using halt_machine [of l u s k0 entry esp k'] halted(1) k0 by auto
  qed
  show ?thesis
  proof (cases "eax = 1 \<or> eax = 2")
    case False
    then show ?thesis
      using assms(1) unfolding system_call_jump_table_def
      by (auto simp: returning_def split: if_splits
          dest: sys_read_keeps sys_write_keeps sys_open_keeps sys_close_keeps getargs_keeps)
        (metis vidmap_keeps prod.collapse)
  next
    case True
    then show ?thesis
    proof
      assume "eax = 1"
      then have "halt (s_shell_locals env) (s_uninit env) (ucast ebx) k = Some out"
        using assms(1) by (simp add: system_call_jump_table_def)
      then show ?thesis using halts by blast
    next
      assume "eax = 2"
      then have "execute_with (halt (s_shell_locals env) (s_uninit env) (ucast (l_eax (s_locals env)))) (s_locals env) (vptr ebx) k = Some out"
        using assms(1) by (simp add: system_call_jump_table_def execute_def)
      from execute_with_cases [OF this halt_no_return] show ?thesis
      proof (elim disjE)
        assume "starts k out"
        then show ?thesis using starts_to_user start_machine machine_startable [OF assms(2)] by blast
      qed (use halts in blast)+
    qed
  qed
qed

lemma system_call_machine:
  assumes "system_call_handler env eax ebx ecx edx k = Some out" and "machine_ok k"
  shows "(\<exists>r k'. out = Returns r k' \<and> machine_ok k') \<or> (\<exists>r k'. out = Resumes r k') \<or>
    (\<exists>entry esp k'. out = To_user entry esp k' \<and> (cur_active_terminal k = cur_term k \<longrightarrow> machine_ok k'))"
proof (cases "eax <s 1 \<or> 8 <s eax")
  case True
  then have "out = Returns (- 1) (sti (cli k))" using assms(1) by (cases "eax <s 1") (simp_all add: system_call_handler_def Let_def)
  then show ?thesis using keeps_machine [OF keeps_trans [OF keeps_cli] assms(2)] by blast
next
  case False
  define k0 where "k0 = sti (cli k)"
  have k0: "machine_ok k0" "cur_active_terminal k0 = cur_active_terminal k" "cur_term k0 = cur_term k"
    unfolding k0_def using keeps_machine [OF keeps_trans [OF keeps_cli] assms(2)] by (simp_all add: sti_def)
  obtain out' where out': "system_call_jump_table env eax ebx ecx edx k0 = Some out'"
    "out = (case out' of Returns r k \<Rightarrow> Returns r (sti (cli k)) | To_user entry esp k \<Rightarrow> out' | Resumes r k \<Rightarrow> out')"
    using assms(1) False unfolding system_call_handler_def Let_def k0_def by auto
  have "machine_ok (sti (cli k'))" if "keeps k0 k'" for k'
    using keeps_machine [OF keeps_trans [OF that keeps_trans [OF keeps_cli]] k0(1)] .
  then show ?thesis using jump_table_machine [OF out'(1) k0(1)] out'(2) k0(2,3) by (auto split: outcome.splits)
qed

section \<open>The keyboard\<close>

text \<open>The first use of a terminal: the interrupted program waits, and a shell is started.\<close>

lemma first_use_machine:
  assumes "first_use l k out" and "machine_ok k"
    and "in_kernel_stack (ucast (apn (terminal k (cur_active_terminal k)))) (r_esp k)"
  shows "(\<exists>r k'. out = Returns r k' \<and> machine_ok k') \<or> (\<exists>entry esp k'. out = To_user entry esp k' \<and> machine_ok k')"
proof -
  obtain t k0 k1 where k0: "keeps k k0" "r_esp k0 = r_esp k" "t < 3" "t \<noteq> cur_term k0" "active (terminal k0 t) \<noteq> 1"
    and k1: "switch_to_new t k0 = Some k1" "Option.bind (execute_shell l k1) (\<lambda>out. case out of
       Returns r k \<Rightarrow> finish_key 0 k | To_user entry esp k \<Rightarrow> Some out | Resumes r k \<Rightarrow> Some out) = Some out"
    using assms(1) unfolding first_use_def by blast
  define c where "c = cur_active_terminal k0"
  have m0: "machine_ok k0" by (rule keeps_machine [OF k0(1) assms(2)])
  note t0 = machine_terminals [OF m0]
  have c: "c < 3" "active (terminal k0 c) = 1" "saved_ok k0 c (esp0 (tss k0))"
    using m0 by (simp_all add: machine_ok_def sched_ok_esp c_def)
  have same: "c = cur_active_terminal k" "apn (terminal k0 c) = apn (terminal k c)"
    using k0(1) machine_terminals [OF assms(2)] by (simp_all add: keeps_def books_kept_def c_def)
  have pcb: "get_pcb_ptr_process (scast (apn (terminal k0 c))) = term_pcb k0 c"
    using c(3) by (simp add: term_pcb_def saved_ok_def casts_small)
  define k2 where "k2 = upd_pcb (term_pcb k0 c) (\<lambda>p. p\<lparr>p_ebp := r_ebp k0, p_esp := r_esp k0\<rparr>) k0"
  have k1': "cur_term k1 = t" "terminals_ok k1" "books_kept k2 k1"
    using switch_to_new_result [of k0 t] t0 k0(3,4) k1(1) pcb unfolding c_def [symmetric] k2_def by auto
  have pcbs2: "p_esp (pcbs k2 q) = (if q = term_pcb k0 c then r_esp k0 else p_esp (pcbs k0 q))" "term_ptr (pcbs k2 q) = term_ptr (pcbs k0 q)"
    "process_number (pcbs k2 q) = process_number (pcbs k0 q)" for q
    by (simp_all add: k2_def upd_pcb_def)
  have fields: "terminal k2 = terminal k0" "cur_active_terminal k2 = c" "tss k2 = tss k0" "pid_array k2 = pid_array k0"
    "terminals_ok k2 = terminals_ok k0" "tables_linked k2 = tables_linked k0" "paging_on k2 = paging_on k0"
    "user_mapped k2 = user_mapped k0" "user_frame k2 = user_frame k0" "term_pcb k2 = term_pcb k0"
    by (simp_all add: k2_def upd_pcb_def c_def terminals_ok_def screen_ok_def tables_linked_def paging_on_def user_mapped_def
        user_frame_def term_pcb_def fun_eq_iff)
  have saved: "saved_ok k2 u e = saved_ok k0 u e" for u e by (simp add: saved_ok_def fields pcbs2)
  have stack: "saved_ok k0 c (r_esp k0)" using c(3) assms(3) k0(2) same by (simp add: saved_ok_def)
  have wait: "saved_ok k2 u (p_esp (pcbs k2 (term_pcb k0 u)))" if "u < 3" "active (terminal k0 u) = 1" for u
  proof (cases "u = c")
    case True
    then show ?thesis using stack by (simp add: saved pcbs2)
  next
    case False
    then have "saved_ok k0 u (p_esp (pcbs k0 (term_pcb k0 u)))" "term_pcb k0 u \<noteq> term_pcb k0 c"
      using machine_waiting [OF m0 that] by (simp_all add: c_def)
    then show ?thesis by (simp add: saved pcbs2)
  qed
  have m2: "machine_ok k2"
    using m0 wait unfolding machine_ok_def sched_ok_esp fields saved pcbs2 c_def [symmetric] by simp
  have m1: "machine_ok k1" by (rule machine_cong [OF k1'(3,2) m2])
  have "startable k1"
  proof -
    note b = k1'(3) [unfolded books_kept_def]
    have same1: "active (terminal k1 u) = active (terminal k0 u)" "apn (terminal k1 u) = apn (terminal k0 u)" for u
      using b fields(1) by simp_all
    have pcb1: "term_pcb k1 = term_pcb k0" by (simp add: term_pcb_def fun_eq_iff same1)
    have saved1: "saved_ok k1 u e = saved_ok k2 u e" for u e using b by (simp add: saved_ok_def pcb1 fields same1)
    have w1: "saved_ok k1 u (p_esp (pcbs k1 (term_pcb k1 u)))" if "u < 3" "active (terminal k1 u) = 1" for u
      using wait [OF that(1)] that(2) b unfolding saved1 pcb1 same1 by simp
    have "active (terminal k1 t) = 0" using m0 k0(3,5) by (auto simp: machine_ok_def same1)
    then show ?thesis using m1 w1 k1'(1) unfolding startable_def machine_ok_def sched_ok_esp by simp
  qed
  moreover obtain out1 where out1: "execute_shell l k1 = Some out1" using k1(2) by (auto split: bind_splits)
  ultimately consider r k' where "execute_shell l k1 = Some (Returns r k')" "keeps k1 k'"
    | entry esp k' where "execute_shell l k1 = Some (To_user entry esp k')" "machine_ok k'"
    using execute_shell_machine by blast
  then show ?thesis
  proof cases
    case (1 r k')
    then show ?thesis using k1(2) finish_key_keeps [of 0 k' out] keeps_machine [OF keeps_trans [OF 1(2)] m1] by auto
  next
    case (2 entry esp k')
    then show ?thesis using k1(2) by auto
  qed
qed

lemma keyboard_machine:
  assumes "keyboard_interrupt_handler l k = Some out" and "machine_ok k"
    and "in_kernel_stack (ucast (apn (terminal k (cur_active_terminal k)))) (r_esp k)"
  shows "(\<exists>r k'. out = Returns r k' \<and> machine_ok k') \<or> (\<exists>entry esp k'. out = To_user entry esp k' \<and> machine_ok k')"
proof -
  have t: "terminals_ok k" "tables_linked k" "paging_on k" "cur_active_terminal k < 3" using machine_terminals [OF assms(2)] by blast+
  show ?thesis
    using keyboard_interrupt_cases [OF assms(1) t]
  proof
    assume "\<exists>k'. out = Returns 0 k' \<and> keeps_books k k'"
    then show ?thesis using machine_cong [OF _ _ assms(2)] t by (auto simp: keeps_books_def)
  next
    assume "first_use l k out"
    from first_use_machine [OF this assms(2,3)] show ?thesis .
  qed
qed

section \<open>The invariant\<close>

lemma step_machine:
  assumes "machine_step k k'" and "machine_ok k"
  shows "machine_ok k'"
  using assms
proof (induction rule: machine_step.induct)
  case (program k m esp ebp)
  then show ?case
    using keeps_machine [OF keeps_trans [OF keeps_variables(3) keeps_trans [OF keeps_variables(5) keeps_variables(6)]]] by blast
next
  case (timer d k ebp)
  then show ?case using tick_machine by blast
next
  case (clock k d ebp)
  then show ?case using keeps_machine [OF keeps_trans [OF from_user_keeps rtc_interrupt_keeps]] by blast
next
  case (keyboard d l dev ebp k r k' entry esp)
  let ?k = "(from_user d ebp k)\<lparr>device := dev\<rparr>"
  have "machine_ok ?k" using keeps_machine [OF keeps_trans [OF from_user_keeps keeps_variables(4)] keyboard.prems] .
  moreover have "in_kernel_stack (ucast (apn (terminal ?k (cur_active_terminal ?k)))) (r_esp ?k)"
    using machine_stack [OF keyboard.prems keyboard.hyps(1)] by simp
  ultimately show ?case using keyboard.hyps(2) keyboard_machine [of l ?k] by auto
next
  case (call env eax ebx ecx edx d ebp k r k')
  then show ?case using system_call_machine [OF call.hyps keeps_machine [OF from_user_keeps call.prems]] by auto
next
  case (start env eax ebx ecx edx d ebp k entry esp k')
  then show ?case using system_call_machine [OF start.hyps(1) keeps_machine [OF from_user_keeps start.prems]] by auto
qed

text \<open>
  Why the start of a program is a step only on the terminal that is shown: a program of another
  terminal that starts one gives its process to the terminal that is shown, and the scheduled
  terminal is left with a process that has neither the kernel stack nor the page.
\<close>

lemma kernel_stack_top_inj: "unat a < 6 \<Longrightarrow> unat b < 6 \<Longrightarrow> kernel_stack_top a = kernel_stack_top b \<Longrightarrow> a = b"
proof -
  assume *: "unat a < 6" "unat b < 6" "kernel_stack_top a = kernel_stack_top b"
  have "get_pcb_ptr_process x = kernel_stack_top x - 0x1FFC" for x
    by (simp add: kernel_stack_top_def get_pcb_ptr_process_def)
  then show "a = b" using get_pcb_process_inj [of a b] * by simp
qed

lemma background_start_breaks:
  assumes "machine_ok k" and "cur_active_terminal k \<noteq> cur_term k" and "active (terminal k (cur_term k)) = 1" and "starts k out"
  shows "\<exists>entry esp k'. out = To_user entry esp k' \<and> cur_active_terminal k' = cur_active_terminal k \<and>
    apn (terminal k' (cur_active_terminal k)) = apn (terminal k (cur_active_terminal k)) \<and>
    apn (terminal k' (cur_term k)) \<noteq> apn (terminal k (cur_term k)) \<and> \<not> machine_ok k'"
proof -
  obtain k1 ino e j arg where k1: "keeps k k1" "j < 6" "pid_array k1 ! j = 0"
    "start_process ino e (word_of_nat j) arg (k1\<lparr>pid_array := (pid_array k1)[j := 1]\<rparr>) = Some out"
    using assms(4) unfolding starts_def by blast
  obtain k' where out: "out = To_user e USER_STACK k'" and e: "entered j (k1\<lparr>pid_array := (pid_array k1)[j := 1]\<rparr>) k'"
    using start_process_entered [OF k1(4,2)] by blast
  define n :: u8 where "n = word_of_nat j"
  have n: "unat n = j" "(word_of_nat j :: u32) = ucast n" using k1(2) byte_unat [of j] byte_cast [of j] by (simp_all add: n_def)
  let ?c = "cur_active_terminal k"
  have m1: "machine_ok k1" by (rule keeps_machine [OF k1(1) assms(1)])
  have same: "cur_active_terminal k1 = ?c" "cur_term k1 = cur_term k" "active (terminal k1 t) = active (terminal k t)"
    "apn (terminal k1 t) = apn (terminal k t)" "pid_array k1 = pid_array k" for t
    using k1(1) machine_terminals [OF assms(1)] by (simp_all add: keeps_def books_kept_def)
  have k': "cur_active_terminal k' = ?c" "apn (terminal k' ?c) = apn (terminal k ?c)" "apn (terminal k' (cur_term k)) = n"
    "esp0 (tss k') = kernel_stack_top (ucast n)"
    using e assms(2,3) unfolding entered_def Let_def n(2) n_def [symmetric] by (simp_all add: same)
  have taken: "unat (apn (terminal k t)) \<noteq> j" if "t < 3" "active (terminal k t) = 1" for t
    using assms(1) that k1(3) by (auto simp: machine_ok_def same)
  have c: "?c < 3" "active (terminal k ?c) = 1" "unat (apn (terminal k ?c)) < 6" "cur_term k < 3"
    using assms(1) by (simp_all add: machine_ok_def sched_ok_esp saved_ok_def terminals_ok_def)
  have "\<not> machine_ok k'"
  proof
    assume "machine_ok k'"
    then have "kernel_stack_top (ucast n) = kernel_stack_top (ucast (apn (terminal k ?c)))"
      using k' by (simp add: machine_ok_def Let_def)
    then have "(ucast n :: u32) = ucast (apn (terminal k ?c))"
      using kernel_stack_top_inj c(3) n(1) k1(2) by (simp add: unat_ucast_u8)
    then have "unat (ucast n :: u32) = unat (ucast (apn (terminal k ?c)) :: u32)" by simp
    then show False using taken [OF c(1,2)] n(1) by (simp only: unat_ucast_u8)
  qed
  then show ?thesis using out k'(1-3) taken [OF c(4) assms(3)] n(1) by auto
qed

text \<open>A machine with three programs, the first one in user mode.\<close>

definition three_running :: kernel where
  "three_running = three_programs\<lparr>tss := (tss three_programs)\<lparr>esp0 := kernel_stack_top 0\<rparr>, pid_array := [1, 1, 1, 0, 0, 0],
     pcbs := (\<lambda>p. (pcbs three_programs p)\<lparr>process_number := term_ptr (pcbs three_programs p)\<rparr>)\<rparr>"

lemma three_running_ok: "machine_ok three_running" "cur_active_terminal three_running = 0" "cur_term three_running = 0"
proof -
  have f: "terminal three_running = terminal three_programs" "cur_active_terminal three_running = 0" "cur_term three_running = 0"
    "terminals_ok three_running = terminals_ok three_programs" "tables_linked three_running = tables_linked three_programs"
    "paging_on three_running = paging_on three_programs" "term_pcb three_running = term_pcb three_programs"
    "saved_ok three_running = saved_ok three_programs" "p_esp (pcbs three_running p) = p_esp (pcbs three_programs p)"
    "esp0 (tss three_running) = kernel_stack_top 0" "pid_array three_running = [1, 1, 1, 0, 0, 0]"
    "process_number (pcbs three_running p) = term_ptr (pcbs three_programs p)" for p
    using three_programs_ok(3) three_terminals_facts(5)
    by (simp_all add: three_running_def terminals_ok_def screen_ok_def tables_linked_def paging_on_def term_pcb_def saved_ok_def
        fun_eq_iff) (simp add: three_programs_def)
  have apn: "apn (terminal three_programs t) = t" for t by (simp add: three_programs_def three_terminals_facts)
  have ok: "sched_ok (three_programs\<lparr>r_esp := r_esp three_programs\<rparr>)" using three_programs_ok(1) by simp
  note parts = ok [unfolded sched_ok_esp three_programs_ok(3)]
  have saved: "saved_ok three_programs t e" if "t < 3" "in_kernel_stack (ucast t) e" for t e
  proof -
    have "\<exists>e'. saved_ok three_programs t e'" using parts three_programs_ok(2) that(1) by (cases "t = 0") blast+
    then show ?thesis using that(2) by (auto simp: saved_ok_def apn)
  qed
  have "sched_ok (three_running\<lparr>r_esp := esp0 (tss three_running)\<rparr>)"
    using parts saved [of 0 "kernel_stack_top 0"] esp0_in_stack [of 0] unfolding sched_ok_esp f by simp
  moreover have "process_number (pcbs three_running (term_pcb three_programs t)) = apn (terminal three_programs t)" if "t < 3" for t
  proof -
    have "\<exists>e'. saved_ok three_programs t e'" using parts three_programs_ok(2) that(1) by (cases "t = 0") blast+
    then show ?thesis by (auto simp: f saved_ok_def apn)
  qed
  moreover have "[1, 1, 1, 0, 0, 0 :: u8] ! unat t \<noteq> 0" if "t < 3" for t :: u8 using term_cases [OF that] by auto
  moreover have "user_mapped three_running" "user_frame three_running = process_frame 0"
    using sample_mapped
    by (simp_all add: three_running_def three_programs_def three_terminals_def shell_kernel_def user_mapped_def user_frame_def
        paging_on_def process_frame_def)
  ultimately show "machine_ok three_running"
    unfolding machine_ok_def f three_programs_ok(2) apn Let_def by simp
  show "cur_active_terminal three_running = 0" "cur_term three_running = 0" by (rule f)+
qed

section \<open>Properties\<close>

text \<open>
  C11. The bookkeeping of the scheduler is kept by the steps of the machine. Whatever the programs
  write into memory, whichever system calls they make, with any numbers and arguments, and
  however the timer, the clock and the keyboard interrupt them, in any order: the scheduled
  terminal has a program, whose page is mapped and whose kernel stack the processor loads on the
  next interrupt, so that the kernel finds its control block; every other program has a stack
  pointer inside its own kernel stack saved in its control block; no two terminals share a
  process, and their process numbers are taken. A program may be started, by \<^verbatim>\<open>execute\<close> or by the
  first use of a terminal, and the shell of a terminal may end and start again. Two steps are
  left out, for which this does not hold: a program is started, or a shell again, while the
  terminal of the caller is scheduled but not shown (lemma \<open>background_start_breaks\<close>), and a program
  ends that another one has started (\<^verbatim>\<open>halt\<close> then gives its parent a lower kernel stack, as in
  theory \<open>Process\<close>). Interrupts come before or after a system call and not in the middle of it; an
  interrupt while a call waits is the one before it, at the depth of the call.
\<close>

theorem scheduler_invariant:
  assumes "machine_ok k" and "machine_step\<^sup>*\<^sup>* k k'"
  shows "machine_ok k' \<and> (\<forall>d. unat d \<le> 0x1FFC \<longrightarrow>
    get_pcb_ptr (from_user d ebp k') = term_pcb k' (cur_active_terminal k'))"
proof -
  have ok: "machine_ok k'" using assms(2,1) by (induction rule: rtranclp_induct) (auto intro: step_machine)
  have "get_pcb_ptr (from_user d ebp k') = term_pcb k' (cur_active_terminal k')" if "unat d \<le> 0x1FFC" for d
  proof -
    have "unat (ucast (apn (terminal k' (cur_active_terminal k'))) :: u32) < 100"
      using ok by (simp add: machine_ok_def sched_ok_esp saved_ok_def unat_ucast_u8)
    then show ?thesis using get_pcb_ptr_stack machine_stack [OF ok that] unfolding term_pcb_def by simp
  qed
  then show ?thesis using ok by blast
qed

text \<open>A program writes memory, the timer interrupts it, and the next one makes a system call that is refused.\<close>

lemma scheduler_invariant_witness:
  "\<forall>env m. \<exists>k'. system_call_handler env 9 0 0 0
     (from_user 64 0 (PIT_scheduling (from_user 256 0 (three_running\<lparr>mem := m, r_esp := 0, r_ebp := 0\<rparr>)))) =
     Some (Returns (- 1) k') \<and> machine_ok k'"
proof (intro allI)
  fix env m
  let ?k1 = "three_running\<lparr>mem := m, r_esp := 0, r_ebp := 0\<rparr>"
  let ?k2 = "PIT_scheduling (from_user 256 0 ?k1)"
  let ?k3 = "(from_user 64 0 ?k2)\<lparr>iflag := True\<rparr>"
  have "(9 :: u32) = 0 \<or> 8 <s (9 :: u32) \<or> 9 <s (0 :: u32)" by code_simp
  then have call: "system_call_handler env 9 0 0 0 (from_user 64 0 ?k2) = Some (Returns (- 1) ?k3)" by (rule system_call_refused)
  have "machine_step three_running ?k1" by (rule machine_step.program)
  moreover have "machine_step ?k1 ?k2" by (rule machine_step.timer) simp
  moreover have "machine_step ?k2 ?k3" by (rule machine_step.call [OF call])
  ultimately have "machine_step\<^sup>*\<^sup>* three_running ?k3" by (meson rtranclp.rtrancl_into_rtrancl rtranclp.rtrancl_refl)
  from scheduler_invariant [OF three_running_ok(1) this]
  show "\<exists>k'. system_call_handler env 9 0 0 0 (from_user 64 0 ?k2) = Some (Returns (- 1) k') \<and> machine_ok k'" using call by blast
qed

end
