(* ===== verification/Boot.thy ===== *)
theory Boot
  imports Idt Machine
begin

text \<open>
  The start of the kernel: \<^verbatim>\<open>entry\<close> of \<^verbatim>\<open>student-distrib/kernel.c\<close> with the structures of
  \<^verbatim>\<open>multiboot.h\<close> and the segment descriptors of \<^verbatim>\<open>x86_desc.h\<close>. The boot loader's structures are
  bytes of the memory and are read where the code reads them.
\<close>

unbundle bit_operations_syntax

section \<open>Definitions\<close>

subsection \<open>The boot loader's structures\<close>

definition MULTIBOOT_BOOTLOADER_MAGIC :: u32 where "MULTIBOOT_BOOTLOADER_MAGIC = 0x2BADB002"

definition CHECK_FLAG :: "u32 \<Rightarrow> nat \<Rightarrow> bool" where
  "CHECK_FLAG fs b \<longleftrightarrow> fs AND push_bit b 1 \<noteq> 0"

record elf_section_header_table_t =
  elf_num :: u32
  elf_size :: u32
  elf_addr :: u32
  elf_shndx :: u32

record multiboot_info_t =
  mb_flags :: u32
  mem_lower :: u32
  mem_upper :: u32
  boot_device :: u32
  cmdline :: u32
  mods_count :: u32
  mods_addr :: u32
  elf_sec :: elf_section_header_table_t
  mmap_length :: u32
  mmap_addr :: u32

record module_t =
  mod_start :: u32
  mod_end :: u32
  mod_string :: u32
  mod_reserved :: u32

record memory_map_t =
  mm_size :: u32
  base_addr_low :: u32
  base_addr_high :: u32
  length_low :: u32
  length_high :: u32
  mm_type :: u32

text \<open>The structure at an address; \<open>at\<close> is the four bytes at an offset.\<close>

definition multiboot_info_at :: "addr \<Rightarrow> kernel \<Rightarrow> multiboot_info_t" where
  "multiboot_info_at p k =
     (let at = (\<lambda>i. load32 (vmem k) (p + i)) in
      \<lparr>mb_flags = at 0, mem_lower = at 4, mem_upper = at 8, boot_device = at 12, cmdline = at 16,
       mods_count = at 20, mods_addr = at 24,
       elf_sec = \<lparr>elf_num = at 28, elf_size = at 32, elf_addr = at 36, elf_shndx = at 40\<rparr>,
       mmap_length = at 44, mmap_addr = at 48\<rparr>)"

definition module_at :: "addr \<Rightarrow> kernel \<Rightarrow> module_t" where
  "module_at p k =
     (let at = (\<lambda>i. load32 (vmem k) (p + i)) in
      \<lparr>mod_start = at 0, mod_end = at 4, mod_string = at 8, mod_reserved = at 12\<rparr>)"

definition memory_map_at :: "addr \<Rightarrow> kernel \<Rightarrow> memory_map_t" where
  "memory_map_at p k =
     (let at = (\<lambda>i. load32 (vmem k) (p + i)) in
      \<lparr>mm_size = at 0, base_addr_low = at 4, base_addr_high = at 8, length_low = at 12,
       length_high = at 16, mm_type = at 20\<rparr>)"

subsection \<open>What is shown of them\<close>

definition say :: "string \<Rightarrow> u32 list \<Rightarrow> kernel \<Rightarrow> kernel option" where
  "say format args k = map_option snd (printf (literal format) (\<lambda>i. args ! i) k)"

definition newline :: string where "newline = [CHR 0x0A]"

text \<open>The loop over the first bytes of a module, and the loop over the modules.\<close>

fun show_bytes :: "addr \<Rightarrow> nat list \<Rightarrow> kernel \<Rightarrow> kernel option" where
  "show_bytes md [] k = Some k"
| "show_bytes md (i # is) k = do {
     k \<leftarrow> say ''0x%x '' [scast (vmem k (mod_start (module_at md k) + word_of_nat i))] k;
     show_bytes md is k }"

definition show_module :: "u32 \<Rightarrow> addr \<Rightarrow> kernel \<Rightarrow> kernel option" where
  "show_module mod_count md k =
     (let k = k\<lparr>FILESYSLOC := mod_start (module_at md k)\<rparr> in do {
        k \<leftarrow> say (''Module %d loaded at address: 0x%#x'' @ newline) [mod_count, mod_start (module_at md k)] k;
        k \<leftarrow> say (''Module %d ends at address: 0x%#x'' @ newline) [mod_count, mod_end (module_at md k)] k;
        k \<leftarrow> say (''First few bytes of module:'' @ newline) [] k;
        k \<leftarrow> show_bytes md [0..<16] k;
        say newline [] k })"

partial_function (option) show_modules :: "addr \<Rightarrow> u32 \<Rightarrow> addr \<Rightarrow> kernel \<Rightarrow> kernel option" where
  "show_modules mbi mod_count md k =
     (if mod_count < mods_count (multiboot_info_at mbi k)
      then Option.bind (show_module mod_count md k) (show_modules mbi (mod_count + 1) (md + 16))
      else Some k)"

definition show_memory_map :: "addr \<Rightarrow> kernel \<Rightarrow> kernel option" where
  "show_memory_map mmap k =
     (let e = memory_map_at mmap k in
      say ('' size = 0x%x,     base_addr = 0x%#x%#x'' @ newline @ ''     type = 0x%x,  length    = 0x%#x%#x'' @ newline)
        [mm_size e, base_addr_high e, base_addr_low e, mm_type e, length_high e, length_low e] k)"

partial_function (option) show_memory_maps :: "addr \<Rightarrow> addr \<Rightarrow> kernel \<Rightarrow> kernel option" where
  "show_memory_maps mbi mmap k =
     (let info = multiboot_info_at mbi k in
      if mmap < mmap_addr info + mmap_length info
      then Option.bind (show_memory_map mmap k)
        (\<lambda>k. show_memory_maps mbi (mmap + mm_size (memory_map_at mmap k) + 4) k)
      else Some k)"

subsection \<open>Segment descriptors\<close>

record seg_desc_t =
  seg_lim_15_00 :: u16
  base_15_00 :: u16
  base_23_16 :: u8
  sd_type :: "4 word"
  sd_sys :: "1 word"
  sd_dpl :: "2 word"
  sd_present :: "1 word"
  seg_lim_19_16 :: "4 word"
  avail :: "1 word"
  sd_reserved :: "1 word"
  opsize :: "1 word"
  granularity :: "1 word"
  base_31_24 :: u8

definition KERNEL_TSS :: u16 where "KERNEL_TSS = 0x30"
definition KERNEL_LDT :: u16 where "KERNEL_LDT = 0x38"
definition TSS_SIZE :: u32 where "TSS_SIZE = 104"

text \<open>The sizes that \<^verbatim>\<open>x86_desc.S\<close> computes: 104 bytes and four descriptors, less one.\<close>

definition tss_size :: u32 where "tss_size = 103"
definition ldt_size :: u32 where "ldt_size = 31"

definition SET_LDT_PARAMS :: "u32 \<Rightarrow> u32 \<Rightarrow> seg_desc_t \<Rightarrow> seg_desc_t" where
  "SET_LDT_PARAMS a lim str = str
     \<lparr>base_31_24 := ucast (drop_bit 24 (a AND 0xFF000000)),
      base_23_16 := ucast (drop_bit 16 (a AND 0x00FF0000)),
      base_15_00 := ucast (a AND 0x0000FFFF),
      seg_lim_19_16 := ucast (drop_bit 16 (lim AND 0x000F0000)),
      seg_lim_15_00 := ucast (lim AND 0x0000FFFF)\<rparr>"

definition SET_TSS_PARAMS :: "u32 \<Rightarrow> u32 \<Rightarrow> seg_desc_t \<Rightarrow> seg_desc_t" where
  "SET_TSS_PARAMS a lim str = str
     \<lparr>base_31_24 := ucast (drop_bit 24 (a AND 0xFF000000)),
      base_23_16 := ucast (drop_bit 16 (a AND 0x00FF0000)),
      base_15_00 := ucast (a AND 0x0000FFFF),
      seg_lim_19_16 := ucast (drop_bit 16 (lim AND 0x000F0000)),
      seg_lim_15_00 := ucast (lim AND 0x0000FFFF)\<rparr>"

text \<open>The two local descriptors, from what is on the stack where they are.\<close>

definition the_ldt_desc :: "seg_desc_t \<Rightarrow> addr \<Rightarrow> seg_desc_t" where
  "the_ldt_desc uninit ldt =
     (let d = uninit\<lparr>granularity := 0, opsize := 1, sd_reserved := 0, avail := 0, sd_present := 1,
            sd_dpl := 0, sd_sys := 0, sd_type := 2\<rparr>
      in SET_LDT_PARAMS ldt ldt_size d)"

definition the_tss_desc :: "seg_desc_t \<Rightarrow> addr \<Rightarrow> seg_desc_t" where
  "the_tss_desc uninit tss_addr =
     (let d = uninit\<lparr>granularity := 0, opsize := 0, sd_reserved := 0, avail := 0,
            seg_lim_19_16 := ucast (TSS_SIZE AND 0x000F0000), sd_present := 1,
            sd_dpl := 0, sd_sys := 0, sd_type := 9, seg_lim_15_00 := ucast (TSS_SIZE AND 0x0000FFFF)\<rparr>
      in SET_TSS_PARAMS tss_addr tss_size d)"

text \<open>
  The descriptor tables and the registers that select from them; what the linker and the stack
  give: the addresses of the tables and of the handlers, and the uninitialised locals.
\<close>

record descriptors =
  ldt_desc_ptr :: seg_desc_t
  tss_desc_ptr :: seg_desc_t
  idt_table :: idt
  ldtr :: u16
  tr :: u16

record boot_env =
  b_ldt :: addr
  b_tss :: addr
  b_handlers :: "handler \<Rightarrow> addr"
  b_ldt_local :: seg_desc_t
  b_tss_local :: seg_desc_t
  b_idt :: idt
  b_locals :: exec_locals

definition load_descriptors :: "boot_env \<Rightarrow> descriptors" where
  "load_descriptors env =
     \<lparr>ldt_desc_ptr = the_ldt_desc (b_ldt_local env) (b_ldt env), tss_desc_ptr = the_tss_desc (b_tss_local env) (b_tss env),
      idt_table = init_idt (b_handlers env) (b_idt env), ldtr = KERNEL_LDT, tr = KERNEL_TSS\<rparr>"

definition set_tss :: "kernel \<Rightarrow> kernel" where
  "set_tss k = k\<lparr>tss := (tss k)\<lparr>ldt_segment_selector := KERNEL_LDT, ss0 := KERNEL_DS, esp0 := 0x800000\<rparr>\<rparr>"

subsection \<open>The entry point\<close>

definition init_devices :: "kernel \<Rightarrow> kernel" where
  "init_devices k =
     (let k = i8259_init k;
          k = sti k;
          k = init_keyboard k;
          k = init_rtc k;
          k = paging_init k
      in PIT_init k)"

text \<open>
  \<^verbatim>\<open>entry\<close> returns to \<^verbatim>\<open>boot.S\<close>, idles after \<^verbatim>\<open>init_terminal\<close> has come back, or never comes back
  because the first shell runs.
\<close>

datatype boot = Entry_returns kernel | Idles descriptors kernel | Runs descriptors outcome

definition start_kernel :: "boot_env \<Rightarrow> kernel \<Rightarrow> boot option" where
  "start_kernel env k =
     map_option (\<lambda>out. case out of Returns r k \<Rightarrow> Idles (load_descriptors env) k | _ \<Rightarrow> Runs (load_descriptors env) out)
       (init_terminal (b_locals env) (init_devices (set_tss k)))"

text \<open>The part of \<^verbatim>\<open>entry\<close> that shows what the boot loader has passed, up to the fourth flag.\<close>

definition show_boot_info :: "addr \<Rightarrow> kernel \<Rightarrow> kernel option" where
  "show_boot_info mbi k =
     (let info = multiboot_info_at mbi in do {
        k \<leftarrow> say (''flags = 0x%#x'' @ newline) [mb_flags (info k)] k;
        k \<leftarrow> (if CHECK_FLAG (mb_flags (info k)) 0
              then say (''mem_lower = %uKB, mem_upper = %uKB'' @ newline) [mem_lower (info k), mem_upper (info k)] k else Some k);
        k \<leftarrow> (if CHECK_FLAG (mb_flags (info k)) 1
              then say (''boot_device = 0x%#x'' @ newline) [boot_device (info k)] k else Some k);
        k \<leftarrow> (if CHECK_FLAG (mb_flags (info k)) 2
              then say (''cmdline = %s'' @ newline) [cmdline (info k)] k else Some k);
        if CHECK_FLAG (mb_flags (info k)) 3 then show_modules mbi 0 (mods_addr (info k)) k else Some k })"

definition show_tables :: "addr \<Rightarrow> kernel \<Rightarrow> kernel option" where
  "show_tables mbi k =
     (let info = multiboot_info_at mbi in do {
        k \<leftarrow> (if CHECK_FLAG (mb_flags (info k)) 5
              then say (''elf_sec: num = %u, size = 0x%#x,'' @ '' addr = 0x%#x, shndx = 0x%#x'' @ newline)
                [elf_num (elf_sec (info k)), elf_size (elf_sec (info k)), elf_addr (elf_sec (info k)), elf_shndx (elf_sec (info k))] k
              else Some k);
        if CHECK_FLAG (mb_flags (info k)) 6
        then do {
          k \<leftarrow> say (''mmap_addr = 0x%#x, mmap_length = 0x%x'' @ newline) [mmap_addr (info k), mmap_length (info k)] k;
          show_memory_maps mbi (mmap_addr (info k)) k }
        else Some k })"

definition entry :: "boot_env \<Rightarrow> u32 \<Rightarrow> addr \<Rightarrow> kernel \<Rightarrow> boot option" where
  "entry env magic mbi k =
     (let k = clear k in
      if magic \<noteq> MULTIBOOT_BOOTLOADER_MAGIC
      then map_option Entry_returns (say (''Invalid magic number: 0x%#x'' @ newline) [magic] k)
      else do {
        k \<leftarrow> show_boot_info mbi k;
        if CHECK_FLAG (mb_flags (multiboot_info_at mbi k)) 4 \<and> CHECK_FLAG (mb_flags (multiboot_info_at mbi k)) 5
        then map_option Entry_returns (say (''Both bits 4 and 5 are set.'' @ newline) [] k)
        else do {
          k \<leftarrow> show_tables mbi k;
          start_kernel env k } })"

section \<open>Formats\<close>

text \<open>The pieces of a format without strings.\<close>

fun parse_format :: "u8 list \<Rightarrow> piece list option" where
  "parse_format [] = Some []"
| "parse_format (c # xs) =
     (if c = 0 then None
      else if c \<noteq> 37 then map_option (Cons (Plain c)) (parse_format xs)
      else case xs of [] \<Rightarrow> None
        | d # ys \<Rightarrow> if d = 0x78 then map_option (Cons (Hex False)) (parse_format ys)
            else if d = 0x75 then map_option (Cons Unsigned) (parse_format ys)
            else if d = 0x64 then map_option (Cons Signed) (parse_format ys)
            else if d = 0x73 then map_option (Cons Str) (parse_format ys)
            else if d = 0x23 then (case ys of [] \<Rightarrow> None
              | e # zs \<Rightarrow> if e = 0x78 then map_option (Cons (Hex True)) (parse_format zs) else None)
            else None)"

lemma parse_format_chars: "parse_format xs = Some ps \<Longrightarrow> format_chars ps = xs \<and> list_all plain_ok ps"
proof (induction xs arbitrary: ps rule: parse_format.induct)
  case 1
  then show ?case by (simp add: format_chars_def)
next
  case (2 c xs)
  then show ?case
    by (auto simp: format_chars_def ascii_def split: if_splits list.splits)
qed

definition plain_format :: "string \<Rightarrow> bool" where
  "plain_format s \<longleftrightarrow> length s < 256 \<and>
     (case parse_format (ascii s) of Some ps \<Rightarrow> list_all (\<lambda>p. p \<noteq> Str) ps | None \<Rightarrow> False)"

lemma no_strings: "list_all (\<lambda>p. p \<noteq> Str) ps \<Longrightarrow> strings_shown step ps args strs esp k"
  by (induction ps arbitrary: esp) auto

lemma plain_format_parts: "plain_format s \<Longrightarrow> length s < 4294967296 \<and> (\<exists>ps. parse_format (ascii s) = Some ps \<and> list_all (\<lambda>p. p \<noteq> Str) ps)"
  by (auto simp: plain_format_def split: option.splits)

lemma no_nul: "list_all plain_ok ps \<Longrightarrow> 0 \<notin> set (format_chars ps)"
proof (induction ps)
  case Nil
  then show ?case by (simp add: format_chars_def)
next
  case (Cons p ps)
  have "0 \<notin> set (piece_chars p)" using Cons.prems by (cases p) (auto simp: ascii_def)
  then show ?case using Cons by (simp add: format_chars_def)
qed

text \<open>Saying something is a step of the screen.\<close>

lemma say_result:
  assumes "plain_format format" and "screen_ok k"
  shows "\<exists>k'. say format args k = Some k' \<and> screen_ok k' \<and> screen_step k k'"
proof -
  obtain ps where ps: "parse_format (ascii format) = Some ps" "list_all (\<lambda>p. p \<noteq> Str) ps" "length format < 4294967296"
    using plain_format_parts [OF assms(1)] by blast
  note chars = parse_format_chars [OF ps(1)]
  have "shown screen_step (literal format) k (format_chars ps)"
    using chars no_nul [of ps] ps(3) by (auto intro!: shown_literal)
  then show ?thesis
    using fg.printf [OF assms(2), of "literal format" ps "\<lambda>i. args ! i" "\<lambda>_. []"] chars no_strings [OF ps(2)]
    by (auto simp: say_def printf_def)
qed

lemma say_string_result:
  assumes "screen_ok k" and "shown screen_step (vptr p) k xs"
  shows "\<exists>k'. say (''cmdline = %s'' @ newline) [p] k = Some k' \<and> screen_ok k' \<and> screen_step k k'"
proof -
  define ps where "ps = map Plain (ascii ''cmdline = '') @ [Str, Plain 0x0A]"
  have parse: "parse_format (ascii (''cmdline = %s'' @ newline)) = Some ps" unfolding ps_def by code_simp
  note chars = parse_format_chars [OF parse]
  have len: "length (''cmdline = %s'' @ newline) < 4294967296" by (simp add: newline_def)
  have "shown screen_step (literal (''cmdline = %s'' @ newline)) k (format_chars ps)"
    using chars no_nul [of ps] len by (auto intro!: shown_literal)
  moreover have "strings_shown screen_step ps (\<lambda>i. [p] ! i) (\<lambda>_. xs) 0 k"
    using assms(2) by (simp add: ps_def ascii_def)
  ultimately show ?thesis
    using fg.printf [OF assms(1), of "literal (''cmdline = %s'' @ newline)" ps "\<lambda>i. [p] ! i" "\<lambda>_. xs"] chars
    unfolding say_def printf_def by auto
qed

section \<open>Reading the structures while showing them\<close>

definition off_screen :: "addr \<Rightarrow> nat \<Rightarrow> bool" where
  "off_screen p n \<longleftrightarrow> (\<forall>i<n. \<not> in_range VIDEO 4000 (p + word_of_nat i))"

text \<open>Showing the boot information changes the screen and the location of the file system.\<close>

definition boot_step :: "kernel \<Rightarrow> kernel \<Rightarrow> bool" where
  "boot_step k k' \<longleftrightarrow> screen_ok k' \<and> (\<exists>fs. screen_step (k\<lparr>FILESYSLOC := fs\<rparr>) k')"

definition unpaged :: "kernel \<Rightarrow> bool" where
  "unpaged k \<longleftrightarrow> \<not> bit (cr0 k) 31"

lemma boot_step_screen: "screen_step k k' \<Longrightarrow> screen_ok k' \<Longrightarrow> boot_step k k' \<and> FILESYSLOC k' = FILESYSLOC k"
  unfolding boot_step_def by (rule conjI, rule conjI, assumption, rule exI [of _ "FILESYSLOC k"]) (auto simp: screen_step_def)

lemma boot_step_trans: "boot_step k k1 \<Longrightarrow> boot_step k1 k2 \<Longrightarrow> boot_step k k2"
proof -
  assume steps: "boot_step k k1" "boot_step k1 k2"
  then obtain fs fs2 where fs: "screen_step (k\<lparr>FILESYSLOC := fs\<rparr>) k1" "screen_step (k1\<lparr>FILESYSLOC := fs2\<rparr>) k2" "screen_ok k2"
    by (auto simp: boot_step_def)
  have "screen_step (k\<lparr>FILESYSLOC := fs2\<rparr>) (k1\<lparr>FILESYSLOC := fs2\<rparr>)"
    using fs(1) unfolding screen_step_def
    by (elim exE conjE) (rule_tac x = m in exI, rule_tac x = log in exI, rule_tac x = x in exI, rule_tac x = y in exI, simp)
  then show ?thesis using fs screen_step_trans unfolding boot_step_def by blast
qed

lemma boot_step_memory:
  assumes "boot_step k k'"
  shows "unpaged k' = unpaged k" "\<not> in_range VIDEO 4000 a \<Longrightarrow> mem k' a = mem k a"
  using assms by (auto simp: boot_step_def screen_step_def unpaged_def)

lemma unpaged_vmem: "unpaged k \<Longrightarrow> vmem k = mem k" "unpaged k \<Longrightarrow> translate k v = Some (v, True)"
  by (simp_all add: unpaged_def vmem_def translate_def fun_eq_iff)

lemma boot_step_load32:
  assumes "boot_step k k'" and "unpaged k" and "off_screen p n" and "i + 4 \<le> n"
  shows "load32 (vmem k') (p + word_of_nat i) = load32 (vmem k) (p + word_of_nat i)"
proof -
  have "vmem k' (p + word_of_nat (i + j)) = vmem k (p + word_of_nat (i + j))" if "j < 4" for j
  proof -
    have "i + j < n" using that assms(4) by simp
    then have "\<not> in_range VIDEO 4000 (p + word_of_nat (i + j))" using assms(3) unfolding off_screen_def by blast
    then show ?thesis using boot_step_memory [OF assms(1)] assms(2) by (simp only: unpaged_vmem)
  qed
  from this [of 0] this [of 1] this [of 2] this [of 3] show ?thesis by (simp add: load32_def ac_simps)
qed

lemma boot_step_structures:
  assumes "boot_step k k'" and "unpaged k"
  shows "off_screen p 52 \<Longrightarrow> multiboot_info_at p k' = multiboot_info_at p k"
    and "off_screen p 16 \<Longrightarrow> module_at p k' = module_at p k"
    and "off_screen p 24 \<Longrightarrow> memory_map_at p k' = memory_map_at p k"
proof -
  note load = boot_step_load32 [OF assms]
  show "multiboot_info_at p k' = multiboot_info_at p k" if "off_screen p 52"
    using load [OF that, of 0] load [OF that, of 4] load [OF that, of 8] load [OF that, of 12] load [OF that, of 16]
      load [OF that, of 20] load [OF that, of 24] load [OF that, of 28] load [OF that, of 32] load [OF that, of 36]
      load [OF that, of 40] load [OF that, of 44] load [OF that, of 48]
    by (simp add: multiboot_info_at_def)
  show "module_at p k' = module_at p k" if "off_screen p 16"
    using load [OF that, of 0] load [OF that, of 4] load [OF that, of 8] load [OF that, of 12] by (simp add: module_at_def)
  show "memory_map_at p k' = memory_map_at p k" if "off_screen p 24"
    using load [OF that, of 0] load [OF that, of 4] load [OF that, of 8] load [OF that, of 12] load [OF that, of 16] load [OF that, of 20]
    by (simp add: memory_map_at_def)
qed

text \<open>The formats of the code, and one more thing said.\<close>

lemma formats:
  "plain_format (''Invalid magic number: 0x%#x'' @ newline)"
  "plain_format (''flags = 0x%#x'' @ newline)"
  "plain_format (''mem_lower = %uKB, mem_upper = %uKB'' @ newline)"
  "plain_format (''boot_device = 0x%#x'' @ newline)"
  "plain_format (''Module %d loaded at address: 0x%#x'' @ newline)"
  "plain_format (''Module %d ends at address: 0x%#x'' @ newline)"
  "plain_format (''First few bytes of module:'' @ newline)"
  "plain_format ''0x%x ''"
  "plain_format newline"
  "plain_format (''Both bits 4 and 5 are set.'' @ newline)"
  "plain_format (''elf_sec: num = %u, size = 0x%#x,'' @ '' addr = 0x%#x, shndx = 0x%#x'' @ newline)"
  "plain_format (''mmap_addr = 0x%#x, mmap_length = 0x%x'' @ newline)"
  "plain_format ('' size = 0x%x,     base_addr = 0x%#x%#x'' @ newline @ ''     type = 0x%x,  length    = 0x%#x%#x'' @ newline)"
  by code_simp+

lemma say_boot:
  assumes "plain_format format" and "screen_ok k"
  shows "\<exists>k'. say format args k = Some k' \<and> boot_step k k' \<and> screen_ok k' \<and> FILESYSLOC k' = FILESYSLOC k"
proof -
  obtain k' where "say format args k = Some k'" "screen_ok k'" "screen_step k k'" using say_result [OF assms] by blast
  then show ?thesis using boot_step_screen by blast
qed

lemma show_bytes_result:
  "screen_ok k \<Longrightarrow> \<exists>k'. show_bytes md is k = Some k' \<and> boot_step k k' \<and> screen_ok k' \<and> FILESYSLOC k' = FILESYSLOC k"
proof (induction "is" arbitrary: k)
  case Nil
  then show ?case using boot_step_screen [OF screen_step_updates(5)] by simp
next
  case (Cons i "is")
  have f: "plain_format ''0x%x ''" by (rule formats)
  obtain k1 where k1: "say ''0x%x '' [scast (vmem k (mod_start (module_at md k) + word_of_nat i))] k = Some k1" "boot_step k k1"
    "screen_ok k1" "FILESYSLOC k1 = FILESYSLOC k"
    using say_boot [OF f Cons.prems] by blast
  then show ?case using Cons.IH [of k1] boot_step_trans [of k k1] by auto
qed

lemma show_module_result:
  assumes "screen_ok k"
  shows "\<exists>k'. show_module n md k = Some k' \<and> boot_step k k' \<and> screen_ok k' \<and> FILESYSLOC k' = mod_start (module_at md k)"
proof -
  have f: "plain_format (''Module %d loaded at address: 0x%#x'' @ newline)" "plain_format (''Module %d ends at address: 0x%#x'' @ newline)"
    "plain_format (''First few bytes of module:'' @ newline)" "plain_format newline"
    by (rule formats)+
  let ?k = "k\<lparr>FILESYSLOC := mod_start (module_at md k)\<rparr>"
  have ok: "screen_ok ?k" "boot_step k ?k"
    using assms screen_step_updates(5) [of ?k] by (auto simp: screen_ok_def boot_step_def)
  obtain k1 where k1: "say (''Module %d loaded at address: 0x%#x'' @ newline) [n, mod_start (module_at md ?k)] ?k = Some k1"
    "boot_step ?k k1" "screen_ok k1" "FILESYSLOC k1 = FILESYSLOC ?k" using say_boot [OF f(1) ok(1)] by blast
  obtain k2 where k2: "say (''Module %d ends at address: 0x%#x'' @ newline) [n, mod_end (module_at md k1)] k1 = Some k2"
    "boot_step k1 k2" "screen_ok k2" "FILESYSLOC k2 = FILESYSLOC k1" using say_boot [OF f(2) k1(3)] by blast
  obtain k3 where k3: "say (''First few bytes of module:'' @ newline) [] k2 = Some k3"
    "boot_step k2 k3" "screen_ok k3" "FILESYSLOC k3 = FILESYSLOC k2" using say_boot [OF f(3) k2(3)] by blast
  obtain k4 where k4: "show_bytes md [0..<16] k3 = Some k4" "boot_step k3 k4" "screen_ok k4" "FILESYSLOC k4 = FILESYSLOC k3"
    using show_bytes_result [OF k3(3)] by blast
  obtain k5 where k5: "say newline [] k4 = Some k5" "boot_step k4 k5" "screen_ok k5" "FILESYSLOC k5 = FILESYSLOC k4"
    using say_boot [OF f(4) k4(3)] by blast
  have "show_module n md k = Some k5"
    unfolding show_module_def Let_def using k1(1) k2(1) k3(1) k4(1) k5(1) by simp
  moreover have "boot_step k k5"
    using ok(2) k1(2) k2(2) k3(2) k4(2) k5(2) boot_step_trans by blast
  ultimately show ?thesis using k5 k4(4) k3(4) k2(4) k1(4) by auto
qed

section \<open>The loops end\<close>

definition module_addr :: "addr \<Rightarrow> kernel \<Rightarrow> nat \<Rightarrow> addr" where
  "module_addr mbi k j = mods_addr (multiboot_info_at mbi k) + 16 * word_of_nat j"

definition modules_ok :: "addr \<Rightarrow> kernel \<Rightarrow> bool" where
  "modules_ok mbi k \<longleftrightarrow> (\<forall>j<unat (mods_count (multiboot_info_at mbi k)). off_screen (module_addr mbi k j) 16)"

text \<open>The file system is the last module.\<close>

definition image_location :: "addr \<Rightarrow> kernel \<Rightarrow> addr" where
  "image_location mbi k = mod_start (module_at (module_addr mbi k (unat (mods_count (multiboot_info_at mbi k)) - 1)) k)"

lemma boot_step_modules:
  assumes "boot_step k k'" and "unpaged k" and "off_screen mbi 52"
  shows "module_addr mbi k' = module_addr mbi k" "modules_ok mbi k' = modules_ok mbi k"
    and "modules_ok mbi k \<Longrightarrow> 0 < mods_count (multiboot_info_at mbi k) \<Longrightarrow> image_location mbi k' = image_location mbi k"
proof -
  note same = boot_step_structures(1) [OF assms]
  show a: "module_addr mbi k' = module_addr mbi k" by (simp add: module_addr_def same fun_eq_iff)
  then show "modules_ok mbi k' = modules_ok mbi k" by (simp add: modules_ok_def same)
  assume "modules_ok mbi k" "0 < mods_count (multiboot_info_at mbi k)"
  then have "off_screen (module_addr mbi k (unat (mods_count (multiboot_info_at mbi k)) - 1)) 16"
    by (simp add: modules_ok_def word_less_unat)
  then show "image_location mbi k' = image_location mbi k"
    by (simp add: image_location_def same a boot_step_structures(2) [OF assms(1,2)])
qed

lemma show_modules_result:
  assumes "off_screen mbi 52"
  shows "unpaged k \<Longrightarrow> screen_ok k \<Longrightarrow> modules_ok mbi k \<Longrightarrow> n = unat (mods_count (multiboot_info_at mbi k)) \<Longrightarrow> j \<le> n \<Longrightarrow>
   \<exists>k'. show_modules mbi (word_of_nat j) (module_addr mbi k j) k = Some k' \<and> boot_step k k' \<and> screen_ok k' \<and>
     FILESYSLOC k' = (if j = n then FILESYSLOC k else image_location mbi k)"
proof (induction "n - j" arbitrary: j k)
  case 0
  then have "j = n" by simp
  then have "\<not> word_of_nat j < mods_count (multiboot_info_at mbi k)" using 0 by simp
  then show ?case
    using \<open>j = n\<close> 0 boot_step_screen [OF screen_step_updates(5)] by (subst show_modules.simps) simp
next
  case (Suc d)
  then have j: "j < n" and d: "d = n - Suc j" by simp_all
  then have count: "word_of_nat j < mods_count (multiboot_info_at mbi k)" "0 < mods_count (multiboot_info_at mbi k)"
    using Suc.prems(4) by (simp_all add: word_less_unat unat_of_nat32 unat_lt32 less_trans [OF j])
  obtain k1 where k1: "show_module (word_of_nat j) (module_addr mbi k j) k = Some k1" "boot_step k k1" "screen_ok k1"
    "FILESYSLOC k1 = mod_start (module_at (module_addr mbi k j) k)"
    using show_module_result [OF Suc.prems(2)] by blast
  note same = boot_step_structures(1) [OF k1(2) Suc.prems(1) assms] boot_step_modules [OF k1(2) Suc.prems(1) assms]
    boot_step_memory(1) [OF k1(2)]
  obtain k' where k': "show_modules mbi (word_of_nat (Suc j)) (module_addr mbi k1 (Suc j)) k1 = Some k'" "boot_step k1 k'" "screen_ok k'"
    "FILESYSLOC k' = (if Suc j = n then FILESYSLOC k1 else image_location mbi k1)"
    using Suc.hyps(1) [OF d, of k1] Suc.prems same k1(3) j by auto
  have next_addr: "module_addr mbi k j + 16 = module_addr mbi k1 (Suc j)"
    by (simp add: same(2)) (simp add: module_addr_def algebra_simps)
  have "show_modules mbi (word_of_nat j) (module_addr mbi k j) k = Some k'"
    using count k1(1) k'(1) by (subst show_modules.simps) (simp add: next_addr add.commute)
  moreover have "FILESYSLOC k' = image_location mbi k"
  proof (cases "Suc j = n")
    case True
    then have "unat (mods_count (multiboot_info_at mbi k)) - 1 = j" using Suc.prems(4) by simp
    then show ?thesis using True k'(4) k1(4) by (simp add: image_location_def)
  next
    case False
    then show ?thesis using k'(4) same(4) [OF Suc.prems(3) count(2)] by simp
  qed
  ultimately show ?case using k' boot_step_trans [OF k1(2)] j by auto
qed

text \<open>The entries of the memory map up to its limit, \<open>n\<close> of them.\<close>

fun memory_map :: "kernel \<Rightarrow> addr \<Rightarrow> addr \<Rightarrow> nat \<Rightarrow> bool" where
  "memory_map k limit p 0 = (\<not> p < limit)"
| "memory_map k limit p (Suc n) =
     (p < limit \<and> off_screen p 24 \<and> memory_map k limit (p + mm_size (memory_map_at p k) + 4) n)"

lemma boot_step_memory_map:
  assumes "boot_step k k'" and "unpaged k"
  shows "memory_map k' limit p n = memory_map k limit p n"
  using boot_step_structures(3) [OF assms] by (induction n arbitrary: p) auto

lemma show_memory_maps_result:
  assumes "off_screen mbi 52"
  shows "unpaged k \<Longrightarrow> screen_ok k \<Longrightarrow>
   memory_map k (mmap_addr (multiboot_info_at mbi k) + mmap_length (multiboot_info_at mbi k)) p n \<Longrightarrow>
   \<exists>k'. show_memory_maps mbi p k = Some k' \<and> boot_step k k' \<and> screen_ok k' \<and> FILESYSLOC k' = FILESYSLOC k"
proof (induction n arbitrary: p k)
  case 0
  then show ?case
    using boot_step_screen [OF screen_step_updates(5)] by (subst show_memory_maps.simps) (simp add: Let_def)
next
  case (Suc n)
  obtain k1 where k1: "show_memory_map p k = Some k1" "boot_step k k1" "screen_ok k1" "FILESYSLOC k1 = FILESYSLOC k"
    using say_boot [OF formats(13) Suc.prems(2)] unfolding show_memory_map_def Let_def by blast
  note same = boot_step_structures(1) [OF k1(2) Suc.prems(1) assms] boot_step_structures(3) [OF k1(2) Suc.prems(1)]
    boot_step_memory(1) [OF k1(2)] boot_step_memory_map [OF k1(2) Suc.prems(1)]
  obtain k' where "show_memory_maps mbi (p + mm_size (memory_map_at p k1) + 4) k1 = Some k'" "boot_step k1 k'" "screen_ok k'"
    "FILESYSLOC k' = FILESYSLOC k1"
    using Suc.IH [of k1 "p + mm_size (memory_map_at p k1) + 4"] Suc.prems k1(3) same by auto
  moreover from this have "show_memory_maps mbi p k = Some k'"
    using Suc.prems(3) k1(1) by (subst show_memory_maps.simps) (simp add: Let_def)
  ultimately show ?case using boot_step_trans [OF k1(2)] k1(4) by auto
qed

section \<open>Everything that is shown\<close>

text \<open>What the boot loader passes: nothing of it lies in the video memory.\<close>

definition boot_info_ok :: "addr \<Rightarrow> kernel \<Rightarrow> bool" where
  "boot_info_ok mbi k \<longleftrightarrow> (let info = multiboot_info_at mbi k in
     off_screen mbi 52 \<and>
     (CHECK_FLAG (mb_flags info) 2 \<longrightarrow> (\<exists>xs. cstr (vptr (cmdline info) k) xs \<and> off_screen (cmdline info) (length xs + 1))) \<and>
     CHECK_FLAG (mb_flags info) 3 \<and> 0 < mods_count info \<and> modules_ok mbi k \<and>
     (CHECK_FLAG (mb_flags info) 6 \<longrightarrow> (\<exists>n. memory_map k (mmap_addr info + mmap_length info) (mmap_addr info) n)))"

lemma boot_step_info_ok:
  assumes "boot_step k k'" and "unpaged k" and "boot_info_ok mbi k"
  shows "boot_info_ok mbi k'" "multiboot_info_at mbi k' = multiboot_info_at mbi k" "unpaged k'"
    "image_location mbi k' = image_location mbi k"
proof -
  have off: "off_screen mbi 52" and mods: "modules_ok mbi k" "0 < mods_count (multiboot_info_at mbi k)"
    using assms(3) by (simp_all add: boot_info_ok_def Let_def)
  show same: "multiboot_info_at mbi k' = multiboot_info_at mbi k" by (rule boot_step_structures(1) [OF assms(1,2) off])
  note b = boot_step_modules [OF assms(1,2) off] boot_step_memory_map [OF assms(1,2)] boot_step_memory [OF assms(1)]
  show un: "unpaged k'" using assms(2) b by simp
  show "image_location mbi k' = image_location mbi k" using b(3) mods by simp
  have str: "cstr (vptr p k') xs" if "cstr (vptr p k) xs" "off_screen p (length xs + 1)" for p xs
  proof -
    have "vptr p k' (word_of_nat i) = vptr p k (word_of_nat i)" if "i \<le> length xs" for i
      using \<open>off_screen p (length xs + 1)\<close> that b(6) assms(2) un by (simp add: vptr_def unpaged_vmem off_screen_def)
    then show ?thesis using that(1) by (simp add: cstr_def)
  qed
  show "boot_info_ok mbi k'"
    using assms(3) str unfolding boot_info_ok_def Let_def same b(2,4) by blast
qed

text \<open>An optional message, and what is known after each part.\<close>

definition boot_so_far :: "addr \<Rightarrow> addr \<Rightarrow> kernel \<Rightarrow> kernel \<Rightarrow> bool" where
  "boot_so_far mbi fs k k' \<longleftrightarrow> boot_step k k' \<and> screen_ok k' \<and> unpaged k' \<and> boot_info_ok mbi k' \<and> FILESYSLOC k' = fs \<and>
     multiboot_info_at mbi k' = multiboot_info_at mbi k \<and> image_location mbi k' = image_location mbi k"

lemma so_far_step:
  assumes "boot_so_far mbi fs k k1" and "boot_step k1 k2" and "screen_ok k2" and "FILESYSLOC k2 = fs'"
  shows "boot_so_far mbi fs' k k2"
  using assms boot_step_info_ok [OF assms(2), of mbi] boot_step_trans [OF _ assms(2), of k] by (simp add: boot_so_far_def)

lemma say_if:
  assumes "boot_so_far mbi fs k k1" and "plain_format format"
  shows "\<exists>k2. (if b then say format args k1 else Some k1) = Some k2 \<and> boot_so_far mbi fs k k2"
proof (cases b)
  case True
  have "screen_ok k1" "FILESYSLOC k1 = fs" using assms(1) by (simp_all add: boot_so_far_def)
  then obtain k2 where "say format args k1 = Some k2" "boot_step k1 k2" "screen_ok k2" "FILESYSLOC k2 = FILESYSLOC k1"
    using say_boot [OF assms(2)] by blast
  then show ?thesis using so_far_step [OF assms(1)] True \<open>FILESYSLOC k1 = fs\<close> by auto
next
  case False
  then show ?thesis using assms(1) by simp
qed

lemma show_boot_info_result:
  assumes "boot_so_far mbi fs k k0"
  shows "\<exists>k'. show_boot_info mbi k0 = Some k' \<and> boot_so_far mbi (image_location mbi k) k k'"
proof -
  let ?info = "\<lambda>k. multiboot_info_at mbi k"
  obtain k1 where k1: "say (''flags = 0x%#x'' @ newline) [mb_flags (?info k0)] k0 = Some k1" "boot_so_far mbi fs k k1"
    using say_if [OF assms formats(2), of True] by auto
  obtain k2 where k2: "(if CHECK_FLAG (mb_flags (?info k1)) 0
      then say (''mem_lower = %uKB, mem_upper = %uKB'' @ newline) [mem_lower (?info k1), mem_upper (?info k1)] k1 else Some k1) = Some k2"
    "boot_so_far mbi fs k k2"
    using say_if [OF k1(2) formats(3)] by blast
  obtain k3 where k3: "(if CHECK_FLAG (mb_flags (?info k2)) 1
      then say (''boot_device = 0x%#x'' @ newline) [boot_device (?info k2)] k2 else Some k2) = Some k3"
    "boot_so_far mbi fs k k3"
    using say_if [OF k2(2) formats(4)] by blast
  obtain k4 where k4: "(if CHECK_FLAG (mb_flags (?info k3)) 2
      then say (''cmdline = %s'' @ newline) [cmdline (?info k3)] k3 else Some k3) = Some k4"
    "boot_so_far mbi fs k k4"
  proof (cases "CHECK_FLAG (mb_flags (?info k3)) 2")
    case True
    have now: "boot_info_ok mbi k3" "screen_ok k3" "unpaged k3" "FILESYSLOC k3 = fs" using k3(2) by (simp_all add: boot_so_far_def)
    then obtain xs where "cstr (vptr (cmdline (?info k3)) k3) xs" "off_screen (cmdline (?info k3)) (length xs + 1)"
      using True by (auto simp: boot_info_ok_def Let_def)
    then have "shown screen_step (vptr (cmdline (?info k3))) k3 xs"
      using now(3) by (intro shown_fore) (auto simp: backed_outside_def unpaged_vmem off_screen_def)
    then obtain k4 where "say (''cmdline = %s'' @ newline) [cmdline (?info k3)] k3 = Some k4" "screen_ok k4" "screen_step k3 k4"
      using say_string_result [OF now(2)] by blast
    then show thesis using that [of k4] True so_far_step [OF k3(2)] boot_step_screen now(4) by auto
  next
    case False
    then show thesis using that [of k3] k3(2) by simp
  qed
  have now: "boot_info_ok mbi k4" "screen_ok k4" "unpaged k4" "image_location mbi k4 = image_location mbi k"
    using k4(2) by (simp_all add: boot_so_far_def)
  then have mods: "off_screen mbi 52" "CHECK_FLAG (mb_flags (?info k4)) 3" "modules_ok mbi k4" "0 < mods_count (?info k4)"
    by (simp_all add: boot_info_ok_def Let_def)
  then obtain k5 where "show_modules mbi 0 (mods_addr (?info k4)) k4 = Some k5" "boot_step k4 k5" "screen_ok k5"
    "FILESYSLOC k5 = image_location mbi k4"
    using show_modules_result [OF mods(1) now(3,2) mods(3) refl, of 0] by (auto simp: module_addr_def word_less_unat)
  then have "show_boot_info mbi k0 = Some k5" "boot_so_far mbi (image_location mbi k) k k5"
    using k1(1) k2(1) k3(1) k4(1) mods(2) so_far_step [OF k4(2)] now(4) unfolding show_boot_info_def Let_def by simp_all
  then show ?thesis by blast
qed

lemma show_tables_result:
  assumes "boot_so_far mbi fs k k0"
  shows "\<exists>k'. show_tables mbi k0 = Some k' \<and> boot_so_far mbi fs k k'"
proof -
  let ?info = "\<lambda>k. multiboot_info_at mbi k"
  obtain k1 where k1: "(if CHECK_FLAG (mb_flags (?info k0)) 5
      then say (''elf_sec: num = %u, size = 0x%#x,'' @ '' addr = 0x%#x, shndx = 0x%#x'' @ newline)
        [elf_num (elf_sec (?info k0)), elf_size (elf_sec (?info k0)), elf_addr (elf_sec (?info k0)), elf_shndx (elf_sec (?info k0))] k0
      else Some k0) = Some k1" "boot_so_far mbi fs k k1"
    using say_if [OF assms formats(11)] by blast
  show ?thesis
  proof (cases "CHECK_FLAG (mb_flags (?info k1)) 6")
    case True
    obtain k2 where k2: "say (''mmap_addr = 0x%#x, mmap_length = 0x%x'' @ newline) [mmap_addr (?info k1), mmap_length (?info k1)] k1 = Some k2"
      "boot_so_far mbi fs k k2"
      using say_if [OF k1(2) formats(12), of True] by auto
    have now: "boot_info_ok mbi k2" "screen_ok k2" "unpaged k2" "?info k2 = ?info k1" "FILESYSLOC k2 = fs"
      using k1(2) k2(2) by (simp_all add: boot_so_far_def)
    then obtain n where n: "memory_map k2 (mmap_addr (?info k2) + mmap_length (?info k2)) (mmap_addr (?info k2)) n" "off_screen mbi 52"
      using True by (auto simp: boot_info_ok_def Let_def)
    obtain k3 where "show_memory_maps mbi (mmap_addr (?info k2)) k2 = Some k3" "boot_step k2 k3" "screen_ok k3" "FILESYSLOC k3 = FILESYSLOC k2"
      using show_memory_maps_result [OF n(2) now(3,2) n(1)] by blast
    then have "show_tables mbi k0 = Some k3" "boot_so_far mbi fs k k3"
      using k1(1) k2(1) True so_far_step [OF k2(2)] now(5) unfolding show_tables_def Let_def by simp_all
    then show ?thesis by blast
  next
    case False
    then have "show_tables mbi k0 = Some k1" using k1(1) unfolding show_tables_def Let_def by simp
    then show ?thesis using k1(2) by blast
  qed
qed

section \<open>The devices\<close>

text \<open>Opening lines changes the ports and the masks.\<close>

lemma enable_irq_fields:
  "mem (enable_irq n k) = mem k" "FILESYSLOC (enable_irq n k) = FILESYSLOC k" "pcbs (enable_irq n k) = pcbs k"
  "pid_array (enable_irq n k) = pid_array k" "cr0 (enable_irq n k) = cr0 k" "cr3 (enable_irq n k) = cr3 k"
  "cr4 (enable_irq n k) = cr4 k" "page_directory (enable_irq n k) = page_directory k"
  "page_directory_addr (enable_irq n k) = page_directory_addr k" "r_esp (enable_irq n k) = r_esp k"
  "r_ebp (enable_irq n k) = r_ebp k" "iflag (enable_irq n k) = iflag k"
  "page_table_addr (enable_irq n k) = page_table_addr k" "user_page_table_addr (enable_irq n k) = user_page_table_addr k"
  "video_page_table_addr (enable_irq n k) = video_page_table_addr k"
  by (simp_all add: enable_irq_def outb_def Let_def)

lemma init_devices_fields:
  fixes k :: kernel
  defines "k' \<equiv> init_devices k"
  shows "mem k' = mem k" "FILESYSLOC k' = FILESYSLOC k" "pcbs k' = pcbs k" "pid_array k' = pid_array k"
    "r_esp k' = r_esp k" "r_ebp k' = r_ebp k" "iflag k'" "kernel_mapped k'" "tables_linked k' = tables_linked k"
proof -
  define k1 where "k1 = init_rtc (init_keyboard (sti (i8259_init k)))"
  have k1: "mem k1 = mem k" "FILESYSLOC k1 = FILESYSLOC k" "pcbs k1 = pcbs k" "pid_array k1 = pid_array k"
    "r_esp k1 = r_esp k" "r_ebp k1 = r_ebp k" "iflag k1" "page_table_addr k1 = page_table_addr k"
    "user_page_table_addr k1 = user_page_table_addr k" "video_page_table_addr k1 = video_page_table_addr k"
    by (simp_all add: k1_def init_rtc_def init_keyboard_def sti_def i8259_init_def inb_def enable_irq_fields Let_def)
      (simp_all add: outb_def enable_irq_fields)
  have k': "k' = PIT_init (paging_init k1)" by (simp add: k'_def init_devices_def k1_def Let_def)
  have pit: "mem (PIT_init x) = mem x" "FILESYSLOC (PIT_init x) = FILESYSLOC x" "pcbs (PIT_init x) = pcbs x"
    "pid_array (PIT_init x) = pid_array x" "r_esp (PIT_init x) = r_esp x" "r_ebp (PIT_init x) = r_ebp x"
    "iflag (PIT_init x) = iflag x" "page_table_addr (PIT_init x) = page_table_addr x"
    "user_page_table_addr (PIT_init x) = user_page_table_addr x" "video_page_table_addr (PIT_init x) = video_page_table_addr x" for x
    by (simp_all add: PIT_init_def Let_def enable_irq_fields) (simp_all add: outb_def)
  have paging: "mem (paging_init x) = mem x" "FILESYSLOC (paging_init x) = FILESYSLOC x" "pcbs (paging_init x) = pcbs x"
    "pid_array (paging_init x) = pid_array x" "r_esp (paging_init x) = r_esp x" "r_ebp (paging_init x) = r_ebp x"
    "iflag (paging_init x) = iflag x" for x
    by (simp_all add: paging_init_def init_pages_eq Let_def)
  show "mem k' = mem k" "FILESYSLOC k' = FILESYSLOC k" "pcbs k' = pcbs k" "pid_array k' = pid_array k"
    "r_esp k' = r_esp k" "r_ebp k' = r_ebp k" "iflag k'" "tables_linked k' = tables_linked k"
    unfolding k' using k1 by (simp_all add: pit paging tables_linked_def)
  have dir: "page_directory k' = init_directory k1" "paging_on k'"
    using paging_init_on [of k1] unfolding k'
    by (simp_all add: PIT_init_def Let_def enable_irq_fields paging_on_def) (simp_all add: outb_def)
  then show "kernel_mapped k'" by (simp add: kernel_mapped_def user_frame_def init_directory_def)
qed

text \<open>What the devices have seen, the last action first; the clock's second register gets a value read from it.\<close>

lemma init_devices_log:
  assumes "master_mask k = 0xFF" and "slave_mask k = 0xFF"
  shows "\<exists>v. io_log (init_devices k) =
    [Outb 0xF8 0x21, Outb 0x5D 0x40, Outb 0x37 0x40, Outb 0x36 0x43,
     Outb 0xF9 0x21, Outb 0xFE 0xA1, Outb v 0x71, Outb 0x0B 0x70, Inb 0x71, Outb 0x0A 0x70, Outb 0xFD 0x21,
     Outb 0x01 0xA1, Outb 0x02 0xA1, Outb 0x28 0xA1, Outb 0x11 0xA0, Outb 0x01 0x21, Outb 0x04 0x21, Outb 0x20 0x21, Outb 0x11 0x20,
     Outb 0xFF 0xA1, Outb 0xFF 0x21] @ io_log k"
proof -
  have masks: "(0xFF :: u8) AND ucast (NOT (irq_bit 1)) = 0xFD" "(0xFF :: u8) AND ucast (NOT (irq_bit 0)) = 0xFE"
    "(0xFD :: u8) AND ucast (NOT (irq_bit 2)) = 0xF9" "(0xF9 :: u8) AND ucast (NOT (irq_bit 0)) = 0xF8"
    by code_simp+
  have freq: "(ucast (CLK_FREQ div SET_FREQ) :: u16) = 0x5D37" by code_simp
  have bytes: "(ucast ((ucast (0x5D37 :: u16) :: u32) AND 0xFF) :: u8) = 0x37" "(ucast (drop_bit 8 (ucast (0x5D37 :: u16) :: u32)) :: u8) = 0x5D"
    by code_simp+
  have fields: "io_log (paging_init x) = io_log x" "master_mask (paging_init x) = master_mask x" "slave_mask (paging_init x) = slave_mask x" for x
    by (simp_all add: paging_init_def init_pages_eq Let_def)
  define k1 where "k1 = init_keyboard (sti (i8259_init k))"
  have k1: "io_log k1 = [Outb 0xFD 0x21,
     Outb 0x01 0xA1, Outb 0x02 0xA1, Outb 0x28 0xA1, Outb 0x11 0xA0, Outb 0x01 0x21, Outb 0x04 0x21, Outb 0x20 0x21, Outb 0x11 0x20,
     Outb 0xFF 0xA1, Outb 0xFF 0x21] @ io_log k" "master_mask k1 = 0xFD" "slave_mask k1 = 0xFF"
    by (simp_all add: k1_def init_keyboard_def sti_def i8259_init_def outb_def enable_irq_def NUM_IRQ_def PIC_IRQ_MASK_def assms masks [unfolded One_nat_def] Let_def)
  define k2 where "k2 = init_rtc k1"
  have k2: "\<exists>v. io_log k2 = [Outb 0xF9 0x21, Outb 0xFE 0xA1, Outb v 0x71, Outb 0x0B 0x70, Inb 0x71, Outb 0x0A 0x70] @ io_log k1"
    "master_mask k2 = 0xF9"
    by (simp_all add: k2_def init_rtc_def outb_def inb_def enable_irq_def NUM_IRQ_def RTC_IRQ_LINE_def RTC_PORT_def CMOS_PORT_def
        ICW3_SLAVE_def k1 masks Let_def)
  have "io_log (PIT_init (paging_init k2)) = [Outb 0xF8 0x21, Outb 0x5D 0x40, Outb 0x37 0x40, Outb 0x36 0x43] @ io_log k2"
    by (simp add: PIT_init_def outb_def enable_irq_def NUM_IRQ_def PIT_IRQ_def PIT_INIT_def PIT_CMD_PORT_def PIT_CHANNEL_0_def
        freq bytes fields k2 masks Let_def)
  then show ?thesis using k2 k1(1) by (auto simp: init_devices_def k1_def k2_def Let_def)
qed

section \<open>The first shell\<close>

text \<open>Two machines with the same image: everything that is looked up in it is the same.\<close>

lemma same_image_lookup:
  assumes "same_image (FILESYSLOC k) (vmem k) (vmem k')" and "FILESYSLOC k' = FILESYSLOC k"
    and "directory_ok (FILESYSLOC k) (vmem k)"
  shows "lookup_name k' name = lookup_name k name" "image_in_kernel k' = image_in_kernel k"
    "kernel_object k' a n = kernel_object k a n" "executable_file k d contents \<Longrightarrow> executable_file k' d contents"
proof -
  let ?fs = "FILESYSLOC k"
  note dir = same_image_directory [OF assms(1,3)]
  have size: "image_size ?fs (vmem k) < 4294967296" "unat (load32 (vmem k) ?fs) \<le> 63" using assms(3) by (simp_all add: directory_ok_def)
  have big: "4096 \<le> image_size ?fs (vmem k)" by (simp add: image_size_def)
  have at: "dentry_at ?fs (vmem k') (word_of_nat i) = dentry_at ?fs (vmem k) (word_of_nat i)" if i: "i < unat (load32 (vmem k) ?fs)" for i
  proof -
    have eq: "dentry_addr ?fs (word_of_nat i) + word_of_nat j = ?fs + word_of_nat (64 * (i + 1) + j)" for j
      by (simp add: dentry_addr_def DENTRYSIZE_def algebra_simps)
    have "load32 (vmem k') (dentry_addr ?fs (word_of_nat i) + word_of_nat j) = load32 (vmem k) (dentry_addr ?fs (word_of_nat i) + word_of_nat j)"
      if "j \<le> 36" for j
    proof -
      have "64 * (i + 1) + j + 4 \<le> image_size ?fs (vmem k)" using that i size(2) big by simp
      from same_image_load32 [OF assms(1) this size(1)] show ?thesis by (simp only: eq)
    qed
    from this [of 32] this [of 36] dir(4) [OF i] show ?thesis by (simp add: dentry_at_def)
  qed
  have finds: "find (\<lambda>i. dentry_name ?fs (vmem k') (word_of_nat i) = name) is = find (\<lambda>i. dentry_name ?fs (vmem k) (word_of_nat i) = name) is"
    if "set is \<subseteq> {..<unat (load32 (vmem k) ?fs)}" for "is"
    using that dir(4) by (induction "is") auto
  have found: "find (\<lambda>i. dentry_name ?fs (vmem k') (word_of_nat i) = name) [0..<unat (load32 (vmem k) ?fs)] =
      find (\<lambda>i. dentry_name ?fs (vmem k) (word_of_nat i) = name) [0..<unat (load32 (vmem k) ?fs)]" by (rule finds) auto
  show "lookup_name k' name = lookup_name k name"
    unfolding lookup_name_def assms(2) dir(1) found
  proof (cases "find (\<lambda>i. dentry_name ?fs (vmem k) (word_of_nat i) = name) [0..<unat (load32 (vmem k) ?fs)]")
    case (Some i)
    have "i < unat (load32 (vmem k) ?fs)" using find_in_range [OF Some] by simp
    then show "map_option (\<lambda>i. dentry_at ?fs (vmem k') (word_of_nat i)) (find (\<lambda>i. dentry_name ?fs (vmem k) (word_of_nat i) = name) [0..<unat (load32 (vmem k) ?fs)]) =
      map_option (\<lambda>i. dentry_at ?fs (vmem k) (word_of_nat i)) (find (\<lambda>i. dentry_name ?fs (vmem k) (word_of_nat i) = name) [0..<unat (load32 (vmem k) ?fs)])"
      using Some at by simp
  qed simp
  show "image_in_kernel k' = image_in_kernel k" "kernel_object k' a n = kernel_object k a n"
    by (simp_all add: image_in_kernel_def kernel_object_def assms(2) dir(2))
  show "executable_file k' d contents" if "executable_file k d contents"
    using that same_image_file_contents [OF assms(1), of "inodeNumber d"] by (auto simp: executable_file_def assms(2))
qed

text \<open>What the first shell needs: its file, the stack objects of \<^verbatim>\<open>execute\<close>, a process control block.\<close>

definition shell_ready :: "exec_locals \<Rightarrow> kernel \<Rightarrow> u8 list \<Rightarrow> u8 list \<Rightarrow> bool" where
  "shell_ready l k args contents \<longleftrightarrow> directory_ok (FILESYSLOC k) (vmem k) \<and> image_in_kernel k \<and>
     (\<exists>d. lookup_name k (ascii ''shell'') = Some d \<and> executable_file k d contents) \<and>
     kernel_object k (l_buffer l) 4 \<and> length (l_parsed_cmd l) = 256 \<and>
     (\<exists>ps as. parse_command (arr (ascii ''shell'' @ 0 # l_behind l)) (l_parsed_cmd l) (l_arg l) = Some (ps, as) \<and>
        cstr (arr as) args \<and> length args < 100) \<and>
     pid_array k = replicate 6 0 \<and>
     length (argbuf (pcbs k (get_pcb_ptr_process 0))) = 100 \<and> length (fds (pcbs k (get_pcb_ptr_process 0))) = 8"

text \<open>The machine when the first shell starts.\<close>

definition first_shell :: "kernel \<Rightarrow> u8 list \<Rightarrow> u8 list \<Rightarrow> bool" where
  "first_shell k args contents \<longleftrightarrow>
     bytes (vmem k) 0x8048000 (length contents) = contents \<and> user_mapped k \<and> user_frame k = process_frame 0 \<and>
     pid_array k = [1, 0, 0, 0, 0, 0] \<and> cstr (arr (argbuf (pcbs k (get_pcb_ptr_process 0)))) args \<and>
     fds (pcbs k (get_pcb_ptr_process 0)) = std_fds \<and> cur_term k = 0 \<and> apn (terminal k 0) = 0 \<and>
     active (terminal k 1) = 0 \<and> active (terminal k 2) = 0 \<and> in_kernel_stack 0 (esp0 (tss k)) \<and> iflag k \<and>
     (\<forall>esp. in_kernel_stack 0 esp \<longrightarrow> sched_ok (k\<lparr>r_esp := esp\<rparr>)) \<and> machine_ok k"

lemma started_terminals:
  assumes "terminals_ok k" and "cur_term k = 0" and "n < 6"
  shows "terminals_ok (started n args m k)"
  using assms by (simp add: terminals_ok_def screen_ok_def started_def Let_def page_remap_def flush_tlb_def)

lemma shell_started:
  assumes "kernel_mapped k" and "tables_linked k" and "terminals_ok k" and "cur_term k = 0"
    and "\<forall>t<3. active (terminal k t) = 0" and "shell_ready l k args contents"
  shows "\<exists>k'. execute_shell l k = Some (To_user (entry_point contents) USER_STACK k') \<and> first_shell k' args contents"
proof -
  let ?p = "get_pcb_ptr_process 0" and ?cmd = "\<lambda>_ :: kernel. arr (ascii ''shell'' @ 0 # l_behind l)"
  obtain ps as d where parse: "parse_command (?cmd k) (l_parsed_cmd l) (l_arg l) = Some (ps, as)" "cstr (arr as) args"
      "length args < 100" "length (l_parsed_cmd l) = 256"
    and d: "lookup_name k (ascii ''shell'') = Some d" "executable_file k d contents"
    and pid: "pid_array k = replicate 6 0" "length (argbuf (pcbs k ?p)) = 100" "length (fds (pcbs k ?p)) = 8"
    and rest: "image_in_kernel k" "kernel_object k (l_buffer l) 4"
    using assms(6) unfolding shell_ready_def by blast
  have "cstr (arr ps) (ascii ''shell'')" using parse_shell [OF parse(4,1)] .
  moreover have "take 4 (ascii ''shell'') \<notin> {ascii ''exit'', ascii ''term''}" by (simp add: ascii_def)
  moreover have "free_pid k = Some 0" by (simp add: free_pid_def pid upt_rec)
  moreover have "first_of_terminal k" using assms(4,5) by (simp add: first_of_terminal_def)
  ultimately have can: "can_execute k l (?cmd (cli k)) 0 args contents"
    using assms(1) parse d pid rest unfolding can_execute_def by auto
  obtain m where m: "execute l l 0 ?cmd k = Some (To_user (entry_point contents) USER_STACK ((started 0 args m k)\<lparr>pid_array := (pid_array k)[0 := 1]\<rparr>))"
    "bytes (vmem ((started 0 args m k)\<lparr>pid_array := (pid_array k)[0 := 1]\<rparr>)) LOAD_ADDRESS (length contents) = contents"
    using execute_result [where command = ?cmd, OF can] by blast
  define k' where "k' = (started 0 args m k)\<lparr>pid_array := (pid_array k)[0 := 1]\<rparr>"
  have run: "execute_shell l k = Some (To_user (entry_point contents) USER_STACK k')"
    using m(1) execute_shell_no_halt [OF parse(4)] by (simp add: execute_def k'_def)
  have on: "paging_on k" using assms(1) by (simp add: kernel_mapped_def)
  note f = started_fields [where n = 0 and args = args and m = m and k = k, simplified]
  have nul: "0 \<notin> set args" using parse(2) by (simp add: cstr_def)
  have args: "cstr (arr (args @ 0 # xs)) args" for xs by (rule cstr_arr [OF nul]) (use parse(3) in simp)
  have first: "first_of_terminal k" using assms(4,5) by (simp add: first_of_terminal_def)
  have k'_simps: "terminal k' = (terminal k)(0 := (terminal k 0)\<lparr>active := 1, apn := 0\<rparr>)" "cur_term k' = 0"
    "cur_active_terminal k' = 0" "iflag k'" "tables_linked k' = tables_linked k"
    using first assms(4) by (simp_all add: k'_def started_def Let_def tables_linked_def page_remap_def flush_tlb_def)
  have "terminals_ok k'" using started_terminals [OF assms(3,4), of 0 args m] by (simp add: k'_def terminals_ok_def screen_ok_def)
  moreover have "user_mapped k'" "user_frame k' = process_frame 0" "paging_on k'"
    using f(3,4) on by (simp_all add: k'_def user_mapped_def user_frame_def paging_on_def)
  moreover have pcb: "pcbs k' ?p = started_pcb k 0 (parent_number 0 k) args (pcbs k ?p)" "in_kernel_stack 0 (esp0 (tss k'))"
    using f(1,5) by (simp_all add: k'_def)
  ultimately have good: "terminals_ok k'" "user_mapped k'" "user_frame k' = process_frame 0" "paging_on k'"
    "pcbs k' ?p = started_pcb k 0 (parent_number 0 k) args (pcbs k ?p)" "in_kernel_stack 0 (esp0 (tss k'))"
    by blast+
  have loaded: "bytes (vmem k') 0x8048000 (length contents) = contents"
    using m(2) unfolding k'_def [symmetric] LOAD_ADDRESS_def .
  have pids: "pid_array k' = [1, 0, 0, 0, 0, 0]" by (simp add: k'_def pid numeral_eq_Suc)
  have others: "active (terminal k' t) = 1 \<longleftrightarrow> t = 0" if "t < 3" for t
    using that assms(5) by (simp add: k'_simps)
  have sched: "sched_ok (k'\<lparr>r_esp := esp\<rparr>)" if esp: "in_kernel_stack 0 esp" for esp
  proof -
    have "terminals_ok (k'\<lparr>r_esp := esp\<rparr>)" "tables_linked (k'\<lparr>r_esp := esp\<rparr>)" "paging_on (k'\<lparr>r_esp := esp\<rparr>)"
      using good(1,4) assms(2) k'_simps(5) by (simp_all add: terminals_ok_def screen_ok_def tables_linked_def paging_on_def)
    moreover have "saved_ok (k'\<lparr>r_esp := esp\<rparr>) 0 esp"
      using esp good(5) assms(4) by (simp add: saved_ok_def term_pcb_def k'_simps started_pcb_def)
    ultimately show ?thesis using others by (simp add: sched_ok_def k'_simps(3))
  qed
  have "esp0 (tss k') = kernel_stack_top 0" by (simp add: k'_def started_def Let_def kernel_stack_top_def)
  moreover have "process_number (pcbs k' (term_pcb k' 0)) = 0" using good(5) by (simp add: term_pcb_def k'_simps started_pcb_def)
  ultimately have "machine_ok k'"
    using sched [of "esp0 (tss k')"] good(2,3,6) others assms(5) pids by (simp add: machine_ok_def k'_simps Let_def)
  then have "first_shell k' args contents"
    using good loaded pids sched others [of 0] args k'_simps assms(5) by (simp add: first_shell_def started_pcb_def)
  then show ?thesis using run by blast
qed

text \<open>What showing the boot information and setting up the devices keeps for the first shell.\<close>

lemma shell_ready_kept:
  assumes "shell_ready l k args contents" and "unpaged k" and "FILESYSLOC k' = FILESYSLOC k"
    and "pid_array k' = pid_array k" and "pcbs k' = pcbs k"
    and "\<And>a. 0x400000 \<le> unat a \<Longrightarrow> unat a < 0x800000 \<Longrightarrow> vmem k' a = mem k a"
  shows "shell_ready l k' args contents"
proof -
  have "image_in_kernel k" and dir: "directory_ok (FILESYSLOC k) (vmem k)" using assms(1) by (simp_all add: shell_ready_def)
  then have image: "same_image (FILESYSLOC k) (vmem k) (vmem k')"
    using in_image_range [of k] assms(2,6) by (simp add: same_image_def unpaged_vmem)
  note same = same_image_lookup [OF image assms(3) dir] same_image_directory(3) [OF image dir]
  show ?thesis using assms(1,3-5) same by (auto simp: shell_ready_def)
qed

lemma start_kernel_result:
  assumes "unpaged k" and "tables_linked k" and "shell_ready (b_locals env) k args contents"
  shows "\<exists>k'. start_kernel env k = Some (Runs (load_descriptors env) (To_user (entry_point contents) USER_STACK k')) \<and>
    first_shell k' args contents"
proof -
  define k1 where "k1 = init_devices (set_tss k)"
  have k1: "mem k1 = mem k" "FILESYSLOC k1 = FILESYSLOC k" "pcbs k1 = pcbs k" "pid_array k1 = pid_array k" "kernel_mapped k1" "tables_linked k1"
    using init_devices_fields [of "set_tss k"] assms(2) by (simp_all add: k1_def set_tss_def tables_linked_def)
  obtain k2 where k2: "setup_terminals k1 = Some k2" "cur_term k2 = 0" "terminals_ok k2" "\<forall>t<3. active (terminal k2 t) = 0"
    using setup_terminals_result [of k1] by blast
  note f = setup_terminals_frame [OF k2(1), unfolded terminal_frame_def]
  have mapped: "kernel_mapped k2" "tables_linked k2"
    using k1(5,6) f by (simp_all add: kernel_mapped_def paging_on_def user_frame_def tables_linked_def)
  have "shell_ready (b_locals env) k2 args contents"
  proof (rule shell_ready_kept [OF assms(3,1)])
    show "vmem k2 a = mem k a" if "0x400000 \<le> unat a" "unat a < 0x800000" for a
      using kernel_vmem(1) [OF mapped(1) that] f that k1(1) by simp
  qed (use f k1 in simp_all)
  from shell_started [OF mapped k2(3,2,4) this] show ?thesis
    using k2(1) by (auto simp: start_kernel_def init_terminal_def k1_def [symmetric])
qed

text \<open>The whole of \<^verbatim>\<open>entry\<close> with a good boot loader.\<close>

definition located :: "addr \<Rightarrow> kernel \<Rightarrow> kernel" where
  "located mbi k = k\<lparr>FILESYSLOC := image_location mbi k\<rparr>"

lemma located_structures [simp]:
  "unpaged (located mbi k) = unpaged k" "tables_linked (located mbi k) = tables_linked k"
  by (simp_all add: located_def unpaged_def tables_linked_def)

lemma entry_result:
  assumes "unpaged k" and "screen_ok k" and "tables_linked k" and "boot_info_ok mbi k"
    and "\<not> (CHECK_FLAG (mb_flags (multiboot_info_at mbi k)) 4 \<and> CHECK_FLAG (mb_flags (multiboot_info_at mbi k)) 5)"
    and "shell_ready (b_locals env) (located mbi k) args contents"
  shows "\<exists>k'. entry env MULTIBOOT_BOOTLOADER_MAGIC mbi k =
      Some (Runs (load_descriptors env) (To_user (entry_point contents) USER_STACK k')) \<and> first_shell k' args contents"
proof -
  have clear: "screen_step k (clear k)" by (rule clear_result(4))
  then have ok: "screen_ok (clear k)" using assms(2) by (simp add: clear_def screen_ok_def)
  note b = boot_step_screen [OF clear ok]
  have start: "boot_so_far mbi (FILESYSLOC k) k (clear k)"
    using b ok boot_step_info_ok [of k "clear k" mbi] assms(1,4) by (simp add: boot_so_far_def)
  obtain k1 where k1: "show_boot_info mbi (clear k) = Some k1" "boot_so_far mbi (image_location mbi k) k k1"
    using show_boot_info_result [OF start] by blast
  obtain k2 where k2: "show_tables mbi k1 = Some k2" "boot_so_far mbi (image_location mbi k) k k2"
    using show_tables_result [OF k1(2)] by blast
  have step: "boot_step k k2" and now: "unpaged k2" "FILESYSLOC k2 = image_location mbi k" using k2(2) by (simp_all add: boot_so_far_def)
  have fields: "pid_array k2 = pid_array k" "pcbs k2 = pcbs k" "page_table_addr k2 = page_table_addr k"
    "user_page_table_addr k2 = user_page_table_addr k" "video_page_table_addr k2 = video_page_table_addr k"
    using step by (auto simp: boot_step_def screen_step_def)
  then have linked: "tables_linked k2" using assms(3) by (simp add: tables_linked_def)
  have "shell_ready (b_locals env) k2 args contents"
  proof (rule shell_ready_kept [OF assms(6)])
    show "vmem k2 a = mem (located mbi k) a" if "0x400000 \<le> unat a" "unat a < 0x800000" for a
      using boot_step_memory(2) [OF step] kernel_range_excl [OF terminal_areas(2) that] now(1) by (simp add: unpaged_vmem located_def)
  qed (use fields now assms(1) in \<open>simp_all add: located_def unpaged_def\<close>)
  from start_kernel_result [OF now(1) linked this] show ?thesis
    using k1 k2 assms(5) by (auto simp: entry_def Let_def boot_so_far_def)
qed

section \<open>What the processor makes of the segment descriptors\<close>

text \<open>A segment descriptor is two words in memory.\<close>

definition seg_words :: "seg_desc_t \<Rightarrow> u32 \<times> u32" where
  "seg_words d =
     (ucast (seg_lim_15_00 d) OR push_bit 16 (ucast (base_15_00 d)),
      ucast (base_23_16 d) OR push_bit 8 (ucast (sd_type d)) OR push_bit 12 (ucast (sd_sys d)) OR
      push_bit 13 (ucast (sd_dpl d)) OR push_bit 15 (ucast (sd_present d)) OR push_bit 16 (ucast (seg_lim_19_16 d)) OR
      push_bit 20 (ucast (avail d)) OR push_bit 21 (ucast (sd_reserved d)) OR push_bit 22 (ucast (opsize d)) OR
      push_bit 23 (ucast (granularity d)) OR push_bit 24 (ucast (base_31_24 d)))"

record segment =
  s_base :: addr
  s_limit :: nat
  s_type :: nat
  s_system :: bool
  s_level :: nat
  s_present :: bool

definition cpu_segment :: "u32 \<times> u32 \<Rightarrow> segment" where
  "cpu_segment = (\<lambda>(low, high).
     (let limit = unat ((low AND 0xFFFF) OR (high AND 0xF0000)) in
      \<lparr>s_base = drop_bit 16 low OR push_bit 16 (high AND 0xFF) OR (high AND 0xFF000000),
       s_limit = (if bit high 23 then limit * 4096 + 4095 else limit), s_type = unat (drop_bit 8 high AND 15),
       s_system = (\<not> bit high 12), s_level = unat (drop_bit 13 high AND 3), s_present = bit high 15\<rparr>))"

lemma base_pieces:
  fixes a :: addr
  shows "(ucast (ucast (a AND 0x0000FFFF) :: u16) :: u32) = take_bit 16 a"
    "(ucast (ucast (drop_bit 16 (a AND 0x00FF0000)) :: u8) :: u32) = take_bit 8 (drop_bit 16 a)"
    "(ucast (ucast (drop_bit 24 (a AND 0xFF000000)) :: u8) :: u32) = drop_bit 24 a"
proof -
  have masks: "(0x0000FFFF :: u32) = mask 16" "(0x00FF0000 :: u32) = push_bit 16 (mask 8)" "(0xFF000000 :: u32) = push_bit 24 (mask 8)"
    by (simp_all add: mask_eq_exp_minus_1 push_bit_eq_mult)
  show "(ucast (ucast (a AND 0x0000FFFF) :: u16) :: u32) = take_bit 16 a"
    "(ucast (ucast (drop_bit 16 (a AND 0x00FF0000)) :: u8) :: u32) = take_bit 8 (drop_bit 16 a)"
    "(ucast (ucast (drop_bit 24 (a AND 0xFF000000)) :: u8) :: u32) = drop_bit 24 a"
    unfolding masks by (rule bit_word_eqI; auto simp: bit_simps dest: bit_imp_le_length)+
qed

text \<open>The words of a descriptor with the given constant part of the second word.\<close>

lemma segment_base:
  fixes a low high c lim :: u32
  assumes "low = take_bit 16 lim OR push_bit 16 (take_bit 16 a)"
    and "high = take_bit 8 (drop_bit 16 a) OR push_bit 8 (take_bit 16 c) OR push_bit 24 (drop_bit 24 a)"
  shows "drop_bit 16 low OR push_bit 16 (high AND 0xFF) OR (high AND 0xFF000000) = a"
proof -
  have masks: "(0xFF :: u32) = mask 8" "(0xFF000000 :: u32) = push_bit 24 (mask 8)"
    by (simp_all add: mask_eq_exp_minus_1 push_bit_eq_mult)
  show ?thesis unfolding assms masks
    by (rule bit_word_eqI, rename_tac n, case_tac "n < 24") (auto simp: bit_simps not_less)
qed

lemma segment_flags:
  fixes a low high c lim :: u32
  assumes "low = take_bit 16 lim OR push_bit 16 (take_bit 16 a)"
    and "high = take_bit 8 (drop_bit 16 a) OR push_bit 8 (take_bit 16 c) OR push_bit 24 (drop_bit 24 a)"
  shows "low AND 0xFFFF = take_bit 16 lim" "high AND 0xF0000 = push_bit 8 (take_bit 16 c) AND 0xF0000"
    "drop_bit 8 high AND 15 = c AND 15" "drop_bit 13 high AND 3 = drop_bit 5 c AND 3"
    "bit high 12 = bit c 4" "bit high 15 = bit c 7" "bit high 23 = bit c 15"
proof -
  have masks: "(0xFFFF :: u32) = mask 16" "(0xF0000 :: u32) = push_bit 16 (mask 4)" "(15 :: u32) = mask 4" "(3 :: u32) = mask 2"
    by (simp_all add: mask_eq_exp_minus_1 push_bit_eq_mult)
  show "low AND 0xFFFF = take_bit 16 lim" "high AND 0xF0000 = push_bit 8 (take_bit 16 c) AND 0xF0000"
    "drop_bit 8 high AND 15 = c AND 15" "drop_bit 13 high AND 3 = drop_bit 5 c AND 3"
    unfolding assms masks by (rule bit_word_eqI; auto simp: bit_simps)+
  show "bit high 12 = bit c 4" "bit high 15 = bit c 7" "bit high 23 = bit c 15"
    unfolding assms by (simp_all add: bit_simps)
qed

lemma tss_words:
  "seg_words (the_tss_desc u a) = (take_bit 16 103 OR push_bit 16 (take_bit 16 a),
     take_bit 8 (drop_bit 16 a) OR push_bit 8 (take_bit 16 0x89) OR push_bit 24 (drop_bit 24 a))"
proof -
  have f: "seg_lim_15_00 (the_tss_desc u a) = 103" "base_15_00 (the_tss_desc u a) = ucast (a AND 0x0000FFFF)"
    "base_23_16 (the_tss_desc u a) = ucast (drop_bit 16 (a AND 0x00FF0000))"
    "base_31_24 (the_tss_desc u a) = ucast (drop_bit 24 (a AND 0xFF000000))" "sd_type (the_tss_desc u a) = 9"
    "sd_sys (the_tss_desc u a) = 0" "sd_dpl (the_tss_desc u a) = 0" "sd_present (the_tss_desc u a) = 1"
    "seg_lim_19_16 (the_tss_desc u a) = 0" "avail (the_tss_desc u a) = 0" "sd_reserved (the_tss_desc u a) = 0"
    "opsize (the_tss_desc u a) = 0" "granularity (the_tss_desc u a) = 0"
    by (simp_all add: the_tss_desc_def SET_TSS_PARAMS_def tss_size_def Let_def)
  have "(2304 :: u32) OR (32768 OR x) = 35072 OR x" for x by (simp flip: or.assoc)
  then show ?thesis unfolding seg_words_def f base_pieces by simp
qed

lemma ldt_words:
  "seg_words (the_ldt_desc u a) = (take_bit 16 31 OR push_bit 16 (take_bit 16 a),
     take_bit 8 (drop_bit 16 a) OR push_bit 8 (take_bit 16 0x4082) OR push_bit 24 (drop_bit 24 a))"
proof -
  have f: "seg_lim_15_00 (the_ldt_desc u a) = 31" "base_15_00 (the_ldt_desc u a) = ucast (a AND 0x0000FFFF)"
    "base_23_16 (the_ldt_desc u a) = ucast (drop_bit 16 (a AND 0x00FF0000))"
    "base_31_24 (the_ldt_desc u a) = ucast (drop_bit 24 (a AND 0xFF000000))" "sd_type (the_ldt_desc u a) = 2"
    "sd_sys (the_ldt_desc u a) = 0" "sd_dpl (the_ldt_desc u a) = 0" "sd_present (the_ldt_desc u a) = 1"
    "seg_lim_19_16 (the_ldt_desc u a) = 0" "avail (the_ldt_desc u a) = 0" "sd_reserved (the_ldt_desc u a) = 0"
    "opsize (the_ldt_desc u a) = 1" "granularity (the_ldt_desc u a) = 0"
    by (simp_all add: the_ldt_desc_def SET_LDT_PARAMS_def ldt_size_def Let_def)
  show ?thesis unfolding seg_words_def f base_pieces by simp (simp flip: or.assoc)
qed

section \<open>Properties\<close>

text \<open>
  C30. The descriptors that \<^verbatim>\<open>entry\<close> builds field by field are the ones that the processor
  needs, wherever the linker has put the tables and whatever was on the stack: a present task
  state segment (type 9) of 104 bytes and a present local descriptor table (type 2) of 32
  bytes, each at its address and for the kernel only.
\<close>

theorem descriptors_describe_tables:
  "cpu_segment (seg_words (tss_desc_ptr (load_descriptors env))) =
     \<lparr>s_base = b_tss env, s_limit = 103, s_type = 9, s_system = True, s_level = 0, s_present = True\<rparr> \<and>
   cpu_segment (seg_words (ldt_desc_ptr (load_descriptors env))) =
     \<lparr>s_base = b_ldt env, s_limit = 31, s_type = 2, s_system = True, s_level = 0, s_present = True\<rparr>"
proof -
  have segment: "cpu_segment (low, high) = \<lparr>s_base = a, s_limit = unat (take_bit 16 lim OR (push_bit 8 (take_bit 16 c) AND 0xF0000)),
      s_type = unat (c AND 15), s_system = (\<not> bit c 4), s_level = unat (drop_bit 5 c AND 3), s_present = bit c 7\<rparr>"
    if "low = take_bit 16 lim OR push_bit 16 (take_bit 16 a)" "\<not> bit c 15"
      "high = take_bit 8 (drop_bit 16 a) OR push_bit 8 (take_bit 16 c) OR push_bit 24 (drop_bit 24 a)" for low high lim a c
    unfolding cpu_segment_def prod.case Let_def segment_base [OF that(1,3)] segment_flags [OF that(1,3)] using that(2) by simp
  have tss: "\<not> bit (0x89 :: u32) 15" "bit (0x89 :: u32) 7" "\<not> bit (0x89 :: u32) 4" by code_simp+
  have ldt: "\<not> bit (0x4082 :: u32) 15" "bit (0x4082 :: u32) 7" "\<not> bit (0x4082 :: u32) 4" by code_simp+
  show ?thesis
    using segment [OF refl tss(1) refl, of 103 "b_tss env"] segment [OF refl ldt(1) refl, of 31 "b_ldt env"] tss ldt
    by (simp add: load_descriptors_def tss_words ldt_words)
qed

text \<open>
  C26. After the drivers have been initialised, whatever state the chips were in, exactly the
  lines of the timer, the keyboard, the slave chip and the clock are open; they interrupt on the vectors
  that \<^verbatim>\<open>init_idt\<close> has filled for them; the timer ticks at 50 Hz; paging and interrupts are on.
\<close>

theorem devices_set_up:
  assumes "master_mask k = 0xFF" and "slave_mask k = 0xFF" and "n < 16"
  shows "(irq_open (master m0 (init_devices k)) (slave s0 (init_devices k)) n \<longleftrightarrow> n \<in> {0, 1, 2, 8}) \<and>
    vector_base (master m0 (init_devices k)) = 0x20 \<and> vector_base (slave s0 (init_devices k)) = 0x28 \<and>
    1193180 div pit_divisor (io_log (init_devices k)) = 50 \<and> paging_on (init_devices k) \<and> iflag (init_devices k)"
proof -
  obtain v where log: "io_log (init_devices k) =
    [Outb 0xF8 0x21, Outb 0x5D 0x40, Outb 0x37 0x40, Outb 0x36 0x43,
     Outb 0xF9 0x21, Outb 0xFE 0xA1, Outb v 0x71, Outb 0x0B 0x70, Inb 0x71, Outb 0x0A 0x70, Outb 0xFD 0x21,
     Outb 0x01 0xA1, Outb 0x02 0xA1, Outb 0x28 0xA1, Outb 0x11 0xA0, Outb 0x01 0x21, Outb 0x04 0x21, Outb 0x20 0x21, Outb 0x11 0x20,
     Outb 0xFF 0xA1, Outb 0xFF 0x21] @ io_log k"
    using init_devices_log [OF assms(1,2)] by blast
  have master: "imr (master m0 (init_devices k)) = 0xF8" "vector_base (master m0 (init_devices k)) = 0x20"
    unfolding master_def log by (simp_all add: pic_command_def pic_data_def)
  have slave: "imr (slave s0 (init_devices k)) = 0xFE" "vector_base (slave s0 (init_devices k)) = 0x28"
    unfolding slave_def log by (simp_all add: pic_command_def pic_data_def)
  have timer: "1193180 div pit_divisor (io_log (init_devices k)) = 50" unfolding log by (simp add: pit_divisor_def)
  let ?m = "\<lparr>phase = Ready, vector_base = 0, cascade = 0, imr = 0xF8, isr = 0\<rparr>"
  let ?s = "\<lparr>phase = Ready, vector_base = 0, cascade = 0, imr = 0xFE, isr = 0\<rparr>"
  have "\<forall>n\<in>set [0..<16]. irq_open ?m ?s n \<longleftrightarrow> n \<in> {0, 1, 2, 8}" by code_simp
  then have "irq_open ?m ?s n \<longleftrightarrow> n \<in> {0, 1, 2, 8}" by (rule bspec) (use assms(3) in simp)
  moreover have "irq_open (master m0 (init_devices k)) (slave s0 (init_devices k)) n = irq_open ?m ?s n"
    by (simp only: irq_open_def master slave pic.select_convs)
  ultimately have "irq_open (master m0 (init_devices k)) (slave s0 (init_devices k)) n \<longleftrightarrow> n \<in> {0, 1, 2, 8}" by simp
  then show ?thesis
    using master slave timer init_devices_fields(7,8) [of k] by (simp add: kernel_mapped_def)
qed

lemma devices_set_up_witness:
  "irq_open (master some_pic (init_devices some_kernel)) (slave some_pic (init_devices some_kernel)) 8 \<and>
   \<not> irq_open (master some_pic (init_devices some_kernel)) (slave some_pic (init_devices some_kernel)) 14"
  using devices_set_up [of some_kernel 8 some_pic some_pic] devices_set_up [of some_kernel 14 some_pic some_pic]
  by (simp add: some_kernel_def boot_kernel_def)

text \<open>
  C5. With a boot loader whose structures lie outside the video memory and which has loaded the
  file system image as its last module, \<^verbatim>\<open>entry\<close> shows what it was given, sets up descriptors, devices, paging
  and terminals and then runs the program \<^verbatim>\<open>shell\<close> of the image: it never returns, and the
  shell is process 0 on the first terminal, at its entry point and with the descriptors 0 and 1
  open; the other terminals wait. From there the invariant of the scheduler holds, and the one of
  the whole machine.
\<close>

theorem boot_starts_shell:
  assumes "k = boot_kernel m ps dev pd pt ut vt" and "tables_linked k" and "boot_info_ok mbi k"
    and "\<not> (CHECK_FLAG (mb_flags (multiboot_info_at mbi k)) 4 \<and> CHECK_FLAG (mb_flags (multiboot_info_at mbi k)) 5)"
    and "shell_ready (b_locals env) (located mbi k) args contents"
  shows "\<exists>k'. entry env 0x2BADB002 mbi k =
      Some (Runs (load_descriptors env) (To_user (entry_point contents) 0x83FFFFC k')) \<and> first_shell k' args contents"
proof -
  have "unpaged k" "screen_ok k" by (simp_all add: assms(1) boot_kernel_def unpaged_def screen_ok_def)
  from entry_result [OF this assms(2-5)] show ?thesis by (simp add: MULTIBOOT_BOOTLOADER_MAGIC_def USER_STACK_def)
qed

text \<open>
  A boot loader that has loaded one module, the image with \<^verbatim>\<open>shell\<close> at 5 MB, and says so in a
  structure at \<open>0x9000\<close>.
\<close>

definition loaded_mem :: mem where
  "loaded_mem = shell_mem(0x9000 := 8, 0x9014 := 1, 0x9019 := 0x91, 0x9102 := 0x50)"

definition loaded_kernel :: kernel where
  "loaded_kernel = boot_kernel loaded_mem (\<lambda>_. some_pcb) (\<lambda>_ _. 0) 0x401000 0x402000 0x403000 0x404000"

definition some_seg :: seg_desc_t where
  "some_seg = \<lparr>seg_lim_15_00 = 0, base_15_00 = 0, base_23_16 = 0, sd_type = 0, sd_sys = 0, sd_dpl = 0, sd_present = 0,
     seg_lim_19_16 = 0, avail = 0, sd_reserved = 0, opsize = 0, granularity = 0, base_31_24 = 0\<rparr>"

definition some_env :: boot_env where
  "some_env = \<lparr>b_ldt = 0x405000, b_tss = 0x406000, b_handlers = (\<lambda>_. 0x407000), b_ldt_local = some_seg, b_tss_local = some_seg,
     b_idt = static_idt, b_locals = some_locals\<lparr>l_behind := [0x61, 0]\<rparr>\<rparr>"

lemma loaded_memory: "unpaged loaded_kernel" "vmem loaded_kernel = loaded_mem"
proof -
  show un: "unpaged loaded_kernel" by (simp add: loaded_kernel_def boot_kernel_def unpaged_def)
  show "vmem loaded_kernel = loaded_mem" by (simp add: unpaged_vmem(1) [OF un]) (simp add: loaded_kernel_def boot_kernel_def)
qed

lemma loaded_info:
  "mb_flags (multiboot_info_at 0x9000 loaded_kernel) = 8" "mods_count (multiboot_info_at 0x9000 loaded_kernel) = 1"
  "mods_addr (multiboot_info_at 0x9000 loaded_kernel) = 0x9100" "image_location 0x9000 loaded_kernel = 0x500000"
proof -
  have at: "load32 loaded_mem 0x9000 = 8" "load32 loaded_mem 0x9014 = 1" "load32 loaded_mem 0x9018 = 0x9100" "load32 loaded_mem 0x9100 = 0x500000"
    by (simp_all add: load32_def loaded_mem_def shell_mem_def)
  show info: "mb_flags (multiboot_info_at 0x9000 loaded_kernel) = 8" "mods_count (multiboot_info_at 0x9000 loaded_kernel) = 1"
    "mods_addr (multiboot_info_at 0x9000 loaded_kernel) = 0x9100"
    by (simp_all add: multiboot_info_at_def loaded_memory at Let_def)
  then show "image_location 0x9000 loaded_kernel = 0x500000"
    by (simp add: image_location_def module_addr_def module_at_def loaded_memory at Let_def)
qed

lemma below_video: "unat p + n \<le> 0xB8000 \<Longrightarrow> off_screen p n"
  unfolding off_screen_def
proof (intro allI impI)
  fix i assume p: "unat p + n \<le> 0xB8000" and "i < n"
  then have "unat (p + word_of_nat i) < 0xB8000" by (subst unat_add32) (simp_all add: unat_of_nat32)
  then show "\<not> in_range VIDEO 4000 (p + word_of_nat i)" by (simp add: in_range_def VIDEO_def unat_sub_if')
qed

lemma loaded_info_ok: "boot_info_ok 0x9000 loaded_kernel"
proof -
  have "modules_ok 0x9000 loaded_kernel" by (simp add: modules_ok_def loaded_info module_addr_def below_video)
  moreover have "CHECK_FLAG 8 3" "\<not> CHECK_FLAG 8 2" "\<not> CHECK_FLAG 8 6" by (simp_all add: CHECK_FLAG_def)
  ultimately show ?thesis by (simp add: boot_info_ok_def loaded_info below_video Let_def)
qed

lemma loaded_shell_ready: "shell_ready (b_locals some_env) (located 0x9000 loaded_kernel) (ascii ''a'') shell_program"
proof -
  let ?k = "located 0x9000 loaded_kernel"
  have fs: "FILESYSLOC ?k = FILESYSLOC shell_kernel" by (simp add: located_def loaded_info shell_image)
  have "vmem ?k = loaded_mem"
    using loaded_memory by (simp add: unpaged_vmem located_def)
  moreover have "loaded_mem v = shell_mem v" if "0x400000 \<le> unat v" for v using that by (auto simp: loaded_mem_def)
  ultimately have agree: "vmem ?k v = vmem shell_kernel v" if "0x400000 \<le> unat v" "unat v < 0x800000" for v
    using that by (simp add: shell_vmem)
  have can: "image_in_kernel shell_kernel" "kernel_object shell_kernel 0x7FFE00 4"
    by (simp_all add: image_in_kernel_def kernel_object_def shell_image disjoint_range_def)
  have image: "same_image (FILESYSLOC shell_kernel) (vmem shell_kernel) (vmem ?k)"
    using in_image_range [OF can(1)] agree by (simp add: same_image_def)
  have dir: "directory_ok (FILESYSLOC shell_kernel) (vmem shell_kernel)" by (simp add: directory_ok_def shell_image)
  note same = same_image_lookup [OF image fs dir] same_image_directory(3) [OF image dir]
  let ?line = "ascii ''shell'' @ 0 # ascii ''a'' @ [0]"
  have line: "\<forall>i<length ?line. arr (ascii ''shell'' @ 0 # [0x61, 0]) (word_of_nat i) = ?line ! i"
    by (simp add: arr_def ascii_def)
  have split: "?line = replicate 0 0x20 @ ascii ''shell'' @ 0 # ascii ''a'' @ [0]" by simp
  have "\<exists>ps. parse_command (arr (ascii ''shell'' @ 0 # [0x61, 0])) (replicate 256 0) (replicate 100 0) = Some (ps, ascii ''a'' @ 0 # replicate 98 0)"
    using parse_command_line [OF line split, of "replicate 256 0" "replicate 100 0"] by (simp add: ascii_def word_char_def)
  moreover have "cstr (arr (ascii ''a'' @ 0 # replicate 98 0)) (ascii ''a'')" "length (ascii ''a'') < 100"
    by (rule cstr_arr; simp add: ascii_def) (simp add: ascii_def)
  moreover have "\<exists>d. lookup_name ?k (ascii ''shell'') = Some d \<and> executable_file ?k d shell_program"
    using shell_executable same(1,4) by auto
  moreover have "pid_array ?k = replicate 6 0" "pcbs ?k p = some_pcb" for p by (simp_all add: located_def loaded_kernel_def boot_kernel_def)
  moreover have "length (argbuf some_pcb) = 100" "length (fds some_pcb) = 8" by (simp_all add: some_pcb_def)
  ultimately show ?thesis
    using same(2,3,5) can unfolding shell_ready_def by (simp add: fs some_env_def some_locals_def) blast
qed

lemma boot_starts_shell_witness:
  "\<exists>k'. entry some_env 0x2BADB002 0x9000 loaded_kernel =
     Some (Runs (load_descriptors some_env) (To_user 0x08048094 0x83FFFFC k')) \<and> pid_array k' = [1, 0, 0, 0, 0, 0]"
proof -
  have "tables_linked loaded_kernel" by (simp add: loaded_kernel_def boot_kernel_def tables_linked_def)
  moreover have "\<not> CHECK_FLAG 8 4" by (simp add: CHECK_FLAG_def)
  moreover have "entry_point shell_program = 0x08048094" by code_simp
  ultimately show ?thesis
    using boot_starts_shell [OF loaded_kernel_def _ loaded_info_ok _ loaded_shell_ready]
    by (auto simp: loaded_info first_shell_def)
qed

end
