(* ===== verification/User_Lib.thy ===== *)
theory User_Lib
  imports Lib_String
begin

text \<open>
  The support library of the user programs: \<^verbatim>\<open>syscalls/ece391support.c\<close>, on the memory of the
  program. Pointers that a loop advances are addresses; \<^verbatim>\<open>ece391_fdputs\<close> is in the theory of
  the programs, since it makes a system call.
\<close>

unbundle bit_operations_syntax

section \<open>Definitions\<close>

partial_function (option) ece391_strlen_loop :: "mem \<Rightarrow> addr \<Rightarrow> u32 \<Rightarrow> u32 option" where
  "ece391_strlen_loop m s len = (if m s \<noteq> 0 then ece391_strlen_loop m (s + 1) (len + 1) else Some len)"

definition ece391_strlen :: "mem \<Rightarrow> addr \<Rightarrow> u32 option" where
  "ece391_strlen m s = ece391_strlen_loop m s 0"

partial_function (option) ece391_strcpy :: "mem \<Rightarrow> addr \<Rightarrow> addr \<Rightarrow> mem option" where
  "ece391_strcpy m dst src =
     (if m src \<noteq> 0 then ece391_strcpy (m(dst := m src)) (dst + 1) (src + 1) else Some (m(dst := m src)))"

partial_function (option) ece391_strcmp :: "mem \<Rightarrow> addr \<Rightarrow> addr \<Rightarrow> u32 option" where
  "ece391_strcmp m s1 s2 =
     (if m s1 = m s2 then (if m s1 = 0 then Some 0 else ece391_strcmp m (s1 + 1) (s2 + 1))
      else Some (ucast (m s1) - ucast (m s2)))"

partial_function (option) ece391_strncmp_loop :: "mem \<Rightarrow> addr \<Rightarrow> addr \<Rightarrow> u32 \<Rightarrow> u32 option" where
  "ece391_strncmp_loop m s1 s2 n =
     (if m s1 = m s2 then
        (if m s1 = 0 \<or> n - 1 = 0 then Some 0 else ece391_strncmp_loop m (s1 + 1) (s2 + 1) (n - 1))
      else Some (ucast (m s1) - ucast (m s2)))"

definition ece391_strncmp :: "mem \<Rightarrow> addr \<Rightarrow> addr \<Rightarrow> u32 \<Rightarrow> u32 option" where
  "ece391_strncmp m s1 s2 n = (if n = 0 then Some 0 else ece391_strncmp_loop m s1 s2 n)"

text \<open>The counters of \<^verbatim>\<open>ece391_strrev\<close> are \<^verbatim>\<open>int32_t\<close> between -1 and the length.\<close>

function ece391_strrev_loop :: "mem \<Rightarrow> addr \<Rightarrow> int \<Rightarrow> int \<Rightarrow> mem" where
  "ece391_strrev_loop m s beg fin =
     (if beg < fin then
        (let tmp = m (s + word_of_int fin);
             m = m(s + word_of_int fin := m (s + word_of_int beg));
             m = m(s + word_of_int beg := tmp)
         in ece391_strrev_loop m s (beg + 1) (fin - 1))
      else m)"
  by pat_completeness auto
termination
  by (relation "measure (\<lambda>(m, s, beg, fin). nat (fin - beg))") auto

declare ece391_strrev_loop.simps [simp del]

definition ece391_strrev :: "mem \<Rightarrow> addr \<Rightarrow> mem option" where
  "ece391_strrev m s = do {
     len \<leftarrow> ece391_strlen m s;
     let fin = sint (len - 1) in
     if fin \<le> 0 then Some m else Some (ece391_strrev_loop m s 0 fin) }"

definition ece391_lookup :: "u8 list" where
  "ece391_lookup = ascii ''0123456789ABCDEFGHIJKLMNOPQRSTUVWXYZ'' @ [0]"

partial_function (option) ece391_itoa_loop :: "mem \<Rightarrow> u32 \<Rightarrow> addr \<Rightarrow> u32 \<Rightarrow> (mem \<times> addr) option" where
  "ece391_itoa_loop m newval newbuf radix =
     (if newval > 0 then
        (if radix = 0 \<or> unat (newval mod radix) \<ge> length ece391_lookup then None
         else ece391_itoa_loop (m(newbuf := ece391_lookup ! unat (newval mod radix)))
                (newval div radix) (newbuf + 1) radix)
      else Some (m, newbuf))"

definition ece391_itoa :: "mem \<Rightarrow> u32 \<Rightarrow> addr \<Rightarrow> u32 \<Rightarrow> mem option" where
  "ece391_itoa m val buf radix =
     (if val = 0 then Some (m(buf := of_char (CHR ''0''), buf + 1 := 0))
      else do {
        (m, newbuf) \<leftarrow> ece391_itoa_loop m val buf radix;
        ece391_strrev (m(newbuf := 0)) buf })"

section \<open>The same functions as in the kernel\<close>

text \<open>
  The kernel has its own versions, which count with an index where these advance pointers. Two
  loops that take the same steps return the same, also when one of them never returns.
\<close>

lemma option_eqI: "(\<And>y. f = Some y \<Longrightarrow> g = Some y) \<Longrightarrow> (\<And>y. g = Some y \<Longrightarrow> f = Some y) \<Longrightarrow> f = g"
  by (cases f; cases g) auto

lemma strlen_loop_to:
  assumes "ece391_strlen_loop m s len = Some y"
  shows "strlen_loop (ptr (s - len) m) len = Some y"
proof (rule ece391_strlen_loop.raw_induct [where P = "\<lambda>m s len y. strlen_loop (ptr (s - len) m) len = Some y", OF _ assms])
  fix loop m s len y
  assume IH: "\<And>m s len y. loop m s len = Some y \<Longrightarrow> strlen_loop (ptr (s - len) m) len = Some y"
    and step: "(if m s \<noteq> 0 then loop m (s + 1) (len + 1) else Some len) = Some y"
  show "strlen_loop (ptr (s - len) m) len = Some y"
    using step IH [of m "s + 1" "len + 1" y] by (subst strlen_loop.simps) (simp add: ptr_def split: if_splits)
qed

lemma strlen_loop_from:
  assumes "strlen_loop t len = Some y" and "t = ptr p m"
  shows "ece391_strlen_loop m (p + len) len = Some y"
proof -
  have "t = ptr p m \<longrightarrow> ece391_strlen_loop m (p + len) len = Some y"
  proof (rule strlen_loop.raw_induct [where P = "\<lambda>t len y. t = ptr p m \<longrightarrow> ece391_strlen_loop m (p + len) len = Some y", OF _ assms(1)])
    fix loop t len y
    assume IH: "\<And>t len y. loop t len = Some y \<Longrightarrow> t = ptr p m \<longrightarrow> ece391_strlen_loop m (p + len) len = Some y"
      and step: "(if t len \<noteq> 0 then loop t (len + 1) else Some len) = Some y"
    show "t = ptr p m \<longrightarrow> ece391_strlen_loop m (p + len) len = Some y"
    proof
      assume t: "t = ptr p m"
      then have at: "m (p + len) = t len" by (simp add: ptr_def)
      show "ece391_strlen_loop m (p + len) len = Some y"
        using step IH [of t "len + 1" y] t
        by (subst ece391_strlen_loop.simps) (simp add: at add.assoc [symmetric] del: fun_upd_apply split: if_splits)
    qed
  qed
  then show ?thesis using assms(2) by simp
qed

lemma strlen_same: "ece391_strlen m p = strlen (ptr p m)"
proof (rule option_eqI)
  fix y
  show "ece391_strlen m p = Some y \<Longrightarrow> strlen (ptr p m) = Some y"
    using strlen_loop_to [of m p 0 y] by (simp add: ece391_strlen_def strlen_def)
  show "strlen (ptr p m) = Some y \<Longrightarrow> ece391_strlen m p = Some y"
    using strlen_loop_from [of "ptr p m" 0 y p m] by (simp add: ece391_strlen_def strlen_def)
qed

lemma strcpy_to:
  assumes "ece391_strcpy m dst src = Some y"
  shows "strcpy_loop m (dst - i) (ptr (src - i)) i = Some y"
proof -
  have "\<forall>i. strcpy_loop m (dst - i) (ptr (src - i)) i = Some y"
  proof (rule ece391_strcpy.raw_induct [where P = "\<lambda>m dst src y. \<forall>i. strcpy_loop m (dst - i) (ptr (src - i)) i = Some y", OF _ assms])
    fix loop m dst src y
    assume IH: "\<And>m dst src y. loop m dst src = Some y \<Longrightarrow> \<forall>i. strcpy_loop m (dst - i) (ptr (src - i)) i = Some y"
      and step: "(if m src \<noteq> 0 then loop (m(dst := m src)) (dst + 1) (src + 1) else Some (m(dst := m src))) = Some y"
    have next_i: "strcpy_loop (m(dst := m src)) (dst - i) (ptr (src - i)) (i + 1) = Some y" if "m src \<noteq> 0" for i
      using IH [of "m(dst := m src)" "dst + 1" "src + 1" y] step that by (metis add_diff_cancel_right)
    show "\<forall>i. strcpy_loop m (dst - i) (ptr (src - i)) i = Some y"
    proof
      fix i
      show "strcpy_loop m (dst - i) (ptr (src - i)) i = Some y"
        using step next_i [of i] by (subst strcpy_loop.simps) (simp add: ptr_def split: if_splits)
    qed
  qed
  then show ?thesis by blast
qed

lemma strcpy_from:
  assumes "strcpy_loop m d t i = Some y" and "t = ptr s"
  shows "ece391_strcpy m (d + i) (s + i) = Some y"
proof -
  have "t = ptr s \<longrightarrow> ece391_strcpy m (d + i) (s + i) = Some y"
  proof (rule strcpy_loop.raw_induct [where P = "\<lambda>m d t i y. t = ptr s \<longrightarrow> ece391_strcpy m (d + i) (s + i) = Some y", OF _ assms(1)])
    fix loop m d t i y
    assume IH: "\<And>m d t i y. loop m d t i = Some y \<Longrightarrow> t = ptr s \<longrightarrow> ece391_strcpy m (d + i) (s + i) = Some y"
      and step: "(if t m i \<noteq> 0 then loop (m(d + i := t m i)) d t (i + 1) else Some (m(d + i := 0))) = Some y"
    show "t = ptr s \<longrightarrow> ece391_strcpy m (d + i) (s + i) = Some y"
    proof
      assume t: "t = ptr s"
      then have at: "m (s + i) = t m i" by (simp add: ptr_def)
      show "ece391_strcpy m (d + i) (s + i) = Some y"
        using step IH [of "m(d + i := t m i)" d t "i + 1" y] t
        by (subst ece391_strcpy.simps) (simp add: at add.assoc [symmetric] split: if_splits)
    qed
  qed
  then show ?thesis using assms(2) by simp
qed

lemma strcpy_same: "ece391_strcpy m d s = strcpy m d (ptr s)"
proof (rule option_eqI)
  fix y
  show "ece391_strcpy m d s = Some y \<Longrightarrow> strcpy m d (ptr s) = Some y"
    using strcpy_to [of m d s y 0] by (simp add: strcpy_def)
  show "strcpy m d (ptr s) = Some y \<Longrightarrow> ece391_strcpy m d s = Some y"
    using strcpy_from [of m d "ptr s" 0 y s] by (simp add: strcpy_def)
qed

lemma strrev_loop_same: "ece391_strrev_loop m s beg fin = strrev_loop m s beg fin"
proof (induction m s beg fin rule: strrev_loop.induct)
  case (1 m s beg fin)
  show ?case
  proof (cases "beg < fin")
    case True
    note IH = 1 [OF True refl refl refl]
    show ?thesis
      unfolding ece391_strrev_loop.simps [of m s beg fin] strrev_loop.simps [of m s beg fin] Let_def using IH by (simp only:)
  next
    case False
    then show ?thesis by (simp add: ece391_strrev_loop.simps [of m s beg fin] strrev_loop.simps [of m s beg fin])
  qed
qed

lemma strrev_same: "ece391_strrev m s = strrev m s"
proof -
  have "strrev_loop m s 0 fin = m" if "fin \<le> 0" for fin using that by (subst strrev_loop.simps) simp
  then show ?thesis by (cases "strlen (ptr s m)") (simp_all add: ece391_strrev_def strrev_def strlen_same strrev_loop_same Let_def)
qed

lemma itoa_loop_to:
  assumes "ece391_itoa_loop m v b r = Some y"
  shows "itoa_loop m v b r = Some y"
proof (rule ece391_itoa_loop.raw_induct [where P = "\<lambda>m v b r y. itoa_loop m v b r = Some y", OF _ assms])
  fix loop m v b r y
  assume IH: "\<And>m v b r y. loop m v b r = Some y \<Longrightarrow> itoa_loop m v b r = Some y"
    and step: "(if v > 0 then if r = 0 \<or> unat (v mod r) \<ge> length ece391_lookup then None
      else loop (m(b := ece391_lookup ! unat (v mod r))) (v div r) (b + 1) r else Some (m, b)) = Some y"
  show "itoa_loop m v b r = Some y"
    using step IH [of "m(b := ece391_lookup ! unat (v mod r))" "v div r" "b + 1" r y] unfolding ece391_lookup_def lookup_def [symmetric]
    by (subst itoa_loop.simps) (simp split: if_splits)
qed

lemma itoa_loop_from:
  assumes "itoa_loop m v b r = Some y"
  shows "ece391_itoa_loop m v b r = Some y"
proof (rule itoa_loop.raw_induct [where P = "\<lambda>m v b r y. ece391_itoa_loop m v b r = Some y", OF _ assms])
  fix loop m v b r y
  assume IH: "\<And>m v b r y. loop m v b r = Some y \<Longrightarrow> ece391_itoa_loop m v b r = Some y"
    and step: "(if 0 < v then if r = 0 \<or> unat (v mod r) \<ge> length lookup then None
      else loop (m(b := lookup ! unat (v mod r))) (v div r) (b + 1) r else Some (m, b)) = Some y"
  show "ece391_itoa_loop m v b r = Some y"
    using step IH [of "m(b := lookup ! unat (v mod r))" "v div r" "b + 1" r y]
    by (subst ece391_itoa_loop.simps) (simp add: ece391_lookup_def lookup_def [symmetric] split: if_splits)
qed

lemma itoa_same: "ece391_itoa m v b r = itoa v m b r"
proof -
  have "ece391_itoa_loop m v b r = itoa_loop m v b r"
    by (rule option_eqI) (use itoa_loop_to itoa_loop_from in blast)+
  then show ?thesis by (simp add: ece391_itoa_def itoa_def strrev_same)
qed

section \<open>Comparing strings\<close>

lemma cstr_step: "cstr (ptr p m) (x # xs) \<longleftrightarrow> length xs < 4294967295 \<and> x \<noteq> 0 \<and> m p = x \<and> cstr (ptr (p + 1) m) xs"
proof -
  have "(\<forall>i<Suc (length xs). ptr p m (word_of_nat i) = (x # xs) ! i) \<longleftrightarrow> m p = x \<and> (\<forall>i<length xs. ptr (p + 1) m (word_of_nat i) = xs ! i)"
    by (auto simp: ptr_def All_less_Suc2 ac_simps)
  then show ?thesis by (auto simp: cstr_def ptr_def ac_simps)
qed

lemma cstr_empty: "cstr (ptr p m) [] \<longleftrightarrow> m p = 0"
  by (simp add: cstr_def ptr_def)

lemma char_cast: "(ucast (a :: u8) :: u32) = ucast b \<longleftrightarrow> a = b"
proof
  assume "(ucast a :: u32) = ucast b"
  then have "ucast (ucast a :: u32) = (ucast (ucast b :: u32) :: u8)" by simp
  moreover have "ucast (ucast x :: u32) = (x :: u8)" for x by (rule bit_word_eqI) (simp add: bit_simps)
  ultimately show "a = b" by simp
qed simp

lemma char_difference: "(ucast (a :: u8) :: u32) - ucast b = 0 \<longleftrightarrow> a = b" "(ucast (a :: u8) :: u32) = 0 \<longleftrightarrow> a = 0"
  using char_cast [of a b] char_cast [of a 0] by simp_all

text \<open>The string in an array of \<open>n\<close> bytes.\<close>

definition text_at :: "mem \<Rightarrow> addr \<Rightarrow> nat \<Rightarrow> u8 list" where
  "text_at m p n = takeWhile (\<lambda>c. c \<noteq> 0) (bytes m p n)"

lemma bytes_front: "bytes m p (Suc n) = m p # bytes m (p + 1) n"
  by (rule nth_equalityI) (simp_all add: nth_Cons' nth_bytes ac_simps)

lemma text_at_Suc: "text_at m p (Suc n) = (if m p = 0 then [] else m p # text_at m (p + 1) n)"
  by (simp add: text_at_def bytes_front)

lemma strncmp_loop_result:
  "0 < n \<Longrightarrow> \<exists>r. ece391_strncmp_loop m p q n = Some r \<and> (r = 0 \<longleftrightarrow> text_at m p (unat n) = text_at m q (unat n))"
proof (induction "unat n" arbitrary: n p q rule: less_induct)
  case less
  have n1: "unat n = Suc (unat (n - 1))"
    using less.prems by (subst unat_sub32) (simp_all add: word_le_unat word_less_unat)
  have last: "text_at m x (unat (n - 1)) = []" if "n - 1 = 0" for x using that by (simp add: text_at_def bytes_def)
  have "\<exists>r. ece391_strncmp_loop m (p + 1) (q + 1) (n - 1) = Some r \<and>
      (r = 0 \<longleftrightarrow> text_at m (p + 1) (unat (n - 1)) = text_at m (q + 1) (unat (n - 1)))" if "n - 1 \<noteq> 0"
    using less.hyps [of "n - 1" "p + 1" "q + 1"] less.prems n1 that unfolding word_neq_0_unat word_less_unat by simp
  then show ?case unfolding n1 text_at_Suc using last
    by (subst ece391_strncmp_loop.simps) (auto simp: char_difference char_cast)
qed

lemma strncmp_text:
  "\<exists>r. ece391_strncmp m s1 s2 n = Some r \<and> (r = 0 \<longleftrightarrow> text_at m s1 (unat n) = text_at m s2 (unat n))"
proof (cases "n = 0")
  case True
  then show ?thesis by (simp add: ece391_strncmp_def text_at_def bytes_def)
next
  case False
  then show ?thesis using strncmp_loop_result [of n m s1 s2] by (simp add: ece391_strncmp_def word_gt_0)
qed

lemma strcmp_result:
  "cstr (ptr p m) xs \<Longrightarrow> cstr (ptr q m) ys \<Longrightarrow> \<exists>r. ece391_strcmp m p q = Some r \<and> (r = 0 \<longleftrightarrow> xs = ys)"
proof (induction xs arbitrary: ys p q)
  case Nil
  then show ?case
    by (cases ys; subst ece391_strcmp.simps) (auto simp: cstr_empty cstr_step char_difference char_cast)
next
  case (Cons x xs)
  show ?case
  proof (cases ys)
    case Nil
    then show ?thesis using Cons.prems by (subst ece391_strcmp.simps) (auto simp: cstr_empty cstr_step char_difference char_cast)
  next
    case ys: (Cons y zs)
    have p: "m p = x" "x \<noteq> 0" "cstr (ptr (p + 1) m) xs" and q: "m q = y" "y \<noteq> 0" "cstr (ptr (q + 1) m) zs"
      using Cons.prems by (simp_all add: ys cstr_step)
    then show ?thesis
      using Cons.IH [OF p(3) q(3)] by (subst ece391_strcmp.simps) (auto simp: ys char_difference char_cast)
  qed
qed

section \<open>Properties\<close>

text \<open>
  C32. The support library of the user programs and the string functions of the kernel compute
  the same: length, copy, reversal and the digits of a number, on every memory, and one returns
  exactly when the other does.
\<close>

theorem support_library_same:
  "ece391_strlen m s = strlen (ptr s m) \<and> ece391_strcpy m d s = strcpy m d (ptr s) \<and>
   ece391_strrev m s = strrev m s \<and> ece391_itoa m v s r = itoa v m s r"
  by (simp add: strlen_same strcpy_same strrev_same itoa_same)

text \<open>
  C39. \<^verbatim>\<open>ece391_strncmp\<close> always returns, with 0 exactly when the two strings agree as far as the
  count goes.
\<close>

theorem strncmp_compares:
  "\<exists>r. ece391_strncmp m s1 s2 n = Some r \<and> (r = 0 \<longleftrightarrow> text_at m s1 (unat n) = text_at m s2 (unat n))"
  by (rule strncmp_text)

end
