(* ===== verification/User_Calls.thy ===== *)
theory User_Calls
  imports Boot User_Lib
begin

text \<open>
  User programs and the kernel: the wrappers of \<^verbatim>\<open>syscalls/ece391syscall.S\<close>, \<^verbatim>\<open>ece391_fdputs\<close> of
  \<^verbatim>\<open>syscalls/ece391support.c\<close>, and what a program can rely on when it makes a system call.

  A program is a function on the machine. Its result is \<open>None\<close> when it never comes back: it
  waits for a line that is not typed, it has stopped with a page fault, or it loops forever.
\<close>

unbundle bit_operations_syntax

section \<open>Definitions\<close>

definition SYS_HALT :: u32 where "SYS_HALT = 1"
definition SYS_EXECUTE :: u32 where "SYS_EXECUTE = 2"
definition SYS_READ :: u32 where "SYS_READ = 3"
definition SYS_WRITE :: u32 where "SYS_WRITE = 4"
definition SYS_OPEN :: u32 where "SYS_OPEN = 5"
definition SYS_CLOSE :: u32 where "SYS_CLOSE = 6"
definition SYS_GETARGS :: u32 where "SYS_GETARGS = 7"
definition SYS_VIDMAP :: u32 where "SYS_VIDMAP = 8"
definition SYS_SET_HANDLER :: u32 where "SYS_SET_HANDLER = 9"
definition SYS_SIGRETURN :: u32 where "SYS_SIGRETURN = 10"

text \<open>
  What the compiler, the linker and other programs decide: what the calls read without having
  set it, how deep in the kernel stack they run, the addresses of the string literals, the
  stack words that a wrapper passes on for arguments that its caller has not passed, and what
  a program does that this one executes, until it halts: its status and the machine then.
\<close>

record user_env =
  u_sys :: "kernel \<Rightarrow> syscall_env"
  u_depth :: u32
  u_lit :: "string \<Rightarrow> addr"
  u_junk :: "nat \<Rightarrow> u32"
  u_child :: "u32 \<Rightarrow> addr \<Rightarrow> kernel \<Rightarrow> (u32 \<times> kernel) option"

text \<open>
  The trap: the processor loads the kernel stack of the task state segment. A call that does not
  return to this program is \<open>None\<close>.
\<close>

definition enter_kernel :: "user_env \<Rightarrow> kernel \<Rightarrow> kernel" where
  "enter_kernel env k = k\<lparr>r_esp := esp0 (tss k) - u_depth env\<rparr>"

definition int80 :: "user_env \<Rightarrow> u32 \<Rightarrow> u32 \<Rightarrow> u32 \<Rightarrow> u32 \<Rightarrow> kernel \<Rightarrow> (i32 \<times> kernel) option" where
  "int80 env eax ebx ecx edx k =
     Option.bind (system_call_handler (u_sys env k) eax ebx ecx edx (enter_kernel env k)) (\<lambda>out. case out of
         Returns r k \<Rightarrow> Some (r, k)
       | To_user eip esp k \<Rightarrow> u_child env eip esp k
       | Resumes r k \<Rightarrow> None)"

text \<open>\<^verbatim>\<open>DO_CALL\<close>: the number and three words from the stack of the caller.\<close>

definition DO_CALL :: "user_env \<Rightarrow> u32 \<Rightarrow> u32 \<Rightarrow> u32 \<Rightarrow> u32 \<Rightarrow> kernel \<Rightarrow> (i32 \<times> kernel) option" where
  "DO_CALL env n a b c k = int80 env n a b c k"

definition ece391_execute :: "user_env \<Rightarrow> addr \<Rightarrow> kernel \<Rightarrow> (i32 \<times> kernel) option" where
  "ece391_execute env command = DO_CALL env SYS_EXECUTE command (u_junk env 1) (u_junk env 2)"

definition ece391_read :: "user_env \<Rightarrow> i32 \<Rightarrow> addr \<Rightarrow> i32 \<Rightarrow> kernel \<Rightarrow> (i32 \<times> kernel) option" where
  "ece391_read env fd buf nbytes = DO_CALL env SYS_READ fd buf nbytes"

definition ece391_write :: "user_env \<Rightarrow> i32 \<Rightarrow> addr \<Rightarrow> i32 \<Rightarrow> kernel \<Rightarrow> (i32 \<times> kernel) option" where
  "ece391_write env fd buf nbytes = DO_CALL env SYS_WRITE fd buf nbytes"

definition ece391_open :: "user_env \<Rightarrow> addr \<Rightarrow> kernel \<Rightarrow> (i32 \<times> kernel) option" where
  "ece391_open env filename = DO_CALL env SYS_OPEN filename (u_junk env 1) (u_junk env 2)"

definition ece391_close :: "user_env \<Rightarrow> i32 \<Rightarrow> kernel \<Rightarrow> (i32 \<times> kernel) option" where
  "ece391_close env fd = DO_CALL env SYS_CLOSE fd (u_junk env 1) (u_junk env 2)"

definition ece391_getargs :: "user_env \<Rightarrow> addr \<Rightarrow> i32 \<Rightarrow> kernel \<Rightarrow> (i32 \<times> kernel) option" where
  "ece391_getargs env buf nbytes = DO_CALL env SYS_GETARGS buf nbytes (u_junk env 2)"

definition ece391_vidmap :: "user_env \<Rightarrow> addr \<Rightarrow> kernel \<Rightarrow> (i32 \<times> kernel) option" where
  "ece391_vidmap env screen_start = DO_CALL env SYS_VIDMAP screen_start (u_junk env 1) (u_junk env 2)"

definition ece391_set_handler :: "user_env \<Rightarrow> i32 \<Rightarrow> addr \<Rightarrow> kernel \<Rightarrow> (i32 \<times> kernel) option" where
  "ece391_set_handler env signum handler = DO_CALL env SYS_SET_HANDLER signum handler (u_junk env 2)"

text \<open>\<^verbatim>\<open>_start\<close>: the program, then \<^verbatim>\<open>ece391_halt\<close> with its result, which leaves the process.\<close>

definition ece391_halt :: "user_env \<Rightarrow> u32 \<Rightarrow> kernel \<Rightarrow> outcome option" where
  "ece391_halt env status k = system_call_handler (u_sys env k) SYS_HALT status 0 0 (enter_kernel env k)"

definition user_start :: "user_env \<Rightarrow> (kernel \<Rightarrow> (i32 \<times> kernel) option) \<Rightarrow> kernel \<Rightarrow> outcome option" where
  "user_start env main k = Option.bind (main k) (\<lambda>(r, k). ece391_halt env r k)"

text \<open>A load and a store of the program: an address that user code cannot reach is a page fault.\<close>

definition user_load :: "addr \<Rightarrow> kernel \<Rightarrow> u8 option" where
  "user_load a k = (case translate k a of Some (p, True) \<Rightarrow> Some (mem k p) | _ \<Rightarrow> None)"

definition user_store :: "addr \<Rightarrow> u8 \<Rightarrow> kernel \<Rightarrow> kernel option" where
  "user_store a c k = (case translate k a of Some (p, True) \<Rightarrow> Some (store_user a c k) | _ \<Rightarrow> None)"

definition ece391_fdputs :: "user_env \<Rightarrow> i32 \<Rightarrow> addr \<Rightarrow> kernel \<Rightarrow> kernel option" where
  "ece391_fdputs env fd s k = do {
     len \<leftarrow> ece391_strlen (vmem k) s;
     map_option snd (ece391_write env fd s len k) }"

text \<open>\<^verbatim>\<open>ece391_fdputs (1, "...")\<close>.\<close>

definition print_lit :: "user_env \<Rightarrow> string \<Rightarrow> kernel \<Rightarrow> kernel option" where
  "print_lit env s k = ece391_fdputs env 1 (u_lit env s) k"

section \<open>What a program changes\<close>

text \<open>
  A running program on the terminal that is shown: its page is mapped above the kernel's, the
  image is in the kernel's page, the kernel stack of the task state segment is its own, and it
  has the standard descriptors.
\<close>

definition proc_fds :: "kernel \<Rightarrow> file_desc_t list" where
  "proc_fds k = fds (pcbs k (current_process k))"

definition program_ok :: "user_env \<Rightarrow> kernel \<Rightarrow> bool" where
  "program_ok env k \<longleftrightarrow> user_mapped k \<and> kernel_mapped k \<and> 0x800000 \<le> unat (user_frame k) \<and> image_in_kernel k \<and>
     directory_ok (FILESYSLOC k) (vmem k) \<and> screen_ok k \<and> cur_term k = cur_active_terminal k \<and>
     get_pcb_ptr (enter_kernel env k) = current_process k \<and> length (proc_fds k) = 8 \<and>
     proc_fds k ! 0 = std_fds ! 0 \<and> proc_fds k ! 1 = std_fds ! 1"

text \<open>
  What a program and its calls may change: the screen and the ports, the registers of the calls,
  the keyboard line of the terminal, the position in the directory, its descriptors, and of its
  memory the addresses in \<open>W\<close>.
\<close>

definition same_line :: "term_t \<Rightarrow> term_t \<Rightarrow> bool" where
  "same_line t t' \<longleftrightarrow> (\<exists>e b. t' = t\<lparr>eflag := e, t_key_buffer := b\<rparr>)"

definition may_write :: "(addr \<Rightarrow> bool) \<Rightarrow> kernel \<Rightarrow> addr \<Rightarrow> bool" where
  "may_write W k a \<longleftrightarrow> in_range VIDEO 4000 a \<or> a - user_frame k < 0x400000 \<and> W (0x8000000 + (a - user_frame k))"

definition user_step :: "(addr \<Rightarrow> bool) \<Rightarrow> kernel \<Rightarrow> kernel \<Rightarrow> bool" where
  "user_step W k k' \<longleftrightarrow>
     (\<exists>m log x y b e loc ts i fs. k' = k\<lparr>mem := m, io_log := log, iflag := b, r_esp := e, screen_x := x, screen_y := y,
         directoryLoc := loc, key_buffer_idx := i, terminal := ts,
         pcbs := (pcbs k)(current_process k := (pcbs k (current_process k))\<lparr>fds := fs\<rparr>)\<rparr> \<and>
       (\<forall>a. \<not> may_write W k a \<longrightarrow> m a = mem k a) \<and> (\<forall>t. same_line (terminal k t) (ts t)))"


lemma user_stepI:
  assumes "k' = k\<lparr>mem := m, io_log := log, iflag := b, r_esp := e, screen_x := x, screen_y := y,
         directoryLoc := loc, key_buffer_idx := i, terminal := ts,
         pcbs := (pcbs k)(current_process k := (pcbs k (current_process k))\<lparr>fds := fs\<rparr>)\<rparr>"
    and "\<And>a. \<not> may_write W k a \<Longrightarrow> m a = mem k a" and "\<And>t. same_line (terminal k t) (ts t)"
  shows "user_step W k k'"
  unfolding user_step_def
  by (rule exI [of _ m], rule exI [of _ log], rule exI [of _ x], rule exI [of _ y], rule exI [of _ b], rule exI [of _ e],
      rule exI [of _ loc], rule exI [of _ ts], rule exI [of _ i], rule exI [of _ fs], use assms in blast)

lemma same_line_refl [simp]: "same_line t t"
  unfolding same_line_def by (rule exI [of _ "eflag t"], rule exI [of _ "t_key_buffer t"]) simp

lemma same_line_trans: "same_line t t1 \<Longrightarrow> same_line t1 t2 \<Longrightarrow> same_line t t2"
  unfolding same_line_def by (elim exE, hypsubst, intro exI) simp

lemma same_line_fields: "same_line t t' \<Longrightarrow> apn t' = apn t \<and> active t' = active t \<and> pos_x t' = pos_x t \<and>
    pos_y t' = pos_y t \<and> t_video_mem t' = t_video_mem t"
  unfolding same_line_def by auto

lemma translate_tables:
  assumes "cr0 k' = cr0 k" "cr3 k' = cr3 k" "cr4 k' = cr4 k" "page_directory k' = page_directory k"
    "page_directory_addr k' = page_directory_addr k" "page_table_addr k' = page_table_addr k"
    "user_page_table_addr k' = user_page_table_addr k" "video_page_table_addr k' = video_page_table_addr k"
    "page_table k' = page_table k" "user_page_table k' = user_page_table k" "video_page_table k' = video_page_table k"
  shows "translate k' = translate k"
  by (simp add: fun_eq_iff translate_def table_at_def assms Let_def)

lemma user_step_fields:
  assumes "user_step W k k'"
  shows "FILESYSLOC k' = FILESYSLOC k" "tss k' = tss k" "cur_term k' = cur_term k"
    "cur_active_terminal k' = cur_active_terminal k" "pid_array k' = pid_array k"
    "page_directory k' = page_directory k" "paging_on k' = paging_on k" "translate k' = translate k"
    "user_frame k' = user_frame k" "user_mapped k' = user_mapped k" "kernel_mapped k' = kernel_mapped k"
    "apn (terminal k' t) = apn (terminal k t)" "current_process k' = current_process k"
    "argbuf (pcbs k' p) = argbuf (pcbs k p)" "term_ptr (pcbs k' p) = term_ptr (pcbs k p)"
    "key_buffer k' = key_buffer k" "keyboard_enabled k' = keyboard_enabled k"
    "p \<noteq> current_process k \<Longrightarrow> pcbs k' p = pcbs k p"
proof -
  obtain m log x y b e loc ts i fs where k': "k' = k\<lparr>mem := m, io_log := log, iflag := b, r_esp := e, screen_x := x, screen_y := y,
         directoryLoc := loc, key_buffer_idx := i, terminal := ts,
         pcbs := (pcbs k)(current_process k := (pcbs k (current_process k))\<lparr>fds := fs\<rparr>)\<rparr>"
    and ts: "same_line (terminal k t) (ts t)" for t
    using assms unfolding user_step_def by blast
  have apn: "apn (ts t) = apn (terminal k t)" for t using same_line_fields [OF ts] by simp
  show "FILESYSLOC k' = FILESYSLOC k" "tss k' = tss k" "cur_term k' = cur_term k"
    "cur_active_terminal k' = cur_active_terminal k" "pid_array k' = pid_array k"
    "page_directory k' = page_directory k" "paging_on k' = paging_on k" "key_buffer k' = key_buffer k"
    "keyboard_enabled k' = keyboard_enabled k" "user_frame k' = user_frame k" "user_mapped k' = user_mapped k"
    "kernel_mapped k' = kernel_mapped k" "apn (terminal k' t) = apn (terminal k t)" "current_process k' = current_process k"
    "argbuf (pcbs k' p) = argbuf (pcbs k p)" "term_ptr (pcbs k' p) = term_ptr (pcbs k p)"
    "p \<noteq> current_process k \<Longrightarrow> pcbs k' p = pcbs k p"
    by (simp_all add: k' paging_on_def user_frame_def user_mapped_def kernel_mapped_def current_process_def apn)
  show "translate k' = translate k" by (rule translate_tables) (simp_all add: k')
qed

lemma user_step_mem: "user_step W k k' \<Longrightarrow> \<not> may_write W k a \<Longrightarrow> mem k' a = mem k a"
  unfolding user_step_def by (elim exE conjE) simp

lemma user_step_refl: "user_step W k k"
  by (rule user_stepI [where m = "mem k" and log = "io_log k" and b = "iflag k" and e = "r_esp k" and x = "screen_x k" and
      y = "screen_y k" and loc = "directoryLoc k" and i = "key_buffer_idx k" and ts = "terminal k" and fs = "proc_fds k"])
    (simp_all add: proc_fds_def)

lemma user_step_mono: "user_step W k k' \<Longrightarrow> (\<And>a. W a \<Longrightarrow> W' a) \<Longrightarrow> user_step W' k k'"
  unfolding user_step_def may_write_def by (elim exE conjE, intro exI conjI, assumption) auto

lemma user_step_trans:
  assumes "user_step W k k1" and "user_step W k1 k2"
  shows "user_step W k k2"
proof -
  obtain m log x y b e loc ts i fs where k1: "k1 = k\<lparr>mem := m, io_log := log, iflag := b, r_esp := e, screen_x := x, screen_y := y,
         directoryLoc := loc, key_buffer_idx := i, terminal := ts,
         pcbs := (pcbs k)(current_process k := (pcbs k (current_process k))\<lparr>fds := fs\<rparr>)\<rparr>"
    and m: "\<And>a. \<not> may_write W k a \<Longrightarrow> m a = mem k a" and ts: "\<And>t. same_line (terminal k t) (ts t)"
    using assms(1) unfolding user_step_def by blast
  obtain m2 log2 x2 y2 b2 e2 loc2 ts2 i2 fs2 where k2: "k2 = k1\<lparr>mem := m2, io_log := log2, iflag := b2, r_esp := e2,
         screen_x := x2, screen_y := y2, directoryLoc := loc2, key_buffer_idx := i2, terminal := ts2,
         pcbs := (pcbs k1)(current_process k1 := (pcbs k1 (current_process k1))\<lparr>fds := fs2\<rparr>)\<rparr>"
    and m2: "\<And>a. \<not> may_write W k1 a \<Longrightarrow> m2 a = mem k1 a" and ts2: "\<And>t. same_line (terminal k1 t) (ts2 t)"
    using assms(2) unfolding user_step_def by blast
  have cur: "current_process k1 = current_process k" and frame: "user_frame k1 = user_frame k"
    using user_step_fields(13,9) [OF assms(1)] by simp_all
  show ?thesis
  proof (rule user_stepI [where m = m2 and log = log2 and b = b2 and e = e2 and x = x2 and y = y2 and loc = loc2 and
        i = i2 and ts = ts2 and fs = fs2])
    show "k2 = k\<lparr>mem := m2, io_log := log2, iflag := b2, r_esp := e2, screen_x := x2, screen_y := y2,
         directoryLoc := loc2, key_buffer_idx := i2, terminal := ts2,
         pcbs := (pcbs k)(current_process k := (pcbs k (current_process k))\<lparr>fds := fs2\<rparr>)\<rparr>"
      unfolding k2 cur by (rule kernel.equality) (simp_all add: k1)
    show "m2 a = mem k a" if "\<not> may_write W k a" for a
    proof -
      have "mem k1 = m" "may_write W k1 a = may_write W k a" by (simp add: k1) (simp add: may_write_def frame)
      then show ?thesis using m [OF that] m2 [of a] that by simp
    qed
    show "same_line (terminal k t) (ts2 t)" for t
      using same_line_trans [OF ts [of t]] ts2 [of t] by (simp add: k1)
  qed
qed

section \<open>The memory of a program\<close>

lemma video_below: "in_range VIDEO 4000 a \<Longrightarrow> unat a < 0x400000"
proof -
  assume "in_range VIDEO 4000 a"
  then obtain i where i: "i < 4000" "a = 0xB8000 + word_of_nat i" using range_addr unfolding in_range_def VIDEO_def by blast
  have "unat a = 0xB8000 + i" unfolding i(2) using i(1) by (subst unat_add32) simp_all
  then show "unat a < 0x400000" using i(1) by simp
qed

lemma frame_not_video:
  assumes "0x800000 \<le> unat (user_frame k)" and "a - user_frame k < 0x400000"
  shows "\<not> in_range VIDEO 4000 a" "0x800000 \<le> unat a"
proof -
  let ?f = "user_frame k"
  have "unat ?f \<le> unat (0xFFC00000 :: u32)"
    unfolding user_frame_def using word_and_le1 [of "page_directory k 32" "0xFFC00000"] by (simp only: word_le_unat)
  then have "unat (?f + (a - ?f)) = unat ?f + unat (a - ?f)"
    using assms(2) by (intro unat_add32) (simp add: word_less_unat)
  then have a: "0x800000 \<le> unat a" using assms(1) by simp
  then show "0x800000 \<le> unat a" .
  then show "\<not> in_range VIDEO 4000 a" using video_below by force
qed

lemma user_vmem:
  assumes "user_mapped k" and "in_user_page v"
  shows "vmem k v = mem k (user_frame k + (v - 0x8000000))"
  using user_translate [OF assms] by (simp add: vmem_def)

lemma user_offset: "in_user_page v \<Longrightarrow> (user_frame k + (v - 0x8000000)) - user_frame k < 0x400000"
  by (simp add: in_user_page_def word_less_unat)

lemma user_step_vmem:
  assumes "user_step W k k'" and "user_mapped k" and "0x800000 \<le> unat (user_frame k)" and "in_user_page v" and "\<not> W v"
  shows "vmem k' v = vmem k v"
proof -
  let ?a = "user_frame k + (v - 0x8000000)"
  have "\<not> in_range VIDEO 4000 ?a" by (rule frame_not_video(1) [OF assms(3)]) (use assms(4) user_offset in simp)
  then have "\<not> may_write W k ?a" using assms(5) by (simp add: may_write_def)
  then show ?thesis
    using user_step_mem [OF assms(1)] user_vmem [OF assms(2,4)] user_vmem [of k' v] user_step_fields(9,10) [OF assms(1)] assms(2,4)
    by simp
qed

lemma kernel_page_kept:
  assumes "user_step W k k'" and "0x800000 \<le> unat (user_frame k)" and "0x400000 \<le> unat a" and "unat a < 0x800000"
  shows "mem k' a = mem k a"
proof -
  have "\<not> in_range VIDEO 4000 a" using video_below assms(3) by force
  moreover have "\<not> a - user_frame k < 0x400000" using frame_not_video(2) [OF assms(2), of a] assms(4) by linarith
  ultimately show ?thesis using user_step_mem [OF assms(1)] by (simp add: may_write_def)
qed

lemma user_step_image:
  assumes "user_step W k k'" and "program_ok env k"
  shows "same_files k k'" "same_image (FILESYSLOC k) (vmem k) (vmem k')"
proof -
  have ok: "kernel_mapped k" "image_in_kernel k" "0x800000 \<le> unat (user_frame k)"
    using assms(2) by (simp_all add: program_ok_def)
  show files: "same_files k k'"
    unfolding same_files_def using user_step_fields(1,11) [OF assms(1)] ok kernel_page_kept [OF assms(1) ok(3)]
      in_image_range [OF ok(2)] by simp
  show "same_image (FILESYSLOC k) (vmem k) (vmem k')" using files by (rule same_files_image)
qed

lemma program_ok_step:
  assumes ok: "program_ok env k" and step: "user_step W k k'" and "screen_ok k'"
    and "length (proc_fds k') = 8" "proc_fds k' ! 0 = std_fds ! 0" "proc_fds k' ! 1 = std_fds ! 1"
  shows "program_ok env k'"
proof -
  note f = user_step_fields [OF step]
  note img = user_step_image [OF step ok]
  have dir: "directory_ok (FILESYSLOC k) (vmem k)" using ok by (simp add: program_ok_def)
  have "image_in_kernel k'"
    using ok same_image_directory(2) [OF img(2) dir] by (simp add: program_ok_def image_in_kernel_def f(1))
  moreover have "directory_ok (FILESYSLOC k') (vmem k')" using same_image_directory(3) [OF img(2) dir] by (simp add: f(1))
  moreover have "get_pcb_ptr (enter_kernel env k') = get_pcb_ptr (enter_kernel env k)"
    by (simp add: enter_kernel_def get_pcb_ptr_def f(2))
  ultimately show ?thesis
    using ok assms(3-6) unfolding program_ok_def f(3,4,9-11,13) by simp
qed

lemma names_kept: "program_ok env k \<Longrightarrow> user_step W k k' \<Longrightarrow> names k' = names k"
  using user_step_image(2) [of W k k' env] same_image_directory [of "FILESYSLOC k" "vmem k" "vmem k'"] user_step_fields(1) [of W k k']
  by (auto simp: names_def program_ok_def)


section \<open>Calls\<close>

definition trapped :: "user_env \<Rightarrow> kernel \<Rightarrow> kernel" where
  "trapped env k = k\<lparr>iflag := True, r_esp := esp0 (tss k) - u_depth env\<rparr>"

lemma trapped_fields [simp]:
  "mem (trapped env k) = mem k" "io_log (trapped env k) = io_log k" "FILESYSLOC (trapped env k) = FILESYSLOC k"
  "pcbs (trapped env k) = pcbs k" "terminal (trapped env k) = terminal k" "tss (trapped env k) = tss k"
  "cur_term (trapped env k) = cur_term k" "cur_active_terminal (trapped env k) = cur_active_terminal k"
  "directoryLoc (trapped env k) = directoryLoc k" "page_directory (trapped env k) = page_directory k"
  "translate (trapped env k) = translate k" "vmem (trapped env k) = vmem k" "user_frame (trapped env k) = user_frame k"
  "paging_on (trapped env k) = paging_on k" "user_mapped (trapped env k) = user_mapped k"
  "kernel_mapped (trapped env k) = kernel_mapped k" "current_process (trapped env k) = current_process k"
  "proc_fds (trapped env k) = proc_fds k" "names (trapped env k) = names k" "screen_ok (trapped env k) = screen_ok k"
  "fore_console (trapped env k) = fore_console k" "key_buffer (trapped env k) = key_buffer k"
  "key_buffer_idx (trapped env k) = key_buffer_idx k" "keyboard_enabled (trapped env k) = keyboard_enabled k"
proof -
  show tr: "translate (trapped env k) = translate k" by (rule translate_tables) (simp_all add: trapped_def)
  show "vmem (trapped env k) = vmem k" by (rule vmem_cong) (simp add: trapped_def, fact tr)
  then show "names (trapped env k) = names k" by (simp add: names_def) (simp add: trapped_def)
qed (simp_all add: trapped_def user_frame_def paging_on_def user_mapped_def kernel_mapped_def current_process_def proc_fds_def
    screen_ok_def fore_console_def)

lemma sti_trapped [simp]: "sti (trapped env k) = trapped env k"
  by (simp add: sti_def trapped_def)

lemma sti_cli [simp]: "sti (cli k) = sti k"
  by (simp add: sti_def cli_def)

lemma signed_calls: "\<not> (3 :: u32) <s 1" "\<not> (8 :: u32) <s 3" "\<not> (4 :: u32) <s 1" "\<not> (8 :: u32) <s 4"
  "\<not> (5 :: u32) <s 1" "\<not> (8 :: u32) <s 5" "\<not> (6 :: u32) <s 1" "\<not> (8 :: u32) <s 6" "\<not> (7 :: u32) <s 1" "\<not> (8 :: u32) <s 7"
  "\<not> (8 :: u32) <s 1" "\<not> (8 :: u32) <s 8"
  by code_simp+

lemma int80_calls:
  "int80 env 3 b c d k = map_option (apsnd sti) (sys_read b c d (trapped env k))"
  "int80 env 4 b c d k = map_option (apsnd sti) (sys_write (s_stack (u_sys env k)) (s_uninit (u_sys env k)) b c d (trapped env k))"
  "int80 env 5 b c d k = map_option (apsnd sti) (sys_open (s_uninit (u_sys env k)) b (trapped env k))"
  "int80 env 6 b c d k = map_option (apsnd sti) (sys_close (s_uninit (u_sys env k)) b (trapped env k))"
  "int80 env 7 b c d k = map_option (apsnd sti) (getargs b c (trapped env k))"
  "int80 env 8 b c d k = Some (apsnd sti (vidmap b (trapped env k)))"
proof -
  have "sti (cli (enter_kernel env k)) = trapped env k"
    by (simp add: sti_def cli_def enter_kernel_def trapped_def)
  then have entry: "sti (enter_kernel env k) = trapped env k" by simp
  have finish: "Option.bind (map_option (\<lambda>out. case out of Returns r k \<Rightarrow> Returns r (sti (cli k)) | To_user eip esp k \<Rightarrow> out | Resumes r k \<Rightarrow> out)
      (map_option returning x)) (\<lambda>out. case out of Returns r k \<Rightarrow> Some (r, k) | To_user eip esp k \<Rightarrow> u_child env eip esp k | Resumes r k \<Rightarrow> None)
      = map_option (apsnd sti) x" for x
    by (cases x) (auto simp: returning_def apsnd_def map_prod_def split: prod.splits)
  show "int80 env 3 b c d k = map_option (apsnd sti) (sys_read b c d (trapped env k))"
    "int80 env 4 b c d k = map_option (apsnd sti) (sys_write (s_stack (u_sys env k)) (s_uninit (u_sys env k)) b c d (trapped env k))"
    "int80 env 5 b c d k = map_option (apsnd sti) (sys_open (s_uninit (u_sys env k)) b (trapped env k))"
    "int80 env 6 b c d k = map_option (apsnd sti) (sys_close (s_uninit (u_sys env k)) b (trapped env k))"
    "int80 env 7 b c d k = map_option (apsnd sti) (getargs b c (trapped env k))"
    unfolding int80_def system_call_handler_def system_call_jump_table_def Let_def
    by (simp_all add: signed_calls entry finish del: option.map_comp)
  show "int80 env 8 b c d k = Some (apsnd sti (vidmap b (trapped env k)))"
    unfolding int80_def system_call_handler_def system_call_jump_table_def Let_def
    by (simp add: signed_calls entry returning_def apsnd_def map_prod_def split: prod.splits)
qed

lemma int80_refused: "eax <s 1 \<or> 8 <s eax \<Longrightarrow> int80 env eax b c d k = Some (- 1, trapped env k)"
  by (auto simp: int80_def system_call_handler_def Let_def sti_def cli_def enter_kernel_def trapped_def)


section \<open>Writing to the screen\<close>

text \<open>Only the screen, its cursor and the registers of the call change.\<close>

definition print_step :: "kernel \<Rightarrow> kernel \<Rightarrow> bool" where
  "print_step k k' \<longleftrightarrow>
     (\<exists>m log b e x y. k' = k\<lparr>mem := m, io_log := log, iflag := b, r_esp := e, screen_x := x, screen_y := y\<rparr> \<and>
       (\<forall>a. \<not> in_range VIDEO 4000 a \<longrightarrow> m a = mem k a))"

lemma print_stepI:
  assumes "k' = k\<lparr>mem := mem k', io_log := io_log k', iflag := iflag k', r_esp := r_esp k', screen_x := screen_x k', screen_y := screen_y k'\<rparr>"
    and "\<And>a. \<not> in_range VIDEO 4000 a \<Longrightarrow> mem k' a = mem k a"
  shows "print_step k k'"
  unfolding print_step_def using assms by blast

lemma print_step_user:
  assumes "print_step k k'"
  shows "user_step W k k'"
proof -
  obtain m log b e x y where k': "k' = k\<lparr>mem := m, io_log := log, iflag := b, r_esp := e, screen_x := x, screen_y := y\<rparr>"
    and m: "\<And>a. \<not> in_range VIDEO 4000 a \<Longrightarrow> m a = mem k a"
    using assms unfolding print_step_def by blast
  show ?thesis
    by (rule user_stepI [where m = m and log = log and b = b and e = e and x = x and y = y and loc = "directoryLoc k" and
        i = "key_buffer_idx k" and ts = "terminal k" and fs = "proc_fds k"]) (simp_all add: k' m proc_fds_def may_write_def)
qed

lemma print_step_fields:
  "print_step k k' \<Longrightarrow> proc_fds k' = proc_fds k \<and> directoryLoc k' = directoryLoc k \<and> terminal k' = terminal k \<and>
     pcbs k' = pcbs k \<and> key_buffer k' = key_buffer k \<and> key_buffer_idx k' = key_buffer_idx k \<and> keyboard_enabled k' = keyboard_enabled k"
  unfolding print_step_def by (elim exE conjE) (simp add: proc_fds_def current_process_def)

lemma print_step_trapped: "print_step k (trapped env k)"
  by (rule print_stepI) (simp_all add: trapped_def)

lemma print_step_trans: "print_step k k1 \<Longrightarrow> print_step k1 k2 \<Longrightarrow> print_step k k2"
  unfolding print_step_def by (elim exE conjE, hypsubst, intro exI conjI) auto

lemma screen_step_print:
  assumes "screen_step (cli (trapped env k)) k'"
  shows "print_step k (sti (sti k'))"
proof -
  obtain m log x y where k': "k' = (cli (trapped env k))\<lparr>mem := m, io_log := log, screen_x := x, screen_y := y\<rparr>"
    and m: "\<And>a. \<not> in_range VIDEO 4000 a \<Longrightarrow> m a = mem (cli (trapped env k)) a"
    using assms unfolding screen_step_def by blast
  show ?thesis
    by (rule print_stepI) (simp_all add: k' sti_def cli_def trapped_def m)
qed

lemma user_page_0: "in_user_page a \<Longrightarrow> a \<noteq> 0"
  by (auto simp: in_user_page_def)

lemma user_backed:
  assumes "user_mapped k" and "0x800000 \<le> unat (user_frame k)" and "\<And>i. i < n \<Longrightarrow> in_user_page (a + word_of_nat i)"
  shows "backed_outside (in_range VIDEO 4000) k a n"
  unfolding backed_outside_def
proof (intro allI impI)
  fix i assume "i < n"
  then have "in_user_page (a + word_of_nat i)" by (rule assms(3))
  note this user_translate [OF assms(1) this] user_offset [OF this, of k]
  then show "\<exists>f u. translate k (a + word_of_nat i) = Some (f, u) \<and> \<not> in_range VIDEO 4000 f"
    using frame_not_video(1) [OF assms(2)] by auto
qed

text \<open>A string of the program, and that it stays one.\<close>

definition user_string :: "kernel \<Rightarrow> addr \<Rightarrow> u8 list \<Rightarrow> bool" where
  "user_string k a xs \<longleftrightarrow> cstr (ptr a (vmem k)) xs \<and> (\<forall>i\<le>length xs. in_user_page (a + word_of_nat i))"

lemma user_string_kept:
  assumes "user_string k a xs" and "user_step W k k'" and "program_ok env k"
    and "\<And>i. i \<le> length xs \<Longrightarrow> \<not> W (a + word_of_nat i)"
  shows "user_string k' a xs"
proof -
  have "vmem k' (a + word_of_nat i) = vmem k (a + word_of_nat i)" if "i \<le> length xs" for i
    using assms(1,3) that by (intro user_step_vmem [OF assms(2) _ _ _ assms(4)]) (auto simp: user_string_def program_ok_def)
  then show ?thesis
    using assms(1) cstr_ptr_cong [of a "vmem k" xs "vmem k'"] by (auto simp: user_string_def)
qed

lemma std_fds_std: "std_fds ! 0 = \<lparr>fops_ptr = fops_STDIN, inode = - 1, file_position = 0, flags = 1\<rparr>"
  "std_fds ! 1 = \<lparr>fops_ptr = fops_STDOUT, inode = - 1, file_position = 0, flags = 1\<rparr>"
  by (simp_all add: std_fds_def)

lemma print_keeps_program:
  assumes "program_ok env k" and "print_step k k'" and "screen_ok k'"
  shows "program_ok env k'"
proof -
  have "proc_fds k' = proc_fds k" using print_step_fields [OF assms(2)] by simp
  then show ?thesis
    using assms(1) by (intro program_ok_step [OF assms(1) print_step_user [OF assms(2), of "\<lambda>_. False"] assms(3)])
      (simp_all add: program_ok_def)
qed

lemma user_write:
  assumes ok: "program_ok env k" and str: "user_string k a xs" and "37 \<notin> set xs"
  shows "\<exists>k'. ece391_write env 1 a n k = Some (word_of_nat (length xs), k') \<and> print_step k k' \<and> program_ok env k' \<and>
    fore_console k' = fold con_putc xs (fore_console k)"
proof -
  let ?t = "trapped env k" and ?e = "u_sys env k"
  have "in_user_page (a + word_of_nat 0)" using str unfolding user_string_def by blast
  then have in0: "in_user_page a" by simp
  have pre: "screen_ok ?t" "cur_term ?t = cur_active_terminal ?t" "cstr (vptr a ?t) xs"
    using ok str by (simp_all add: program_ok_def user_string_def vptr_def ptr_def)
  have "backed_outside (in_range VIDEO 4000) k a (length xs + 1)"
    using ok str by (intro user_backed) (simp_all add: program_ok_def user_string_def less_Suc_eq_le)
  then have "backed_outside (in_range VIDEO 4000) ?t a (length xs + 1)" by (simp add: backed_outside_def)
  from terminal_write_prints [OF pre this assms(3), of "s_stack ?e" n] obtain k0 where
    k0: "terminal_write (s_stack ?e) a n ?t = Some (word_of_nat (length xs), sti k0)"
    "fore_console k0 = fold con_putc xs (fore_console k)" "screen_ok k0" "screen_step (cli ?t) k0" by auto
  have fd: "fds (pcbs k (current_process k)) ! 1 = \<lparr>fops_ptr = fops_STDOUT, inode = - 1, file_position = 0, flags = 1\<rparr>"
    using ok std_fds_std by (simp only: program_ok_def proc_fds_def)
  have cur: "get_pcb_ptr_process (scast (apn (terminal k (cur_active_terminal k)))) = current_process k"
    by (simp add: current_process_def)
  have "sys_write (s_stack ?e) (s_uninit ?e) 1 a n ?t = Some (word_of_nat (length xs), sti k0)"
    using k0(1) fd user_page_0 [OF in0] small_fd [of 1] by (simp add: sys_write_def Let_def cur FD_OCCUP_def fops_STDOUT_def)
  then have call: "ece391_write env 1 a n k = Some (word_of_nat (length xs), sti (sti k0))"
    by (simp add: ece391_write_def DO_CALL_def SYS_WRITE_def int80_calls)
  have step: "print_step k (sti (sti k0))" by (rule screen_step_print [OF k0(4)])
  have "screen_ok (sti (sti k0))" using k0(3) by (simp add: screen_ok_def sti_def)
  then have "program_ok env (sti (sti k0))" by (rule print_keeps_program [OF ok step])
  moreover have "fore_console (sti (sti k0)) = fold con_putc xs (fore_console k)"
    using k0(2) by (simp add: fore_console_def sti_def)
  ultimately show ?thesis using call step by blast
qed

lemma user_fdputs:
  assumes "program_ok env k" and "user_string k a xs" and "37 \<notin> set xs"
  shows "\<exists>k'. ece391_fdputs env 1 a k = Some k' \<and> print_step k k' \<and> program_ok env k' \<and>
    fore_console k' = fold con_putc xs (fore_console k)"
proof -
  have "ece391_strlen (vmem k) a = Some (word_of_nat (length xs))"
    unfolding strlen_same using assms(2) by (intro strlen_cstr) (simp add: user_string_def)
  then show ?thesis using user_write [OF assms, of "word_of_nat (length xs)"] by (auto simp: ece391_fdputs_def)
qed


section \<open>Storing in the memory of the program\<close>

lemma buffer_mem:
  assumes "user_mapped k" and page: "\<And>i. i < length xs \<Longrightarrow> in_user_page (buf + word_of_nat i)" and "length xs < 4294967296"
    and out: "\<not> (a - user_frame k < 0x400000 \<and> in_range buf (length xs) (0x8000000 + (a - user_frame k)))"
  shows "mem (set_vmem (write_bytes buf xs (vmem k)) k) a = mem k a"
proof (cases "a - user_frame k < 0x400000")
  case True
  let ?v = "0x8000000 + (a - user_frame k)"
  have "in_user_page ?v" using True by (simp add: in_user_page_def word_less_unat)
  moreover have "write_bytes buf xs (vmem k) ?v = vmem k ?v" using out True assms(3) by (intro write_bytes_outside) auto
  ultimately show ?thesis
    using True user_vmem [OF assms(1)] user_page_present [OF assms(1)] by (simp add: mem_set_vmem user_frame_def)
next
  case False
  have "write_bytes buf xs (vmem k) a = mem k a" if id: "map_option fst (translate k a) = Some a"
  proof -
    have "\<not> in_range buf (length xs) a"
    proof
      assume "in_range buf (length xs) a"
      then obtain i where "i < length xs" "a = buf + word_of_nat i" using range_addr unfolding in_range_def by blast
      then have p: "in_user_page a" using page by simp
      then show False using user_translate [OF assms(1) p] id user_offset [OF p, of k] False by simp
    qed
    then have "write_bytes buf xs (vmem k) a = vmem k a" using assms(3) by (intro write_bytes_outside) auto
    then show ?thesis using id by (auto simp: vmem_def)
  qed
  then show ?thesis using False by (simp add: mem_set_vmem user_frame_def)
qed

lemma buffer_step:
  assumes "user_mapped k" and "\<And>i. i < length xs \<Longrightarrow> in_user_page (buf + word_of_nat i)" and "length xs < 4294967296"
  shows "user_step (in_range buf (length xs)) k (set_vmem (write_bytes buf xs (vmem k)) k)"
proof -
  let ?k = "set_vmem (write_bytes buf xs (vmem k)) k"
  show ?thesis
  proof (rule user_stepI [where m = "mem ?k" and log = "io_log k" and b = "iflag k" and e = "r_esp k" and
        x = "screen_x k" and y = "screen_y k" and loc = "directoryLoc k" and i = "key_buffer_idx k" and ts = "terminal k" and
        fs = "proc_fds k"])
    show "mem ?k a = mem k a" if "\<not> may_write (in_range buf (length xs)) k a" for a
      using buffer_mem [OF assms, of a] that by (auto simp: may_write_def)
  qed (simp_all add: proc_fds_def set_vmem_def)
qed

lemma buffer_screen:
  assumes "user_mapped k" and "\<And>i. i < length xs \<Longrightarrow> in_user_page (buf + word_of_nat i)" and "length xs < 4294967296"
    and "0x800000 \<le> unat (user_frame k)"
  shows "fore_console (set_vmem (write_bytes buf xs (vmem k)) k) = fore_console k"
    "screen_ok (set_vmem (write_bytes buf xs (vmem k)) k) = screen_ok k"
proof -
  let ?k = "set_vmem (write_bytes buf xs (vmem k)) k"
  have "mem ?k a = mem k a" if "in_range VIDEO 4000 a" for a
    using frame_not_video(1) [OF assms(4)] that by (intro buffer_mem [OF assms(1-3)]) auto
  then have "screen_text VIDEO (mem ?k) = screen_text VIDEO (mem k)"
    by (intro nth_equalityI) (use cell_in_video(1) in \<open>simp_all add: screen_text_nth\<close>)
  then show "fore_console ?k = fore_console k" "screen_ok ?k = screen_ok k"
    by (simp_all add: fore_console_def screen_ok_def set_vmem_def)
qed

lemma buffer_vmem:
  assumes "user_mapped k" and "i < length xs" and "in_user_page (buf + word_of_nat i)" and "length xs < 4294967296"
  shows "vmem (set_vmem (write_bytes buf xs (vmem k)) k) (buf + word_of_nat i) = xs ! i"
  using assms vmem_set_user [OF assms(1,3)] by (simp add: write_bytes_inside)

text \<open>A store of the program itself.\<close>

lemma user_store_result:
  assumes "user_mapped k" and "in_user_page a"
  shows "user_store a c k = Some (set_vmem (write_bytes a [c] (vmem k)) k)"
  using user_translate [OF assms] by (simp add: user_store_def store_user_def)


section \<open>Files\<close>

text \<open>A step that does not show on the screen.\<close>

definition silent_step :: "(addr \<Rightarrow> bool) \<Rightarrow> kernel \<Rightarrow> kernel \<Rightarrow> bool" where
  "silent_step W k k' \<longleftrightarrow> user_step W k k' \<and> fore_console k' = fore_console k \<and> screen_ok k' = screen_ok k"

lemma silent_step_trans: "silent_step W k k1 \<Longrightarrow> silent_step W k1 k2 \<Longrightarrow> silent_step W k k2"
  unfolding silent_step_def using user_step_trans by auto

lemma silent_step_refl: "silent_step W k k"
  by (simp add: silent_step_def user_step_refl)

lemma silent_trapped: "silent_step W k (trapped env k)"
  using print_step_trapped print_step_user by (simp add: silent_step_def)

lemma silent_mono: "silent_step W k k' \<Longrightarrow> (\<And>a. W a \<Longrightarrow> W' a) \<Longrightarrow> silent_step W' k k'"
  using user_step_mono unfolding silent_step_def by blast

lemma silent_keeps_program:
  assumes "program_ok env k" and "silent_step W k k'"
    and "length (proc_fds k') = 8" "proc_fds k' ! 0 = std_fds ! 0" "proc_fds k' ! 1 = std_fds ! 1"
  shows "program_ok env k'"
  using assms by (intro program_ok_step [OF assms(1), of W]) (auto simp: silent_step_def program_ok_def)

lemma silent_buffer:
  assumes "program_ok env k" and "\<And>i. i < length xs \<Longrightarrow> in_user_page (buf + word_of_nat i)" and "length xs < 4294967296"
  shows "silent_step (in_range buf (length xs)) k (set_vmem (write_bytes buf xs (vmem k)) k)"
    "proc_fds (set_vmem (write_bytes buf xs (vmem k)) k) = proc_fds k"
    "program_ok env (set_vmem (write_bytes buf xs (vmem k)) k)"
proof -
  let ?k = "set_vmem (write_bytes buf xs (vmem k)) k"
  have um: "user_mapped k" "0x800000 \<le> unat (user_frame k)" using assms(1) by (simp_all add: program_ok_def)
  show step: "silent_step (in_range buf (length xs)) k ?k"
    using buffer_step [OF um(1) assms(2,3)] buffer_screen [OF um(1) assms(2,3) um(2)] by (simp add: silent_step_def)
  show fds: "proc_fds ?k = proc_fds k" by (simp add: proc_fds_def current_process_def)
  show "program_ok env ?k" using assms(1) by (intro silent_keeps_program [OF assms(1) step]) (simp_all add: fds program_ok_def)
qed

lemma trapped_pcb: "program_ok env k \<Longrightarrow> get_pcb_ptr (trapped env k) = current_process k"
  by (simp add: program_ok_def enter_kernel_def trapped_def get_pcb_ptr_def)

lemma trapped_fd_table: "program_ok env k \<Longrightarrow> fd_table (trapped env k) = proc_fds k"
  by (simp add: fd_table_def trapped_pcb proc_fds_def)

definition free_fd :: "kernel \<Rightarrow> nat option" where
  "free_fd k = find (\<lambda>i. flags (proc_fds k ! i) = 0) [2..<8]"

lemma lookup_name_trapped [simp]: "lookup_name (trapped env k) xs = lookup_name k xs"
  by (simp add: lookup_name_def)

lemma user_open_fails:
  assumes "program_ok env k" and "user_string k a xs" and "lookup_name k xs = None \<or> free_fd k = None"
  shows "ece391_open env a k = Some (- 1, trapped env k)"
proof -
  have "cstr (vptr a (trapped env k)) xs" using assms(2) by (simp add: user_string_def vptr_def ptr_def)
  moreover have "free_slot (trapped env k) = free_fd k" by (simp add: free_slot_def free_fd_def trapped_fd_table [OF assms(1)])
  ultimately have "sys_open u a (trapped env k) = Some (- 1, trapped env k)" for u
    using assms(3) by (intro sys_open_fails) simp_all
  then show ?thesis by (simp add: ece391_open_def DO_CALL_def SYS_OPEN_def int80_calls)
qed

text \<open>A call that changes one descriptor.\<close>

lemma descriptor_step:
  assumes ok: "program_ok env k" and "2 \<le> i" and port: "port_step (with_descriptor i f (trapped env k)) k1"
  shows "silent_step W k (sti k1)" "program_ok env (sti k1)" "proc_fds (sti k1) = (proc_fds k)[i := f]"
    "directoryLoc (sti k1) = directoryLoc k" "vmem (sti k1) = vmem k"
proof -
  obtain log where log: "k1 = (with_descriptor i f (trapped env k))\<lparr>io_log := log\<rparr>"
    using port unfolding port_step_def by blast
  have wd: "with_descriptor i f (trapped env k) =
      (trapped env k)\<lparr>pcbs := (pcbs k)(current_process k := (pcbs k (current_process k))\<lparr>fds := (proc_fds k)[i := f]\<rparr>)\<rparr>"
    by (simp add: with_descriptor_def upd_pcb_def trapped_pcb [OF ok] proc_fds_def)
  have state: "sti k1 = k\<lparr>iflag := True, r_esp := esp0 (tss k) - u_depth env, io_log := log,
      pcbs := (pcbs k)(current_process k := (pcbs k (current_process k))\<lparr>fds := (proc_fds k)[i := f]\<rparr>)\<rparr>"
    unfolding log wd by (simp add: trapped_def sti_def)
  show fds: "proc_fds (sti k1) = (proc_fds k)[i := f]" "directoryLoc (sti k1) = directoryLoc k" "vmem (sti k1) = vmem k"
    by (simp_all add: state proc_fds_def current_process_def)
  have "user_step W k (sti k1)"
    by (rule user_stepI [where m = "mem k" and log = log and b = True and e = "esp0 (tss k) - u_depth env" and
        x = "screen_x k" and y = "screen_y k" and loc = "directoryLoc k" and i = "key_buffer_idx k" and ts = "terminal k" and
        fs = "(proc_fds k)[i := f]"]) (simp_all add: state)
  then show step: "silent_step W k (sti k1)"
    by (simp add: silent_step_def fore_console_def screen_ok_def state)
  show "program_ok env (sti k1)"
    using ok assms(2) by (intro silent_keeps_program [OF ok step]) (simp_all add: fds program_ok_def)
qed

lemma user_open:
  assumes ok: "program_ok env k" and str: "user_string k a xs" and "lookup_name k xs = Some d"
    and "free_fd k = Some i" and "opened_file d = Some (ops, ino)"
  shows "\<exists>k'. ece391_open env a k = Some (word_of_nat i, k') \<and> silent_step W k k' \<and> program_ok env k' \<and>
    proc_fds k' = (proc_fds k)[i := new_descriptor ops ino] \<and> directoryLoc k' = directoryLoc k \<and> vmem k' = vmem k"
proof -
  let ?t = "trapped env k"
  have free: "free_slot ?t = Some i" using assms(4) by (simp add: free_slot_def free_fd_def trapped_fd_table [OF ok])
  have i: "2 \<le> i" using assms(4) find_in_range [of _ 2 8 i] by (auto simp: free_fd_def)
  have "cstr (vptr a ?t) xs" "length (fd_table ?t) = 8" "lookup_name ?t xs = Some d"
    using ok str assms(3) by (simp_all add: user_string_def vptr_def ptr_def trapped_fd_table program_ok_def)
  from sys_open_takes [OF this free assms(5), of "s_uninit (u_sys env k)"] obtain k1 where
    k1: "port_step (with_descriptor i (new_descriptor ops ino) ?t) k1" "sys_open (s_uninit (u_sys env k)) a ?t = Some (word_of_nat i, k1)"
    by blast
  have "ece391_open env a k = Some (word_of_nat i, sti k1)"
    by (simp add: ece391_open_def DO_CALL_def SYS_OPEN_def int80_calls k1(2))
  then show ?thesis using descriptor_step [OF ok i k1(1)] by blast
qed

lemma user_close:
  assumes ok: "program_ok env k" and i: "2 \<le> i" "i < 8" and "flags (proc_fds k ! i) \<noteq> 0"
    and "fops_ptr (proc_fds k ! i) \<in> {fops_rtc, fops_dir, fops_file}"
  shows "\<exists>k'. ece391_close env (word_of_nat i) k = Some (0, k') \<and> silent_step W k k' \<and> program_ok env k' \<and>
    proc_fds k' = (proc_fds k)[i := (proc_fds k ! i)\<lparr>flags := 0\<rparr>] \<and> directoryLoc k' = directoryLoc k \<and> vmem k' = vmem k"
proof -
  let ?t = "trapped env k"
  have "length (fd_table ?t) = 8" using ok by (simp add: trapped_fd_table program_ok_def)
  then obtain k1 where k1: "port_step (with_descriptor i ((proc_fds k ! i)\<lparr>flags := 0\<rparr>) ?t) k1"
    "sys_close (s_uninit (u_sys env k)) (word_of_nat i) ?t = Some (0, k1)"
    using sys_close_open [OF i, of ?t "s_uninit (u_sys env k)"] assms(4,5) by (auto simp: trapped_fd_table [OF ok])
  have "ece391_close env (word_of_nat i) k = Some (0, sti k1)"
    by (simp add: ece391_close_def DO_CALL_def SYS_CLOSE_def int80_calls k1(2))
  then show ?thesis using descriptor_step [OF ok i(1) k1(1)] by blast
qed

lemma ranges_apart:
  assumes "unat (b :: addr) + k \<le> unat a" and "unat a + n \<le> 4294967296"
  shows "disjoint_range a n b k"
proof (cases "k = 0")
  case False
  then have less: "b \<le> a" "a \<noteq> b" using assms(1) by (auto simp: word_le_unat)
  have ab: "unat (a - b) = unat a - unat b" using less(1) by (rule unat_sub32)
  have "unat (b - a) = 4294967296 - (unat a - unat b)" using unat_minus_swap [of b a] less(2) ab by simp
  then show ?thesis using assms ab unfolding disjoint_range_def by linarith
qed (simp add: disjoint_range_def)

lemma user_page_unat: "in_user_page a \<Longrightarrow> 0x8000000 \<le> unat a \<and> unat a < 0x8400000"
proof -
  assume "in_user_page a"
  then have o: "unat (a - 0x8000000) < 0x400000" by (simp add: in_user_page_def)
  have "unat (0x8000000 + (a - 0x8000000)) = unat (0x8000000 :: addr) + unat (a - 0x8000000)"
    using o by (intro unat_add32) simp
  then show ?thesis using o by simp
qed

lemma program_files:
  assumes "program_ok env k" and "0 < n" "n \<le> 0x400000" "\<And>i. i < n \<Longrightarrow> in_user_page (buf + word_of_nat i)"
  shows "image_visible k" "user_buffer k buf n" "n = 33 \<Longrightarrow> directory_ready k buf"
proof -
  have ok: "kernel_mapped k" "image_in_kernel k" "user_mapped k" "directory_ok (FILESYSLOC k) (vmem k)"
    using assms(1) by (simp_all add: program_ok_def)
  show vis: "image_visible k"
    unfolding image_visible_def using in_image_range [OF ok(2)] kernel_identity [OF ok(1)] by simp
  have "in_user_page (buf + word_of_nat 0)" using assms(2,4) by blast
  then have "0x8000000 \<le> unat buf" "unat buf < 0x8400000" using user_page_unat [of buf] by simp_all
  then have "disjoint_range buf n (FILESYSLOC k) (image_size (FILESYSLOC k) (vmem k))"
    using ok(2) assms(3) by (intro ranges_apart) (simp_all add: image_in_kernel_def)
  then show ub: "user_buffer k buf n" using assms(3,4) by (simp add: user_buffer_def)
  show "n = 33 \<Longrightarrow> directory_ready k buf" using vis ub ok by (simp add: directory_ready_def)
qed

lemma user_read_name:
  assumes ok: "program_ok env k" and fd: "proc_fds k ! i = new_descriptor fops_dir ino" "i < 8"
    and buf: "\<And>j. j < 33 \<Longrightarrow> in_user_page (buf + word_of_nat j)" and loc: "unat (directoryLoc k) < length (names k)"
  shows "\<exists>k'. ece391_read env (word_of_nat i) buf n k = Some (word_of_nat (length (names k ! unat (directoryLoc k))), k') \<and>
    silent_step (in_range buf 33) k k' \<and> program_ok env k' \<and> proc_fds k' = proc_fds k \<and>
    bytes (vmem k') buf 33 = names k ! unat (directoryLoc k) @ replicate (33 - length (names k ! unat (directoryLoc k))) 0 \<and>
    unat (directoryLoc k') = Suc (unat (directoryLoc k))"
proof -
  let ?t = "trapped env k" and ?name = "names k ! unat (directoryLoc k)"
  have tok: "program_ok env ?t"
    using ok by (intro print_keeps_program [OF ok print_step_trapped]) (simp add: program_ok_def)
  have ready: "directory_ready ?t buf" by (rule program_files [OF tok _ _ buf]) simp_all
  have loct: "unat (directoryLoc ?t) < length (names ?t)" using loc by simp
  obtain k1 where k1: "directory_read (word_of_nat i) buf n ?t = Some (word_of_nat (length ?name), k1)"
    "bytes (vmem k1) buf 33 = ?name @ replicate (33 - length ?name) 0" "unat (directoryLoc k1) = Suc (unat (directoryLoc k))"
    "k1 = name_stored buf ?name ?t"
    using directory_read_entry [OF ready loct, of "word_of_nat i" n] by auto
  have in0: "in_user_page buf" using buf [of 0] by simp
  have "fds (pcbs k (current_process k)) ! i = new_descriptor fops_dir ino" using fd(1) by (simp add: proc_fds_def)
  then have "sys_read (word_of_nat i) buf n ?t = Some (word_of_nat (length ?name), k1)"
    using k1(1) small_fd [OF fd(2)] user_page_0 [OF in0]
    by (simp add: sys_read_def Let_def trapped_pcb [OF ok] new_descriptor_def FD_OCCUP_def fops_dir_def)
  then have call: "ece391_read env (word_of_nat i) buf n k = Some (word_of_nat (length ?name), sti k1)"
    by (simp add: ece391_read_def DO_CALL_def SYS_READ_def int80_calls)
  have len: "length ?name \<le> 32" using loc by (simp add: names_def dentry_name_facts)
  define a where "a = set_vmem (write_bytes buf (replicate 33 0) (vmem ?t)) ?t"
  define b where "b = set_vmem (write_bytes buf ?name (vmem a)) a"
  have ka: "silent_step (in_range buf 33) ?t a" "program_ok env a" "proc_fds a = proc_fds k"
    using silent_buffer [OF tok, of "replicate 33 0" buf] buf by (simp_all add: a_def)
  have bufn: "in_user_page (buf + word_of_nat j)" if "j < length ?name" for j using buf len that by simp
  have kb: "silent_step (in_range buf (length ?name)) a b" "program_ok env b" "proc_fds b = proc_fds a"
    using silent_buffer [OF ka(2) bufn] len by (simp_all add: b_def)
  have k1b: "k1 = b\<lparr>directoryLoc := directoryLoc k + 1\<rparr>" by (simp add: k1(4) name_stored_def Let_def a_def b_def)
  have "silent_step (in_range buf 33) a b" using kb(1) by (rule silent_mono) (use len in \<open>auto simp: in_range_def\<close>)
  moreover have "silent_step (in_range buf 33) b (sti k1)"
  proof -
    have "user_step (in_range buf 33) b (sti k1)"
      by (rule user_stepI [where m = "mem b" and log = "io_log b" and b = True and e = "r_esp b" and x = "screen_x b" and
          y = "screen_y b" and loc = "directoryLoc k + 1" and i = "key_buffer_idx b" and ts = "terminal b" and fs = "proc_fds b"])
        (simp_all add: k1b sti_def proc_fds_def)
    then show ?thesis by (simp add: silent_step_def k1b sti_def fore_console_def screen_ok_def)
  qed
  ultimately have step: "silent_step (in_range buf 33) k (sti k1)"
    using silent_step_trans [OF silent_trapped silent_step_trans [OF ka(1) silent_step_trans]] by blast
  have fds: "proc_fds (sti k1) = proc_fds k"
  proof -
    have "proc_fds (sti k1) = proc_fds b" by (simp add: k1b sti_def proc_fds_def current_process_def)
    then show ?thesis using kb(3) ka(3) by simp
  qed
  have "program_ok env (sti k1)" using ok by (intro silent_keeps_program [OF ok step]) (simp_all add: fds program_ok_def)
  moreover have "vmem (sti k1) = vmem k1" by (rule vmem_cong) (simp_all add: sti_def fun_eq_iff)
  moreover have "directoryLoc (sti k1) = directoryLoc k1" by (simp add: sti_def)
  ultimately show ?thesis using call step fds k1(2,3) by auto
qed


section \<open>Calls that are refused\<close>

lemma user_string_trapped [simp]: "user_string (trapped env k) a xs = user_string k a xs"
  by (simp add: user_string_def)

lemma trapped_ok: "program_ok env k \<Longrightarrow> program_ok env (trapped env k)"
  by (rule print_keeps_program [OF _ print_step_trapped]) (simp_all add: program_ok_def)

lemma user_bad_fd:
  "fd <s 0 \<or> 7 <s fd \<Longrightarrow> ece391_read env fd buf n k = Some (- 1, trapped env k)"
  "fd <s 0 \<or> 7 <s fd \<Longrightarrow> ece391_write env fd buf n k = Some (- 1, trapped env k)"
  "fd <s 2 \<or> 7 <s fd \<Longrightarrow> ece391_close env fd k = Some (- 1, trapped env k)"
  by (auto simp: ece391_read_def ece391_write_def ece391_close_def DO_CALL_def SYS_READ_def SYS_WRITE_def SYS_CLOSE_def
      int80_calls sys_read_def sys_write_def sys_close_def Let_def)

lemma user_closed_fd:
  assumes "program_ok env k" and "2 \<le> i" "i < 8" and "flags (proc_fds k ! i) = 0"
  shows "ece391_read env (word_of_nat i) buf n k = Some (- 1, trapped env k)"
    "ece391_write env (word_of_nat i) buf n k = Some (- 1, trapped env k)"
    "ece391_close env (word_of_nat i) k = Some (- 1, trapped env k)"
proof -
  have fl: "flags (fds (pcbs k (current_process k)) ! i) = 0" using assms(4) by (simp add: proc_fds_def)
  have cur: "get_pcb_ptr_process (scast (apn (terminal k (cur_active_terminal k)))) = current_process k"
    by (simp add: current_process_def)
  show "ece391_read env (word_of_nat i) buf n k = Some (- 1, trapped env k)"
    "ece391_write env (word_of_nat i) buf n k = Some (- 1, trapped env k)"
    "ece391_close env (word_of_nat i) k = Some (- 1, trapped env k)"
    using fl small_fd [OF assms(3)] assms(2)
    by (simp_all add: ece391_read_def ece391_write_def ece391_close_def DO_CALL_def SYS_READ_def SYS_WRITE_def SYS_CLOSE_def
      int80_calls sys_read_def sys_write_def sys_close_def Let_def trapped_pcb [OF assms(1)] cur FD_OCCUP_def)
qed

lemma user_wrong_way:
  assumes "program_ok env k"
  shows "ece391_write env 0 buf n k = Some (- 1, trapped env k)" "ece391_read env 1 buf n k = Some (- 1, trapped env k)"
proof -
  have fd: "fds (pcbs k (current_process k)) ! 0 = \<lparr>fops_ptr = fops_STDIN, inode = - 1, file_position = 0, flags = 1\<rparr>"
    "fds (pcbs k (current_process k)) ! 1 = \<lparr>fops_ptr = fops_STDOUT, inode = - 1, file_position = 0, flags = 1\<rparr>"
    using assms std_fds_std by (simp_all only: program_ok_def proc_fds_def)
  have cur: "get_pcb_ptr_process (scast (apn (terminal k (cur_active_terminal k)))) = current_process k"
    by (simp add: current_process_def)
  show "ece391_write env 0 buf n k = Some (- 1, trapped env k)" "ece391_read env 1 buf n k = Some (- 1, trapped env k)"
    using fd small_fd [of 1]
    by (simp_all add: ece391_read_def ece391_write_def DO_CALL_def SYS_READ_def SYS_WRITE_def int80_calls sys_read_def sys_write_def
      Let_def trapped_pcb [OF assms] cur FD_OCCUP_def fops_STDIN_def fops_STDOUT_def has_error_def)
qed

lemma user_bad_vidmap: "a = 0 \<or> a = 0x400000 \<Longrightarrow> ece391_vidmap env a k = Some (- 1, trapped env k)"
  by (auto simp: ece391_vidmap_def DO_CALL_def SYS_VIDMAP_def int80_calls vidmap_def)

section \<open>Reading a line\<close>

text \<open>A line is waiting for the program: \<^verbatim>\<open>ENTER\<close> was pressed on its terminal.\<close>

definition line_waiting :: "kernel \<Rightarrow> u8 list \<Rightarrow> bool" where
  "line_waiting k line \<longleftrightarrow> keyboard_ok k \<and> typed k = line @ [0x0A] \<and> length line < 127 \<and>
     eflag (terminal k (term_ptr (pcbs k (current_process k)))) \<noteq> 0"

lemma user_read_keys:
  assumes ok: "program_ok env k" and keys: "keyboard_ok k"
    and flag: "eflag (terminal k (term_ptr (pcbs k (current_process k)))) \<noteq> 0"
    and n: "n = min 127 (unat nb - 1)" and nb: "unat nb < 0x80000000" "1 < unat nb"
    and page: "\<And>i. i < n \<Longrightarrow> in_user_page (buf + word_of_nat i)"
  shows "\<exists>k'. ece391_read env 0 buf nb k = Some (word_of_nat n, k') \<and> silent_step (in_range buf n) k k' \<and> program_ok env k' \<and>
    proc_fds k' = proc_fds k \<and> directoryLoc k' = directoryLoc k \<and> bytes (vmem k') buf n = take n (key_array k) \<and> typed k' = []"
proof -
  let ?t = "trapped env k"
  let ?xs = "take n (key_array k)"
  let ?m = "set_vmem (write_bytes buf ?xs (vmem ?t)) ?t"
  have um: "user_mapped ?t" using ok by (simp add: program_ok_def)
  have arr: "key_array ?t = key_array k" "keyboard_ok ?t = keyboard_ok k"
    by (simp_all add: key_array_def key_terminal_def keyboard_ok_def)
  have len: "length ?xs = n" using keys n by (simp add: keyboard_ok_def)
  have nb0: "0 < unat nb" using nb(2) by simp
  have flagt: "eflag (terminal ?t (term_ptr (pcbs ?t (get_pcb_ptr ?t)))) \<noteq> 0" using flag by (simp add: trapped_pcb [OF ok])
  obtain k1 ts where k1: "terminal_read buf nb ?t = Some (word_of_nat n, k1)" "typed k1 = []"
    "k1 = ?m\<lparr>terminal := ts, key_buffer_idx := 0\<rparr>" "\<And>t. \<exists>e b. ts t = (terminal k t)\<lparr>eflag := e, t_key_buffer := b\<rparr>"
    using terminal_read_result [OF keys [folded arr(2)] um page n nb(1) nb0 flagt] by (auto simp: arr(1))
  have n0: "0 < n" using n nb(2) by simp
  have "in_user_page buf" using page [OF n0] by simp
  then have buf0: "buf \<noteq> 0" by (rule user_page_0)
  have "fds (pcbs k (current_process k)) ! 0 = \<lparr>fops_ptr = fops_STDIN, inode = - 1, file_position = 0, flags = 1\<rparr>"
    using ok std_fds_std by (simp only: program_ok_def proc_fds_def)
  then have "sys_read 0 buf nb ?t = Some (word_of_nat n, k1)"
    using k1(1) buf0 small_fd [of 0] by (simp add: sys_read_def Let_def trapped_pcb [OF ok] FD_OCCUP_def fops_STDIN_def)
  then have call: "ece391_read env 0 buf nb k = Some (word_of_nat n, sti k1)"
    by (simp add: ece391_read_def DO_CALL_def SYS_READ_def int80_calls)
  have pagex: "\<And>i. i < length ?xs \<Longrightarrow> in_user_page (buf + word_of_nat i)" using page len by simp
  note m = silent_buffer [OF trapped_ok [OF ok] pagex]
  have m: "silent_step (in_range buf n) ?t ?m" "proc_fds ?m = proc_fds k"
    using silent_buffer [OF trapped_ok [OF ok], of ?xs buf] page len n by simp_all
  have step: "silent_step (in_range buf n) ?m (sti k1)"
  proof -
    have "same_line (terminal ?m t) (ts t)" for t using k1(4) [of t] by (simp add: same_line_def)
    then have "user_step (in_range buf n) ?m (sti k1)"
      by (intro user_stepI [where m = "mem ?m" and log = "io_log ?m" and b = True and e = "r_esp ?m" and x = "screen_x ?m" and
          y = "screen_y ?m" and loc = "directoryLoc ?m" and i = 0 and ts = ts and fs = "proc_fds ?m"])
        (simp_all add: k1(3) sti_def proc_fds_def)
    then show ?thesis by (simp add: silent_step_def k1(3) sti_def fore_console_def screen_ok_def)
  qed
  have all: "silent_step (in_range buf n) k (sti k1)"
    by (rule silent_step_trans [OF silent_trapped silent_step_trans [OF m(1) step]])
  have "current_process (sti k1) = current_process ?m"
    using step user_step_fields(13) [of "in_range buf n" ?m "sti k1"] by (simp add: silent_step_def)
  then have fds: "proc_fds (sti k1) = proc_fds k" using m(2) by (simp add: proc_fds_def k1(3) sti_def)
  have "program_ok env (sti k1)" using ok by (intro silent_keeps_program [OF ok all]) (simp_all add: fds program_ok_def)
  moreover have "bytes (vmem (sti k1)) buf n = ?xs"
  proof (rule bytes_eqI)
    fix i assume i: "i < n"
    have "vmem (sti k1) = vmem ?m" by (rule vmem_cong) (simp_all add: k1(3) sti_def fun_eq_iff)
    moreover have "vmem ?m (buf + word_of_nat i) = ?xs ! i"
      using i page [OF i] len n by (intro buffer_vmem [OF um]) simp_all
    ultimately show "vmem (sti k1) (buf + word_of_nat i) = ?xs ! i" by simp
  qed (rule len)
  moreover have "directoryLoc (sti k1) = directoryLoc k" by (simp add: k1(3) sti_def)
  moreover have "typed (sti k1) = []" using k1(2) by (simp add: typed_def sti_def key_array_def key_terminal_def)
  ultimately show ?thesis using call all fds by blast
qed

lemma line_waiting_print: "print_step k k' \<Longrightarrow> screen_ok k' \<Longrightarrow> line_waiting k line \<Longrightarrow> line_waiting k' line"
  using print_step_fields [of k k'] print_step_user [of k k' "\<lambda>_. False"] user_step_fields(13) [of "\<lambda>_. False" k k']
  by (simp add: line_waiting_def keyboard_ok_def typed_def key_array_def key_terminal_def)

section \<open>Programs that print\<close>

text \<open>
  The literals of a program are in its page, where neither its arrays are (\<open>W\<close>) nor the kernel
  writes.
\<close>

definition literals_ok :: "user_env \<Rightarrow> (addr \<Rightarrow> bool) \<Rightarrow> kernel \<Rightarrow> string set \<Rightarrow> bool" where
  "literals_ok env W k L \<longleftrightarrow>
     (\<forall>s\<in>L. user_string k (u_lit env s) (ascii s) \<and> (\<forall>i\<le>length s. \<not> W (u_lit env s + word_of_nat i)))"

text \<open>The program has come from \<open>k\<close> to \<open>k'\<close> and the text \<open>xs\<close> is on the screen.\<close>

definition prints :: "user_env \<Rightarrow> (addr \<Rightarrow> bool) \<Rightarrow> kernel \<Rightarrow> u8 list \<Rightarrow> kernel \<Rightarrow> bool" where
  "prints env W k xs k' \<longleftrightarrow> user_step W k k' \<and> program_ok env k' \<and> fore_console k' = fold con_putc xs (fore_console k)"

lemma prints_trans: "prints env W k xs k1 \<Longrightarrow> prints env W k1 ys k2 \<Longrightarrow> prints env W k (xs @ ys) k2"
  unfolding prints_def using user_step_trans by auto

lemma prints_after_silent: "silent_step W k k1 \<Longrightarrow> prints env W k1 xs k2 \<Longrightarrow> prints env W k xs k2"
  unfolding prints_def silent_step_def using user_step_trans by auto

lemma prints_refl: "program_ok env k \<Longrightarrow> prints env W k [] k"
  by (simp add: prints_def user_step_refl)

lemma prints_silent: "silent_step W k k' \<Longrightarrow> program_ok env k' \<Longrightarrow> prints env W k [] k'"
  by (simp add: prints_def silent_step_def)

lemma prints_trapped: "program_ok env k \<Longrightarrow> prints env W k [] (trapped env k)"
  by (rule prints_silent [OF silent_trapped trapped_ok])

lemma length_ascii [simp]: "length (ascii s) = length s"
  by (simp add: ascii_def)

lemma literals_kept:
  assumes "literals_ok env W k L" and "user_step W k k'" and "program_ok env k"
  shows "literals_ok env W k' L"
  unfolding literals_ok_def
proof (intro ballI conjI)
  fix s assume "s \<in> L"
  then have s: "user_string k (u_lit env s) (ascii s)" "\<forall>i\<le>length s. \<not> W (u_lit env s + word_of_nat i)"
    using assms(1) by (simp_all add: literals_ok_def)
  show "user_string k' (u_lit env s) (ascii s)" using s(2) by (intro user_string_kept [OF s(1) assms(2,3)]) simp
  show "\<forall>i\<le>length s. \<not> W (u_lit env s + word_of_nat i)" by (rule s(2))
qed

lemma print_lit_result:
  assumes "program_ok env k" and "literals_ok env W k L" and "s \<in> L" and "37 \<notin> set (ascii s)"
  shows "\<exists>k'. print_lit env s k = Some k' \<and> prints env W' k (ascii s) k' \<and> print_step k k'"
  using user_fdputs [OF assms(1), of "u_lit env s" "ascii s"] assms(2-4) print_step_user
  by (auto simp: literals_ok_def print_lit_def prints_def)

lemma user_store_step:
  assumes ok: "program_ok env k" and "in_user_page a"
  shows "\<exists>k'. user_store a c k = Some k' \<and> silent_step (\<lambda>x. x = a) k k' \<and> program_ok env k' \<and> proc_fds k' = proc_fds k \<and>
    directoryLoc k' = directoryLoc k \<and> vmem k' a = c"
proof -
  let ?k = "set_vmem (write_bytes a [c] (vmem k)) k"
  have um: "user_mapped k" using ok by (simp add: program_ok_def)
  have page: "\<And>i. i < length [c] \<Longrightarrow> in_user_page (a + word_of_nat i)" using assms(2) by simp
  have "silent_step (in_range a (length [c])) k ?k" "proc_fds ?k = proc_fds k" "program_ok env ?k"
    by (rule silent_buffer [OF ok page]; simp)+
  moreover have "silent_step (in_range a (length [c])) k ?k \<Longrightarrow> silent_step (\<lambda>x. x = a) k ?k"
    by (erule silent_mono) (auto simp: in_range_def unat_eq_0)
  moreover have "vmem ?k a = c" using buffer_vmem [OF um, where i = 0 and xs = "[c]" and buf = a] assms(2) by simp
  ultimately show ?thesis using user_store_result [OF um assms(2), of c] by simp
qed

lemma small_word_facts: "0 < n \<Longrightarrow> n < 2000 \<Longrightarrow> (word_of_nat n :: u32) \<noteq> 0" "n < 2000 \<Longrightarrow> (word_of_nat n :: u32) \<noteq> - 1"
proof -
  have big: "unat (- 1 :: u32) = 4294967295" by (simp add: unsigned_minus_1_eq_mask mask_eq_exp_minus_1)
  show "0 < n \<Longrightarrow> n < 2000 \<Longrightarrow> (word_of_nat n :: u32) \<noteq> 0" by (simp add: word_neq_0_unat)
  show "n < 2000 \<Longrightarrow> (word_of_nat n :: u32) \<noteq> - 1" unfolding word_unat_eq_iff big by simp
qed

lemma free_fd_range: "free_fd k = Some i \<Longrightarrow> 2 \<le> i \<and> i < 8"
  using find_in_range [of _ 2 8 i] by (auto simp: free_fd_def)

lemma user_string_bytes:
  assumes "bytes (vmem k) buf N = xs @ 0 # ys" and "0 \<notin> set xs" and "N < 4294967296"
    and page: "\<And>i. i < N \<Longrightarrow> in_user_page (buf + word_of_nat i)"
  shows "user_string k buf xs"
proof -
  have len: "length xs < N" using arg_cong [OF assms(1), of length] by simp
  have at: "vmem k (buf + word_of_nat i) = (xs @ 0 # ys) ! i" if "i \<le> length xs" for i
    using nth_bytes [of i N "vmem k" buf] that len by (simp add: assms(1))
  have "cstr (ptr buf (vmem k)) xs"
    using at at [of "length xs"] assms(2,3) len by (auto simp: cstr_def ptr_def nth_append)
  then show ?thesis using page len by (simp add: user_string_def)
qed

lemma step_contents:
  assumes "program_ok env k" and "user_step W k k'" and "file_ok (FILESYSLOC k) (vmem k) ino"
  shows "FILESYSLOC k' = FILESYSLOC k" "file_ok (FILESYSLOC k') (vmem k') ino"
    "file_contents (FILESYSLOC k') (vmem k') ino = file_contents (FILESYSLOC k) (vmem k) ino"
  using same_image_file_contents [OF user_step_image(2) [OF assms(2,1)] assms(3)] user_step_fields(1) [OF assms(2)] by simp_all

lemma step_lookup:
  assumes "program_ok env k" and "user_step W k k'"
  shows "lookup_name k' xs = lookup_name k xs"
proof -
  have dir: "directory_ok (FILESYSLOC k) (vmem k)" using assms(1) by (simp add: program_ok_def)
  show ?thesis
    by (rule same_image_lookup(1) [OF user_step_image(2) [OF assms(2,1)] user_step_fields(1) [OF assms(2)] dir])
qed

end
