(* ===== verification/User_Sample.thy ===== *)
theory User_Sample
  imports User_Calls
begin

text \<open>
  A concrete machine on which user programs run: process 0 of the sample machine, with a list
  of string literals in its page, an argument and a line that has been typed. The hypotheses of
  the theorems on programs hold for it.
\<close>

section \<open>The machine\<close>

definition literal_index :: "string list \<Rightarrow> string \<Rightarrow> nat" where
  "literal_index lits s = length (takeWhile (\<lambda>t. t \<noteq> s) lits)"

definition program_env :: "string list \<Rightarrow> user_env" where
  "program_env lits = \<lparr>u_sys = (\<lambda>_. \<lparr>s_locals = some_locals, s_shell_locals = some_locals, s_uninit = 0, s_stack = (\<lambda>_. 0)\<rparr>),
     u_depth = 84, u_lit = (\<lambda>s. 0x8100000 + word_of_nat (256 * literal_index lits s)), u_junk = (\<lambda>_. 0),
     u_child = (\<lambda>_ _ _. None)\<rparr>"

text \<open>Each literal has 256 bytes, from 9 MB on, which process 0 sees at \<open>0x8100000\<close>.\<close>

definition program_mem :: "string list \<Rightarrow> mem" where
  "program_mem lits = (\<lambda>a. let p = unat (a - 0x900000) in
     if a < 0x900000 \<or> 256 * length lits \<le> p then sample_mem a
     else (ascii (lits ! (p div 256)) @ replicate 256 0) ! (p mod 256))"

definition program_pcb :: "u8 list \<Rightarrow> pcb_t" where
  "program_pcb args = some_pcb\<lparr>fds := std_fds, argbuf := args @ 0 # replicate 50 0\<rparr>"

definition program_kernel :: "string list \<Rightarrow> u8 list \<Rightarrow> u8 list \<Rightarrow> kernel" where
  "program_kernel lits args line = sample_kernel
     \<lparr>mem := program_mem lits, tss := \<lparr>esp0 = 0x7FFFFC, ss0 = KERNEL_DS, ldt_segment_selector = KERNEL_LDT\<rparr>,
      pcbs := (\<lambda>_. program_pcb args), key_buffer := Some 0, key_buffer_idx := word_of_nat (length line + 1),
      terminal := (\<lambda>_. zero_terminal\<lparr>t_key_buffer := line @ 0x0A # replicate (127 - length line) 0, eflag := 1\<rparr>)\<rparr>"

section \<open>Its memory\<close>

lemma program_translate [simp]: "translate (program_kernel lits args line) = translate sample_kernel"
  by (rule translate_tables) (simp_all add: program_kernel_def)

lemma program_maps:
  "user_mapped (program_kernel lits args line)" "user_frame (program_kernel lits args line) = 0x800000"
  "kernel_mapped (program_kernel lits args line)"
proof -
  show um: "user_mapped (program_kernel lits args line)" and uf: "user_frame (program_kernel lits args line) = 0x800000"
    using sample_mapped by (simp_all add: program_kernel_def user_mapped_def paging_on_def user_frame_def)
  have "kernel_mapped shell_kernel" by (rule shell_kernel_mapped)
  then show "kernel_mapped (program_kernel lits args line)"
    by (simp add: kernel_mapped_def shell_kernel_def program_kernel_def paging_on_def user_frame_def)
qed

lemma program_low: "0x400000 \<le> unat v \<Longrightarrow> unat v < 0x800000 \<Longrightarrow> vmem (program_kernel lits args line) v = vmem sample_kernel v"
  using sample_translate [of v] by (simp add: vmem_def) (simp add: program_kernel_def program_mem_def word_less_unat)

lemma program_user:
  assumes "in_user_page v"
  shows "vmem (program_kernel lits args line) v = program_mem lits (0x800000 + (v - 0x8000000))"
  using user_vmem [OF program_maps(1) assms, of lits args line] by (simp add: program_maps(2)) (simp add: program_kernel_def)

lemma program_image:
  "FILESYSLOC (program_kernel lits args line) = 0x500000"
  "same_image 0x500000 (vmem sample_kernel) (vmem (program_kernel lits args line))"
  "directory_ok 0x500000 (vmem sample_kernel)"
proof -
  show "FILESYSLOC (program_kernel lits args line) = 0x500000" by (simp add: program_kernel_def)
  show "directory_ok 0x500000 (vmem sample_kernel)" by (simp add: directory_ok_def sample_directory sample_image)
  have "0x400000 \<le> unat x \<and> unat x < 0x800000" if x: "in_range 0x500000 0x3000 x" for x
  proof -
    obtain i where i: "i < 0x3000" "x = 0x500000 + word_of_nat i" using x range_addr unfolding in_range_def by blast
    then have "unat x = 0x500000 + i" by (simp add: unat_add32)
    then show ?thesis using i(1) by simp
  qed
  then show "same_image 0x500000 (vmem sample_kernel) (vmem (program_kernel lits args line))"
    by (simp add: same_image_def sample_image program_low)
qed

lemma program_names: "names (program_kernel lits args line) = [ascii ''.'', ascii ''frame0'']"
proof -
  note same = same_image_directory [OF program_image(2) [of lits args line] program_image(3)]
  have "names (program_kernel lits args line) = names sample_kernel"
    using same by (auto simp: names_def program_image(1))
  then show ?thesis by (simp add: sample_directory)
qed

lemma program_lookup:
  "lookup_name (program_kernel lits args line) xs = lookup_name sample_kernel xs"
  using same_image_lookup(1) [of sample_kernel "program_kernel lits args line" xs] program_image by simp

lemma sample_lookups:
  "\<exists>d. lookup_name sample_kernel (ascii ''.'') = Some d \<and> filetype d = 1"
  "xs \<notin> {ascii ''.'', ascii ''frame0''} \<Longrightarrow> lookup_name sample_kernel xs = None"
proof -
  have upt: "[0..<2] = [0, 1 :: nat]" by code_simp
  note n = sample_dentry_name [of 0] sample_dentry_name [of 1]
  show "xs \<notin> {ascii ''.'', ascii ''frame0''} \<Longrightarrow> lookup_name sample_kernel xs = None"
    using n by (auto simp: lookup_name_def sample_directory upt)
  have "lookup_name sample_kernel (ascii ''.'') = Some (dentry_at 0x500000 (vmem sample_kernel) 0)"
    using n by (simp add: lookup_name_def sample_directory upt)
  moreover have "filetype (dentry_at 0x500000 (vmem sample_kernel) 0) = 1"
    by (simp add: dentry_at_def dentry_addr_def DENTRYSIZE_def sample_load32) (simp add: load32_def sample_mem_def)
  ultimately show "\<exists>d. lookup_name sample_kernel (ascii ''.'') = Some d \<and> filetype d = 1" by simp
qed

section \<open>The hypotheses of programs\<close>

lemma program_kernel_ok: "program_ok (program_env lits) (program_kernel lits args line)"
proof -
  let ?k = "program_kernel lits args line"
  have cur: "current_process ?k = 0x7FE000"
    by (simp add: current_process_def program_kernel_def zero_terminal_def get_pcb_ptr_process_def)
  have "get_pcb_ptr (enter_kernel (program_env lits) ?k) = 0x7FE000"
    by (simp add: get_pcb_ptr_def enter_kernel_def program_env_def program_kernel_def PCB_PTR_MASK_def)
  moreover have "proc_fds ?k = std_fds" by (simp add: proc_fds_def program_kernel_def program_pcb_def)
  moreover have "length std_fds = 8" by (simp add: std_fds_def)
  moreover have "image_in_kernel ?k"
    using same_image_directory(2) [OF program_image(2) [of lits args line] program_image(3)]
    by (simp add: image_in_kernel_def program_image(1) sample_image)
  moreover have "directory_ok 0x500000 (vmem ?k)" by (rule same_image_directory(3) [OF program_image(2,3)])
  moreover have "screen_ok ?k" "cur_term ?k = cur_active_terminal ?k"
    by (simp_all add: screen_ok_def program_kernel_def sample_variables)
  ultimately show ?thesis using program_maps [of lits args line] by (simp add: program_ok_def cur program_image(1))
qed

lemma program_line: "length line < 127 \<Longrightarrow> line_waiting (program_kernel lits args line) line"
proof -
  assume len: "length line < 127"
  let ?k = "program_kernel lits args line"
  have idx: "unat (key_buffer_idx ?k) = length line + 1"
    using len by (simp add: program_kernel_def unat_of_nat take_bit_eq_mod del: of_nat_add of_nat_Suc)
  have array: "key_array ?k = line @ 0x0A # replicate (127 - length line) 0"
    by (simp add: key_array_def program_kernel_def)
  have "keyboard_ok ?k"
    using len array idx by (simp add: keyboard_ok_def nth_append nth_Cons') (simp add: program_kernel_def sample_variables screen_ok_def)
  moreover have "typed ?k = line @ [0x0A]" using len by (simp add: typed_def array idx)
  ultimately show ?thesis using len by (simp add: line_waiting_def) (simp add: program_kernel_def)
qed

lemma literal_index_nth: "s \<in> set lits \<Longrightarrow> literal_index lits s < length lits \<and> lits ! literal_index lits s = s"
  unfolding literal_index_def
  by (induction lits) auto

lemma program_page: "n \<le> 0x400000 \<Longrightarrow> i < n \<Longrightarrow> in_user_page (0x8000000 + word_of_nat i)"
  by (simp add: in_user_page_def)

lemma program_literal_at:
  assumes "s \<in> set lits" and "length lits \<le> 256" and "length s < 256" and "i \<le> length s"
  shows "in_user_page (u_lit (program_env lits) s + word_of_nat i)"
    "vmem (program_kernel lits args line) (u_lit (program_env lits) s + word_of_nat i) = (ascii s @ [0]) ! i"
    "\<not> in_range 0x8000000 0x100000 (u_lit (program_env lits) s + word_of_nat i)"
proof -
  let ?n = "literal_index lits s"
  note n = literal_index_nth [OF assms(1)]
  define o' where "o' = 256 * ?n + i"
  have "256 * ?n + 256 \<le> 256 * length lits" using n by (metis Suc_leI mult_Suc_right add.commute mult_le_mono2)
  then have o: "o' < 256 * length lits" "o' < 65536" using assms(2-4) by (simp_all add: o'_def)
  have addr: "u_lit (program_env lits) s + word_of_nat i = 0x8100000 + word_of_nat o'"
    by (simp add: program_env_def o'_def algebra_simps)
  have off: "(0x8100000 + word_of_nat o') - 0x8000000 = (0x100000 + word_of_nat o' :: u32)" by simp
  have un: "unat (0x100000 + word_of_nat o' :: u32) = 0x100000 + o'" using o(2) by (subst unat_add32) simp_all
  show page: "in_user_page (u_lit (program_env lits) s + word_of_nat i)"
    unfolding addr in_user_page_def off un using o(2) by simp
  show "\<not> in_range 0x8000000 0x100000 (u_lit (program_env lits) s + word_of_nat i)"
    unfolding addr in_range_def off un by simp
  have phys: "0x800000 + ((0x8100000 + word_of_nat o') - 0x8000000) = (0x900000 + word_of_nat o' :: u32)" by simp
  have "unat (0x900000 + word_of_nat o' :: u32) = 0x900000 + o'" using o(2) by (subst unat_add32) simp_all
  moreover have "unat (0x900000 + word_of_nat o' - 0x900000 :: u32) = o'" using o(2) by simp
  moreover have "o' div 256 = ?n" "o' mod 256 = i" using assms(3,4) by (simp_all add: o'_def)
  ultimately have "program_mem lits (0x900000 + word_of_nat o') = (ascii s @ replicate 256 0) ! i"
    using o(1) n by (simp add: program_mem_def Let_def word_less_unat)
  moreover have "(ascii s @ replicate 256 0) ! i = (ascii s @ [0]) ! i" using assms(4) by (auto simp: nth_append)
  ultimately show "vmem (program_kernel lits args line) (u_lit (program_env lits) s + word_of_nat i) = (ascii s @ [0]) ! i"
    using program_user [OF page, of lits args line] by (simp add: addr phys)
qed

lemma program_literals:
  assumes "length lits \<le> 256" and "list_all (\<lambda>s. length s < 256 \<and> 0 \<notin> set (ascii s)) lits" and "N \<le> 0x100000"
  shows "literals_ok (program_env lits) (in_range 0x8000000 N) (program_kernel lits args line) (set lits)"
  unfolding literals_ok_def
proof (intro ballI conjI allI impI)
  fix s assume s: "s \<in> set lits"
  then have len: "length s < 256" "0 \<notin> set (ascii s)" using assms(2) by (simp_all add: list_all_iff)
  note at = program_literal_at [OF s assms(1) len(1)]
  show "user_string (program_kernel lits args line) (u_lit (program_env lits) s) (ascii s)"
    unfolding user_string_def cstr_def ptr_def using at(1) at(2) [of _ args line] at(2) [of "length s" args line] len
    by (auto simp: nth_append)
  show "\<not> in_range 0x8000000 N (u_lit (program_env lits) s + word_of_nat i)" if "i \<le> length s" for i
    using at(3) [OF that] assms(3) by (simp add: in_range_def)
qed

lemma program_free_fd: "free_fd (program_kernel lits args line) = Some 2"
  by (simp add: free_fd_def proc_fds_def program_kernel_def program_pcb_def std_fds_def upt_rec)

end
