(* ===== verification/User_Programs.thy ===== *)
theory User_Programs
  imports User_Sample
begin

text \<open>
  The user programs of the directory \<^verbatim>\<open>syscalls\<close>: \<^verbatim>\<open>ece391ls.c\<close>, \<^verbatim>\<open>ece391cat.c\<close>, \<^verbatim>\<open>ece391hello.c\<close>,
  \<^verbatim>\<open>ece391testprint.c\<close>, \<^verbatim>\<open>ece391counter.c\<close> and \<^verbatim>\<open>ece391shell.c\<close>. The local arrays of a program are memory at an address of its stack page.
\<close>

unbundle bit_operations_syntax

section \<open>Definitions\<close>

definition BUFSIZE :: u32 where "BUFSIZE = 1024"
definition SBUFSIZE :: u32 where "SBUFSIZE = 33"

subsection \<open>ls\<close>

partial_function (option) ls_loop :: "user_env \<Rightarrow> addr \<Rightarrow> i32 \<Rightarrow> kernel \<Rightarrow> (i32 \<times> kernel) option" where
  "ls_loop env buf fd k = do {
     (cnt, k) \<leftarrow> ece391_read env fd buf (SBUFSIZE - 1) k;
     if cnt = 0 then Some (0, k)
     else if cnt = - 1 then map_option (Pair 3) (print_lit env (''directory entry read failed'' @ newline) k)
     else do {
       k \<leftarrow> user_store (buf + cnt) 0x0A k;
       (r, k) \<leftarrow> ece391_write env 1 buf (cnt + 1) k;
       if r = - 1 then Some (3, k) else ls_loop env buf fd k } }"

definition ls_main :: "user_env \<Rightarrow> addr \<Rightarrow> kernel \<Rightarrow> (i32 \<times> kernel) option" where
  "ls_main env buf k = do {
     (fd, k) \<leftarrow> ece391_open env (u_lit env ''.'') k;
     if fd = - 1 then map_option (Pair 2) (print_lit env (''directory open failed'' @ newline) k)
     else ls_loop env buf fd k }"

subsection \<open>cat\<close>

partial_function (option) cat_loop :: "user_env \<Rightarrow> addr \<Rightarrow> i32 \<Rightarrow> kernel \<Rightarrow> (i32 \<times> kernel) option" where
  "cat_loop env buf fd k = do {
     (cnt, k) \<leftarrow> ece391_read env fd buf 1024 k;
     if cnt = 0 then Some (0, k)
     else if cnt = - 1 then map_option (Pair 3) (print_lit env (''file read failed'' @ newline) k)
     else do {
       (r, k) \<leftarrow> ece391_write env 1 buf cnt k;
       if r = - 1 then Some (3, k) else cat_loop env buf fd k } }"

definition cat_main :: "user_env \<Rightarrow> addr \<Rightarrow> kernel \<Rightarrow> (i32 \<times> kernel) option" where
  "cat_main env buf k = do {
     (r, k) \<leftarrow> ece391_getargs env buf 1024 k;
     if r \<noteq> 0 then map_option (Pair 3) (print_lit env (''could not read arguments'' @ newline) k)
     else do {
       (fd, k) \<leftarrow> ece391_open env buf k;
       if fd = - 1 then map_option (Pair 2) (print_lit env (''file not found'' @ newline) k)
       else cat_loop env buf fd k } }"

subsection \<open>hello, testprint and counter\<close>

definition hello_main :: "user_env \<Rightarrow> addr \<Rightarrow> kernel \<Rightarrow> (i32 \<times> kernel) option" where
  "hello_main env buf k = do {
     k \<leftarrow> print_lit env ''Hi, what's your name? '' k;
     (cnt, k) \<leftarrow> ece391_read env 0 buf (BUFSIZE - 1) k;
     if cnt = - 1 then map_option (Pair 3) (print_lit env (''Can't read name from keyboard.'' @ newline) k)
     else do {
       k \<leftarrow> user_store (buf + cnt) 0 k;
       k \<leftarrow> print_lit env ''Hello, '' k;
       k \<leftarrow> ece391_fdputs env 1 buf k;
       Some (0, k) } }"

definition testprint_main :: "user_env \<Rightarrow> kernel \<Rightarrow> (i32 \<times> kernel) option" where
  "testprint_main env k =
     map_option (Pair 0) (print_lit env (''Hello, if this ran, the program was correct. Yay!'' @ newline) k)"

text \<open>The loop counter runs from \<open>i\<close> to \<open>lim\<close>; both are unsigned.\<close>

partial_function (option) counter_loop :: "user_env \<Rightarrow> addr \<Rightarrow> u32 \<Rightarrow> u32 \<Rightarrow> kernel \<Rightarrow> (i32 \<times> kernel) option" where
  "counter_loop env buf lim i k =
     (if i < lim then do {
        m \<leftarrow> ece391_itoa (vmem k) (i + 1) buf 10;
        k \<leftarrow> ece391_fdputs env 1 buf (set_vmem m k);
        k \<leftarrow> print_lit env newline k;
        counter_loop env buf lim (i + 1) k }
      else Some (0, k))"

definition counter_max :: "u8 \<Rightarrow> u32" where
  "counter_max c = (if c = of_char (CHR ''0'') then 100 else if c = of_char (CHR ''1'') then 10000
     else if c = of_char (CHR ''2'') then 100000 else 0)"

definition counter_main :: "user_env \<Rightarrow> addr \<Rightarrow> kernel \<Rightarrow> (i32 \<times> kernel) option" where
  "counter_main env buf k = do {
     k \<leftarrow> print_lit env (''Enter the Test Number: (0): 100, (1): 10000, (2): 100000'' @ newline) k;
     (cnt, k) \<leftarrow> ece391_read env 0 buf (BUFSIZE - 1) k;
     if cnt = - 1 then map_option (Pair 3) (print_lit env (''Can't read the number from keyboard.'' @ newline) k)
     else do {
       k \<leftarrow> user_store (buf + cnt) 0 k;
       len \<leftarrow> ece391_strlen (vmem k) buf;
       let c = vmem k buf in
       if len > 2 \<or> len = 2 \<and> (c < of_char (CHR ''0'') \<or> of_char (CHR ''2'') < c)
       then map_option (Pair 0) (print_lit env (''Wrong Choice!'' @ newline) k)
       else counter_loop env buf (counter_max c) 0 k } }"

subsection \<open>The shell\<close>

text \<open>What the shell says about the result of a program.\<close>

definition shell_report :: "user_env \<Rightarrow> u32 \<Rightarrow> kernel \<Rightarrow> kernel option" where
  "shell_report env rval k =
     (if rval = - 1 then print_lit env (''no such command'' @ newline) k
      else if rval = 256 then print_lit env (''program terminated by exception'' @ newline) k
      else if rval \<noteq> 0 then print_lit env (''program terminated abnormally'' @ newline) k
      else Some k)"

partial_function (option) shell_loop :: "user_env \<Rightarrow> addr \<Rightarrow> kernel \<Rightarrow> (i32 \<times> kernel) option" where
  "shell_loop env buf k = do {
     k \<leftarrow> print_lit env ''391OS> '' k;
     (cnt, k) \<leftarrow> ece391_read env 0 buf (BUFSIZE - 1) k;
     if cnt = - 1 then map_option (Pair 3) (print_lit env (''read from keyboard failed'' @ newline) k)
     else let cnt = (if 0 <s cnt \<and> vmem k (buf + (cnt - 1)) = 0x0A then cnt - 1 else cnt) in do {
       k \<leftarrow> user_store (buf + cnt) 0 k;
       c \<leftarrow> ece391_strcmp (vmem k) buf (u_lit env ''exit'');
       if c = 0 then Some (0, k)
       else if vmem k buf = 0 then shell_loop env buf k
       else do {
         (rval, k) \<leftarrow> ece391_execute env buf k;
         k \<leftarrow> shell_report env rval k;
         shell_loop env buf k } } }"

definition shell_main :: "user_env \<Rightarrow> addr \<Rightarrow> kernel \<Rightarrow> (i32 \<times> kernel) option" where
  "shell_main env buf k = do {
     k \<leftarrow> print_lit env (''Starting 391 Shell'' @ newline) k;
     shell_loop env buf k }"

section \<open>Listing the directory\<close>

lemma user_read_end:
  assumes ok: "program_ok env k" and fd: "proc_fds k ! i = new_descriptor fops_dir ino" "i < 8" and "buf \<noteq> 0"
    and loc: "length (names k) \<le> unat (directoryLoc k)"
  shows "\<exists>k'. ece391_read env (word_of_nat i) buf n k = Some (0, k') \<and> silent_step W k k' \<and> program_ok env k' \<and>
    proc_fds k' = proc_fds k \<and> directoryLoc k' = 0 \<and> vmem k' = vmem k"
proof -
  let ?t = "trapped env k"
  let ?k = "?t\<lparr>directoryLoc := 0\<rparr>"
  have "fds (pcbs k (current_process k)) ! i = new_descriptor fops_dir ino" using fd(1) by (simp add: proc_fds_def)
  then have "sys_read (word_of_nat i) buf n ?t = Some (0, ?k)"
    using directory_read_end [of ?t "word_of_nat i" buf n] loc small_fd [OF fd(2)] assms(4)
    by (simp add: sys_read_def Let_def trapped_pcb [OF ok] new_descriptor_def FD_OCCUP_def fops_dir_def)
  then have call: "ece391_read env (word_of_nat i) buf n k = Some (0, sti ?k)"
    by (simp add: ece391_read_def DO_CALL_def SYS_READ_def int80_calls)
  have state: "sti ?k = k\<lparr>iflag := True, r_esp := esp0 (tss k) - u_depth env, directoryLoc := 0\<rparr>"
    by (simp add: trapped_def sti_def)
  have "user_step W k (sti ?k)"
    by (rule user_stepI [where m = "mem k" and log = "io_log k" and b = True and e = "esp0 (tss k) - u_depth env" and
        x = "screen_x k" and y = "screen_y k" and loc = 0 and i = "key_buffer_idx k" and ts = "terminal k" and
        fs = "proc_fds k"]) (simp_all add: state proc_fds_def)
  then have step: "silent_step W k (sti ?k)" by (simp add: silent_step_def state fore_console_def screen_ok_def)
  have fields: "proc_fds (sti ?k) = proc_fds k" "directoryLoc (sti ?k) = 0" "vmem (sti ?k) = vmem k"
    by (simp_all add: state proc_fds_def current_process_def)
  have "program_ok env (sti ?k)"
    using ok by (intro silent_keeps_program [OF ok step]) (simp_all add: fields program_ok_def)
  then show ?thesis using call step fields by blast
qed

lemma put_newline:
  assumes ok: "program_ok env k" and page: "\<And>j. j < 33 \<Longrightarrow> in_user_page (buf + word_of_nat j)"
    and buf: "bytes (vmem k) buf 33 = name @ replicate (33 - length name) 0" and len: "length name < 32" and "0 \<notin> set name"
  shows "\<exists>k'. user_store (buf + word_of_nat (length name)) 0x0A k = Some k' \<and> silent_step (in_range buf 33) k k' \<and>
    program_ok env k' \<and> proc_fds k' = proc_fds k \<and> directoryLoc k' = directoryLoc k \<and> user_string k' buf (name @ [0x0A])"
proof -
  let ?n = "length name"
  let ?a = "buf + word_of_nat ?n"
  have um: "user_mapped k" "0x800000 \<le> unat (user_frame k)" using ok by (simp_all add: program_ok_def)
  have pa: "in_user_page ?a" using page len by simp
  obtain k' where k': "user_store ?a 0x0A k = Some k'" "silent_step (\<lambda>x. x = ?a) k k'" "program_ok env k'"
    "proc_fds k' = proc_fds k" "directoryLoc k' = directoryLoc k" "vmem k' ?a = 0x0A"
    using user_store_step [OF ok pa, where c = "0x0A"] by blast
  have at: "vmem k' (buf + word_of_nat i) = (name @ [0x0A, 0]) ! i" if i: "i \<le> length (name @ [0x0A :: u8])" for i
  proof (cases "i = ?n")
    case True
    then show ?thesis using k'(6) by (simp add: nth_append)
  next
    case False
    have i33: "i < 33" using i len by simp
    have "word_of_nat i \<noteq> (word_of_nat ?n :: u32)"
      using False i33 len word_of_nat_inj32 [of i ?n] by auto
    then have "vmem k' (buf + word_of_nat i) = vmem k (buf + word_of_nat i)"
      using k'(2) page [OF i33] by (intro user_step_vmem [OF _ um, where W = "\<lambda>x. x = ?a"]) (simp_all add: silent_step_def)
    also have "\<dots> = (name @ replicate (33 - ?n) 0) ! i" using i33 buf nth_bytes [of i 33 "vmem k" buf] by simp
    finally show ?thesis using False i len by (auto simp: nth_append less_Suc_eq le_Suc_eq)
  qed
  have "(0x0A :: u8) \<noteq> 0" by code_simp
  then have "0 \<notin> set (name @ [0x0A])" using assms(5) by simp
  moreover have "vmem k' (buf + word_of_nat (length (name @ [0x0A :: u8]))) = 0" using at [of "Suc ?n"] by (simp add: nth_append)
  moreover have "vmem k' (buf + word_of_nat i) = (name @ [0x0A]) ! i" if "i < length (name @ [0x0A])" for i
    using at [of i] that by (auto simp: nth_append less_Suc_eq)
  ultimately have "cstr (ptr buf (vmem k')) (name @ [0x0A])" using len by (simp add: cstr_def ptr_def)
  then have "user_string k' buf (name @ [0x0A])" using page len by (simp add: user_string_def)
  moreover have "silent_step (in_range buf 33) k k'"
    using k'(2) by (rule silent_mono) (use len in \<open>auto simp: in_range_def\<close>)
  ultimately show ?thesis using k' by blast
qed

text \<open>The names that \<^verbatim>\<open>ls\<close> can print: one with 32 characters leaves no room for the NUL.\<close>

definition listable :: "u8 list list \<Rightarrow> bool" where
  "listable ns \<longleftrightarrow> (\<forall>n\<in>set ns. n \<noteq> [] \<and> length n < 32 \<and> 0 \<notin> set n \<and> 37 \<notin> set n)"

definition listing :: "u8 list list \<Rightarrow> u8 list" where
  "listing ns = concat (map (\<lambda>n. n @ [0x0A]) ns)"

lemma ls_loop_lists:
  assumes "program_ok env k" and "proc_fds k ! i = new_descriptor fops_dir ino" "i < 8"
    and page: "\<And>j. j < 33 \<Longrightarrow> in_user_page (buf + word_of_nat j)" and "listable (names k)"
    and "unat (directoryLoc k) \<le> length (names k)"
  shows "\<exists>k'. ls_loop env buf (word_of_nat i) k = Some (0, k') \<and>
    prints env (in_range buf 33) k (listing (drop (unat (directoryLoc k)) (names k))) k' \<and> directoryLoc k' = 0"
  using assms(1,2,5,6)
proof (induction "length (names k) - unat (directoryLoc k)" arbitrary: k)
  case 0
  have "buf \<noteq> 0" using page [of 0] user_page_0 by simp
  then obtain k' where "ece391_read env (word_of_nat i) buf (SBUFSIZE - 1) k = Some (0, k')"
    "silent_step (in_range buf 33) k k'" "program_ok env k'" "directoryLoc k' = 0"
    using user_read_end [OF 0(2,3) assms(3)] 0(1) by (metis diff_is_0_eq)
  then show ?case using 0(1) prints_silent by (subst ls_loop.simps) (simp add: listing_def)
next
  case (Suc d)
  let ?W = "in_range buf 33" and ?l = "unat (directoryLoc k)"
  have l: "?l < length (names k)" using Suc.hyps(2) by linarith
  define name where "name = names k ! ?l"
  have name: "name \<noteq> []" "length name < 32" "0 \<notin> set name" "37 \<notin> set name"
    using Suc.prems(3) l unfolding listable_def name_def by (meson nth_mem)+
  obtain k1 where k1: "ece391_read env (word_of_nat i) buf (SBUFSIZE - 1) k = Some (word_of_nat (length name), k1)"
    "silent_step ?W k k1" "program_ok env k1" "proc_fds k1 = proc_fds k"
    "bytes (vmem k1) buf 33 = name @ replicate (33 - length name) 0" "unat (directoryLoc k1) = Suc ?l"
    using user_read_name [OF Suc.prems(1,2) assms(3) page l, of "SBUFSIZE - 1"] unfolding name_def by blast
  obtain k2 where k2: "user_store (buf + word_of_nat (length name)) 0x0A k1 = Some k2" "silent_step ?W k1 k2"
    "program_ok env k2" "proc_fds k2 = proc_fds k1" "directoryLoc k2 = directoryLoc k1" "user_string k2 buf (name @ [0x0A])"
    using put_newline [OF k1(3) page k1(5) name(2,3)] by blast
  have "37 \<notin> set (name @ [0x0A])" using name(4) by simp
  from user_write [OF k2(3,6) this] obtain k3 where
    k3: "ece391_write env 1 buf (word_of_nat (length name) + 1) k2 = Some (word_of_nat (length (name @ [0x0A])), k3)"
    "print_step k2 k3" "program_ok env k3" "fore_console k3 = fold con_putc (name @ [0x0A]) (fore_console k2)" by blast
  have "prints env ?W k2 (name @ [0x0A]) k3" using k3(3,4) print_step_user [OF k3(2)] by (simp add: prints_def)
  then have P: "prints env ?W k (name @ [0x0A]) k3"
    by (intro prints_after_silent [OF k1(2)] prints_after_silent [OF k2(2)])
  have names: "names k3 = names k" using P by (intro names_kept [OF Suc.prems(1), of ?W]) (simp add: prints_def)
  have fields: "proc_fds k3 = proc_fds k" "directoryLoc k3 = directoryLoc k1"
    using print_step_fields [OF k3(2)] k2(4,5) k1(4) by simp_all
  have "d = length (names k3) - unat (directoryLoc k3)" using Suc.hyps(2) by (simp add: names fields k1(6))
  moreover have "proc_fds k3 ! i = new_descriptor fops_dir ino" "listable (names k3)" "unat (directoryLoc k3) \<le> length (names k3)"
    using Suc.prems(2,3) l by (simp_all add: names fields k1(6))
  ultimately obtain k' where k': "ls_loop env buf (word_of_nat i) k3 = Some (0, k')"
    "prints env ?W k3 (listing (drop (Suc ?l) (names k))) k'" "directoryLoc k' = 0"
    using Suc.hyps(1) [of k3] k3(3) by (auto simp: names fields k1(6))
  have "listing (drop ?l (names k)) = (name @ [0x0A]) @ listing (drop (Suc ?l) (names k))"
    using l by (simp add: listing_def name_def Cons_nth_drop_Suc [symmetric])
  then have "prints env ?W k (listing (drop ?l (names k))) k'" using prints_trans [OF P k'(2)] by simp
  moreover have "ls_loop env buf (word_of_nat i) k = Some (0, k')"
    using k1(1) k2(1) k3(1) k'(1) name(1,2) small_word_facts [of "length name"] small_word_facts [of "Suc (length name)"]
    by (subst ls_loop.simps) (simp add: add.commute)
  ultimately show ?case using k'(3) by blast
qed

lemma ls_main_lists:
  assumes ok: "program_ok env k" and lit: "literals_ok env (in_range buf 33) k L" "''.'' \<in> L"
    and page: "\<And>j. j < 33 \<Longrightarrow> in_user_page (buf + word_of_nat j)"
    and dot: "lookup_name k (ascii ''.'') = Some d" "filetype d = 1" and "free_fd k = Some i"
    and "listable (names k)" and "unat (directoryLoc k) \<le> length (names k)"
  shows "\<exists>k'. ls_main env buf k = Some (0, k') \<and>
    prints env (in_range buf 33) k (listing (drop (unat (directoryLoc k)) (names k))) k' \<and> directoryLoc k' = 0"
proof -
  have str: "user_string k (u_lit env ''.'') (ascii ''.'')" using lit by (simp add: literals_ok_def)
  have "opened_file d = Some (fops_dir, 0)" using dot(2) by (simp add: opened_file_def)
  from user_open [OF ok str dot(1) assms(7) this, of "in_range buf 33"] obtain k1 where
    k1: "ece391_open env (u_lit env ''.'') k = Some (word_of_nat i, k1)" "silent_step (in_range buf 33) k k1" "program_ok env k1"
    "proc_fds k1 = (proc_fds k)[i := new_descriptor fops_dir 0]" "directoryLoc k1 = directoryLoc k" by blast
  note i = free_fd_range [OF assms(7)]
  have names: "names k1 = names k" using k1(2) by (intro names_kept [OF ok, of "in_range buf 33"]) (simp add: silent_step_def)
  have "length (proc_fds k) = 8" using ok by (simp add: program_ok_def)
  then have fd: "proc_fds k1 ! i = new_descriptor fops_dir 0" using k1(4) i by simp
  obtain k' where "ls_loop env buf (word_of_nat i) k1 = Some (0, k')"
    "prints env (in_range buf 33) k1 (listing (drop (unat (directoryLoc k)) (names k))) k'" "directoryLoc k' = 0"
    using ls_loop_lists [OF k1(3) fd _ page] i assms(8,9) by (auto simp: names k1(5))
  then show ?thesis
    using k1(1) small_word_facts(2) [of i] i prints_after_silent [OF k1(2)] by (simp add: ls_main_def)
qed

section \<open>Reading a line\<close>

text \<open>A read into an array of at least 128 bytes and the NUL that programs store behind what was read.\<close>

lemma read_line_string:
  assumes ok: "program_ok env k" and line: "line_waiting k line" and "length line < 126" and "0 \<notin> set line"
    and page: "\<And>i. i < 128 \<Longrightarrow> in_user_page (buf + word_of_nat i)"
  shows "\<exists>k1 k2. ece391_read env 0 buf 1023 k = Some (127, k1) \<and> vmem k1 (buf + 126) = 0 \<and> user_store (buf + 127) 0 k1 = Some k2 \<and>
    silent_step (in_range buf 128) k k2 \<and> program_ok env k2 \<and> user_string k2 buf (line @ [0x0A]) \<and>
    proc_fds k2 = proc_fds k \<and> directoryLoc k2 = directoryLoc k"
proof -
  have keys: "keyboard_ok k" "typed k = line @ [0x0A]" "eflag (terminal k (term_ptr (pcbs k (current_process k)))) \<noteq> 0"
    using line by (simp_all add: line_waiting_def)
  have um: "user_mapped k" "0x800000 \<le> unat (user_frame k)" using ok by (simp_all add: program_ok_def)
  have n: "(127 :: nat) = min 127 (unat (1023 :: u32) - 1)" "unat (1023 :: u32) < 0x80000000" "1 < unat (1023 :: u32)" by simp_all
  have page127: "\<And>i. i < 127 \<Longrightarrow> in_user_page (buf + word_of_nat i)" using page by simp
  obtain k1 where k1: "ece391_read env 0 buf 1023 k = Some (127, k1)" "silent_step (in_range buf 127) k k1" "program_ok env k1"
    "proc_fds k1 = proc_fds k" "directoryLoc k1 = directoryLoc k" "bytes (vmem k1) buf 127 = take 127 (key_array k)"
    using user_read_keys [OF ok keys(1,3) n page127] by auto
  have p: "in_user_page (buf + 127)" using page [of 127] by simp
  obtain k2 where k2: "user_store (buf + 127) 0 k1 = Some k2" "silent_step (\<lambda>x. x = buf + 127) k1 k2" "program_ok env k2"
    "proc_fds k2 = proc_fds k1" "directoryLoc k2 = directoryLoc k1"
    using user_store_step [OF k1(3) p, where c = 0] by blast
  have read: "take 127 (key_array k) = take 127 (line @ 0x0A # replicate 126 0)"
    using keys(1,2) assms(3) by (intro key_array_line) simp_all
  have at1: "vmem k1 (buf + word_of_nat i) = (line @ 0x0A # replicate 126 0) ! i" if "i < 127" for i
    using nth_bytes [OF that, of "vmem k1" buf] nth_take [OF that, of "line @ 0x0A # replicate 126 0"] by (simp only: k1(6) read)
  have at: "vmem k2 (buf + word_of_nat i) = (line @ 0x0A # replicate 126 0) ! i" if i: "i < 127" for i
  proof -
    have "word_of_nat i \<noteq> (127 :: u32)" using i word_of_nat_inj32 [of i 127] by auto
    then have "vmem k2 (buf + word_of_nat i) = vmem k1 (buf + word_of_nat i)"
      using k2(2) k1(3) page [of i] i
      by (intro user_step_vmem [where W = "\<lambda>x. x = buf + 127" and k = k1]) (simp_all add: silent_step_def program_ok_def)
    then show ?thesis using at1 [OF i] by simp
  qed
  have "0 \<notin> set (line @ [0x0A])" using assms(4) by (auto simp del: of_nat_numeral) 
  moreover have "vmem k2 (buf + word_of_nat i) = (line @ [0x0A]) ! i" if "i < length (line @ [0x0A])" for i
    using at [of i] that assms(3) by (auto simp: nth_append less_Suc_eq)
  moreover have "vmem k2 (buf + word_of_nat (length (line @ [0x0A]))) = 0"
    using at [of "length (line @ [0x0A])"] assms(3) by (simp add: nth_append)
  ultimately have "cstr (ptr buf (vmem k2)) (line @ [0x0A])" using assms(3) by (simp add: cstr_def ptr_def)
  then have "user_string k2 buf (line @ [0x0A])" using page assms(3) by (simp add: user_string_def)
  moreover have "silent_step (in_range buf 128) k k2"
  proof (rule silent_step_trans)
    show "silent_step (in_range buf 128) k k1" using k1(2) by (rule silent_mono) (simp add: in_range_def)
    show "silent_step (in_range buf 128) k1 k2" using k2(2) by (rule silent_mono) (simp add: in_range_def)
  qed
  moreover have "vmem k1 (buf + 126) = 0" using at1 [of 126] assms(3) by (auto simp: nth_append nth_Cons')
  ultimately show ?thesis using k1(1,4,5) k2(1,3,4,5) by auto
qed

section \<open>hello\<close>

definition hello_literals :: "string set" where
  "hello_literals = {''Hi, what's your name? '', ''Hello, ''}"

lemma hello_main_greets:
  assumes ok: "program_ok env k" and lit: "literals_ok env (in_range buf 128) k hello_literals"
    and page: "\<And>i. i < 128 \<Longrightarrow> in_user_page (buf + word_of_nat i)"
    and line: "line_waiting k line" "length line < 126" "0 \<notin> set line" "37 \<notin> set line"
  shows "\<exists>k'. hello_main env buf k = Some (0, k') \<and>
    prints env (in_range buf 128) k (ascii ''Hi, what's your name? '' @ ascii ''Hello, '' @ line @ [0x0A]) k'"
proof -
  let ?W = "in_range buf 128"
  have mem: "''Hi, what's your name? '' \<in> hello_literals" "''Hello, '' \<in> hello_literals" by (simp_all add: hello_literals_def)
  have plain: "37 \<notin> set (ascii ''Hi, what's your name? '')" "37 \<notin> set (ascii ''Hello, '')" by (simp_all add: ascii_def)
  obtain k1 where k1: "print_lit env ''Hi, what's your name? '' k = Some k1"
    "prints env ?W k (ascii ''Hi, what's your name? '') k1" "print_step k k1"
    using print_lit_result [OF ok lit mem(1) plain(1)] by blast
  have ok1: "program_ok env k1" "screen_ok k1" using k1(2) by (simp_all add: prints_def program_ok_def)
  obtain k2 k3 where k2: "ece391_read env 0 buf 1023 k1 = Some (127, k2)" "user_store (buf + 127) 0 k2 = Some k3"
    and k3: "silent_step ?W k1 k3" "program_ok env k3" "user_string k3 buf (line @ [0x0A])"
    using read_line_string [OF ok1(1) line_waiting_print [OF k1(3) ok1(2) line(1)] line(2,3) page] by blast
  have lit3: "literals_ok env ?W k3 hello_literals"
    using literals_kept [OF literals_kept [OF lit _ ok] _ ok1(1)] k1(2) k3(1) by (simp add: prints_def silent_step_def)
  obtain k4 where k4: "print_lit env ''Hello, '' k3 = Some k4" "prints env ?W k3 (ascii ''Hello, '') k4" "print_step k3 k4"
    using print_lit_result [OF k3(2) lit3 mem(2) plain(2)] by blast
  have ok4: "program_ok env k4" using k4(2) by (simp add: prints_def)
  have "user_string k4 buf (line @ [0x0A])"
    using user_string_kept [OF k3(3) print_step_user [OF k4(3), of "\<lambda>_. False"] k3(2)] by simp
  moreover have "37 \<notin> set (line @ [0x0A])" using line(4) by simp
  ultimately obtain k5 where k5: "ece391_fdputs env 1 buf k4 = Some k5" "print_step k4 k5" "program_ok env k5"
    "fore_console k5 = fold con_putc (line @ [0x0A]) (fore_console k4)" using user_fdputs [OF ok4] by blast
  have "prints env ?W k4 (line @ [0x0A]) k5" using k5 print_step_user by (simp add: prints_def)
  from prints_trans [OF k1(2) prints_after_silent [OF k3(1) prints_trans [OF k4(2) this]]]
  show ?thesis using k1(1) k2 k4(1) k5(1) small_word_facts(2) [of 127] by (auto simp: hello_main_def BUFSIZE_def)
qed

section \<open>counter\<close>

lemma lookup_plain: "37 \<notin> set lookup"
  by (simp add: lookup_def ascii_def)

lemma digits_lookup: "r \<le> 36 \<Longrightarrow> set (digits r v) \<subseteq> set lookup"
proof (induction r v rule: digits.induct)
  case (1 r v)
  show ?case
  proof (cases "v = 0 \<or> r < 2")
    case False
    then have "v mod r < r" by (intro mod_less_divisor) simp
    then have "v mod r < length lookup" using 1(2) length_lookup by linarith
    then show ?thesis using False 1 by (subst digits.simps) (auto intro: nth_mem)
  qed (simp add: digits.simps)
qed

lemma number_plain: "37 \<notin> set (number_text 10 v)"
  using digits_lookup [of 10 v] lookup_plain by (auto simp: number_text_def ascii_def)

text \<open>\<^verbatim>\<open>ece391_itoa\<close> into an array of the program.\<close>

lemma itoa_step:
  assumes ok: "program_ok env k" and page: "\<And>i. i < 128 \<Longrightarrow> in_user_page (buf + word_of_nat i)"
  shows "\<exists>m. ece391_itoa (vmem k) v buf 10 = Some m \<and> silent_step (in_range buf 128) k (set_vmem m k) \<and>
      program_ok env (set_vmem m k) \<and> user_string (set_vmem m k) buf (number_text 10 (unat v))"
proof -
  let ?ds = "number_text 10 (unat v)"
  let ?m = "write_bytes buf (?ds @ [0]) (vmem k)"
  have ten: "2 \<le> unat (10 :: u32)" "unat (10 :: u32) \<le> 36" by simp_all
  have um: "user_mapped k" using ok by (simp add: program_ok_def)
  note facts = number_text_facts [OF ten, of v, simplified]
  have call: "ece391_itoa (vmem k) v buf 10 = Some ?m" using itoa_write [OF ten, of v "vmem k" buf] by (simp add: itoa_same)
  have pagex: "\<And>i. i < length (?ds @ [0 :: u8]) \<Longrightarrow> in_user_page (buf + word_of_nat i)" using page facts(2) by simp
  have len: "length (?ds @ [0 :: u8]) < 4294967296" using facts(2) by simp
  have at: "vmem (set_vmem ?m k) (buf + word_of_nat i) = (?ds @ [0]) ! i" if "i < length (?ds @ [0 :: u8])" for i
    by (rule buffer_vmem [OF um that pagex [OF that] len])
  have "cstr (ptr buf (vmem (set_vmem ?m k))) ?ds"
    using at facts(1,2) at [of "length ?ds"] by (auto simp: cstr_def ptr_def nth_append)
  then have "user_string (set_vmem ?m k) buf ?ds" using page facts(2) by (simp add: user_string_def)
  moreover have "silent_step (in_range buf 128) k (set_vmem ?m k)"
    by (rule silent_mono [OF silent_buffer(1) [OF ok pagex len]]) (use facts(2) in \<open>simp_all add: in_range_def\<close>)
  moreover have "program_ok env (set_vmem ?m k)" by (rule silent_buffer(3) [OF ok pagex len])
  ultimately show "\<exists>m. ece391_itoa (vmem k) v buf 10 = Some m \<and> silent_step (in_range buf 128) k (set_vmem m k) \<and>
      program_ok env (set_vmem m k) \<and> user_string (set_vmem m k) buf ?ds" using call by blast
qed

definition numbered_lines :: "nat list \<Rightarrow> u8 list" where
  "numbered_lines ns = concat (map (\<lambda>n. number_text 10 n @ [0x0A]) ns)"

lemma counter_loop_prints:
  assumes "program_ok env k" and "literals_ok env (in_range buf 128) k L" "newline \<in> L"
    and page: "\<And>i. i < 128 \<Longrightarrow> in_user_page (buf + word_of_nat i)" and "n \<le> unat lim" and "unat lim < 4294967295"
  shows "\<exists>k'. counter_loop env buf lim (word_of_nat n) k = Some (0, k') \<and>
    prints env (in_range buf 128) k (numbered_lines [Suc n..<Suc (unat lim)]) k'"
  using assms(1,2,5)
proof (induction "unat lim - n" arbitrary: k n)
  case 0
  then have "n = unat lim" by simp
  then show ?case using 0(2) prints_refl by (subst counter_loop.simps) (simp add: numbered_lines_def)
next
  case (Suc d)
  let ?W = "in_range buf 128"
  have n: "n < unat lim" using Suc.hyps(2) by linarith
  have less: "(word_of_nat n :: u32) < lim" using n unat_lt32 [of lim] by (simp add: word_less_unat)
  have un: "unat (word_of_nat n + 1 :: u32) = Suc n" using n assms(6) by (subst unat_Suc32 [OF less]) simp
  obtain m where m: "ece391_itoa (vmem k) (word_of_nat n + 1) buf 10 = Some m" "silent_step ?W k (set_vmem m k)"
    "program_ok env (set_vmem m k)" "user_string (set_vmem m k) buf (number_text 10 (Suc n))"
    using itoa_step [OF Suc.prems(1) page, of "word_of_nat n + 1"] by (auto simp: un)
  obtain k1 where k1: "ece391_fdputs env 1 buf (set_vmem m k) = Some k1" "print_step (set_vmem m k) k1" "program_ok env k1"
    "fore_console k1 = fold con_putc (number_text 10 (Suc n)) (fore_console (set_vmem m k))"
    using user_fdputs [OF m(3,4) number_plain] by blast
  have P1: "prints env ?W k (number_text 10 (Suc n)) k1"
    by (rule prints_after_silent [OF m(2)]) (use k1 print_step_user in \<open>simp add: prints_def\<close>)
  have "user_step ?W k k1" using P1 by (simp add: prints_def)
  then have lit1: "literals_ok env ?W k1 L" by (rule literals_kept [OF Suc.prems(2) _ Suc.prems(1)])
  have "37 \<notin> set (ascii newline)" by (simp add: ascii_def newline_def)
  then obtain k2 where k2: "print_lit env newline k1 = Some k2" "prints env ?W k1 (ascii newline) k2"
    using print_lit_result [OF k1(3) lit1 assms(3)] by blast
  have ok2: "program_ok env k2" "user_step ?W k1 k2" using k2(2) by (simp_all add: prints_def)
  have "d = unat lim - Suc n" "Suc n \<le> unat lim" using Suc.hyps(2) n by simp_all
  from Suc.hyps(1) [OF this(1) ok2(1) literals_kept [OF lit1 ok2(2) k1(3)] this(2)] obtain k' where
    k': "counter_loop env buf lim (word_of_nat (Suc n)) k2 = Some (0, k')"
    "prints env ?W k2 (numbered_lines [Suc (Suc n)..<Suc (unat lim)]) k'" by blast
  have "numbered_lines [Suc n..<Suc (unat lim)] = number_text 10 (Suc n) @ ascii newline @ numbered_lines [Suc (Suc n)..<Suc (unat lim)]"
    using n by (simp add: numbered_lines_def ascii_def newline_def upt_conv_Cons [of "Suc n"] del: upt_Suc)
  then have "prints env ?W k (numbered_lines [Suc n..<Suc (unat lim)]) k'"
    using prints_trans [OF P1 prints_trans [OF k2(2) k'(2)]] by simp
  moreover have "counter_loop env buf lim (word_of_nat n) k = Some (0, k')"
    using less m(1) k1(1) k2(1) k'(1) by (subst counter_loop.simps) (simp add: add.commute)
  ultimately show ?case by blast
qed

section \<open>The shell\<close>

definition shell_literals :: "string set" where
  "shell_literals = {''391OS> '', ''exit''}"

text \<open>
  One turn of the shell. What it has read is never the \<^verbatim>\<open>exit\<close> that it looks for, since the
  newline is still there.
\<close>

lemma shell_turn:
  assumes ok: "program_ok env k" and lit: "literals_ok env (in_range buf 128) k shell_literals"
    and page: "\<And>i. i < 128 \<Longrightarrow> in_user_page (buf + word_of_nat i)"
    and line: "line_waiting k line" "length line < 126" "0 \<notin> set line"
  shows "\<exists>k'. prints env (in_range buf 128) k (ascii ''391OS> '') k' \<and> user_string k' buf (line @ [0x0A]) \<and>
    proc_fds k' = proc_fds k \<and> directoryLoc k' = directoryLoc k \<and>
    shell_loop env buf k = Option.bind (ece391_execute env buf k') (\<lambda>(rval, k). Option.bind (shell_report env rval k) (shell_loop env buf))"
proof -
  let ?W = "in_range buf 128"
  have mem: "''391OS> '' \<in> shell_literals" "''exit'' \<in> shell_literals" by (simp_all add: shell_literals_def)
  have plain: "37 \<notin> set (ascii ''391OS> '')" by (simp add: ascii_def)
  obtain k1 where k1: "print_lit env ''391OS> '' k = Some k1" "prints env ?W k (ascii ''391OS> '') k1" "print_step k k1"
    using print_lit_result [OF ok lit mem(1) plain] by blast
  have ok1: "program_ok env k1" "screen_ok k1" using k1(2) by (simp_all add: prints_def program_ok_def)
  obtain k2 k3 where k2: "ece391_read env 0 buf 1023 k1 = Some (127, k2)" "vmem k2 (buf + 126) = 0" "user_store (buf + 127) 0 k2 = Some k3"
    and k3: "silent_step ?W k1 k3" "program_ok env k3" "user_string k3 buf (line @ [0x0A])"
    "proc_fds k3 = proc_fds k1" "directoryLoc k3 = directoryLoc k1"
    using read_line_string [OF ok1(1) line_waiting_print [OF k1(3) ok1(2) line(1)] line(2,3) page] by blast
  have "literals_ok env ?W k3 shell_literals"
    using literals_kept [OF literals_kept [OF lit _ ok] _ ok1(1)] k1(2) k3(1) by (simp add: prints_def silent_step_def)
  then have "user_string k3 (u_lit env ''exit'') (ascii ''exit'')" using mem(2) by (simp add: literals_ok_def)
  then obtain c where c: "ece391_strcmp (vmem k3) buf (u_lit env ''exit'') = Some c" "c = 0 \<longleftrightarrow> line @ [0x0A] = ascii ''exit''"
    using strcmp_result [of buf "vmem k3" "line @ [0x0A]" "u_lit env ''exit''" "ascii ''exit''"] k3(3) by (auto simp: user_string_def)
  have "line @ [0x0A] \<noteq> ascii ''exit''"
  proof
    assume "line @ [0x0A] = ascii ''exit''"
    then have "last (line @ [0x0A]) = last (ascii ''exit'')" by simp
    then show False by (simp add: ascii_def)
  qed
  then have c0: "c \<noteq> 0" using c(2) by simp
  have str: "cstr (ptr buf (vmem k3)) (line @ [0x0A])" using k3(3) by (simp add: user_string_def)
  have "vmem k3 buf \<noteq> 0" using cstr_nth_neq_0 [OF str, of 0] by (simp add: ptr_def)
  then have "shell_loop env buf k = Option.bind (ece391_execute env buf k3) (\<lambda>(rval, k). Option.bind (shell_report env rval k) (shell_loop env buf))"
    using k1(1) k2 c(1) c0 by (subst shell_loop.simps) (simp add: BUFSIZE_def Let_def)
  moreover have "prints env ?W k (ascii ''391OS> '') k3"
    using prints_trans [OF k1(2) prints_silent [OF k3(1,2)]] by simp
  ultimately show ?thesis using k3(3-5) print_step_fields [OF k1(3)] by auto
qed

section \<open>cat\<close>

lemma buffer_bytes:
  assumes ok: "program_ok env k" and page: "\<And>i. i < N \<Longrightarrow> in_user_page (buf + word_of_nat i)" and "length xs \<le> N" "N < 4294967296"
  shows "bytes (vmem (set_vmem (write_bytes buf xs (vmem k)) k)) buf N = xs @ drop (length xs) (bytes (vmem k) buf N)"
proof (rule bytes_eqI)
  let ?k = "set_vmem (write_bytes buf xs (vmem k)) k"
  have um: "user_mapped k" using ok by (simp add: program_ok_def)
  fix i assume i: "i < N"
  have "vmem ?k (buf + word_of_nat i) = write_bytes buf xs (vmem k) (buf + word_of_nat i)"
    by (rule vmem_set_user [OF um page [OF i]])
  then show "vmem ?k (buf + word_of_nat i) = (xs @ drop (length xs) (bytes (vmem k) buf N)) ! i"
    using i assms(3,4) by (simp add: write_bytes_apply nth_append)
qed (use assms(3) in simp)

lemma line_waiting_buffer: "line_waiting (set_vmem m k) line = line_waiting k line"
  by (simp add: line_waiting_def keyboard_ok_def typed_def key_array_def key_terminal_def screen_ok_def current_process_def set_vmem_def)

lemma user_getargs:
  assumes ok: "program_ok env k" and args: "cstr (arr (argbuf (pcbs k (current_process k)))) args" "args \<noteq> []" "length args < N"
    and page: "\<And>i. i < N \<Longrightarrow> in_user_page (buf + word_of_nat i)" and "N \<le> 0x400000"
  shows "\<exists>k'. ece391_getargs env buf n k = Some (0, k') \<and> silent_step (in_range buf N) k k' \<and> program_ok env k' \<and>
    proc_fds k' = proc_fds k \<and> bytes (vmem k') buf N = args @ 0 # drop (Suc (length args)) (bytes (vmem k) buf N) \<and>
    (\<forall>line. line_waiting k line \<longrightarrow> line_waiting k' line)"
proof -
  let ?t = "trapped env k" and ?xs = "args @ [0 :: u8]"
  let ?k = "set_vmem (write_bytes buf ?xs (vmem ?t)) ?t"
  have tok: "program_ok env ?t" by (rule trapped_ok [OF ok])
  have "in_user_page buf" using page [of 0] args(3) by simp
  then have buf0: "buf \<noteq> 0" by (rule user_page_0)
  have first: "arr (argbuf (pcbs k (current_process k))) 0 \<noteq> 0" using cstr_nth_neq_0 [OF args(1), of 0] args(2) by simp
  have "strcpy (vmem ?t) buf (\<lambda>_. arr (argbuf (pcbs k (current_process k)))) = Some (write_bytes buf ?xs (vmem ?t))"
    using args assms(6) by (intro strcpy_write) simp_all
  then have "getargs buf n ?t = Some (0, ?k)" using buf0 first by (simp add: getargs_def Let_def trapped_pcb [OF ok])
  moreover have "sti ?k = ?k" by (simp add: sti_def set_vmem_def trapped_def)
  ultimately have call: "ece391_getargs env buf n k = Some (0, ?k)"
    by (simp add: ece391_getargs_def DO_CALL_def SYS_GETARGS_def int80_calls)
  have pagex: "\<And>i. i < length ?xs \<Longrightarrow> in_user_page (buf + word_of_nat i)" using page args(3) by simp
  have len: "length ?xs < 4294967296" using args(3) assms(6) by simp
  note silent = silent_buffer [OF tok pagex len]
  have "silent_step (in_range buf N) ?t ?k" by (rule silent_mono [OF silent(1)]) (use args(3) in \<open>simp_all add: in_range_def\<close>)
  then have "silent_step (in_range buf N) k ?k" by (rule silent_step_trans [OF silent_trapped])
  moreover have "bytes (vmem ?k) buf N = args @ 0 # drop (Suc (length args)) (bytes (vmem k) buf N)"
    using buffer_bytes [OF tok page, of N ?xs] args(3) assms(6) by simp
  moreover have "line_waiting k line \<Longrightarrow> line_waiting ?k line" for line
    using line_waiting_print [OF print_step_trapped, of env k line] tok by (simp add: program_ok_def line_waiting_buffer)
  ultimately show ?thesis using call silent(2,3) by auto
qed

lemma user_read_file:
  assumes ok: "program_ok env k" and fd: "proc_fds k ! i = f" "2 \<le> i" "i < 8" "flags f = 1" "fops_ptr f = fops_file"
    and fl: "file_ok (FILESYSLOC k) (vmem k) (inode f)" "contents = file_contents (FILESYSLOC k) (vmem k) (inode f)"
      "unat (file_position f) \<le> length contents"
    and page: "\<And>i. i < N \<Longrightarrow> in_user_page (buf + word_of_nat i)" and n: "unat n \<le> N" "0 < N" "N \<le> 0x400000"
  defines "xs \<equiv> take (unat n) (drop (unat (file_position f)) contents)"
  shows "\<exists>k'. ece391_read env (word_of_nat i) buf n k = Some (word_of_nat (length xs), k') \<and>
    silent_step (in_range buf N) k k' \<and> program_ok env k' \<and>
    proc_fds k' = (proc_fds k)[i := f\<lparr>file_position := file_position f + word_of_nat (length xs)\<rparr>] \<and>
    bytes (vmem k') buf N = xs @ drop (length xs) (bytes (vmem k) buf N)"
proof -
  let ?t = "trapped env k" and ?fd = "word_of_nat i :: u32"
  have tok: "program_ok env ?t" by (rule trapped_ok [OF ok])
  have um: "user_mapped ?t" and len8: "length (proc_fds k) = 8" using ok by (simp_all add: program_ok_def)
  have fds: "fds (pcbs k (current_process k)) = proc_fds k" by (simp add: proc_fds_def)
  have f: "fd_of ?t ?fd = f" using small_fd(1) [OF fd(3)] fd(1) by (simp add: fd_of_def trapped_pcb [OF ok] fds)
  have cont: "fd_contents ?t ?fd = contents" by (simp add: fd_contents_def f fl(2))
  have rem: "take (unat n) (remaining ?t ?fd) = xs" by (simp add: remaining_def cont f xs_def)
  have vis: "image_visible ?t" by (rule program_files(1) [OF tok n(2,3) page])
  have ready: "fd_ready ?t ?fd"
    using vis um fl(1,3) small_fd(1) [OF fd(3)] fd(3) len8 by (simp add: fd_ready_def cont f trapped_pcb [OF ok] fds)
  have ub: "user_buffer ?t buf (unat n)"
  proof (cases "unat n = 0")
    case True
    then show ?thesis by (simp add: user_buffer_def disjoint_range_def)
  next
    case False
    then show ?thesis using n page by (intro program_files(2) [OF tok]) auto
  qed
  define m where "m = set_vmem (write_bytes buf xs (vmem ?t)) ?t"
  define k1 where "k1 = upd_pcb (current_process k) (upd_fd i (\<lambda>f. f\<lparr>file_position := file_position f + word_of_nat (length xs)\<rparr>)) m"
  have "unat n \<le> 0x400000" using n by simp
  from file_read_write [OF ready ub this] have "file_read ?fd buf n ?t = Some (word_of_nat (length xs), k1)"
    by (simp add: rem k1_def m_def trapped_pcb [OF ok] small_fd(1) [OF fd(3)])
  moreover have "in_user_page buf" using page [OF n(2)] by simp
  then have "buf \<noteq> 0" by (rule user_page_0)
  moreover have "fds (pcbs k (current_process k)) ! i = f" using fd(1) by (simp add: fds)
  ultimately have "sys_read ?fd buf n ?t = Some (word_of_nat (length xs), k1)"
    using small_fd [OF fd(3)] fd(4,5) by (simp add: sys_read_def Let_def trapped_pcb [OF ok] FD_OCCUP_def fops_file_def)
  then have call: "ece391_read env ?fd buf n k = Some (word_of_nat (length xs), sti k1)"
    by (simp add: ece391_read_def DO_CALL_def SYS_READ_def int80_calls)
  have lxs: "length xs \<le> unat n" by (simp add: xs_def)
  have pagex: "\<And>i. i < length xs \<Longrightarrow> in_user_page (buf + word_of_nat i)" using page lxs n(1) by simp
  have lxs2: "length xs < 4294967296" using lxs n by simp
  note silent = silent_buffer [OF tok pagex lxs2, folded m_def]
  have sm: "silent_step (in_range buf N) ?t m" by (rule silent_mono [OF silent(1)]) (use lxs n(1) in \<open>simp_all add: in_range_def\<close>)
  have mp: "pcbs m = pcbs k" "current_process m = current_process k" by (simp_all add: m_def current_process_def)
  have state: "sti k1 = m\<lparr>iflag := True, pcbs := (pcbs m)(current_process m := (pcbs m (current_process m))
      \<lparr>fds := (proc_fds k)[i := f\<lparr>file_position := file_position f + word_of_nat (length xs)\<rparr>]\<rparr>)\<rparr>"
    using fd(1) by (simp add: k1_def upd_pcb_def upd_fd_def sti_def mp fds)
  have "user_step (in_range buf N) m (sti k1)"
    by (rule user_stepI [where m = "mem m" and log = "io_log m" and b = True and e = "r_esp m" and x = "screen_x m" and
        y = "screen_y m" and loc = "directoryLoc m" and i = "key_buffer_idx m" and ts = "terminal m" and
        fs = "(proc_fds k)[i := f\<lparr>file_position := file_position f + word_of_nat (length xs)\<rparr>]"]) (simp_all add: state)
  then have "silent_step (in_range buf N) m (sti k1)" by (simp add: silent_step_def state fore_console_def screen_ok_def)
  then have step: "silent_step (in_range buf N) k (sti k1)"
    by (rule silent_step_trans [OF silent_trapped silent_step_trans [OF sm]])
  have pf: "proc_fds (sti k1) = (proc_fds k)[i := f\<lparr>file_position := file_position f + word_of_nat (length xs)\<rparr>]"
    by (simp add: state proc_fds_def current_process_def)
  have "program_ok env (sti k1)"
    using ok fd(2) by (intro silent_keeps_program [OF ok step]) (simp_all add: pf program_ok_def)
  moreover have "vmem (sti k1) = vmem m" by (rule vmem_cong) (simp_all add: state fun_eq_iff)
  moreover have "bytes (vmem m) buf N = xs @ drop (length xs) (bytes (vmem k) buf N)"
    using buffer_bytes [OF tok page, of N xs] lxs n by (simp add: m_def)
  ultimately show ?thesis using call step pf by auto
qed

text \<open>What is behind the file in the buffer: the rest of the argument and of the uninitialised array.\<close>

definition stale :: "nat \<Rightarrow> u8 list \<Rightarrow> u8 list \<Rightarrow> u8 list" where
  "stale n args old = drop n (args @ 0 # drop (Suc (length args)) old)"

lemma cat_main_prints:
  assumes ok: "program_ok env k" and args: "cstr (arr (argbuf (pcbs k (current_process k)))) args" "args \<noteq> []" "length args < 100"
    and page: "\<And>i. i < 1024 \<Longrightarrow> in_user_page (buf + word_of_nat i)"
    and look: "lookup_name k args = Some d" "filetype d = 2" "free_fd k = Some j"
    and fl: "file_ok (FILESYSLOC k) (vmem k) (inodeNumber d)" "contents = file_contents (FILESYSLOC k) (vmem k) (inodeNumber d)"
    and small: "contents \<noteq> []" "length contents < 1024" "0 \<notin> set contents" "37 \<notin> set contents"
    and tail: "stale (length contents) args (bytes (vmem k) buf 1024) = left @ 0 # rest" "0 \<notin> set left" "37 \<notin> set left"
  shows "\<exists>k'. cat_main env buf k = Some (0, k') \<and> prints env (in_range buf 1024) k (contents @ left) k'"
proof -
  let ?W = "in_range buf 1024"
  have args1024: "length args < 1024" using args(3) by simp
  obtain k1 where k1: "ece391_getargs env buf 1024 k = Some (0, k1)" "silent_step ?W k k1" "program_ok env k1" "proc_fds k1 = proc_fds k"
    "bytes (vmem k1) buf 1024 = args @ 0 # drop (Suc (length args)) (bytes (vmem k) buf 1024)"
    using user_getargs [OF ok args(1,2) args1024 page] by auto
  have s1: "user_step ?W k k1" using k1(2) by (simp add: silent_step_def)
  have "0 \<notin> set args" using args(1) by (simp add: cstr_def)
  then have name: "user_string k1 buf args" using user_string_bytes [OF k1(5) _ _ page] by simp
  have "free_fd k1 = Some j" using look(3) by (simp add: free_fd_def k1(4))
  moreover have "lookup_name k1 args = Some d" using look(1) by (simp add: step_lookup [OF ok s1])
  moreover have "opened_file d = Some (fops_file, inodeNumber d)" using look(2) by (simp add: opened_file_def)
  ultimately obtain k2 where k2: "ece391_open env buf k1 = Some (word_of_nat j, k2)" "silent_step ?W k1 k2" "program_ok env k2"
    "proc_fds k2 = (proc_fds k)[j := new_descriptor fops_file (inodeNumber d)]" "vmem k2 = vmem k1"
    using user_open [OF k1(3) name, of d j fops_file "inodeNumber d" ?W] by (auto simp: k1(4))
  note j = free_fd_range [OF look(3)]
  have s2: "user_step ?W k k2" using k2(2) user_step_trans [OF s1] by (simp add: silent_step_def)
  note file2 = step_contents [OF ok s2 fl(1)]
  have len8: "length (proc_fds k) = 8" using ok by (simp add: program_ok_def)
  let ?f = "new_descriptor fops_file (inodeNumber d)"
  have nd: "flags ?f = 1" "fops_ptr ?f = fops_file" "inode ?f = inodeNumber d" "file_position ?f = 0"
    by (simp_all add: new_descriptor_def)
  have "proc_fds k2 ! j = ?f" using k2(4) j len8 by simp
  from user_read_file [OF k2(3) this _ _ nd(1,2), of contents 1024 buf 1024] obtain k3 where
    k3: "ece391_read env (word_of_nat j) buf 1024 k2 = Some (word_of_nat (length contents), k3)" "silent_step ?W k2 k3" "program_ok env k3"
    "proc_fds k3 = (proc_fds k)[j := ?f\<lparr>file_position := word_of_nat (length contents)\<rparr>]"
    "bytes (vmem k3) buf 1024 = contents @ drop (length contents) (bytes (vmem k2) buf 1024)"
    using file2 fl(2) small(2) page j by (auto simp: nd k2(4))
  have "bytes (vmem k3) buf 1024 = (contents @ left) @ 0 # rest"
    using k3(5) tail(1) by (simp add: k2(5) k1(5) stale_def)
  then have str: "user_string k3 buf (contents @ left)" using small(3) tail(2) by (intro user_string_bytes [OF _ _ _ page]) simp_all
  have "37 \<notin> set (contents @ left)" using small(4) tail(3) by simp
  from user_write [OF k3(3) str this, of "word_of_nat (length contents)"] obtain k4 where
    k4: "ece391_write env 1 buf (word_of_nat (length contents)) k3 = Some (word_of_nat (length (contents @ left)), k4)"
    "print_step k3 k4" "program_ok env k4" "fore_console k4 = fold con_putc (contents @ left) (fore_console k3)" by blast
  have s3: "user_step ?W k k3" using k3(2) user_step_trans [OF s2] by (simp add: silent_step_def)
  have s4: "user_step ?W k k4" by (rule user_step_trans [OF s3 print_step_user [OF k4(2)]])
  note file4 = step_contents [OF ok s4 fl(1)]
  let ?g = "?f\<lparr>file_position := word_of_nat (length contents)\<rparr>"
  have g: "flags ?g = 1" "fops_ptr ?g = fops_file" "inode ?g = inodeNumber d" "unat (file_position ?g) = length contents"
    using small(2) by (simp_all add: new_descriptor_def)
  have fd4: "proc_fds k4 ! j = ?g" using print_step_fields [OF k4(2)] k3(4) j len8 by simp
  have fo: "file_ok (FILESYSLOC k4) (vmem k4) (inode ?g)" using file4(2) by (simp only: g(3))
  have co: "contents = file_contents (FILESYSLOC k4) (vmem k4) (inode ?g)" unfolding g(3) file4(3) by (rule fl(2))
  have po: "unat (file_position ?g) \<le> length contents" by (simp only: g(4))
  have "drop (unat (file_position ?g)) contents = []" by (simp only: g(4)) simp
  then obtain k5 where
    k5: "ece391_read env (word_of_nat j) buf 1024 k4 = Some (0, k5)" "silent_step ?W k4 k5" "program_ok env k5"
    using user_read_file [OF k4(3) fd4 _ _ g(1,2) fo co po page, where n = 1024 and N = 1024] j by auto
  have "length (contents @ left) < 1024"
    using arg_cong [OF \<open>bytes (vmem k3) buf 1024 = (contents @ left) @ 0 # rest\<close>, of length] by simp
  then have r: "(word_of_nat (length (contents @ left)) :: u32) \<noteq> - 1" by (intro small_word_facts(2)) simp
  have c: "(word_of_nat (length contents) :: u32) \<noteq> 0" "(word_of_nat (length contents) :: u32) \<noteq> - 1"
    using small(1,2) small_word_facts [of "length contents"] by simp_all
  have loop: "cat_loop env buf (word_of_nat j) k2 = Some (0, k5)"
    using k3(1) k4(1) k5(1) c r by (subst cat_loop.simps, simp, subst cat_loop.simps, simp)
  have "prints env ?W k3 (contents @ left) k4" using k4(3,4) print_step_user [OF k4(2)] by (simp add: prints_def)
  from prints_trans [OF this prints_silent [OF k5(2,3)]]
  have "prints env ?W k (contents @ left) k5"
    using prints_after_silent [OF k1(2) prints_after_silent [OF k2(2) prints_after_silent [OF k3(2)]]] by simp
  moreover have "cat_main env buf k = Some (0, k5)"
    using k1(1) k2(1) loop j small_word_facts(2) [of j] by (simp add: cat_main_def)
  ultimately show ?thesis by blast
qed

section \<open>Properties\<close>

text \<open>
  C6. \<^verbatim>\<open>ls\<close> prints the names of the directory in order, one on a line, from the position in
  the directory that was left there on, and leaves it at the start; it returns 0, and of its
  memory only its array changes. Names are shorter than 32 characters and have no percent sign.
\<close>

theorem ls_lists_directory:
  assumes "program_ok env k" and "literals_ok env (in_range buf 33) k {''.''}"
    and "\<forall>j<33. in_user_page (buf + word_of_nat j)"
    and "lookup_name k (ascii ''.'') = Some d" "filetype d = 1" and "free_fd k \<noteq> None"
    and "listable (names k)" and "unat (directoryLoc k) \<le> length (names k)"
  shows "\<exists>k'. ls_main env buf k = Some (0, k') \<and>
    prints env (in_range buf 33) k (listing (drop (unat (directoryLoc k)) (names k))) k' \<and> directoryLoc k' = 0"
  using ls_main_lists [OF assms(1,2) _ _ assms(4,5) _ assms(7,8)] assms(3,6) by auto

lemma ls_lists_directory_witness:
  "\<exists>k'. ls_main (program_env [''.'']) 0x8000000 (program_kernel [''.''] [] []) = Some (0, k') \<and>
    fore_console k' = fold con_putc (ascii ''.'' @ [0x0A] @ ascii ''frame0'' @ [0x0A])
      (fore_console (program_kernel [''.''] [] []))"
proof -
  let ?k = "program_kernel [''.''] [] []"
  have lit: "literals_ok (program_env [''.'']) (in_range 0x8000000 33) ?k {''.''}"
    using program_literals [of "[''.'']" 33 "[]" "[]"] by (simp add: ascii_def)
  have page: "\<forall>j<33. in_user_page (0x8000000 + word_of_nat j)" using program_page [of 33] by simp
  have "listable (names ?k)" by (simp add: program_names listable_def ascii_def)
  moreover have "directoryLoc ?k = 0"
    by (simp add: program_kernel_def sample_kernel_def page_remap_def paging_init_def Let_def flush_tlb_def init_pages_eq
      some_kernel_def boot_kernel_def)
  ultimately show ?thesis
    using ls_lists_directory [OF program_kernel_ok lit page] sample_lookups(1)
    by (auto simp: program_lookup program_free_fd program_names listing_def prints_def)
qed

text \<open>
  C18. \<^verbatim>\<open>cat\<close> of a text file shorter than its buffer prints the file and then, since a write to
  the terminal goes on to the next NUL, what the buffer still holds behind it: the rest of the
  argument and of the uninitialised array.
\<close>

theorem cat_prints_file:
  assumes "program_ok env k" and "cstr (arr (argbuf (pcbs k (current_process k)))) args" "args \<noteq> []" "length args < 100"
    and "\<forall>i<1024. in_user_page (buf + word_of_nat i)"
    and "lookup_name k args = Some d" "filetype d = 2" "free_fd k \<noteq> None"
    and "file_ok (FILESYSLOC k) (vmem k) (inodeNumber d)" "contents = file_contents (FILESYSLOC k) (vmem k) (inodeNumber d)"
    and "contents \<noteq> []" "length contents < 1024" "0 \<notin> set contents" "37 \<notin> set contents"
    and "stale (length contents) args (bytes (vmem k) buf 1024) = left @ 0 # rest" "0 \<notin> set left" "37 \<notin> set left"
  shows "\<exists>k'. cat_main env buf k = Some (0, k') \<and> prints env (in_range buf 1024) k (contents @ left) k'"
  using cat_main_prints [OF assms(1-4) _ assms(6,7) _ assms(9-17)] assms(5,8) by auto

lemma cat_prints_file_witness:
  "\<exists>k'. cat_main (program_env []) 0x8000000 (program_kernel [] (ascii ''frame0'') []) = Some (0, k') \<and>
    fore_console k' = fold con_putc (ascii ''Hello0'') (fore_console (program_kernel [] (ascii ''frame0'') []))"
proof -
  let ?k = "program_kernel [] (ascii ''frame0'') []"
  have arg: "cstr (arr (argbuf (pcbs ?k (current_process ?k)))) (ascii ''frame0'')"
    by (simp add: program_kernel_def program_pcb_def) (rule cstr_arr; simp add: ascii_def)
  have page: "\<forall>j<1024. in_user_page (0x8000000 + word_of_nat j)" using program_page [of 1024] by simp
  obtain d where d: "lookup_name ?k (ascii ''frame0'') = Some d" "filetype d = 2" "inodeNumber d = 0"
    using sample_lookup(3) by (auto simp: program_lookup)
  note same = same_image_file_contents [OF program_image(2) [of "[]" "ascii ''frame0''" "[]"] sample_file_ok]
  have fl: "file_ok (FILESYSLOC ?k) (vmem ?k) (inodeNumber d)"
    "ascii ''Hello'' = file_contents (FILESYSLOC ?k) (vmem ?k) (inodeNumber d)"
    using same sample_contents by (simp_all add: d(3) program_image(1)) (simp add: ascii_def)
  have seven: "Suc (length (ascii ''frame0'')) = 7" and five: "length (ascii ''Hello'') = 5" by simp_all
  have rest: "stale (length (ascii ''Hello'')) (ascii ''frame0'') (bytes (vmem ?k) 0x8000000 1024) =
      ascii ''0'' @ 0 # drop 7 (bytes (vmem ?k) 0x8000000 1024)" unfolding stale_def seven five by (simp add: ascii_def)
  have "\<exists>k'. cat_main (program_env []) 0x8000000 ?k = Some (0, k') \<and>
      prints (program_env []) (in_range 0x8000000 1024) ?k (ascii ''Hello'' @ ascii ''0'') k'"
    by (rule cat_prints_file [OF program_kernel_ok arg _ _ page d(1,2) _ fl _ _ _ _ rest]) (simp_all add: program_free_fd ascii_def)
  moreover have "ascii ''Hello'' @ ascii ''0'' = ascii ''Hello0''" by (simp add: ascii_def)
  ultimately show ?thesis by (auto simp: prints_def)
qed

text \<open>
  \<^verbatim>\<open>hello\<close> asks for the name, and when a line has been typed greets with it.
\<close>

lemma hello_greets:
  assumes "program_ok env k" and "literals_ok env (in_range buf 128) k {''Hi, what's your name? '', ''Hello, ''}"
    and "\<forall>i<128. in_user_page (buf + word_of_nat i)"
    and "line_waiting k line" "length line < 126" "0 \<notin> set line" "37 \<notin> set line"
  shows "\<exists>k'. hello_main env buf k = Some (0, k') \<and>
    prints env (in_range buf 128) k (ascii ''Hi, what's your name? '' @ ascii ''Hello, '' @ line @ [0x0A]) k'"
  using hello_main_greets [OF assms(1) _ _ assms(4-7)] assms(2,3) by (simp add: hello_literals_def)

text \<open>
  C23. \<^verbatim>\<open>counter\<close> with the choice 0, 1 or 2 prints the decimal numbers from 1 to 100, 10000 or
  100000, each on a line, and returns.
\<close>

theorem counter_counts:
  assumes "program_ok env k"
    and "literals_ok env (in_range buf 128) k {''Enter the Test Number: (0): 100, (1): 10000, (2): 100000'' @ newline, newline}"
    and "\<forall>i<128. in_user_page (buf + word_of_nat i)" and "line_waiting k [0x30 + word_of_nat n]" "n < 3"
  shows "\<exists>k'. counter_main env buf k = Some (0, k') \<and> prints env (in_range buf 128) k
    (ascii ''Enter the Test Number: (0): 100, (1): 10000, (2): 100000'' @ ascii newline @ numbered_lines [1..<Suc ([100, 10000, 100000] ! n)]) k'"
proof -
  let ?W = "in_range buf 128" and ?c = "0x30 + word_of_nat n :: u8"
  let ?ask = "''Enter the Test Number: (0): 100, (1): 10000, (2): 100000'' @ newline"
  have page: "\<And>i. i < 128 \<Longrightarrow> in_user_page (buf + word_of_nat i)" using assms(3) by blast
  have n: "n = 0 \<or> n = 1 \<or> n = 2" using assms(5) by auto
  then have c: "?c \<noteq> 0" "\<not> ?c < 0x30" "\<not> 0x32 < ?c" "unat (counter_max ?c) = [100, 10000, 100000] ! n"
    by (auto simp: counter_max_def)
  have plain: "37 \<notin> set (ascii ?ask)" by (simp add: ascii_def newline_def)
  obtain k1 where k1: "print_lit env ?ask k = Some k1" "prints env ?W k (ascii ?ask) k1" "print_step k k1"
    using print_lit_result [OF assms(1,2) _ plain] by blast
  have ok1: "program_ok env k1" "screen_ok k1" using k1(2) by (simp_all add: prints_def program_ok_def)
  obtain k2 k3 where k2: "ece391_read env 0 buf 1023 k1 = Some (127, k2)" "user_store (buf + 127) 0 k2 = Some k3"
    and k3: "silent_step ?W k1 k3" "program_ok env k3" "user_string k3 buf ([?c] @ [0x0A])"
    using read_line_string [OF ok1(1) line_waiting_print [OF k1(3) ok1(2) assms(4)] _ _ page] c(1) by auto
  have lit3: "literals_ok env ?W k3 {?ask, newline}"
    using literals_kept [OF literals_kept [OF assms(2) _ assms(1)] _ ok1(1)] k1(2) k3(1) by (simp add: prints_def silent_step_def)
  have str: "cstr (ptr buf (vmem k3)) [?c, 0x0A]" using k3(3) by (simp add: user_string_def)
  have len: "ece391_strlen (vmem k3) buf = Some 2" using strlen_cstr [OF str] by (simp add: strlen_same)
  have first: "vmem k3 buf = ?c" using cstr_nth [OF str, of 0] by (simp add: ptr_def)
  have lim: "unat (counter_max ?c) < 4294967295" using n unfolding c(4) by auto
  obtain k4 where k4: "counter_loop env buf (counter_max ?c) 0 k3 = Some (0, k4)"
    "prints env ?W k3 (numbered_lines [1..<Suc ([100, 10000, 100000] ! n)]) k4"
    using counter_loop_prints [OF k3(2) lit3 _ page _ lim, of 0] by (auto simp: c(4))
  have "counter_main env buf k = Some (0, k4)"
    using k1(1) k2 len k4(1) c(2,3) small_word_facts(2) [of 127] by (simp add: counter_main_def BUFSIZE_def first Let_def)
  moreover have "ascii ?ask = ascii ''Enter the Test Number: (0): 100, (1): 10000, (2): 100000'' @ ascii newline" by (simp add: ascii_def)
  ultimately show ?thesis using prints_trans [OF k1(2) prints_after_silent [OF k3(1) k4(2)]] by (simp del: upt_Suc)
qed

lemma counter_counts_witness:
  "\<exists>k'. counter_main (program_env [''Enter the Test Number: (0): 100, (1): 10000, (2): 100000'' @ newline, newline]) 0x8000000
      (program_kernel [''Enter the Test Number: (0): 100, (1): 10000, (2): 100000'' @ newline, newline] [] [0x31]) = Some (0, k')"
proof -
  let ?l = "[''Enter the Test Number: (0): 100, (1): 10000, (2): 100000'' @ newline, newline]"
  let ?k = "program_kernel ?l [] [0x31]"
  have "literals_ok (program_env ?l) (in_range 0x8000000 128) ?k (set ?l)"
    by (rule program_literals) (simp_all add: ascii_def newline_def)
  then have lit: "literals_ok (program_env ?l) (in_range 0x8000000 128) ?k
      {''Enter the Test Number: (0): 100, (1): 10000, (2): 100000'' @ newline, newline}" by simp
  have page: "\<forall>j<128. in_user_page (0x8000000 + word_of_nat j)" using program_page [of 128] by simp
  have "line_waiting ?k [0x30 + word_of_nat 1]" using program_line [of "[0x31]"] by simp
  from counter_counts [OF program_kernel_ok lit page this] show ?thesis by auto
qed

text \<open>
  C14. The shell gives every line that is typed to \<^verbatim>\<open>execute\<close>, after its prompt and with the
  newline still at the end, reports on the result and goes on; it never takes a line for the
  empty one or for its own \<^verbatim>\<open>exit\<close>.
\<close>

theorem shell_executes_line:
  assumes "program_ok env k" and "literals_ok env (in_range buf 128) k {''391OS> '', ''exit''}"
    and "\<forall>i<128. in_user_page (buf + word_of_nat i)" and "line_waiting k line" "length line < 126" "0 \<notin> set line"
  shows "\<exists>k'. prints env (in_range buf 128) k (ascii ''391OS> '') k' \<and> user_string k' buf (line @ [0x0A]) \<and>
    shell_loop env buf k = Option.bind (ece391_execute env buf k') (\<lambda>(rval, k). Option.bind (shell_report env rval k) (shell_loop env buf))"
  using shell_turn [OF assms(1) _ _ assms(4-6), of buf] assms(2,3) unfolding shell_literals_def by auto

lemma shell_executes_line_witness:
  "\<exists>k'. prints (program_env [''391OS> '', ''exit'']) (in_range 0x8000000 128)
      (program_kernel [''391OS> '', ''exit''] [] (ascii ''exit'')) (ascii ''391OS> '') k' \<and>
    user_string k' 0x8000000 (ascii ''exit'' @ [0x0A])"
proof -
  let ?l = "[''391OS> '', ''exit'']"
  let ?k = "program_kernel ?l [] (ascii ''exit'')"
  have "literals_ok (program_env ?l) (in_range 0x8000000 128) ?k (set ?l)"
    by (rule program_literals) (simp_all add: ascii_def)
  then have lit: "literals_ok (program_env ?l) (in_range 0x8000000 128) ?k {''391OS> '', ''exit''}" by simp
  have page: "\<forall>j<128. in_user_page (0x8000000 + word_of_nat j)" using program_page [of 128] by simp
  have "line_waiting ?k (ascii ''exit'')" by (rule program_line) simp
  from shell_executes_line [OF program_kernel_ok lit page this] show ?thesis by (auto simp: ascii_def)
qed

end
