(* ===== verification/Syserr.thy ===== *)
theory Syserr
  imports User_Sample
begin

text \<open>
  The test program of the system calls, \<^verbatim>\<open>syscalls/ece391syserr.c\<close>: its eight tests and the menu,
  and that they pass.
\<close>

unbundle bit_operations_syntax

section \<open>Definitions\<close>

definition NEG_FD :: i32 where "NEG_FD = - 1073741823"
definition BIG_FD :: i32 where "BIG_FD = 1073741823"
definition BIG_NUM :: i32 where "BIG_NUM = 1073741823"
definition NEG_NUM :: i32 where "NEG_NUM = - 1073741823"

text \<open>A trap with only the number set; the other registers hold anything.\<close>

definition call_sys :: "user_env \<Rightarrow> i32 \<Rightarrow> kernel \<Rightarrow> (i32 \<times> kernel) option" where
  "call_sys env num k = int80 env num (u_junk env 0) (u_junk env 1) (u_junk env 2) k"

text \<open>One check of a test, and the end of a test, with the variable \<open>fail\<close>.\<close>

definition check :: "user_env \<Rightarrow> bool \<Rightarrow> string \<Rightarrow> i32 \<Rightarrow> kernel \<Rightarrow> (i32 \<times> kernel) option" where
  "check env bad s fail k = (if bad then map_option (Pair 2) (print_lit env s k) else Some (fail, k))"

definition verdict :: "user_env \<Rightarrow> string \<Rightarrow> string \<Rightarrow> i32 \<Rightarrow> kernel \<Rightarrow> (i32 \<times> kernel) option" where
  "verdict env bad good fail k = map_option (Pair fail) (if fail \<noteq> 0 then print_lit env bad k else print_lit env good k)"

definition err_neg_fd :: "user_env \<Rightarrow> addr \<Rightarrow> kernel \<Rightarrow> (i32 \<times> kernel) option" where
  "err_neg_fd env buf k = do {
     (r, k) \<leftarrow> ece391_read env NEG_FD buf 31 k;
     (fail, k) \<leftarrow> check env (r \<noteq> - 1) (''read fail'' @ newline) 0 k;
     (r, k) \<leftarrow> ece391_write env NEG_FD buf 31 k;
     (fail, k) \<leftarrow> check env (r \<noteq> - 1) (''write fail'' @ newline) fail k;
     (r, k) \<leftarrow> ece391_close env NEG_FD k;
     (fail, k) \<leftarrow> check env (r \<noteq> - 1) (''close fail'' @ newline) fail k;
     verdict env (''err_neg_fd: FAIL'' @ newline) (''err_neg_fd: PASS'' @ newline) fail k }"

definition err_big_fd :: "user_env \<Rightarrow> addr \<Rightarrow> kernel \<Rightarrow> (i32 \<times> kernel) option" where
  "err_big_fd env buf k = do {
     (r, k) \<leftarrow> ece391_read env BIG_FD buf 31 k;
     (fail, k) \<leftarrow> check env (r \<noteq> - 1) (''read fail'' @ newline) 0 k;
     (r, k) \<leftarrow> ece391_write env BIG_FD buf 31 k;
     (fail, k) \<leftarrow> check env (r \<noteq> - 1) (''write fail'' @ newline) fail k;
     (r, k) \<leftarrow> ece391_close env BIG_FD k;
     (fail, k) \<leftarrow> check env (r \<noteq> - 1) (''close fail'' @ newline) fail k;
     verdict env (''err_big_fd: FAIL'' @ newline) (''err_big_fd: PASS'' @ newline) fail k }"

text \<open>The two loops of \<^verbatim>\<open>err_open_lots\<close>.\<close>

primrec open_lots :: "user_env \<Rightarrow> nat \<Rightarrow> i32 \<Rightarrow> kernel \<Rightarrow> (i32 \<times> kernel) option" where
  "open_lots env 0 cnt k = Some (cnt, k)"
| "open_lots env (Suc n) cnt k = do {
     (r, k) \<leftarrow> ece391_open env (u_lit env ''.'') k;
     open_lots env n (if r = - 1 then cnt + 1 else cnt) k }"

primrec close_fds :: "user_env \<Rightarrow> nat list \<Rightarrow> kernel \<Rightarrow> kernel option" where
  "close_fds env [] k = Some k"
| "close_fds env (i # is) k = do {
     (r, k) \<leftarrow> ece391_close env (word_of_nat i) k;
     close_fds env is k }"

definition err_open_lots :: "user_env \<Rightarrow> kernel \<Rightarrow> (i32 \<times> kernel) option" where
  "err_open_lots env k = do {
     (cnt, k) \<leftarrow> open_lots env 7 0 k;
     k \<leftarrow> close_fds env [2..<8] k;
     if cnt = 1 then map_option (Pair 0) (print_lit env (''err_open_lots: PASS'' @ newline) k)
     else map_option (Pair 2) (print_lit env (''err_open_lots: FAIL'' @ newline) k) }"

definition err_open :: "user_env \<Rightarrow> kernel \<Rightarrow> (i32 \<times> kernel) option" where
  "err_open env k = do {
     (r, k) \<leftarrow> ece391_open env (u_lit env ''helloo'') k;
     (fail, k) \<leftarrow> check env (r \<noteq> - 1) ('''helloo' fail'' @ newline) 0 k;
     (r, k) \<leftarrow> ece391_open env (u_lit env ''shel'') k;
     (fail, k) \<leftarrow> check env (r \<noteq> - 1) ('''shel' fail'' @ newline) fail k;
     (r, k) \<leftarrow> ece391_open env (u_lit env []) k;
     (fail, k) \<leftarrow> check env (r \<noteq> - 1) (''empty string fail'' @ newline) fail k;
     verdict env (''err_open: FAIL'' @ newline) (''err_open: PASS'' @ newline) fail k }"

text \<open>One of the loops of \<^verbatim>\<open>err_unopened\<close>, over descriptors.\<close>

primrec unopened :: "user_env \<Rightarrow> (i32 \<Rightarrow> kernel \<Rightarrow> (i32 \<times> kernel) option) \<Rightarrow> string \<Rightarrow> nat list \<Rightarrow> i32 \<Rightarrow> kernel \<Rightarrow> (i32 \<times> kernel) option" where
  "unopened env call s [] fail k = Some (fail, k)"
| "unopened env call s (i # is) fail k = do {
     (r, k) \<leftarrow> call (word_of_nat i) k;
     (fail, k) \<leftarrow> check env (r \<noteq> - 1) s fail k;
     unopened env call s is fail k }"

definition err_unopened :: "user_env \<Rightarrow> addr \<Rightarrow> kernel \<Rightarrow> (i32 \<times> kernel) option" where
  "err_unopened env buf k = do {
     (fail, k) \<leftarrow> unopened env (ece391_close env) (''close unopened or invalid fd fail'' @ newline) [0..<8] 0 k;
     (fail, k) \<leftarrow> unopened env (\<lambda>i. ece391_read env i buf 31) (''read from unopened fd fail'' @ newline) [2..<8] fail k;
     (fail, k) \<leftarrow> unopened env (\<lambda>i. ece391_write env i buf 31) (''write to unopened fd fail'' @ newline) [2..<8] fail k;
     verdict env (''err_unopened: FAIL'' @ newline) (''err_unopened: PASS'' @ newline) fail k }"

definition err_vidmap :: "user_env \<Rightarrow> kernel \<Rightarrow> (i32 \<times> kernel) option" where
  "err_vidmap env k = do {
     (r, k) \<leftarrow> ece391_vidmap env 0 k;
     (fail, k) \<leftarrow> check env (r \<noteq> - 1) (''Null pointer fail'' @ newline) 0 k;
     (r, k) \<leftarrow> ece391_vidmap env 0x400000 k;
     (fail, k) \<leftarrow> check env (r \<noteq> - 1) (''Kernel pointer fail fail'' @ newline) fail k;
     verdict env (''err_vidmap: FAIL'' @ newline) (''err_vidmap: PASS'' @ newline) fail k }"

definition err_stdin_out :: "user_env \<Rightarrow> addr \<Rightarrow> kernel \<Rightarrow> (i32 \<times> kernel) option" where
  "err_stdin_out env buf k = do {
     (r, k) \<leftarrow> ece391_write env 0 buf 31 k;
     (fail, k) \<leftarrow> check env (r \<noteq> - 1) (''write to stdin fail'' @ newline) 0 k;
     (r, k) \<leftarrow> ece391_read env 1 buf 31 k;
     (fail, k) \<leftarrow> check env (r \<noteq> - 1) (''read from stdout fail'' @ newline) fail k;
     verdict env (''err_stdin_out: FAIL'' @ newline) (''err_stdin_out: PASS'' @ newline) fail k }"

definition err_syscall_num :: "user_env \<Rightarrow> kernel \<Rightarrow> (i32 \<times> kernel) option" where
  "err_syscall_num env k = do {
     (r, k) \<leftarrow> call_sys env BIG_NUM k;
     (fail, k) \<leftarrow> check env (r \<noteq> - 1) (''syscall 0 fail'' @ newline) 0 k;
     (r, k) \<leftarrow> call_sys env NEG_NUM k;
     (fail, k) \<leftarrow> check env (r \<noteq> - 1) (''big num syscall fail'' @ newline) fail k;
     (r, k) \<leftarrow> call_sys env 0 k;
     (fail, k) \<leftarrow> check env (r \<noteq> - 1) (''neg num syscall fail'' @ newline) fail k;
     verdict env (''err_syscall_num: FAIL'' @ newline) (''err_syscall_num: PASS'' @ newline) fail k }"

definition syserr_all :: "user_env \<Rightarrow> (nat \<Rightarrow> addr) \<Rightarrow> kernel \<Rightarrow> (i32 \<times> kernel) option" where
  "syserr_all env bufs k = do {
     (f1, k) \<leftarrow> err_neg_fd env (bufs 1) k;
     (f2, k) \<leftarrow> err_big_fd env (bufs 2) k;
     (f3, k) \<leftarrow> err_open_lots env k;
     (f4, k) \<leftarrow> err_open env k;
     (f5, k) \<leftarrow> err_unopened env (bufs 5) k;
     (f6, k) \<leftarrow> err_vidmap env k;
     (f7, k) \<leftarrow> err_stdin_out env (bufs 7) k;
     (f8, k) \<leftarrow> err_syscall_num env k;
     verdict env (newline @ ''Overall Tests: FAIL'' @ newline) (newline @ ''Overall Tests: PASS'' @ newline)
       (f1 + f2 + f3 + f4 + f5 + f6 + f7 + f8) k }"

text \<open>The array of \<^verbatim>\<open>main\<close> is at \<open>bufs 0\<close>, that of test \<open>i\<close> at \<open>bufs i\<close>.\<close>

definition syserr_main :: "user_env \<Rightarrow> (nat \<Rightarrow> addr) \<Rightarrow> kernel \<Rightarrow> (i32 \<times> kernel) option" where
  "syserr_main env bufs k = do {
     k \<leftarrow> print_lit env ''Choose from tests 1-8. 0 to run all: '' k;
     (cnt, k) \<leftarrow> ece391_read env 0 (bufs 0) 127 k;
     if cnt = - 1 then map_option (Pair 2) (print_lit env (''Can't read test #'' @ newline) k)
     else let select = (ucast (vmem k (bufs 0)) - 0x30 :: i32) in
       if select = 0 then syserr_all env bufs k
       else if select = 1 then err_neg_fd env (bufs 1) k
       else if select = 2 then err_big_fd env (bufs 2) k
       else if select = 3 then err_open_lots env k
       else if select = 4 then err_open env k
       else if select = 5 then err_unopened env (bufs 5) k
       else if select = 6 then err_vidmap env k
       else if select = 7 then err_stdin_out env (bufs 7) k
       else if select = 8 then err_syscall_num env k
       else map_option (Pair 0) (print_lit env ''Invalid test number. Choose from tests 1-8 or 0'' k) }"

section \<open>The tests\<close>

definition no_files :: "kernel \<Rightarrow> bool" where
  "no_files k \<longleftrightarrow> (\<forall>i\<in>{2..<8}. flags (proc_fds k ! i) = 0)"

lemma refused_numbers:
  "NEG_FD <s 0" "7 <s BIG_FD" "NEG_FD <s 2" "8 <s BIG_NUM" "NEG_NUM <s 1" "(0 :: i32) <s 1" "(0 :: i32) <s 2" "(1 :: i32) <s 2"
  by code_simp+

lemma check_false [simp]: "check env False s fail k = Some (fail, k)"
  by (simp add: check_def)

lemma verdict_pass:
  assumes "program_ok env k" and "literals_ok env W k L" and "good \<in> L" "37 \<notin> set (ascii good)"
  shows "\<exists>k'. verdict env bad good 0 k = Some (0, k') \<and> prints env W k (ascii good) k' \<and> proc_fds k' = proc_fds k"
  using print_lit_result [OF assms, of W] print_step_fields by (auto simp: verdict_def)

text \<open>What a test passes on to the next one.\<close>

definition files_there :: "kernel \<Rightarrow> bool" where
  "files_there k \<longleftrightarrow> (\<exists>d. lookup_name k (ascii ''.'') = Some d \<and> filetype d = 1) \<and> lookup_name k (ascii ''helloo'') = None \<and>
     lookup_name k (ascii ''shel'') = None \<and> lookup_name k [] = None"

definition ready :: "user_env \<Rightarrow> (addr \<Rightarrow> bool) \<Rightarrow> string set \<Rightarrow> kernel \<Rightarrow> bool" where
  "ready env W L k \<longleftrightarrow> program_ok env k \<and> literals_ok env W k L \<and> no_files k \<and> files_there k"

definition passes :: "user_env \<Rightarrow> (addr \<Rightarrow> bool) \<Rightarrow> string set \<Rightarrow> kernel \<Rightarrow> string \<Rightarrow> (i32 \<times> kernel) option \<Rightarrow> bool" where
  "passes env W L k s result \<longleftrightarrow> (\<exists>k'. result = Some (0, k') \<and> prints env W k (ascii s) k' \<and> ready env W L k')"

lemma ready_after:
  assumes "ready env W L k" and "prints env W k xs k'" and "proc_fds k' = proc_fds k"
  shows "ready env W L k'"
proof -
  have "lookup_name k' ys = lookup_name k ys" for ys
    using assms(1,2) by (intro step_lookup [where W = W and env = env]) (simp_all add: ready_def prints_def)
  then show ?thesis using assms literals_kept [of env W k L k'] by (simp add: ready_def prints_def no_files_def files_there_def)
qed

lemma ready_trapped: "ready env W L k \<Longrightarrow> ready env W L (trapped env k)"
  by (rule ready_after [OF _ prints_trapped]) (simp_all add: ready_def)

lemma passes_verdict:
  assumes "ready env W L k1" and "prints env W k [] k1" and "result = verdict env bad good 0 k1" and "good \<in> L" "37 \<notin> set (ascii good)"
  shows "passes env W L k good result"
proof -
  obtain k' where k': "verdict env bad good 0 k1 = Some (0, k')" "prints env W k1 (ascii good) k'" "proc_fds k' = proc_fds k1"
    using verdict_pass [of env k1 W L good bad] assms(1,4,5) by (auto simp: ready_def)
  have "ready env W L k'" by (rule ready_after [OF assms(1) k'(2,3)])
  then show ?thesis unfolding passes_def using k'(1) assms(3) prints_trans [OF assms(2) k'(2)] by auto
qed

lemma passes_trapped:
  assumes "ready env W L k" and "result = verdict env bad good 0 ((trapped env ^^ n) k)" and "good \<in> L" "37 \<notin> set (ascii good)"
  shows "passes env W L k good result"
proof (rule passes_verdict [OF _ _ assms(2-4)])
  have "ready env W L ((trapped env ^^ n) k) \<and> prints env W k [] ((trapped env ^^ n) k)"
  proof (induction n)
    case 0
    show ?case using assms(1) prints_refl by (simp add: ready_def)
  next
    case (Suc n)
    let ?k = "(trapped env ^^ n) k"
    have "program_ok env ?k" using Suc by (simp add: ready_def)
    then show ?case using Suc ready_trapped prints_trans [of env W k "[]" ?k "[]"] prints_trapped by auto
  qed
  then show "ready env W L ((trapped env ^^ n) k)" "prints env W k [] ((trapped env ^^ n) k)" by simp_all
qed

definition pass_literals :: "string set" where
  "pass_literals = {''err_neg_fd: PASS'' @ newline, ''err_big_fd: PASS'' @ newline, ''err_open_lots: PASS'' @ newline,
     ''err_open: PASS'' @ newline, ''err_unopened: PASS'' @ newline, ''err_vidmap: PASS'' @ newline,
     ''err_stdin_out: PASS'' @ newline, ''err_syscall_num: PASS'' @ newline, newline @ ''Overall Tests: PASS'' @ newline,
     ''Choose from tests 1-8. 0 to run all: '', ''.'', ''helloo'', ''shel'', []}"

lemma pass_literals_plain: "s \<in> pass_literals \<Longrightarrow> 37 \<notin> set (ascii s)"
  unfolding pass_literals_def by (elim insertE emptyE; simp add: ascii_def newline_def)

lemma three: "(f ^^ 3) x = f (f (f x))" "(f ^^ 2) x = f (f x)"
  by (simp_all add: eval_nat_numeral)

lemma err_neg_fd_passes:
  "ready env W pass_literals k \<Longrightarrow> passes env W pass_literals k (''err_neg_fd: PASS'' @ newline) (err_neg_fd env buf k)"
  by (rule passes_trapped [where n = 3])
    (simp_all add: err_neg_fd_def user_bad_fd refused_numbers three pass_literals_plain pass_literals_def)

lemma err_big_fd_passes:
  "ready env W pass_literals k \<Longrightarrow> passes env W pass_literals k (''err_big_fd: PASS'' @ newline) (err_big_fd env buf k)"
  by (rule passes_trapped [where n = 3])
    (simp_all add: err_big_fd_def user_bad_fd refused_numbers three pass_literals_plain pass_literals_def)

lemma err_vidmap_passes:
  "ready env W pass_literals k \<Longrightarrow> passes env W pass_literals k (''err_vidmap: PASS'' @ newline) (err_vidmap env k)"
  by (rule passes_trapped [where n = 2])
    (simp_all add: err_vidmap_def user_bad_vidmap three pass_literals_plain pass_literals_def)

lemma err_stdin_out_passes:
  assumes "ready env W pass_literals k"
  shows "passes env W pass_literals k (''err_stdin_out: PASS'' @ newline) (err_stdin_out env buf k)"
proof -
  have "program_ok env k" "program_ok env (trapped env k)" using assms trapped_ok by (simp_all add: ready_def)
  then show ?thesis
    by (intro passes_trapped [where n = 2, OF assms])
      (simp_all add: err_stdin_out_def user_wrong_way three pass_literals_plain pass_literals_def)
qed

lemma err_syscall_num_passes:
  "ready env W pass_literals k \<Longrightarrow> passes env W pass_literals k (''err_syscall_num: PASS'' @ newline) (err_syscall_num env k)"
  by (rule passes_trapped [where n = 3])
    (simp_all add: err_syscall_num_def call_sys_def int80_refused refused_numbers three pass_literals_plain pass_literals_def)

lemma err_open_passes:
  assumes "ready env W pass_literals k"
  shows "passes env W pass_literals k (''err_open: PASS'' @ newline) (err_open env k)"
proof -
  have ok: "program_ok env k" "program_ok env (trapped env k)" "program_ok env (trapped env (trapped env k))"
    using assms trapped_ok by (simp_all add: ready_def)
  have "''helloo'' \<in> pass_literals" "''shel'' \<in> pass_literals" "[] \<in> pass_literals" by (simp_all add: pass_literals_def)
  then have "user_string k (u_lit env ''helloo'') (ascii ''helloo'')" "user_string k (u_lit env ''shel'') (ascii ''shel'')"
    "user_string k (u_lit env []) (ascii [])" using assms by (simp_all add: ready_def literals_ok_def)
  then have fails: "ece391_open env (u_lit env ''helloo'') k = Some (- 1, trapped env k)"
    "ece391_open env (u_lit env ''shel'') (trapped env k) = Some (- 1, trapped env (trapped env k))"
    "ece391_open env (u_lit env []) (trapped env (trapped env k)) = Some (- 1, trapped env (trapped env (trapped env k)))"
    using assms ok by (auto intro!: user_open_fails simp: ready_def files_there_def ascii_def)
  show ?thesis
    by (rule passes_trapped [where n = 3, OF assms]) (simp_all add: err_open_def fails three pass_literals_plain pass_literals_def)
qed

lemma unopened_refused:
  assumes "\<And>k. P k \<Longrightarrow> P (trapped env k)" and "\<And>k i. P k \<Longrightarrow> i \<in> set js \<Longrightarrow> call (word_of_nat i) k = Some (- 1, trapped env k)"
  shows "P k \<Longrightarrow> unopened env call s js fail k = Some (fail, (trapped env ^^ length js) k) \<and> P ((trapped env ^^ length js) k)"
  using assms(2)
proof (induction js arbitrary: k)
  case (Cons i js)
  have "call (word_of_nat i) k = Some (- 1, trapped env k)" using Cons.prems by simp
  then show ?case using Cons.IH [OF assms(1) [OF Cons.prems(1)]] Cons.prems(2) by (simp add: funpow_swap1)
qed simp

lemma err_unopened_passes:
  assumes "ready env W pass_literals k"
  shows "passes env W pass_literals k (''err_unopened: PASS'' @ newline) (err_unopened env buf k)"
proof -
  let ?P = "\<lambda>k. program_ok env k \<and> no_files k" and ?f = "trapped env"
  have P: "?P (trapped env k)" if "?P k" for k using that trapped_ok by (simp add: no_files_def)
  have close: "ece391_close env (word_of_nat i) k = Some (- 1, trapped env k)" if "?P k" "i \<in> set [0..<8]" for k i
  proof (cases "i < 2")
    case True
    then have "i = 0 \<or> i = 1" by auto
    then show ?thesis using user_bad_fd(3) refused_numbers by auto
  next
    case False
    then show ?thesis using that by (intro user_closed_fd(3)) (simp_all add: no_files_def)
  qed
  have read: "ece391_read env (word_of_nat i) buf 31 k = Some (- 1, trapped env k)"
    "ece391_write env (word_of_nat i) buf 31 k = Some (- 1, trapped env k)" if "?P k" "i \<in> set [2..<8]" for k i
    using that by (auto intro!: user_closed_fd simp: no_files_def)
  have k: "?P k" using assms by (simp add: ready_def)
  note a = unopened_refused [where P = ?P and env = env and call = "ece391_close env" and js = "[0..<8]" and k = k
      and s = "''close unopened or invalid fd fail'' @ newline" and fail = 0, OF P close k]
  note b = unopened_refused [where P = ?P and env = env and call = "\<lambda>i. ece391_read env i buf 31" and js = "[2..<8]"
      and s = "''read from unopened fd fail'' @ newline" and fail = 0, OF P read(1) a [THEN conjunct2]]
  note c = unopened_refused [where P = ?P and env = env and call = "\<lambda>i. ece391_write env i buf 31" and js = "[2..<8]"
      and s = "''write to unopened fd fail'' @ newline" and fail = 0, OF P read(2) b [THEN conjunct2]]
  have n: "(?f ^^ 20) k = (?f ^^ length [2..<8]) ((?f ^^ length [2..<8]) ((?f ^^ length [0..<8]) k))"
  proof -
    have "(20 :: nat) = length [2..<8] + (length [2..<8] + length [0..<8])" by simp
    then show ?thesis by (simp only: funpow_add o_apply)
  qed
  have "err_unopened env buf k = verdict env (''err_unopened: FAIL'' @ newline) (''err_unopened: PASS'' @ newline) 0 ((?f ^^ 20) k)"
    unfolding err_unopened_def n using a b c by (simp del: upt_rec_numeral length_upt)
  then show ?thesis
    by (rule passes_trapped [where n = 20, OF assms]) (simp_all add: pass_literals_plain pass_literals_def)
qed

section \<open>Opening too much\<close>

text \<open>The directory is open at the descriptors \<open>A\<close>, and no others are in use.\<close>

definition dir_fds :: "nat set \<Rightarrow> kernel \<Rightarrow> bool" where
  "dir_fds A k \<longleftrightarrow> (\<forall>i\<in>{2..<8}. if i \<in> A then flags (proc_fds k ! i) = 1 \<and> fops_ptr (proc_fds k ! i) = fops_dir
     else flags (proc_fds k ! i) = 0)"

definition has_open :: "user_env \<Rightarrow> (addr \<Rightarrow> bool) \<Rightarrow> nat set \<Rightarrow> kernel \<Rightarrow> kernel \<Rightarrow> bool" where
  "has_open env W A k0 k \<longleftrightarrow> program_ok env k \<and> prints env W k0 [] k \<and> dir_fds A k"

lemma has_open_trans:
  assumes "has_open env W A k0 k" and "silent_step W k k'" and "program_ok env k'" and "dir_fds A' k'"
  shows "has_open env W A' k0 k'"
  using assms prints_trans [of env W k0 "[]" k "[]" k'] prints_silent [of W k k' env] by (simp add: has_open_def)

lemma free_fd_open: "dir_fds {2..<m} k \<Longrightarrow> 2 \<le> m \<Longrightarrow> m < 8 \<Longrightarrow> free_fd k = Some m"
  unfolding free_fd_def find_Some_iff by (rule exI [of _ "m - 2"]) (auto simp: dir_fds_def simp del: upt_rec_numeral)

lemma free_fd_full: "dir_fds {2..<8} k \<Longrightarrow> free_fd k = None"
  unfolding free_fd_def find_None_iff by (auto simp: dir_fds_def)

lemma open_lots_fills:
  assumes ready: "ready env W L k0" and "''.'' \<in> L" and "2 \<le> m" "m \<le> 8" "n = 9 - m"
  shows "has_open env W {2..<m} k0 k \<Longrightarrow> \<exists>k'. open_lots env n cnt k = Some (cnt + 1, k') \<and> has_open env W {2..<8} k0 k'"
  using assms(3-5)
proof (induction n arbitrary: m k)
  case (Suc n)
  have step: "user_step W k0 k" and ok: "program_ok env k" and fds: "dir_fds {2..<m} k" "length (proc_fds k) = 8"
    using Suc.prems(1) by (simp_all add: has_open_def prints_def program_ok_def)
  have ok0: "program_ok env k0" and lit0: "literals_ok env W k0 L" using ready by (simp_all add: ready_def)
  have str: "user_string k (u_lit env ''.'') (ascii ''.'')"
    using literals_kept [OF lit0 step ok0] assms(2) by (simp add: literals_ok_def)
  obtain d where d: "lookup_name k (ascii ''.'') = Some d" "filetype d = 1"
    using ready step_lookup [OF ok0 step] by (auto simp: ready_def files_there_def)
  show ?case
  proof (cases "m = 8")
    case True
    have "ece391_open env (u_lit env ''.'') k = Some (- 1, trapped env k)"
      using free_fd_full fds(1) True by (intro user_open_fails [OF ok str]) simp
    moreover have "has_open env W {2..<8} k0 (trapped env k)"
      using fds(1) True by (intro has_open_trans [OF Suc.prems(1) silent_trapped trapped_ok [OF ok]]) (simp add: dir_fds_def)
    ultimately show ?thesis using Suc.prems(4) True by simp
  next
    case False
    then have m: "m < 8" using Suc.prems(3) by simp
    obtain i where i: "opened_file d = Some (fops_dir, i)" using d(2) by (auto simp: opened_file_def)
    obtain k1 where k1: "ece391_open env (u_lit env ''.'') k = Some (word_of_nat m, k1)" "silent_step W k k1" "program_ok env k1"
      "proc_fds k1 = (proc_fds k)[m := new_descriptor fops_dir i]"
      using user_open [OF ok str d(1) free_fd_open [OF fds(1) Suc.prems(2) m] i] by blast
    have "dir_fds {2..<Suc m} k1" using fds m by (auto simp: dir_fds_def k1(4) nth_list_update new_descriptor_def)
    then have "has_open env W {2..<Suc m} k0 k1" by (rule has_open_trans [OF Suc.prems(1) k1(2,3)])
    then have "\<exists>k'. open_lots env n cnt k1 = Some (cnt + 1, k') \<and> has_open env W {2..<8} k0 k'"
      using Suc.prems(2,4) m by (intro Suc.IH [of "Suc m"]) simp_all
    then show ?thesis using k1(1) small_word_facts(2) [of m] m by simp
  qed
qed simp

lemma close_fds_frees:
  "has_open env W {8 - n..<8} k0 k \<Longrightarrow> n \<le> 6 \<Longrightarrow> \<exists>k'. close_fds env [8 - n..<8] k = Some k' \<and> has_open env W {} k0 k'"
proof (induction n arbitrary: k)
  case (Suc n)
  let ?i = "8 - Suc n"
  have ok: "program_ok env k" and fds: "dir_fds {?i..<8} k" "length (proc_fds k) = 8"
    using Suc.prems(1) by (simp_all add: has_open_def program_ok_def)
  have i: "2 \<le> ?i" "?i < 8" "Suc ?i = 8 - n" using Suc.prems(2) by simp_all
  have at: "flags (proc_fds k ! ?i) = 1" "fops_ptr (proc_fds k ! ?i) = fops_dir"
    using fds(1) i(1,2) by (auto simp: dir_fds_def)
  obtain k1 where k1: "ece391_close env (word_of_nat ?i) k = Some (0, k1)" "silent_step W k k1" "program_ok env k1"
    "proc_fds k1 = (proc_fds k)[?i := (proc_fds k ! ?i)\<lparr>flags := 0\<rparr>]"
    using user_close [OF ok i(1,2)] at by auto
  have "dir_fds {8 - n..<8} k1" using fds i by (auto simp: dir_fds_def k1(4) nth_list_update)
  then have "has_open env W {8 - n..<8} k0 k1" by (rule has_open_trans [OF Suc.prems(1) k1(2,3)])
  moreover have "[?i..<8] = ?i # [8 - n..<8]" using i(2,3) by (simp add: upt_conv_Cons)
  ultimately show ?case using Suc.IH [of k1] Suc.prems(2) k1(1) by simp
qed simp

lemma err_open_lots_passes:
  assumes "ready env W pass_literals k"
  shows "passes env W pass_literals k (''err_open_lots: PASS'' @ newline) (err_open_lots env k)"
proof -
  have ok: "program_ok env k" and lit: "literals_ok env W k pass_literals" and files: "files_there k" "dir_fds {} k"
    using assms by (auto simp: ready_def no_files_def dir_fds_def)
  have "has_open env W {2..<2} k k" using ok files prints_refl by (simp add: has_open_def)
  then obtain k1 where k1: "open_lots env 7 0 k = Some (1, k1)" "has_open env W {2..<8} k k1"
    using open_lots_fills [OF assms, of 2 7 k 0] by (auto simp: pass_literals_def)
  obtain k2 where k2: "close_fds env [2..<8] k1 = Some k2" "has_open env W {} k k2"
    using close_fds_frees [of env W 6 k k1] k1(2) by auto
  have p2: "prints env W k [] k2" "program_ok env k2" "user_step W k k2" using k2(2) by (simp_all add: has_open_def prints_def)
  have "lookup_name k2 xs = lookup_name k xs" for xs by (rule step_lookup [OF ok p2(3)])
  then have "ready env W pass_literals k2"
    using p2 literals_kept [OF lit p2(3) ok] files(1) k2(2)
    by (simp add: ready_def files_there_def has_open_def dir_fds_def no_files_def)
  then show ?thesis
    by (rule passes_verdict [OF _ p2(1)]) (simp_all add: err_open_lots_def k1(1) k2(1) verdict_def pass_literals_plain pass_literals_def del: upt_rec_numeral)
qed

section \<open>All tests\<close>

definition pass_lines :: "string list" where
  "pass_lines = [''err_neg_fd: PASS'' @ newline, ''err_big_fd: PASS'' @ newline, ''err_open_lots: PASS'' @ newline,
     ''err_open: PASS'' @ newline, ''err_unopened: PASS'' @ newline, ''err_vidmap: PASS'' @ newline,
     ''err_stdin_out: PASS'' @ newline, ''err_syscall_num: PASS'' @ newline, newline @ ''Overall Tests: PASS'' @ newline]"

lemma bind_passes:
  assumes "passes env W L k s r" and "\<And>k'. ready env W L k' \<Longrightarrow> \<exists>k''. f (0, k') = Some (0, k'') \<and> prints env W k' xs k''"
  shows "\<exists>k''. Option.bind r f = Some (0, k'') \<and> prints env W k (ascii s @ xs) k''"
proof -
  obtain k' where k': "r = Some (0, k')" "prints env W k (ascii s) k'" "ready env W L k'"
    using assms(1) by (auto simp: passes_def)
  show ?thesis using assms(2) [OF k'(3)] prints_trans [OF k'(2)] k'(1) by auto
qed

lemma ascii_append: "ascii (s @ t) = ascii s @ ascii t"
  by (simp add: ascii_def)

lemma ascii_concat: "ascii (concat (s # ss)) = ascii s @ ascii (concat ss)" "ascii (concat []) = []"
  by (simp_all add: ascii_def)

lemmas test_passes = err_neg_fd_passes err_big_fd_passes err_open_lots_passes err_open_passes err_unopened_passes
  err_vidmap_passes err_stdin_out_passes err_syscall_num_passes

lemma syserr_all_passes:
  assumes "ready env W pass_literals k"
  shows "\<exists>k'. syserr_all env bufs k = Some (0, k') \<and> prints env W k (ascii (concat pass_lines)) k'"
proof -
  have overall: "\<exists>k'. verdict env (newline @ ''Overall Tests: FAIL'' @ newline) (newline @ ''Overall Tests: PASS'' @ newline)
      (0 + 0 + 0 + 0 + 0 + 0 + 0 + 0) k = Some (0, k') \<and> prints env W k (ascii (newline @ ''Overall Tests: PASS'' @ newline) @ []) k'"
    if "ready env W pass_literals k" for k
  proof -
    have m: "newline @ ''Overall Tests: PASS'' @ newline \<in> pass_literals" by (simp add: pass_literals_def)
    show ?thesis
      using that verdict_pass [OF _ _ m pass_literals_plain [OF m], of env k W] unfolding ready_def by auto
  qed
  show ?thesis
    unfolding syserr_all_def pass_lines_def ascii_concat
    by (rule bind_passes [OF test_passes(1) [OF assms]], simp only: prod.case)
      (rule bind_passes [OF test_passes(2)], assumption, simp only: prod.case,
       rule bind_passes [OF test_passes(3)], assumption, simp only: prod.case,
       rule bind_passes [OF test_passes(4)], assumption, simp only: prod.case,
       rule bind_passes [OF test_passes(5)], assumption, simp only: prod.case,
       rule bind_passes [OF test_passes(6)], assumption, simp only: prod.case,
       rule bind_passes [OF test_passes(7)], assumption, simp only: prod.case,
       rule bind_passes [OF test_passes(8)], assumption, simp only: prod.case,
       rule overall, assumption)
qed

lemma syserr_main_passes:
  assumes ok: "program_ok env k" and lit: "literals_ok env (in_range (bufs 0) 128) k pass_literals"
    and page: "\<And>i. i < 128 \<Longrightarrow> in_user_page (bufs 0 + word_of_nat i)"
    and files: "no_files k" "files_there k" and line: "line_waiting k [0x30]"
  shows "\<exists>k'. syserr_main env bufs k = Some (0, k') \<and>
    prints env (in_range (bufs 0) 128) k (ascii (''Choose from tests 1-8. 0 to run all: '' @ concat pass_lines)) k'"
proof -
  let ?W = "in_range (bufs 0) 128" and ?ask = "''Choose from tests 1-8. 0 to run all: ''"
  have mem: "?ask \<in> pass_literals" by (simp add: pass_literals_def)
  obtain k1 where k1: "print_lit env ?ask k = Some k1" "prints env ?W k (ascii ?ask) k1" "print_step k k1"
    using print_lit_result [OF ok lit mem pass_literals_plain [OF mem]] by blast
  have ok1: "program_ok env k1" "screen_ok k1" using k1(2) by (simp_all add: prints_def program_ok_def)
  have line1: "keyboard_ok k1" "typed k1 = [0x30] @ [0x0A]" "eflag (terminal k1 (term_ptr (pcbs k1 (current_process k1)))) \<noteq> 0"
    using line_waiting_print [OF k1(3) ok1(2) line] by (simp_all add: line_waiting_def)
  have n: "(126 :: nat) = min 127 (unat (127 :: u32) - 1)" "unat (127 :: u32) < 0x80000000" "1 < unat (127 :: u32)" by simp_all
  obtain k2 where k2: "ece391_read env 0 (bufs 0) 127 k1 = Some (126, k2)" "silent_step (in_range (bufs 0) 126) k1 k2" "program_ok env k2"
      "proc_fds k2 = proc_fds k1" "bytes (vmem k2) (bufs 0) 126 = take 126 (key_array k1)"
    using user_read_keys [OF ok1(1) line1(1,3) n, of "bufs 0"] page by auto
  have "silent_step ?W k1 k2" by (rule silent_mono [OF k2(2)]) (simp add: in_range_def)
  then have p2: "prints env ?W k (ascii ?ask) k2"
    using prints_trans [OF k1(2) prints_silent [OF _ k2(3)]] by simp
  have "vmem k2 (bufs 0) = take 126 (key_array k1) ! 0" using nth_bytes [of 0 126 "vmem k2" "bufs 0"] k2(5) by simp
  then have first: "vmem k2 (bufs 0) = 0x30" using key_array_line [OF line1(1,2), of 126] by simp
  have "proc_fds k2 = proc_fds k" using k2(4) print_step_fields [OF k1(3)] by simp
  moreover have "lookup_name k2 xs = lookup_name k xs" for xs
    using p2 by (intro step_lookup [OF ok, of ?W]) (simp add: prints_def)
  ultimately have "ready env ?W pass_literals k2"
    using files k2(3) literals_kept [OF lit _ ok] p2 by (simp add: ready_def no_files_def files_there_def prints_def)
  from syserr_all_passes [OF this, of bufs] obtain k3 where
    k3: "syserr_all env bufs k2 = Some (0, k3)" "prints env ?W k2 (ascii (concat pass_lines)) k3" by blast
  have "syserr_main env bufs k = Some (0, k3)"
    using k1(1) k2(1) k3(1) small_word_facts(2) [of 126] by (simp add: syserr_main_def first Let_def)
  moreover have "prints env ?W k (ascii (?ask @ concat pass_lines)) k3"
    unfolding ascii_append [of ?ask] by (rule prints_trans [OF p2 k3(2)])
  ultimately show ?thesis by blast
qed

section \<open>Properties\<close>

text \<open>
  C9. The test program of the system calls passes: with \<open>0\<close> typed, all of its eight tests of
  calls that must fail print their line with \<^verbatim>\<open>PASS\<close>, and it returns 0. It needs free
  descriptors, the directory to open, and that the three names it takes for missing are missing.
\<close>

theorem syserr_passes:
  assumes "program_ok env k" and "literals_ok env (in_range (bufs 0) 128) k pass_literals"
    and "\<forall>i<128. in_user_page (bufs 0 + word_of_nat i)" and "\<forall>i\<in>{2..<8}. flags (proc_fds k ! i) = 0"
    and "lookup_name k (ascii ''.'') = Some d" "filetype d = 1"
    and "\<forall>xs\<in>{''helloo'', ''shel'', []}. lookup_name k (ascii xs) = None" and "line_waiting k [0x30]"
  shows "\<exists>k'. syserr_main env bufs k = Some (0, k') \<and>
    prints env (in_range (bufs 0) 128) k (ascii (''Choose from tests 1-8. 0 to run all: '' @ concat pass_lines)) k'"
proof -
  have "no_files k" using assms(4) by (simp add: no_files_def)
  moreover have "ascii [] = []" by (simp add: ascii_def)
  then have "files_there k" using assms(5-7) unfolding files_there_def by auto
  ultimately show ?thesis using assms(3) by (intro syserr_main_passes [where bufs = bufs, OF assms(1,2) _ _ _ assms(8)]) blast+
qed

lemma syserr_passes_witness: "\<exists>lits k'. syserr_main (program_env lits) (\<lambda>_. 0x8000000) (program_kernel lits [] [0x30]) = Some (0, k')"
proof -
  let ?l = "pass_lines @ [''Choose from tests 1-8. 0 to run all: '', ''.'', ''helloo'', ''shel'', []]"
  let ?k = "program_kernel ?l [] [0x30]"
  have "set ?l = pass_literals" unfolding pass_lines_def pass_literals_def by auto
  moreover have "literals_ok (program_env ?l) (in_range 0x8000000 128) ?k (set ?l)"
    by (rule program_literals) (simp_all add: pass_lines_def ascii_def newline_def)
  ultimately have lit: "literals_ok (program_env ?l) (in_range ((\<lambda>_. 0x8000000) (0 :: nat)) 128) ?k pass_literals" by simp
  have page: "\<forall>i<128. in_user_page ((\<lambda>_. 0x8000000) (0 :: nat) + word_of_nat i)" using program_page [of 128] by simp
  have fds: "\<forall>i\<in>{2..<8}. flags (proc_fds ?k ! i) = 0"
    by (simp add: proc_fds_def program_kernel_def program_pcb_def std_fds_def nth_Cons' numeral_eq_Suc)
  have names: "\<forall>xs\<in>{''helloo'', ''shel'', []}. lookup_name ?k (ascii xs) = None"
    unfolding program_lookup using sample_lookups(2) by (auto simp: ascii_def)
  obtain d where d: "lookup_name ?k (ascii ''.'') = Some d" "filetype d = 1" using sample_lookups(1) by (auto simp: program_lookup)
  have "line_waiting ?k [0x30]" by (rule program_line) simp
  from syserr_passes [OF program_kernel_ok lit page fds d names this] show ?thesis by blast
qed

end
