(* ===== verification/Grep.thy ===== *)
theory Grep
  imports User_Programs "HOL-Library.Sublist"
begin

text \<open>
  \<^verbatim>\<open>syscalls/ece391grep.c\<close>: the search of one file, line by line, and the loop over the directory.
  The array \<^verbatim>\<open>data\<close> is memory at an address; its indices are \<^verbatim>\<open>int32_t\<close>.
\<close>

unbundle bit_operations_syntax

section \<open>Definitions\<close>

text \<open>The innermost loops: the end of the line, and the search in it.\<close>

partial_function (option) grep_line_end :: "mem \<Rightarrow> addr \<Rightarrow> i32 \<Rightarrow> i32 \<Rightarrow> i32 option" where
  "grep_line_end m data lst line_end =
     (if line_end <s lst \<and> m (data + line_end) \<noteq> 0x0A then grep_line_end m data lst (line_end + 1) else Some line_end)"

partial_function (option) grep_match :: "mem \<Rightarrow> addr \<Rightarrow> addr \<Rightarrow> u32 \<Rightarrow> i32 \<Rightarrow> i32 \<Rightarrow> bool option" where
  "grep_match m data s s_len check line_end =
     (if check <s line_end then
        (if m s = m (data + check) then do {
           r \<leftarrow> ece391_strncmp m (data + check) s s_len;
           if r = 0 then Some True else grep_match m data s s_len (check + 1) line_end }
         else grep_match m data s s_len (check + 1) line_end)
      else Some False)"

definition grep_print :: "user_env \<Rightarrow> addr \<Rightarrow> addr \<Rightarrow> kernel \<Rightarrow> kernel option" where
  "grep_print env fname line k = do {
     k \<leftarrow> ece391_fdputs env 1 fname k;
     k \<leftarrow> print_lit env '':'' k;
     k \<leftarrow> ece391_fdputs env 1 line k;
     print_lit env newline k }"

text \<open>The lines of what has been read; the result is the new \<^verbatim>\<open>last\<close>.\<close>

partial_function (option) grep_lines ::
    "user_env \<Rightarrow> addr \<Rightarrow> u32 \<Rightarrow> addr \<Rightarrow> addr \<Rightarrow> i32 \<Rightarrow> i32 \<Rightarrow> i32 \<Rightarrow> kernel \<Rightarrow> (i32 \<times> kernel) option" where
  "grep_lines env s s_len fname data cnt lst line_start k = do {
     line_end \<leftarrow> grep_line_end (vmem k) data lst line_start;
     if vmem k (data + line_end) \<noteq> 0x0A \<and> cnt \<noteq> 0 \<and> line_start \<noteq> 0 then do {
       k \<leftarrow> user_store (data + line_end) 0 k;
       m \<leftarrow> ece391_strcpy (vmem k) data (data + line_start);
       Some (lst - line_start, set_vmem m k) }
     else do {
       k \<leftarrow> user_store (data + line_end) 0 k;
       found \<leftarrow> grep_match (vmem k) data s s_len line_start line_end;
       k \<leftarrow> (if found then grep_print env fname (data + line_start) k else Some k);
       if lst \<le>s line_end + 1 then Some (0, k)
       else grep_lines env s s_len fname data cnt lst (line_end + 1) k } }"

partial_function (option) grep_read ::
    "user_env \<Rightarrow> addr \<Rightarrow> u32 \<Rightarrow> addr \<Rightarrow> addr \<Rightarrow> i32 \<Rightarrow> i32 \<Rightarrow> kernel \<Rightarrow> (i32 \<times> kernel) option" where
  "grep_read env s s_len fname data fd lst k = do {
     (cnt, k) \<leftarrow> ece391_read env fd (data + lst) (BUFSIZE - lst) k;
     if cnt = - 1 then map_option (Pair (- 1)) (print_lit env (''file read failed'' @ newline) k)
     else do {
       (lst, k) \<leftarrow> grep_lines env s s_len fname data cnt (lst + cnt) 0 k;
       if cnt = 0 then do {
         (r, k) \<leftarrow> ece391_close env fd k;
         if r = - 1 then map_option (Pair (- 1)) (print_lit env (''file close failed'' @ newline) k) else Some (0, k) }
       else grep_read env s s_len fname data fd lst k } }"

definition do_one_file :: "user_env \<Rightarrow> addr \<Rightarrow> addr \<Rightarrow> addr \<Rightarrow> kernel \<Rightarrow> (i32 \<times> kernel) option" where
  "do_one_file env data s fname k = do {
     s_len \<leftarrow> ece391_strlen (vmem k) s;
     (fd, k) \<leftarrow> ece391_open env fname k;
     if fd = - 1 then map_option (Pair (- 1)) (print_lit env (''file open failed'' @ newline) k)
     else grep_read env s s_len fname data fd 0 k }"

partial_function (option) grep_names :: "user_env \<Rightarrow> addr \<Rightarrow> addr \<Rightarrow> addr \<Rightarrow> i32 \<Rightarrow> kernel \<Rightarrow> (i32 \<times> kernel) option" where
  "grep_names env buf search data fd k = do {
     (cnt, k) \<leftarrow> ece391_read env fd buf (SBUFSIZE - 1) k;
     if cnt = 0 then Some (0, k)
     else if cnt = - 1 then map_option (Pair 3) (print_lit env (''directory entry read failed'' @ newline) k)
     else if vmem k buf = of_char (CHR ''.'') then grep_names env buf search data fd k
     else do {
       k \<leftarrow> user_store (buf + cnt) 0 k;
       (r, k) \<leftarrow> do_one_file env data search buf k;
       if r \<noteq> 0 then Some (3, k) else grep_names env buf search data fd k } }"

definition grep_main :: "user_env \<Rightarrow> addr \<Rightarrow> addr \<Rightarrow> addr \<Rightarrow> kernel \<Rightarrow> (i32 \<times> kernel) option" where
  "grep_main env buf search data k = do {
     (r, k) \<leftarrow> ece391_getargs env search BUFSIZE k;
     if r \<noteq> 0 then map_option (Pair 3) (print_lit env (''could not read argument'' @ newline) k)
     else do {
       (fd, k) \<leftarrow> ece391_open env (u_lit env ''.'') k;
       if fd = - 1 then map_option (Pair 2) (print_lit env (''directory open failed'' @ newline) k)
       else grep_names env buf search data fd k } }"

section \<open>Searching a line\<close>

lemma small_sless: "a < 2147483648 \<Longrightarrow> b < 2147483648 \<Longrightarrow> (word_of_nat a :: u32) <s word_of_nat b \<longleftrightarrow> a < b"
  by (simp add: word_sless_alt sint_small)

lemma small_sle: "a < 2147483648 \<Longrightarrow> b < 2147483648 \<Longrightarrow> (word_of_nat a :: u32) \<le>s word_of_nat b \<longleftrightarrow> a \<le> b"
  by (simp add: word_sle_eq sint_small)

lemma next_small: "(word_of_nat a :: u32) + 1 = word_of_nat (Suc a)"
  by (simp add: add.commute)

lemma text_at_cstr: "cstr (ptr p m) xs \<Longrightarrow> text_at m p n = take n xs"
proof (induction n arbitrary: p xs)
  case (Suc n)
  then show ?case by (cases xs) (simp_all add: text_at_Suc cstr_empty cstr_step)
qed (simp add: text_at_def)

lemma strncmp_prefix:
  assumes "cstr (ptr p m) xs" and "cstr (ptr q m) pat" and "length pat < 4294967296"
  shows "\<exists>r. ece391_strncmp m p q (word_of_nat (length pat)) = Some r \<and> (r = 0 \<longleftrightarrow> prefix pat xs)"
proof -
  have "take (length pat) xs = pat \<longleftrightarrow> prefix pat xs" by (auto simp: prefix_def) (metis append_take_drop_id)
  then show ?thesis
    using strncmp_text [of m p q "word_of_nat (length pat)"] assms by (auto simp: text_at_cstr)
qed

lemma grep_match_sublist:
  assumes "cstr (ptr s m) pat" and "length pat < 4294967296"
  shows "cstr (ptr (data + word_of_nat c) m) l \<Longrightarrow> c + length l < 2147483648 \<Longrightarrow>
    grep_match m data s (word_of_nat (length pat)) (word_of_nat c) (word_of_nat (c + length l)) = Some (pat \<noteq> [] \<and> sublist pat l)"
proof (induction l arbitrary: c)
  case Nil
  then show ?case by (subst grep_match.simps) (auto simp: small_sless)
next
  case (Cons x xs)
  have at: "m (data + word_of_nat c) = x" "x \<noteq> 0" "cstr (ptr (data + word_of_nat (Suc c)) m) xs"
    using Cons.prems(1) by (simp_all add: cstr_step ac_simps)
  have rest: "grep_match m data s (word_of_nat (length pat)) (word_of_nat c + 1) (word_of_nat (c + length (x # xs))) =
      Some (pat \<noteq> [] \<and> sublist pat xs)"
    unfolding next_small using Cons.IH [OF at(3)] Cons.prems(2) by simp
  have less: "(word_of_nat c :: u32) <s word_of_nat (c + length (x # xs))"
    unfolding small_sless [OF _ Cons.prems(2), of c, simplified] using Cons.prems(2) by (subst small_sless) simp_all
  obtain r where r: "ece391_strncmp m (data + word_of_nat c) s (word_of_nat (length pat)) = Some r" "r = 0 \<longleftrightarrow> prefix pat (x # xs)"
    using strncmp_prefix [OF Cons.prems(1) assms] by blast
  have first: "m s = x \<longleftrightarrow> pat \<noteq> [] \<and> hd pat = x"
    using assms(1) at(2) by (cases pat) (auto simp: cstr_empty cstr_step)
  have "pat \<noteq> [] \<and> sublist pat (x # xs) \<longleftrightarrow> pat \<noteq> [] \<and> (prefix pat (x # xs) \<or> sublist pat xs)"
    by (simp add: sublist_Cons_right)
  moreover have "prefix pat (x # xs) \<Longrightarrow> pat \<noteq> [] \<Longrightarrow> hd pat = x" by (cases pat) auto
  ultimately show ?case
    using less rest r first by (subst grep_match.simps) (auto simp: at(1))
qed

text \<open>The end of a line is its newline, or the end of what has been read.\<close>

lemma grep_line_end_finds:
  "bytes m (data + word_of_nat c) (length l) = l \<Longrightarrow> 0x0A \<notin> set l \<Longrightarrow> c + length l = n \<or> m (data + word_of_nat (c + length l)) = 0x0A \<Longrightarrow>
   c + length l \<le> n \<Longrightarrow> n < 2147483648 \<Longrightarrow>
   grep_line_end m data (word_of_nat n) (word_of_nat c) = Some (word_of_nat (c + length l))"
proof (induction l arbitrary: c)
  case Nil
  then show ?case by (subst grep_line_end.simps) (auto simp: small_sless)
next
  case (Cons x xs)
  have at: "m (data + word_of_nat c) = x" "bytes m (data + word_of_nat (Suc c)) (length xs) = xs"
    using Cons.prems(1) by (simp_all add: bytes_front ac_simps)
  have "(word_of_nat c :: u32) <s word_of_nat n" using Cons.prems(4,5) by (simp add: small_sless)
  moreover have "grep_line_end m data (word_of_nat n) (word_of_nat (Suc c)) = Some (word_of_nat (Suc c + length xs))"
    using Cons.prems(2-5) by (intro Cons.IH [OF at(2)]) simp_all
  ultimately show ?case
    using Cons.prems(2) at(1) by (subst grep_line_end.simps) (simp add: next_small del: of_nat_add of_nat_Suc)
qed

text \<open>Moving a string down within the array.\<close>

lemma strcpy_down:
  "cstr (ptr src m) xs \<Longrightarrow> 0 < unat (src - dst) \<Longrightarrow> unat (src - dst) + length xs < 4294967296 \<Longrightarrow>
   ece391_strcpy m dst src = Some (write_bytes dst (xs @ [0]) m)"
proof (induction xs arbitrary: dst src m)
  case Nil
  then show ?case by (subst ece391_strcpy.simps) (simp add: cstr_empty)
next
  case (Cons x xs)
  have x: "m src = x" "x \<noteq> 0" "cstr (ptr (src + 1) m) xs" using Cons.prems(1) by (simp_all add: cstr_step)
  have apart: "src + 1 + word_of_nat i \<noteq> dst" if "i \<le> length xs" for i
  proof
    assume "src + 1 + word_of_nat i = dst"
    then have "(src - dst) + word_of_nat (Suc i) = 0" by (simp add: algebra_simps)
    moreover have "unat ((src - dst) + word_of_nat (Suc i)) = unat (src - dst) + Suc i"
      using that Cons.prems(3) by (subst unat_add32) (simp_all del: of_nat_Suc)
    ultimately show False by simp
  qed
  have "cstr (ptr (src + 1) (m(dst := x))) xs"
    using x(3) apart apart [of "length xs"] by (simp add: cstr_def ptr_def)
  from Cons.IH [OF this, of "dst + 1"]
  have "ece391_strcpy (m(dst := x)) (dst + 1) (src + 1) = Some (write_bytes (dst + 1) (xs @ [0]) (m(dst := x)))"
    using Cons.prems(2,3) by (simp del: fun_upd_apply)
  then show ?case using x(1,2) by (subst ece391_strcpy.simps) simp
qed

section \<open>Searching a file\<close>

definition found_line :: "u8 list \<Rightarrow> u8 list \<Rightarrow> u8 list \<Rightarrow> u8 list" where
  "found_line pat name l = (if pat \<noteq> [] \<and> sublist pat l then name @ ascii '':'' @ l @ ascii newline else [])"

definition plain_line :: "u8 list \<Rightarrow> bool" where
  "plain_line l \<longleftrightarrow> 0 \<notin> set l \<and> 0x0A \<notin> set l \<and> 37 \<notin> set l"

definition file_text :: "u8 list list \<Rightarrow> u8 list" where
  "file_text ls = concat (map (\<lambda>l. l @ [0x0A]) ls)"

text \<open>What a search relies on: its literals, and the pattern and the name outside of its array.\<close>

definition grep_ready :: "user_env \<Rightarrow> addr \<Rightarrow> addr \<Rightarrow> addr \<Rightarrow> u8 list \<Rightarrow> u8 list \<Rightarrow> kernel \<Rightarrow> bool" where
  "grep_ready env data s fname pat name k \<longleftrightarrow> program_ok env k \<and>
     literals_ok env (in_range data 1025) k {'':'', newline} \<and> user_string k s pat \<and> user_string k fname name \<and>
     (\<forall>i\<le>length pat. \<not> in_range data 1025 (s + word_of_nat i)) \<and>
     (\<forall>i\<le>length name. \<not> in_range data 1025 (fname + word_of_nat i)) \<and> 37 \<notin> set name"

lemma grep_ready_step:
  assumes "grep_ready env data s fname pat name k" and "user_step (in_range data 1025) k k'" and "program_ok env k'"
  shows "grep_ready env data s fname pat name k'"
proof -
  have ok: "program_ok env k" and away: "\<forall>i\<le>length pat. \<not> in_range data 1025 (s + word_of_nat i)"
    "\<forall>i\<le>length name. \<not> in_range data 1025 (fname + word_of_nat i)" and strings: "user_string k s pat" "user_string k fname name"
    using assms(1) by (simp_all add: grep_ready_def)
  have "user_string k' s pat" "user_string k' fname name"
    using user_string_kept [OF strings(1) assms(2) ok] user_string_kept [OF strings(2) assms(2) ok] away by blast+
  then show ?thesis using assms(1,3) literals_kept [OF _ assms(2) ok] by (simp add: grep_ready_def)
qed

lemma bytes_kept:
  assumes "program_ok env k" and "user_step W k k'" and "\<And>i. i < n \<Longrightarrow> in_user_page (a + word_of_nat i) \<and> \<not> W (a + word_of_nat i)"
  shows "bytes (vmem k') a n = bytes (vmem k) a n"
  using assms user_step_vmem [OF assms(2)] by (intro bytes_eqI) (simp_all add: program_ok_def nth_bytes)

lemma colon_newline_plain: "37 \<notin> set (ascii '':'')" "37 \<notin> set (ascii newline)"
  by (simp_all add: ascii_def newline_def)

lemma grep_print_prints:
  assumes ready: "grep_ready env data s fname pat name k" and line: "user_string k a l" and "37 \<notin> set l"
  shows "\<exists>k'. grep_print env fname a k = Some k' \<and> prints env W k (name @ ascii '':'' @ l @ ascii newline) k' \<and> print_step k k'"
proof -
  let ?N = "\<lambda>_ :: addr. False"
  have ok: "program_ok env k" and name: "user_string k fname name" "37 \<notin> set name" and
    lit: "literals_ok env ?N k {'':'', newline}" using ready by (simp_all add: grep_ready_def literals_ok_def)
  obtain k1 where k1: "ece391_fdputs env 1 fname k = Some k1" "print_step k k1" "program_ok env k1"
    "fore_console k1 = fold con_putc name (fore_console k)" using user_fdputs [OF ok name] by blast
  note s1 = print_step_user [OF k1(2)]
  obtain k2 where k2: "print_lit env '':'' k1 = Some k2" "prints env W k1 (ascii '':'') k2" "print_step k1 k2"
    using print_lit_result [OF k1(3) literals_kept [OF lit s1 ok] _ colon_newline_plain(1)] by blast
  have ok2: "program_ok env k2" using k2(2) by (simp add: prints_def)
  note s2 = user_step_trans [OF s1 print_step_user [OF k2(3)], of ?N]
  have line2: "user_string k2 a l" by (rule user_string_kept [OF line s2 ok]) simp
  obtain k3 where k3: "ece391_fdputs env 1 a k2 = Some k3" "print_step k2 k3" "program_ok env k3"
    "fore_console k3 = fold con_putc l (fore_console k2)" using user_fdputs [OF ok2 line2 assms(3)] by blast
  note s3 = user_step_trans [OF s2 print_step_user [OF k3(2)]]
  obtain k4 where k4: "print_lit env newline k3 = Some k4" "prints env W k3 (ascii newline) k4" "print_step k3 k4"
    using print_lit_result [OF k3(3) literals_kept [OF lit s3 ok] _ colon_newline_plain(2)] by blast
  have p1: "prints env W k name k1" and p3: "prints env W k2 l k3"
    using k1 k3 print_step_user by (simp_all add: prints_def)
  from prints_trans [OF p1 prints_trans [OF k2(2) prints_trans [OF p3 k4(2)]]]
  have "prints env W k (name @ ascii '':'' @ l @ ascii newline) k4" .
  moreover have "print_step k k4"
    by (rule print_step_trans [OF k1(2) print_step_trans [OF k2(3) print_step_trans [OF k3(2) k4(3)]]])
  ultimately show ?thesis using k1(1) k2(1) k3(1) k4(1) by (simp add: grep_print_def)
qed

text \<open>The array of the search starts at \<open>data\<close>; a line at \<open>c\<close> ends at a newline or where the data ends.\<close>

definition line_at :: "addr \<Rightarrow> nat \<Rightarrow> nat \<Rightarrow> kernel \<Rightarrow> u8 list \<Rightarrow> bool" where
  "line_at data n c k l \<longleftrightarrow> bytes (vmem k) (data + word_of_nat c) (length l) = l \<and> plain_line l \<and> c + length l \<le> n \<and> n \<le> 1024 \<and>
     (c + length l = n \<or> vmem k (data + word_of_nat (c + length l)) = 0x0A)"

text \<open>The end of a line becomes a NUL, and then the line is a string.\<close>

lemma terminate_line:
  assumes ready: "grep_ready env data s fname pat name k" and page: "\<And>i. i < 1025 \<Longrightarrow> in_user_page (data + word_of_nat i)"
    and line: "line_at data n c k l"
  shows "\<exists>k1. grep_line_end (vmem k) data (word_of_nat n) (word_of_nat c) = Some (word_of_nat (c + length l)) \<and>
    user_store (data + word_of_nat (c + length l)) 0 k = Some k1 \<and> silent_step (\<lambda>x. x = data + word_of_nat (c + length l)) k k1 \<and>
    grep_ready env data s fname pat name k1 \<and> proc_fds k1 = proc_fds k \<and> user_string k1 (data + word_of_nat c) l"
proof -
  let ?a = "data + word_of_nat (c + length l)" and ?W = "in_range data 1025"
  have ok: "program_ok env k" using ready by (simp add: grep_ready_def)
  have l: "bytes (vmem k) (data + word_of_nat c) (length l) = l" "0 \<notin> set l" "0x0A \<notin> set l"
      "c + length l = n \<or> vmem k ?a = 0x0A" "c + length l \<le> n" "n < 2147483648"
    and small: "c + length l < 1025" using line by (simp_all add: line_at_def plain_line_def)
  have "in_user_page ?a" using page [of "c + length l"] small by (simp del: of_nat_add)
  then obtain k1 where k1: "user_store ?a 0 k = Some k1" "silent_step (\<lambda>x. x = ?a) k k1" "program_ok env k1"
    "proc_fds k1 = proc_fds k" "vmem k1 ?a = 0" using user_store_step [OF ok] by blast
  have s1: "user_step (\<lambda>x. x = ?a) k k1" using k1(2) by (simp add: silent_step_def)
  have "?W ?a" unfolding in_range_def using small by (simp del: of_nat_add)
  then have "user_step ?W k k1" by (intro user_step_mono [OF s1]) simp
  then have ready1: "grep_ready env data s fname pat name k1" by (rule grep_ready_step [OF ready _ k1(3)])
  have apart: "data + word_of_nat c + word_of_nat i \<noteq> ?a" if "i < length l" for i
    using that small word_of_nat_inj32 [of "c + i" "c + length l"] by (auto simp: ac_simps)
  have "in_user_page (data + word_of_nat c + word_of_nat i)" if "i \<le> length l" for i
    using page [of "c + i"] that small by (simp add: ac_simps)
  note string_page = this
  have "bytes (vmem k1) (data + word_of_nat c) (length l) = l"
    using bytes_kept [OF ok s1, of "length l" "data + word_of_nat c"] string_page apart l(1) by simp
  then have "vmem k1 (data + word_of_nat c + word_of_nat i) = l ! i" if "i < length l" for i
    using nth_bytes [OF that, of "vmem k1" "data + word_of_nat c"] by simp
  then have "cstr (ptr (data + word_of_nat c) (vmem k1)) l"
    using k1(5) l(2) small by (simp add: cstr_def ptr_def ac_simps)
  then have "user_string k1 (data + word_of_nat c) l" using string_page by (simp add: user_string_def)
  moreover have "grep_line_end (vmem k) data (word_of_nat n) (word_of_nat c) = Some (word_of_nat (c + length l))"
    by (rule grep_line_end_finds [OF l(1,3-6)])
  ultimately show ?thesis using k1(1,2,4) ready1 by blast
qed

text \<open>Searching a line, and going on behind it.\<close>

lemma grep_line:
  assumes ready: "grep_ready env data s fname pat name k" and page: "\<And>i. i < 1025 \<Longrightarrow> in_user_page (data + word_of_nat i)"
    and line: "line_at data n c k l" and searched: "vmem k (data + word_of_nat (c + length l)) = 0x0A \<or> cnt = 0 \<or> c = 0"
  shows "\<exists>k'. grep_lines env s (word_of_nat (length pat)) fname data cnt (word_of_nat n) (word_of_nat c) k =
      (if n \<le> Suc (c + length l) then Some (0, k') else
       grep_lines env s (word_of_nat (length pat)) fname data cnt (word_of_nat n) (word_of_nat (Suc (c + length l))) k') \<and>
    prints env (\<lambda>x. x = data + word_of_nat (c + length l)) k (found_line pat name l) k' \<and> proc_fds k' = proc_fds k \<and>
    grep_ready env data s fname pat name k'"
proof -
  let ?e = "c + length l"
  let ?a = "data + word_of_nat ?e" and ?W = "in_range data 1025"
  have small: "?e \<le> n" "n \<le> 1024" and plain: "37 \<notin> set l" using line by (simp_all add: line_at_def plain_line_def)
  obtain k1 where fin: "grep_line_end (vmem k) data (word_of_nat n) (word_of_nat c) = Some (word_of_nat ?e)"
    and store: "user_store ?a 0 k = Some k1" and k1: "silent_step (\<lambda>x. x = ?a) k k1" "grep_ready env data s fname pat name k1"
    "proc_fds k1 = proc_fds k" "user_string k1 (data + word_of_nat c) l" using terminate_line [OF ready page line] by blast
  have ok1: "program_ok env k1" and pat: "cstr (ptr s (vmem k1)) pat" "length pat < 4294967296"
    using k1(2) by (simp_all add: grep_ready_def user_string_def cstr_def)
  have cstr: "cstr (ptr (data + word_of_nat c) (vmem k1)) l" using k1(4) by (simp add: user_string_def)
  have match: "grep_match (vmem k1) data s (word_of_nat (length pat)) (word_of_nat c) (word_of_nat ?e) = Some (pat \<noteq> [] \<and> sublist pat l)"
    by (rule grep_match_sublist [OF pat cstr]) (use small in simp)
  have silent: "prints env (\<lambda>x. x = ?a) k [] k1" by (rule prints_silent [OF k1(1) ok1])
  have "\<exists>k2. (if pat \<noteq> [] \<and> sublist pat l then grep_print env fname (data + word_of_nat c) k1 else Some k1) = Some k2 \<and>
      prints env (\<lambda>x. x = ?a) k (found_line pat name l) k2 \<and> proc_fds k2 = proc_fds k"
  proof (cases "pat \<noteq> [] \<and> sublist pat l")
    case True
    obtain k2 where k2: "grep_print env fname (data + word_of_nat c) k1 = Some k2"
      "prints env (\<lambda>x. x = ?a) k1 (name @ ascii '':'' @ l @ ascii newline) k2" "print_step k1 k2"
      using grep_print_prints [OF k1(2,4) plain] by blast
    then show ?thesis using True prints_trans [OF silent k2(2)] print_step_fields [OF k2(3)] k1(3) by (simp add: found_line_def)
  next
    case False
    then have no: "(pat \<noteq> [] \<and> sublist pat l) = False" by simp
    show ?thesis using silent k1(3) unfolding found_line_def no by simp
  qed
  then obtain k2 where out: "(if pat \<noteq> [] \<and> sublist pat l then grep_print env fname (data + word_of_nat c) k1 else Some k1) = Some k2"
    and p2: "prints env (\<lambda>x. x = ?a) k (found_line pat name l) k2" "proc_fds k2 = proc_fds k" by blast
  have c0: "(word_of_nat c :: u32) = 0 \<longleftrightarrow> c = 0" using word_of_nat_inj32 [of c 0] small by auto
  have cond: "(vmem k ?a \<noteq> 0x0A \<and> cnt \<noteq> 0 \<and> (word_of_nat c :: u32) \<noteq> 0) = False" using searched unfolding c0 by blast
  have le: "(word_of_nat n :: u32) \<le>s word_of_nat (Suc ?e) \<longleftrightarrow> n \<le> Suc ?e" using small by (subst small_sle) simp_all
  have step: "grep_lines env s (word_of_nat (length pat)) fname data cnt (word_of_nat n) (word_of_nat c) k =
      (if n \<le> Suc ?e then Some (0, k2) else
       grep_lines env s (word_of_nat (length pat)) fname data cnt (word_of_nat n) (word_of_nat (Suc ?e)) k2)"
    by (subst grep_lines.simps) (simp only: fin cond store match out Option.bind.bind_lunit if_False next_small le)
  have inW: "?W ?a" unfolding in_range_def using small by (simp del: of_nat_add)
  have s2: "user_step (\<lambda>x. x = ?a) k k2" and ok2: "program_ok env k2" using p2(1) by (simp_all add: prints_def)
  have "user_step ?W k k2" by (rule user_step_mono [OF s2]) (use inW in simp)
  then have "grep_ready env data s fname pat name k2" by (rule grep_ready_step [OF ready _ ok2])
  then show ?thesis using step p2 by blast
qed

text \<open>The rest of the buffer, a line without its end, goes to the start of the array.\<close>

lemma grep_keeps_rest:
  assumes ready: "grep_ready env data s fname pat name k" and page: "\<And>i. i < 1025 \<Longrightarrow> in_user_page (data + word_of_nat i)"
    and line: "line_at data n c k l" and n: "c + length l = n" and c: "0 < c" and kept: "vmem k (data + word_of_nat n) \<noteq> 0x0A" "cnt \<noteq> 0"
  shows "\<exists>k'. grep_lines env s (word_of_nat (length pat)) fname data cnt (word_of_nat n) (word_of_nat c) k = Some (word_of_nat (length l), k') \<and>
    prints env (in_range data 1025) k [] k' \<and> proc_fds k' = proc_fds k \<and> bytes (vmem k') data (length l) = l"
proof -
  let ?W = "in_range data 1025" and ?a = "data + word_of_nat n"
  have small: "n \<le> 1024" using line by (simp add: line_at_def)
  obtain k1 where fin: "grep_line_end (vmem k) data (word_of_nat n) (word_of_nat c) = Some (word_of_nat n)"
    and store: "user_store ?a 0 k = Some k1" and k1: "silent_step (\<lambda>x. x = ?a) k k1" "grep_ready env data s fname pat name k1"
    "proc_fds k1 = proc_fds k" "user_string k1 (data + word_of_nat c) l" using terminate_line [OF ready page line] n by blast
  let ?m = "write_bytes data (l @ [0]) (vmem k1)"
  let ?k = "set_vmem ?m k1"
  have ok1: "program_ok env k1" using k1(2) by (simp add: grep_ready_def)
  have cstr: "cstr (ptr (data + word_of_nat c) (vmem k1)) l" using k1(4) by (simp add: user_string_def)
  have copy: "ece391_strcpy (vmem k1) data (data + word_of_nat c) = Some ?m"
    by (rule strcpy_down [OF cstr]) (use c n small in simp_all)
  have "length (l @ [0]) \<le> 1025" using n small c by simp
  then have page': "\<And>i. i < length (l @ [0 :: u8]) \<Longrightarrow> in_user_page (data + word_of_nat i)"
    and wide: "\<And>x. in_range data (length (l @ [0 :: u8])) x \<Longrightarrow> ?W x" using page by (auto simp: in_range_def)
  have short: "length (l @ [0 :: u8]) < 4294967296" using n small by simp
  note buffer = silent_buffer [where xs = "l @ [0]" and buf = data, OF ok1 page' short]
  have s: "silent_step ?W k1 ?k" "proc_fds ?k = proc_fds k1" "program_ok env ?k"
    using silent_mono [OF buffer(1) wide] buffer(2,3) by simp_all
  have "?W ?a" unfolding in_range_def using small by simp
  then have "silent_step ?W k k1" by (intro silent_mono [OF k1(1)]) simp
  then have "prints env ?W k [] ?k" by (intro prints_silent silent_step_trans [OF _ s(1)] s(3))
  moreover have "bytes (vmem ?k) data (length l) = l"
  proof (rule bytes_eqI)
    have um: "user_mapped k1" using ok1 by (simp add: program_ok_def)
    fix i assume i: "i < length l"
    then show "vmem ?k (data + word_of_nat i) = l ! i"
      using buffer_vmem [OF um, of i "l @ [0]" data] page' [of i] short by (simp add: nth_append)
  qed simp
  moreover have "(word_of_nat c :: u32) \<noteq> 0" using c n small by (simp add: word_neq_0_unat)
  then have "grep_lines env s (word_of_nat (length pat)) fname data cnt (word_of_nat n) (word_of_nat c) k =
      Some (word_of_nat n - word_of_nat c, ?k)"
    using fin store copy kept by (subst grep_lines.simps) simp
  moreover have "(word_of_nat n - word_of_nat c :: u32) = word_of_nat (length l)" by (simp add: n [symmetric])
  ultimately show ?thesis using s(2) k1(3) by auto
qed

lemma prints_mono: "prints env W k xs k' \<Longrightarrow> (\<And>a. W a \<Longrightarrow> W' a) \<Longrightarrow> prints env W' k xs k'"
  unfolding prints_def using user_step_mono by blast

lemma file_text_simps: "file_text [] = []" "file_text (l # ls) = (l @ [0x0A]) @ file_text ls"
  by (simp_all add: file_text_def)

lemma found_empty: "found_line pat name [] = []"
  by (simp add: found_line_def)

text \<open>The tail without a newline is searched at once, or it is kept for the next read.\<close>

lemma grep_tail:
  assumes page: "\<And>i. i < 1025 \<Longrightarrow> in_user_page (data + word_of_nat i)" and plain: "plain_line tail" and cnt: "cnt \<noteq> 0"
    and ne: "tail \<noteq> []" and ready: "grep_ready env data s fname pat name k" and n: "c + length tail = n" "n \<le> 1024"
    and here: "bytes (vmem k) (data + word_of_nat c) (length tail) = tail"
  shows "\<exists>k' left. grep_lines env s (word_of_nat (length pat)) fname data cnt (word_of_nat n) (word_of_nat c) k = Some (word_of_nat (length left), k') \<and>
      prints env (in_range data 1025) k (if left = [] then found_line pat name tail else []) k' \<and>
      (left = [] \<or> left = tail \<and> c \<noteq> 0) \<and> bytes (vmem k') data (length left) = left \<and> proc_fds k' = proc_fds k \<and>
      grep_ready env data s fname pat name k'"
proof -
  have line: "line_at data n c k tail" using here plain n by (simp add: line_at_def)
  have "in_range data 1025 (data + word_of_nat n)" unfolding in_range_def using n(2) by simp
  then have wide: "\<And>x. x = data + word_of_nat (c + length tail) \<Longrightarrow> in_range data 1025 x" using n(1) by simp
  show ?thesis
  proof (cases "vmem k (data + word_of_nat n) = 0x0A \<or> c = 0")
    case True
    then obtain k' where k': "grep_lines env s (word_of_nat (length pat)) fname data cnt (word_of_nat n) (word_of_nat c) k = Some (0, k')"
      "prints env (\<lambda>x. x = data + word_of_nat (c + length tail)) k (found_line pat name tail) k'" "proc_fds k' = proc_fds k"
      "grep_ready env data s fname pat name k'" using grep_line [OF ready page line, of cnt] n(1) by auto
    show ?thesis
      by (rule exI [of _ k'], rule exI [of _ "[]"]) (use k'(1,3,4) prints_mono [OF k'(2) wide] in \<open>simp add: bytes_def\<close>)
  next
    case False
    then obtain k' where k': "grep_lines env s (word_of_nat (length pat)) fname data cnt (word_of_nat n) (word_of_nat c) k = Some (word_of_nat (length tail), k')"
      "prints env (in_range data 1025) k [] k'" "proc_fds k' = proc_fds k" "bytes (vmem k') data (length tail) = tail"
      using grep_keeps_rest [OF ready page line n(1), of cnt] cnt by auto
    have "grep_ready env data s fname pat name k'" using k'(2) by (intro grep_ready_step [OF ready]) (simp_all add: prints_def)
    then show ?thesis using k' False ne by (intro exI [of _ k'], intro exI [of _ tail]) simp
  qed
qed

text \<open>The bytes of a line and those behind it.\<close>

lemma text_pieces:
  assumes "bytes m p (length ((l @ [0x0A]) @ rest)) = (l @ [0x0A]) @ rest"
  shows "bytes m p (length l) = l" "m (p + word_of_nat (length l)) = 0x0A" "bytes m (p + word_of_nat (Suc (length l))) (length rest) = rest"
proof -
  have "length ((l @ [0x0A]) @ rest) = Suc (length l) + length rest" by simp
  then have "bytes m p (Suc (length l)) @ bytes m (p + word_of_nat (Suc (length l))) (length rest) = (l @ [0x0A]) @ rest"
    using assms unfolding bytes_add [symmetric] by (simp only:)
  then have "bytes m p (Suc (length l)) = l @ [0x0A] \<and> bytes m (p + word_of_nat (Suc (length l))) (length rest) = rest"
    by (rule append_eq_append_conv [THEN iffD1, rotated]) simp
  then show "bytes m p (length l) = l" "m (p + word_of_nat (length l)) = 0x0A"
    "bytes m (p + word_of_nat (Suc (length l))) (length rest) = rest" by (simp_all add: bytes_Suc)
qed

text \<open>
  What has been read is lines \<open>ls\<close> and then a \<open>tail\<close> without a newline. The tail is searched at
  once or it stays behind for the next read.
\<close>

lemma grep_lines_run:
  assumes page: "\<And>i. i < 1025 \<Longrightarrow> in_user_page (data + word_of_nat i)" and plain: "plain_line tail" and cnt: "cnt \<noteq> 0"
  shows "list_all plain_line ls \<Longrightarrow> ls \<noteq> [] \<or> tail \<noteq> [] \<Longrightarrow> grep_ready env data s fname pat name k \<Longrightarrow>
    n = c + length (file_text ls @ tail) \<Longrightarrow> n \<le> 1024 \<Longrightarrow>
    bytes (vmem k) (data + word_of_nat c) (length (file_text ls @ tail)) = file_text ls @ tail \<Longrightarrow>
    \<exists>k' left. grep_lines env s (word_of_nat (length pat)) fname data cnt (word_of_nat n) (word_of_nat c) k = Some (word_of_nat (length left), k') \<and>
      prints env (in_range data 1025) k (concat (map (found_line pat name) ls) @ (if left = [] then found_line pat name tail else [])) k' \<and>
      (left = [] \<or> left = tail \<and> ls \<noteq> [] \<or> left = tail \<and> c \<noteq> 0) \<and> bytes (vmem k') data (length left) = left \<and> proc_fds k' = proc_fds k \<and>
      grep_ready env data s fname pat name k'"
proof (induction ls arbitrary: k c)
  case Nil
  have n: "c + length tail = n" "n \<le> 1024" using Nil.prems(4,5) by (simp_all add: file_text_simps)
  have here: "bytes (vmem k) (data + word_of_nat c) (length tail) = tail" "tail \<noteq> []"
    using Nil.prems(2,6) by (simp_all add: file_text_simps)
  from grep_tail [OF page plain cnt here(2) Nil.prems(3) n here(1)] show ?case by auto
next
  case (Cons l ls)
  let ?W = "in_range data 1025" and ?e = "c + length l" and ?R = "file_text ls @ tail"
  let ?a = "data + word_of_nat ?e" and ?N = "length ?R"
  have ok: "program_ok env k" using Cons.prems(3) by (simp add: grep_ready_def)
  have text_eq: "file_text (l # ls) @ tail = (l @ [0x0A]) @ ?R" by (simp add: file_text_simps)
  have len: "n = Suc ?e + ?N" using Cons.prems(4) unfolding text_eq by simp
  note pieces = text_pieces [OF Cons.prems(6) [unfolded text_eq]]
  have at: "bytes (vmem k) (data + word_of_nat c) (length l) = l" "vmem k ?a = 0x0A"
    and later: "bytes (vmem k) (data + word_of_nat (Suc ?e)) ?N = ?R" using pieces by (simp_all add: ac_simps)
  have line: "line_at data n c k l" using at Cons.prems(1,5) len by (simp add: line_at_def)
  obtain k2 where step: "grep_lines env s (word_of_nat (length pat)) fname data cnt (word_of_nat n) (word_of_nat c) k =
      (if n \<le> Suc ?e then Some (0, k2) else
       grep_lines env s (word_of_nat (length pat)) fname data cnt (word_of_nat n) (word_of_nat (Suc ?e)) k2)"
    and p2: "prints env (\<lambda>x. x = ?a) k (found_line pat name l) k2" "proc_fds k2 = proc_fds k"
    and ready2: "grep_ready env data s fname pat name k2"
    using grep_line [OF Cons.prems(3) page line] at(2) by blast
  have s2: "user_step (\<lambda>x. x = ?a) k k2" using p2(1) by (simp add: prints_def)
  have inW: "?W ?a" unfolding in_range_def using len Cons.prems(5) by (simp del: of_nat_add)
  have pW: "prints env ?W k (found_line pat name l) k2" by (rule prints_mono [OF p2(1)]) (use inW in simp)
  show ?case
  proof (cases "?R = []")
    case True
    then have ends: "ls = []" "tail = []" by (cases ls; simp add: file_text_simps)+
    then have "n \<le> Suc ?e" using len True by simp
    then show ?thesis
      by (intro exI [of _ k2], intro exI [of _ "[]"])
        (use step pW p2(2) ready2 ends in \<open>simp add: found_empty bytes_def\<close>)
  next
    case False
    then have N: "0 < ?N" by blast
    have away: "in_user_page (data + word_of_nat (Suc ?e) + word_of_nat i) \<and> data + word_of_nat (Suc ?e) + word_of_nat i \<noteq> ?a" if "i < ?N" for i
    proof -
      have "Suc ?e + i < 1025" "?e < 1025" using that len Cons.prems(5) by simp_all
      moreover from this have "(word_of_nat (Suc ?e + i) :: u32) \<noteq> word_of_nat ?e" using word_of_nat_inj32 [of "Suc ?e + i" ?e] by auto
      ultimately show ?thesis using page [of "Suc ?e + i"] by (simp add: ac_simps)
    qed
    have rest: "bytes (vmem k2) (data + word_of_nat (Suc ?e)) ?N = ?R"
      using bytes_kept [OF ok s2, of ?N "data + word_of_nat (Suc ?e)"] away later by simp
    have more: "list_all plain_line ls" "ls \<noteq> [] \<or> tail \<noteq> []" using Cons.prems(1) False by (auto simp: file_text_simps)
    obtain k' left where k': "grep_lines env s (word_of_nat (length pat)) fname data cnt (word_of_nat n) (word_of_nat (Suc ?e)) k2 =
        Some (word_of_nat (length left), k')"
      "prints env ?W k2 (concat (map (found_line pat name) ls) @ (if left = [] then found_line pat name tail else [])) k'"
      "left = [] \<or> left = tail" "bytes (vmem k') data (length left) = left" "proc_fds k' = proc_fds k2" "grep_ready env data s fname pat name k'"
      using Cons.IH [OF more ready2 len Cons.prems(5) rest] by blast
    have "\<not> n \<le> Suc ?e" using N len by simp
    then show ?thesis
      by (intro exI [of _ k'], intro exI [of _ left])
        (use step k'(1,3-6) prints_trans [OF pW k'(2)] p2(2) in auto)
  qed
qed

text \<open>The second read finds the end of the file, and what stayed behind is searched.\<close>

lemma grep_second_read:
  assumes page: "\<And>i. i < 1025 \<Longrightarrow> in_user_page (data + word_of_nat i)" and ready: "grep_ready env data s fname pat name k"
    and j: "2 \<le> j" "j < 8" "proc_fds k ! j = f" "flags f = 1" "fops_ptr f = fops_file"
    and fl: "file_ok (FILESYSLOC k) (vmem k) (inode f)" "unat (file_position f) = length (file_contents (FILESYSLOC k) (vmem k) (inode f))"
    and left: "bytes (vmem k) data (length left) = left" "plain_line left" "length left < 1024"
  shows "\<exists>k'. grep_read env s (word_of_nat (length pat)) fname data (word_of_nat j) (word_of_nat (length left)) k = Some (0, k') \<and>
    prints env (in_range data 1025) k (found_line pat name left) k'"
proof -
  let ?W = "in_range data 1025" and ?n = "length left" and ?fd = "word_of_nat j"
  have ok: "program_ok env k" using ready by (simp add: grep_ready_def)
  have len8: "length (proc_fds k) = 8" using ok by (simp add: program_ok_def)
  have size: "BUFSIZE - word_of_nat ?n = word_of_nat (1024 - ?n)" using left(3) by (simp add: BUFSIZE_def of_nat_diff)
  have page': "in_user_page (data + word_of_nat ?n + word_of_nat i)" if i: "i < 1024 - ?n" for i
    using page [of "?n + i"] i by (simp add: ac_simps)
  have "unat (word_of_nat (1024 - ?n) :: u32) = 1024 - ?n" by (rule unat_of_nat32) simp
  then have small: "unat (word_of_nat (1024 - ?n) :: u32) \<le> 1024 - ?n" "0 < 1024 - ?n" "1024 - ?n \<le> 0x400000" using left(3) by simp_all
  have pos: "unat (file_position f) \<le> length (file_contents (FILESYSLOC k) (vmem k) (inode f))" using fl(2) by simp
  obtain k1 where k1: "ece391_read env ?fd (data + word_of_nat ?n) (word_of_nat (1024 - ?n)) k = Some (0, k1)"
    "silent_step (in_range (data + word_of_nat ?n) (1024 - ?n)) k k1" "program_ok env k1" "proc_fds k1 = (proc_fds k)[j := f]"
    using user_read_file [OF ok j(3,1,2,4,5) fl(1) refl pos page' small] fl(2) by auto
  have wide: "?W x" if x: "in_range (data + word_of_nat ?n) (1024 - ?n) x" for x
  proof -
    obtain i where i: "i < 1024 - ?n" "x = data + word_of_nat ?n + word_of_nat i"
      using x range_addr unfolding in_range_def by blast
    then have "x - data = word_of_nat (?n + i)" by simp
    then show ?thesis unfolding in_range_def using i(1) by (simp del: of_nat_add)
  qed
  have silent: "silent_step ?W k k1" by (rule silent_mono [OF k1(2) wide])
  have s1: "user_step (in_range (data + word_of_nat ?n) (1024 - ?n)) k k1" using k1(2) by (simp add: silent_step_def)
  have "in_user_page (data + word_of_nat i) \<and> \<not> in_range (data + word_of_nat ?n) (1024 - ?n) (data + word_of_nat i)" if i: "i < ?n" for i
  proof -
    have "(word_of_nat ?n + (word_of_nat i - word_of_nat ?n) :: u32) = word_of_nat i" by simp
    moreover have "unat (word_of_nat ?n + (word_of_nat i - word_of_nat ?n) :: u32) = ?n + unat (word_of_nat i - word_of_nat ?n :: u32)"
      if "unat (word_of_nat i - word_of_nat ?n :: u32) < 1024 - ?n" using that left(3) by (subst unat_add32) simp_all
    ultimately have "\<not> unat (word_of_nat i - word_of_nat ?n :: u32) < 1024 - ?n" using i left(3) by auto
    then show ?thesis using page [of i] i left(3) by (simp add: in_range_def)
  qed
  then have kept: "bytes (vmem k1) data ?n = left" using bytes_kept [OF ok s1, of ?n data] left(1) by simp
  have ready1: "grep_ready env data s fname pat name k1"
    using silent by (intro grep_ready_step [OF ready _ k1(3)]) (simp add: silent_step_def)
  have "line_at data ?n 0 k1 left" using kept left(2,3) by (simp add: line_at_def)
  then obtain k2 where k2: "grep_lines env s (word_of_nat (length pat)) fname data 0 (word_of_nat ?n) 0 k1 = Some (0, k2)"
    "prints env (\<lambda>x. x = data + word_of_nat (0 + ?n)) k1 (found_line pat name left) k2" "proc_fds k2 = proc_fds k1"
    "grep_ready env data s fname pat name k2"
    using grep_line [OF ready1 page, of ?n 0 left 0] by auto
  have "?W (data + word_of_nat (0 + ?n))" unfolding in_range_def using left(3) by simp
  then have p2: "prints env ?W k1 (found_line pat name left) k2" by (intro prints_mono [OF k2(2)]) simp
  have ok2: "program_ok env k2" using p2 by (simp add: prints_def)
  obtain k3 where k3: "ece391_close env ?fd k2 = Some (0, k3)" "silent_step ?W k2 k3" "program_ok env k3"
    using user_close [OF ok2 j(1,2), where W = ?W] k2(3) k1(4) j len8 by auto
  have "grep_read env s (word_of_nat (length pat)) fname data ?fd (word_of_nat ?n) k = Some (0, k3)"
    using k1(1) k2(1) k3(1) by (subst grep_read.simps) (simp add: size)
  moreover have "prints env ?W k (found_line pat name left) k3"
    using prints_after_silent [OF silent prints_trans [OF p2 prints_silent [OF k3(2,3)]]] by simp
  ultimately show ?thesis by blast
qed

lemma grep_read_prints:
  assumes page: "\<And>i. i < 1025 \<Longrightarrow> in_user_page (data + word_of_nat i)" and ready: "grep_ready env data s fname pat name k"
    and j: "2 \<le> j" "j < 8" "proc_fds k ! j = new_descriptor fops_file ino"
    and fl: "file_ok (FILESYSLOC k) (vmem k) ino" "file_text ls @ tail = file_contents (FILESYSLOC k) (vmem k) ino"
    and plain: "list_all plain_line ls" "plain_line tail" and size: "length (file_text ls @ tail) \<le> 1024"
  shows "\<exists>k'. grep_read env s (word_of_nat (length pat)) fname data (word_of_nat j) 0 k = Some (0, k') \<and>
    prints env (in_range data 1025) k (concat (map (found_line pat name) (ls @ [tail]))) k'"
proof -
  let ?W = "in_range data 1025" and ?xs = "file_text ls @ tail" and ?fd = "word_of_nat j"
  let ?len = "length ?xs" and ?f = "new_descriptor fops_file ino"
  have ok: "program_ok env k" using ready by (simp add: grep_ready_def)
  have len8: "length (proc_fds k) = 8" using ok by (simp add: program_ok_def)
  have f: "flags ?f = 1" "fops_ptr ?f = fops_file" "inode ?f = ino" "file_position ?f = 0" by (simp_all add: new_descriptor_def)
  show ?thesis
  proof (cases "ls = [] \<and> tail = []")
    case True
    then have "file_contents (FILESYSLOC k) (vmem k) ino = []" using fl(2) by (simp add: file_text_simps)
    then have "unat (file_position ?f) = length (file_contents (FILESYSLOC k) (vmem k) (inode ?f))" by (simp add: f)
    moreover have "file_ok (FILESYSLOC k) (vmem k) (inode ?f)" using fl(1) by (simp add: f)
    moreover have "bytes (vmem k) data (length []) = []" by (simp add: bytes_def)
    ultimately show ?thesis
      using grep_second_read [OF page ready j f(1,2), of "[]"] True by (simp add: plain_line_def)
  next
    case False
    then have some: "ls \<noteq> [] \<or> tail \<noteq> []" by blast
    then have pos: "0 < ?len" by (cases ls) (auto simp: file_text_simps)
    have page': "\<And>i. i < 1024 \<Longrightarrow> in_user_page (data + word_of_nat i)" using page by simp
    have wide: "\<And>a. in_range data 1024 a \<Longrightarrow> ?W a" by (simp add: in_range_def)
    obtain k1 where k1: "ece391_read env ?fd data 1024 k = Some (word_of_nat ?len, k1)" "silent_step (in_range data 1024) k k1"
      "program_ok env k1" "proc_fds k1 = (proc_fds k)[j := ?f\<lparr>file_position := word_of_nat ?len\<rparr>]"
      "bytes (vmem k1) data 1024 = ?xs @ drop ?len (bytes (vmem k) data 1024)"
      using user_read_file [OF ok j(3,1,2) f(1,2), of ?xs 1024 data 1024] fl size page' by (auto simp: f)
    have s1: "user_step ?W k k1" and silent1: "silent_step ?W k k1"
      using silent_mono [OF k1(2) wide] by (simp_all add: silent_step_def)
    have "take ?len (bytes (vmem k1) data 1024) = ?xs" unfolding k1(5) by simp
    then have start: "bytes (vmem k1) (data + word_of_nat 0) ?len = ?xs" using size by (simp add: bytes_def take_map)
    have c: "(word_of_nat ?len :: u32) \<noteq> 0" "(word_of_nat ?len :: u32) \<noteq> - 1" using pos size small_word_facts [of ?len] by simp_all
    have n0: "?len = 0 + length (file_text ls @ tail)" by simp
    obtain k2 left where k2: "grep_lines env s (word_of_nat (length pat)) fname data (word_of_nat ?len) (word_of_nat ?len) (word_of_nat 0) k1 =
        Some (word_of_nat (length left), k2)"
      "prints env ?W k1 (concat (map (found_line pat name) ls) @ (if left = [] then found_line pat name tail else [])) k2"
      "left = [] \<or> left = tail \<and> ls \<noteq> []" "bytes (vmem k2) data (length left) = left" "proc_fds k2 = proc_fds k1"
      "grep_ready env data s fname pat name k2"
      using grep_lines_run [OF page plain(2) c(1) plain(1) some grep_ready_step [OF ready s1 k1(3)] n0 size start] by auto
    have s2: "user_step ?W k k2" using k2(2) user_step_trans [OF s1] by (simp add: prints_def)
    let ?g = "?f\<lparr>file_position := word_of_nat ?len\<rparr>"
    have g: "flags ?g = 1" "fops_ptr ?g = fops_file" "inode ?g = ino" "unat (file_position ?g) = ?len"
    proof -
      have "unat (word_of_nat ?len :: u32) = ?len" by (rule unat_of_nat32) (use size in simp)
      then show "unat (file_position ?g) = ?len" by (simp del: of_nat_add length_append)
    qed (simp_all add: f)
    have fd2: "proc_fds k2 ! j = ?g" using k2(5) k1(4) j(2) len8 by simp
    note file2 = step_contents [OF ok s2 fl(1)]
    have file_g: "file_ok (FILESYSLOC k2) (vmem k2) (inode ?g)"
      "unat (file_position ?g) = length (file_contents (FILESYSLOC k2) (vmem k2) (inode ?g))"
      unfolding g(3,4) file2(3) fl(2) [symmetric] using file2(2) by simp_all
    have left: "plain_line left" "length left < 1024"
    proof -
      show "plain_line left" using k2(3) plain(2) by (auto simp: plain_line_def)
      have "length tail < 1024" if "ls \<noteq> []" using that size by (cases ls) (simp_all add: file_text_simps)
      then show "length left < 1024" using k2(3) by auto
    qed
    obtain k3 where k3: "grep_read env s (word_of_nat (length pat)) fname data ?fd (word_of_nat (length left)) k2 = Some (0, k3)"
      "prints env ?W k2 (found_line pat name left) k3"
      using grep_second_read [OF page k2(6) j(1,2) fd2 g(1,2) file_g k2(4) left] by blast
    have "grep_read env s (word_of_nat (length pat)) fname data ?fd 0 k = Some (0, k3)"
      using k1(1) k2(1) k3(1) c by (subst grep_read.simps) (simp add: BUFSIZE_def)
    moreover have "(if left = [] then found_line pat name tail else []) @ found_line pat name left = found_line pat name tail"
      using k2(3) by (auto simp: found_empty)
    then have "prints env ?W k (concat (map (found_line pat name) (ls @ [tail]))) k3"
      using prints_after_silent [OF silent1 prints_trans [OF k2(2) k3(2)]] by simp
    ultimately show ?thesis by blast
  qed
qed

lemma do_one_file_prints:
  assumes page: "\<And>i. i < 1025 \<Longrightarrow> in_user_page (data + word_of_nat i)" and ready: "grep_ready env data s fname pat name k"
    and look: "lookup_name k name = Some d" "filetype d = 2" "free_fd k = Some j"
    and fl: "file_ok (FILESYSLOC k) (vmem k) (inodeNumber d)" "file_text ls @ tail = file_contents (FILESYSLOC k) (vmem k) (inodeNumber d)"
    and plain: "list_all plain_line ls" "plain_line tail" and size: "length (file_text ls @ tail) \<le> 1024"
  shows "\<exists>k'. do_one_file env data s fname k = Some (0, k') \<and>
    prints env (in_range data 1025) k (concat (map (found_line pat name) (ls @ [tail]))) k'"
proof -
  let ?W = "in_range data 1025"
  have ok: "program_ok env k" and fname: "user_string k fname name" and s: "cstr (ptr s (vmem k)) pat"
    using ready by (simp_all add: grep_ready_def user_string_def)
  have op: "opened_file d = Some (fops_file, inodeNumber d)" using look(2) by (simp add: opened_file_def)
  obtain k1 where k1: "ece391_open env fname k = Some (word_of_nat j, k1)" "silent_step ?W k k1" "program_ok env k1"
    "proc_fds k1 = (proc_fds k)[j := new_descriptor fops_file (inodeNumber d)]"
    using user_open [OF ok fname look(1,3) op] by blast
  note j = free_fd_range [OF look(3)]
  have len8: "length (proc_fds k) = 8" using ok by (simp add: program_ok_def)
  have s1: "user_step ?W k k1" using k1(2) by (simp add: silent_step_def)
  note file1 = step_contents [OF ok s1 fl(1)]
  have at: "proc_fds k1 ! j = new_descriptor fops_file (inodeNumber d)" using k1(4) j len8 by simp
  have co: "file_text ls @ tail = file_contents (FILESYSLOC k1) (vmem k1) (inodeNumber d)" unfolding file1(3) by (rule fl(2))
  obtain k2 where k2: "grep_read env s (word_of_nat (length pat)) fname data (word_of_nat j) 0 k1 = Some (0, k2)"
    "prints env ?W k1 (concat (map (found_line pat name) (ls @ [tail]))) k2"
    using grep_read_prints [OF page grep_ready_step [OF ready s1 k1(3)] _ _ at file1(2) co plain size] j by blast
  have "ece391_strlen (vmem k) s = Some (word_of_nat (length pat))" using strlen_cstr [OF s] by (simp add: strlen_same)
  then have "do_one_file env data s fname k = Some (0, k2)"
    using k1(1) j small_word_facts(2) [of j] k2(1) by (simp add: do_one_file_def)
  then show ?thesis using prints_after_silent [OF k1(2) k2(2)] by blast
qed

lemma found_lines: "concat (map (found_line pat name) ls) =
    concat (map (\<lambda>l. name @ ascii '':'' @ l @ ascii newline) (filter (\<lambda>l. pat \<noteq> [] \<and> sublist pat l) ls))"
  by (induction ls) (simp_all add: found_line_def)

section \<open>Properties\<close>

text \<open>
  C7. \<^verbatim>\<open>grep\<close> of a text file that fits its buffer prints, with the name of the file in front,
  exactly the lines that have the pattern in them, in order; the last line may end without a
  newline. An empty pattern is found nowhere.
\<close>

theorem grep_prints_matches:
  assumes "\<forall>i<1025. in_user_page (data + word_of_nat i)" and "grep_ready env data s fname pat name k"
    and "lookup_name k name = Some d" "filetype d = 2" "free_fd k \<noteq> None"
    and "file_ok (FILESYSLOC k) (vmem k) (inodeNumber d)"
    and "file_contents (FILESYSLOC k) (vmem k) (inodeNumber d) = file_text ls @ tail"
    and "list_all plain_line (ls @ [tail])" "length (file_text ls @ tail) \<le> 1024"
  shows "\<exists>k'. do_one_file env data s fname k = Some (0, k') \<and> prints env (in_range data 1025) k
    (concat (map (\<lambda>l. name @ ascii '':'' @ l @ ascii newline) (filter (\<lambda>l. pat \<noteq> [] \<and> sublist pat l) (ls @ [tail])))) k'"
proof -
  obtain j where j: "free_fd k = Some j" using assms(5) by auto
  show ?thesis
    unfolding found_lines [symmetric]
    by (rule do_one_file_prints [OF _ assms(2-4) j assms(6) assms(7) [symmetric] _ _ assms(9)]) (use assms(1,8) in simp_all)
qed

lemma grep_prints_matches_witness:
  "\<exists>k'. do_one_file (program_env ['':'', newline, ''ell'', ''frame0'']) 0x8000000 0x8100200 0x8100300
      (program_kernel ['':'', newline, ''ell'', ''frame0''] [] []) = Some (0, k') \<and>
    fore_console k' = fold con_putc (ascii (''frame0:Hello'' @ newline)) (fore_console (program_kernel ['':'', newline, ''ell'', ''frame0''] [] []))"
proof -
  let ?l = "['':'', newline, ''ell'', ''frame0'']"
  let ?k = "program_kernel ?l [] []" and ?e = "program_env ?l"
  have lit: "literals_ok ?e (in_range 0x8000000 1025) ?k (set ?l)"
    by (rule program_literals) (simp_all add: ascii_def newline_def)
  have at: "u_lit ?e ''ell'' = 0x8100200" "u_lit ?e ''frame0'' = 0x8100300"
    by (simp_all add: program_env_def literal_index_def newline_def)
  have "grep_ready ?e 0x8000000 0x8100200 0x8100300 (ascii ''ell'') (ascii ''frame0'') ?k"
    using lit program_kernel_ok at unfolding grep_ready_def literals_ok_def by (simp add: ascii_def)
  have page: "\<forall>i<1025. in_user_page (0x8000000 + word_of_nat i)" using program_page [of 1025] by simp
  obtain d where d: "lookup_name ?k (ascii ''frame0'') = Some d" "filetype d = 2" "inodeNumber d = 0"
    using sample_lookup(3) by (auto simp: program_lookup)
  note same = same_image_file_contents [OF program_image(2) [of ?l "[]" "[]"] sample_file_ok]
  have fl: "file_ok (FILESYSLOC ?k) (vmem ?k) (inodeNumber d)"
    "file_contents (FILESYSLOC ?k) (vmem ?k) (inodeNumber d) = file_text [] @ ascii ''Hello''"
    using same sample_contents by (simp_all add: d(3) program_image(1) file_text_simps) (simp add: ascii_def)
  have plain: "list_all plain_line ([] @ [ascii ''Hello''])" by (simp add: plain_line_def ascii_def)
  have sub: "sublist (ascii ''ell'') (ascii ''Hello'')"
    unfolding sublist_def by (rule exI [of _ "ascii ''H''"], rule exI [of _ "ascii ''o''"]) (simp add: ascii_def)
  have "\<exists>k'. do_one_file ?e 0x8000000 0x8100200 0x8100300 ?k = Some (0, k') \<and> prints ?e (in_range 0x8000000 1025) ?k
      (concat (map (\<lambda>l. ascii ''frame0'' @ ascii '':'' @ l @ ascii newline) (filter (\<lambda>l. ascii ''ell'' \<noteq> [] \<and> sublist (ascii ''ell'') l) ([] @ [ascii ''Hello''])))) k'"
    by (rule grep_prints_matches [OF page \<open>grep_ready _ _ _ _ _ _ _\<close> d(1,2) _ fl plain]) (simp_all add: program_free_fd file_text_simps)
  moreover have "ascii ''frame0'' @ ascii '':'' @ ascii ''Hello'' @ ascii newline = ascii (''frame0:Hello'' @ newline)" by (simp add: ascii_def)
  moreover have "ascii ''ell'' \<noteq> []" by (simp add: ascii_def)
  ultimately show ?thesis using sub by (auto simp: prints_def)
qed

end
