(* ===== verification/Blink.thy ===== *)
theory Blink
  imports Kernel_State
begin

text \<open>
  The blinking characters of \<^verbatim>\<open>fish\<close>: the allocator of \<^verbatim>\<open>fish/fish.c\<close> and the linked list of
  \<^verbatim>\<open>fish/blink.S\<close>. The structures live in the array \<^verbatim>\<open>blink_array\<close>, so a pointer to one is its
  index there and \<open>None\<close> is \<^verbatim>\<open>NULL\<close>. A function that follows the links is partial: on a list
  that is a cycle it never returns.
\<close>

unbundle bit_operations_syntax

section \<open>Definitions\<close>

record mp1_blink_struct =
  location :: u16
  on_char :: u8
  off_char :: u8
  on_length :: u16
  off_length :: u16
  countdown :: u16
  status :: u16
  next_struct :: "nat option"

definition zero_struct :: mp1_blink_struct where
  "zero_struct = \<lparr>location = 0, on_char = 0, off_char = 0, on_length = 0, off_length = 0, countdown = 0, status = 0,
     next_struct = None\<rparr>"

text \<open>The memory \<open>blink_mem\<close> is that of the program; the page of the screen is at \<^verbatim>\<open>vmem_base_addr\<close>.\<close>

record blink =
  blink_array :: "mp1_blink_struct list"
  mp1_list_head :: "nat option"
  vmem_base_addr :: addr
  blink_mem :: mem

definition upd_struct :: "nat \<Rightarrow> (mp1_blink_struct \<Rightarrow> mp1_blink_struct) \<Rightarrow> blink \<Rightarrow> blink" where
  "upd_struct i f b = b\<lparr>blink_array := (blink_array b)[i := f (blink_array b ! i)]\<rparr>"

definition mp1_malloc :: "blink \<Rightarrow> nat option" where
  "mp1_malloc b = find (\<lambda>i. location (blink_array b ! i) = 0) [0..<80 * 25]"

definition mp1_free :: "nat \<Rightarrow> blink \<Rightarrow> blink" where
  "mp1_free i b = upd_struct i (\<lambda>_. zero_struct) b"

definition mp1_poke :: "u8 \<Rightarrow> u32 \<Rightarrow> blink \<Rightarrow> blink" where
  "mp1_poke cl eax b = b\<lparr>blink_mem := (blink_mem b)(vmem_base_addr b + eax := cl)\<rparr>"

partial_function (option) find_loop :: "blink \<Rightarrow> u16 \<Rightarrow> nat option \<Rightarrow> nat option option" where
  "find_loop b ax ebx = (case ebx of None \<Rightarrow> Some None
     | Some i \<Rightarrow> if location (blink_array b ! i) = ax then Some (Some i)
         else find_loop b ax (next_struct (blink_array b ! i)))"

definition mp1_find_helper :: "u16 \<Rightarrow> blink \<Rightarrow> nat option option" where
  "mp1_find_helper ax b = find_loop b ax (mp1_list_head b)"

text \<open>The interrupt of the clock: every structure counts down and blinks when it is done.\<close>

definition blink_one :: "nat \<Rightarrow> blink \<Rightarrow> blink" where
  "blink_one i b =
     (let b = upd_struct i (countdown_update (\<lambda>c. c - 1)) b;
          s = blink_array b ! i
      in if 0 <s countdown s then b
         else if status s AND 1 \<noteq> 0
         then upd_struct i (\<lambda>s. s\<lparr>countdown := off_length s, status := status s XOR 1\<rparr>)
                (mp1_poke (off_char s) (push_bit 1 (ucast (location s))) b)
         else upd_struct i (\<lambda>s. s\<lparr>countdown := on_length s, status := status s XOR 1\<rparr>)
                (mp1_poke (on_char s) (push_bit 1 (ucast (location s))) b))"

partial_function (option) tasklet_loop :: "nat option \<Rightarrow> blink \<Rightarrow> blink option" where
  "tasklet_loop ebx b = (case ebx of None \<Rightarrow> Some b
     | Some i \<Rightarrow> let b = blink_one i b in tasklet_loop (next_struct (blink_array b ! i)) b)"

definition mp1_rtc_tasklet :: "blink \<Rightarrow> blink option" where
  "mp1_rtc_tasklet b = tasklet_loop (mp1_list_head b) b"

text \<open>The argument is a copy of the structure of the caller.\<close>

definition mp1_ioctl_add :: "mp1_blink_struct \<Rightarrow> blink \<Rightarrow> i32 \<times> blink" where
  "mp1_ioctl_add s b =
     (if 80 * 25 \<le> location s then (- 1, b)
      else let s = s\<lparr>status := 1, countdown := on_length s\<rparr> in
        case mp1_malloc b of None \<Rightarrow> (- 1, b)
        | Some i \<Rightarrow>
            (let b = upd_struct i (\<lambda>_. s) b;
                 b = upd_struct i (next_struct_update (\<lambda>_. mp1_list_head b)) b;
                 b = b\<lparr>mp1_list_head := Some i\<rparr>;
                 s = blink_array b ! i
             in (0, mp1_poke (on_char s) (push_bit 1 (ucast (location s))) b)))"

text \<open>
  A pointer to a link: \<open>None\<close> is the head of the list, \<open>Some i\<close> the link of the structure \<open>i\<close>.
  The search for the link that leads to \<open>i\<close> ends with a fault when there is none.
\<close>

definition link :: "nat option \<Rightarrow> blink \<Rightarrow> nat option" where
  "link p b = (case p of None \<Rightarrow> mp1_list_head b | Some i \<Rightarrow> next_struct (blink_array b ! i))"

definition set_link :: "nat option \<Rightarrow> nat option \<Rightarrow> blink \<Rightarrow> blink" where
  "set_link p q b = (case p of None \<Rightarrow> b\<lparr>mp1_list_head := q\<rparr> | Some i \<Rightarrow> upd_struct i (next_struct_update (\<lambda>_. q)) b)"

partial_function (option) remove_find_prev :: "blink \<Rightarrow> nat \<Rightarrow> nat option \<Rightarrow> nat option option" where
  "remove_find_prev b i p = (if link p b = Some i then Some p
     else case link p b of None \<Rightarrow> None | Some j \<Rightarrow> remove_find_prev b i (Some j))"

definition mp1_ioctl_remove :: "u32 \<Rightarrow> blink \<Rightarrow> (i32 \<times> blink) option" where
  "mp1_ioctl_remove arg b = do {
     r \<leftarrow> mp1_find_helper (ucast arg) b;
     (case r of None \<Rightarrow> Some (- 1, b)
      | Some i \<Rightarrow> do {
          p \<leftarrow> remove_find_prev b i None;
          Some (0, mp1_free i (set_link p (next_struct (blink_array b ! i)) b)) }) }"

text \<open>
  \<^verbatim>\<open>cmovl\<close> tests the sign flag of \<^verbatim>\<open>testb $0x1\<close>, bit 7 of the result, against the overflow flag,
  which is clear.
\<close>

definition mp1_ioctl_sync :: "u32 \<Rightarrow> blink \<Rightarrow> (i32 \<times> blink) option" where
  "mp1_ioctl_sync arg b = do {
     r \<leftarrow> mp1_find_helper (ucast (drop_bit 16 arg)) b;
     (case r of None \<Rightarrow> Some (- 1, b)
      | Some i \<Rightarrow> do {
          r \<leftarrow> mp1_find_helper (ucast (arg AND 0xFFFF)) b;
          (case r of None \<Rightarrow> Some (- 1, b)
           | Some j \<Rightarrow>
              (let s = blink_array b ! i;
                   b = upd_struct j (\<lambda>t. t\<lparr>on_length := on_length s, off_length := off_length s,
                         countdown := countdown s, status := status s\<rparr>) b;
                   t = blink_array b ! j;
                   less = bit (ucast (status t) AND 1 :: u8) 7
               in Some (0, mp1_poke (if less then on_char t else off_char t) (push_bit 1 (ucast (location t))) b))) }) }"

definition mp1_ioctl_find :: "u16 \<Rightarrow> blink \<Rightarrow> (i32 \<times> mp1_blink_struct option) option" where
  "mp1_ioctl_find loc b = map_option (\<lambda>r. case r of None \<Rightarrow> (- 1, None) | Some i \<Rightarrow> (0, Some (blink_array b ! i)))
     (mp1_find_helper loc b)"

text \<open>
  The jump table; the argument is a pointer to a structure or a number, depending on the request.
  The answer is the return value, what is copied to the caller, and the state.
\<close>

datatype request = RTC_ADD mp1_blink_struct | RTC_REMOVE u32 | RTC_FIND u16 | RTC_SYNC u32

primrec mp1_ioctl :: "request \<Rightarrow> blink \<Rightarrow> (i32 \<times> mp1_blink_struct option \<times> blink) option" where
  "mp1_ioctl (RTC_ADD s) b = (case mp1_ioctl_add s b of (r, b) \<Rightarrow> Some (r, None, b))"
| "mp1_ioctl (RTC_REMOVE arg) b = map_option (\<lambda>(r, b). (r, None, b)) (mp1_ioctl_remove arg b)"
| "mp1_ioctl (RTC_FIND loc) b = map_option (\<lambda>(r, s). (r, s, b)) (mp1_ioctl_find loc b)"
| "mp1_ioctl (RTC_SYNC arg) b = map_option (\<lambda>(r, b). (r, None, b)) (mp1_ioctl_sync arg b)"

section \<open>What the list promises\<close>

text \<open>
  The specification has a list of structures without links, the newest first, and the memory with
  the screen at \<open>base\<close>.
\<close>

definition unlink :: "mp1_blink_struct \<Rightarrow> mp1_blink_struct" where
  "unlink s = s\<lparr>next_struct := None\<rparr>"

definition poke_at :: "addr \<Rightarrow> u8 \<Rightarrow> u16 \<Rightarrow> mem \<Rightarrow> mem" where
  "poke_at base c loc m = m(base + push_bit 1 (ucast loc) := c)"

primrec remove_first :: "('a \<Rightarrow> bool) \<Rightarrow> 'a list \<Rightarrow> 'a list" where
  "remove_first P [] = []"
| "remove_first P (x # xs) = (if P x then xs else x # remove_first P xs)"

primrec update_first :: "('a \<Rightarrow> bool) \<Rightarrow> ('a \<Rightarrow> 'a) \<Rightarrow> 'a list \<Rightarrow> 'a list" where
  "update_first P f [] = []"
| "update_first P f (x # xs) = (if P x then f x # xs else x # update_first P f xs)"

definition at_loc :: "u16 \<Rightarrow> mp1_blink_struct \<Rightarrow> bool" where
  "at_loc loc s \<longleftrightarrow> location s = loc"

definition started :: "mp1_blink_struct \<Rightarrow> mp1_blink_struct" where
  "started s = unlink (s\<lparr>status := 1, countdown := on_length s\<rparr>)"

definition copy_phase :: "mp1_blink_struct \<Rightarrow> mp1_blink_struct \<Rightarrow> mp1_blink_struct" where
  "copy_phase s t = t\<lparr>on_length := on_length s, off_length := off_length s, countdown := countdown s, status := status s\<rparr>"

primrec spec_ioctl :: "addr \<Rightarrow> request \<Rightarrow> mp1_blink_struct list \<times> mem \<Rightarrow>
    i32 \<times> mp1_blink_struct option \<times> mp1_blink_struct list \<times> mem" where
  "spec_ioctl base (RTC_ADD s) bm = (case bm of (bs, m) \<Rightarrow>
     if 2000 \<le> unat (location s) \<or> 2000 \<le> length bs then (- 1, None, bs, m)
     else (0, None, started s # bs, poke_at base (on_char s) (location s) m))"
| "spec_ioctl base (RTC_REMOVE a) bm = (case bm of (bs, m) \<Rightarrow>
     if find (at_loc (ucast a)) bs = None then (- 1, None, bs, m)
     else (0, None, remove_first (at_loc (ucast a)) bs, m))"
| "spec_ioctl base (RTC_FIND loc) bm = (case bm of (bs, m) \<Rightarrow>
     (if find (at_loc loc) bs = None then - 1 else 0, find (at_loc loc) bs, bs, m))"
| "spec_ioctl base (RTC_SYNC a) bm = (case bm of (bs, m) \<Rightarrow>
     (case (find (at_loc (ucast (drop_bit 16 a))) bs, find (at_loc (ucast a)) bs) of
        (Some s, Some t) \<Rightarrow> (0, None, update_first (at_loc (ucast a)) (copy_phase s) bs, poke_at base (off_char t) (location t) m)
      | _ \<Rightarrow> (- 1, None, bs, m)))"

definition due :: "mp1_blink_struct \<Rightarrow> bool" where
  "due s \<longleftrightarrow> \<not> 0 <s countdown s - 1"

definition tick :: "mp1_blink_struct \<Rightarrow> mp1_blink_struct" where
  "tick s = (if due s then s\<lparr>countdown := (if status s AND 1 \<noteq> 0 then off_length s else on_length s), status := status s XOR 1\<rparr>
     else s\<lparr>countdown := countdown s - 1\<rparr>)"

definition tick_poke :: "addr \<Rightarrow> mp1_blink_struct \<Rightarrow> mem \<Rightarrow> mem" where
  "tick_poke base s m = (if due s then poke_at base (if status s AND 1 \<noteq> 0 then off_char s else on_char s) (location s) m else m)"

definition spec_tick :: "addr \<Rightarrow> mp1_blink_struct list \<times> mem \<Rightarrow> mp1_blink_struct list \<times> mem" where
  "spec_tick base bm = (map tick (fst bm), fold (tick_poke base) (fst bm) (snd bm))"

text \<open>The links lead through the indices \<open>js\<close>, and exactly these structures are in use.\<close>

primrec linked :: "mp1_blink_struct list \<Rightarrow> nat option \<Rightarrow> nat list \<Rightarrow> bool" where
  "linked A p [] = (p = None)"
| "linked A p (i # js) = (p = Some i \<and> linked A (next_struct (A ! i)) js)"

definition chain :: "blink \<Rightarrow> nat list \<Rightarrow> bool" where
  "chain b js \<longleftrightarrow> length (blink_array b) = 2000 \<and> linked (blink_array b) (mp1_list_head b) js \<and> distinct js \<and>
     (\<forall>i\<in>set js. i < 2000) \<and> (\<forall>i<2000. location (blink_array b ! i) \<noteq> 0 \<longleftrightarrow> i \<in> set js) \<and>
     (\<forall>i\<in>set js. unat (location (blink_array b ! i)) < 2000)"

definition holds :: "blink \<Rightarrow> mp1_blink_struct list \<times> mem \<Rightarrow> bool" where
  "holds b bm \<longleftrightarrow> (\<exists>js. chain b js \<and> bm = (map (\<lambda>i. unlink (blink_array b ! i)) js, blink_mem b))"

section \<open>Following the links\<close>

lemma linked_cong: "(\<And>i. i \<in> set js \<Longrightarrow> next_struct (A' ! i) = next_struct (A ! i)) \<Longrightarrow> linked A' p js = linked A p js"
  by (induction js arbitrary: p) auto

lemma find_loop_linked: "linked (blink_array b) p js \<Longrightarrow> find_loop b ax p = Some (find (\<lambda>i. location (blink_array b ! i) = ax) js)"
  by (induction js arbitrary: p) (auto simp: find_loop.simps)

lemma find_map: "find P (map f js) = map_option f (find (\<lambda>i. P (f i)) js)"
  by (induction js) auto

lemma find_mem: "find P js = Some i \<Longrightarrow> i \<in> set js \<and> P i"
  by (auto simp: find_Some_iff)

lemma remove_first_map:
  "find (\<lambda>i. P (f i)) js = Some i \<Longrightarrow> distinct js \<Longrightarrow> remove_first P (map f js) = map f (remove1 i js)"
  by (induction js) (auto split: if_splits dest: find_mem)

lemma update_first_map:
  "find (\<lambda>i. P (f i)) js = Some i \<Longrightarrow> distinct js \<Longrightarrow> (\<And>j. j \<in> set js \<Longrightarrow> g j = (if j = i then h (f i) else f j)) \<Longrightarrow>
   update_first P h (map f js) = map g js"
  by (induction js) (auto split: if_splits dest: find_mem)

lemma unlink_fields [simp]:
  "location (unlink s) = location s" "on_char (unlink s) = on_char s" "off_char (unlink s) = off_char s"
  "on_length (unlink s) = on_length s" "off_length (unlink s) = off_length s" "countdown (unlink s) = countdown s"
  "status (unlink s) = status s" "next_struct (unlink s) = None"
  by (simp_all add: unlink_def)

lemma find_helper_chain:
  "chain b js \<Longrightarrow> mp1_find_helper ax b = Some (find (\<lambda>i. location (blink_array b ! i) = ax) js)"
  by (simp add: chain_def mp1_find_helper_def find_loop_linked)

lemma upd_struct_fields [simp]:
  "length (blink_array (upd_struct i f b)) = length (blink_array b)" "mp1_list_head (upd_struct i f b) = mp1_list_head b"
  "blink_mem (upd_struct i f b) = blink_mem b" "vmem_base_addr (upd_struct i f b) = vmem_base_addr b"
  by (simp_all add: upd_struct_def)

lemma upd_struct_nth: "i < length (blink_array b) \<Longrightarrow>
    blink_array (upd_struct i f b) ! j = (if j = i then f (blink_array b ! i) else blink_array b ! j)"
  by (simp add: upd_struct_def)

lemma poke_fields [simp]:
  "blink_array (mp1_poke c o' b) = blink_array b" "mp1_list_head (mp1_poke c o' b) = mp1_list_head b"
  "vmem_base_addr (mp1_poke c o' b) = vmem_base_addr b"
  by (simp_all add: mp1_poke_def)

lemma poke_mem: "blink_mem (mp1_poke c (push_bit 1 (ucast loc)) b) = poke_at (vmem_base_addr b) c loc (blink_mem b)"
  by (simp add: mp1_poke_def poke_at_def)

section \<open>The requests\<close>

lemma malloc_chain:
  assumes "chain b js"
  shows "mp1_malloc b = None \<longleftrightarrow> 2000 \<le> length js" "mp1_malloc b = Some i \<Longrightarrow> i < 2000 \<and> i \<notin> set js"
proof -
  have js: "distinct js" "set js \<subseteq> {..<2000}" and used: "\<And>i. i < 2000 \<Longrightarrow> location (blink_array b ! i) \<noteq> 0 \<longleftrightarrow> i \<in> set js"
    using assms by (auto simp: chain_def)
  have "mp1_malloc b = None \<longleftrightarrow> set js = {..<2000}"
    using used js(2) by (auto simp: mp1_malloc_def find_None_iff)
  also have "\<dots> \<longleftrightarrow> 2000 \<le> card (set js)"
    using card_seteq [of "{..<2000 :: nat}" "set js"] js(2) by auto
  finally show "mp1_malloc b = None \<longleftrightarrow> 2000 \<le> length js" using distinct_card [OF js(1)] by simp
  show "mp1_malloc b = Some i \<Longrightarrow> i < 2000 \<and> i \<notin> set js"
    using used [of i] find_mem [of _ "[0..<80 * 25]" i] unfolding mp1_malloc_def by auto
qed

lemma add_holds:
  assumes "holds b (bs, m)" and "location s \<noteq> 0"
  shows "\<exists>b'. mp1_ioctl (RTC_ADD s) b = Some (fst (spec_ioctl (vmem_base_addr b) (RTC_ADD s) (bs, m)), None, b') \<and>
    holds b' (snd (snd (spec_ioctl (vmem_base_addr b) (RTC_ADD s) (bs, m)))) \<and> vmem_base_addr b' = vmem_base_addr b"
proof -
  obtain js where js: "chain b js" and bs: "bs = map (\<lambda>i. unlink (blink_array b ! i)) js" "m = blink_mem b"
    using assms(1) by (auto simp: holds_def)
  have len: "length (blink_array b) = 2000" using js by (simp add: chain_def)
  have big: "80 * 25 \<le> location s \<longleftrightarrow> 2000 \<le> unat (location s)" by (simp add: word_le_unat)
  show ?thesis
  proof (cases "2000 \<le> unat (location s) \<or> 2000 \<le> length bs")
    case True
    then have "mp1_ioctl_add s b = (- 1, b)" using malloc_chain(1) [OF js] big bs by (auto simp: mp1_ioctl_add_def Let_def)
    then show ?thesis using True assms(1) by simp
  next
    case False
    then obtain i where i: "mp1_malloc b = Some i" using malloc_chain(1) [OF js] bs by fastforce
    note i2 = malloc_chain(2) [OF js i]
    let ?s = "s\<lparr>status := 1, countdown := on_length s, next_struct := mp1_list_head b\<rparr>"
    let ?b = "mp1_poke (on_char s) (push_bit 1 (ucast (location s)))
       (b\<lparr>blink_array := (blink_array b)[i := ?s], mp1_list_head := Some i\<rparr>)"
    have add: "mp1_ioctl_add s b = (0, ?b)"
      using False i i2 len big by (simp add: mp1_ioctl_add_def upd_struct_def Let_def)
    have new: "blink_array ?b ! j = (if j = i then ?s else blink_array b ! j)" for j using i2 len by simp
    have "next_struct (blink_array ?b ! j) = next_struct (blink_array b ! j)" if "j \<in> set js" for j using i2 that new [of j] by auto
    then have "linked (blink_array ?b) (mp1_list_head b) js" using js linked_cong [of js "blink_array ?b" "blink_array b"] by (simp add: chain_def)
    then have "chain ?b (i # js)" using js i2 assms(2) False len by (auto simp: chain_def nth_list_update)
    moreover have "map (\<lambda>j. unlink (blink_array ?b ! j)) (i # js) = started s # bs"
      using i2 len by (auto simp: bs started_def unlink_def nth_list_update)
    moreover have "blink_mem ?b = poke_at (vmem_base_addr b) (on_char s) (location s) m" unfolding poke_mem by (simp add: bs)
    ultimately have "holds ?b (started s # bs, poke_at (vmem_base_addr b) (on_char s) (location s) m)"
      unfolding holds_def by (intro exI [of _ "i # js"]) simp
    then show ?thesis using False add by auto
  qed
qed

lemma find_holds:
  assumes "holds b (bs, m)"
  shows "\<exists>r. mp1_ioctl_find loc b = Some (if find (at_loc loc) bs = None then - 1 else 0, r) \<and> map_option unlink r = find (at_loc loc) bs"
proof -
  obtain js where js: "chain b js" and bs: "bs = map (\<lambda>i. unlink (blink_array b ! i)) js" using assms by (auto simp: holds_def)
  let ?f = "find (\<lambda>i. location (blink_array b ! i) = loc) js"
  have "find (at_loc loc) bs = map_option (\<lambda>i. unlink (blink_array b ! i)) ?f" by (simp add: bs find_map at_loc_def)
  then show ?thesis by (cases ?f) (simp_all add: mp1_ioctl_find_def find_helper_chain [OF js])
qed

text \<open>Taking a structure out of the list.\<close>

lemma link_set [simp]: "(\<forall>j. p = Some j \<longrightarrow> j < length (blink_array b)) \<Longrightarrow> link p (set_link p q b) = q"
  by (cases p) (simp_all add: link_def set_link_def upd_struct_def)

lemma set_link_nth:
  "j < length (blink_array b) \<Longrightarrow> blink_array (set_link p q b) ! j = (if p = Some j then (blink_array b ! j)\<lparr>next_struct := q\<rparr> else blink_array b ! j)"
  by (cases p) (auto simp: set_link_def upd_struct_def nth_list_update)

lemma remove_prev:
  assumes "linked (blink_array b) (link p b) js" and "distinct js" and "i \<in> set js" and "\<forall>j\<in>set js. j < length (blink_array b)"
    and "\<forall>j. p = Some j \<longrightarrow> j < length (blink_array b) \<and> j \<notin> set js"
  shows "\<exists>p'. remove_find_prev b i p = Some p' \<and> (p' = p \<or> (\<exists>j\<in>set js. p' = Some j)) \<and>
    linked (blink_array (set_link p' (next_struct (blink_array b ! i)) b)) (link p (set_link p' (next_struct (blink_array b ! i)) b)) (remove1 i js)"
  using assms
proof (induction js arbitrary: p)
  case (Cons j js)
  have link: "link p b = Some j" and next_j: "linked (blink_array b) (next_struct (blink_array b ! j)) js"
    using Cons.prems(1) by simp_all
  show ?case
  proof (cases "j = i")
    case True
    let ?b = "set_link p (next_struct (blink_array b ! i)) b"
    have "p \<noteq> Some k" if "k \<in> set js" for k using Cons.prems(5) that by auto
    then have "linked (blink_array ?b) (next_struct (blink_array b ! i)) js"
      using next_j True Cons.prems(4) linked_cong [of js "blink_array ?b" "blink_array b"] by (simp add: set_link_nth)
    moreover have "link p ?b = next_struct (blink_array b ! i)" using Cons.prems(5) by simp
    ultimately show ?thesis using link True by (subst remove_find_prev.simps) simp
  next
    case False
    have next_link: "link (Some j) b = next_struct (blink_array b ! j)" by (simp add: link_def)
    have "\<exists>p'. remove_find_prev b i (Some j) = Some p' \<and> (p' = Some j \<or> (\<exists>k\<in>set js. p' = Some k)) \<and>
        linked (blink_array (set_link p' (next_struct (blink_array b ! i)) b)) (link (Some j) (set_link p' (next_struct (blink_array b ! i)) b)) (remove1 i js)"
      using Cons.prems(2-4) False next_j by (intro Cons.IH) (auto simp: next_link)
    then obtain p' where p': "remove_find_prev b i (Some j) = Some p'" "p' = Some j \<or> (\<exists>k\<in>set js. p' = Some k)"
      "linked (blink_array (set_link p' (next_struct (blink_array b ! i)) b)) (link (Some j) (set_link p' (next_struct (blink_array b ! i)) b)) (remove1 i js)"
      by blast
    let ?b = "set_link p' (next_struct (blink_array b ! i)) b"
    have "p' \<noteq> p" "p' \<noteq> None" using p'(2) Cons.prems(5) by auto
    then have "link p ?b = Some j" using link Cons.prems(5)
      by (cases p) (auto simp: link_def set_link_nth, simp add: set_link_def split: option.split)
    moreover have "link (Some j) ?b = next_struct (blink_array ?b ! j)" by (simp add: link_def)
    moreover have "remove_find_prev b i p = Some p'" using link False p'(1) by (subst remove_find_prev.simps) simp
    ultimately show ?thesis using p'(2,3) False by (intro exI [of _ p']) auto
  qed
qed simp

lemma set_link_fields [simp]:
  "length (blink_array (set_link p q b)) = length (blink_array b)" "blink_mem (set_link p q b) = blink_mem b"
  "vmem_base_addr (set_link p q b) = vmem_base_addr b"
  by (cases p; simp add: set_link_def)+

lemma remove_holds:
  assumes "holds b (bs, m)"
  shows "\<exists>b'. mp1_ioctl (RTC_REMOVE a) b = Some (fst (spec_ioctl base (RTC_REMOVE a) (bs, m)), None, b') \<and>
    holds b' (snd (snd (spec_ioctl base (RTC_REMOVE a) (bs, m)))) \<and> vmem_base_addr b' = vmem_base_addr b"
proof -
  obtain js where js: "chain b js" and bs: "bs = map (\<lambda>i. unlink (blink_array b ! i)) js" "m = blink_mem b"
    using assms(1) by (auto simp: holds_def)
  let ?f = "find (\<lambda>i. location (blink_array b ! i) = ucast a) js"
  have found: "find (at_loc (ucast a)) bs = map_option (\<lambda>i. unlink (blink_array b ! i)) ?f" by (simp add: bs find_map at_loc_def)
  show ?thesis
  proof (cases ?f)
    case None
    then show ?thesis using assms found by (simp add: mp1_ioctl_remove_def find_helper_chain [OF js])
  next
    case (Some i)
    have i: "i \<in> set js" "i < 2000" using find_mem [OF Some] js by (auto simp: chain_def)
    have len: "length (blink_array b) = 2000" and dist: "distinct js" using js by (simp_all add: chain_def)
    let ?q = "next_struct (blink_array b ! i)"
    obtain p where p: "remove_find_prev b i None = Some p" "p = None \<or> (\<exists>j\<in>set js. p = Some j)"
      "linked (blink_array (set_link p ?q b)) (link None (set_link p ?q b)) (remove1 i js)"
      using remove_prev [of b None js i] js i(1) by (auto simp: chain_def link_def)
    let ?b = "mp1_free i (set_link p ?q b)"
    have at: "blink_array ?b ! j = (if j = i then zero_struct else if p = Some j then (blink_array b ! j)\<lparr>next_struct := ?q\<rparr> else blink_array b ! j)"
      if "j < 2000" for j using i(2) len that by (simp add: mp1_free_def upd_struct_nth set_link_nth)
    have rest: "j \<in> set js \<and> j \<noteq> i" if "j \<in> set (remove1 i js)" for j using that dist by (auto simp: set_remove1_eq)
    have "next_struct (blink_array ?b ! j) = next_struct (blink_array (set_link p ?q b) ! j)" if "j \<in> set (remove1 i js)" for j
      using rest [OF that] i(2) len by (simp add: mp1_free_def upd_struct_nth)
    then have "linked (blink_array ?b) (mp1_list_head ?b) (remove1 i js)"
      using p(3) linked_cong [of "remove1 i js" "blink_array ?b" "blink_array (set_link p ?q b)"]
      by (simp add: mp1_free_def link_def)
    moreover have "length (blink_array ?b) = 2000" using len by (simp add: mp1_free_def)
    moreover have "location (blink_array ?b ! j) \<noteq> 0 \<longleftrightarrow> j \<in> set (remove1 i js)" if "j < 2000" for j
      using at [OF that] js that dist by (auto simp: chain_def set_remove1_eq zero_struct_def)
    moreover have "j < 2000 \<and> unat (location (blink_array ?b ! j)) < 2000" if "j \<in> set (remove1 i js)" for j
      using rest [OF that] js at by (auto simp: chain_def)
    ultimately have chain: "chain ?b (remove1 i js)" using dist by (auto simp: chain_def)
    have same: "unlink (blink_array ?b ! j) = unlink (blink_array b ! j)" if "j \<in> set (remove1 i js)" for j
      using rest [OF that] js at [of j] by (auto simp: chain_def unlink_def)
    have "remove_first (at_loc (ucast a)) bs = map (\<lambda>i. unlink (blink_array b ! i)) (remove1 i js)"
      unfolding bs using Some dist by (intro remove_first_map) (simp_all add: at_loc_def)
    then have "holds ?b (remove_first (at_loc (ucast a)) bs, m)"
      unfolding holds_def using chain same by (intro exI [of _ "remove1 i js"]) (simp add: bs mp1_free_def)
    moreover have "mp1_ioctl_remove a b = Some (0, ?b)" using Some p(1) by (simp add: mp1_ioctl_remove_def find_helper_chain [OF js])
    ultimately show ?thesis using found Some by (simp add: mp1_free_def)
  qed
qed

lemma testb_sign: "\<not> bit (x AND 1 :: u8) 7"
  by (simp add: bit_simps)

lemma low_half_cast: "(ucast (a AND 0xFFFF :: u32) :: u16) = ucast a"
proof -
  have "a AND 0xFFFF = take_bit 16 a" by (simp add: take_bit_eq_mask mask_eq_exp_minus_1)
  show ?thesis unfolding \<open>a AND 0xFFFF = take_bit 16 a\<close> by (intro bit_word_eqI) (simp add: bit_simps)
qed

text \<open>Changing what is not a link or a location keeps the chain.\<close>

lemma chain_update:
  assumes "chain b js" and "length (blink_array b') = 2000" and "mp1_list_head b' = mp1_list_head b"
    and "\<And>i. i < 2000 \<Longrightarrow> location (blink_array b' ! i) = location (blink_array b ! i) \<and>
      next_struct (blink_array b' ! i) = next_struct (blink_array b ! i)"
  shows "chain b' js"
  using assms linked_cong [of js "blink_array b'" "blink_array b"] by (simp add: chain_def)

lemma sync_holds:
  assumes "holds b (bs, m)"
  shows "\<exists>b'. mp1_ioctl (RTC_SYNC a) b = Some (fst (spec_ioctl (vmem_base_addr b) (RTC_SYNC a) (bs, m)), None, b') \<and>
    holds b' (snd (snd (spec_ioctl (vmem_base_addr b) (RTC_SYNC a) (bs, m)))) \<and> vmem_base_addr b' = vmem_base_addr b"
proof -
  obtain js where js: "chain b js" and bs: "bs = map (\<lambda>i. unlink (blink_array b ! i)) js" "m = blink_mem b"
    using assms(1) by (auto simp: holds_def)
  let ?hi = "ucast (drop_bit 16 a)" and ?lo = "ucast a"
  let ?f = "\<lambda>loc. find (\<lambda>i. location (blink_array b ! i) = loc) js"
  have found: "find (at_loc loc) bs = map_option (\<lambda>i. unlink (blink_array b ! i)) (?f loc)" for loc by (simp add: bs find_map at_loc_def)
  show ?thesis
  proof (cases "?f ?hi = None \<or> ?f ?lo = None")
    case True
    then have "mp1_ioctl_sync a b = Some (- 1, b)"
      by (auto simp: mp1_ioctl_sync_def find_helper_chain [OF js] low_half_cast split: option.split)
    then show ?thesis using True assms found by (auto split: option.split)
  next
    case False
    then obtain i j where ij: "?f ?hi = Some i" "?f ?lo = Some j" by auto
    have j: "j \<in> set js" "j < 2000" and len: "length (blink_array b) = 2000" and dist: "distinct js"
      using find_mem [OF ij(2)] js by (auto simp: chain_def)
    let ?t = "copy_phase (blink_array b ! i) (blink_array b ! j)"
    let ?b = "mp1_poke (off_char ?t) (push_bit 1 (ucast (location ?t))) (upd_struct j (copy_phase (blink_array b ! i)) b)"
    have at: "blink_array (upd_struct j (copy_phase (blink_array b ! i)) b) ! x = (if x = j then ?t else blink_array b ! x)" for x using j(2) len by (simp add: upd_struct_nth)
    have sync: "mp1_ioctl_sync a b = Some (0, ?b)"
      using ij j(2) len by (simp add: mp1_ioctl_sync_def find_helper_chain [OF js] low_half_cast testb_sign copy_phase_def [abs_def]
          upd_struct_nth Let_def)
    have "chain ?b js" by (rule chain_update [OF js]) (simp_all add: at len copy_phase_def)
    moreover have "update_first (at_loc ?lo) (copy_phase (unlink (blink_array b ! i))) bs = map (\<lambda>i. unlink (blink_array ?b ! i)) js"
      unfolding bs by (rule update_first_map [where i = j, OF _ dist])
        (use ij(2) in \<open>simp_all add: at_loc_def at copy_phase_def unlink_def\<close>)
    moreover have "blink_mem ?b = poke_at (vmem_base_addr b) (off_char (blink_array b ! j)) (location (blink_array b ! j)) m"
      unfolding poke_mem by (simp add: bs copy_phase_def)
    ultimately have "holds ?b (update_first (at_loc ?lo) (copy_phase (unlink (blink_array b ! i))) bs,
        poke_at (vmem_base_addr b) (off_char (blink_array b ! j)) (location (blink_array b ! j)) m)"
      unfolding holds_def by (intro exI [of _ js]) simp
    then show ?thesis using sync ij found by simp
  qed
qed

section \<open>The clock\<close>

lemma tick_fields [simp]: "location (tick s) = location s" "next_struct (tick s) = next_struct s"
  by (simp_all add: tick_def)

lemma tick_unlink: "unlink (tick s) = tick (unlink s)" "tick_poke base (unlink s) = tick_poke base s"
  by (simp_all add: tick_def due_def unlink_def tick_poke_def fun_eq_iff)

lemma blink_one_tick:
  assumes "i < length (blink_array b)"
  shows "blink_one i b = b\<lparr>blink_array := (blink_array b)[i := tick (blink_array b ! i)],
    blink_mem := tick_poke (vmem_base_addr b) (blink_array b ! i) (blink_mem b)\<rparr>"
proof -
  have count: "countdown_update (\<lambda>c. c - 1) s = s\<lparr>countdown := countdown s - 1\<rparr>" for s :: mp1_blink_struct by (cases s) simp
  show ?thesis
    using assms by (simp add: count blink_one_def upd_struct_def mp1_poke_def tick_def due_def tick_poke_def poke_at_def Let_def)
qed

lemma tasklet_ticks:
  assumes "linked (blink_array b) p js" and "distinct js" and "\<forall>i\<in>set js. i < length (blink_array b)"
  shows "\<exists>A. tasklet_loop p b = Some (b\<lparr>blink_array := A,
      blink_mem := fold (\<lambda>i. tick_poke (vmem_base_addr b) (blink_array b ! i)) js (blink_mem b)\<rparr>) \<and>
    length A = length (blink_array b) \<and> (\<forall>i. A ! i = (if i \<in> set js then tick (blink_array b ! i) else blink_array b ! i))"
  using assms
proof (induction js arbitrary: b p)
  case Nil
  then show ?case by (intro exI [of _ "blink_array b"]) (simp add: tasklet_loop.simps)
next
  case (Cons i js)
  have i: "p = Some i" "i < length (blink_array b)" "i \<notin> set js" using Cons.prems by simp_all
  let ?b = "blink_one i b"
  note one = blink_one_tick [OF i(2)]
  have at: "blink_array ?b ! j = (if j = i then tick (blink_array b ! i) else blink_array b ! j)" for j using i(2) by (simp add: one)
  have "linked (blink_array ?b) (next_struct (blink_array b ! i)) js"
    using Cons.prems(1) linked_cong [of js "blink_array ?b" "blink_array b"] by (simp add: at)
  from Cons.IH [OF this] obtain A where A: "tasklet_loop (next_struct (blink_array b ! i)) ?b = Some (?b\<lparr>blink_array := A,
      blink_mem := fold (\<lambda>i. tick_poke (vmem_base_addr ?b) (blink_array ?b ! i)) js (blink_mem ?b)\<rparr>)"
    "length A = length (blink_array ?b)" "\<forall>j. A ! j = (if j \<in> set js then tick (blink_array ?b ! j) else blink_array ?b ! j)"
    using Cons.prems(2,3) by (auto simp: one)
  have "fold (\<lambda>i. tick_poke (vmem_base_addr ?b) (blink_array ?b ! i)) js x = fold (\<lambda>i. tick_poke (vmem_base_addr b) (blink_array b ! i)) js x" for x
    using i(3) by (intro fold_cong) (auto simp: at, simp add: one)
  then have "tasklet_loop p b = Some (b\<lparr>blink_array := A,
      blink_mem := fold (\<lambda>i. tick_poke (vmem_base_addr b) (blink_array b ! i)) (i # js) (blink_mem b)\<rparr>)"
    using A(1) i(1) by (subst tasklet_loop.simps) (simp add: at Let_def, simp add: one)
  then show ?case using A(2,3) i(3) by (intro exI [of _ A]) (auto simp: at, simp add: one)
qed

lemma tick_holds:
  assumes "holds b bm"
  shows "\<exists>b'. mp1_rtc_tasklet b = Some b' \<and> holds b' (spec_tick (vmem_base_addr b) bm) \<and> vmem_base_addr b' = vmem_base_addr b"
proof -
  obtain js where js: "chain b js" and bm: "bm = (map (\<lambda>i. unlink (blink_array b ! i)) js, blink_mem b)"
    using assms(1) by (auto simp: holds_def)
  then have facts: "linked (blink_array b) (mp1_list_head b) js" "distinct js" "\<forall>i\<in>set js. i < length (blink_array b)"
    by (simp_all add: chain_def)
  obtain A b' where b': "mp1_rtc_tasklet b = Some b'" "b' = b\<lparr>blink_array := A,
      blink_mem := fold (\<lambda>i. tick_poke (vmem_base_addr b) (blink_array b ! i)) js (blink_mem b)\<rparr>"
    and A: "length A = 2000" "\<forall>i. A ! i = (if i \<in> set js then tick (blink_array b ! i) else blink_array b ! i)"
    using tasklet_ticks [OF facts] js by (auto simp: mp1_rtc_tasklet_def chain_def)
  have "chain b' js" by (rule chain_update [OF js]) (simp_all add: b'(2) A)
  moreover have "fst (spec_tick (vmem_base_addr b) bm) = map (\<lambda>i. unlink (blink_array b' ! i)) js"
    by (simp add: spec_tick_def bm b'(2) A(2) tick_unlink)
  moreover have "fold (tick_poke (vmem_base_addr b)) (map (\<lambda>i. unlink (blink_array b ! i)) js) x =
      fold (\<lambda>i. tick_poke (vmem_base_addr b) (blink_array b ! i)) js x" for x
    by (simp add: fold_map comp_def tick_unlink)
  then have "snd (spec_tick (vmem_base_addr b) bm) = blink_mem b'"
    by (simp add: spec_tick_def bm b'(2))
  ultimately have "holds b' (spec_tick (vmem_base_addr b) bm)" unfolding holds_def by (metis prod.collapse)
  then show ?thesis using b' by auto
qed

section \<open>Sequences\<close>

datatype blink_event = Request request | Clock

definition blink_step :: "blink_event \<Rightarrow> blink \<Rightarrow> (i32 \<times> blink) option" where
  "blink_step e b = (case e of Request r \<Rightarrow> map_option (\<lambda>(r, s, b). (r, b)) (mp1_ioctl r b)
     | Clock \<Rightarrow> map_option (Pair 0) (mp1_rtc_tasklet b))"

primrec blink_run :: "blink_event list \<Rightarrow> blink \<Rightarrow> (i32 list \<times> blink) option" where
  "blink_run [] b = Some ([], b)"
| "blink_run (e # es) b = do {
     (r, b) \<leftarrow> blink_step e b;
     (rs, b) \<leftarrow> blink_run es b;
     Some (r # rs, b) }"

definition spec_step :: "addr \<Rightarrow> blink_event \<Rightarrow> mp1_blink_struct list \<times> mem \<Rightarrow> i32 \<times> mp1_blink_struct list \<times> mem" where
  "spec_step base e bm = (case e of Request r \<Rightarrow> (case spec_ioctl base r bm of (r, s, bm) \<Rightarrow> (r, bm)) | Clock \<Rightarrow> (0, spec_tick base bm))"

primrec spec_run :: "addr \<Rightarrow> blink_event list \<Rightarrow> mp1_blink_struct list \<times> mem \<Rightarrow> i32 list \<times> mp1_blink_struct list \<times> mem" where
  "spec_run base [] bm = ([], bm)"
| "spec_run base (e # es) bm = (case spec_step base e bm of (r, bm) \<Rightarrow> case spec_run base es bm of (rs, bm) \<Rightarrow> (r # rs, bm))"

definition on_screen :: "blink_event \<Rightarrow> bool" where
  "on_screen e = (case e of Request (RTC_ADD s) \<Rightarrow> location s \<noteq> 0 | _ \<Rightarrow> True)"

lemma step_holds:
  assumes "holds b bm" and "on_screen e"
  shows "\<exists>b'. blink_step e b = Some (fst (spec_step (vmem_base_addr b) e bm), b') \<and>
    holds b' (snd (spec_step (vmem_base_addr b) e bm)) \<and> vmem_base_addr b' = vmem_base_addr b"
proof -
  obtain bs m where bm: "bm = (bs, m)" by force
  have holds: "holds b (bs, m)" using assms(1) bm by simp
  show ?thesis
  proof (cases e)
    case Clock
    then show ?thesis using tick_holds [OF assms(1)] by (auto simp: blink_step_def spec_step_def)
  next
    case (Request r)
    have "\<exists>s b'. mp1_ioctl r b = Some (fst (spec_ioctl (vmem_base_addr b) r (bs, m)), s, b') \<and>
        holds b' (snd (snd (spec_ioctl (vmem_base_addr b) r (bs, m)))) \<and> vmem_base_addr b' = vmem_base_addr b"
    proof (cases r)
      case (RTC_ADD s)
      then show ?thesis using add_holds [OF holds, of s] assms(2) Request by (auto simp: on_screen_def simp del: spec_ioctl.simps mp1_ioctl.simps)
    next
      case (RTC_REMOVE a)
      then show ?thesis using remove_holds [OF holds] by blast
    next
      case (RTC_FIND loc)
      then show ?thesis using find_holds [OF holds, of loc] holds by auto
    next
      case (RTC_SYNC a)
      then show ?thesis using sync_holds [OF holds] by blast
    qed
    then show ?thesis using Request bm by (auto simp: blink_step_def spec_step_def split: prod.split)
  qed
qed

lemma run_holds:
  "holds b bm \<Longrightarrow> list_all on_screen es \<Longrightarrow>
   \<exists>b'. blink_run es b = Some (fst (spec_run (vmem_base_addr b) es bm), b') \<and> holds b' (snd (spec_run (vmem_base_addr b) es bm))"
proof (induction es arbitrary: b bm)
  case (Cons e es)
  obtain b' where b': "blink_step e b = Some (fst (spec_step (vmem_base_addr b) e bm), b')"
    "holds b' (snd (spec_step (vmem_base_addr b) e bm))" "vmem_base_addr b' = vmem_base_addr b"
    using step_holds [OF Cons.prems(1)] Cons.prems(2) by auto
  show ?case using Cons.IH [OF b'(2)] Cons.prems(2) b' by (auto split: prod.split)
qed simp

text \<open>What \<^verbatim>\<open>main\<close> starts with.\<close>

definition blink_init :: "addr \<Rightarrow> mem \<Rightarrow> blink" where
  "blink_init base m = \<lparr>blink_array = replicate 2000 zero_struct, mp1_list_head = None, vmem_base_addr = base, blink_mem = m\<rparr>"

lemma init_holds: "holds (blink_init base m) ([], m)"
  by (simp add: holds_def chain_def blink_init_def zero_struct_def)

section \<open>The upper left corner\<close>

lemma tasklet_cycle:
  assumes "next_struct (blink_array b ! i) = Some i" and "i < length (blink_array b)"
  shows "tasklet_loop (Some i) b = None"
proof (rule ccontr)
  assume "tasklet_loop (Some i) b \<noteq> None"
  then obtain y where y: "tasklet_loop (Some i) b = Some y" by auto
  have "Some i = Some i \<and> next_struct (blink_array b ! i) = Some i \<and> i < length (blink_array b) \<longrightarrow> False"
  proof (rule tasklet_loop.raw_induct [where P = "\<lambda>p b y. p = Some i \<and> next_struct (blink_array b ! i) = Some i \<and>
        i < length (blink_array b) \<longrightarrow> False", OF _ y])
    fix loop p b y
    assume IH: "\<And>p b y. loop p b = Some y \<Longrightarrow>
        p = Some i \<and> next_struct (blink_array b ! i) = Some i \<and> i < length (blink_array b) \<longrightarrow> False"
      and step: "(case p of None \<Rightarrow> Some b | Some i \<Rightarrow> let b = blink_one i b in loop (next_struct (blink_array b ! i)) b) = Some y"
    show "p = Some i \<and> next_struct (blink_array b ! i) = Some i \<and> i < length (blink_array b) \<longrightarrow> False"
    proof
      assume p: "p = Some i \<and> next_struct (blink_array b ! i) = Some i \<and> i < length (blink_array b)"
      then have "next_struct (blink_array (blink_one i b) ! i) = Some i" "length (blink_array (blink_one i b)) = length (blink_array b)"
        by (simp_all add: blink_one_tick)
      then show False using IH [of "Some i" "blink_one i b" y] step p by (simp add: Let_def)
    qed
  qed
  then show False using assms by simp
qed

lemma malloc_cong: "(\<And>i. i < 2000 \<Longrightarrow> location (blink_array b' ! i) = location (blink_array b ! i)) \<Longrightarrow> mp1_malloc b' = mp1_malloc b"
  unfolding mp1_malloc_def by (rule find_cong) simp_all

lemma add_result:
  assumes "mp1_malloc b = Some i" and "i < length (blink_array b)" and "unat (location s) < 2000"
  shows "\<exists>b'. mp1_ioctl_add s b = (0, b') \<and> mp1_list_head b' = Some i \<and> blink_array b' = (blink_array b)[i :=
    s\<lparr>status := 1, countdown := on_length s, next_struct := mp1_list_head b\<rparr>]"
  using assms by (auto simp: mp1_ioctl_add_def upd_struct_def Let_def word_le_unat)

section \<open>Properties\<close>

text \<open>
  C15. The linked list of blinking characters does what a list without links does: every sequence
  of requests and clock interrupts in which no character is added at location 0, the upper left
  corner, returns, with the answers of the specification, and leaves its characters on the screen;
  the allocator never gives out a structure that is in use. (With an addition at location 0 this
  fails: the next property has a sequence that never returns.) The specification of the
  request to synchronise always shows the character for off.
\<close>

theorem blink_refines_list:
  assumes "holds b (bs, m)" and "list_all on_screen es"
  shows "\<exists>b'. blink_run es b = Some (fst (spec_run (vmem_base_addr b) es (bs, m)), b') \<and>
    holds b' (snd (spec_run (vmem_base_addr b) es (bs, m)))"
  by (rule run_holds [OF assms])

lemma blink_refines_list_witness:
  defines "s \<equiv> zero_struct\<lparr>location := 540, on_char := 0x49, off_char := 0x4D, on_length := 7, off_length := 6\<rparr>"
  shows "\<exists>b'. blink_run [Request (RTC_ADD s), Clock, Request (RTC_REMOVE 540), Request (RTC_REMOVE 540)] (blink_init 0x8400000 (\<lambda>_. 0)) =
      Some ([0, 0, 0, - 1], b') \<and> holds b' ([], (\<lambda>_. 0)(0x8400438 := 0x49))"
proof -
  let ?es = "[Request (RTC_ADD s), Clock, Request (RTC_REMOVE 540), Request (RTC_REMOVE 540)]"
  have "list_all on_screen ?es" by (simp add: on_screen_def s_def)
  note w = blink_refines_list [where b = "blink_init 0x8400000 (\<lambda>_. 0)", OF init_holds this]
  have due: "\<not> due (started s)" unfolding due_def s_def by (simp add: started_def unlink_def zero_struct_def) code_simp
  have loc: "location (started s) = 540" "location s = 540" "on_char s = 0x49" by (simp_all add: s_def started_def unlink_def)
  have "spec_run 0x8400000 ?es ([], \<lambda>_. 0) = ([0, 0, 0, - 1], [], (\<lambda>_. 0)(0x8400438 := 0x49))"
    by (simp add: spec_step_def spec_tick_def at_loc_def loc tick_poke_def due poke_at_def)
  then show ?thesis using w by (simp add: blink_init_def)
qed

text \<open>
  C37. A character in the upper left corner breaks the list: its structure counts as free, so
  the next one that is added takes the same and links to itself, and the next clock interrupt
  never returns.
\<close>

theorem corner_loops:
  assumes "holds b (bs, m)" and "length bs < 2000" and "location s = 0" and "unat (location t) < 2000"
  shows "\<exists>b1 b2. mp1_ioctl_add s b = (0, b1) \<and> mp1_ioctl_add t b1 = (0, b2) \<and> mp1_rtc_tasklet b2 = None"
proof -
  obtain js where js: "chain b js" and bs: "bs = map (\<lambda>i. unlink (blink_array b ! i)) js" using assms(1) by (auto simp: holds_def)
  have len: "length (blink_array b) = 2000" using js by (simp add: chain_def)
  obtain i where i: "mp1_malloc b = Some i" using malloc_chain(1) [OF js] assms(2) bs by fastforce
  have small: "i < 2000" and free: "location (blink_array b ! i) = 0"
    using find_mem [of _ "[0..<80 * 25]" i] i by (auto simp: mp1_malloc_def)
  obtain b1 where b1: "mp1_ioctl_add s b = (0, b1)" "mp1_list_head b1 = Some i"
    "blink_array b1 = (blink_array b)[i := s\<lparr>status := 1, countdown := on_length s, next_struct := mp1_list_head b\<rparr>]"
    using add_result [OF i, of s] assms(3) small len by auto
  have "mp1_malloc b1 = Some i"
    using free assms(3) small len i by (subst malloc_cong [of b1 b]) (auto simp: b1(3) nth_list_update)
  then obtain b2 where b2: "mp1_ioctl_add t b1 = (0, b2)" "mp1_list_head b2 = Some i"
    "blink_array b2 = (blink_array b1)[i := t\<lparr>status := 1, countdown := on_length t, next_struct := Some i\<rparr>]"
    using add_result [of b1 i t] assms(4) small len b1 by auto
  have "mp1_rtc_tasklet b2 = None"
    unfolding mp1_rtc_tasklet_def b2(2) using small len by (intro tasklet_cycle) (simp_all add: b1(3) b2(3))
  then show ?thesis using b1(1) b2(1) by blast
qed

lemma corner_loops_witness:
  "\<exists>b1 b2. mp1_ioctl_add zero_struct (blink_init 0x8400000 (\<lambda>_. 0)) = (0, b1) \<and>
    mp1_ioctl_add (zero_struct\<lparr>location := 540\<rparr>) b1 = (0, b2) \<and> mp1_rtc_tasklet b2 = None"
  by (rule corner_loops [OF init_holds]) (simp_all add: zero_struct_def)

end
