(* ===== verification/Fish.thy ===== *)
theory Fish
  imports User_Programs Blink
begin

text \<open>
  The program \<^verbatim>\<open>fish\<close>, \<^verbatim>\<open>fish/fish.c\<close>: it maps the screen, adds the characters in which its two
  frames differ from blanks to the blinking list, and lets the clock run. Its state is the list
  and the machine; the list sees the memory of the program through the page tables.
\<close>

unbundle bit_operations_syntax

section \<open>Definitions\<close>

definition WAIT :: nat where "WAIT = 100"

text \<open>The two byte loops; \<open>n\<close> is an \<^verbatim>\<open>int\<close>.\<close>

function fish_memset_loop :: "mem \<Rightarrow> addr \<Rightarrow> u8 \<Rightarrow> int \<Rightarrow> int \<Rightarrow> mem" where
  "fish_memset_loop m p c n i = (if i < n then fish_memset_loop (m(p + word_of_int i := c)) p c n (i + 1) else m)"
  by pat_completeness auto
termination
  by (relation "measure (\<lambda>(m, p, c, n, i). nat (n - i))") auto

declare fish_memset_loop.simps [simp del]

definition ece391_memset :: "mem \<Rightarrow> addr \<Rightarrow> u8 \<Rightarrow> i32 \<Rightarrow> mem" where
  "ece391_memset m p c n = fish_memset_loop m p c (sint n) 0"

function fish_memcpy_loop :: "mem \<Rightarrow> addr \<Rightarrow> addr \<Rightarrow> int \<Rightarrow> int \<Rightarrow> mem" where
  "fish_memcpy_loop m d s n i =
     (if i < n then fish_memcpy_loop (m(d + word_of_int i := m (s + word_of_int i))) d s n (i + 1) else m)"
  by pat_completeness auto
termination
  by (relation "measure (\<lambda>(m, d, s, n, i). nat (n - i))") auto

declare fish_memcpy_loop.simps [simp del]

definition ece391_memcpy :: "mem \<Rightarrow> addr \<Rightarrow> addr \<Rightarrow> i32 \<Rightarrow> i32 \<times> mem" where
  "ece391_memcpy m d s n = (0, fish_memcpy_loop m d s (sint n) 0)"

text \<open>
  An operation on the list, on the memory of the program. All its stores are in the page of the
  screen, which is not at its physical address: they go through the page table.
\<close>

definition put_screen :: "addr \<Rightarrow> mem \<Rightarrow> kernel \<Rightarrow> kernel option" where
  "put_screen base m k = (case translate k base of
     Some (p, True) \<Rightarrow> Some (k\<lparr>mem := \<lambda>a. if a - p < 0x1000 then m (base + (a - p)) else mem k a\<rparr>) | _ \<Rightarrow> None)"

definition on_screen_of :: "(blink \<Rightarrow> ('a \<times> blink) option) \<Rightarrow> blink \<Rightarrow> kernel \<Rightarrow> ('a \<times> blink \<times> kernel) option" where
  "on_screen_of f b k = do {
     (r, b) \<leftarrow> f (b\<lparr>blink_mem := vmem k\<rparr>);
     k \<leftarrow> put_screen (vmem_base_addr b) (blink_mem b) k;
     Some (r, b, k) }"

text \<open>The variable \<^verbatim>\<open>vmem_base_addr\<close> is at \<open>pv\<close>; \<^verbatim>\<open>NULL\<close> is 0.\<close>

definition mp1_set_video_mode :: "user_env \<Rightarrow> addr \<Rightarrow> blink \<Rightarrow> kernel \<Rightarrow> (addr \<times> blink \<times> kernel) option" where
  "mp1_set_video_mode env pv b k = do {
     (r, k) \<leftarrow> ece391_vidmap env pv k;
     if r = - 1 then Some (0, b, k)
     else Some (load32 (vmem k) pv, b\<lparr>vmem_base_addr := load32 (vmem k) pv\<rparr>, k) }"

text \<open>The next character of a frame, in the variable at \<open>a\<close>, unless its line is over.\<close>

definition next_char :: "user_env \<Rightarrow> i32 \<Rightarrow> addr \<Rightarrow> bool \<Rightarrow> kernel \<Rightarrow> (bool \<times> kernel) option" where
  "next_char env fd a eof k =
     (if vmem k a \<noteq> 0x0A then do {
        (num_bytes, k) \<leftarrow> ece391_read env fd a 1 k;
        if num_bytes = 0 then map_option (Pair True) (user_store a 0x0A k) else Some (eof, k) }
      else Some (eof, k))"

definition shown_char :: "u8 \<Rightarrow> u8" where
  "shown_char c = (if c = 0x0A then 0x20 else c)"

definition visible_char :: "u8 \<Rightarrow> bool" where
  "visible_char c \<longleftrightarrow> c \<noteq> 0x20 \<and> c \<noteq> 0x0A"

text \<open>One line of both frames; \<open>s\<close> is the local structure with the two lengths set.\<close>

partial_function (option) frame_row ::
    "user_env \<Rightarrow> i32 \<Rightarrow> i32 \<Rightarrow> addr \<Rightarrow> addr \<Rightarrow> mp1_blink_struct \<Rightarrow> u32 \<Rightarrow> u32 \<Rightarrow> bool \<Rightarrow> bool \<Rightarrow> blink \<Rightarrow> kernel \<Rightarrow>
     (bool \<times> bool \<times> blink \<times> kernel) option" where
  "frame_row env fd0 fd1 a0 a1 s row col eof0 eof1 b k = do {
     (eof0, k) \<leftarrow> next_char env fd0 a0 eof0 k;
     (eof1, k) \<leftarrow> next_char env fd1 a1 eof1 k;
     let c0 = vmem k a0; c1 = vmem k a1 in
     if c0 = 0x0A \<and> c1 = 0x0A then Some (eof0, eof1, b, k)
     else do {
       (r, b, k) \<leftarrow> (if visible_char c0 \<or> visible_char c1
          then on_screen_of (\<lambda>b. Some (mp1_ioctl_add (s\<lparr>on_char := shown_char c0, off_char := shown_char c1,
                 location := ucast (row * 80 + col + 40)\<rparr>) b)) b k
          else Some (0, b, k));
       frame_row env fd0 fd1 a0 a1 s row (col + 1) eof0 eof1 b k } }"

text \<open>The end of a line in one frame.\<close>

definition end_row :: "user_env \<Rightarrow> i32 \<Rightarrow> addr \<Rightarrow> bool \<Rightarrow> kernel \<Rightarrow> kernel option" where
  "end_row env fd a eof k =
     (if eof then do {
        k \<leftarrow> user_store a 0x0A k;
        map_option snd (ece391_close env fd k) }
      else user_store a (of_char (CHR ''0'')) k)"

partial_function (option) frame_rows ::
    "user_env \<Rightarrow> i32 \<Rightarrow> i32 \<Rightarrow> addr \<Rightarrow> addr \<Rightarrow> mp1_blink_struct \<Rightarrow> u32 \<Rightarrow> bool \<Rightarrow> bool \<Rightarrow> blink \<Rightarrow> kernel \<Rightarrow> (blink \<times> kernel) option" where
  "frame_rows env fd0 fd1 a0 a1 s row eof0 eof1 b k =
     (if \<not> eof0 \<or> \<not> eof1 then do {
        (eof0, eof1, b, k) \<leftarrow> frame_row env fd0 fd1 a0 a1 s row 0 eof0 eof1 b k;
        k \<leftarrow> end_row env fd0 a0 eof0 k;
        k \<leftarrow> end_row env fd1 a1 eof1 k;
        frame_rows env fd0 fd1 a0 a1 s (row + 1) eof0 eof1 b k }
      else Some (b, k))"

text \<open>A program that halts itself ends with the way out of the system call.\<close>

definition add_frames :: "user_env \<Rightarrow> addr \<Rightarrow> addr \<Rightarrow> addr \<Rightarrow> addr \<Rightarrow> mp1_blink_struct \<Rightarrow> blink \<Rightarrow> kernel \<Rightarrow> (outcome + blink \<times> kernel) option" where
  "add_frames env f0 f1 a0 a1 junk b k = do {
     k \<leftarrow> user_store a0 (of_char (CHR ''0'')) k;
     k \<leftarrow> user_store a1 (of_char (CHR ''0'')) k;
     (fd0, k) \<leftarrow> ece391_open env f0 k;
     if fd0 <s 0 then map_option Inl (ece391_halt env (- 1) k)
     else do {
       (fd1, k) \<leftarrow> ece391_open env f1 k;
       if fd1 <s 0 then map_option Inl (ece391_halt env (- 1) k)
       else map_option Inr (frame_rows env fd0 fd1 a0 a1 (junk\<lparr>on_length := 15, off_length := 15\<rparr>) 0 False False b k) } }"

text \<open>The loops that wait for \<^verbatim>\<open>n\<close> ticks of the clock.\<close>

primrec fish_wait :: "user_env \<Rightarrow> i32 \<Rightarrow> addr \<Rightarrow> nat \<Rightarrow> blink \<Rightarrow> kernel \<Rightarrow> (blink \<times> kernel) option" where
  "fish_wait env fd g 0 b k = Some (b, k)"
| "fish_wait env fd g (Suc n) b k = do {
     (r, k) \<leftarrow> ece391_read env fd g 4 k;
     (u, b, k) \<leftarrow> on_screen_of (\<lambda>b. map_option (Pair ()) (mp1_rtc_tasklet b)) b k;
     fish_wait env fd g n b k }"

definition store_local :: "addr \<Rightarrow> u32 \<Rightarrow> kernel \<Rightarrow> kernel" where
  "store_local a v k = set_vmem (store32 a v (vmem k)) k"

text \<open>\<^verbatim>\<open>main\<close> after the frames: a character of its own, its phase, and its end.\<close>

definition fish_show :: "user_env \<Rightarrow> i32 \<Rightarrow> addr \<Rightarrow> addr \<Rightarrow> mp1_blink_struct \<Rightarrow> blink \<Rightarrow> kernel \<Rightarrow> (i32 \<times> blink \<times> kernel) option" where
  "fish_show env fd pr g junk b k = do {
     (r, k) \<leftarrow> ece391_write env fd pr 4 (store_local pr 32 k);
     (b, k) \<leftarrow> fish_wait env fd g WAIT b (store_local pr r k);
     (r, b, k) \<leftarrow> on_screen_of (\<lambda>b. Some (mp1_ioctl_add (junk\<lparr>on_char := of_char (CHR ''I''), off_char := of_char (CHR ''M''),
        on_length := 7, off_length := 6, location := 6 * 80 + 60\<rparr>) b)) b k;
     (b, k) \<leftarrow> fish_wait env fd g WAIT b k;
     (r, b, k) \<leftarrow> on_screen_of (mp1_ioctl_sync (push_bit 16 40 OR (6 * 80 + 60))) b k;
     (b, k) \<leftarrow> fish_wait env fd g WAIT b k;
     (r, b, k) \<leftarrow> on_screen_of (mp1_ioctl_remove (6 * 80 + 60)) b k;
     (b, k) \<leftarrow> fish_wait env fd g WAIT b k;
     (r, k) \<leftarrow> ece391_close env fd k;
     Some (0, b, k) }"

text \<open>The variables of \<^verbatim>\<open>main\<close> and \<^verbatim>\<open>add_frames\<close> are at \<open>v 0\<close>, \<open>v 1\<close> and so on.\<close>

definition fish_main :: "user_env \<Rightarrow> (nat \<Rightarrow> addr) \<Rightarrow> mp1_blink_struct \<Rightarrow> kernel \<Rightarrow> (outcome + i32 \<times> blink \<times> kernel) option" where
  "fish_main env v junk k = do {
     (base, b, k) \<leftarrow> mp1_set_video_mode env (v 0) (blink_init 0 (vmem k)) k;
     if base = 0 then Some (Inr (- 1, b, k))
     else do {
       (fd, k) \<leftarrow> ece391_open env (u_lit env ''rtc'') k;
       r \<leftarrow> add_frames env (u_lit env ''frame0.txt'') (u_lit env ''frame1.txt'') (v 1) (v 2) junk b k;
       (case r of Inl out \<Rightarrow> Some (Inl out) | Inr (b, k) \<Rightarrow> map_option Inr (fish_show env fd (v 3) (v 4) junk b k)) } }"

section \<open>The byte loops\<close>

lemma fish_memset_loop_write:
  "n = i + int j \<Longrightarrow> fish_memset_loop m p c n i = write_bytes (p + word_of_int i) (replicate j c) m"
proof (induction j arbitrary: i m)
  case 0
  then show ?case by (subst fish_memset_loop.simps) simp
next
  case (Suc j)
  then have "fish_memset_loop (m(p + word_of_int i := c)) p c n (i + 1) =
      write_bytes (p + word_of_int (i + 1)) (replicate j c) (m(p + word_of_int i := c))" by (intro Suc.IH) simp
  then show ?case using Suc.prems by (subst fish_memset_loop.simps) (simp add: ac_simps del: fun_upd_apply)
qed

lemma ece391_memset_write: "unat n < 2147483648 \<Longrightarrow> ece391_memset m p c n = write_bytes p (replicate (unat n) c) m"
  using fish_memset_loop_write [of "sint n" 0 "unat n"] by (simp add: ece391_memset_def sint_small)

text \<open>The copy is right for a destination that does not begin inside the source.\<close>

lemma fish_memcpy_loop_write:
  "n = i + int (length xs) \<Longrightarrow> bytes m (s + word_of_int i) (length xs) = xs \<Longrightarrow> length xs < 2147483648 \<Longrightarrow>
   \<forall>j. 0 < j \<and> j < length xs \<longrightarrow> s + word_of_nat j \<noteq> d \<Longrightarrow> fish_memcpy_loop m d s n i = write_bytes (d + word_of_int i) xs m"
proof (induction xs arbitrary: i m)
  case Nil
  then show ?case by (subst fish_memcpy_loop.simps) simp
next
  case (Cons x xs)
  have x: "m (s + word_of_int i) = x" "bytes m (s + word_of_int (i + 1)) (length xs) = xs"
    using Cons.prems(2) by (simp_all add: bytes_front ac_simps)
  have "d + word_of_int i \<noteq> s + word_of_int (i + 1) + word_of_nat j" if "j < length xs" for j
  proof
    assume "d + word_of_int i = s + word_of_int (i + 1) + word_of_nat j"
    then have "s + word_of_nat (Suc j) = d" by (simp add: algebra_simps)
    then show False using Cons.prems(4) that by (metis Suc_less_eq length_Cons zero_less_Suc)
  qed
  then have "bytes (m(d + word_of_int i := x)) (s + word_of_int (i + 1)) (length xs) = bytes m (s + word_of_int (i + 1)) (length xs)"
    by (intro bytes_cong) auto
  then have "fish_memcpy_loop (m(d + word_of_int i := x)) d s n (i + 1) =
      write_bytes (d + word_of_int (i + 1)) xs (m(d + word_of_int i := x))"
    using x(2) Cons.prems(1,3,4) by (intro Cons.IH) (simp_all del: fun_upd_apply)
  then show ?case using Cons.prems(1) x(1) by (subst fish_memcpy_loop.simps) (simp add: ac_simps del: fun_upd_apply)
qed

end
