(* ===== verification/Fish_Frames.thy ===== *)
theory Fish_Frames
  imports Fish
begin

text \<open>
  What \<^verbatim>\<open>fish\<close> draws: the characters of its two frames, each at its row and column, in the list of
  blinking characters and on the screen.
\<close>

unbundle bit_operations_syntax

section \<open>The page of the screen\<close>

definition screen_mapped :: "addr \<Rightarrow> kernel \<Rightarrow> bool" where
  "screen_mapped base k \<longleftrightarrow> (\<forall>i<4096. translate k (base + word_of_nat i) = Some (VIDEO + word_of_nat i, True))"

lemma screen_mapped_step: "user_step W k k' \<Longrightarrow> screen_mapped base k' = screen_mapped base k"
  using user_step_fields(8) [of W k k'] by (simp add: screen_mapped_def)

lemma mapped_vmem: "screen_mapped base k \<Longrightarrow> i < 4096 \<Longrightarrow> vmem k (base + word_of_nat i) = mem k (VIDEO + word_of_nat i)"
  by (simp add: screen_mapped_def vmem_def)

lemma mapped_text: "screen_mapped base k \<Longrightarrow> screen_text base (vmem k) = fst (fore_console k)"
  unfolding fore_console_def by (auto intro!: nth_equalityI simp: screen_text_nth mapped_vmem simp del: of_nat_mult)

lemma put_screen_step:
  assumes ok: "program_ok env k" and map: "screen_mapped base k" and out: "\<And>x. \<not> in_range base 4000 x \<Longrightarrow> m x = vmem k x"
  shows "\<exists>k'. put_screen base m k = Some k' \<and> user_step W k k' \<and> program_ok env k' \<and> proc_fds k' = proc_fds k \<and>
    fore_console k' = (screen_text base m, snd (fore_console k))"
proof -
  let ?m = "\<lambda>a. if a - VIDEO < 0x1000 then m (base + (a - VIDEO)) else mem k a"
  let ?k = "k\<lparr>mem := ?m\<rparr>"
  have "translate k base = Some (VIDEO, True)" using spec [OF map [unfolded screen_mapped_def], of 0] by simp
  then have put: "put_screen base m k = Some ?k" by (simp add: put_screen_def)
  have page: "\<exists>i<4096. a = VIDEO + word_of_nat i" if "a - VIDEO < 0x1000" for a
    using that range_addr [where x = a and a = VIDEO and n = 4096] by (simp add: word_less_unat)
  have same: "?m a = mem k a" if "\<not> in_range VIDEO 4000 a" for a
  proof (cases "a - VIDEO < 0x1000")
    case True
    then obtain i where i: "i < 4096" "a = VIDEO + word_of_nat i" using page by blast
    then have "\<not> i < 4000" using that in_range_offset [of i 4000 VIDEO] by auto
    then have "\<not> in_range base 4000 (base + word_of_nat i)" using i(1) by (simp add: in_range_def)
    then show ?thesis using out mapped_vmem [OF map i(1)] i(2) True by simp
  qed simp
  have step: "user_step W k ?k"
    by (rule user_stepI [where m = ?m and log = "io_log k" and b = "iflag k" and e = "r_esp k" and
        x = "screen_x k" and y = "screen_y k" and loc = "directoryLoc k" and i = "key_buffer_idx k" and ts = "terminal k" and
        fs = "proc_fds k"]) (use same in \<open>simp_all add: proc_fds_def may_write_def\<close>)
  have fds: "proc_fds ?k = proc_fds k" by (simp add: proc_fds_def current_process_def)
  have "program_ok env ?k" using ok by (intro program_ok_step [OF ok step]) (simp_all add: fds program_ok_def screen_ok_def)
  moreover have "screen_text VIDEO ?m = screen_text base m"
    by (rule nth_equalityI) (simp_all add: screen_text_nth word_less_unat del: of_nat_mult)
  then have "fore_console ?k = (screen_text base m, snd (fore_console k))" by (simp add: fore_console_def)
  ultimately show ?thesis using put step fds by blast
qed

section \<open>Adding characters\<close>

text \<open>The list without its links, and the characters on the screen.\<close>

definition blinking :: "blink \<Rightarrow> mp1_blink_struct list \<Rightarrow> bool" where
  "blinking b bs \<longleftrightarrow> (\<exists>js. chain b js \<and> bs = map (\<lambda>i. unlink (blink_array b ! i)) js)"

definition show_structs :: "mp1_blink_struct list \<Rightarrow> u8 list \<Rightarrow> u8 list" where
  "show_structs ss xs = fold (\<lambda>s xs. xs[unat (location s) := on_char s]) ss xs"

text \<open>A step of the program that adds the structures \<open>ss\<close>, in this order, to the list \<open>bs\<close>.\<close>

definition adds :: "user_env \<Rightarrow> (addr \<Rightarrow> bool) \<Rightarrow> mp1_blink_struct list \<Rightarrow> mp1_blink_struct list \<Rightarrow>
    blink \<Rightarrow> kernel \<Rightarrow> blink \<Rightarrow> kernel \<Rightarrow> bool" where
  "adds env W bs ss b k b' k' \<longleftrightarrow> user_step W k k' \<and> program_ok env k' \<and> vmem_base_addr b' = vmem_base_addr b \<and>
     fore_console k' = apfst (show_structs ss) (fore_console k) \<and> blinking b' (rev (map started ss) @ bs)"

lemma adds_trans:
  "adds env W bs ss b k b1 k1 \<Longrightarrow> adds env W (rev (map started ss) @ bs) ts b1 k1 b2 k2 \<Longrightarrow> adds env W bs (ss @ ts) b k b2 k2"
  unfolding adds_def using user_step_trans by (auto simp: show_structs_def apfst_def map_prod_def split: prod.splits)

lemma adds_silent: "silent_step W k k' \<Longrightarrow> program_ok env k' \<Longrightarrow> blinking b bs \<Longrightarrow> adds env W bs [] b k b k'"
  by (cases "fore_console k") (simp add: adds_def silent_step_def show_structs_def)

lemma blinking_mem [simp]: "blinking (b\<lparr>blink_mem := m\<rparr>) bs = blinking b bs"
  by (simp add: blinking_def chain_def)

lemma add_on_screen:
  assumes ok: "program_ok env k" and map: "screen_mapped (vmem_base_addr b) k" and bs: "blinking b bs" "length bs < 2000"
    and loc: "location s \<noteq> 0" "unat (location s) < 2000"
  shows "\<exists>b' k'. on_screen_of (\<lambda>b. Some (mp1_ioctl_add s b)) b k = Some (0, b', k') \<and> adds env W bs [s] b k b' k' \<and>
    proc_fds k' = proc_fds k"
proof -
  let ?base = "vmem_base_addr b" and ?i = "unat (location s)"
  have "holds (b\<lparr>blink_mem := vmem k\<rparr>) (bs, vmem k)" using bs(1) unfolding holds_def blinking_def chain_def by auto
  from add_holds [OF this loc(1)] obtain b' where
    b': "mp1_ioctl_add s (b\<lparr>blink_mem := vmem k\<rparr>) = (0, b')" "vmem_base_addr b' = ?base"
      "holds b' (started s # bs, poke_at ?base (on_char s) (location s) (vmem k))"
    using bs(2) loc(2) by (auto split: prod.splits)
  have addr: "?base + push_bit 1 (ucast (location s)) = ?base + word_of_nat (2 * ?i)"
    using shl1 [of ?base ?i] by simp
  have m: "blink_mem b' = (vmem k)(?base + word_of_nat (2 * ?i) := on_char s)" "blinking b' (started s # bs)"
    using b'(3) unfolding holds_def blinking_def poke_at_def addr by auto
  have inside: "in_range ?base 4000 (?base + word_of_nat (2 * ?i))" using loc(2) by (intro in_range_offset) simp_all
  have out: "\<not> in_range ?base 4000 x \<Longrightarrow> blink_mem b' x = vmem k x" for x using inside by (auto simp: m(1))
  obtain k' where k': "put_screen ?base (blink_mem b') k = Some k'" "user_step W k k'" "program_ok env k'" "proc_fds k' = proc_fds k"
    "fore_console k' = (screen_text ?base (blink_mem b'), snd (fore_console k))"
    using put_screen_step [OF ok map out] by blast
  have "screen_text ?base (blink_mem b') = (fst (fore_console k))[?i := on_char s]"
    unfolding m(1) screen_text_put [OF loc(2)] mapped_text [OF map] ..
  then have "adds env W bs [s] b k b' k'"
    unfolding adds_def using k' m(2) b'(2) bs(1) by (auto simp: show_structs_def apfst_def map_prod_def split: prod.splits)
  then show ?thesis using k'(1,4) b' by (auto simp: on_screen_of_def)
qed

section \<open>Reading the frames\<close>

text \<open>The descriptor \<open>i\<close> is a file of which \<open>rest\<close> is still to be read.\<close>

definition frame_at :: "kernel \<Rightarrow> nat \<Rightarrow> u8 list \<Rightarrow> bool" where
  "frame_at k i rest \<longleftrightarrow> (let f = proc_fds k ! i; contents = file_contents (FILESYSLOC k) (vmem k) (inode f)
     in flags f = 1 \<and> fops_ptr f = fops_file \<and> file_ok (FILESYSLOC k) (vmem k) (inode f) \<and>
       unat (file_position f) \<le> length contents \<and> rest = drop (unat (file_position f)) contents)"

lemma frame_kept:
  assumes "frame_at k i rest" and ok: "program_ok env k" and step: "user_step W k k'" and "proc_fds k' ! i = proc_fds k ! i"
  shows "frame_at k' i rest"
proof -
  let ?f = "inode (proc_fds k ! i)"
  have "file_ok (FILESYSLOC k) (vmem k) ?f" using assms(1) by (simp add: frame_at_def Let_def)
  note same = same_image_file_contents [OF user_step_image(2) [OF step ok] this]
  show ?thesis using assms(1,4) same by (simp add: frame_at_def Let_def user_step_fields(1) [OF step])
qed

lemma next_char_step:
  assumes ok: "program_ok env k" and i: "2 \<le> i" "i < 8" and fr: "frame_at k i rest" and page: "in_user_page a"
    and going: "vmem k a \<noteq> 0x0A"
  shows "\<exists>k'. next_char env (word_of_nat i) a eof k = Some (eof \<or> rest = [], k') \<and> silent_step (\<lambda>x. x = a) k k' \<and>
    program_ok env k' \<and> frame_at k' i (tl rest) \<and> vmem k' a = (if rest = [] then 0x0A else hd rest) \<and>
    (\<forall>j. j \<noteq> i \<longrightarrow> proc_fds k' ! j = proc_fds k ! j)"
proof -
  define f where "f = proc_fds k ! i"
  define c where "c = file_contents (FILESYSLOC k) (vmem k) (inode f)"
  let ?p = "unat (file_position f)"
  let ?xs = "take (unat (1 :: u32)) (drop ?p c)"
  have f: "flags f = 1" "fops_ptr f = fops_file" "file_ok (FILESYSLOC k) (vmem k) (inode f)" "?p \<le> length c" "rest = drop ?p c"
    using fr by (simp_all add: frame_at_def Let_def f_def c_def)
  have one: "in_range a 1 x \<Longrightarrow> x = a" for x by (simp add: in_range_def unat_eq_0)
  have page1: "\<And>i. i < 1 \<Longrightarrow> in_user_page (a + word_of_nat i)" using page by simp
  have n: "unat (1 :: u32) \<le> 1" "(0 :: nat) < 1" "(1 :: nat) \<le> 0x400000" by simp_all
  from user_read_file [where n = 1 and N = 1, OF ok f_def [symmetric] i f(1-3) c_def f(4) page1 n] obtain k1 where
    k1: "ece391_read env (word_of_nat i) a 1 k = Some (word_of_nat (length ?xs), k1)" "silent_step (in_range a 1) k k1"
      "program_ok env k1" "proc_fds k1 = (proc_fds k)[i := f\<lparr>file_position := file_position f + word_of_nat (length ?xs)\<rparr>]"
      "bytes (vmem k1) a 1 = ?xs @ drop (length ?xs) (bytes (vmem k) a 1)" by blast
  have s1: "silent_step (\<lambda>x. x = a) k k1" by (rule silent_mono [OF k1(2) one])
  have u1: "user_step (\<lambda>x. x = a) k k1" using s1 by (simp add: silent_step_def)
  have len8: "length (proc_fds k) = 8" using ok by (simp add: program_ok_def)
  note same = same_image_file_contents [OF user_step_image(2) [OF u1 ok] f(3)]
  have fr1: "frame_at k1 i (tl rest)" if pos: "unat (file_position f + word_of_nat (length ?xs)) = ?p + length ?xs"
  proof -
    have len: "length ?xs = min 1 (length c - ?p)" by simp
    have t: "tl rest = drop (?p + length ?xs) c"
      unfolding f(5) len by (cases "?p < length c") (simp_all add: drop_Suc tl_drop min_def)
    have "?p + length ?xs \<le> length c" using f(4) unfolding len by simp
    then show ?thesis using f(1-3) same len8 i(2) pos t
      by (simp add: frame_at_def Let_def k1(4) user_step_fields(1) [OF u1] c_def del: length_take)
  qed
  show ?thesis
  proof (cases "?p < length c")
    case True
    then have xs: "?xs = [c ! ?p]" "rest \<noteq> []" "hd rest = c ! ?p" using f(5) by (simp_all add: Cons_nth_drop_Suc [symmetric] hd_drop_conv_nth)
    have "length c = unat (file_size (FILESYSLOC k) (vmem k) (inode f))" by (simp add: c_def file_contents_def)
    then have "file_position f < file_size (FILESYSLOC k) (vmem k) (inode f)" using True by (simp add: word_less_unat)
    then have "unat (file_position f + word_of_nat (length ?xs)) = ?p + length ?xs" unfolding xs(1) using unat_Suc32 by simp
    note fr1 = fr1 [OF this]
    have "vmem k1 a = c ! ?p" using k1(5) unfolding xs(1) by (simp add: bytes_Suc_0)
    then show ?thesis using k1(1,3,4) s1 fr1 going unfolding xs(1) by (simp add: next_char_def xs)
  next
    case False
    then have xs: "?xs = []" "rest = []" using f(5) by simp_all
    have fr1: "frame_at k1 i []" using fr1 xs by simp
    obtain k2 where k2: "user_store a 0x0A k1 = Some k2" "silent_step (\<lambda>x. x = a) k1 k2" "program_ok env k2" "vmem k2 a = 0x0A"
      "proc_fds k2 = proc_fds k1"
      using user_store_step [OF k1(3) page] by blast
    have "frame_at k2 i []" by (rule frame_kept [OF fr1 k1(3), of "\<lambda>x. x = a"]) (use k2 in \<open>simp_all add: silent_step_def\<close>)
    moreover have "ece391_read env (word_of_nat i) a 1 k = Some (0, k1)" using k1(1) unfolding xs(1) by simp
    ultimately show ?thesis using k1(4) k2 silent_step_trans [OF s1 k2(2)] xs(2) going by (simp add: next_char_def)
  qed
qed

text \<open>
  In the line that is being read, \<open>l\<close> is left; \<open>nxt\<close> is what comes after its newline, \<open>None\<close> if
  it has none. The variable at \<open>a\<close> holds a newline once the line is over.
\<close>

definition after_line :: "u8 list option \<Rightarrow> u8 list" where
  "after_line nxt = (case nxt of None \<Rightarrow> [] | Some r \<Rightarrow> 0x0A # r)"

definition closable :: "kernel \<Rightarrow> nat \<Rightarrow> bool" where
  "closable k i \<longleftrightarrow> flags (proc_fds k ! i) = 0 \<or> fops_ptr (proc_fds k ! i) = fops_file"

definition reading :: "kernel \<Rightarrow> nat \<Rightarrow> addr \<Rightarrow> u8 list \<Rightarrow> u8 list option \<Rightarrow> bool" where
  "reading k i a l nxt \<longleftrightarrow> 2 \<le> i \<and> i < 8 \<and> in_user_page a \<and> 0x0A \<notin> set l \<and> closable k i \<and>
     (if vmem k a = 0x0A then l = [] \<and> (\<forall>r. nxt = Some r \<longrightarrow> frame_at k i r) else frame_at k i (l @ after_line nxt))"

definition ended :: "kernel \<Rightarrow> addr \<Rightarrow> u8 list option \<Rightarrow> bool" where
  "ended k a nxt \<longleftrightarrow> nxt = None \<and> vmem k a = 0x0A"

definition at_hand :: "u8 list \<Rightarrow> u8" where
  "at_hand l = (case l of [] \<Rightarrow> 0x0A | c # _ \<Rightarrow> c)"

lemma reading_kept:
  assumes "reading k i a l nxt" and ok: "program_ok env k" and step: "user_step W k k'" and "\<not> W a"
    and "proc_fds k' ! i = proc_fds k ! i"
  shows "reading k' i a l nxt" "ended k' a nxt = ended k a nxt" "vmem k' a = vmem k a"
proof -
  show a: "vmem k' a = vmem k a"
    using ok assms(1,4) by (intro user_step_vmem [OF step]) (auto simp: program_ok_def reading_def)
  then show "ended k' a nxt = ended k a nxt" by (simp add: ended_def)
  show "reading k' i a l nxt"
    using assms(1) frame_kept [OF _ ok step assms(5)] by (auto simp: reading_def a closable_def assms(5) split: if_splits)
qed

lemma frame_closable: "frame_at k i rest \<Longrightarrow> closable k i"
  by (simp add: frame_at_def closable_def Let_def)

lemma reading_char:
  assumes ok: "program_ok env k" and rd: "reading k i a l nxt"
  shows "\<exists>k'. next_char env (word_of_nat i) a (ended k a nxt) k = Some (ended k' a nxt, k') \<and> silent_step (\<lambda>x. x = a) k k' \<and>
    program_ok env k' \<and> reading k' i a (tl l) nxt \<and> vmem k' a = at_hand l \<and> (\<forall>j. j \<noteq> i \<longrightarrow> proc_fds k' ! j = proc_fds k ! j)"
proof (cases "vmem k a = 0x0A")
  case True
  then have "l = []" using rd by (simp add: reading_def)
  then show ?thesis using True ok rd silent_step_refl by (simp add: next_char_def at_hand_def)
next
  case False
  have i: "2 \<le> i" "i < 8" "in_user_page a" "0x0A \<notin> set l" and fr: "frame_at k i (l @ after_line nxt)"
    using rd False by (simp_all add: reading_def)
  obtain k' where k': "next_char env (word_of_nat i) a False k = Some (l @ after_line nxt = [], k')" "silent_step (\<lambda>x. x = a) k k'"
    "program_ok env k'" "frame_at k' i (tl (l @ after_line nxt))"
    "vmem k' a = (if l @ after_line nxt = [] then 0x0A else hd (l @ after_line nxt))"
    "\<forall>j. j \<noteq> i \<longrightarrow> proc_fds k' ! j = proc_fds k ! j"
    using next_char_step [OF ok i(1,2) fr i(3) False, of False] by auto
  have hand: "vmem k' a = at_hand l" using k'(5) by (cases l; cases nxt) (simp_all add: at_hand_def after_line_def)
  have "ended k' a nxt = (l @ after_line nxt = [])"
    using i(4) by (cases l; cases nxt) (auto simp: ended_def hand at_hand_def after_line_def)
  moreover have "reading k' i a (tl l) nxt"
    using i k'(4) frame_closable [OF k'(4)] by (cases l; cases nxt) (auto simp: reading_def hand at_hand_def after_line_def)
  ultimately show ?thesis using k' False hand by (simp add: ended_def)
qed

section \<open>One line\<close>

fun zip_pad :: "'a \<Rightarrow> 'a list \<Rightarrow> 'a list \<Rightarrow> ('a \<times> 'a) list" where
  "zip_pad d [] [] = []"
| "zip_pad d (x # xs) [] = (x, d) # zip_pad d xs []"
| "zip_pad d [] (y # ys) = (d, y) # zip_pad d [] ys"
| "zip_pad d (x # xs) (y # ys) = (x, y) # zip_pad d xs ys"

definition padded :: "'a \<Rightarrow> 'a list \<Rightarrow> 'a" where
  "padded d xs = (case xs of [] \<Rightarrow> d | x # _ \<Rightarrow> x)"

lemma zip_pad_step: "xs \<noteq> [] \<or> ys \<noteq> [] \<Longrightarrow> zip_pad d xs ys = (padded d xs, padded d ys) # zip_pad d (tl xs) (tl ys)"
  by (cases xs; cases ys) (simp_all add: padded_def)

lemma length_zip_pad [simp]: "length (zip_pad d xs ys) = max (length xs) (length ys)"
  by (induction d xs ys rule: zip_pad.induct) auto

text \<open>A character of each frame at a row and a column: blanks in both are not drawn.\<close>

definition cell :: "mp1_blink_struct \<Rightarrow> nat \<Rightarrow> nat \<Rightarrow> u8 \<Rightarrow> u8 \<Rightarrow> mp1_blink_struct list" where
  "cell s row col c0 c1 = (if c0 = 0x20 \<and> c1 = 0x20 then []
     else [s\<lparr>on_char := c0, off_char := c1, location := word_of_nat (row * 80 + col + 40)\<rparr>])"

definition line_cells :: "mp1_blink_struct \<Rightarrow> nat \<Rightarrow> nat \<Rightarrow> u8 list \<Rightarrow> u8 list \<Rightarrow> mp1_blink_struct list" where
  "line_cells s row col l0 l1 = concat (map (\<lambda>(j, c0, c1). cell s row j c0 c1) (enumerate col (zip_pad 0x20 l0 l1)))"

lemma line_cells_step: "l0 \<noteq> [] \<or> l1 \<noteq> [] \<Longrightarrow>
  line_cells s row col l0 l1 = cell s row col (padded 0x20 l0) (padded 0x20 l1) @ line_cells s row (Suc col) (tl l0) (tl l1)"
  by (simp add: line_cells_def zip_pad_step)

lemma length_cell: "length (cell s row col c0 c1) \<le> 1"
  by (simp add: cell_def)

lemma screen_place:
  assumes "row * 80 + col + 40 < 2000"
  shows "(ucast (word_of_nat row * 80 + word_of_nat col + 40 :: u32) :: u16) = word_of_nat (row * 80 + col + 40)"
    "unat (word_of_nat (row * 80 + col + 40) :: u16) = row * 80 + col + 40" "(word_of_nat (row * 80 + col + 40) :: u16) \<noteq> 0"
proof -
  have w: "(word_of_nat row * 80 + word_of_nat col + 40 :: u32) = word_of_nat (row * 80 + col + 40)" by simp
  have u: "unat (word_of_nat (row * 80 + col + 40) :: u32) = row * 80 + col + 40"
    using assms by (simp add: unat_of_nat take_bit_eq_mod del: of_nat_add of_nat_mult)
  show n: "unat (word_of_nat (row * 80 + col + 40) :: u16) = row * 80 + col + 40"
    using assms by (simp add: unat_of_nat take_bit_eq_mod del: of_nat_add of_nat_mult)
  show "(word_of_nat (row * 80 + col + 40) :: u16) \<noteq> 0" unfolding word_unat_eq_iff n by simp
  show "(ucast (word_of_nat row * 80 + word_of_nat col + 40 :: u32) :: u16) = word_of_nat (row * 80 + col + 40)"
    unfolding w word_unat_eq_iff n using assms by (simp add: unsigned_ucast_eq u take_bit_eq_mod del: of_nat_add of_nat_mult)
qed

lemma shown_at_hand:
  assumes "0x0A \<notin> set l"
  shows "shown_char (at_hand l) = padded 0x20 l" "visible_char (at_hand l) \<longleftrightarrow> padded 0x20 l \<noteq> 0x20" "at_hand l = 0x0A \<longleftrightarrow> l = []"
  using assms by (auto simp: at_hand_def padded_def shown_char_def visible_char_def split: list.splits)

text \<open>The two frames are open as different files, and their variables are different.\<close>

definition two_frames :: "kernel \<Rightarrow> nat \<Rightarrow> nat \<Rightarrow> addr \<Rightarrow> addr \<Rightarrow> u8 list \<Rightarrow> u8 list option \<Rightarrow> u8 list \<Rightarrow> u8 list option \<Rightarrow> bool" where
  "two_frames k i0 i1 a0 a1 l0 n0 l1 n1 \<longleftrightarrow> i0 \<noteq> i1 \<and> a0 \<noteq> a1 \<and> reading k i0 a0 l0 n0 \<and> reading k i1 a1 l1 n1"

definition frame_vars :: "addr \<Rightarrow> addr \<Rightarrow> addr \<Rightarrow> bool" where
  "frame_vars a0 a1 x \<longleftrightarrow> x = a0 \<or> x = a1"

lemma two_chars:
  assumes ok: "program_ok env k" and two: "two_frames k i0 i1 a0 a1 l0 n0 l1 n1"
  shows "\<exists>k1 k2. next_char env (word_of_nat i0) a0 (ended k a0 n0) k = Some (ended k2 a0 n0, k1) \<and>
    next_char env (word_of_nat i1) a1 (ended k a1 n1) k1 = Some (ended k2 a1 n1, k2) \<and>
    silent_step (frame_vars a0 a1) k k2 \<and> program_ok env k2 \<and> two_frames k2 i0 i1 a0 a1 (tl l0) n0 (tl l1) n1 \<and>
    vmem k2 a0 = at_hand l0 \<and> vmem k2 a1 = at_hand l1"
proof -
  have t: "i0 \<noteq> i1" "a0 \<noteq> a1" "reading k i0 a0 l0 n0" "reading k i1 a1 l1 n1" using two by (simp_all add: two_frames_def)
  obtain k1 where k1: "next_char env (word_of_nat i0) a0 (ended k a0 n0) k = Some (ended k1 a0 n0, k1)"
    "silent_step (\<lambda>x. x = a0) k k1" "program_ok env k1" "reading k1 i0 a0 (tl l0) n0" "vmem k1 a0 = at_hand l0"
    "\<forall>j. j \<noteq> i0 \<longrightarrow> proc_fds k1 ! j = proc_fds k ! j"
    using reading_char [OF ok t(3)] by blast
  have u1: "user_step (\<lambda>x. x = a0) k k1" using k1(2) by (simp add: silent_step_def)
  have r1: "reading k1 i1 a1 l1 n1" "ended k1 a1 n1 = ended k a1 n1"
    using reading_kept [OF t(4) ok u1] k1(6) t(1,2) by auto
  obtain k2 where k2: "next_char env (word_of_nat i1) a1 (ended k1 a1 n1) k1 = Some (ended k2 a1 n1, k2)"
    "silent_step (\<lambda>x. x = a1) k1 k2" "program_ok env k2" "reading k2 i1 a1 (tl l1) n1" "vmem k2 a1 = at_hand l1"
    "\<forall>j. j \<noteq> i1 \<longrightarrow> proc_fds k2 ! j = proc_fds k1 ! j"
    using reading_char [OF k1(3) r1(1)] by blast
  have u2: "user_step (\<lambda>x. x = a1) k1 k2" using k2(2) by (simp add: silent_step_def)
  have r2: "reading k2 i0 a0 (tl l0) n0" "ended k2 a0 n0 = ended k1 a0 n0" "vmem k2 a0 = vmem k1 a0"
    using reading_kept [OF k1(4,3) u2] k2(6) t(1,2) by auto
  have "silent_step (frame_vars a0 a1) k k2"
    by (rule silent_step_trans [OF silent_mono [OF k1(2)] silent_mono [OF k2(2)]]) (simp_all add: frame_vars_def)
  then show ?thesis using k1 k2 r1(2) r2 t(1,2) by (intro exI [of _ k1] exI [of _ k2]) (simp add: two_frames_def)
qed

lemma two_kept:
  assumes "two_frames k i0 i1 a0 a1 l0 n0 l1 n1" and ok: "program_ok env k" and step: "user_step W k k'"
    and "\<not> W a0" "\<not> W a1" "proc_fds k' = proc_fds k"
  shows "two_frames k' i0 i1 a0 a1 l0 n0 l1 n1" "ended k' a0 n0 = ended k a0 n0" "ended k' a1 n1 = ended k a1 n1"
    "vmem k' a0 = vmem k a0" "vmem k' a1 = vmem k a1"
  using reading_kept [OF _ ok step, of i0 a0 l0 n0] reading_kept [OF _ ok step, of i1 a1 l1 n1] assms(1,4-6)
  by (simp_all add: two_frames_def)

lemma adds_cell:
  assumes ok: "program_ok env k" and map: "screen_mapped (vmem_base_addr b) k" and bs: "blinking b bs" "length bs < 2000"
    and place: "row * 80 + col + 40 < 2000" and l: "0x0A \<notin> set l0" "0x0A \<notin> set l1"
  shows "\<exists>r b' k'. (if visible_char (at_hand l0) \<or> visible_char (at_hand l1)
      then on_screen_of (\<lambda>b. Some (mp1_ioctl_add (s\<lparr>on_char := shown_char (at_hand l0), off_char := shown_char (at_hand l1),
             location := ucast (word_of_nat row * 80 + word_of_nat col + 40 :: u32)\<rparr>) b)) b k
      else Some (0, b, k)) = Some (r, b', k') \<and>
    adds env W bs (cell s row col (padded 0x20 l0) (padded 0x20 l1)) b k b' k' \<and> proc_fds k' = proc_fds k"
proof (cases "padded 0x20 l0 = 0x20 \<and> padded 0x20 l1 = 0x20")
  case True
  have "adds env W bs [] b k b k" by (rule adds_silent [OF silent_step_refl ok bs(1)])
  then show ?thesis using True shown_at_hand(2) [OF l(1)] shown_at_hand(2) [OF l(2)] by (simp add: cell_def)
next
  case False
  let ?s = "s\<lparr>on_char := padded 0x20 l0, off_char := padded 0x20 l1, location := word_of_nat (row * 80 + col + 40)\<rparr>"
  have loc: "location ?s \<noteq> 0" "unat (location ?s) < 2000" using screen_place [OF place] place by simp_all
  from add_on_screen [OF ok map bs loc, of W] False show ?thesis
    using shown_at_hand [OF l(1)] shown_at_hand [OF l(2)] screen_place(1) [OF place] by (auto simp: cell_def)
qed

lemma adds_mono: "adds env W bs ss b k b' k' \<Longrightarrow> (\<And>a. W a \<Longrightarrow> W' a) \<Longrightarrow> adds env W' bs ss b k b' k'"
  unfolding adds_def using user_step_mono by blast

lemma adds_fields:
  "adds env W bs ss b k b' k' \<Longrightarrow> user_step W k k' \<and> program_ok env k' \<and> vmem_base_addr b' = vmem_base_addr b \<and>
     blinking b' (rev (map started ss) @ bs)"
  by (simp add: adds_def)

lemma frame_row_cells:
  assumes "program_ok env k" and "two_frames k i0 i1 a0 a1 l0 n0 l1 n1" and "screen_mapped (vmem_base_addr b) k"
    and "blinking b bs" "length bs + max (length l0) (length l1) \<le> 2000" "row * 80 + col + max (length l0) (length l1) + 40 \<le> 2000"
  shows "\<exists>b' k'. frame_row env (word_of_nat i0) (word_of_nat i1) a0 a1 s (word_of_nat row) (word_of_nat col)
      (ended k a0 n0) (ended k a1 n1) b k = Some (n0 = None, n1 = None, b', k') \<and>
    adds env (frame_vars a0 a1) bs (line_cells s row col l0 l1) b k b' k' \<and> two_frames k' i0 i1 a0 a1 [] n0 [] n1 \<and>
    vmem k' a0 = 0x0A \<and> vmem k' a1 = 0x0A"
  using assms
proof (induction "max (length l0) (length l1)" arbitrary: l0 l1 col b k bs)
  case 0
  then have l: "l0 = []" "l1 = []" by simp_all
  obtain k1 k2 where n: "next_char env (word_of_nat i0) a0 (ended k a0 n0) k = Some (ended k2 a0 n0, k1)"
    "next_char env (word_of_nat i1) a1 (ended k a1 n1) k1 = Some (ended k2 a1 n1, k2)"
    "silent_step (frame_vars a0 a1) k k2" "program_ok env k2" "two_frames k2 i0 i1 a0 a1 (tl l0) n0 (tl l1) n1"
    "vmem k2 a0 = at_hand l0" "vmem k2 a1 = at_hand l1"
    using two_chars [OF 0(2,3)] by blast
  have v: "vmem k2 a0 = 0x0A" "vmem k2 a1 = 0x0A" using n(6,7) by (simp_all add: l at_hand_def)
  have "ended k2 a0 n0 = (n0 = None)" "ended k2 a1 n1 = (n1 = None)" using v by (simp_all add: ended_def)
  then have "frame_row env (word_of_nat i0) (word_of_nat i1) a0 a1 s (word_of_nat row) (word_of_nat col)
      (ended k a0 n0) (ended k a1 n1) b k = Some (n0 = None, n1 = None, b, k2)"
    by (subst frame_row.simps) (simp add: n(1,2) v Let_def)
  moreover have "adds env (frame_vars a0 a1) bs (line_cells s row col l0 l1) b k b k2"
    using adds_silent [OF n(3,4) 0(5)] by (simp add: l line_cells_def)
  ultimately show ?case using n(5) v l by (intro exI [of _ b] exI [of _ k2]) simp
next
  case (Suc m)
  let ?W = "frame_vars a0 a1" and ?cell = "cell s row col (padded 0x20 l0) (padded 0x20 l1)"
  have l: "l0 \<noteq> [] \<or> l1 \<noteq> []" and m: "m = max (length (tl l0)) (length (tl l1))" using Suc.hyps(2) by auto
  have nl: "0x0A \<notin> set l0" "0x0A \<notin> set l1" using Suc.prems(2) by (simp_all add: two_frames_def reading_def)
  obtain k1 k2 where n: "next_char env (word_of_nat i0) a0 (ended k a0 n0) k = Some (ended k2 a0 n0, k1)"
    "next_char env (word_of_nat i1) a1 (ended k a1 n1) k1 = Some (ended k2 a1 n1, k2)"
    "silent_step ?W k k2" "program_ok env k2" "two_frames k2 i0 i1 a0 a1 (tl l0) n0 (tl l1) n1"
    "vmem k2 a0 = at_hand l0" "vmem k2 a1 = at_hand l1"
    using two_chars [OF Suc.prems(1,2)] by blast
  have u2: "user_step ?W k k2" using n(3) by (simp add: silent_step_def)
  have map2: "screen_mapped (vmem_base_addr b) k2" using Suc.prems(3) screen_mapped_step [OF u2] by simp
  have room: "length bs < 2000" "row * 80 + col + 40 < 2000" using Suc.prems(5,6) Suc.hyps(2) by simp_all
  obtain r b3 k3 where a: "(if visible_char (at_hand l0) \<or> visible_char (at_hand l1)
      then on_screen_of (\<lambda>b. Some (mp1_ioctl_add (s\<lparr>on_char := shown_char (at_hand l0), off_char := shown_char (at_hand l1),
             location := ucast (word_of_nat row * 80 + word_of_nat col + 40 :: u32)\<rparr>) b)) b k2
      else Some (0, b, k2)) = Some (r, b3, k3)"
    "adds env (\<lambda>_. False) bs ?cell b k2 b3 k3" "proc_fds k3 = proc_fds k2"
    using adds_cell [OF n(4) map2 Suc.prems(4) room nl] by blast
  note f3 = conjunct1 [OF adds_fields [OF a(2)]]
  have ok3: "program_ok env k3" "vmem_base_addr b3 = vmem_base_addr b" "blinking b3 (rev (map started ?cell) @ bs)"
    using adds_fields [OF a(2)] by simp_all
  note kept = two_kept [OF n(5,4) f3 _ _ a(3)]
  have two3: "two_frames k3 i0 i1 a0 a1 (tl l0) n0 (tl l1) n1" using kept(1) by simp
  have map3: "screen_mapped (vmem_base_addr b3) k3" using map2 screen_mapped_step [OF f3] ok3(2) by simp
  have len: "length (rev (map started ?cell) @ bs) + max (length (tl l0)) (length (tl l1)) \<le> 2000"
    using Suc.prems(5) length_cell [of s row col "padded 0x20 l0" "padded 0x20 l1"] Suc.hyps(2) m by simp
  have fit: "row * 80 + Suc col + max (length (tl l0)) (length (tl l1)) + 40 \<le> 2000"
    using Suc.prems(6) Suc.hyps(2) m by simp
  obtain b' k' where r: "frame_row env (word_of_nat i0) (word_of_nat i1) a0 a1 s (word_of_nat row) (word_of_nat (Suc col))
      (ended k3 a0 n0) (ended k3 a1 n1) b3 k3 = Some (n0 = None, n1 = None, b', k')"
    "adds env ?W (rev (map started ?cell) @ bs) (line_cells s row (Suc col) (tl l0) (tl l1)) b3 k3 b' k'"
    "two_frames k' i0 i1 a0 a1 [] n0 [] n1" "vmem k' a0 = 0x0A" "vmem k' a1 = 0x0A"
    using Suc.hyps(1) [OF m ok3(1) two3 map3 ok3(3) len fit] by blast
  have "\<not> (vmem k2 a0 = 0x0A \<and> vmem k2 a1 = 0x0A)" using l n(6,7) shown_at_hand(3) nl by simp
  then have "frame_row env (word_of_nat i0) (word_of_nat i1) a0 a1 s (word_of_nat row) (word_of_nat col)
      (ended k a0 n0) (ended k a1 n1) b k = Some (n0 = None, n1 = None, b', k')"
    using n(1,2,6,7) a(1) r(1) kept(2,3) by (subst frame_row.simps) (simp add: Let_def add.commute cong: if_cong, blast)
  moreover have "adds env ?W bs ([] @ ?cell @ line_cells s row (Suc col) (tl l0) (tl l1)) b k b' k'"
  proof (rule adds_trans [OF adds_silent [OF n(3,4) Suc.prems(4)]])
    have "adds env ?W bs ?cell b k2 b3 k3" by (rule adds_mono [OF a(2)]) simp
    from adds_trans [OF this r(2)]
    show "adds env ?W (rev (map started []) @ bs) (?cell @ line_cells s row (Suc col) (tl l0) (tl l1)) b k2 b' k'" by simp
  qed
  ultimately show ?case using r(3-5) line_cells_step [OF l] by (intro exI [of _ b'] exI [of _ k']) simp
qed

section \<open>All lines\<close>

text \<open>The first line of what is left of a file, and what comes after it; \<open>None\<close> is the end of the file.\<close>

definition first_line :: "u8 list option \<Rightarrow> u8 list" where
  "first_line rest = (case rest of None \<Rightarrow> [] | Some r \<Rightarrow> takeWhile (\<lambda>c. c \<noteq> 0x0A) r)"

definition next_lines :: "u8 list option \<Rightarrow> u8 list option" where
  "next_lines rest = (case rest of None \<Rightarrow> None
     | Some r \<Rightarrow> if 0x0A \<in> set r then Some (tl (dropWhile (\<lambda>c. c \<noteq> 0x0A) r)) else None)"

function lines_of :: "u8 list option \<Rightarrow> u8 list list" where
  "lines_of rest = (if rest = None then [] else first_line rest # lines_of (next_lines rest))"
  by pat_completeness auto
termination
proof (relation "measure (\<lambda>rest. case rest of None \<Rightarrow> 0 | Some r \<Rightarrow> Suc (length r))", simp)
  fix rest :: "u8 list option" assume "rest \<noteq> None"
  then obtain r where r: "rest = Some r" by auto
  have "length (dropWhile (\<lambda>c. c \<noteq> 0x0A) r) \<le> length r" by (rule length_dropWhile_le)
  then show "(next_lines rest, rest) \<in> measure (\<lambda>rest. case rest of None \<Rightarrow> 0 | Some r \<Rightarrow> Suc (length r))"
    by (simp add: r next_lines_def less_Suc_eq_le)
qed

declare lines_of.simps [simp del]

lemma lines_of_None [simp]: "lines_of None = []" "lines_of rest = [] \<longleftrightarrow> rest = None"
  by (simp_all add: lines_of.simps)

lemma lines_of_step: "tl (lines_of rest) = lines_of (next_lines rest)" "padded [] (lines_of rest) = first_line rest"
  by (cases rest; subst lines_of.simps; simp add: next_lines_def first_line_def padded_def)+

lemma first_line_split: "0x0A \<notin> set (first_line (Some r))" "r = first_line (Some r) @ after_line (next_lines (Some r))"
proof -
  show "0x0A \<notin> set (first_line (Some r))" by (auto simp: first_line_def dest: set_takeWhileD)
  show "r = first_line (Some r) @ after_line (next_lines (Some r))"
    by (induction r) (auto simp: first_line_def next_lines_def after_line_def)
qed

definition frame_cells :: "mp1_blink_struct \<Rightarrow> nat \<Rightarrow> u8 list list \<Rightarrow> u8 list list \<Rightarrow> mp1_blink_struct list" where
  "frame_cells s row ls0 ls1 = concat (map (\<lambda>(r, l0, l1). line_cells s r 0 l0 l1) (enumerate row (zip_pad [] ls0 ls1)))"

lemma frame_cells_step: "ls0 \<noteq> [] \<or> ls1 \<noteq> [] \<Longrightarrow>
  frame_cells s row ls0 ls1 = line_cells s row 0 (padded [] ls0) (padded [] ls1) @ frame_cells s (Suc row) (tl ls0) (tl ls1)"
  by (simp add: frame_cells_def zip_pad_step)

lemma length_line_cells: "length (line_cells s row col l0 l1) \<le> max (length l0) (length l1)"
proof -
  have "length (concat (map (\<lambda>(j, c0, c1). cell s row j c0 c1) xs)) \<le> length xs" for xs
    by (induction xs) (auto simp: cell_def)
  from this [of "enumerate col (zip_pad 0x20 l0 l1)"] show ?thesis by (simp add: line_cells_def)
qed

text \<open>The next line of a frame begins.\<close>

lemma begin_line:
  assumes ok: "program_ok env k" and i: "2 \<le> i" "i < 8" "in_user_page a" and fr: "frame_at k i r"
  shows "\<exists>k'. user_store a (of_char (CHR ''0'')) k = Some k' \<and> silent_step (\<lambda>x. x = a) k k' \<and> program_ok env k' \<and>
    proc_fds k' = proc_fds k \<and> reading k' i a (first_line (Some r)) (next_lines (Some r)) \<and> \<not> ended k' a (next_lines (Some r))"
proof -
  obtain k' where k': "user_store a (of_char (CHR ''0'')) k = Some k'" "silent_step (\<lambda>x. x = a) k k'" "program_ok env k'"
    "proc_fds k' = proc_fds k" "vmem k' a = of_char (CHR ''0'')"
    using user_store_step [OF ok i(3)] by blast
  have u: "user_step (\<lambda>x. x = a) k k'" using k'(2) by (simp add: silent_step_def)
  have "frame_at k' i r" by (rule frame_kept [OF fr ok u]) (simp add: k'(4))
  then have "frame_at k' i (first_line (Some r) @ after_line (next_lines (Some r)))"
    unfolding first_line_split(2) [of r, symmetric] .
  then show ?thesis using k' i first_line_split(1) [of r] frame_closable
    by (intro exI [of _ k']) (simp add: reading_def ended_def)
qed

lemma end_row_step:
  assumes ok: "program_ok env k" and rd: "reading k i a [] nxt" and over: "vmem k a = 0x0A"
  shows "\<exists>k'. end_row env (word_of_nat i) a (nxt = None) k = Some k' \<and> silent_step (\<lambda>x. x = a) k k' \<and> program_ok env k' \<and>
    (\<forall>j. j \<noteq> i \<longrightarrow> proc_fds k' ! j = proc_fds k ! j) \<and> reading k' i a (first_line nxt) (next_lines nxt) \<and>
    ended k' a (next_lines nxt) = (nxt = None)"
proof (cases nxt)
  case (Some r)
  have i: "2 \<le> i" "i < 8" "in_user_page a" "frame_at k i r" using rd over Some by (simp_all add: reading_def)
  show ?thesis using begin_line [OF ok i] by (auto simp: end_row_def Some)
next
  case None
  have i: "2 \<le> i" "i < 8" "in_user_page a" "closable k i" using rd by (simp_all add: reading_def)
  obtain k1 where k1: "user_store a 0x0A k = Some k1" "silent_step (\<lambda>x. x = a) k k1" "program_ok env k1"
    "proc_fds k1 = proc_fds k" "vmem k1 a = 0x0A"
    using user_store_step [OF ok i(3)] by blast
  have len8: "length (proc_fds k) = 8" using ok by (simp add: program_ok_def)
  obtain r k2 where k2: "ece391_close env (word_of_nat i) k1 = Some (r, k2)" "silent_step (\<lambda>x. False) k1 k2" "program_ok env k2"
    "\<forall>j. j \<noteq> i \<longrightarrow> proc_fds k2 ! j = proc_fds k1 ! j" "closable k2 i"
  proof (cases "flags (proc_fds k1 ! i) = 0")
    case True
    from user_closed_fd(3) [OF k1(3) i(1,2) True] show ?thesis
      using that [of "- 1" "trapped env k1"] silent_trapped trapped_ok [OF k1(3)] i(4)
      by (simp add: closable_def k1(4))
  next
    case False
    then have "fops_ptr (proc_fds k1 ! i) \<in> {fops_rtc, fops_dir, fops_file}" using i(4) by (auto simp: closable_def k1(4))
    from user_close [OF k1(3) i(1,2) False this, of "\<lambda>_. False"] show ?thesis
      using that i(2) len8 by (auto simp: closable_def k1(4))
  qed
  have u2: "user_step (\<lambda>x. False) k1 k2" using k2(2) by (simp add: silent_step_def)
  have "vmem k2 a = vmem k1 a" using k1(3) i(3) by (intro user_step_vmem [OF u2]) (simp_all add: program_ok_def)
  then have a: "vmem k2 a = 0x0A" using k1(5) by simp
  have "silent_step (\<lambda>x. x = a) k k2" by (rule silent_step_trans [OF k1(2) silent_mono [OF k2(2)]]) simp
  moreover have "end_row env (word_of_nat i) a True k = Some k2" using k1(1) k2(1) by (simp add: end_row_def)
  ultimately show ?thesis using None k2(3-5) k1(4) i a
    by (intro exI [of _ k2]) (simp add: first_line_def next_lines_def reading_def ended_def)
qed

lemma end_both:
  assumes ok: "program_ok env k" and two: "two_frames k i0 i1 a0 a1 [] n0 [] n1" and over: "vmem k a0 = 0x0A" "vmem k a1 = 0x0A"
  shows "\<exists>k1 k2. end_row env (word_of_nat i0) a0 (n0 = None) k = Some k1 \<and> end_row env (word_of_nat i1) a1 (n1 = None) k1 = Some k2 \<and>
    silent_step (frame_vars a0 a1) k k2 \<and> program_ok env k2 \<and>
    two_frames k2 i0 i1 a0 a1 (first_line n0) (next_lines n0) (first_line n1) (next_lines n1) \<and>
    ended k2 a0 (next_lines n0) = (n0 = None) \<and> ended k2 a1 (next_lines n1) = (n1 = None)"
proof -
  have t: "i0 \<noteq> i1" "a0 \<noteq> a1" "reading k i0 a0 [] n0" "reading k i1 a1 [] n1" using two by (simp_all add: two_frames_def)
  obtain k1 where k1: "end_row env (word_of_nat i0) a0 (n0 = None) k = Some k1" "silent_step (\<lambda>x. x = a0) k k1" "program_ok env k1"
    "\<forall>j. j \<noteq> i0 \<longrightarrow> proc_fds k1 ! j = proc_fds k ! j" "reading k1 i0 a0 (first_line n0) (next_lines n0)"
    "ended k1 a0 (next_lines n0) = (n0 = None)"
    using end_row_step [OF ok t(3) over(1)] by blast
  have u1: "user_step (\<lambda>x. x = a0) k k1" using k1(2) by (simp add: silent_step_def)
  have r1: "reading k1 i1 a1 [] n1" "vmem k1 a1 = 0x0A" using reading_kept [OF t(4) ok u1] k1(4) t(1,2) over(2) by auto
  obtain k2 where k2: "end_row env (word_of_nat i1) a1 (n1 = None) k1 = Some k2" "silent_step (\<lambda>x. x = a1) k1 k2" "program_ok env k2"
    "\<forall>j. j \<noteq> i1 \<longrightarrow> proc_fds k2 ! j = proc_fds k1 ! j" "reading k2 i1 a1 (first_line n1) (next_lines n1)"
    "ended k2 a1 (next_lines n1) = (n1 = None)"
    using end_row_step [OF k1(3) r1] by blast
  have u2: "user_step (\<lambda>x. x = a1) k1 k2" using k2(2) by (simp add: silent_step_def)
  have "reading k2 i0 a0 (first_line n0) (next_lines n0)" "ended k2 a0 (next_lines n0) = (n0 = None)"
    using reading_kept [OF k1(5,3) u2] k2(4) t(1,2) k1(6) by auto
  moreover have "silent_step (frame_vars a0 a1) k k2"
    by (rule silent_step_trans [OF silent_mono [OF k1(2)] silent_mono [OF k2(2)]]) (simp_all add: frame_vars_def)
  ultimately show ?thesis using k1(1) k2 t(1,2) by (intro exI [of _ k1] exI [of _ k2]) (simp add: two_frames_def)
qed

text \<open>A frame fits the screen: at most 24 lines, from column 40 on, of at most 80 columns.\<close>

definition narrow :: "u8 list list \<Rightarrow> bool" where
  "narrow ls \<longleftrightarrow> (\<forall>l\<in>set ls. length l \<le> 80)"

lemma narrow_lines: "narrow (lines_of rest) \<Longrightarrow> length (first_line rest) \<le> 80 \<and> narrow (lines_of (next_lines rest))"
  by (cases "rest = None") (auto simp: narrow_def first_line_def lines_of.simps [of rest] next_lines_def)

lemma frame_rows_cells:
  assumes "program_ok env k" and "two_frames k i0 i1 a0 a1 (first_line r0) (next_lines r0) (first_line r1) (next_lines r1)"
    and "ended k a0 (next_lines r0) = (r0 = None)" "ended k a1 (next_lines r1) = (r1 = None)" "screen_mapped (vmem_base_addr b) k"
    and "narrow (lines_of r0)" "narrow (lines_of r1)" and "blinking b bs"
    and "length bs + 80 * max (length (lines_of r0)) (length (lines_of r1)) \<le> 2000"
    and "row + max (length (lines_of r0)) (length (lines_of r1)) \<le> 24"
  shows "\<exists>b' k'. frame_rows env (word_of_nat i0) (word_of_nat i1) a0 a1 s (word_of_nat row) (r0 = None) (r1 = None) b k = Some (b', k') \<and>
    adds env (frame_vars a0 a1) bs (frame_cells s row (lines_of r0) (lines_of r1)) b k b' k'"
  using assms
proof (induction "max (length (lines_of r0)) (length (lines_of r1))" arbitrary: r0 r1 row b k bs)
  case 0
  then have r: "r0 = None" "r1 = None" by simp_all
  have "adds env (frame_vars a0 a1) bs [] b k b k" by (rule adds_silent [OF silent_step_refl 0(2) 0(9)])
  then show ?case by (subst frame_rows.simps) (simp add: r frame_cells_def)
next
  case (Suc m)
  let ?W = "frame_vars a0 a1" and ?l0 = "first_line r0" and ?l1 = "first_line r1"
  let ?line = "line_cells s row 0 ?l0 ?l1"
  have some: "r0 \<noteq> None \<or> r1 \<noteq> None" using Suc.hyps(2) by (cases r0; cases r1) simp_all
  then have ls: "lines_of r0 \<noteq> [] \<or> lines_of r1 \<noteq> []" by simp
  have m: "m = max (length (lines_of (next_lines r0))) (length (lines_of (next_lines r1)))"
    using Suc.hyps(2) unfolding lines_of_step(1) [symmetric] by auto
  note narrow = narrow_lines [OF Suc.prems(6)] narrow_lines [OF Suc.prems(7)]
  have room: "length bs + max (length ?l0) (length ?l1) \<le> 2000" "row * 80 + 0 + max (length ?l0) (length ?l1) + 40 \<le> 2000"
    using Suc.prems(9,10) Suc.hyps(2) narrow by auto
  obtain b1 k1 where row: "frame_row env (word_of_nat i0) (word_of_nat i1) a0 a1 s (word_of_nat row) (word_of_nat 0)
      (ended k a0 (next_lines r0)) (ended k a1 (next_lines r1)) b k = Some (next_lines r0 = None, next_lines r1 = None, b1, k1)"
    "adds env ?W bs ?line b k b1 k1" "two_frames k1 i0 i1 a0 a1 [] (next_lines r0) [] (next_lines r1)"
    "vmem k1 a0 = 0x0A" "vmem k1 a1 = 0x0A"
    using frame_row_cells [OF Suc.prems(1,2,5,8) room] by blast
  have a1: "user_step ?W k k1" "program_ok env k1" "vmem_base_addr b1 = vmem_base_addr b" "blinking b1 (rev (map started ?line) @ bs)"
    using adds_fields [OF row(2)] by simp_all
  obtain k2 k3 where e: "end_row env (word_of_nat i0) a0 (next_lines r0 = None) k1 = Some k2"
    "end_row env (word_of_nat i1) a1 (next_lines r1 = None) k2 = Some k3" "silent_step ?W k1 k3" "program_ok env k3"
    "two_frames k3 i0 i1 a0 a1 (first_line (next_lines r0)) (next_lines (next_lines r0)) (first_line (next_lines r1)) (next_lines (next_lines r1))"
    "ended k3 a0 (next_lines (next_lines r0)) = (next_lines r0 = None)" "ended k3 a1 (next_lines (next_lines r1)) = (next_lines r1 = None)"
    using end_both [OF a1(2) row(3-5)] by (elim exE conjE) (rule that)
  have u3: "user_step ?W k1 k3" using e(3) by (simp add: silent_step_def)
  have map3: "screen_mapped (vmem_base_addr b1) k3"
    using Suc.prems(5) screen_mapped_step [OF a1(1)] screen_mapped_step [OF u3] a1(3) by simp
  have "length (rev (map started ?line) @ bs) \<le> 80 + length bs" using length_line_cells [of s row 0 ?l0 ?l1] narrow by (auto simp: max_def split: if_splits)
  then have fit: "length (rev (map started ?line) @ bs) + 80 * max (length (lines_of (next_lines r0))) (length (lines_of (next_lines r1))) \<le> 2000"
    "Suc row + max (length (lines_of (next_lines r0))) (length (lines_of (next_lines r1))) \<le> 24"
    using Suc.prems(9,10) Suc.hyps(2) m by simp_all
  obtain b' k' where r: "frame_rows env (word_of_nat i0) (word_of_nat i1) a0 a1 s (word_of_nat (Suc row))
      (next_lines r0 = None) (next_lines r1 = None) b1 k3 = Some (b', k')"
    "adds env ?W (rev (map started ?line) @ bs) (frame_cells s (Suc row) (lines_of (next_lines r0)) (lines_of (next_lines r1))) b1 k3 b' k'"
    using Suc.hyps(1) [OF m e(4-7) map3 conjunct2 [OF narrow(1)] conjunct2 [OF narrow(2)] a1(4) fit] by blast
  have "frame_rows env (word_of_nat i0) (word_of_nat i1) a0 a1 s (word_of_nat row) (r0 = None) (r1 = None) b k = Some (b', k')"
    using some row(1) e(1,2) r(1) Suc.prems(3,4) by (subst frame_rows.simps) (auto simp: add.commute)
  moreover have "adds env ?W bs (?line @ [] @ frame_cells s (Suc row) (lines_of (next_lines r0)) (lines_of (next_lines r1))) b k b' k'"
  proof (rule adds_trans [OF row(2)])
    show "adds env ?W (rev (map started ?line) @ bs)
      ([] @ frame_cells s (Suc row) (lines_of (next_lines r0)) (lines_of (next_lines r1))) b1 k1 b' k'"
      by (rule adds_trans [OF adds_silent [OF e(3,4) a1(4)]]) (use r(2) in simp)
  qed
  ultimately show ?case using frame_cells_step [OF ls, of s row] lines_of_step by simp
qed

section \<open>Opening the frames\<close>

definition free_fds :: "kernel \<Rightarrow> nat list" where
  "free_fds k = filter (\<lambda>i. flags (proc_fds k ! i) = 0) [2..<8]"

lemma find_filter: "filter P xs = y # ys \<Longrightarrow> find P xs = Some y"
  by (induction xs) (auto split: if_splits)

lemma free_fds_first: "free_fds k = i # is \<Longrightarrow> free_fd k = Some i"
  unfolding free_fds_def free_fd_def by (rule find_filter)

lemma free_fds_open:
  assumes "free_fds k = i # is" and "proc_fds k' = (proc_fds k)[i := new_descriptor ops ino]" and "length (proc_fds k) = 8"
  shows "free_fds k' = is" "2 \<le> i" "i < 8" "i \<notin> set is"
proof -
  have "distinct (free_fds k)" unfolding free_fds_def by (intro distinct_filter distinct_upt)
  moreover have "i \<in> set (free_fds k)" using assms(1) by simp
  then have "2 \<le> i \<and> i < 8" by (simp add: free_fds_def del: upt_rec_numeral)
  ultimately show i: "2 \<le> i" "i < 8" "i \<notin> set is" using assms(1) by simp_all
  have "free_fds k' = filter (\<lambda>j. j \<noteq> i \<and> flags (proc_fds k ! j) = 0) [2..<8]"
    unfolding free_fds_def assms(2) using i(2) assms(3) by (intro filter_cong) (auto simp: nth_list_update new_descriptor_def simp del: upt_rec_numeral)
  also have "\<dots> = filter (\<lambda>j. j \<noteq> i) (free_fds k)" by (simp add: free_fds_def conj_commute del: upt_rec_numeral)
  also have "\<dots> = is" using i(3) unfolding assms(1) by (simp, intro filter_True ballI) auto
  finally show "free_fds k' = is" .
qed

lemma open_frame:
  assumes ok: "program_ok env k" and str: "user_string k a xs" and look: "lookup_name k xs = Some d" "filetype d = 2"
    and free: "free_fds k = i # is" and fl: "file_ok (FILESYSLOC k) (vmem k) (inodeNumber d)"
  shows "\<exists>k'. ece391_open env a k = Some (word_of_nat i, k') \<and> silent_step (\<lambda>_. False) k k' \<and> program_ok env k' \<and>
    free_fds k' = is \<and> (\<forall>j. j \<noteq> i \<longrightarrow> proc_fds k' ! j = proc_fds k ! j) \<and> vmem k' = vmem k \<and>
    frame_at k' i (file_contents (FILESYSLOC k) (vmem k) (inodeNumber d))"
proof -
  have len8: "length (proc_fds k) = 8" using ok by (simp add: program_ok_def)
  have o: "opened_file d = Some (fops_file, inodeNumber d)" using look(2) by (simp add: opened_file_def)
  have "free_fd k = Some i" by (rule free_fds_first [OF free])
  from user_open [OF ok str look(1) this o, of "\<lambda>_. False"] obtain k' where
    k': "ece391_open env a k = Some (word_of_nat i, k')" "silent_step (\<lambda>_. False) k k'" "program_ok env k'"
      "proc_fds k' = (proc_fds k)[i := new_descriptor fops_file (inodeNumber d)]" "vmem k' = vmem k" by blast
  note f = free_fds_open [OF free k'(4) len8]
  have "user_step (\<lambda>_. False) k k'" using k'(2) by (simp add: silent_step_def)
  then have "FILESYSLOC k' = FILESYSLOC k" by (rule user_step_fields)
  then have "frame_at k' i (file_contents (FILESYSLOC k) (vmem k) (inodeNumber d))"
    using fl len8 f(3) by (simp add: frame_at_def k'(4,5) new_descriptor_def)
  then show ?thesis using k' f(1) by auto
qed

lemma small_fd_signed: "i < 8 \<Longrightarrow> \<not> (word_of_nat i :: u32) <s 0"
  by (simp add: word_sless_alt sint_small unat_of_nat take_bit_eq_mod)

lemma two_stores:
  assumes ok: "program_ok env k" and vars: "in_user_page a0" "in_user_page a1" "a0 \<noteq> a1"
  shows "\<exists>k1 k2. user_store a0 c k = Some k1 \<and> user_store a1 c k1 = Some k2 \<and> silent_step (frame_vars a0 a1) k k2 \<and>
    program_ok env k2 \<and> proc_fds k2 = proc_fds k \<and> vmem k2 a0 = c \<and> vmem k2 a1 = c"
proof -
  obtain k1 where k1: "user_store a0 c k = Some k1" "silent_step (\<lambda>x. x = a0) k k1" "program_ok env k1"
    "proc_fds k1 = proc_fds k" "vmem k1 a0 = c"
    using user_store_step [OF ok vars(1)] by blast
  obtain k2 where k2: "user_store a1 c k1 = Some k2" "silent_step (\<lambda>x. x = a1) k1 k2" "program_ok env k2"
    "proc_fds k2 = proc_fds k1" "vmem k2 a1 = c"
    using user_store_step [OF k1(3) vars(2)] by blast
  have "silent_step (frame_vars a0 a1) k k2"
    by (rule silent_step_trans [OF silent_mono [OF k1(2)] silent_mono [OF k2(2)]]) (simp_all add: frame_vars_def)
  moreover have u: "user_step (\<lambda>x. x = a1) k1 k2" using k2(2) by (simp add: silent_step_def)
  have "vmem k2 a0 = c" using user_step_vmem [OF u _ _ vars(1)] k1(3,5) vars(3) by (simp add: program_ok_def)
  ultimately show ?thesis using k1 k2 by auto
qed

definition frame_file :: "kernel \<Rightarrow> addr \<Rightarrow> u8 list \<Rightarrow> u8 list \<Rightarrow> bool" where
  "frame_file k f xs contents \<longleftrightarrow> user_string k f xs \<and>
     (\<exists>d. lookup_name k xs = Some d \<and> filetype d = 2 \<and> file_ok (FILESYSLOC k) (vmem k) (inodeNumber d) \<and>
       contents = file_contents (FILESYSLOC k) (vmem k) (inodeNumber d))"

lemma frame_file_kept:
  assumes "frame_file k f xs c" and ok: "program_ok env k" and step: "user_step W k k'"
    and "\<And>i. i \<le> length xs \<Longrightarrow> \<not> W (f + word_of_nat i)"
  shows "frame_file k' f xs c"
proof -
  obtain d where d: "lookup_name k xs = Some d" "filetype d = 2" "file_ok (FILESYSLOC k) (vmem k) (inodeNumber d)"
    "c = file_contents (FILESYSLOC k) (vmem k) (inodeNumber d)"
    using assms(1) by (auto simp: frame_file_def)
  have "user_string k' f xs" using assms(1) by (intro user_string_kept [OF _ step ok assms(4)]) (simp_all add: frame_file_def)
  then show ?thesis
    using d step_lookup [OF ok step] same_image_file_contents(3,4) [OF user_step_image(2) [OF step ok] d(3)]
    by (simp add: frame_file_def user_step_fields(1) [OF step])
qed

lemma open_frame_file:
  assumes ok: "program_ok env k" and ff: "frame_file k f xs c" and free: "free_fds k = i # is"
  shows "\<exists>k'. ece391_open env f k = Some (word_of_nat i, k') \<and> silent_step (\<lambda>_. False) k k' \<and> program_ok env k' \<and>
    free_fds k' = is \<and> (\<forall>j. j \<noteq> i \<longrightarrow> proc_fds k' ! j = proc_fds k ! j) \<and> vmem k' = vmem k \<and> frame_at k' i c"
  using ff open_frame [OF ok _ _ _ free] unfolding frame_file_def by blast

lemma open_both:
  assumes ok: "program_ok env k" and ff: "frame_file k f0 xs0 c0" "frame_file k f1 xs1 c1" and free: "free_fds k = i0 # i1 # is"
  shows "\<exists>k1 k2. ece391_open env f0 k = Some (word_of_nat i0, k1) \<and> ece391_open env f1 k1 = Some (word_of_nat i1, k2) \<and>
    silent_step (\<lambda>_. False) k k2 \<and> program_ok env k2 \<and> vmem k2 = vmem k \<and> frame_at k2 i0 c0 \<and> frame_at k2 i1 c1"
proof -
  obtain k1 where k1: "ece391_open env f0 k = Some (word_of_nat i0, k1)" "silent_step (\<lambda>_. False) k k1" "program_ok env k1"
    "free_fds k1 = i1 # is" "vmem k1 = vmem k" "frame_at k1 i0 c0"
    using open_frame_file [OF ok ff(1) free] by blast
  have u1: "user_step (\<lambda>_. False) k k1" using k1(2) by (simp add: silent_step_def)
  have "frame_file k1 f1 xs1 c1" by (rule frame_file_kept [OF ff(2) ok u1]) simp
  from open_frame_file [OF k1(3) this k1(4)] obtain k2 where
    k2: "ece391_open env f1 k1 = Some (word_of_nat i1, k2)" "silent_step (\<lambda>_. False) k1 k2" "program_ok env k2"
      "\<forall>j. j \<noteq> i1 \<longrightarrow> proc_fds k2 ! j = proc_fds k1 ! j" "vmem k2 = vmem k1" "frame_at k2 i1 c1" by blast
  have u2: "user_step (\<lambda>_. False) k1 k2" using k2(2) by (simp add: silent_step_def)
  have "distinct (free_fds k)" unfolding free_fds_def by (intro distinct_filter distinct_upt)
  then have "i0 \<noteq> i1" using free by simp
  then have "frame_at k2 i0 c0" using frame_kept [OF k1(6,3) u2] k2(4) by simp
  then show ?thesis using k1 k2 silent_step_trans [OF k1(2) k2(2)] by auto
qed

text \<open>
  \<^verbatim>\<open>add_frames\<close> with the page of the screen mapped and an empty list.
\<close>

lemma add_frames_cells:
  assumes ok: "program_ok env k" and map: "screen_mapped (vmem_base_addr b) k" and empty: "blinking b []"
    and vars: "in_user_page a0" "in_user_page a1" "a0 \<noteq> a1"
    and file0: "frame_file k f0 xs0 c0" "\<And>i. i \<le> length xs0 \<Longrightarrow> \<not> frame_vars a0 a1 (f0 + word_of_nat i)"
    and file1: "frame_file k f1 xs1 c1" "\<And>i. i \<le> length xs1 \<Longrightarrow> \<not> frame_vars a0 a1 (f1 + word_of_nat i)"
    and free: "free_fds k = i0 # i1 # is"
    and fit: "narrow (lines_of (Some c0))" "length (lines_of (Some c0)) \<le> 24"
      "narrow (lines_of (Some c1))" "length (lines_of (Some c1)) \<le> 24"
  shows "\<exists>b' k'. add_frames env f0 f1 a0 a1 junk b k = Some (Inr (b', k')) \<and> adds env (frame_vars a0 a1) []
    (frame_cells (junk\<lparr>on_length := 15, off_length := 15\<rparr>) 0 (lines_of (Some c0)) (lines_of (Some c1))) b k b' k'"
proof -
  let ?W = "frame_vars a0 a1" and ?c = "of_char (CHR ''0'') :: u8" and ?s = "junk\<lparr>on_length := 15, off_length := 15\<rparr>"
  let ?l0 = "first_line (Some c0)" and ?n0 = "next_lines (Some c0)" and ?l1 = "first_line (Some c1)" and ?n1 = "next_lines (Some c1)"
  obtain k1 k2 where k2: "user_store a0 ?c k = Some k1" "user_store a1 ?c k1 = Some k2" "silent_step ?W k k2" "program_ok env k2"
    "proc_fds k2 = proc_fds k" "vmem k2 a0 = ?c" "vmem k2 a1 = ?c"
    using two_stores [OF ok vars] by blast
  have u2: "user_step ?W k k2" using k2(3) by (simp add: silent_step_def)
  have free2: "free_fds k2 = i0 # i1 # is" using free by (simp add: free_fds_def k2(5) del: upt_rec_numeral)
  have files: "frame_file k2 f0 xs0 c0" "frame_file k2 f1 xs1 c1"
    by (rule frame_file_kept [OF file0(1) ok u2 file0(2)], assumption) (rule frame_file_kept [OF file1(1) ok u2 file1(2)], assumption)
  obtain k3 k4 where k4: "ece391_open env f0 k2 = Some (word_of_nat i0, k3)" "ece391_open env f1 k3 = Some (word_of_nat i1, k4)"
    "silent_step (\<lambda>_. False) k2 k4" "program_ok env k4" "vmem k4 = vmem k2" "frame_at k4 i0 c0" "frame_at k4 i1 c1"
    using open_both [OF k2(4) files free2] by blast
  have dist: "distinct (free_fds k)" unfolding free_fds_def by (intro distinct_filter distinct_upt)
  have "i0 \<in> set (free_fds k)" "i1 \<in> set (free_fds k)" using free by simp_all
  then have "2 \<le> i0 \<and> i0 < 8 \<and> 2 \<le> i1 \<and> i1 < 8" by (simp add: free_fds_def del: upt_rec_numeral)
  then have i: "2 \<le> i0" "i0 < 8" "2 \<le> i1" "i1 < 8" "i0 \<noteq> i1" using free dist by simp_all
  have fr: "frame_at k4 i0 (?l0 @ after_line ?n0)" "frame_at k4 i1 (?l1 @ after_line ?n1)"
    using k4(6,7) unfolding first_line_split(2) [symmetric] by simp_all
  have two: "two_frames k4 i0 i1 a0 a1 ?l0 ?n0 ?l1 ?n1"
    using i vars fr k2(6,7) first_line_split(1) frame_closable [OF fr(1)] frame_closable [OF fr(2)]
    by (simp add: two_frames_def reading_def k4(5))
  have ends: "ended k4 a0 ?n0 = (Some c0 = None)" "ended k4 a1 ?n1 = (Some c1 = None)" using k2(6,7) by (simp_all add: ended_def k4(5))
  have s4: "silent_step ?W k k4" by (rule silent_step_trans [OF k2(3) silent_mono [OF k4(3)]]) simp
  have u4: "user_step ?W k k4" using s4 by (simp add: silent_step_def)
  have map4: "screen_mapped (vmem_base_addr b) k4" using map screen_mapped_step [OF u4] by simp
  have room: "length ([] :: mp1_blink_struct list) + 80 * max (length (lines_of (Some c0))) (length (lines_of (Some c1))) \<le> 2000"
    "0 + max (length (lines_of (Some c0))) (length (lines_of (Some c1))) \<le> 24"
    using fit by simp_all
  obtain b' k' where r: "frame_rows env (word_of_nat i0) (word_of_nat i1) a0 a1 ?s (word_of_nat 0) (Some c0 = None) (Some c1 = None) b k4 =
      Some (b', k')" "adds env ?W [] (frame_cells ?s 0 (lines_of (Some c0)) (lines_of (Some c1))) b k4 b' k'"
    using frame_rows_cells [OF k4(4) two ends map4 fit(1,3) empty room] by blast
  have "add_frames env f0 f1 a0 a1 junk b k = Some (Inr (b', k'))"
    using k2(1,2) k4(1,2) r(1) small_fd_signed [OF i(2)] small_fd_signed [OF i(4)] by (simp add: add_frames_def)
  moreover have "adds env ?W [] ([] @ frame_cells ?s 0 (lines_of (Some c0)) (lines_of (Some c1))) b k b' k'"
    by (rule adds_trans [OF adds_silent [OF s4 k4(4) empty]]) (use r(2) in simp)
  ultimately show ?thesis by auto
qed

section \<open>The page of the screen is mapped\<close>

lemma remap_screen:
  assumes ok: "program_ok env k" and linked: "tables_linked k"
  defines "k' \<equiv> table_remap VIDMAP_ADDR VIDEO k"
  shows "program_ok env k'" "screen_mapped VIDMAP_ADDR k'" "fore_console k' = fore_console k" "proc_fds k' = proc_fds k"
    "same_image (FILESYSLOC k) (vmem k) (vmem k')" "FILESYSLOC k' = FILESYSLOC k"
    "in_user_page v \<Longrightarrow> vmem k' v = vmem k v"
proof -
  have div: "VIDMAP_ADDR div CONVERT_4MB = 34" by (simp add: VIDMAP_ADDR_def CONVERT_4MB_def)
  have pd: "page_directory k' = (page_directory k)(34 := user_page_table_addr k OR PAGE_TABLE_PRESENT_ENTRY)"
    by (simp add: k'_def table_remap_def flush_tlb_def Let_def div)
  have um: "user_mapped k" "kernel_mapped k" "image_in_kernel k" "directory_ok (FILESYSLOC k) (vmem k)"
    using ok by (simp_all add: program_ok_def)
  have frame: "user_frame k' = user_frame k" "user_mapped k' = user_mapped k" "kernel_mapped k' = kernel_mapped k"
    using um by (simp_all add: user_frame_def user_mapped_def kernel_mapped_def pd k'_def paging_on_def)
      (simp_all add: table_remap_def flush_tlb_def Let_def div)
  have loc: "FILESYSLOC k' = FILESYSLOC k" by (simp add: k'_def table_remap_def flush_tlb_def Let_def)
  then show "FILESYSLOC k' = FILESYSLOC k" .
  have "same_files k k'" using um by (simp add: same_files_def loc frame(3)) (simp add: k'_def)
  then show img: "same_image (FILESYSLOC k) (vmem k) (vmem k')" by (rule same_files_image)
  show fds: "proc_fds k' = proc_fds k" by (simp add: k'_def proc_fds_def current_process_def)
  show "fore_console k' = fore_console k" by (simp add: k'_def fore_console_def)
  show "in_user_page v \<Longrightarrow> vmem k' v = vmem k v"
    using um(1) by (simp add: user_vmem frame) (simp add: k'_def)
  note dir = same_image_directory(2,3) [OF img um(4)]
  have "get_pcb_ptr (enter_kernel env k') = get_pcb_ptr (enter_kernel env k)" "current_process k' = current_process k"
    by (simp_all add: get_pcb_ptr_def enter_kernel_def k'_def current_process_def)
  then show "program_ok env k'"
    using ok dir unfolding program_ok_def frame loc fds image_in_kernel_def by (simp add: k'_def screen_ok_def)
  have "paging_on k" using um(1) by (simp add: user_mapped_def)
  then show "screen_mapped VIDMAP_ADDR k'"
    unfolding screen_mapped_def k'_def using linked video_aligned(1)
    by (intro allI impI table_remap_maps) (simp_all add: word_less_unat)
qed

lemma frame_file_remap:
  assumes ok: "program_ok env k" and linked: "tables_linked k" and "frame_file k f xs c"
  shows "frame_file (table_remap VIDMAP_ADDR VIDEO k) f xs c"
proof -
  let ?k = "table_remap VIDMAP_ADDR VIDEO k"
  note r = remap_screen [OF ok linked]
  obtain d where d: "user_string k f xs" "lookup_name k xs = Some d" "filetype d = 2" "file_ok (FILESYSLOC k) (vmem k) (inodeNumber d)"
    "c = file_contents (FILESYSLOC k) (vmem k) (inodeNumber d)"
    using assms(3) by (auto simp: frame_file_def)
  have "directory_ok (FILESYSLOC k) (vmem k)" using ok by (simp add: program_ok_def)
  note look = same_image_lookup(1) [OF r(5,6) this]
  have "user_string ?k f xs" using d(1) cstr_ptr_cong [of f "vmem k" xs "vmem ?k"] r(7) by (simp add: user_string_def)
  then show ?thesis using d(2-5) look same_image_file_contents(3,4) [OF r(5) d(4)] by (simp add: frame_file_def r(6))
qed

text \<open>What \<^verbatim>\<open>mp1_set_video_mode\<close> gives to the list.\<close>

lemma video_mode_maps:
  assumes ok: "program_ok env k" and linked: "tables_linked k" and page: "\<And>i. i < 4 \<Longrightarrow> in_user_page (pv + word_of_nat i)"
  shows "\<exists>k'. mp1_set_video_mode env pv b k = Some (VIDMAP_ADDR, b\<lparr>vmem_base_addr := VIDMAP_ADDR\<rparr>, k') \<and>
    program_ok env k' \<and> screen_mapped VIDMAP_ADDR k' \<and> fore_console k' = fore_console k \<and> proc_fds k' = proc_fds k \<and>
    (\<forall>f xs c. frame_file k f xs c \<and> (\<forall>i\<le>length xs. \<not> in_range pv 4 (f + word_of_nat i)) \<longrightarrow> frame_file k' f xs c)"
proof -
  let ?t = "trapped env k"
  let ?k = "table_remap VIDMAP_ADDR VIDEO ?t"
  let ?xs = "[ucast VIDMAP_ADDR, ucast (drop_bit 8 VIDMAP_ADDR), ucast (drop_bit 16 VIDMAP_ADDR), ucast (drop_bit 24 VIDMAP_ADDR)] :: u8 list"
  let ?k' = "set_vmem (write_bytes pv ?xs (vmem ?k)) ?k"
  have tok: "program_ok env ?t" by (rule trapped_ok [OF ok])
  have tl: "tables_linked ?t" using linked by (simp add: tables_linked_def trapped_def)
  note r = remap_screen [OF tok tl]
  have um: "user_mapped ?k" using r(1) by (simp add: program_ok_def)
  have pagex: "\<And>i. i < length ?xs \<Longrightarrow> in_user_page (pv + word_of_nat i)" using page by simp
  have len: "length ?xs < 4294967296" by simp
  note silent = silent_buffer [OF r(1) pagex len]
  have u: "user_step (in_range pv (length ?xs)) ?k ?k'" using silent(1) by (simp add: silent_step_def)
  have p0: "in_user_page pv" using page [of 0] by simp
  have nz: "pv \<noteq> 0" "pv \<noteq> 0x400000" using user_page_0 [OF p0] user_page_unat [OF p0] by auto
  have fl: "sti ?k' = ?k'" by (simp add: sti_def set_vmem_def table_remap_def flush_tlb_def Let_def trapped_def)
  have call: "ece391_vidmap env pv k = Some (VIDMAP_ADDR, ?k')"
    using nz fl by (simp add: ece391_vidmap_def DO_CALL_def SYS_VIDMAP_def int80_calls vidmap_def store_user32_def store32_write)
  have "bytes (vmem ?k') pv 4 = ?xs" using buffer_bytes [OF r(1) page, of 4 ?xs] by simp
  moreover have "load32 m pv = VIDMAP_ADDR" if "bytes m pv 4 = ?xs" for m
    using that by (simp add: bytes_4 load32_def VIDMAP_ADDR_def)
  ultimately have "load32 (vmem ?k') pv = VIDMAP_ADDR" by blast
  moreover have "VIDMAP_ADDR \<noteq> - 1" by (simp add: VIDMAP_ADDR_def)
  ultimately have "mp1_set_video_mode env pv b k = Some (VIDMAP_ADDR, b\<lparr>vmem_base_addr := VIDMAP_ADDR\<rparr>, ?k')"
    by (simp add: mp1_set_video_mode_def call)
  moreover have "frame_file ?k' f xs c" if f: "frame_file k f xs c" "\<And>i. i \<le> length xs \<Longrightarrow> \<not> in_range pv 4 (f + word_of_nat i)" for f xs c
  proof -
    have "user_step (\<lambda>_. False) k ?t" using silent_trapped by (simp add: silent_step_def)
    from frame_file_remap [OF tok tl frame_file_kept [OF f(1) ok this]] have "frame_file ?k f xs c" by simp
    moreover have l4: "length ?xs = 4" by simp
    have "\<And>i. i \<le> length xs \<Longrightarrow> \<not> in_range pv (length ?xs) (f + word_of_nat i)" unfolding l4 by (rule f(2))
    ultimately show ?thesis by (intro frame_file_kept [OF _ r(1) u])
  qed
  ultimately show ?thesis
    using silent r(2-4) screen_mapped_step [OF u] by (intro exI [of _ ?k']) (simp add: silent_step_def)
qed

section \<open>The frames on the screen\<close>

text \<open>
  C8. \<^verbatim>\<open>fish\<close> maps the screen and draws its frames: for every row and column where one of them has a
  character that is not a blank, a structure with the characters of both (a blank where a line is
  over) is in the list, blinking from now on, and the character of the first frame is on the
  screen, 40 columns to the right. Nothing else on the screen changes.
\<close>

theorem fish_draws_frames:
  assumes "program_ok env k" and "tables_linked k" and "\<forall>i<4. in_user_page (pv + word_of_nat i)"
    and "in_user_page a0" "in_user_page a1" "a0 \<noteq> a1"
    and "frame_file k f0 xs0 c0" "\<forall>i\<le>length xs0. \<not> in_range pv 4 (f0 + word_of_nat i) \<and> f0 + word_of_nat i \<notin> {a0, a1}"
    and "frame_file k f1 xs1 c1" "\<forall>i\<le>length xs1. \<not> in_range pv 4 (f1 + word_of_nat i) \<and> f1 + word_of_nat i \<notin> {a0, a1}"
    and "free_fds k = i0 # i1 # is"
    and "narrow (lines_of (Some c0))" "length (lines_of (Some c0)) \<le> 24" "narrow (lines_of (Some c1))" "length (lines_of (Some c1)) \<le> 24"
    and "cells = frame_cells (junk\<lparr>on_length := 15, off_length := 15\<rparr>) 0 (lines_of (Some c0)) (lines_of (Some c1))"
  shows "\<exists>base b1 k1 b' k'. mp1_set_video_mode env pv (blink_init 0 (vmem k)) k = Some (base, b1, k1) \<and>
    add_frames env f0 f1 a0 a1 junk b1 k1 = Some (Inr (b', k')) \<and>
    blinking b' (rev (map started cells)) \<and> fore_console k' = apfst (show_structs cells) (fore_console k)"
proof -
  have page: "\<And>i. i < 4 \<Longrightarrow> in_user_page (pv + word_of_nat i)" using assms(3) by blast
  let ?b = "(blink_init 0 (vmem k))\<lparr>vmem_base_addr := VIDMAP_ADDR\<rparr>"
  obtain k1 where k1: "mp1_set_video_mode env pv (blink_init 0 (vmem k)) k = Some (VIDMAP_ADDR, ?b, k1)" "program_ok env k1"
    "screen_mapped VIDMAP_ADDR k1" "fore_console k1 = fore_console k" "proc_fds k1 = proc_fds k"
    "frame_file k1 f0 xs0 c0" "frame_file k1 f1 xs1 c1"
    using video_mode_maps [OF assms(1,2) page, of "blink_init 0 (vmem k)"] assms(7-10) by blast
  have map: "screen_mapped (vmem_base_addr ?b) k1" using k1(3) by simp
  have empty: "blinking ?b []" by (simp add: blinking_def chain_def blink_init_def zero_struct_def)
  have free: "free_fds k1 = i0 # i1 # is" using assms(11) by (simp add: free_fds_def k1(5) del: upt_rec_numeral)
  have apart: "\<And>i. i \<le> length xs0 \<Longrightarrow> \<not> frame_vars a0 a1 (f0 + word_of_nat i)" "\<And>i. i \<le> length xs1 \<Longrightarrow> \<not> frame_vars a0 a1 (f1 + word_of_nat i)"
    using assms(8,10) by (simp_all add: frame_vars_def)
  obtain b' k' where r: "add_frames env f0 f1 a0 a1 junk ?b k1 = Some (Inr (b', k'))"
    "adds env (frame_vars a0 a1) [] cells ?b k1 b' k'"
    using add_frames_cells [OF k1(2) map empty assms(4-6) k1(6) apart(1) k1(7) apart(2) free assms(12-15), of junk] assms(16) by blast
  then have "blinking b' (rev (map started cells))" "fore_console k' = apfst (show_structs cells) (fore_console k)"
    using k1(4) by (simp_all add: adds_def)
  then show ?thesis using k1(1) r(1) by blast
qed

lemma fish_draws_frames_witness:
  "\<exists>base b1 k1 b' k'. mp1_set_video_mode (program_env [''frame0'']) 0x8000000 (blink_init 0 (vmem (program_kernel [''frame0''] [] [])))
      (program_kernel [''frame0''] [] []) = Some (base, b1, k1) \<and>
    add_frames (program_env [''frame0'']) (u_lit (program_env [''frame0'']) ''frame0'') (u_lit (program_env [''frame0'']) ''frame0'')
      0x8000004 0x8000005 zero_struct b1 k1 = Some (Inr (b', k')) \<and>
    fore_console k' = apfst (\<lambda>t. t[40 := 0x48, 41 := 0x65, 42 := 0x6C, 43 := 0x6C, 44 := 0x6F])
      (fore_console (program_kernel [''frame0''] [] []))"
proof -
  let ?l = "[''frame0'']" and ?f = "ascii ''frame0''" and ?c = "ascii ''Hello''"
  let ?env = "program_env ?l" and ?k = "program_kernel ?l [] []"
  let ?a = "u_lit ?env ''frame0''"
  let ?cells = "frame_cells (zero_struct\<lparr>on_length := 15, off_length := 15\<rparr>) 0 (lines_of (Some ?c)) (lines_of (Some ?c))"
  have "literals_ok ?env (in_range 0x8000000 6) ?k (set ?l)" by (rule program_literals) (simp_all add: ascii_def)
  then have lit: "user_string ?k ?a ?f" "\<forall>i\<le>length ?f. \<not> in_range 0x8000000 6 (?a + word_of_nat i)"
    by (simp_all add: literals_ok_def)
  have apart: "\<forall>i\<le>length ?f. \<not> in_range 0x8000000 4 (?a + word_of_nat i) \<and> ?a + word_of_nat i \<notin> {0x8000004, 0x8000005}"
    using lit(2) by (auto simp: in_range_def)
  obtain d where d: "lookup_name ?k ?f = Some d" "filetype d = 2" "inodeNumber d = 0"
    using sample_lookup(3) by (auto simp: program_lookup)
  note same = same_image_file_contents [OF program_image(2) [of ?l "[]" "[]"] sample_file_ok]
  have "file_ok (FILESYSLOC ?k) (vmem ?k) (inodeNumber d)" "?c = file_contents (FILESYSLOC ?k) (vmem ?k) (inodeNumber d)"
    using same sample_contents by (simp_all add: d(3) program_image(1)) (simp add: ascii_def)
  then have ff: "frame_file ?k ?a ?f ?c" using lit(1) d by (auto simp: frame_file_def)
  have linked: "tables_linked ?k"
    using some_kernel_linked by (simp add: program_kernel_def sample_kernel_def tables_linked_def page_remap_def paging_init_def Let_def
      flush_tlb_def init_pages_eq)
  have page: "\<forall>i<4. in_user_page (0x8000000 + word_of_nat i)" using program_page [of 4] by simp
  have vars: "in_user_page 0x8000004" "in_user_page 0x8000005" "(0x8000004 :: addr) \<noteq> 0x8000005" by (simp_all add: in_user_page_def)
  have free: "free_fds ?k = 2 # 3 # [4, 5, 6, 7]"
    by (simp add: free_fds_def proc_fds_def program_kernel_def program_pcb_def std_fds_def)
  have lines: "lines_of (Some ?c) = [?c]"
    by (subst lines_of.simps) (simp add: first_line_def next_lines_def ascii_def)
  have fit: "narrow (lines_of (Some ?c))" "length (lines_of (Some ?c)) \<le> 24" by (simp_all add: lines narrow_def)
  have "show_structs ?cells = (\<lambda>t. t[40 := 0x48, 41 := 0x65, 42 := 0x6C, 43 := 0x6C, 44 := 0x6F])"
    unfolding lines by (simp add: fun_eq_iff show_structs_def frame_cells_def line_cells_def cell_def ascii_def)
  then show ?thesis
    using fish_draws_frames [OF program_kernel_ok linked page vars ff apart ff apart free fit fit refl, of zero_struct] by auto
qed

end
