(* ===== verification/Signals.thy ===== *)
theory Signals
  imports User_Programs
begin

text \<open>
  Two more programs: \<^verbatim>\<open>syscalls/ece391sigtest.c\<close>, which writes through a null pointer, and
  \<^verbatim>\<open>syscalls/ece391pingpong.c\<close>, which moves a character between two walls.
\<close>

unbundle bit_operations_syntax

section \<open>Definitions\<close>

subsection \<open>sigtest\<close>

definition SEGFAULT :: i32 where "SEGFAULT = 1"
definition ALARM :: i32 where "ALARM = 3"

text \<open>The handlers are at \<open>h SEGFAULT\<close> and \<open>h ALARM\<close>; what the calls return is not looked at.\<close>

definition sigtest_install :: "user_env \<Rightarrow> addr \<Rightarrow> (i32 \<Rightarrow> addr) \<Rightarrow> kernel \<Rightarrow> kernel option" where
  "sigtest_install env buf h k =
     (if vmem k buf = of_char (CHR ''1'') then do {
        k \<leftarrow> print_lit env (''Installing signal handlers'' @ newline) k;
        (r, k) \<leftarrow> ece391_set_handler env SEGFAULT (h SEGFAULT) k;
        (r, k) \<leftarrow> ece391_set_handler env ALARM (h ALARM) k;
        Some k }
      else Some k)"

text \<open>
  The static variables are in the memory of the program: \<^verbatim>\<open>badbuf\<close> at \<open>pbad\<close>, where the linker has
  put \<^verbatim>\<open>NULL\<close>, and \<^verbatim>\<open>charbuf\<close> at \<open>charbuf\<close>. When the store through \<^verbatim>\<open>badbuf\<close> has no page the
  processor calls the handler that the kernel has for page faults; the result is then the one of
  the handler (\<open>Inl\<close>), otherwise the one of \<^verbatim>\<open>main\<close> (\<open>Inr\<close>).
\<close>

definition sigtest_rest :: "user_env \<Rightarrow> addr \<Rightarrow> addr \<Rightarrow> i32 \<Rightarrow> kernel \<Rightarrow> (i32 \<times> kernel) option" where
  "sigtest_rest env buf charbuf cnt k = do {
     k \<leftarrow> user_store (buf + cnt) 0 k;
     k \<leftarrow> print_lit env ''Hello, '' k;
     k \<leftarrow> ece391_fdputs env 1 buf k;
     map_option (Pair 0) (if vmem k charbuf = 1 then print_lit env (''success'' @ newline) k
       else print_lit env (''failure'' @ newline) k) }"

definition sigtest_main :: "user_env \<Rightarrow> addr \<Rightarrow> addr \<Rightarrow> addr \<Rightarrow> (i32 \<Rightarrow> addr) \<Rightarrow> kernel \<Rightarrow> (panic + i32 \<times> kernel) option" where
  "sigtest_main env pbad buf charbuf h k = do {
     (r, k) \<leftarrow> ece391_getargs env buf BUFSIZE k;
     if r \<noteq> 0 then map_option (\<lambda>k. Inr (3, k)) (print_lit env (''could not read argument'' @ newline) k)
     else do {
       k \<leftarrow> sigtest_install env buf h k;
       k \<leftarrow> print_lit env ''Hi, what's your name? '' k;
       (cnt, k) \<leftarrow> ece391_read env 0 buf (BUFSIZE - 1) k;
       if cnt = - 1 then map_option (\<lambda>k. Inr (3, k)) (print_lit env (''Can't read name from keyboard.'' @ newline) k)
       else case user_store (load32 (vmem k) pbad) 1 k of
         None \<Rightarrow> map_option Inl (page_fault k)
       | Some k \<Rightarrow> map_option Inr (sigtest_rest env buf charbuf cnt k) } }"

text \<open>
  The two handlers, which never run on this kernel. The argument of the first is at \<open>sp\<close>, its
  local \<^verbatim>\<open>buf\<close> at \<open>b\<close>; it stores the address of \<^verbatim>\<open>charbuf\<close> in \<^verbatim>\<open>badbuf\<close> and where the saved
  register lies on the stack.
\<close>

definition print_signum :: "user_env \<Rightarrow> i32 \<Rightarrow> kernel \<Rightarrow> kernel option" where
  "print_signum env signum k = print_lit env
     ((if signum = 0 then ''0'' else if signum = 1 then ''1'' else if signum = 2 then ''2'' else if signum = 3 then ''3''
       else ''invalid'') @ newline) k"

definition segfault_sighandler :: "user_env \<Rightarrow> addr \<Rightarrow> addr \<Rightarrow> addr \<Rightarrow> addr \<Rightarrow> i32 \<Rightarrow> kernel \<Rightarrow> kernel option" where
  "segfault_sighandler env b sp pbad charbuf signum k = do {
     k \<leftarrow> print_lit env ''Segfault signal handler called, signum: '' k;
     k \<leftarrow> print_signum env signum k;
     k \<leftarrow> print_lit env (''Press enter to continue...'' @ newline) k;
     (r, k) \<leftarrow> ece391_read env 0 b 1 k;
     k \<leftarrow> Some (set_vmem (store32 pbad charbuf (vmem k)) k);
     print_lit env (''Signal handler returning'' @ newline) (set_vmem (store32 (sp + 28) charbuf (vmem k)) k) }"

definition alarm_sighandler :: "user_env \<Rightarrow> i32 \<Rightarrow> kernel \<Rightarrow> kernel option" where
  "alarm_sighandler env signum k = do {
     k \<leftarrow> print_lit env ''Alarm signal handler called, signum: '' k;
     print_signum env signum k }"

subsection \<open>pingpong\<close>

definition BUFMAX :: nat where "BUFMAX = 81"
definition STARTLOOP :: nat where "STARTLOOP = 2"
definition LOOPMAX :: nat where "LOOPMAX = 78"

definition set_chars :: "addr \<Rightarrow> nat list \<Rightarrow> u8 \<Rightarrow> mem \<Rightarrow> mem" where
  "set_chars buf js c m = fold (\<lambda>i m. m(buf + word_of_nat i := c)) js m"

definition pingpong_walls :: "addr \<Rightarrow> mem \<Rightarrow> mem" where
  "pingpong_walls buf m =
     (let m = set_chars buf [0..<BUFMAX] (of_char (CHR '' '')) m
      in m(buf + 80 := 0, buf + 79 := 0x0A, buf + 78 := of_char (CHR ''|''), buf + 1 := of_char (CHR ''|'')))"

definition pingpong_draw :: "addr \<Rightarrow> nat \<Rightarrow> u8 \<Rightarrow> mem \<Rightarrow> mem" where
  "pingpong_draw buf j curchar m = (set_chars buf [STARTLOOP..<LOOPMAX] (of_char (CHR '' '')) m)(buf + word_of_nat j := curchar)"

text \<open>The picture with the character at each of the places, and a tick of the clock after it.\<close>

primrec pingpong_pass :: "user_env \<Rightarrow> addr \<Rightarrow> i32 \<Rightarrow> addr \<Rightarrow> u8 \<Rightarrow> nat list \<Rightarrow> kernel \<Rightarrow> kernel option" where
  "pingpong_pass env buf fd g c [] k = Some k"
| "pingpong_pass env buf fd g c (j # js) k = do {
     k \<leftarrow> ece391_fdputs env 1 buf (set_vmem (pingpong_draw buf j c (vmem k)) k);
     (r, k) \<leftarrow> ece391_read env fd g 4 k;
     pingpong_pass env buf fd g c js k }"

partial_function (option) pingpong_loop :: "user_env \<Rightarrow> addr \<Rightarrow> i32 \<Rightarrow> addr \<Rightarrow> u8 \<Rightarrow> kernel \<Rightarrow> (i32 \<times> kernel) option" where
  "pingpong_loop env buf fd g curchar k = do {
     k \<leftarrow> pingpong_pass env buf fd g curchar [STARTLOOP..<LOOPMAX] k;
     k \<leftarrow> pingpong_pass env buf fd g curchar (rev [STARTLOOP..<LOOPMAX]) k;
     pingpong_loop env buf fd g (if curchar = of_char (CHR ''Z'') then of_char (CHR ''A'') else curchar + 1) k }"

text \<open>The local \<^verbatim>\<open>ret_val\<close> is at \<open>pr\<close>.\<close>

definition pingpong_main :: "user_env \<Rightarrow> addr \<Rightarrow> addr \<Rightarrow> addr \<Rightarrow> kernel \<Rightarrow> (i32 \<times> kernel) option" where
  "pingpong_main env buf pr g k = do {
     (fd, k) \<leftarrow> ece391_open env (u_lit env ''rtc'') (set_vmem (pingpong_walls buf (vmem k)) k);
     (r, k) \<leftarrow> ece391_write env fd pr 4 (set_vmem (store32 pr 32 (vmem k)) k);
     pingpong_loop env buf fd g (of_char (CHR ''A'')) (set_vmem (store32 pr r (vmem k)) k) }"

section \<open>The store through the null pointer\<close>

lemma user_set_handler: "ece391_set_handler env n h k = Some (- 1, trapped env k)"
proof -
  have "(8 :: u32) <s 9" by code_simp
  then show ?thesis by (simp add: ece391_set_handler_def DO_CALL_def SYS_SET_HANDLER_def int80_refused)
qed

definition sigtest_literals :: "string set" where
  "sigtest_literals = {''Installing signal handlers'' @ newline, ''Hi, what's your name? ''}"

lemma sigtest_plain: "37 \<notin> set (ascii (''Installing signal handlers'' @ newline))" "37 \<notin> set (ascii ''Hi, what's your name? '')"
  by (simp_all add: ascii_def newline_def)

definition install_text :: "u8 list \<Rightarrow> u8 list" where
  "install_text args = (if hd args = of_char (CHR ''1'') then ascii (''Installing signal handlers'' @ newline) else [])"

lemma sigtest_install_result:
  assumes ok: "program_ok env k" and lit: "literals_ok env W k sigtest_literals" and "vmem k buf = hd args"
  shows "\<exists>k'. sigtest_install env buf h k = Some k' \<and> prints env W k (install_text args) k' \<and> print_step k k'"
proof (cases "hd args = of_char (CHR ''1'')")
  case True
  have mem: "''Installing signal handlers'' @ newline \<in> sigtest_literals" by (simp add: sigtest_literals_def)
  obtain k1 where k1: "print_lit env (''Installing signal handlers'' @ newline) k = Some k1"
    "prints env W k (ascii (''Installing signal handlers'' @ newline)) k1" "print_step k k1"
    using print_lit_result [OF ok lit mem sigtest_plain(1)] by blast
  let ?k = "trapped env (trapped env k1)"
  have ok1: "program_ok env k1" using k1(2) by (simp add: prints_def)
  have "prints env W k1 ([] @ []) ?k" by (rule prints_trans [OF prints_trapped [OF ok1] prints_trapped [OF trapped_ok [OF ok1]]])
  from prints_trans [OF k1(2) this]
  have "prints env W k (install_text args) ?k" using True by (simp add: install_text_def)
  moreover have "print_step k ?k" by (rule print_step_trans [OF k1(3) print_step_trans [OF print_step_trapped print_step_trapped]])
  ultimately show ?thesis using True assms(3) k1(1) by (simp add: sigtest_install_def user_set_handler)
next
  case False
  have "print_step k k" by (rule print_stepI) simp_all
  then show ?thesis using False assms(3) prints_refl [OF ok] by (simp add: sigtest_install_def install_text_def)
qed

lemma sigtest_reaches_store:
  assumes ok: "program_ok env k" and lit: "literals_ok env (in_range buf 1024) k sigtest_literals"
    and args: "cstr (arr (argbuf (pcbs k (current_process k)))) args" "args \<noteq> []" "length args < 100"
    and page: "\<And>i. i < 1024 \<Longrightarrow> in_user_page (buf + word_of_nat i)" and line: "line_waiting k line"
  shows "\<exists>k' cnt. prints env (in_range buf 1024) k (install_text args @ ascii ''Hi, what's your name? '') k' \<and>
    sigtest_main env pbad buf charbuf h k = (case user_store (load32 (vmem k') pbad) 1 k' of
      None \<Rightarrow> map_option Inl (page_fault k') | Some k \<Rightarrow> map_option Inr (sigtest_rest env buf charbuf cnt k))"
proof -
  let ?W = "in_range buf 1024" and ?hi = "''Hi, what's your name? ''"
  have args1024: "length args < 1024" using args(3) by simp
  obtain k1 where k1: "ece391_getargs env buf 1024 k = Some (0, k1)" "silent_step ?W k k1" "program_ok env k1"
    "bytes (vmem k1) buf 1024 = args @ 0 # drop (Suc (length args)) (bytes (vmem k) buf 1024)" "line_waiting k1 line"
    using line user_getargs [OF ok args(1,2) args1024 page] by auto
  have s1: "user_step ?W k k1" using k1(2) by (simp add: silent_step_def)
  have lit1: "literals_ok env ?W k1 sigtest_literals" by (rule literals_kept [OF lit s1 ok])
  have "vmem k1 buf = bytes (vmem k1) buf 1024 ! 0" using nth_bytes [of 0 1024 "vmem k1" buf] by simp
  then have first: "vmem k1 buf = hd args" unfolding k1(4) using args(2) by (simp add: nth_append hd_conv_nth)
  obtain k2 where k2: "sigtest_install env buf h k1 = Some k2" "prints env ?W k1 (install_text args) k2" "print_step k1 k2"
    using sigtest_install_result [OF k1(3) lit1 first] by blast
  have ok2: "program_ok env k2" and s2: "user_step ?W k1 k2" using k2(2) by (simp_all add: prints_def)
  have lit2: "literals_ok env ?W k2 sigtest_literals" by (rule literals_kept [OF lit1 s2 k1(3)])
  have mem: "?hi \<in> sigtest_literals" by (simp add: sigtest_literals_def)
  obtain k3 where k3: "print_lit env ?hi k2 = Some k3" "prints env ?W k2 (ascii ?hi) k3" "print_step k2 k3"
    using print_lit_result [OF ok2 lit2 mem sigtest_plain(2)] by blast
  have ok3: "program_ok env k3" using k3(2) by (simp add: prints_def)
  have p23: "print_step k1 k3" by (rule print_step_trans [OF k2(3) k3(3)])
  have "screen_ok k3" using ok3 by (simp add: program_ok_def)
  then have "line_waiting k3 line" using line_waiting_print [OF p23 _ k1(5)] by blast
  then have keys: "keyboard_ok k3" "eflag (terminal k3 (term_ptr (pcbs k3 (current_process k3)))) \<noteq> 0"
    by (simp_all add: line_waiting_def)
  have n: "(127 :: nat) = min 127 (unat (1023 :: u32) - 1)" "unat (1023 :: u32) < 0x80000000" "1 < unat (1023 :: u32)" by simp_all
  obtain k4 where k4: "ece391_read env 0 buf 1023 k3 = Some (127, k4)" "silent_step (in_range buf 127) k3 k4" "program_ok env k4"
    using user_read_keys [OF ok3 keys n, of buf] page by auto
  have "silent_step ?W k3 k4" by (rule silent_mono [OF k4(2)]) (simp add: in_range_def)
  from prints_silent [OF this k4(3)] have p4: "prints env ?W k3 [] k4" .
  have "prints env ?W k (install_text args @ ascii ?hi) k4"
    using prints_after_silent [OF k1(2) prints_trans [OF k2(2) prints_trans [OF k3(2) p4]]] by simp
  moreover have "sigtest_main env pbad buf charbuf h k = (case user_store (load32 (vmem k4) pbad) 1 k4 of
      None \<Rightarrow> map_option Inl (page_fault k4) | Some k \<Rightarrow> map_option Inr (sigtest_rest env buf charbuf 127 k))"
    using k1(1) k2(1) k3(1) k4(1) small_word_facts(2) [of 127] by (simp add: sigtest_main_def BUFSIZE_def)
  ultimately show ?thesis by blast
qed

lemma page_fault_prints:
  assumes "screen_ok k"
  shows "\<exists>k'. page_fault k = Some (Stopped k') \<and> \<not> iflag k' \<and>
    fore_console k' = fold con_putc (ascii ''Page Fault'') (fore_console k)"
  unfolding page_fault_def by (rule panic_prints [OF assms]) (simp_all add: ascii_def)

lemma load32_kept:
  assumes "program_ok env k" and "user_step W k k'"
    and "\<forall>i<4. in_user_page (p + word_of_nat i) \<and> \<not> W (p + word_of_nat i)"
  shows "load32 (vmem k') p = load32 (vmem k) p"
proof -
  have "vmem k' (p + word_of_nat i) = vmem k (p + word_of_nat i)" if "i < 4" for i
    using user_step_vmem [OF assms(2)] assms(1,3) that by (simp add: program_ok_def)
  from this [of 0] this [of 1] this [of 2] this [of 3] show ?thesis by (simp add: load32_def)
qed

text \<open>
  C34. \<^verbatim>\<open>sigtest\<close> with a line waiting, whatever its argument: both calls of \<^verbatim>\<open>set_handler\<close> return
  -1 and install nothing, \<^verbatim>\<open>badbuf\<close> is \<^verbatim>\<open>NULL\<close> still when the program has read its line, and the
  write through it enters the kernel's handler for page faults. The run of the program ends there:
  the machine stands with interrupts off, and after the texts of the program the screen has the
  message of that handler, and nothing else.
\<close>

theorem sigtest_faults:
  assumes "program_ok env k" and "literals_ok env (in_range buf 1024) k sigtest_literals"
    and "cstr (arr (argbuf (pcbs k (current_process k)))) args" "args \<noteq> []" "length args < 100"
    and "\<forall>i<1024. in_user_page (buf + word_of_nat i)" and "line_waiting k line"
    and "\<forall>i<4. in_user_page (pbad + word_of_nat i) \<and> \<not> in_range buf 1024 (pbad + word_of_nat i)"
    and "load32 (vmem k) pbad = 0" and "user_load 0 k = None"
  shows "(\<forall>n a j. ece391_set_handler env n a j = Some (- 1, trapped env j)) \<and>
    (\<exists>k'. sigtest_main env pbad buf charbuf h k = Some (Inl (Stopped k')) \<and> \<not> iflag k' \<and>
       fore_console k' = fold con_putc (install_text args @ ascii ''Hi, what's your name? '' @ ascii ''Page Fault'') (fore_console k))"
proof -
  obtain k1 cnt where k1: "prints env (in_range buf 1024) k (install_text args @ ascii ''Hi, what's your name? '') k1"
    and main: "sigtest_main env pbad buf charbuf h k = (case user_store (load32 (vmem k1) pbad) 1 k1 of
      None \<Rightarrow> map_option Inl (page_fault k1) | Some k \<Rightarrow> map_option Inr (sigtest_rest env buf charbuf cnt k))"
    using sigtest_reaches_store [OF assms(1-5) _ assms(7)] assms(6) by blast
  have step: "user_step (in_range buf 1024) k k1" and "screen_ok k1" using k1 by (simp_all add: prints_def program_ok_def)
  have "load32 (vmem k1) pbad = 0" using load32_kept [OF assms(1) step assms(8)] assms(9) by simp
  moreover have "translate k1 = translate k" by (rule user_step_fields [OF step])
  then have "user_store 0 1 k1 = None" using assms(10) by (auto simp: user_store_def user_load_def split: option.splits bool.splits)
  ultimately have "sigtest_main env pbad buf charbuf h k = map_option Inl (page_fault k1)" using main by simp
  moreover obtain k' where "page_fault k1 = Some (Stopped k')" "\<not> iflag k'"
      "fore_console k' = fold con_putc (ascii ''Page Fault'') (fore_console k1)"
    using page_fault_prints [OF \<open>screen_ok k1\<close>] by blast
  ultimately show ?thesis using k1 by (simp add: prints_def user_set_handler)
qed

lemma program_null: "user_load 0 (program_kernel lits args line) = None"
proof -
  have "translate sample_kernel 0 = translate (paging_init some_kernel) 0"
    using translate_page_remap_other [where w = 0 and v = "0x8000000" and k = "paging_init some_kernel"] by (simp add: sample_kernel_def)
  also have "\<dots> = None" by (subst translate_init_low [OF some_kernel_linked]) simp_all
  finally show ?thesis by (simp add: user_load_def)
qed

lemma sigtest_faults_witness:
  "\<exists>k'. sigtest_main (program_env [''Installing signal handlers'' @ newline, ''Hi, what's your name? '']) 0x8000404 0x8000000 0x8000400 (\<lambda>_. 0x8048000)
      (program_kernel [''Installing signal handlers'' @ newline, ''Hi, what's your name? ''] [0x31] (ascii ''me'')) = Some (Inl (Stopped k')) \<and>
    \<not> iflag k' \<and> fore_console k' = fold con_putc (ascii (''Installing signal handlers'' @ newline @ ''Hi, what's your name? Page Fault''))
      (fore_console (program_kernel [''Installing signal handlers'' @ newline, ''Hi, what's your name? ''] [0x31] (ascii ''me'')))"
proof -
  let ?l = "[''Installing signal handlers'' @ newline, ''Hi, what's your name? '']"
  let ?k = "program_kernel ?l [0x31] (ascii ''me'')"
  have "literals_ok (program_env ?l) (in_range 0x8000000 1024) ?k (set ?l)"
    by (rule program_literals) (simp_all add: ascii_def newline_def)
  moreover have "set ?l = sigtest_literals" by (simp add: sigtest_literals_def)
  ultimately have lit: "literals_ok (program_env ?l) (in_range 0x8000000 1024) ?k sigtest_literals" by (simp only:)
  have arg: "cstr (arr (argbuf (pcbs ?k (current_process ?k)))) [0x31]"
    by (simp add: program_kernel_def program_pcb_def) (rule cstr_arr [of "[0x31]", simplified])
  have page: "\<forall>i<1024. in_user_page (0x8000000 + word_of_nat i)" using program_page [of 1024] by simp
  have line: "line_waiting ?k (ascii ''me'')" by (rule program_line) simp
  have at: "in_user_page (0x8000404 + word_of_nat i) \<and> \<not> in_range 0x8000000 1024 (0x8000404 + word_of_nat i) \<and>
      vmem ?k (0x8000404 + word_of_nat i) = 0" if "i < 4" for i
  proof -
    from that have "i = 0 \<or> i = 1 \<or> i = 2 \<or> i = 3" by arith
    then show ?thesis
      by (elim disjE) (simp_all add: in_user_page_def in_range_def program_user program_mem_def sample_mem_def)
  qed
  then have bad: "\<forall>i<4. in_user_page (0x8000404 + word_of_nat i) \<and> \<not> in_range 0x8000000 1024 (0x8000404 + word_of_nat i)" by blast
  have null: "load32 (vmem ?k) 0x8000404 = 0" using at [of 0] at [of 1] at [of 2] at [of 3] by (simp add: load32_def)
  have "install_text [0x31] @ ascii ''Hi, what's your name? '' @ ascii ''Page Fault'' =
      ascii (''Installing signal handlers'' @ newline @ ''Hi, what's your name? Page Fault'')"
    by (simp add: install_text_def ascii_def)
  then show ?thesis
    using sigtest_faults [OF program_kernel_ok lit arg _ _ page line bad null program_null, where charbuf = "0x8000400" and h = "\<lambda>_. 0x8048000"]
    by auto
qed

section \<open>The picture of pingpong\<close>

text \<open>The picture with the character at \<open>j\<close>: a line of 80 columns with its two walls.\<close>

definition empty_picture :: "u8 list" where
  "empty_picture = [of_char (CHR '' ''), of_char (CHR ''|'')] @ replicate 76 (of_char (CHR '' '')) @ [of_char (CHR ''|''), 0x0A]"

definition picture :: "u8 \<Rightarrow> nat \<Rightarrow> u8 list" where
  "picture c j = empty_picture[j := c]"

lemma length_empty_picture [simp]: "length empty_picture = 80"
  by (simp add: empty_picture_def)

lemma length_picture [simp]: "length (picture c j) = 80"
  by (simp add: picture_def)

lemma nth_empty_picture:
  "empty_picture ! 0 = of_char (CHR '' '')" "empty_picture ! 1 = of_char (CHR ''|'')"
  "empty_picture ! 78 = of_char (CHR ''|'')" "empty_picture ! 79 = 0x0A" "2 \<le> i \<Longrightarrow> i < 78 \<Longrightarrow> empty_picture ! i = of_char (CHR '' '')"
  by (simp_all add: empty_picture_def nth_append nth_Cons')

definition walls_at :: "addr \<Rightarrow> mem \<Rightarrow> bool" where
  "walls_at buf m \<longleftrightarrow> m buf = of_char (CHR '' '') \<and> m (buf + 1) = of_char (CHR ''|'') \<and> m (buf + 78) = of_char (CHR ''|'') \<and>
     m (buf + 79) = 0x0A \<and> m (buf + 80) = 0"

lemma set_chars_apply:
  "\<forall>j\<in>set js. j < 4294967296 \<Longrightarrow> i < 4294967296 \<Longrightarrow>
   set_chars buf js c m (buf + word_of_nat i) = (if i \<in> set js then c else m (buf + word_of_nat i))"
  unfolding set_chars_def by (induction js arbitrary: m) (auto dest: word_of_nat_inj32)

lemma walls_result: "walls_at buf (pingpong_walls buf m)"
proof -
  have "set_chars buf [0..<BUFMAX] (of_char (CHR '' '')) m (buf + word_of_nat 0) = of_char (CHR '' '')"
    by (subst set_chars_apply) (simp_all add: BUFMAX_def del: upt_rec_numeral)
  then show ?thesis by (simp add: walls_at_def pingpong_walls_def Let_def)
qed

lemma draw_result:
  assumes "walls_at buf m" and "2 \<le> j" "j < 78"
  shows "bytes (pingpong_draw buf j c m) buf 80 = picture c j" "walls_at buf (pingpong_draw buf j c m)"
proof -
  have at: "pingpong_draw buf j c m (buf + word_of_nat i) =
      (if i = j then c else if 2 \<le> i \<and> i < 78 then of_char (CHR '' '') else m (buf + word_of_nat i))" if "i < 81" for i
    using that assms(3) word_of_nat_inj32 [of i j]
    by (auto simp: pingpong_draw_def set_chars_apply STARTLOOP_def LOOPMAX_def simp del: upt_rec_numeral)
  show "walls_at buf (pingpong_draw buf j c m)"
    using assms at [of 0] at [of 1] at [of 78] at [of 79] at [of 80] by (simp add: walls_at_def)
  show "bytes (pingpong_draw buf j c m) buf 80 = picture c j"
  proof (rule bytes_eqI)
    fix i :: nat assume i: "i < 80"
    have outside: "i < 2 \<or> 78 \<le> i \<Longrightarrow> i = 0 \<or> i = 1 \<or> i = 78 \<or> i = 79" using i by auto
    show "pingpong_draw buf j c m (buf + word_of_nat i) = picture c j ! i"
      using i assms outside at [of i]
      by (auto simp: picture_def walls_at_def nth_list_update nth_empty_picture nth_empty_picture [unfolded One_nat_def])
  qed simp
qed

lemma set_chars_outside: "\<forall>j\<in>set js. x \<noteq> buf + word_of_nat j \<Longrightarrow> set_chars buf js c m x = m x"
  unfolding set_chars_def by (induction js arbitrary: m) auto

lemma write_bytes_whole:
  assumes "n < 4294967296" and out: "\<And>x. \<not> in_range buf n x \<Longrightarrow> m' x = m x"
  shows "write_bytes buf (bytes m' buf n) m = m'"
proof
  fix x
  have "bytes m' buf n ! unat (x - buf) = m' x" if "unat (x - buf) < n" using that assms(1) by (simp add: nth_bytes)
  then show "write_bytes buf (bytes m' buf n) m x = m' x" using assms(1) out [of x] by (simp add: write_bytes_apply in_range_def)
qed

text \<open>One picture is on the screen.\<close>

lemma pingpong_shows:
  assumes ok: "program_ok env k" and page: "\<And>i. i < 81 \<Longrightarrow> in_user_page (buf + word_of_nat i)"
    and walls: "walls_at buf (vmem k)" and j: "2 \<le> j" "j < 78" and c: "c \<noteq> 0" "c \<noteq> 37"
  shows "\<exists>k'. ece391_fdputs env 1 buf (set_vmem (pingpong_draw buf j c (vmem k)) k) = Some k' \<and>
    prints env (in_range buf 81) k (picture c j) k'"
proof -
  let ?m = "pingpong_draw buf j c (vmem k)"
  let ?xs = "bytes ?m buf 81" and ?k = "set_vmem ?m k"
  have out: "?m x = vmem k x" if "\<not> in_range buf 81 x" for x
  proof -
    have "x \<noteq> buf + word_of_nat i" if "i < 81" for i using that \<open>\<not> in_range buf 81 x\<close> in_range_offset [of i 81 buf] by auto
    then show ?thesis using j unfolding pingpong_draw_def by (simp add: set_chars_outside STARTLOOP_def LOOPMAX_def del: upt_rec_numeral)
  qed
  have m: "write_bytes buf ?xs (vmem k) = ?m" by (rule write_bytes_whole [OF _ out]) simp_all
  have pagex: "\<And>i. i < length ?xs \<Longrightarrow> in_user_page (buf + word_of_nat i)" and len: "length ?xs < 4294967296" using page by simp_all
  note silent = silent_buffer [OF ok pagex len, unfolded m]
  have s: "silent_step (in_range buf 81) k ?k" using silent(1) by simp
  have len81: "length ?xs \<le> 81" "(81 :: nat) < 4294967296" by simp_all
  have "bytes (vmem ?k) buf 81 = ?xs" using buffer_bytes [OF ok page len81] unfolding m by simp
  also have "\<dots> = bytes ?m buf 80 @ [?m (buf + 80)]" using bytes_add [of ?m buf 80 1] by (simp add: bytes_Suc_0)
  also have "\<dots> = picture c j @ 0 # []" using draw_result [OF walls j] by (simp add: walls_at_def)
  finally have bytes81: "bytes (vmem ?k) buf 81 = picture c j @ 0 # []" .
  have set: "set (picture c j) \<subseteq> {c, of_char (CHR '' ''), of_char (CHR ''|''), 0x0A}"
    unfolding picture_def by (rule order_trans [OF set_update_subset_insert]) (auto simp: empty_picture_def)
  have "0 \<notin> set (picture c j)" "37 \<notin> set (picture c j)" using c subsetD [OF set] by force+
  note plain = this
  have str: "user_string ?k buf (picture c j)" by (rule user_string_bytes [OF bytes81 plain(1) _ page]) simp
  obtain k' where k': "ece391_fdputs env 1 buf ?k = Some k'" "print_step ?k k'" "program_ok env k'"
    "fore_console k' = fold con_putc (picture c j) (fore_console ?k)"
    using user_fdputs [OF silent(3) str plain(2)] by blast
  have "prints env (in_range buf 81) ?k (picture c j) k'" using k' print_step_user by (simp add: prints_def)
  then show ?thesis using k'(1) prints_after_silent [OF s] by blast
qed

end
