(* ===== verification/Spec2Isabelle.thy ===== *)
theory Spec2Isabelle
  imports User_Programs Syserr Grep Fish_Frames Signals
begin

text \<open>
  A model of the operating system of this repository and of the programs that run on it.

  \<^bold>\<open>The program.\<close> The kernel, in \<^verbatim>\<open>student-distrib\<close>, starts with \<^verbatim>\<open>entry\<close>, sets up the descriptor
  tables, the interrupt controllers, the keyboard, the real time clock, paging and the timer, and
  executes the first of three shells. From then on it runs only when something enters it: a
  system call of a program, a key, a tick of the timer or of the clock, or an exception. A system
  call goes through the jump table of \<^verbatim>\<open>interrupts.S\<close> to \<^verbatim>\<open>syscalls.c\<close>, which finds the process from
  the stack pointer and calls the operation of its descriptor: a file or the directory
  (\<^verbatim>\<open>filesys.c\<close>), the clock (\<^verbatim>\<open>rtc.c\<close>) or the terminal (\<^verbatim>\<open>terminal.c\<close>). The terminal reads the line
  that the keyboard handler has edited (\<^verbatim>\<open>keyboard.c\<close>) and prints with \<^verbatim>\<open>lib.c\<close>. Alt with a function
  key changes the terminal on the screen; every tick of the timer goes on to the process of the
  next terminal (\<^verbatim>\<open>scheduler.c\<close>). The programs are in \<^verbatim>\<open>syscalls\<close> and \<^verbatim>\<open>fish\<close>.

  \<^bold>\<open>State.\<close> The record \<open>kernel\<close> of \<open>Kernel_State\<close> has a field for every global variable of the C
  files, the physical memory, the page tables, the control registers, the stack registers and
  the interrupt flag. Devices are the log of the port accesses and a function that gives the
  answer to a read from that log. An operation takes the state and returns it changed; memory is
  read through the page tables (\<open>translate\<close> and \<open>vmem\<close> of \<open>Paging\<close>) as soon as paging is on. The
  record \<open>blink\<close> has the variables of \<^verbatim>\<open>fish/blink.S\<close>. A word has the width of its C type, and
  signed comparisons are written \<open><s\<close>.

  \<^bold>\<open>Results.\<close> A call that may not return has an option type: \<open>None\<close> is a loop that does not end
  (a read that waits for a key or a tick that never comes, a string without NUL), a page fault,
  or an access past the end of an array, which C leaves undefined. An error that the code
  reports is the value that the code returns. The
  loops that may run forever are \<^verbatim>\<open>partial_function\<close>s, so no bound or fuel is chosen, and a
  theorem that such a function gives \<open>Some\<close> says that the code returns. \<^verbatim>\<open>execute\<close> and \<^verbatim>\<open>halt\<close> leave
  by a type \<open>outcome\<close>: returned, gone to user code, or resumed in the frame of the parent.

  \<^bold>\<open>Theories of the kernel\<close>, in the order of their imports:
  \<^item> \<open>Prelude\<close>: names of machine types, byte memory, little endian words, C strings.
  \<^item> \<open>Lib_String\<close>: the string and memory routines of \<^verbatim>\<open>lib.c\<close>. They compute what list functions
    do; \<^verbatim>\<open>itoa\<close> prints the number that its digits denote.
  \<^item> \<open>Kernel_State\<close>: the structures, the state, port access, the interrupt flag.
  \<^item> \<open>I8259\<close>, \<open>Rtc\<close>: \<^verbatim>\<open>i8259.c\<close> and \<^verbatim>\<open>rtc.c\<close>. Abstract chips are run on the log of the port accesses.
  \<^item> \<open>Paging\<close>: \<^verbatim>\<open>paging.c\<close>; what the entries map, and that the pages of processes are apart.
  \<^item> \<open>Pcb\<close>: from the stack pointer or the number of a process to its control block.
  \<^item> \<open>Filesys\<close>, \<open>File_Ops\<close>: \<^verbatim>\<open>filesys.c\<close>. The specification of the image is a list of names and, for
    each inode, the list of the bytes of the file; lookups, reads at any position, sequences of
    reads and the listing of the directory refine it.
  \<^item> \<open>Screen\<close>, \<open>Printf\<close>: the console of \<^verbatim>\<open>lib.c\<close>, for the terminal on the screen and for one in the
    background. The specification is a grid of cells with a cursor (\<open>con_putc\<close>). The locale
    \<open>console_output\<close> has the contract of a function that prints a character and proves \<^verbatim>\<open>puts\<close> and
    \<^verbatim>\<open>printf\<close> once; it is interpreted on \<^verbatim>\<open>putc\<close> and \<^verbatim>\<open>putc_terminal_active\<close>.
  \<^item> \<open>Keyboard\<close>, \<open>Terminal_Io\<close>: the line editor of \<^verbatim>\<open>keyboard.c\<close> and the terminal as a device. Keys
    refine edits of a list of characters, \<^verbatim>\<open>ENTER\<close> included, and a read gives the line that was
    typed. The one store past the end of the line buffer, that of an \<^verbatim>\<open>ENTER\<close> with 128 characters in
    it (\<open>overruns\<close>), is the result \<open>None\<close>.
  \<^item> \<open>Syscalls\<close>: the calls on descriptors. The locale \<open>driver\<close> has what they rely on in a device, and
    is interpreted on the clock, the directory, files and the terminal.
  \<^item> \<open>Process\<close>: \<^verbatim>\<open>execute\<close>, \<^verbatim>\<open>halt\<close> and the other calls on processes. \<^verbatim>\<open>execute\<close> loads the program
    and enters it; \<^verbatim>\<open>halt\<close> brings back the machine of its parent.
  \<^item> \<open>Terminal\<close>: the switch between terminals; every terminal keeps the cells of its screen, its
    cursor and its line with the bytes of its buffer (\<open>screen_of\<close>).
  \<^item> \<open>Scheduler\<close>: the timer, the round robin, and the relation \<open>sched_step\<close> of ticks and of the steps
    between them, with the round trip of a process and the bound on the ticks until a terminal runs.
  \<^item> \<open>Interrupts\<close>: the keyboard handler and the system call handler.
  \<^item> \<open>Kept\<close>: which parts of the state each operation of the kernel leaves alone, as relations
    (\<open>keeps\<close>, \<open>keeps_books\<close>). The locale \<open>kept_output\<close> proves it once for what prints characters and
    is interpreted on both \<^verbatim>\<open>putc\<close> functions.
  \<^item> \<open>Machine\<close>: the machine as a whole, as the relation \<open>machine_step\<close>: a program runs, the timer, the
    clock or the keyboard interrupts it, or it makes a system call. \<open>machine_ok\<close> is the invariant of
    the bookkeeping of processes and terminals, by rule induction over these steps.
  \<^item> \<open>Idt\<close>: the table of gates as the processor reads it, the handlers of the exceptions.
  \<^item> \<open>Boot\<close>: \<^verbatim>\<open>entry\<close>, from the Multiboot structures to the first shell, where \<open>machine_ok\<close> holds.

  \<^bold>\<open>Theories of the programs\<close>:
  \<^item> \<open>User_Lib\<close>: \<^verbatim>\<open>ece391support.c\<close>; it agrees with the routines of the kernel.
  \<^item> \<open>User_Calls\<close>: the wrappers of \<^verbatim>\<open>ece391syscall.S\<close>. \<open>program_ok\<close> is what holds of the machine while
    a program runs; \<open>user_step\<close> is what a call may change; \<open>prints\<close> adds the text that it puts on
    the screen. A program is a function on the machine, and its buffers and string literals are
    at addresses in its page that are arguments. What another program does that it executes is
    part of the record \<open>user_env\<close>.
  \<^item> \<open>User_Sample\<close>: a concrete machine that satisfies the hypotheses of these theorems.
  \<^item> \<open>User_Programs\<close>: \<^verbatim>\<open>ls\<close>, \<^verbatim>\<open>cat\<close>, \<^verbatim>\<open>hello\<close>, \<^verbatim>\<open>testprint\<close>, \<^verbatim>\<open>counter\<close> and \<^verbatim>\<open>shell\<close>.
  \<^item> \<open>Syserr\<close>: the test program of the system calls, which passes.
  \<^item> \<open>Grep\<close>: \<^verbatim>\<open>grep\<close>; it prints the lines that contain the pattern as a sublist.
  \<^item> \<open>Blink\<close>, \<open>Fish\<close>, \<open>Fish_Frames\<close>: \<^verbatim>\<open>blink.S\<close> and \<^verbatim>\<open>fish.c\<close>. The linked list of blinking characters
    refines a list without links, and the program draws its two frames, line by line, through the
    page of the screen that \<^verbatim>\<open>vidmap\<close> gives it.
  \<^item> \<open>Signals\<close>: \<^verbatim>\<open>sigtest\<close>, up to the page fault handler of the kernel that ends its run, and
    \<^verbatim>\<open>pingpong\<close>.

  \<^bold>\<open>Hypotheses.\<close> Theorems on programs take a machine that is \<open>program_ok\<close>, with the terminal of
  the program on the screen, so that no tick or switch comes between its calls, and text
  without \<^verbatim>\<open>%\<close> where the kernel would take it for a format. Theorems on file contents take an image
  whose tables are inside the image. The steps of \<open>machine_step\<close> leave out two uses of the kernel
  that break its invariant, because the code is wrong there: a program that starts another while its
  terminal is not on the screen, and the end of a program that has a parent, which lowers the
  kernel stack of the parent (\<open>Process\<close> has what these calls do). The
  blinking list of \<^verbatim>\<open>fish\<close> is right as long as location 0 is not used. The witnesses evaluate them on the sample machines.

  \<^bold>\<open>Arguments.\<close> Addresses that the linker chooses, variables that the code reads without having set
  them, the words on the stack behind a call, and the answers of devices are arguments of the
  definitions.

  \<^bold>\<open>Not modelled.\<close> \<^verbatim>\<open>tests.c\<close> holds interactive tests that the kernel does not call. \<^verbatim>\<open>boot.S\<close> ends
  where the model starts, and \<^verbatim>\<open>debug.h\<close> holds macros that are not used. \<^verbatim>\<open>ece391emulate.c\<close> emulates
  the system calls on Linux with its C library. \<^verbatim>\<open>fish\<close> has second copies of the support library and
  of the wrappers. The sources of \<^verbatim>\<open>createfs\<close> and \<^verbatim>\<open>elfconvert\<close> are not in the repository. The code
  of a program is not executed as machine instructions, and neither the bytes of its stack frames
  nor the translation buffer of the processor are part of the state. An interrupt that comes
  between two statements of a function is a step before or after it.
\<close>

end
